(* ===== verification/GE_Prelude.thy ===== *)
theory GE_Prelude
  imports Main "HOL-Library.Word" "HOL-Library.Signed_Division"
begin

text \<open>
  Shared foundations of the development: the status codes, the result type of fallible code, the
  \<open>for\<close> loops of the source, vector accesses, and \<open>int64_t\<close> arithmetic with its wrap-around.

  \<^item> \<open>int64_t\<close> values are \<open>int\<close>s; every assignment to an \<open>int64_t\<close> variable in the
    source goes through \<open>i64\<close>, two's complement wrap-around at 64 bits. Since \<open>+\<close>, \<open>-\<close> and
    \<open>*\<close> are congruences modulo \<open>2 ^ 64\<close>, one \<open>i64\<close> per assigned expression is the same as one
    per operator (lemmas \<open>i64_simps\<close>).
\<close>

section \<open>Status codes and fallible code\<close>

datatype Status = SUCCESS | FAILED | PARAM_INVALID | UNSUPPORTED | INTERNAL_ERROR | OUT_OF_MEMORY
  | NOT_CHANGED | ACL_ERROR_GE_TRANSSHAPE_SHAPE_INVALID | ACL_ERROR_GE_TRANSSHAPE_DATATYPE_INVALID
  | ACL_ERROR_GE_TRANSSHAPE_FORMAT_INVALID | ACL_ERROR_GE_MEMORY_ALLOCATION
  | ACL_ERROR_GE_INTERNAL_ERROR | MEMALLOC_FAILED | GE_MULTI_INIT | GE_GRAPH_MALLOC_FAILED | GE_GRAPH_FREE_FAILED

text \<open>
  A failed call either returns a status other than \<open>SUCCESS\<close> or performs a memory access
  outside a buffer (undefined behaviour), which the model keeps apart as \<open>Fault\<close>.
\<close>

datatype error = Ret Status | Fault

type_synonym 'a res = "error + 'a"

definition and_then :: "'a res \<Rightarrow> ('a \<Rightarrow> 'b res) \<Rightarrow> 'b res" where
  "and_then m f = (case m of Inl e \<Rightarrow> Inl e | Inr x \<Rightarrow> f x)"

lemma and_then_simps [simp]:
  "and_then (Inl e) f = Inl e" "and_then (Inr x) f = f x"
  by (simp_all add: and_then_def)

lemma and_then_eq_Inr:
  "and_then m f = Inr y \<longleftrightarrow> (\<exists>x. m = Inr x \<and> f x = Inr y)"
  by (cases m) auto

text \<open>\<open>for (int64_t i = 0; i < n; i++) body\<close>, leaving the loop at the first \<open>return\<close>.\<close>

primrec for_upt :: "nat \<Rightarrow> int \<Rightarrow> (int \<Rightarrow> 's \<Rightarrow> 's res) \<Rightarrow> 's \<Rightarrow> 's res" where
  "for_upt 0 i body s = Inr s"
| "for_upt (Suc k) i body s = and_then (body i s) (for_upt k (i + 1) body)"

definition for_lt :: "int \<Rightarrow> (int \<Rightarrow> 's \<Rightarrow> 's res) \<Rightarrow> 's \<Rightarrow> 's res" where
  "for_lt n body s = for_upt (nat n) 0 body s"

text \<open>
  A dereferenced pointer and an element of a vector at a computed index: a null pointer and an index outside the
  vector are faults.
\<close>

definition deref :: "'a option \<Rightarrow> 'a res" where
  "deref p = (case p of None \<Rightarrow> Inl Fault | Some x \<Rightarrow> Inr x)"

definition at_index :: "'a list \<Rightarrow> int \<Rightarrow> 'a res" where
  "at_index xs i = (if 0 \<le> i \<and> i < int (length xs) then Inr (xs ! nat i) else Inl Fault)"

section \<open>Machine integers\<close>

definition i64 :: "int \<Rightarrow> int" where
  "i64 x = (x + 2 ^ 63) mod 2 ^ 64 - 2 ^ 63"

definition u64 :: "int \<Rightarrow> int" where
  "u64 x = x mod 2 ^ 64"

abbreviation in_i64 :: "int \<Rightarrow> bool" where
  "in_i64 x \<equiv> - (2 ^ 63) \<le> x \<and> x < 2 ^ 63"

lemma i64_id: "- (2 ^ 63) \<le> x \<Longrightarrow> x < 2 ^ 63 \<Longrightarrow> i64 x = x"
  by (simp add: i64_def)

lemma i64_nonneg_id [simp]: "0 \<le> x \<Longrightarrow> x < 2 ^ 63 \<Longrightarrow> i64 x = x"
  by (simp add: i64_def)

lemma i64_range: "in_i64 (i64 x)"
proof -
  have "0 \<le> (x + 2 ^ 63) mod 2 ^ 64" and "(x + 2 ^ 63) mod 2 ^ 64 < (2 ^ 64 :: int)"
    by simp_all
  then show ?thesis
    unfolding i64_def by simp
qed

lemma i64_cong_iff: "i64 x = i64 y \<longleftrightarrow> x mod 2 ^ 64 = y mod 2 ^ 64"
  by (simp add: i64_def mod_eq_dvd_iff)

lemma i64_mod: "i64 x mod 2 ^ 64 = x mod 2 ^ 64"
proof -
  have "i64 x mod 2 ^ 64 = ((x + 2 ^ 63) mod 2 ^ 64 - 2 ^ 63) mod 2 ^ 64"
    by (simp only: i64_def)
  also have "\<dots> = (x + 2 ^ 63 - 2 ^ 63) mod 2 ^ 64"
    by (simp only: mod_diff_left_eq)
  finally show ?thesis by simp
qed

lemma i64_simps:
  "i64 (i64 a) = i64 a"
  "i64 (i64 a + b) = i64 (a + b)" "i64 (a + i64 b) = i64 (a + b)"
  "i64 (i64 a - b) = i64 (a - b)" "i64 (a - i64 b) = i64 (a - b)"
  "i64 (i64 a * b) = i64 (a * b)" "i64 (a * i64 b) = i64 (a * b)"
  by (simp_all only: i64_cong_iff i64_mod mod_add_left_eq [of "i64 _", symmetric]
      mod_add_right_eq [of _ "i64 _", symmetric] mod_diff_left_eq [of "i64 _", symmetric]
      mod_diff_right_eq [of _ "i64 _", symmetric] mod_mult_left_eq [of "i64 _", symmetric]
      mod_mult_right_eq [of _ "i64 _", symmetric])
    (simp_all only: mod_add_left_eq mod_add_right_eq mod_diff_left_eq mod_diff_right_eq
      mod_mult_left_eq mod_mult_right_eq)

lemma u64_id [simp]: "0 \<le> x \<Longrightarrow> x < 2 ^ 64 \<Longrightarrow> u64 x = x"
  by (simp add: u64_def)

lemma sdiv_nonneg [simp]: "0 \<le> a \<Longrightarrow> 0 < b \<Longrightarrow> a sdiv b = a div (b :: int)"
  by (cases "a = 0") (simp_all add: signed_divide_int_def)

lemma smod_nonneg [simp]: "0 \<le> a \<Longrightarrow> 0 < b \<Longrightarrow> a smod b = a mod (b :: int)"
  by (cases "a = 0") (simp_all add: signed_modulo_int_def)

text \<open>
  Expressions that agree up to wrap-around. The rules \<open>wrap_eq_intros\<close> compute, for an address
  expression of the source, the same expression without the intermediate wrap-arounds.
\<close>

definition wrap_eq :: "int \<Rightarrow> int \<Rightarrow> bool" where
  "wrap_eq a b \<longleftrightarrow> a mod 2 ^ 64 = b mod 2 ^ 64"

lemma wrap_eq_i64: "wrap_eq a b \<Longrightarrow> wrap_eq (i64 a) b"
  by (simp only: wrap_eq_def i64_mod)

lemma wrap_eq_add: "wrap_eq a a' \<Longrightarrow> wrap_eq b b' \<Longrightarrow> wrap_eq (a + b) (a' + b')"
  unfolding wrap_eq_def by (rule mod_add_cong)

lemma wrap_eq_diff: "wrap_eq a a' \<Longrightarrow> wrap_eq b b' \<Longrightarrow> wrap_eq (a - b) (a' - b')"
  unfolding wrap_eq_def by (rule mod_diff_cong)

lemma wrap_eq_mult: "wrap_eq a a' \<Longrightarrow> wrap_eq b b' \<Longrightarrow> wrap_eq (a * b) (a' * b')"
  unfolding wrap_eq_def by (rule mod_mult_cong)

lemma wrap_eq_refl: "wrap_eq a a"
  by (simp add: wrap_eq_def)

lemmas wrap_eq_intros = wrap_eq_i64 wrap_eq_add wrap_eq_diff wrap_eq_mult wrap_eq_refl

lemma i64_wrap_eq: "wrap_eq a b \<Longrightarrow> i64 a = i64 b"
  by (simp only: wrap_eq_def i64_cong_iff)

lemma i64_eqI: "wrap_eq a b \<Longrightarrow> b = c \<Longrightarrow> 0 \<le> c \<Longrightarrow> c < 2 ^ 63 \<Longrightarrow> i64 a = c"
  using i64_wrap_eq [of a b] by simp

end
