(* ===== verification/GE_Memory.thy ===== *)
theory GE_Memory
  imports GE_Prelude
begin

text \<open>
  Byte buffers, the secure copy routines of the C library (ISO C Annex K, as the source calls them)
  and the reasoning about loops that fill a buffer element by element: \<open>fills\<close> says which
  elements of a buffer a piece of code writes and with what, and its rules follow the shape of the
  code (a sequence, a loop, a copy, a zero fill).

  \<^item> A buffer is a list of bytes, \<open>None\<close> standing for a byte that was never written; a null
    pointer is \<open>None\<close> of type \<open>mem option\<close>.
  \<^item> What the source calls but this repository does not contain (the size of a data type, the
    length limit of the secure C library, whether an allocation succeeds) is the \<open>platform\<close> record,
    an argument of every definition that depends on it.
\<close>

section \<open>Buffers\<close>

type_synonym byte = "8 word"

type_synonym mem = "byte option list"

datatype DataType = DT_UNDEFINED | DT_FLOAT | DT_FLOAT16 | DT_INT8 | DT_UINT8 | DT_INT16 | DT_UINT16
  | DT_INT32 | DT_INT64 | DT_UINT32 | DT_UINT64 | DT_BOOL | DT_DOUBLE | DT_STRING | DT_DUAL_SUB_INT8
  | DT_DUAL_SUB_UINT8 | DT_COMPLEX64 | DT_COMPLEX128 | DT_QINT8 | DT_QINT16 | DT_QINT32 | DT_QUINT8
  | DT_QUINT16 | DT_RESOURCE | DT_STRING_REF | DT_DUAL | DT_VARIANT

text \<open>
  Code outside the repository: \<open>GetSizeByDataType\<close> (graph library; not positive for a type
  without a fixed size), the limit \<open>SECUREC_MEM_MAX_LEN\<close> of the secure C library, and the
  outcome of \<open>new (std::nothrow) uint8_t[n]\<close>.
\<close>

record platform =
  GetSizeByDataType :: "DataType \<Rightarrow> int"
  SECUREC_MEM_MAX_LEN :: int
  new_succeeds :: "int \<Rightarrow> bool"

definition new_bytes :: "platform \<Rightarrow> int \<Rightarrow> mem option" where
  "new_bytes pf n =
     (if 0 \<le> n \<and> new_succeeds pf n then Some (replicate (nat n) None) else None)"

definition new_bytes_zeroed :: "platform \<Rightarrow> int \<Rightarrow> mem option" where
  "new_bytes_zeroed pf n =
     (if 0 \<le> n \<and> new_succeeds pf n then Some (replicate (nat n) (Some 0)) else None)"

definition mem_write :: "mem \<Rightarrow> int \<Rightarrow> mem \<Rightarrow> mem" where
  "mem_write m off bs = take (nat off) m @ bs @ drop (nat off + length bs) m"

definition mem_read :: "mem \<Rightarrow> int \<Rightarrow> int \<Rightarrow> mem" where
  "mem_read m off cnt = take (nat cnt) (drop (nat off) m)"

definition in_bounds :: "mem \<Rightarrow> int \<Rightarrow> int \<Rightarrow> bool" where
  "in_bounds m off cnt \<longleftrightarrow> 0 \<le> off \<and> 0 \<le> cnt \<and> off + cnt \<le> int (length m)"

datatype errno = EOK | ERANGE | EINVAL

text \<open>
  \<open>memcpy_s (dst + doff, destMax, src + soff, count)\<close>: a runtime-constraint violation (a null
  pointer, \<open>destMax\<close> zero or above the library's limit, \<open>count\<close> above \<open>destMax\<close>) is
  reported as a non-zero \<open>errno_t\<close>; every caller then drops the destination, so its
  contents are left as they were. Otherwise \<open>count\<close> bytes are copied, and a copy that leaves
  one of the buffers is a fault. Lengths are converted to \<open>size_t\<close>.
\<close>

definition memcpy_s ::
  "platform \<Rightarrow> mem option \<Rightarrow> int \<Rightarrow> int \<Rightarrow> mem option \<Rightarrow> int \<Rightarrow> int \<Rightarrow> (errno \<times> mem option) res"
where
  "memcpy_s pf dst doff destMax src soff count =
     (if u64 destMax = 0 \<or> SECUREC_MEM_MAX_LEN pf < u64 destMax then Inr (ERANGE, dst)
      else case (dst, src) of
        (Some d, Some s) \<Rightarrow>
          if u64 destMax < u64 count then Inr (ERANGE, dst)
          else if in_bounds d doff (u64 count) \<and> in_bounds s soff (u64 count)
          then Inr (EOK, Some (mem_write d doff (mem_read s soff (u64 count))))
          else Inl Fault
      | _ \<Rightarrow> Inr (EINVAL, dst))"

text \<open>\<open>memset_s (dst + doff, destMax, 0, count)\<close>\<close>

definition memset_s ::
  "platform \<Rightarrow> mem option \<Rightarrow> int \<Rightarrow> int \<Rightarrow> int \<Rightarrow> (errno \<times> mem option) res"
where
  "memset_s pf dst doff destMax count =
     (if u64 destMax = 0 \<or> SECUREC_MEM_MAX_LEN pf < u64 destMax then Inr (ERANGE, dst)
      else case dst of
        Some d \<Rightarrow>
          if u64 destMax < u64 count then Inr (ERANGE, dst)
          else if in_bounds d doff (u64 count)
          then Inr (EOK, Some (mem_write d doff (replicate (nat (u64 count)) (Some 0))))
          else Inl Fault
      | None \<Rightarrow> Inr (EINVAL, dst))"

text \<open>\<open>if (ret != EOK) return INTERNAL_ERROR;\<close>\<close>

definition check_eok :: "(errno \<times> mem option) res \<Rightarrow> mem option res" where
  "check_eok r = and_then r (\<lambda>(ret, dst). if ret \<noteq> EOK then Inl (Ret INTERNAL_ERROR) else Inr dst)"

text \<open>
  The byte loop \<open>for (index = 0; index < size; index++) *dst_data++ = *src_data++;\<close> of the
  transfers that copy without the library.
\<close>

definition copy_bytes :: "mem option \<Rightarrow> int \<Rightarrow> mem option \<Rightarrow> int \<Rightarrow> int \<Rightarrow> mem option res" where
  "copy_bytes dst doff src soff sz =
     (case (dst, src) of
        (Some d, Some s) \<Rightarrow>
          if sz \<le> 0 then Inr dst
          else if in_bounds d doff sz \<and> in_bounds s soff sz
          then Inr (Some (mem_write d doff (mem_read s soff sz)))
          else Inl Fault
      | _ \<Rightarrow> if sz \<le> 0 then Inr dst else Inl Fault)"

text \<open>
  \<open>total_size - dst_offset < SECUREC_MEM_MAX_LEN ? total_size - dst_offset : SECUREC_MEM_MAX_LEN\<close>,
  the destination length every transfer passes to the secure routines.
\<close>

definition protected_size :: "platform \<Rightarrow> int \<Rightarrow> int \<Rightarrow> int" where
  "protected_size pf total_size dst_offset =
     (if i64 (total_size - dst_offset) < SECUREC_MEM_MAX_LEN pf then i64 (total_size - dst_offset)
      else SECUREC_MEM_MAX_LEN pf)"

section \<open>Row-major index arithmetic\<close>

fun flat :: "int list \<Rightarrow> int list \<Rightarrow> int" where
  "flat (d # ds) (i # is) = i * prod_list ds + flat ds is"
| "flat _ _ = 0"

fun unflat :: "int list \<Rightarrow> int \<Rightarrow> int list" where
  "unflat [] x = []"
| "unflat (d # ds) x = (x div prod_list ds) # unflat ds (x mod prod_list ds)"

definition valid_index :: "int list \<Rightarrow> int list \<Rightarrow> bool" where
  "valid_index ds is = list_all2 (\<lambda>i d. 0 \<le> i \<and> i < d) is ds"

lemma valid_index_simps [simp]:
  "valid_index [] is \<longleftrightarrow> is = []"
  "valid_index (d # ds) (i # is) \<longleftrightarrow> 0 \<le> i \<and> i < d \<and> valid_index ds is"
  "valid_index ds [] \<longleftrightarrow> ds = []"
  by (auto simp: valid_index_def)

lemma prod_list_pos: "(\<And>d. d \<in> set ds \<Longrightarrow> 0 < d) \<Longrightarrow> 0 < prod_list (ds :: int list)"
  by (induction ds) auto

lemma valid_index_Cons:
  "valid_index (d # ds) is \<longleftrightarrow> (\<exists>i is'. is = i # is' \<and> 0 \<le> i \<and> i < d \<and> valid_index ds is')"
  by (cases "is") auto

lemma block_bound:
  fixes i d p x :: int
  assumes "0 \<le> i" "i < d" "0 \<le> x" "x < p"
  shows "0 \<le> i * p + x" "i * p + x < d * p"
proof -
  show "0 \<le> i * p + x" using assms by simp
  have "i * p + x < (i + 1) * p" using assms by (simp add: algebra_simps)
  also have "\<dots> \<le> d * p" using assms by (intro mult_right_mono) simp_all
  finally show "i * p + x < d * p" .
qed

lemma div_less_of_less_mult:
  fixes x d p :: int
  assumes "0 < p" "x < d * p"
  shows "x div p < d"
proof -
  have "x div p * p < d * p"
    using assms pos_mod_sign [of p x] minus_mod_eq_div_mult [of x p] by linarith
  with assms(1) show ?thesis by simp
qed

lemma block_div_mod:
  fixes i p x :: int
  assumes "0 \<le> x" "x < p"
  shows "(i * p + x) div p = i" "(i * p + x) mod p = x"
  using assms by simp_all

lemma block_split:
  fixes v d p :: int
  assumes "0 \<le> v" "v < d * p" "0 < p"
  obtains i x where "v = i * p + x" "0 \<le> i" "i < d" "0 \<le> x" "x < p"
proof
  show "v = v div p * p + v mod p" by (simp add: div_mult_mod_eq)
  show "v div p < d" using assms by (simp add: div_less_of_less_mult)
qed (use assms in \<open>simp_all add: pos_imp_zdiv_nonneg_iff\<close>)

lemma flat_bounds: "valid_index ds is \<Longrightarrow> 0 \<le> flat ds is \<and> flat ds is < prod_list ds"
  by (induction ds "is" rule: flat.induct) (auto intro: block_bound)

lemmas flat_nonneg = flat_bounds [THEN conjunct1]
lemmas flat_less = flat_bounds [THEN conjunct2]

lemma prod_list_pos_of_valid: "valid_index ds is \<Longrightarrow> 0 < prod_list ds"
  using flat_bounds by fastforce

lemma unflat_flat: "valid_index ds is \<Longrightarrow> unflat ds (flat ds is) = is"
proof (induction ds "is" rule: flat.induct)
  case (1 d ds i "is")
  then have "valid_index ds is" by simp
  then have "0 \<le> flat ds is" "flat ds is < prod_list ds" by (simp_all add: flat_bounds)
  with 1 show ?case by simp
qed simp_all

lemma unflat_valid:
  "(\<And>d. d \<in> set ds \<Longrightarrow> 0 < d) \<Longrightarrow> 0 \<le> x \<Longrightarrow> x < prod_list ds \<Longrightarrow> valid_index ds (unflat ds x)"
proof (induction ds arbitrary: x)
  case (Cons d ds)
  have p: "0 < prod_list ds" using Cons.prems(1) by (simp add: prod_list_pos)
  have "x div prod_list ds < d"
    using Cons.prems p by (simp add: div_less_of_less_mult)
  with Cons p show ?case by (simp add: pos_imp_zdiv_nonneg_iff)
qed simp

lemma flat_append:
  "length p = length ds \<Longrightarrow> flat (ds @ es) (p @ q) = flat ds p * prod_list es + flat es q"
  by (induction ds p rule: list_induct2 [OF sym, consumes 1]) (simp_all add: algebra_simps)

lemma valid_index_append:
  "length p = length ds \<Longrightarrow> valid_index (ds @ es) (p @ q) \<longleftrightarrow> valid_index ds p \<and> valid_index es q"
  by (induction ds p rule: list_induct2 [OF sym, consumes 1]) auto

lemma valid_index_length: "valid_index ds is \<Longrightarrow> length is = length ds"
  by (simp add: valid_index_def list_all2_lengthD)

lemma valid_index_appendE:
  assumes "valid_index (ds @ es) is"
  obtains p q where "is = p @ q" "valid_index ds p" "valid_index es q"
proof
  show "is = take (length ds) is @ drop (length ds) is" by simp
  have "length (take (length ds) is) = length ds" using valid_index_length [OF assms] by simp
  from valid_index_append [OF this, of es "drop (length ds) is"] assms
  show "valid_index ds (take (length ds) is)" "valid_index es (drop (length ds) is)" by simp_all
qed

lemma flat_unflat:
  "(\<And>d. d \<in> set ds \<Longrightarrow> 0 < d) \<Longrightarrow> 0 \<le> x \<Longrightarrow> x < prod_list ds \<Longrightarrow> flat ds (unflat ds x) = x"
proof (induction ds arbitrary: x)
  case (Cons d ds)
  have p: "0 < prod_list ds" using Cons.prems(1) by (simp add: prod_list_pos)
  have "flat ds (unflat ds (x mod prod_list ds)) = x mod prod_list ds"
    using Cons p by simp
  then show ?case by simp
qed simp

section \<open>Code that fills a buffer\<close>

text \<open>Element \<open>i\<close> of a buffer of \<open>sz\<close>-byte elements.\<close>

definition elem :: "int \<Rightarrow> mem \<Rightarrow> int \<Rightarrow> mem" where
  "elem sz m i = mem_read m (i * sz) sz"

text \<open>
  \<open>fills sz N f R prog\<close>: run on any buffer of \<open>N\<close> elements, \<open>prog\<close> returns normally,
  writes exactly the elements in \<open>R\<close>, and leaves element \<open>i\<close> of \<open>R\<close> equal to \<open>f i\<close>.
\<close>

definition fills ::
  "int \<Rightarrow> int \<Rightarrow> (int \<Rightarrow> mem) \<Rightarrow> int set \<Rightarrow> (mem option \<Rightarrow> mem option res) \<Rightarrow> bool"
where
  "fills sz N f R prog \<longleftrightarrow>
     (\<forall>m. int (length m) = N * sz \<longrightarrow>
        (\<exists>m'. prog (Some m) = Inr (Some m') \<and> length m' = length m \<and>
           (\<forall>i. 0 \<le> i \<longrightarrow> i < N \<longrightarrow> elem sz m' i = (if i \<in> R then f i else elem sz m i))))"

lemma length_mem_read:
  "in_bounds m off cnt \<Longrightarrow> length (mem_read m off cnt) = nat cnt"
  by (auto simp: in_bounds_def mem_read_def)

lemma length_mem_write:
  "in_bounds m off (int (length bs)) \<Longrightarrow> length (mem_write m off bs) = length m"
  by (auto simp: in_bounds_def mem_write_def)

lemma elem_bounds:
  assumes "0 < sz" "0 \<le> i" "i < N" "int (length m) = N * sz"
  shows "in_bounds m (i * sz) sz"
proof -
  have "(i + 1) * sz \<le> N * sz" using assms by (intro mult_right_mono) simp_all
  with assms show ?thesis by (simp add: in_bounds_def algebra_simps)
qed

lemma length_elem:
  "0 < sz \<Longrightarrow> 0 \<le> i \<Longrightarrow> i < N \<Longrightarrow> int (length m) = N * sz \<Longrightarrow> int (length (elem sz m i)) = sz"
  using elem_bounds [of sz i N m] by (simp add: elem_def length_mem_read)

lemma mem_read_write_inside:
  assumes "0 \<le> off" "off \<le> a" "0 \<le> cnt" "a + cnt \<le> off + int (length bs)"
    and "off + int (length bs) \<le> int (length m)"
  shows "mem_read (mem_write m off bs) a cnt = mem_read bs (a - off) cnt"
proof -
  obtain o' where "off = int o'" using assms(1) by (rule nonneg_int_cases)
  moreover obtain a' where "a = int a'" using order_trans [OF assms(1,2)] by (rule nonneg_int_cases)
  moreover obtain c' where "cnt = int c'" using assms(3) by (rule nonneg_int_cases)
  ultimately show ?thesis
    using assms by (auto simp: mem_read_def mem_write_def nat_diff_distrib min_def)
qed

lemma mem_read_write_outside:
  assumes "0 \<le> off" "0 \<le> a" "0 \<le> cnt" "a + cnt \<le> off \<or> off + int (length bs) \<le> a"
    and "off + int (length bs) \<le> int (length m)"
  shows "mem_read (mem_write m off bs) a cnt = mem_read m a cnt"
proof -
  obtain o' where o': "off = int o'" using assms(1) by (rule nonneg_int_cases)
  obtain a' where a': "a = int a'" using assms(2) by (rule nonneg_int_cases)
  obtain c' where c': "cnt = int c'" using assms(3) by (rule nonneg_int_cases)
  have "o' + length bs \<le> length m" using assms(5) o' by simp
  moreover have "a' + c' \<le> o' \<or> o' + length bs \<le> a'" using assms(4) o' a' c' by linarith
  ultimately have "take c' (drop a' (take o' m @ bs @ drop (o' + length bs) m)) = take c' (drop a' m)"
    by (elim disjE) (simp_all add: drop_take)
  then show ?thesis by (simp add: mem_read_def mem_write_def o' a' c')
qed

lemma elem_mem_write:
  assumes "0 < sz" "int (length m) = N * sz" "int (length bs) = k * sz" "0 \<le> k"
    and "0 \<le> i" "i + k \<le> N" "0 \<le> j" "j < N"
  shows "elem sz (mem_write m (i * sz) bs) j =
    (if i \<le> j \<and> j < i + k then elem sz bs (j - i) else elem sz m j)"
proof -
  have mono: "a * sz \<le> b * sz" if "a \<le> b" for a b
    using that assms(1) by (simp add: mult_right_mono)
  have ib: "i * sz + int (length bs) \<le> int (length m)"
    using mono [OF assms(6)] assms by (simp add: algebra_simps)
  show ?thesis
  proof (cases "i \<le> j \<and> j < i + k")
    case True
    with mono [of i j] mono [of "j + 1" "i + k"] ib assms show ?thesis
      by (simp add: elem_def mem_read_write_inside algebra_simps)
  next
    case False
    then have "j + 1 \<le> i \<or> i + k \<le> j" by linarith
    then have "j * sz + sz \<le> i * sz \<or> i * sz + int (length bs) \<le> j * sz"
      using mono [of "j + 1" i] mono [of "i + k" j] assms(3) by (auto simp: algebra_simps)
    with False ib assms show ?thesis
      by (auto simp: elem_def mem_read_write_outside)
  qed
qed

text \<open>The rules of \<open>fills\<close>.\<close>

lemma fillsD:
  assumes "fills sz N f R prog" "int (length m) = N * sz"
  obtains m' where "prog (Some m) = Inr (Some m')" "length m' = length m"
    "\<And>i. 0 \<le> i \<Longrightarrow> i < N \<Longrightarrow> elem sz m' i = (if i \<in> R then f i else elem sz m i)"
  using assms unfolding fills_def by blast

lemma fillsI:
  assumes "\<And>m. int (length m) = N * sz \<Longrightarrow>
    \<exists>m'. prog (Some m) = Inr (Some m') \<and> length m' = length m \<and>
      (\<forall>i. 0 \<le> i \<longrightarrow> i < N \<longrightarrow> elem sz m' i = (if i \<in> R then f i else elem sz m i))"
  shows "fills sz N f R prog"
  using assms unfolding fills_def by blast

lemma fills_skip: "fills sz N f {} Inr"
  by (simp add: fills_def)

lemma fills_cong_set: "fills sz N f R prog \<Longrightarrow> R = R' \<Longrightarrow> fills sz N f R' prog"
  by simp

lemma fills_seq:
  assumes "fills sz N f R p" "fills sz N f S q"
  shows "fills sz N f (R \<union> S) (\<lambda>m. and_then (p m) q)"
proof (rule fillsI)
  fix m :: mem assume m: "int (length m) = N * sz"
  with assms(1) obtain m1 where 1: "p (Some m) = Inr (Some m1)" "length m1 = length m"
    "\<And>i. 0 \<le> i \<Longrightarrow> i < N \<Longrightarrow> elem sz m1 i = (if i \<in> R then f i else elem sz m i)"
    by (rule fillsD) blast
  with m assms(2) obtain m2 where 2: "q (Some m1) = Inr (Some m2)" "length m2 = length m1"
    "\<And>i. 0 \<le> i \<Longrightarrow> i < N \<Longrightarrow> elem sz m2 i = (if i \<in> S then f i else elem sz m1 i)"
    using fillsD [OF assms(2)] by (metis (no_types, lifting))
  from 1 2 show "\<exists>m'. and_then (p (Some m)) q = Inr (Some m') \<and> length m' = length m \<and>
      (\<forall>i. 0 \<le> i \<longrightarrow> i < N \<longrightarrow> elem sz m' i = (if i \<in> R \<union> S then f i else elem sz m i))"
    by auto
qed

lemma fills_for_upt:
  assumes "\<And>j. i \<le> j \<Longrightarrow> j < i + int k \<Longrightarrow> fills sz N f (R j) (body j)"
  shows "fills sz N f (\<Union>j\<in>{i..<i + int k}. R j) (for_upt k i body)"
  using assms
proof (induction k arbitrary: i)
  case 0
  then show ?case by (simp add: fills_def)
next
  case (Suc k)
  have "fills sz N f (R i \<union> (\<Union>j\<in>{i + 1..<i + 1 + int k}. R j))
      (\<lambda>m. and_then (body i m) (for_upt k (i + 1) body))"
    by (rule fills_seq) (use Suc in simp_all)
  moreover have "{i..<i + int (Suc k)} = insert i {i + 1..<i + 1 + int k}"
    by auto
  ultimately show ?case by simp
qed

lemma fills_for:
  assumes "\<And>j. 0 \<le> j \<Longrightarrow> j < n \<Longrightarrow> fills sz N f (R j) (body j)"
  shows "fills sz N f (\<Union>j\<in>{0..<n}. R j) (for_lt n body)"
proof -
  have "fills sz N f (\<Union>j\<in>{0..<0 + int (nat n)}. R j) (for_upt (nat n) 0 body)"
    by (rule fills_for_upt) (use assms in \<open>simp split: if_splits\<close>)
  moreover have "{0..<int (nat n)} = {0..<n}" by auto
  ultimately show ?thesis by (simp add: for_lt_def [abs_def])
qed

text \<open>A loop whose iterations fill consecutive blocks of \<open>len\<close> elements.\<close>

lemma blocks_Un:
  fixes base len n :: int
  assumes "0 \<le> len"
  shows "(\<Union>j\<in>{0..<n}. {base + j * len..<base + j * len + len}) = {base..<base + max 0 n * len}"
proof (cases "len = 0 \<or> n \<le> 0")
  case False
  show ?thesis
  proof (intro equalityI subsetI)
    fix x assume "x \<in> (\<Union>j\<in>{0..<n}. {base + j * len..<base + j * len + len})"
    then obtain j where j: "0 \<le> j" "j < n" "base + j * len \<le> x" "x < base + j * len + len" by auto
    have "j * len + len \<le> n * len"
      using mult_right_mono [of "j + 1" n len] j assms by (simp add: distrib_right)
    moreover have "0 \<le> j * len" using j assms by simp
    ultimately have "base \<le> x" "x < base + n * len" using j by linarith+
    then show "x \<in> {base..<base + max 0 n * len}"
      using False by (simp add: max_def)
  next
    fix x assume "x \<in> {base..<base + max 0 n * len}"
    then have x: "0 \<le> x - base" "x - base < n * len" using False by (auto simp: max_def)
    with False assms have "(x - base) div len < n" "0 \<le> (x - base) div len"
      by (simp_all add: div_less_of_less_mult pos_imp_zdiv_nonneg_iff)
    moreover have "(x - base) div len * len = (x - base) - (x - base) mod len"
      by (simp add: minus_mod_eq_div_mult)
    moreover have "0 \<le> (x - base) mod len" "(x - base) mod len < len" using False assms by simp_all
    ultimately have "(x - base) div len \<in> {0..<n}"
      "x \<in> {base + (x - base) div len * len..<base + (x - base) div len * len + len}" by auto
    then show "x \<in> (\<Union>j\<in>{0..<n}. {base + j * len..<base + j * len + len})" by blast
  qed
qed (auto simp: max_def)

lemma fills_for_blocks:
  assumes "0 \<le> len" "0 \<le> n"
    and "\<And>j. 0 \<le> j \<Longrightarrow> j < n \<Longrightarrow> fills sz N f {base + j * len..<base + j * len + len} (body j)"
  shows "fills sz N f {base..<base + n * len} (for_lt n body)"
  using fills_for [of n sz N f "\<lambda>j. {base + j * len..<base + j * len + len}" body] assms
  by (simp add: blocks_Un)

lemma fills_for_elems:
  assumes "0 \<le> n" and "\<And>j. 0 \<le> j \<Longrightarrow> j < n \<Longrightarrow> fills sz N f {base + j} (body j)"
  shows "fills sz N f {base..<base + n} (for_lt n body)"
proof -
  have "(\<Union>j\<in>{0..<n}. {base + j}) = {base..<base + n}"
  proof (intro equalityI subsetI)
    fix x assume "x \<in> {base..<base + n}"
    then have "x - base \<in> {0..<n}" "x \<in> {base + (x - base)}" by auto
    then show "x \<in> (\<Union>j\<in>{0..<n}. {base + j})" by blast
  qed auto
  then show ?thesis using fills_for [of n sz N f "\<lambda>j. {base + j}" body] assms by simp
qed

text \<open>Two nested loops that fill a block of \<open>m\<close> rows of \<open>n\<close> elements column by column.\<close>

lemma fills_for_transposed:
  fixes m n :: int
  assumes "0 \<le> m" "0 \<le> n"
    and body: "\<And>j i. 0 \<le> j \<Longrightarrow> j < n \<Longrightarrow> 0 \<le> i \<Longrightarrow> i < m \<Longrightarrow> fills sz N f {base + (i * n + j)} (body j i)"
  shows "fills sz N f {base..<base + m * n} (for_lt n (\<lambda>j. for_lt m (body j)))"
proof (rule fills_cong_set)
  show "fills sz N f (\<Union>j\<in>{0..<n}. \<Union>i\<in>{0..<m}. {base + (i * n + j)}) (for_lt n (\<lambda>j. for_lt m (body j)))"
    by (intro fills_for body)
  show "(\<Union>j\<in>{0..<n}. \<Union>i\<in>{0..<m}. {base + (i * n + j)}) = {base..<base + m * n}"
  proof (intro equalityI subsetI)
    fix x assume "x \<in> (\<Union>j\<in>{0..<n}. \<Union>i\<in>{0..<m}. {base + (i * n + j)})"
    then show "x \<in> {base..<base + m * n}" using block_bound [of _ m _ n] by fastforce
  next
    fix x assume "x \<in> {base..<base + m * n}"
    then have x: "0 \<le> x - base" "x - base < m * n" by auto
    then have n: "0 < n" using assms(2) by (cases "n = 0") auto
    have "(x - base) div n \<in> {0..<m}" "(x - base) mod n \<in> {0..<n}"
      using x n by (simp_all add: div_less_of_less_mult pos_imp_zdiv_nonneg_iff)
    moreover have "x \<in> {base + ((x - base) div n * n + (x - base) mod n)}" by (simp add: div_mult_mod_eq)
    ultimately show "x \<in> (\<Union>j\<in>{0..<n}. \<Union>i\<in>{0..<m}. {base + (i * n + j)})" by blast
  qed
qed

lemma mem_read_mem_read:
  assumes "0 \<le> a" "0 \<le> off" "0 \<le> cnt" "a + cnt \<le> len"
  shows "mem_read (mem_read m off len) a cnt = mem_read m (off + a) cnt"
  using assms by (simp add: mem_read_def drop_take take_take nat_add_distrib add.commute
      flip: nat_diff_distrib)

lemma elem_mem_read:
  assumes "0 < sz" "0 \<le> j" "j < k" "0 \<le> off"
  shows "elem sz (mem_read s off (k * sz)) j = mem_read s (off + j * sz) sz"
proof -
  have "(j + 1) * sz \<le> k * sz" using assms by (intro mult_right_mono) simp_all
  with assms show ?thesis by (simp add: elem_def mem_read_mem_read algebra_simps)
qed

lemma fills_write:
  assumes "0 < sz" "0 \<le> i" "0 \<le> k" "i + k \<le> N" "int (length bs) = k * sz"
    and prog: "\<And>d. int (length d) = N * sz \<Longrightarrow> prog (Some d) = Inr (Some (mem_write d (i * sz) bs))"
    and f: "\<And>j. 0 \<le> j \<Longrightarrow> j < k \<Longrightarrow> f (i + j) = elem sz bs j"
  shows "fills sz N f {i..<i + k} prog"
proof (rule fillsI)
  fix m :: mem assume m: "int (length m) = N * sz"
  have "(i + k) * sz \<le> N * sz" using assms by (intro mult_right_mono) simp_all
  with m assms have "in_bounds m (i * sz) (int (length bs))"
    by (simp add: in_bounds_def algebra_simps)
  then have "length (mem_write m (i * sz) bs) = length m" by (rule length_mem_write)
  moreover have "f j = elem sz bs (j - i)" if "i \<le> j" "j < i + k" for j
    using f [of "j - i"] that by simp
  ultimately show "\<exists>m'. prog (Some m) = Inr (Some m') \<and> length m' = length m \<and>
      (\<forall>j. 0 \<le> j \<longrightarrow> j < N \<longrightarrow> elem sz m' j = (if j \<in> {i..<i + k} then f j else elem sz m j))"
    using m assms by (auto simp: prog elem_mem_write)
qed

text \<open>
  The facts about the platform the buffer code relies on, for elements of \<open>sz\<close> bytes: a data type
  has a small size, and the limit of the secure library is a positive \<open>int64_t\<close> with room for
  one fractal row of 32 elements.
\<close>

definition platform_ok :: "platform \<Rightarrow> int \<Rightarrow> bool" where
  "platform_ok pf sz \<longleftrightarrow>
     0 < sz \<and> sz < 2 ^ 12 \<and> 2 ^ 17 \<le> SECUREC_MEM_MAX_LEN pf \<and> SECUREC_MEM_MAX_LEN pf < 2 ^ 63"

lemma protected_size_bounds:
  assumes "platform_ok pf sz" "0 \<le> i" "0 < k" "i + k \<le> N" "N * sz < 2 ^ 63"
    and "k * sz \<le> SECUREC_MEM_MAX_LEN pf"
  shows "k * sz \<le> protected_size pf (N * sz) (i * sz)"
    and "protected_size pf (N * sz) (i * sz) \<le> SECUREC_MEM_MAX_LEN pf"
    and "protected_size pf (N * sz) (i * sz) \<noteq> 0" "0 < k * sz"
    and "u64 (protected_size pf (N * sz) (i * sz)) = protected_size pf (N * sz) (i * sz)"
    and "u64 (k * sz) = k * sz"
proof -
  have "(i + k) * sz \<le> N * sz" using assms by (intro mult_right_mono) (auto simp: platform_ok_def)
  moreover have "0 < k * sz" "0 \<le> i * sz" using assms by (auto simp: platform_ok_def)
  ultimately have "k * sz \<le> N * sz - i * sz" "i64 (N * sz - i * sz) = N * sz - i * sz"
    using assms by (simp_all add: algebra_simps)
  with assms \<open>0 < k * sz\<close> show "k * sz \<le> protected_size pf (N * sz) (i * sz)"
    "protected_size pf (N * sz) (i * sz) \<le> SECUREC_MEM_MAX_LEN pf"
    "protected_size pf (N * sz) (i * sz) \<noteq> 0" "0 < k * sz"
    "u64 (protected_size pf (N * sz) (i * sz)) = protected_size pf (N * sz) (i * sz)"
    "u64 (k * sz) = k * sz"
    by (auto simp: protected_size_def platform_ok_def)
qed

lemma block_in_bounds:
  fixes sz :: int
  assumes "0 < sz" "0 \<le> i" "0 \<le> k" "i + k \<le> N" "int (length d) = N * sz"
  shows "in_bounds d (i * sz) (k * sz)"
proof -
  have "(i + k) * sz \<le> N * sz" using assms by (intro mult_right_mono) simp_all
  with assms show ?thesis by (simp add: in_bounds_def algebra_simps)
qed

lemma fills_memcpy_s:
  assumes ok: "platform_ok pf sz" and N: "N * sz < 2 ^ 63"
    and i: "0 \<le> i" "0 < k" "i + k \<le> N" and k: "k * sz \<le> SECUREC_MEM_MAX_LEN pf"
    and eqs: "doff = i * sz" "tot = N * sz" "cnt = k * sz" and s: "in_bounds s soff cnt"
    and f: "\<And>j. 0 \<le> j \<Longrightarrow> j < k \<Longrightarrow> f (i + j) = mem_read s (soff + j * sz) sz"
  shows "fills sz N f {i..<i + k}
    (\<lambda>d. check_eok (memcpy_s pf d doff (protected_size pf tot doff) (Some s) soff cnt))"
proof (rule fills_write [where bs = "mem_read s soff cnt"])
  note b = protected_size_bounds [OF ok i N k]
  show "int (length (mem_read s soff cnt)) = k * sz"
    using s b(4) by (simp add: length_mem_read eqs)
  show "f (i + j) = elem sz (mem_read s soff cnt) j" if "0 \<le> j" "j < k" for j
    using that s ok by (simp add: eqs elem_mem_read f in_bounds_def platform_ok_def)
  show "check_eok (memcpy_s pf (Some d) doff (protected_size pf tot doff) (Some s) soff cnt)
      = Inr (Some (mem_write d (i * sz) (mem_read s soff cnt)))" if "int (length d) = N * sz" for d
    using b(1,2) s block_in_bounds [of sz i k N d] i ok that
    by (simp add: memcpy_s_def check_eok_def eqs platform_ok_def b(3,5,6))
qed (use assms in \<open>auto simp: platform_ok_def\<close>)

lemma elem_replicate:
  assumes "0 < sz" "0 \<le> j" "j < k"
  shows "elem sz (replicate (nat (k * sz)) x) j = replicate (nat sz) x"
proof -
  have "(j + 1) * sz \<le> k * sz" using assms by (intro mult_right_mono) simp_all
  then have "nat sz \<le> nat (k * sz) - nat (j * sz)"
    using assms by (simp add: algebra_simps flip: nat_diff_distrib)
  then show ?thesis by (simp add: elem_def mem_read_def min_absorb1)
qed

lemma fills_memset_s:
  assumes ok: "platform_ok pf sz" and N: "N * sz < 2 ^ 63"
    and i: "0 \<le> i" "i < N" and eqs: "doff = i * sz" "tot = N * sz"
    and f: "f i = replicate (nat sz) (Some 0)"
  shows "fills sz N f {i} (\<lambda>d. check_eok (memset_s pf d doff (protected_size pf tot doff) sz))"
proof -
  have "sz \<le> SECUREC_MEM_MAX_LEN pf" using ok by (simp add: platform_ok_def)
  with i N ok have b: "sz \<le> protected_size pf (N * sz) (i * sz)"
    "protected_size pf (N * sz) (i * sz) \<le> SECUREC_MEM_MAX_LEN pf"
    "protected_size pf (N * sz) (i * sz) \<noteq> 0" "u64 sz = sz"
    "u64 (protected_size pf (N * sz) (i * sz)) = protected_size pf (N * sz) (i * sz)"
    using protected_size_bounds [of pf sz i 1 N] by simp_all
  have "fills sz N f {i..<i + 1}
      (\<lambda>d. check_eok (memset_s pf d doff (protected_size pf tot doff) sz))"
  proof (rule fills_write [where bs = "replicate (nat (1 * sz)) (Some 0)"])
    show "f (i + j) = elem sz (replicate (nat (1 * sz)) (Some 0)) j" if "0 \<le> j" "j < 1" for j
    proof -
      have "j = 0" using that by simp
      with f ok elem_replicate [of sz 0 1 "Some 0"] show ?thesis by (simp add: platform_ok_def)
    qed
    show "check_eok (memset_s pf (Some d) doff (protected_size pf tot doff) sz)
        = Inr (Some (mem_write d (i * sz) (replicate (nat (1 * sz)) (Some 0))))"
      if "int (length d) = N * sz" for d
      using b(1,2) block_in_bounds [of sz i 1 N d] i ok that
      by (simp add: memset_s_def check_eok_def eqs platform_ok_def b(3,4,5))
  qed (use assms in \<open>auto simp: platform_ok_def\<close>)
  moreover have "{i..<i + 1} = {i}" by auto
  ultimately show ?thesis by simp
qed

text \<open>One element copied, by the library or by the byte loop.\<close>

lemma fills_memcpy_elem:
  assumes "platform_ok pf sz" "N * sz < 2 ^ 63" "0 \<le> i" "i < N" "doff = i * sz" "tot = N * sz"
    and "in_bounds s soff sz" "f i = mem_read s soff sz"
  shows "fills sz N f {i}
    (\<lambda>d. check_eok (memcpy_s pf d doff (protected_size pf tot doff) (Some s) soff sz))"
proof -
  have "fills sz N f {i..<i + 1}
      (\<lambda>d. check_eok (memcpy_s pf d doff (protected_size pf tot doff) (Some s) soff sz))"
  proof (rule fills_memcpy_s [where k = 1])
    show "f (i + j) = mem_read s (soff + j * sz) sz" if "0 \<le> j" "j < 1" for j
    proof -
      have "j = 0" using that by simp
      with assms show ?thesis by simp
    qed
  qed (use assms in \<open>auto simp: platform_ok_def\<close>)
  moreover have "{i..<i + 1} = {i}" by auto
  ultimately show ?thesis by simp
qed

lemma fills_copy_bytes:
  assumes "0 < sz" "0 \<le> i" "i < N" "doff = i * sz" "in_bounds s soff sz" "f i = mem_read s soff sz"
  shows "fills sz N f {i} (\<lambda>d. copy_bytes d doff (Some s) soff sz)"
proof -
  have "fills sz N f {i..<i + 1} (\<lambda>d. copy_bytes d doff (Some s) soff sz)"
  proof (rule fills_write [where bs = "mem_read s soff sz"])
    show "f (i + j) = elem sz (mem_read s soff sz) j" if "0 \<le> j" "j < 1" for j
    proof -
      have "j = 0" using that by simp
      with assms show ?thesis using elem_mem_read [of sz 0 1 soff s] by (simp add: in_bounds_def)
    qed
    show "copy_bytes (Some d) doff (Some s) soff sz =
        Inr (Some (mem_write d (i * sz) (mem_read s soff sz)))" if "int (length d) = N * sz" for d
      using that assms block_in_bounds [of sz i 1 N d] by (simp add: copy_bytes_def)
  qed (use assms in \<open>auto simp: length_mem_read\<close>)
  moreover have "{i..<i + 1} = {i}" by auto
  ultimately show ?thesis by simp
qed

lemma fills_if:
  "(b \<Longrightarrow> fills sz N f R p) \<Longrightarrow> (\<not> b \<Longrightarrow> fills sz N f R q) \<Longrightarrow>
    fills sz N f R (\<lambda>d. if b then p d else q d)"
  by (cases b) simp_all

text \<open>Running filling code on a fresh buffer.\<close>

lemma fills_run:
  assumes "fills sz N f R prog" "int (length m) = N * sz"
  shows "\<exists>m'. prog (Some m) = Inr (Some m') \<and> int (length m') = N * sz \<and>
    (\<forall>i. 0 \<le> i \<longrightarrow> i < N \<longrightarrow> elem sz m' i = (if i \<in> R then f i else elem sz m i))"
  using assms by (auto elim: fillsD)

text \<open>Two buffers with the same elements are the same buffer.\<close>

lemma elem_nth:
  assumes "0 < sz" "k < length m" "int (length m) = N * sz"
  shows "m ! k = elem sz m (int k div sz) ! nat (int k mod sz)" "0 \<le> int k div sz"
    "int k div sz < N"
proof -
  have k: "int k div sz * sz + int k mod sz = int k" by simp
  have b: "0 \<le> int k mod sz" "int k mod sz < sz" using assms by simp_all
  show d0: "0 \<le> int k div sz" using assms by (simp add: pos_imp_zdiv_nonneg_iff)
  show "int k div sz < N" using assms by (intro div_less_of_less_mult) simp_all
  have "nat (int k div sz * sz) + nat (int k mod sz) = k"
    using k b d0 assms(1) by (metis nat_add_distrib nat_int zero_le_mult_iff order_less_imp_le)
  then show "m ! k = elem sz m (int k div sz) ! nat (int k mod sz)"
    using b assms by (simp add: elem_def mem_read_def)
qed

lemma mem_eqI:
  assumes "0 < sz" "int (length m) = N * sz" "int (length m') = N * sz"
    and "\<And>i. 0 \<le> i \<Longrightarrow> i < N \<Longrightarrow> elem sz m i = elem sz m' i"
  shows "m = m'"
proof (rule nth_equalityI)
  show "length m = length m'" using assms(2,3) by simp
  fix k assume k: "k < length m"
  then have "k < length m'" using assms(2,3) by simp
  then show "m ! k = m' ! k"
    using elem_nth [of sz k m N] elem_nth [of sz k m' N] k assms by simp
qed

end
