(* ===== verification/Formats_Utils.thy ===== *)
theory Formats_Utils
  imports GE_Memory
begin

text \<open>
  The helpers every format transfer shares: \<open>ge/common/formats/utils/formats_definitions.h\<close> (axis
  positions, cube sizes) and \<open>ge/common/formats/utils/formats_trans_utils.{h,cc}\<close> (shape checks,
  element counts, rounded division). The argument and result structures and the enumerations are
  declared in the graph library; the records hold the fields the transfers use.
  The lemmas say what a valid shape is, that its element count does not overflow, and how
  \<open>Ceil\<close> rounds.
\<close>

section \<open>Formats, arguments, results\<close>

datatype Format = FORMAT_NCHW | FORMAT_NHWC | FORMAT_ND | FORMAT_NC1HWC0 | FORMAT_FRACTAL_Z
  | FORMAT_FRACTAL_Z_C04 | FORMAT_CHWN | FORMAT_HWCN | FORMAT_C1HWNCoC0 | FORMAT_FRACTAL_ZZ
  | FORMAT_FRACTAL_NZ | FORMAT_DHWCN | FORMAT_DHWNC | FORMAT_FRACTAL_Z_3D
  | FORMAT_FRACTAL_Z_3D_TRANSPOSE | FORMAT_RESERVED

record TransArgs =
  data :: "mem option"
  src_format :: Format
  dst_format :: Format
  src_shape :: "int list"
  dst_shape :: "int list"
  src_data_type :: DataType

record TransResult =
  res_data :: "mem option"
  res_length :: int

text \<open>\<open>if (f (...) != SUCCESS) return s;\<close>\<close>

definition on_error :: "Status \<Rightarrow> 'a res \<Rightarrow> 'a res" where
  "on_error s r = (case r of Inl (Ret _) \<Rightarrow> Inl (Ret s) | _ \<Rightarrow> r)"

text \<open>
  \<open>v.at(k)\<close> and \<open>v[k]\<close>: reading past the end is an exception or undefined behaviour. \<open>at_back v k\<close> is
  \<open>v[v.size() - k]\<close>.
\<close>

definition at :: "int list \<Rightarrow> nat \<Rightarrow> (int \<Rightarrow> 'a res) \<Rightarrow> 'a res" where
  "at s k f = (if k < length s then f (s ! k) else Inl Fault)"

text \<open>
  \<open>std::shared_ptr<uint8_t> dst(new (std::nothrow) uint8_t[total_size])\<close> followed by the null check
  of every transfer, and the assignments \<open>result.data = dst; result.length = total_size\<close> at its end.
\<close>

definition alloc_dst :: "platform \<Rightarrow> int \<Rightarrow> (mem option \<Rightarrow> 'a res) \<Rightarrow> 'a res" where
  "alloc_dst pf total_size k =
     (case new_bytes pf total_size of None \<Rightarrow> Inl (Ret OUT_OF_MEMORY) | Some d \<Rightarrow> k (Some d))"

definition alloc_dst_zeroed :: "platform \<Rightarrow> int \<Rightarrow> (mem option \<Rightarrow> 'a res) \<Rightarrow> 'a res" where
  "alloc_dst_zeroed pf total_size k =
     (case new_bytes_zeroed pf total_size of None \<Rightarrow> Inl (Ret OUT_OF_MEMORY) | Some d \<Rightarrow> k (Some d))"

definition set_result :: "TransResult \<Rightarrow> int \<Rightarrow> mem option \<Rightarrow> TransResult res" where
  "set_result result total_size dst =
     Inr (result\<lparr>res_data := dst, res_length := u64 total_size\<rparr>)"

definition at_back :: "int list \<Rightarrow> nat \<Rightarrow> (int \<Rightarrow> 'a res) \<Rightarrow> 'a res" where
  "at_back s k f = (if 0 < k \<and> k \<le> length s then f (s ! (length s - k)) else Inl Fault)"

section \<open>Constants of formats\_definitions.h\<close>

definition kCubeSize :: int where "kCubeSize = 16"
definition kNiSize :: int where "kNiSize = 16"
definition kShapeItemNumMAX :: int where "kShapeItemNumMAX = 1024 * 1024 * 1024 * 1024"

abbreviation (input) "kNchwN \<equiv> (0 :: nat)"
abbreviation (input) "kNchwC \<equiv> (1 :: nat)"
abbreviation (input) "kNchwH \<equiv> (2 :: nat)"
abbreviation (input) "kNchwW \<equiv> (3 :: nat)"
abbreviation (input) "kNchwDimsNum \<equiv> (4 :: int)"

abbreviation (input) "kNhwcN \<equiv> (0 :: nat)"
abbreviation (input) "kNhwcH \<equiv> (1 :: nat)"
abbreviation (input) "kNhwcW \<equiv> (2 :: nat)"
abbreviation (input) "kNhwcC \<equiv> (3 :: nat)"
abbreviation (input) "kNhwcDimsNum \<equiv> (4 :: int)"

abbreviation (input) "kHwcnH \<equiv> (0 :: nat)"
abbreviation (input) "kHwcnW \<equiv> (1 :: nat)"
abbreviation (input) "kHwcnC \<equiv> (2 :: nat)"
abbreviation (input) "kHwcnN \<equiv> (3 :: nat)"
abbreviation (input) "kHwcnDimsNum \<equiv> (4 :: int)"

abbreviation (input) "kChwnC \<equiv> (0 :: nat)"
abbreviation (input) "kChwnH \<equiv> (1 :: nat)"
abbreviation (input) "kChwnW \<equiv> (2 :: nat)"
abbreviation (input) "kChwnN \<equiv> (3 :: nat)"

abbreviation (input) "kNc1hwc0N \<equiv> (0 :: nat)"
abbreviation (input) "kNc1hwc0C1 \<equiv> (1 :: nat)"
abbreviation (input) "kNc1hwc0H \<equiv> (2 :: nat)"
abbreviation (input) "kNc1hwc0W \<equiv> (3 :: nat)"
abbreviation (input) "kNc1hwc0C0 \<equiv> (4 :: nat)"
abbreviation (input) "kNc1hwc0DimsNum \<equiv> (5 :: int)"

abbreviation (input) "kC1hwncoc0C1 \<equiv> (0 :: nat)"
abbreviation (input) "kC1hwncoc0H \<equiv> (1 :: nat)"
abbreviation (input) "kC1hwncoc0W \<equiv> (2 :: nat)"
abbreviation (input) "kC1hwncoc0N \<equiv> (3 :: nat)"
abbreviation (input) "kC1hwncoc0Co \<equiv> (4 :: nat)"
abbreviation (input) "kC1hwncoc0C0 \<equiv> (5 :: nat)"
abbreviation (input) "kC1hwncoc0DimsNum \<equiv> (6 :: int)"

abbreviation (input) "kFracZHWC1 \<equiv> (0 :: nat)"
abbreviation (input) "kFracZN0 \<equiv> (1 :: nat)"
abbreviation (input) "kFracZNi \<equiv> (2 :: nat)"
abbreviation (input) "kFracZC0 \<equiv> (3 :: nat)"
abbreviation (input) "kFracZDimsNum \<equiv> (4 :: int)"

abbreviation (input) "kDhwcnD \<equiv> (0 :: nat)"
abbreviation (input) "kDhwcnH \<equiv> (1 :: nat)"
abbreviation (input) "kDhwcnW \<equiv> (2 :: nat)"
abbreviation (input) "kDhwcnC \<equiv> (3 :: nat)"
abbreviation (input) "kDhwcnN \<equiv> (4 :: nat)"
abbreviation (input) "kDhwcnDimsNum \<equiv> (5 :: int)"

abbreviation (input) "kDhwncD \<equiv> (0 :: nat)"
abbreviation (input) "kDhwncH \<equiv> (1 :: nat)"
abbreviation (input) "kDhwncW \<equiv> (2 :: nat)"
abbreviation (input) "kDhwncN \<equiv> (3 :: nat)"
abbreviation (input) "kDhwncC \<equiv> (4 :: nat)"
abbreviation (input) "kDhwncDimsNum \<equiv> (5 :: int)"

section \<open>formats\_trans\_utils\<close>

definition GetCubeSizeByDataType :: "platform \<Rightarrow> DataType \<Rightarrow> int" where
  "GetCubeSizeByDataType pf data_type =
     (let sz = GetSizeByDataType pf data_type in
      if sz \<le> 0 then - 1 else if sz = 1 then kCubeSize * 2 else kCubeSize)"

definition GetItemNumByShape :: "int list \<Rightarrow> int" where
  "GetItemNumByShape shape = foldl (\<lambda>num dim. i64 (num * dim)) 1 shape"

fun IsShapeValid_loop :: "int list \<Rightarrow> int \<Rightarrow> bool" where
  "IsShapeValid_loop [] num = True"
| "IsShapeValid_loop (dim # dims) num =
     (if dim < 0 then False
      else if dim \<noteq> 0 \<and> kShapeItemNumMAX sdiv dim < num then False
      else IsShapeValid_loop dims (i64 (num * dim)))"

definition IsShapeValid :: "int list \<Rightarrow> bool" where
  "IsShapeValid shape = (if shape = [] then False else IsShapeValid_loop shape 1)"

definition CheckShapeValid :: "int list \<Rightarrow> int \<Rightarrow> bool" where
  "CheckShapeValid shape expect_dims =
     (if expect_dims \<le> 0 \<or> int (length shape) \<noteq> expect_dims then False else IsShapeValid shape)"

fun IsShapeEqual_loop :: "int list \<Rightarrow> int list \<Rightarrow> bool" where
  "IsShapeEqual_loop (s # ss) (d # ds) = (if s \<noteq> d then False else IsShapeEqual_loop ss ds)"
| "IsShapeEqual_loop _ _ = True"

definition IsShapeEqual :: "int list \<Rightarrow> int list \<Rightarrow> bool" where
  "IsShapeEqual src dst = (if length src \<noteq> length dst then False else IsShapeEqual_loop src dst)"

definition IsTransShapeSrcCorrect :: "TransArgs \<Rightarrow> int list \<Rightarrow> bool" where
  "IsTransShapeSrcCorrect args expect_shape = (if src_shape args \<noteq> expect_shape then False else True)"

definition IsTransShapeDstCorrect :: "TransArgs \<Rightarrow> int list \<Rightarrow> bool" where
  "IsTransShapeDstCorrect args expect_shape =
     (if dst_shape args \<noteq> [] \<and> dst_shape args \<noteq> expect_shape then False else True)"

definition Ceil :: "int \<Rightarrow> int \<Rightarrow> int" where
  "Ceil n1 n2 = (if n1 = 0 then 0 else if n2 \<noteq> 0 then i64 (i64 (n1 - 1) sdiv n2 + 1) else 0)"

text \<open>Each transfer has its own copy of this test, all with the same body.\<close>

definition CheckDataTypeSupported :: "platform \<Rightarrow> DataType \<Rightarrow> bool" where
  "CheckDataTypeSupported pf data_type \<longleftrightarrow> GetSizeByDataType pf data_type > 0"

section \<open>The common frame of the transfers\<close>

text \<open>
  After its argument check every \<open>TransFormat\<close> computes \<open>total_size\<close> from the destination shape,
  accepts an empty tensor, refuses any other total that is not positive, and runs
  \<open>GetDstDataAfterTrans\<close>, turning its failures into \<open>INTERNAL_ERROR\<close>.
\<close>

definition checked_trans ::
  "TransArgs \<Rightarrow> int \<Rightarrow> TransResult \<Rightarrow> TransResult res \<Rightarrow> TransResult res"
where
  "checked_trans args total_size result get_dst_data =
     (if total_size \<le> 0 then
        let src_size = GetItemNumByShape (src_shape args) in
        if total_size = 0 \<and> src_size = 0 then Inr (result\<lparr>res_length := u64 total_size\<rparr>)
        else Inl (Ret PARAM_INVALID)
      else on_error INTERNAL_ERROR get_dst_data)"

text \<open>
  The transfers to and from the fractal formats instead return an empty result when the destination has
  no bytes (\<open>GE_CHK_BOOL_EXEC_NOLOG(dst_size != 0, ...)\<close>), and copy an element byte by byte after
  comparing the protected size with the element size.
\<close>

definition nonempty_trans :: "int \<Rightarrow> TransResult \<Rightarrow> TransResult res \<Rightarrow> TransResult res" where
  "nonempty_trans dst_size result k =
     (if \<not> dst_size \<noteq> 0 then Inr (result\<lparr>res_length := u64 dst_size\<rparr>) else k)"

definition guarded_copy ::
  "platform \<Rightarrow> mem option \<Rightarrow> int \<Rightarrow> int \<Rightarrow> mem option \<Rightarrow> int \<Rightarrow> int \<Rightarrow> mem option res"
where
  "guarded_copy pf dst dst_offset dst_size src src_offset sz =
     (if protected_size pf dst_size dst_offset < sz then Inl (Ret INTERNAL_ERROR)
      else copy_bytes dst dst_offset src src_offset sz)"

section \<open>Properties of the helpers\<close>

lemma on_error_simps [simp]:
  "on_error s (Inr x) = Inr x" "on_error s (Inl (Ret t)) = Inl (Ret s)"
  "on_error s (Inl Fault) = Inl Fault"
  by (simp_all add: on_error_def)

lemma at_less [simp]: "k < length s \<Longrightarrow> at s k f = f (s ! k)"
  by (simp add: at_def)

lemma at_lits:
  "at [a, b, c, d] 0 f = f a" "at [a, b, c, d] 1 f = f b" "at [a, b, c, d] 2 f = f c" "at [a, b, c, d] 3 f = f d"
  "at [a, b, c, d, e] 0 f = f a" "at [a, b, c, d, e] 1 f = f b" "at [a, b, c, d, e] 2 f = f c"
  "at [a, b, c, d, e] 3 f = f d" "at [a, b, c, d, e] 4 f = f e"
  "at [a, b, c, d, e, g] 0 f = f a" "at [a, b, c, d, e, g] 1 f = f b" "at [a, b, c, d, e, g] 2 f = f c"
  "at [a, b, c, d, e, g] 3 f = f d" "at [a, b, c, d, e, g] 4 f = f e" "at [a, b, c, d, e, g] 5 f = f g"
  by (simp_all add: at_def)

lemma shape_max_pow: "kShapeItemNumMAX = 2 ^ 40"
  by (simp add: kShapeItemNumMAX_def)

lemma max_div_less_iff:
  assumes "0 < dim"
  shows "kShapeItemNumMAX sdiv dim < num \<longleftrightarrow> kShapeItemNumMAX < num * dim"
proof -
  have "kShapeItemNumMAX sdiv dim = kShapeItemNumMAX div dim"
    using assms by (simp add: shape_max_pow)
  moreover have "kShapeItemNumMAX div dim < num \<longleftrightarrow> kShapeItemNumMAX < num * dim"
  proof
    assume "kShapeItemNumMAX < num * dim"
    with assms show "kShapeItemNumMAX div dim < num" by (rule div_less_of_less_mult)
  next
    assume "kShapeItemNumMAX div dim < num"
    then have "(kShapeItemNumMAX div dim + 1) * dim \<le> num * dim"
      using assms by (intro mult_right_mono) simp_all
    moreover have "kShapeItemNumMAX < (kShapeItemNumMAX div dim + 1) * dim"
      using pos_mod_bound [OF assms, of kShapeItemNumMAX] div_mult_mod_eq [of kShapeItemNumMAX dim]
      by (simp only: distrib_right mult_1_left)
    ultimately show "kShapeItemNumMAX < num * dim" by linarith
  qed
  ultimately show ?thesis by simp
qed

lemma IsShapeValid_loop_iff:
  assumes "0 \<le> num" "num \<le> kShapeItemNumMAX"
  shows "IsShapeValid_loop shape num \<longleftrightarrow>
    (\<forall>d\<in>set shape. 0 \<le> d) \<and> (\<forall>k\<le>length shape. num * prod_list (take k shape) \<le> kShapeItemNumMAX)"
  using assms
proof (induction shape arbitrary: num)
  case (Cons dim dims)
  have split: "(\<forall>k\<le>Suc (length dims). P k) \<longleftrightarrow> P 0 \<and> (\<forall>k\<le>length dims. P (Suc k))" for P
    using All_less_Suc2 [of "Suc (length dims)" P] by (simp add: less_Suc_eq_le)
  show ?case
  proof (cases "0 \<le> dim \<and> num * dim \<le> kShapeItemNumMAX")
    case True
    moreover have "(dim \<noteq> 0 \<and> kShapeItemNumMAX sdiv dim < num) = False"
      using True by (auto simp: max_div_less_iff)
    moreover have "0 \<le> num * dim" using True Cons.prems by simp
    moreover have "i64 (num * dim) = num * dim"
      using True \<open>0 \<le> num * dim\<close> by (simp add: shape_max_pow)
    ultimately show ?thesis
      using Cons.IH [of "num * dim"] Cons.prems
      by (simp only: IsShapeValid_loop.simps) (simp add: split mult.assoc)
  next
    case False
    then have "dim < 0 \<or> (dim \<noteq> 0 \<and> kShapeItemNumMAX sdiv dim < num)"
      using Cons.prems max_div_less_iff [of dim num] by (cases "dim < 0"; cases "dim = 0") auto
    then have "\<not> IsShapeValid_loop (dim # dims) num" by auto
    moreover have "\<exists>k\<le>length dims. k = 0" by simp
    ultimately show ?thesis using False by (auto simp: split)
  qed
qed simp

lemma IsShapeValid_iff:
  "IsShapeValid shape \<longleftrightarrow> shape \<noteq> [] \<and> (\<forall>d\<in>set shape. 0 \<le> d) \<and>
     (\<forall>k\<le>length shape. prod_list (take k shape) \<le> kShapeItemNumMAX)"
  using IsShapeValid_loop_iff [of 1 shape] by (simp add: IsShapeValid_def kShapeItemNumMAX_def)

text \<open>A usable shape: what \<open>IsShapeValid\<close> guarantees to its callers.\<close>

definition good_shape :: "int list \<Rightarrow> bool" where
  "good_shape shape \<longleftrightarrow> (\<forall>d\<in>set shape. 0 \<le> d) \<and> prod_list shape \<le> kShapeItemNumMAX"

lemma IsShapeValid_good: "IsShapeValid shape \<Longrightarrow> good_shape shape"
  unfolding IsShapeValid_iff good_shape_def by (metis order_refl take_all)

lemma prod_list_nonneg: "(\<forall>d\<in>set s. 0 \<le> d) \<Longrightarrow> 0 \<le> prod_list (s :: int list)"
  by (induction s) auto

lemma good_shape_prod: "good_shape s \<Longrightarrow> 0 \<le> prod_list s \<and> prod_list s \<le> kShapeItemNumMAX"
  by (simp add: good_shape_def prod_list_nonneg)

lemma good_shape_pos: "good_shape s \<Longrightarrow> prod_list s \<noteq> 0 \<Longrightarrow> d \<in> set s \<Longrightarrow> 0 < d"
  by (metis good_shape_def order_less_le prod_list_zero_iff)

lemma dvd_prod_list: "d \<in> set s \<Longrightarrow> d dvd prod_list (s :: int list)"
  by (induction s) auto

lemma good_shape_dim: "good_shape s \<Longrightarrow> prod_list s \<noteq> 0 \<Longrightarrow> d \<in> set s \<Longrightarrow> 0 < d \<and> d \<le> 2 ^ 40"
  using zdvd_imp_le [OF dvd_prod_list, of d s] good_shape_prod [of s] good_shape_pos [of s d]
  by (simp add: shape_max_pow)

lemma foldl_i64_mult: "foldl (\<lambda>num dim. i64 (num * dim)) a s = (if s = [] then a else i64 (a * prod_list s))"
proof (induction s arbitrary: a)
  case (Cons d ds)
  then show ?case using Cons.IH [of "i64 (a * d)"] by (auto simp: i64_simps mult.assoc)
qed simp

lemma GetItemNumByShape_i64: "GetItemNumByShape s = i64 (prod_list s)"
  by (simp add: GetItemNumByShape_def foldl_i64_mult)

lemma GetItemNumByShape_good: "good_shape s \<Longrightarrow> GetItemNumByShape s = prod_list s"
  using good_shape_prod [of s] by (simp add: GetItemNumByShape_i64 shape_max_pow)

lemma CheckShapeValid_iff:
  "CheckShapeValid shape k \<longleftrightarrow> 0 < k \<and> int (length shape) = k \<and> IsShapeValid shape"
  by (auto simp: CheckShapeValid_def)

lemma IsShapeEqual_loop_iff:
  "length s = length d \<Longrightarrow> IsShapeEqual_loop s d \<longleftrightarrow> s = d"
  by (induction s d rule: list_induct2) auto

lemma IsShapeEqual_iff: "IsShapeEqual s d \<longleftrightarrow> s = d"
  by (auto simp: IsShapeEqual_def IsShapeEqual_loop_iff)

lemma IsTransShapeSrcCorrect_iff [simp]: "IsTransShapeSrcCorrect args e \<longleftrightarrow> src_shape args = e"
  by (simp add: IsTransShapeSrcCorrect_def)

lemma IsTransShapeDstCorrect_iff [simp]:
  "IsTransShapeDstCorrect args e \<longleftrightarrow> dst_shape args = [] \<or> dst_shape args = e"
  by (auto simp: IsTransShapeDstCorrect_def)

lemma Ceil_eq:
  assumes "0 \<le> n" "n < 2 ^ 63" "0 < d"
  shows "Ceil n d = (n + d - 1) div d"
proof (cases "n = 0")
  case False
  have "n - 1 < (2 ^ 63 - 1) * d"
    using assms by simp
  then have "0 \<le> (n - 1) div d" "(n - 1) div d < 2 ^ 63 - 1"
    using assms False div_less_of_less_mult [of d "n - 1" "2 ^ 63 - 1"]
    by (simp_all add: pos_imp_zdiv_nonneg_iff)
  moreover have "(n + d - 1) div d = (n - 1) div d + 1"
    using assms div_add_self2 [of d "n - 1"] by (simp add: algebra_simps)
  ultimately show ?thesis using assms False by (simp add: Ceil_def)
qed (use assms in \<open>simp add: Ceil_def\<close>)

lemma Ceil_bounds:
  assumes "0 \<le> n" "n < 2 ^ 63" "0 < d"
  shows "0 \<le> Ceil n d" "n \<le> Ceil n d * d" "Ceil n d * d < n + d" "0 < n \<Longrightarrow> 0 < Ceil n d"
    "Ceil n d \<le> n"
proof -
  have e: "Ceil n d = (n + d - 1) div d" by (rule Ceil_eq [OF assms])
  have m: "(n + d - 1) div d * d + (n + d - 1) mod d = n + d - 1"
    "0 \<le> (n + d - 1) mod d" "(n + d - 1) mod d < d"
    using assms by (simp_all only: div_mult_mod_eq pos_mod_sign pos_mod_bound)
  show "0 \<le> Ceil n d" unfolding e using assms by (simp add: pos_imp_zdiv_nonneg_iff)
  show b: "n \<le> Ceil n d * d" unfolding e using m by linarith
  show "Ceil n d * d < n + d" unfolding e using m by linarith
  show "0 < n \<Longrightarrow> 0 < Ceil n d" using b assms by (metis mult_nonpos_nonneg not_less order.trans order_less_imp_le)
  have "(Ceil n d - 1) * d < n" unfolding e using m by (simp only: left_diff_distrib mult_1_left)
  moreover have "Ceil n d - 1 \<le> (Ceil n d - 1) * d" if "1 \<le> Ceil n d"
    using mult_left_mono [of 1 d "Ceil n d - 1"] that assms by simp
  ultimately show "Ceil n d \<le> n" using assms(1) by linarith
qed

lemma CubeSize_cases:
  assumes "0 < GetSizeByDataType pf t"
  shows "GetCubeSizeByDataType pf t = 16 \<or> GetCubeSizeByDataType pf t = 32"
  using assms by (simp add: GetCubeSizeByDataType_def kCubeSize_def Let_def)

lemma CubeSize_pos: "0 < GetSizeByDataType pf t \<Longrightarrow> 0 < GetCubeSizeByDataType pf t"
  using CubeSize_cases by fastforce

lemma CubeSize_le: "GetCubeSizeByDataType pf t \<le> 32"
  by (simp add: GetCubeSizeByDataType_def kCubeSize_def Let_def)

lemma CubeSize_pos_iff: "0 < GetCubeSizeByDataType pf t \<longleftrightarrow> 0 < GetSizeByDataType pf t"
  by (simp add: GetCubeSizeByDataType_def kCubeSize_def Let_def)

end
