(* ===== verification/Transfer_Spec.thy ===== *)
theory Transfer_Spec
  imports Formats_Utils
begin

text \<open>
  What a format transfer promises, independently of the loops that implement it. A layout change is a
  map from the indices of the destination to the indices of the source (no source index means
  padding); \<open>gathers\<close> says that a buffer is the image of another under such a map, and
  \<open>transfer_spec\<close> is the contract of a whole \<open>TransFormat\<close>. The locale \<open>transfer\<close>
  is the interface of one transfer; \<open>transfer_pair\<close> extends it by a transfer in the other direction and holds
  the argument that a change of layout followed by its inverse gives the data back.
\<close>

section \<open>The contract\<close>

definition zero_elem :: "int \<Rightarrow> mem" where
  "zero_elem sz = replicate (nat sz) (Some 0)"

definition gather_elem :: "int \<Rightarrow> int list \<Rightarrow> (int list \<Rightarrow> int list option) \<Rightarrow> mem \<Rightarrow> int list \<Rightarrow> mem" where
  "gather_elem sz src g s idx =
     (case g idx of Some j \<Rightarrow> elem sz s (flat src j) | None \<Rightarrow> zero_elem sz)"

definition gathers ::
  "int \<Rightarrow> int list \<Rightarrow> int list \<Rightarrow> (int list \<Rightarrow> int list option) \<Rightarrow> mem \<Rightarrow> mem \<Rightarrow> bool"
where
  "gathers sz src dst g s m \<longleftrightarrow>
     int (length m) = prod_list dst * sz \<and>
     (\<forall>idx. valid_index dst idx \<longrightarrow> elem sz m (flat dst idx) = gather_elem sz src g s idx)"

definition transfer_spec ::
  "platform \<Rightarrow> Status \<Rightarrow> int \<Rightarrow> int list \<Rightarrow> int list \<Rightarrow> (int list \<Rightarrow> int list option) \<Rightarrow> mem \<Rightarrow>
   TransResult \<Rightarrow> TransResult res \<Rightarrow> bool"
where
  "transfer_spec pf oom sz src dst g s result r \<longleftrightarrow>
     (if prod_list dst = 0 then r = Inr (result\<lparr>res_length := 0\<rparr>)
      else if \<not> new_succeeds pf (prod_list dst * sz) then r = Inl (Ret oom)
      else \<exists>m. r = Inr (result\<lparr>res_data := Some m, res_length := prod_list dst * sz\<rparr>) \<and>
             gathers sz src dst g s m)"

text \<open>A source buffer of \<open>prod_list src\<close> elements.\<close>

definition holds_tensor :: "int \<Rightarrow> int list \<Rightarrow> mem option \<Rightarrow> mem \<Rightarrow> bool" where
  "holds_tensor sz src d s \<longleftrightarrow> d = Some s \<and> int (length s) = prod_list src * sz"

text \<open>A platform as deployed, for concrete runs of the model.\<close>

definition sample_platform :: platform where
  "sample_platform = \<lparr>GetSizeByDataType = (\<lambda>t. case t of DT_FLOAT \<Rightarrow> 4 | DT_FLOAT16 \<Rightarrow> 2 | DT_INT8 \<Rightarrow> 1
       | DT_UINT8 \<Rightarrow> 1 | DT_INT32 \<Rightarrow> 4 | DT_INT64 \<Rightarrow> 8 | DT_DOUBLE \<Rightarrow> 8 | DT_BOOL \<Rightarrow> 1 | _ \<Rightarrow> - 1),
     SECUREC_MEM_MAX_LEN = 2147483647, new_succeeds = (\<lambda>_. True)\<rparr>"

definition sample_args :: "Format \<Rightarrow> Format \<Rightarrow> int list \<Rightarrow> int list \<Rightarrow> DataType \<Rightarrow> mem \<Rightarrow> TransArgs" where
  "sample_args sf df ss ds t m = \<lparr>data = Some m, src_format = sf, dst_format = df, src_shape = ss,
     dst_shape = ds, src_data_type = t\<rparr>"

definition no_result :: TransResult where
  "no_result = \<lparr>res_data = None, res_length = 0\<rparr>"

lemmas sample_defs = sample_platform_def sample_args_def no_result_def

section \<open>From filling loops to the contract\<close>

lemma length_4D: "length xs = 4 \<longleftrightarrow> (\<exists>a b c d. xs = [a, b, c, d])"
  by (auto simp: numeral_eq_Suc length_Suc_conv)

lemma length_5D: "length xs = 5 \<longleftrightarrow> (\<exists>a b c d e. xs = [a, b, c, d, e])"
  by (auto simp: numeral_eq_Suc length_Suc_conv)

lemma offset_id:
  assumes "platform_ok pf sz" "prod_list ds * sz < 2 ^ 63" "valid_index ds idx"
    and "wrap_eq x y" "y = flat ds idx * sz"
  shows "i64 x = flat ds idx * sz"
proof (rule i64_eqI [OF assms(4,5)])
  have "flat ds idx * sz < prod_list ds * sz"
    using flat_bounds [OF assms(3)] assms(1) by (intro mult_strict_right_mono) (auto simp: platform_ok_def)
  then show "flat ds idx * sz < 2 ^ 63" using assms(2) by simp
  show "0 \<le> flat ds idx * sz"
    using flat_bounds [OF assms(3)] assms(1) by (simp add: platform_ok_def)
qed

lemma fills_gather_zero:
  assumes "platform_ok pf sz" "prod_list dst * sz < 2 ^ 63" "valid_index dst idx" "g idx = None"
    and "doff = flat dst idx * sz" "tot = prod_list dst * sz" "x = flat dst idx"
  shows "fills sz (prod_list dst) (\<lambda>x. gather_elem sz src g s (unflat dst x)) {x}
    (\<lambda>d. check_eok (memset_s pf d doff (protected_size pf tot doff) sz))"
  using assms by (intro fills_memset_s)
    (simp_all add: flat_bounds unflat_flat gather_elem_def zero_elem_def)

lemma fills_gather_copy:
  assumes "platform_ok pf sz" "prod_list dst * sz < 2 ^ 63" "valid_index dst idx" "g idx = Some j"
    and "valid_index src j" "int (length s) = prod_list src * sz"
    and "doff = flat dst idx * sz" "tot = prod_list dst * sz" "x = flat dst idx"
    and "soff = flat src j * sz"
  shows "fills sz (prod_list dst) (\<lambda>x. gather_elem sz src g s (unflat dst x)) {x}
    (\<lambda>d. check_eok (memcpy_s pf d doff (protected_size pf tot doff) (Some s) soff sz))"
  using assms by (intro fills_memcpy_elem)
    (simp_all add: flat_bounds unflat_flat gather_elem_def elem_def elem_bounds [of sz "flat src j" "prod_list src"]
      platform_ok_def)

lemma fills_gathers:
  assumes "fills sz (prod_list dst) (\<lambda>x. gather_elem sz src g s (unflat dst x)) {0..<prod_list dst} prog"
    and "int (length m) = prod_list dst * sz"
  shows "\<exists>m'. prog (Some m) = Inr (Some m') \<and> gathers sz src dst g s m'"
  using fills_run [OF assms] by (auto simp: gathers_def flat_bounds unflat_flat)

lemma alloc_dst_fills:
  assumes "fills sz (prod_list dst) (\<lambda>x. gather_elem sz src g s (unflat dst x)) {0..<prod_list dst} prog"
    and "0 \<le> prod_list dst * sz" "prod_list dst * sz < 2 ^ 63"
  shows "if new_succeeds pf (prod_list dst * sz)
    then \<exists>m. alloc_dst pf (prod_list dst * sz) (\<lambda>d. and_then (prog d) (set_result result (prod_list dst * sz)))
        = Inr (result\<lparr>res_data := Some m, res_length := prod_list dst * sz\<rparr>) \<and> gathers sz src dst g s m
    else alloc_dst pf (prod_list dst * sz) (\<lambda>d. and_then (prog d) (set_result result (prod_list dst * sz)))
        = Inl (Ret OUT_OF_MEMORY)"
  using fills_gathers [OF assms(1), of "replicate (nat (prod_list dst * sz)) None"] assms
  by (auto simp: alloc_dst_def new_bytes_def set_result_def)

lemma length_6D: "length xs = 6 \<longleftrightarrow> (\<exists>a b c d e f. xs = [a, b, c, d, e, f])"
  by (auto simp: numeral_eq_Suc length_Suc_conv)

text \<open>The channel index splits into a block and a position in the block.\<close>

lemma channel_split:
  assumes "0 \<le> i" "i < c" "c < 2 ^ 63" "0 < c0"
  shows "0 \<le> i div c0" "i div c0 < Ceil c c0" "0 \<le> i mod c0" "i mod c0 < c0"
    "i sdiv c0 = i div c0" "i smod c0 = i mod c0"
proof -
  show "i div c0 < Ceil c c0"
    using Ceil_bounds [of c c0] assms by (intro div_less_of_less_mult) auto
qed (use assms in \<open>simp_all add: pos_imp_zdiv_nonneg_iff\<close>)

lemma good_shape_bytes:
  assumes "good_shape s" "platform_ok pf sz"
  shows "prod_list s * sz < 2 ^ 63" "0 \<le> prod_list s * sz"
    "i64 (GetItemNumByShape s * sz) = prod_list s * sz"
proof -
  have b: "0 \<le> prod_list s" "prod_list s \<le> 2 ^ 40" "0 < sz" "sz \<le> 2 ^ 12"
    using good_shape_prod [OF assms(1)] assms(2) by (simp_all add: shape_max_pow platform_ok_def)
  then have "prod_list s * sz \<le> 2 ^ 40 * 2 ^ 12" by (intro mult_mono) simp_all
  then show c: "prod_list s * sz < 2 ^ 63" by simp
  show d: "0 \<le> prod_list s * sz" using b by simp
  show "i64 (GetItemNumByShape s * sz) = prod_list s * sz"
    using c d GetItemNumByShape_good [OF assms(1)] by simp
qed

lemma checked_trans_spec:
  assumes "good_shape (src_shape args)" "good_shape dst" "platform_ok pf sz"
    and "prod_list dst = 0 \<Longrightarrow> prod_list (src_shape args) = 0"
    and tot: "tot = i64 (GetItemNumByShape dst * sz)"
    and body: "0 < prod_list dst \<Longrightarrow>
      body = alloc_dst pf (prod_list dst * sz) (\<lambda>d. and_then (prog d) (set_result result (prod_list dst * sz)))"
    and fills: "0 < prod_list dst \<Longrightarrow>
      fills sz (prod_list dst) (\<lambda>x. gather_elem sz src g s (unflat dst x)) {0..<prod_list dst} prog"
  shows "transfer_spec pf INTERNAL_ERROR sz src dst g s result (checked_trans args tot result body)"
proof (cases "prod_list dst = 0")
  case True
  then show ?thesis
    using assms GetItemNumByShape_good [OF assms(1)] good_shape_bytes [OF assms(2,3)]
    by (simp add: transfer_spec_def checked_trans_def tot)
next
  case False
  then have p: "0 < prod_list dst" using good_shape_prod [OF assms(2)] by simp
  moreover have "0 < sz" using assms(3) by (simp add: platform_ok_def)
  ultimately have "0 < prod_list dst * sz" by simp
  moreover note good_shape_bytes [OF assms(2,3)]
  ultimately show ?thesis
    using alloc_dst_fills [OF fills [OF p], of pf result] False
    by (auto simp: transfer_spec_def checked_trans_def tot body [OF p] not_le split: if_splits)
qed

text \<open>
  The step at the bottom of the loops: one element is copied or zeroed at an address the code computes
  in \<open>int64_t\<close>.
\<close>

lemma fills_copy_at:
  assumes "platform_ok pf sz" "prod_list dst * sz < 2 ^ 63" "prod_list src * sz < 2 ^ 63"
    and "int (length s) = prod_list src * sz" "tot = prod_list dst * sz"
    and "valid_index dst idx" "valid_index src j" "g idx = Some j" "x = flat dst idx"
    and "doff' = flat dst idx * sz" "wrap_eq doff doff'" "soff' = flat src j * sz" "wrap_eq soff soff'"
  shows "fills sz (prod_list dst) (\<lambda>x. gather_elem sz src g s (unflat dst x)) {x}
    (\<lambda>d. check_eok (memcpy_s pf d (i64 doff) (protected_size pf tot (i64 doff)) (Some s) (i64 soff) sz))"
  using offset_id [OF assms(1,2,6,11,10)] offset_id [OF assms(1,3,7,13,12)] assms
  by (intro fills_gather_copy [where idx = idx and j = j]) simp_all

lemma fills_zero_at:
  assumes "platform_ok pf sz" "prod_list dst * sz < 2 ^ 63" "tot = prod_list dst * sz"
    and "valid_index dst idx" "g idx = None" "x = flat dst idx"
    and "doff' = flat dst idx * sz" "wrap_eq doff doff'"
  shows "fills sz (prod_list dst) (\<lambda>x. gather_elem sz src g s (unflat dst x)) {x}
    (\<lambda>d. check_eok (memset_s pf d (i64 doff) (protected_size pf tot (i64 doff)) sz))"
  using offset_id [OF assms(1,2,4,8,7)] assms
  by (intro fills_gather_zero [where idx = idx]) simp_all

lemma fills_bytecopy_at:
  assumes "platform_ok pf sz" "prod_list dst * sz < 2 ^ 63" "prod_list src * sz < 2 ^ 63"
    and "int (length s) = prod_list src * sz" "tot = prod_list dst * sz"
    and "valid_index dst idx" "valid_index src j" "g idx = Some j" "x = flat dst idx"
    and "doff' = flat dst idx * sz" "wrap_eq doff doff'" "soff' = flat src j * sz" "wrap_eq soff soff'"
  shows "fills sz (prod_list dst) (\<lambda>x. gather_elem sz src g s (unflat dst x)) {x}
    (\<lambda>d. guarded_copy pf d (i64 doff) tot (Some s) (i64 soff) sz)"
proof -
  have o: "i64 doff = flat dst idx * sz" "i64 soff = flat src j * sz"
    using offset_id [OF assms(1,2,6,11,10)] offset_id [OF assms(1,3,7,13,12)] .
  have sz: "0 < sz" "sz \<le> SECUREC_MEM_MAX_LEN pf" using assms(1) by (simp_all add: platform_ok_def)
  have "sz \<le> protected_size pf tot (i64 doff)"
    using protected_size_bounds(1) [of pf sz "flat dst idx" 1 "prod_list dst"] flat_bounds [OF assms(6)] assms(1,2) sz
    by (simp add: o assms(5))
  then have "\<not> protected_size pf tot (i64 doff) < sz" by simp
  then show ?thesis
    unfolding guarded_copy_def using flat_bounds [OF assms(6)] assms sz
    by (simp add: o) (intro fills_copy_bytes, simp_all add: unflat_flat gather_elem_def elem_def
        elem_bounds [of sz "flat src j" "prod_list src"] flat_bounds)
qed

text \<open>
  Code that writes only the elements that have a source, into a zeroed buffer, and code that covers the
  whole buffer in any order.
\<close>

lemma fills_gathers_partial:
  assumes f: "fills sz (prod_list dst) (\<lambda>x. gather_elem sz src g s (unflat dst x)) R prog"
    and cover: "\<And>idx. valid_index dst idx \<Longrightarrow> g idx \<noteq> None \<Longrightarrow> flat dst idx \<in> R"
    and "0 < sz" "m = replicate (nat (prod_list dst * sz)) (Some 0)" "0 \<le> prod_list dst"
  shows "\<exists>m'. prog (Some m) = Inr (Some m') \<and> gathers sz src dst g s m'"
proof -
  have len: "int (length m) = prod_list dst * sz" using assms by simp
  obtain m' where m': "prog (Some m) = Inr (Some m')" "int (length m') = prod_list dst * sz"
    "\<forall>i. 0 \<le> i \<longrightarrow> i < prod_list dst \<longrightarrow>
       elem sz m' i = (if i \<in> R then gather_elem sz src g s (unflat dst i) else elem sz m i)"
    using fills_run [OF f len] by blast
  have "elem sz m' (flat dst idx) = gather_elem sz src g s idx" if v: "valid_index dst idx" for idx
  proof (cases "flat dst idx \<in> R")
    case False
    then have "g idx = None" using cover [OF v] by blast
    moreover have "elem sz m (flat dst idx) = zero_elem sz"
      using assms(3) flat_bounds [OF v] by (simp add: assms(4) elem_replicate zero_elem_def)
    ultimately show ?thesis using m'(3) flat_bounds [OF v] False by (simp add: gather_elem_def)
  qed (use m'(3) flat_bounds [OF v] unflat_flat [OF v] in simp)
  with m' show ?thesis by (auto simp: gathers_def)
qed

lemma alloc_dst_zeroed_fills:
  assumes "fills sz (prod_list dst) (\<lambda>x. gather_elem sz src g s (unflat dst x)) R prog"
    and "\<And>idx. valid_index dst idx \<Longrightarrow> g idx \<noteq> None \<Longrightarrow> flat dst idx \<in> R"
    and "0 < sz" "0 \<le> prod_list dst" "prod_list dst * sz < 2 ^ 63"
  shows "if new_succeeds pf (prod_list dst * sz)
    then \<exists>m. alloc_dst_zeroed pf (prod_list dst * sz) (\<lambda>d. and_then (prog d) (set_result result (prod_list dst * sz)))
        = Inr (result\<lparr>res_data := Some m, res_length := prod_list dst * sz\<rparr>) \<and> gathers sz src dst g s m
    else alloc_dst_zeroed pf (prod_list dst * sz) (\<lambda>d. and_then (prog d) (set_result result (prod_list dst * sz)))
        = Inl (Ret OUT_OF_MEMORY)"
  using fills_gathers_partial [OF assms(1,2,3) refl assms(4)] assms(3-5)
  by (auto simp: alloc_dst_zeroed_def new_bytes_zeroed_def set_result_def)

lemma fills_cover:
  assumes "fills sz N f R prog" "{0..<N} \<subseteq> R"
  shows "fills sz N f {0..<N} prog"
proof (rule fillsI)
  fix m :: mem assume m: "int (length m) = N * sz"
  obtain m' where m': "prog (Some m) = Inr (Some m')" "length m' = length m"
    "\<And>i. 0 \<le> i \<Longrightarrow> i < N \<Longrightarrow> elem sz m' i = (if i \<in> R then f i else elem sz m i)"
    using fillsD [OF assms(1) m] by blast
  have "i \<in> R" if "0 \<le> i" "i < N" for i using assms(2) that by auto
  with m' show "\<exists>m'. prog (Some m) = Inr (Some m') \<and> length m' = length m \<and>
      (\<forall>i. 0 \<le> i \<longrightarrow> i < N \<longrightarrow> elem sz m' i = (if i \<in> {0..<N} then f i else elem sz m i))" by auto
qed

text \<open>
  One row of a fractal format: \<open>w div w0\<close> blocks of \<open>w0\<close> elements are copied whole, the rest of the
  row element by element. \<open>P\<close> and \<open>Q\<close> give the destination and the source position of column
  \<open>wi\<close>; within a block both are consecutive.
\<close>

lemma fills_fractal_row:
  assumes ok: "platform_ok pf sz" and N: "prod_list dst * sz < 2 ^ 63" "prod_list src * sz < 2 ^ 63"
    and s: "int (length s) = prod_list src * sz" and tot: "tot = prod_list dst * sz"
    and w0: "0 < w0" "w0 \<le> 32" and w: "0 \<le> w" and num: "num = w div w0" and cnt: "cnt = w0 * sz"
    and cP: "\<And>q e. 0 \<le> q \<Longrightarrow> 0 \<le> e \<Longrightarrow> e < w0 \<Longrightarrow> P (q * w0 + e) = P (q * w0) + e"
    and cQ: "\<And>q e. 0 \<le> q \<Longrightarrow> 0 \<le> e \<Longrightarrow> e < w0 \<Longrightarrow> Q (q * w0 + e) = Q (q * w0) + e"
    and at: "\<And>wi. 0 \<le> wi \<Longrightarrow> wi < w \<Longrightarrow> \<exists>idx j. valid_index dst idx \<and> valid_index src j \<and> g idx = Some j \<and>
      P wi = flat dst idx \<and> Q wi = flat src j"
    and blk: "\<And>q. 0 \<le> q \<Longrightarrow> q < num \<Longrightarrow> wrap_eq (doff q) (P (q * w0) * sz) \<and> wrap_eq (soff q) (Q (q * w0) * sz)"
    and tl: "\<And>k. 0 \<le> k \<Longrightarrow> k < w - num * w0 \<Longrightarrow>
      wrap_eq (doff' k) (P (num * w0 + k) * sz) \<and> wrap_eq (soff' k) (Q (num * w0 + k) * sz)"
  shows "fills sz (prod_list dst) (\<lambda>x. gather_elem sz src g s (unflat dst x)) (P ` {0..<w})
    (\<lambda>d. and_then
      (for_lt num (\<lambda>q d. check_eok (memcpy_s pf d (i64 (doff q)) (protected_size pf tot (i64 (doff q)))
        (Some s) (i64 (soff q)) cnt)) d)
      (for_lt (w - num * w0) (\<lambda>k d. check_eok (memcpy_s pf d (i64 (doff' k)) (protected_size pf tot (i64 (doff' k)))
        (Some s) (i64 (soff' k)) sz))))"
proof -
  let ?f = "\<lambda>x. gather_elem sz src g s (unflat dst x)"
  have sz: "0 < sz" "sz < 2 ^ 12" "2 ^ 17 \<le> SECUREC_MEM_MAX_LEN pf" using ok by (simp_all add: platform_ok_def)
  have PQ: "0 \<le> P wi" "P wi < prod_list dst" "0 \<le> Q wi" "Q wi < prod_list src" "?f (P wi) = elem sz s (Q wi)"
    if "0 \<le> wi" "wi < w" for wi
    using at [OF that] by (auto simp: flat_bounds unflat_flat gather_elem_def)
  have numw: "num * w0 \<le> w" "w - num * w0 < w0" "0 \<le> num"
  proof -
    have "w div w0 * w0 + w mod w0 = w" "0 \<le> w mod w0" "w mod w0 < w0"
      using w0 by (simp_all only: div_mult_mod_eq pos_mod_sign pos_mod_bound)
    then show "num * w0 \<le> w" "w - num * w0 < w0" unfolding num by linarith+
    show "0 \<le> num" using w0 w by (simp add: num pos_imp_zdiv_nonneg_iff)
  qed
  have inw: "q * w0 + e < w" "0 \<le> q * w0 + e" if "0 \<le> q" "q < num" "0 \<le> e" "e < w0" for q e
    using block_bound [of q num e w0] that numw by auto
  have off: "i64 d = x * sz" "0 \<le> x * sz"
    if "wrap_eq d (x * sz)" "0 \<le> x" "x < M" "M * sz < 2 ^ 63" for d x M
  proof -
    have "x * sz < M * sz" using that sz by simp
    moreover show "0 \<le> x * sz" using that sz by simp
    ultimately show "i64 d = x * sz" using that by (intro i64_eqI [OF that(1) refl]) auto
  qed
  have block: "fills sz (prod_list dst) ?f {P (q * w0)..<P (q * w0) + w0}
      (\<lambda>d. check_eok (memcpy_s pf d (i64 (doff q)) (protected_size pf tot (i64 (doff q))) (Some s) (i64 (soff q)) cnt))"
    if q: "0 \<le> q" "q < num" for q
  proof -
    have b: "0 \<le> P (q * w0)" "P (q * w0) + w0 \<le> prod_list dst" "0 \<le> Q (q * w0)" "Q (q * w0) + w0 \<le> prod_list src"
      using PQ(1,3) [OF inw(2,1), OF q, of 0] PQ(2,4) [OF inw(2,1), OF q, of "w0 - 1"]
        cP [of q "w0 - 1"] cQ [of q "w0 - 1"] q w0 by simp_all
    have o: "i64 (doff q) = P (q * w0) * sz" "i64 (soff q) = Q (q * w0) * sz"
      using off [of _ _ "prod_list dst"] off [of _ _ "prod_list src"] blk [OF q] b w0 N by simp_all
    have "w0 * sz \<le> 32 * 2 ^ 12" using w0 sz by (intro mult_mono) simp_all
    then have mx: "w0 * sz \<le> SECUREC_MEM_MAX_LEN pf" using sz by simp
    show ?thesis
      unfolding o
    proof (rule fills_memcpy_s [OF ok N(1) b(1) w0(1) b(2) mx refl tot cnt])
      show "in_bounds s (Q (q * w0) * sz) cnt"
        unfolding cnt using block_in_bounds [of sz "Q (q * w0)" w0 "prod_list src" s] b sz w0 s by simp
      show "?f (P (q * w0) + e) = mem_read s (Q (q * w0) * sz + e * sz) sz" if "0 \<le> e" "e < w0" for e
        using PQ(5) [OF inw(2) [OF q that] inw(1) [OF q that]] cP [OF q(1) that] cQ [OF q(1) that]
        by (simp add: elem_def algebra_simps)
    qed
  qed
  have one: "fills sz (prod_list dst) ?f {P (num * w0 + k)}
      (\<lambda>d. check_eok (memcpy_s pf d (i64 (doff' k)) (protected_size pf tot (i64 (doff' k))) (Some s) (i64 (soff' k)) sz))"
    if k: "0 \<le> k" "k < w - num * w0" for k
  proof -
    have kk: "0 \<le> num * w0 + k" "num * w0 + k < w" using k numw w0 by simp_all
    note b = PQ [OF kk]
    have o: "i64 (doff' k) = P (num * w0 + k) * sz" "i64 (soff' k) = Q (num * w0 + k) * sz"
      using off [of _ _ "prod_list dst"] off [of _ _ "prod_list src"] tl [OF k] b N by simp_all
    show ?thesis
      unfolding o using b sz s
      by (intro fills_memcpy_elem [OF ok N(1) b(1,2) refl tot])
        (simp_all add: elem_def elem_bounds [of sz "Q (num * w0 + k)" "prod_list src"])
  qed
  have R: "P ` {0..<w} = (\<Union>q\<in>{0..<num}. {P (q * w0)..<P (q * w0) + w0}) \<union> (\<Union>k\<in>{0..<w - num * w0}. {P (num * w0 + k)})"
    (is "_ = ?A \<union> ?B")
  proof (intro equalityI subsetI)
    fix x assume "x \<in> P ` {0..<w}"
    then obtain wi where wi: "x = P wi" "0 \<le> wi" "wi < w" by auto
    show "x \<in> ?A \<union> ?B"
    proof (cases "wi < num * w0")
      case True
      then obtain q e where q: "wi = q * w0 + e" "0 \<le> q" "q < num" "0 \<le> e" "e < w0"
        using block_split [OF wi(2) True w0(1)] by blast
      then have "x \<in> {P (q * w0)..<P (q * w0) + w0}" using cP [of q e] wi by simp
      then show ?thesis using q by auto
    next
      case False
      then have "wi - num * w0 \<in> {0..<w - num * w0}" "x \<in> {P (num * w0 + (wi - num * w0))}" using wi by auto
      then show ?thesis by blast
    qed
  next
    fix x assume "x \<in> ?A \<union> ?B"
    then consider (A) q where "0 \<le> q" "q < num" "P (q * w0) \<le> x" "x < P (q * w0) + w0"
      | (B) k where "0 \<le> k" "k < w - num * w0" "x = P (num * w0 + k)" by auto
    then show "x \<in> P ` {0..<w}"
    proof cases
      case A
      then have "x = P (q * w0 + (x - P (q * w0)))" using cP [of q "x - P (q * w0)"] by simp
      moreover have "q * w0 + (x - P (q * w0)) \<in> {0..<w}" using inw [of q "x - P (q * w0)"] A by simp
      ultimately show ?thesis by blast
    next
      case B
      then have "num * w0 + k \<in> {0..<w}" using numw w0 by simp
      with B show ?thesis by blast
    qed
  qed
  show ?thesis
    unfolding R by (intro fills_seq fills_for block one)
qed

lemma nonempty_trans_zeroed_spec:
  assumes "platform_ok pf sz" "0 \<le> prod_list dst" "prod_list dst * sz < 2 ^ 63" "tot = prod_list dst * sz"
    and body: "0 < prod_list dst \<Longrightarrow>
      body = alloc_dst_zeroed pf (prod_list dst * sz) (\<lambda>d. and_then (prog d) (set_result result (prod_list dst * sz)))"
    and fills: "0 < prod_list dst \<Longrightarrow>
      fills sz (prod_list dst) (\<lambda>x. gather_elem sz src g s (unflat dst x)) R prog"
    and cover: "\<And>idx. 0 < prod_list dst \<Longrightarrow> valid_index dst idx \<Longrightarrow> g idx \<noteq> None \<Longrightarrow> flat dst idx \<in> R"
  shows "transfer_spec pf OUT_OF_MEMORY sz src dst g s result (nonempty_trans tot result body)"
proof (cases "prod_list dst = 0")
  case True
  then show ?thesis by (simp add: transfer_spec_def nonempty_trans_def assms(4))
next
  case False
  then have p: "0 < prod_list dst" using assms(2) by simp
  moreover have sz: "0 < sz" using assms(1) by (simp add: platform_ok_def)
  ultimately have "0 < prod_list dst * sz" by simp
  then show ?thesis
    using alloc_dst_zeroed_fills [OF fills [OF p] cover [OF p] sz assms(2,3), of pf result] False assms(3)
    by (auto simp: transfer_spec_def nonempty_trans_def assms(4) body [OF p] split: if_splits)
qed

lemma nonempty_trans_spec:
  assumes "platform_ok pf sz" "0 \<le> prod_list dst" "prod_list dst * sz < 2 ^ 63" "tot = prod_list dst * sz"
    and body: "0 < prod_list dst \<Longrightarrow>
      body = alloc_dst pf (prod_list dst * sz) (\<lambda>d. and_then (prog d) (set_result result (prod_list dst * sz)))"
    and fills: "0 < prod_list dst \<Longrightarrow>
      fills sz (prod_list dst) (\<lambda>x. gather_elem sz src g s (unflat dst x)) {0..<prod_list dst} prog"
  shows "transfer_spec pf OUT_OF_MEMORY sz src dst g s result (nonempty_trans tot result body)"
proof (cases "prod_list dst = 0")
  case True
  then show ?thesis by (simp add: transfer_spec_def nonempty_trans_def assms(4))
next
  case False
  then have p: "0 < prod_list dst" using assms(2) by simp
  moreover have "0 < sz" using assms(1) by (simp add: platform_ok_def)
  ultimately have "0 < prod_list dst * sz" by simp
  then show ?thesis
    using alloc_dst_fills [OF fills [OF p], of pf result] False assms(3)
    by (auto simp: transfer_spec_def nonempty_trans_def assms(4) body [OF p] split: if_splits)
qed

section \<open>Changing the layout and changing it back\<close>

text \<open>
  An accepted set of arguments, an operation and its contract make a \<open>transfer\<close>. Two transfers
  undo each other when they meet the laws of \<open>transfer_pair\<close>: their accepted arguments, their \<open>TransFormat\<close> operations, and for
  a source and a destination shape the map from destination indices to source indices
  (\<open>to_src\<close>) and back (\<open>to_dst\<close>). Both operations meet the contract, the backward transfer
  accepts what the forward transfer produced, and \<open>to_dst\<close> is a right inverse of \<open>to_src\<close>.
\<close>

definition args_back :: "TransArgs \<Rightarrow> TransResult \<Rightarrow> TransArgs" where
  "args_back args r = args\<lparr>data := res_data r, src_format := dst_format args, dst_format := src_format args,
     src_shape := dst_shape args, dst_shape := src_shape args\<rparr>"

lemma args_back_simps [simp]:
  "data (args_back args r) = res_data r" "src_format (args_back args r) = dst_format args"
  "dst_format (args_back args r) = src_format args" "src_shape (args_back args r) = dst_shape args"
  "dst_shape (args_back args r) = src_shape args" "src_data_type (args_back args r) = src_data_type args"
  by (simp_all add: args_back_def)

type_synonym layout_map = "int list \<Rightarrow> int list \<Rightarrow> int list \<Rightarrow> int list option"

type_synonym trans_format = "platform \<Rightarrow> TransArgs \<Rightarrow> TransResult \<Rightarrow> TransResult res"

locale transfer =
  fixes accepted :: "platform \<Rightarrow> TransArgs \<Rightarrow> bool" and trans :: trans_format
    and to_src :: layout_map and oom :: Status
  assumes shapes: "accepted pf args \<Longrightarrow> good_shape (src_shape args)"
    and meets: "accepted pf args \<Longrightarrow> sz = GetSizeByDataType pf (src_data_type args) \<Longrightarrow> platform_ok pf sz \<Longrightarrow>
      holds_tensor sz (src_shape args) (data args) s \<Longrightarrow>
      transfer_spec pf oom sz (src_shape args) (dst_shape args)
        (to_src (src_shape args) (dst_shape args)) s result (trans pf args result)"
begin

lemma returns:
  assumes "accepted pf args" "sz = GetSizeByDataType pf (src_data_type args)" "platform_ok pf sz"
    and "holds_tensor sz (src_shape args) (data args) s"
    and "new_succeeds pf (prod_list (dst_shape args) * sz)" "prod_list (dst_shape args) \<noteq> 0"
  obtains m where
    "trans pf args result = Inr (result\<lparr>res_data := Some m, res_length := prod_list (dst_shape args) * sz\<rparr>)"
    "gathers sz (src_shape args) (dst_shape args) (to_src (src_shape args) (dst_shape args)) s m"
  using meets [OF assms(1-4), of result] assms(5,6) by (auto simp: transfer_spec_def)

lemma no_fault:
  assumes "accepted pf args" "sz = GetSizeByDataType pf (src_data_type args)" "platform_ok pf sz"
    and "holds_tensor sz (src_shape args) (data args) s"
  shows "trans pf args result \<noteq> Inl Fault"
  using meets [OF assms, of result] by (auto simp: transfer_spec_def split: if_splits)

end

locale transfer_pair = fwd: transfer accepted trans to_src oom + bwd: transfer accepted' trans' to_dst oom'
  for accepted trans to_src oom accepted' trans' to_dst oom' +
  assumes accepts: "accepted pf args \<Longrightarrow> prod_list (src_shape args) \<noteq> 0 \<Longrightarrow>
      accepted' pf (args_back args r) \<and> prod_list (dst_shape args) \<noteq> 0"
    and inverse: "accepted pf args \<Longrightarrow> valid_index (src_shape args) idx \<Longrightarrow>
      \<exists>j. to_dst (dst_shape args) (src_shape args) idx = Some j \<and> valid_index (dst_shape args) j \<and>
          to_src (src_shape args) (dst_shape args) j = Some idx"
begin

lemma gathers_back:
  assumes "accepted pf args" "prod_list (src_shape args) \<noteq> 0" "0 < sz"
    and "int (length s) = prod_list (src_shape args) * sz"
    and "gathers sz (src_shape args) (dst_shape args) (to_src (src_shape args) (dst_shape args)) s m"
    and "gathers sz (dst_shape args) (src_shape args) (to_dst (dst_shape args) (src_shape args)) m s'"
  shows "s' = s"
proof (rule mem_eqI)
  show "int (length s') = prod_list (src_shape args) * sz" using assms by (simp add: gathers_def)
  fix i assume i: "0 \<le> i" "i < prod_list (src_shape args)"
  have pos: "0 < d" if "d \<in> set (src_shape args)" for d
    using fwd.shapes [OF assms(1)] assms(2) that by (blast intro: good_shape_pos)
  define idx where "idx = unflat (src_shape args) i"
  have v: "valid_index (src_shape args) idx" and fi: "flat (src_shape args) idx = i"
    using unflat_valid [OF pos i] flat_unflat [OF pos i] by (simp_all add: idx_def)
  from inverse [OF assms(1) v] obtain j where
    j: "to_dst (dst_shape args) (src_shape args) idx = Some j" "valid_index (dst_shape args) j"
      "to_src (src_shape args) (dst_shape args) j = Some idx" by blast
  have "elem sz s' (flat (src_shape args) idx) = elem sz m (flat (dst_shape args) j)"
    using assms(6) v j by (simp add: gathers_def gather_elem_def)
  also have "\<dots> = elem sz s (flat (src_shape args) idx)"
    using assms(5) j by (simp add: gathers_def gather_elem_def)
  finally show "elem sz s' i = elem sz s i" by (simp add: fi)
qed (use assms in auto)

lemma roundtrip:
  assumes acc: "accepted pf args" and sz: "sz = GetSizeByDataType pf (src_data_type args)"
    and ok: "platform_ok pf sz" and s: "holds_tensor sz (src_shape args) (data args) s"
    and ne: "prod_list (src_shape args) \<noteq> 0" and fwd: "trans pf args result = Inr r"
    and new: "new_succeeds pf (prod_list (src_shape args) * sz)"
  shows "trans' pf (args_back args r) result' =
    Inr (result'\<lparr>res_data := Some s, res_length := int (length s)\<rparr>)"
proof -
  have acc': "accepted' pf (args_back args r)" and ned: "prod_list (dst_shape args) \<noteq> 0"
    using accepts [OF acc ne] by simp_all
  from fwd.meets [OF acc sz ok s, of result] fwd ned
  obtain m where r: "res_data r = Some m"
    and g: "gathers sz (src_shape args) (dst_shape args) (to_src (src_shape args) (dst_shape args)) s m"
    by (auto simp: transfer_spec_def split: if_splits)
  have m: "holds_tensor sz (dst_shape args) (Some m) m" using g by (simp add: holds_tensor_def gathers_def)
  obtain s' where t: "trans' pf (args_back args r) result' =
      Inr (result'\<lparr>res_data := Some s', res_length := prod_list (src_shape args) * sz\<rparr>)"
    and g': "gathers sz (dst_shape args) (src_shape args) (to_dst (dst_shape args) (src_shape args)) m s'"
    using bwd.returns [OF acc', of sz m result'] ok m r ne new by (auto simp: sz)
  have "0 < sz" "int (length s) = prod_list (src_shape args) * sz"
    using ok s by (simp_all add: platform_ok_def holds_tensor_def)
  with gathers_back [OF acc ne _ _ g g'] t show ?thesis by simp
qed

end

end
