(* ===== verification/Trans_Nc1hwc0.thy ===== *)
theory Trans_Nc1hwc0
  imports Transfer_Spec
begin

text \<open>
  The four transfers between the plain 4D formats and NC1HWC0, where the channels are cut into blocks of
  \<open>c0\<close> and the last block is padded with zeros:
  \<open>format_transfer_{nchw_nc1hwc0, nhwc_nc1hwc0, nc1hwc0_nchw, nc1hwc0_nhwc}.cc\<close>.
\<close>

section \<open>NCHW to NC1HWC0\<close>

definition TransShapeNchwToNc1hwc0 :: "platform \<Rightarrow> int list \<Rightarrow> DataType \<Rightarrow> int list res" where
  "TransShapeNchwToNc1hwc0 pf s_shape data_type =
     (let c0 = GetCubeSizeByDataType pf data_type in
      if c0 \<le> 0 then Inl (Ret ACL_ERROR_GE_TRANSSHAPE_DATATYPE_INVALID)
      else if \<not> CheckShapeValid s_shape kNchwDimsNum then Inl (Ret ACL_ERROR_GE_TRANSSHAPE_SHAPE_INVALID)
      else
        at s_shape kNchwN (\<lambda>n. at s_shape kNchwC (\<lambda>c.
        at s_shape kNchwH (\<lambda>h. at s_shape kNchwW (\<lambda>w.
        let d_shape = [n, Ceil c c0, h, w, c0] in
        if \<not> CheckShapeValid d_shape kNc1hwc0DimsNum then Inl (Ret ACL_ERROR_GE_TRANSSHAPE_SHAPE_INVALID)
        else Inr d_shape)))))"

definition CheckArgsForNchwToNc1hwc0 :: "platform \<Rightarrow> TransArgs \<Rightarrow> unit res" where
  "CheckArgsForNchwToNc1hwc0 pf args =
     (if src_format args \<noteq> FORMAT_NCHW \<or> dst_format args \<noteq> FORMAT_NC1HWC0 then Inl (Ret UNSUPPORTED)
      else and_then (TransShapeNchwToNc1hwc0 pf (src_shape args) (src_data_type args)) (\<lambda>expect_5d_shape.
        if expect_5d_shape \<noteq> dst_shape args then Inl (Ret PARAM_INVALID) else Inr ()))"

definition CopyNchwToNc1hwc0 ::
  "platform \<Rightarrow> TransArgs \<Rightarrow> int \<Rightarrow> int \<Rightarrow> int \<Rightarrow> int \<Rightarrow> int \<Rightarrow> int \<Rightarrow> int \<Rightarrow> mem option \<Rightarrow> mem option res"
where
  "CopyNchwToNc1hwc0 pf args sz total_size n c h w c0 =
     (let c1 = i64 (i64 (c - 1) sdiv c0 + 1);
          hw = i64 (h * w);
          chw = i64 (c * hw);
          hwc0 = i64 (hw * c0);
          c1hwc0 = i64 (c1 * hwc0);
          wc0 = i64 (w * c0)
      in for_lt n (\<lambda>n_idx.
        let n_head_addr = i64 (n_idx * c1hwc0)
        in for_lt c1 (\<lambda>c1_idx.
          let c1_head_addr = i64 (n_head_addr + c1_idx * hwc0)
          in for_lt h (\<lambda>h_idx.
            let h_head_addr = i64 (c1_head_addr + h_idx * wc0)
            in for_lt w (\<lambda>w_idx.
              let w_head_addr = i64 (h_head_addr + w_idx * c0)
              in for_lt c0 (\<lambda>c0_idx dst.
                let dst_index = i64 (c0_idx + w_head_addr);
                    dst_offset = i64 (dst_index * sz);
                    cIdx = i64 (c0_idx + c1_idx * c0);
                    srcIdx = i64 (n_idx * chw + cIdx * hw + h_idx * w + w_idx);
                    src_offset = i64 (srcIdx * sz)
                in if cIdx < c
                   then check_eok (memcpy_s pf dst dst_offset (protected_size pf total_size dst_offset)
                          (data args) src_offset sz)
                   else check_eok (memset_s pf dst dst_offset (protected_size pf total_size dst_offset) sz)))))))"

definition GetDstDataAfterTrans_NchwToNc1hwc0 ::
  "platform \<Rightarrow> TransArgs \<Rightarrow> TransResult \<Rightarrow> int \<Rightarrow> int \<Rightarrow> TransResult res"
where
  "GetDstDataAfterTrans_NchwToNc1hwc0 pf args result sz total_size =
     alloc_dst pf total_size (\<lambda>dst.
       at (src_shape args) kNchwN (\<lambda>n. at (src_shape args) kNchwC (\<lambda>c.
       at (src_shape args) kNchwH (\<lambda>h. at (src_shape args) kNchwW (\<lambda>w.
       let c0 = GetCubeSizeByDataType pf (src_data_type args) in
       if c0 \<le> 0 then Inl (Ret PARAM_INVALID)
       else and_then (CopyNchwToNc1hwc0 pf args sz total_size n c h w c0 dst) (set_result result total_size))))))"

definition TransFormatNchwNc1hwc0 :: "platform \<Rightarrow> TransArgs \<Rightarrow> TransResult \<Rightarrow> TransResult res" where
  "TransFormatNchwNc1hwc0 pf args result =
     and_then (on_error PARAM_INVALID (CheckArgsForNchwToNc1hwc0 pf args)) (\<lambda>_.
       let sz = GetSizeByDataType pf (src_data_type args);
           total_size = i64 (GetItemNumByShape (dst_shape args) * sz)
       in checked_trans args total_size result (GetDstDataAfterTrans_NchwToNc1hwc0 pf args result sz total_size))"

definition TransShapeNchwNc1hwc0 ::
  "platform \<Rightarrow> Format \<Rightarrow> int list \<Rightarrow> DataType \<Rightarrow> Format \<Rightarrow> int list res" where
  "TransShapeNchwNc1hwc0 pf s_format s_shape data_type d_format =
     (if s_format = FORMAT_NCHW then TransShapeNchwToNc1hwc0 pf s_shape data_type
      else Inl (Ret ACL_ERROR_GE_TRANSSHAPE_FORMAT_INVALID))"

section \<open>NHWC to NC1HWC0\<close>

definition TransShapeNhwcToNc1hwc0 :: "platform \<Rightarrow> int list \<Rightarrow> DataType \<Rightarrow> int list res" where
  "TransShapeNhwcToNc1hwc0 pf s_shape data_type =
     (let c0 = GetCubeSizeByDataType pf data_type in
      if c0 \<le> 0 then Inl (Ret ACL_ERROR_GE_TRANSSHAPE_DATATYPE_INVALID)
      else
        at s_shape kNhwcN (\<lambda>n. at s_shape kNhwcC (\<lambda>c.
        at s_shape kNhwcH (\<lambda>h. at s_shape kNhwcW (\<lambda>w.
        let d_shape = [n, Ceil c c0, h, w, c0] in
        if \<not> CheckShapeValid d_shape kNc1hwc0DimsNum then Inl (Ret ACL_ERROR_GE_TRANSSHAPE_SHAPE_INVALID)
        else Inr d_shape)))))"

definition CheckArgsForNhwcToNc1hwc0 :: "platform \<Rightarrow> TransArgs \<Rightarrow> unit res" where
  "CheckArgsForNhwcToNc1hwc0 pf args =
     (if src_format args \<noteq> FORMAT_NHWC \<or> dst_format args \<noteq> FORMAT_NC1HWC0 then Inl (Ret UNSUPPORTED)
      else if \<not> CheckDataTypeSupported pf (src_data_type args) then Inl (Ret UNSUPPORTED)
      else if \<not> CheckShapeValid (src_shape args) kNhwcDimsNum then Inl (Ret PARAM_INVALID)
      else if \<not> CheckShapeValid (dst_shape args) kNc1hwc0DimsNum then Inl (Ret PARAM_INVALID)
      else and_then (TransShapeNhwcToNc1hwc0 pf (src_shape args) (src_data_type args)) (\<lambda>expect_dst_shape.
        if dst_shape args \<noteq> expect_dst_shape then Inl (Ret PARAM_INVALID) else Inr ()))"

definition CopyNhwcToNc1hwc0 ::
  "platform \<Rightarrow> TransArgs \<Rightarrow> int \<Rightarrow> int \<Rightarrow> int \<Rightarrow> int \<Rightarrow> int \<Rightarrow> int \<Rightarrow> int \<Rightarrow> int \<Rightarrow> mem option \<Rightarrow> mem option res"
where
  "CopyNhwcToNc1hwc0 pf args sz total_size n h w c c1 c0 =
     (let wc = i64 (w * c);
          hwc = i64 (h * wc);
          wc0 = i64 (w * c0);
          hwc0 = i64 (h * wc0);
          c1hwc0 = i64 (c1 * hwc0)
      in for_lt n (\<lambda>n_idx.
        let n_head_addr = i64 (n_idx * c1hwc0)
        in for_lt c1 (\<lambda>c1_idx.
          let c1_head_addr = i64 (n_head_addr + c1_idx * hwc0)
          in for_lt h (\<lambda>h_idx.
            let h_head_addr = i64 (c1_head_addr + h_idx * wc0)
            in for_lt w (\<lambda>w_idx.
              let w_head_addr = i64 (h_head_addr + w_idx * c0)
              in for_lt c0 (\<lambda>c0_idx dst.
                let dst_idx = i64 (c0_idx + w_head_addr);
                    dst_offset = i64 (dst_idx * sz);
                    c_idx = i64 (c0_idx + c1_idx * c0);
                    src_idx = i64 (n_idx * hwc + h_idx * wc + w_idx * c + c_idx);
                    src_offset = i64 (src_idx * sz)
                in if c_idx < c
                   then check_eok (memcpy_s pf dst dst_offset (protected_size pf total_size dst_offset)
                          (data args) src_offset sz)
                   else check_eok (memset_s pf dst dst_offset (protected_size pf total_size dst_offset) sz)))))))"

definition GetDstDataAfterTrans_NhwcToNc1hwc0 ::
  "platform \<Rightarrow> TransArgs \<Rightarrow> TransResult \<Rightarrow> int \<Rightarrow> int \<Rightarrow> TransResult res"
where
  "GetDstDataAfterTrans_NhwcToNc1hwc0 pf args result sz total_size =
     alloc_dst pf total_size (\<lambda>dst.
       at (src_shape args) kNhwcN (\<lambda>n. at (src_shape args) kNhwcH (\<lambda>h.
       at (src_shape args) kNhwcW (\<lambda>w. at (src_shape args) kNhwcC (\<lambda>c.
       at (dst_shape args) kNc1hwc0C1 (\<lambda>c1. at (dst_shape args) kNc1hwc0C0 (\<lambda>c0.
       and_then (CopyNhwcToNc1hwc0 pf args sz total_size n h w c c1 c0 dst) (set_result result total_size))))))))"

definition TransFormatNhwcNc1hwc0 :: "platform \<Rightarrow> TransArgs \<Rightarrow> TransResult \<Rightarrow> TransResult res" where
  "TransFormatNhwcNc1hwc0 pf args result =
     and_then (on_error PARAM_INVALID (CheckArgsForNhwcToNc1hwc0 pf args)) (\<lambda>_.
       let sz = GetSizeByDataType pf (src_data_type args);
           total_size = i64 (GetItemNumByShape (dst_shape args) * sz)
       in checked_trans args total_size result (GetDstDataAfterTrans_NhwcToNc1hwc0 pf args result sz total_size))"

definition TransShapeNhwcNc1hwc0 ::
  "platform \<Rightarrow> Format \<Rightarrow> int list \<Rightarrow> DataType \<Rightarrow> Format \<Rightarrow> int list res" where
  "TransShapeNhwcNc1hwc0 pf s_format s_shape data_type d_format =
     (if s_format = FORMAT_NHWC \<and> CheckDataTypeSupported pf data_type then
        if \<not> CheckShapeValid s_shape kNhwcDimsNum then Inl (Ret ACL_ERROR_GE_TRANSSHAPE_SHAPE_INVALID)
        else TransShapeNhwcToNc1hwc0 pf s_shape data_type
      else if s_format \<noteq> FORMAT_NHWC then Inl (Ret ACL_ERROR_GE_TRANSSHAPE_FORMAT_INVALID)
      else Inl (Ret ACL_ERROR_GE_TRANSSHAPE_DATATYPE_INVALID))"

section \<open>NC1HWC0 to NCHW\<close>

definition CheckArgsForNc1hwc0ToNchw :: "platform \<Rightarrow> TransArgs \<Rightarrow> unit res" where
  "CheckArgsForNc1hwc0ToNchw pf args =
     (if src_format args \<noteq> FORMAT_NC1HWC0 \<or> dst_format args \<noteq> FORMAT_NCHW then Inl (Ret UNSUPPORTED)
      else if \<not> CheckDataTypeSupported pf (src_data_type args) then Inl (Ret UNSUPPORTED)
      else if \<not> CheckShapeValid (src_shape args) kNc1hwc0DimsNum then Inl (Ret PARAM_INVALID)
      else if \<not> CheckShapeValid (dst_shape args) kNchwDimsNum then Inl (Ret PARAM_INVALID)
      else
        let c0 = GetCubeSizeByDataType pf (src_data_type args) in
        if c0 \<le> 0 then Inl (Ret PARAM_INVALID)
        else
          at (src_shape args) kNc1hwc0H (\<lambda>sh. at (dst_shape args) kNchwH (\<lambda>dh.
          at (src_shape args) kNc1hwc0W (\<lambda>sw. at (dst_shape args) kNchwW (\<lambda>dw.
          at (src_shape args) kNc1hwc0N (\<lambda>sn. at (dst_shape args) kNchwN (\<lambda>dn.
          at (src_shape args) kNc1hwc0C0 (\<lambda>sc0.
          at (src_shape args) kNc1hwc0C1 (\<lambda>sc1. at (dst_shape args) kNchwC (\<lambda>dc.
          if sh \<noteq> dh \<or> sw \<noteq> dw \<or> sn \<noteq> dn \<or> sc0 \<noteq> c0 \<or> sc1 \<noteq> Ceil dc c0
          then Inl (Ret PARAM_INVALID) else Inr ()))))))))))"

definition CopyNc1hwc0ToNchw ::
  "platform \<Rightarrow> TransArgs \<Rightarrow> int \<Rightarrow> int \<Rightarrow> int \<Rightarrow> int \<Rightarrow> int \<Rightarrow> int \<Rightarrow> int \<Rightarrow> int \<Rightarrow> mem option \<Rightarrow> mem option res"
where
  "CopyNc1hwc0ToNchw pf args sz total_size h w n c1 c0 c =
     (let hw = i64 (h * w);
          chw = i64 (c * hw);
          wc0 = i64 (w * c0);
          hwc0 = i64 (h * wc0);
          c1hwc0 = i64 (c1 * hwc0)
      in for_lt n (\<lambda>n_idx.
        let n_head_addr = i64 (n_idx * chw)
        in for_lt c (\<lambda>c_idx.
          let c_head_addr = i64 (n_head_addr + c_idx * hw)
          in for_lt h (\<lambda>h_idx.
            let h_head_addr = i64 (c_head_addr + h_idx * w)
            in for_lt w (\<lambda>w_idx dst.
              let dst_idx = i64 (h_head_addr + w_idx);
                  c1_idx = c_idx sdiv c0;
                  c0_idx = c_idx smod c0;
                  src_idx = i64 (n_idx * c1hwc0 + c1_idx * hwc0 + h_idx * wc0 + w_idx * c0 + c0_idx);
                  src_offset = i64 (src_idx * sz);
                  dst_offset = i64 (dst_idx * sz)
              in check_eok (memcpy_s pf dst dst_offset (protected_size pf total_size dst_offset)
                   (data args) src_offset sz))))))"

definition GetDstDataAfterTrans_Nc1hwc0ToNchw ::
  "platform \<Rightarrow> TransArgs \<Rightarrow> TransResult \<Rightarrow> int \<Rightarrow> int \<Rightarrow> TransResult res"
where
  "GetDstDataAfterTrans_Nc1hwc0ToNchw pf args result sz total_size =
     alloc_dst pf total_size (\<lambda>dst.
       at (src_shape args) kNc1hwc0H (\<lambda>h. at (src_shape args) kNc1hwc0W (\<lambda>w.
       at (src_shape args) kNc1hwc0N (\<lambda>n. at (src_shape args) kNc1hwc0C1 (\<lambda>c1.
       at (src_shape args) kNc1hwc0C0 (\<lambda>c0. at (dst_shape args) kNchwC (\<lambda>c.
       and_then (CopyNc1hwc0ToNchw pf args sz total_size h w n c1 c0 c dst) (set_result result total_size))))))))"

definition TransFormatNc1hwc0Nchw :: "platform \<Rightarrow> TransArgs \<Rightarrow> TransResult \<Rightarrow> TransResult res" where
  "TransFormatNc1hwc0Nchw pf args result =
     and_then (on_error PARAM_INVALID (CheckArgsForNc1hwc0ToNchw pf args)) (\<lambda>_.
       let sz = GetSizeByDataType pf (src_data_type args);
           total_size = i64 (GetItemNumByShape (dst_shape args) * sz)
       in checked_trans args total_size result (GetDstDataAfterTrans_Nc1hwc0ToNchw pf args result sz total_size))"

definition TransShapeNc1hwc0Nchw ::
  "platform \<Rightarrow> Format \<Rightarrow> int list \<Rightarrow> DataType \<Rightarrow> Format \<Rightarrow> int list res" where
  "TransShapeNc1hwc0Nchw pf s_format s_shape data_type d_format = Inl (Ret UNSUPPORTED)"

section \<open>NC1HWC0 to NHWC\<close>

definition CheckArgsForNc1hwc0ToNhwc :: "platform \<Rightarrow> TransArgs \<Rightarrow> unit res" where
  "CheckArgsForNc1hwc0ToNhwc pf args =
     (if src_format args \<noteq> FORMAT_NC1HWC0 \<or> dst_format args \<noteq> FORMAT_NHWC then Inl (Ret UNSUPPORTED)
      else if \<not> CheckDataTypeSupported pf (src_data_type args) then Inl (Ret UNSUPPORTED)
      else if \<not> CheckShapeValid (src_shape args) kNc1hwc0DimsNum then Inl (Ret PARAM_INVALID)
      else if \<not> CheckShapeValid (dst_shape args) kNhwcDimsNum then Inl (Ret PARAM_INVALID)
      else
        let c0 = GetCubeSizeByDataType pf (src_data_type args) in
        if c0 \<le> 0 then Inl (Ret PARAM_INVALID)
        else
          at (src_shape args) kNc1hwc0H (\<lambda>sh. at (dst_shape args) kNhwcH (\<lambda>dh.
          at (src_shape args) kNc1hwc0W (\<lambda>sw. at (dst_shape args) kNhwcW (\<lambda>dw.
          at (src_shape args) kNc1hwc0N (\<lambda>sn. at (dst_shape args) kNhwcN (\<lambda>dn.
          at (src_shape args) kNc1hwc0C0 (\<lambda>sc0.
          at (src_shape args) kNc1hwc0C1 (\<lambda>sc1. at (dst_shape args) kNhwcC (\<lambda>dc.
          if sh \<noteq> dh \<or> sw \<noteq> dw \<or> sn \<noteq> dn \<or> sc0 \<noteq> c0 \<or> sc1 \<noteq> Ceil dc c0
          then Inl (Ret PARAM_INVALID) else Inr ()))))))))))"

definition CopyNc1hwc0ToNhwc ::
  "platform \<Rightarrow> TransArgs \<Rightarrow> int \<Rightarrow> int \<Rightarrow> int \<Rightarrow> int \<Rightarrow> int \<Rightarrow> int \<Rightarrow> int \<Rightarrow> int \<Rightarrow> mem option \<Rightarrow> mem option res"
where
  "CopyNc1hwc0ToNhwc pf args sz total_size h w n c1 c0 c =
     (let wc = i64 (w * c);
          hwc = i64 (h * wc);
          wc0 = i64 (w * c0);
          hwc0 = i64 (h * wc0);
          c1hwc0 = i64 (c1 * hwc0)
      in for_lt n (\<lambda>n_idx.
        let n_head_addr = i64 (n_idx * hwc)
        in for_lt h (\<lambda>h_idx.
          let h_head_addr = i64 (n_head_addr + h_idx * wc)
          in for_lt w (\<lambda>w_idx.
            let w_head_addr = i64 (h_head_addr + w_idx * c)
            in for_lt c (\<lambda>c_idx dst.
              let dst_idx = i64 (w_head_addr + c_idx);
                  c1_idx = c_idx sdiv c0;
                  c0_idx = c_idx smod c0;
                  src_idx = i64 (n_idx * c1hwc0 + c1_idx * hwc0 + h_idx * wc0 + w_idx * c0 + c0_idx);
                  src_offset = i64 (src_idx * sz);
                  dst_offset = i64 (dst_idx * sz)
              in check_eok (memcpy_s pf dst dst_offset (protected_size pf total_size dst_offset)
                   (data args) src_offset sz))))))"

definition GetDstDataAfterTrans_Nc1hwc0ToNhwc ::
  "platform \<Rightarrow> TransArgs \<Rightarrow> TransResult \<Rightarrow> int \<Rightarrow> int \<Rightarrow> TransResult res"
where
  "GetDstDataAfterTrans_Nc1hwc0ToNhwc pf args result sz total_size =
     alloc_dst pf total_size (\<lambda>dst.
       at (src_shape args) kNc1hwc0H (\<lambda>h. at (src_shape args) kNc1hwc0W (\<lambda>w.
       at (src_shape args) kNc1hwc0N (\<lambda>n. at (src_shape args) kNc1hwc0C1 (\<lambda>c1.
       at (src_shape args) kNc1hwc0C0 (\<lambda>c0. at (dst_shape args) kNhwcC (\<lambda>c.
       and_then (CopyNc1hwc0ToNhwc pf args sz total_size h w n c1 c0 c dst) (set_result result total_size))))))))"

definition TransFormatNc1hwc0Nhwc :: "platform \<Rightarrow> TransArgs \<Rightarrow> TransResult \<Rightarrow> TransResult res" where
  "TransFormatNc1hwc0Nhwc pf args result =
     and_then (on_error PARAM_INVALID (CheckArgsForNc1hwc0ToNhwc pf args)) (\<lambda>_.
       let sz = GetSizeByDataType pf (src_data_type args);
           total_size = i64 (GetItemNumByShape (dst_shape args) * sz)
       in checked_trans args total_size result (GetDstDataAfterTrans_Nc1hwc0ToNhwc pf args result sz total_size))"

definition TransShapeNc1hwc0Nhwc ::
  "platform \<Rightarrow> Format \<Rightarrow> int list \<Rightarrow> DataType \<Rightarrow> Format \<Rightarrow> int list res" where
  "TransShapeNc1hwc0Nhwc pf s_format s_shape data_type d_format =
     Inl (Ret ACL_ERROR_GE_TRANSSHAPE_FORMAT_INVALID)"

section \<open>The layout maps\<close>

text \<open>Element \<open>[n, c1, h, w, k]\<close> of an NC1HWC0 tensor is channel \<open>c1 * c0 + k\<close>, or padding.\<close>

definition nchw_of_nc1hwc0 :: layout_map where
  "nchw_of_nc1hwc0 src dst idx = (case idx of
     [n, c1, h, w, k] \<Rightarrow> (let c = c1 * dst ! 4 + k in if c < src ! 1 then Some [n, c, h, w] else None)
   | _ \<Rightarrow> None)"

definition nhwc_of_nc1hwc0 :: layout_map where
  "nhwc_of_nc1hwc0 src dst idx = (case idx of
     [n, c1, h, w, k] \<Rightarrow> (let c = c1 * dst ! 4 + k in if c < src ! 3 then Some [n, h, w, c] else None)
   | _ \<Rightarrow> None)"

definition nc1hwc0_of_nchw :: layout_map where
  "nc1hwc0_of_nchw src dst idx = (case idx of
     [n, c, h, w] \<Rightarrow> Some [n, c div src ! 4, h, w, c mod src ! 4] | _ \<Rightarrow> None)"

definition nc1hwc0_of_nhwc :: layout_map where
  "nc1hwc0_of_nhwc src dst idx = (case idx of
     [n, h, w, c] \<Rightarrow> Some [n, c div src ! 4, h, w, c mod src ! 4] | _ \<Rightarrow> None)"

section \<open>What the argument checks accept\<close>

lemma TransShapeNchwToNc1hwc0_Inr:
  "TransShapeNchwToNc1hwc0 pf src t = Inr dst \<longleftrightarrow>
    (\<exists>n c h w c0. src = [n, c, h, w] \<and> c0 = GetCubeSizeByDataType pf t \<and> 0 < c0 \<and>
       dst = [n, Ceil c c0, h, w, c0] \<and> IsShapeValid src \<and> IsShapeValid dst)"
  by (auto simp: TransShapeNchwToNc1hwc0_def CheckShapeValid_iff Let_def length_4D at_def)

lemma CheckArgsForNchwToNc1hwc0_Inr:
  "CheckArgsForNchwToNc1hwc0 pf args = Inr u \<longleftrightarrow> src_format args = FORMAT_NCHW \<and>
     dst_format args = FORMAT_NC1HWC0 \<and>
     (\<exists>n c h w c0. src_shape args = [n, c, h, w] \<and> c0 = GetCubeSizeByDataType pf (src_data_type args) \<and>
       0 < c0 \<and> dst_shape args = [n, Ceil c c0, h, w, c0] \<and>
       IsShapeValid (src_shape args) \<and> IsShapeValid (dst_shape args))"
  by (auto simp: CheckArgsForNchwToNc1hwc0_def and_then_eq_Inr TransShapeNchwToNc1hwc0_Inr)

lemma CheckArgsForNhwcToNc1hwc0_Inr:
  "CheckArgsForNhwcToNc1hwc0 pf args = Inr u \<longleftrightarrow> src_format args = FORMAT_NHWC \<and>
     dst_format args = FORMAT_NC1HWC0 \<and> 0 < GetSizeByDataType pf (src_data_type args) \<and>
     (\<exists>n h w c c0. src_shape args = [n, h, w, c] \<and> c0 = GetCubeSizeByDataType pf (src_data_type args) \<and>
       0 < c0 \<and> dst_shape args = [n, Ceil c c0, h, w, c0] \<and>
       IsShapeValid (src_shape args) \<and> IsShapeValid (dst_shape args))"
  by (auto simp: CheckArgsForNhwcToNc1hwc0_def TransShapeNhwcToNc1hwc0_def CheckDataTypeSupported_def
      CheckShapeValid_iff Let_def length_4D and_then_eq_Inr not_le
      split: if_splits)

lemma CheckArgsForNc1hwc0ToNchw_Inr:
  "CheckArgsForNc1hwc0ToNchw pf args = Inr u \<longleftrightarrow> src_format args = FORMAT_NC1HWC0 \<and>
     dst_format args = FORMAT_NCHW \<and> 0 < GetSizeByDataType pf (src_data_type args) \<and>
     (\<exists>n c h w c0. dst_shape args = [n, c, h, w] \<and> c0 = GetCubeSizeByDataType pf (src_data_type args) \<and>
       0 < c0 \<and> src_shape args = [n, Ceil c c0, h, w, c0] \<and>
       IsShapeValid (src_shape args) \<and> IsShapeValid (dst_shape args))"
  by (auto simp: CheckArgsForNc1hwc0ToNchw_def CheckDataTypeSupported_def
      CheckShapeValid_iff Let_def length_4D length_5D and_then_eq_Inr not_le
      split: if_splits)

lemma CheckArgsForNc1hwc0ToNhwc_Inr:
  "CheckArgsForNc1hwc0ToNhwc pf args = Inr u \<longleftrightarrow> src_format args = FORMAT_NC1HWC0 \<and>
     dst_format args = FORMAT_NHWC \<and> 0 < GetSizeByDataType pf (src_data_type args) \<and>
     (\<exists>n h w c c0. dst_shape args = [n, h, w, c] \<and> c0 = GetCubeSizeByDataType pf (src_data_type args) \<and>
       0 < c0 \<and> src_shape args = [n, Ceil c c0, h, w, c0] \<and>
       IsShapeValid (src_shape args) \<and> IsShapeValid (dst_shape args))"
  by (auto simp: CheckArgsForNc1hwc0ToNhwc_def CheckDataTypeSupported_def
      CheckShapeValid_iff Let_def length_4D length_5D and_then_eq_Inr not_le
      split: if_splits)

section \<open>The loops fill the destination\<close>

lemma CopyNchwToNc1hwc0_fills:
  assumes ok: "platform_ok pf sz" and dims: "0 < n" "0 < c" "0 < h" "0 < w" "0 < c0" "c < 2 ^ 63 - c0"
    and dst: "dst = [n, Ceil c c0, h, w, c0]" and src: "src = [n, c, h, w]"
    and N: "prod_list dst * sz < 2 ^ 63" "prod_list src * sz < 2 ^ 63"
    and s: "data args = Some s" "int (length s) = prod_list src * sz"
  shows "fills sz (prod_list dst) (\<lambda>x. gather_elem sz src (nchw_of_nc1hwc0 src dst) s (unflat dst x))
    {0..<prod_list dst} (CopyNchwToNc1hwc0 pf args sz (prod_list dst * sz) n c h w c0)"
proof -
  have c1: "i64 (i64 (c - 1) sdiv c0 + 1) = Ceil c c0" using dims by (simp add: Ceil_def)
  have cb: "0 \<le> Ceil c c0" "Ceil c c0 * c0 < c + c0" using Ceil_bounds [of c c0] dims by simp_all
  have nn: "0 \<le> n" "0 \<le> h" "0 \<le> w" "0 \<le> c0" using dims by simp_all
  have P: "prod_list dst = 0 + n * (Ceil c c0 * (h * (w * c0)))" by (simp add: dst)
  show ?thesis
    unfolding CopyNchwToNc1hwc0_def Let_def c1
    apply (subst (2) P)
    apply (rule fills_for_blocks, simp add: nn cb, simp add: nn cb)+
    apply (rule fills_for_elems, simp add: nn cb)
    subgoal premises ix for n_idx c1_idx h_idx w_idx k
    proof -
      have ci: "i64 (k + c1_idx * c0) = c1_idx * c0 + k"
        using block_bound [of c1_idx "Ceil c c0" k c0] ix cb dims by (simp add: add.commute)
      show ?thesis
        unfolding ci s(1)
        by (rule fills_if;
            rule fills_copy_at [OF ok N s(2) refl, where idx = "[n_idx, c1_idx, h_idx, w_idx, k]"
              and j = "[n_idx, c1_idx * c0 + k, h_idx, w_idx]"]
            fills_zero_at [OF ok N(1) refl, where idx = "[n_idx, c1_idx, h_idx, w_idx, k]"];
            ((rule wrap_eq_intros)+)?; use ix in \<open>simp add: src dst nchw_of_nc1hwc0_def algebra_simps\<close>)
    qed
    done
qed

lemma CopyNhwcToNc1hwc0_fills:
  assumes ok: "platform_ok pf sz" and dims: "0 < n" "0 < c" "0 < h" "0 < w" "0 < c0" "c < 2 ^ 63 - c0"
    and dst: "dst = [n, Ceil c c0, h, w, c0]" and src: "src = [n, h, w, c]"
    and N: "prod_list dst * sz < 2 ^ 63" "prod_list src * sz < 2 ^ 63"
    and s: "data args = Some s" "int (length s) = prod_list src * sz"
  shows "fills sz (prod_list dst) (\<lambda>x. gather_elem sz src (nhwc_of_nc1hwc0 src dst) s (unflat dst x))
    {0..<prod_list dst} (CopyNhwcToNc1hwc0 pf args sz (prod_list dst * sz) n h w c (Ceil c c0) c0)"
proof -
  have cb: "0 \<le> Ceil c c0" "Ceil c c0 * c0 < c + c0" using Ceil_bounds [of c c0] dims by simp_all
  have nn: "0 \<le> n" "0 \<le> h" "0 \<le> w" "0 \<le> c0" using dims by simp_all
  have P: "prod_list dst = 0 + n * (Ceil c c0 * (h * (w * c0)))" by (simp add: dst)
  show ?thesis
    unfolding CopyNhwcToNc1hwc0_def Let_def
    apply (subst (2) P)
    apply (rule fills_for_blocks, simp add: nn cb, simp add: nn cb)+
    apply (rule fills_for_elems, simp add: nn cb)
    subgoal premises ix for n_idx c1_idx h_idx w_idx k
    proof -
      have ci: "i64 (k + c1_idx * c0) = c1_idx * c0 + k"
        using block_bound [of c1_idx "Ceil c c0" k c0] ix cb dims by (simp add: add.commute)
      show ?thesis
        unfolding ci s(1)
        by (rule fills_if;
            rule fills_copy_at [OF ok N s(2) refl, where idx = "[n_idx, c1_idx, h_idx, w_idx, k]"
              and j = "[n_idx, h_idx, w_idx, c1_idx * c0 + k]"]
            fills_zero_at [OF ok N(1) refl, where idx = "[n_idx, c1_idx, h_idx, w_idx, k]"];
            ((rule wrap_eq_intros)+)?; use ix in \<open>simp add: src dst nhwc_of_nc1hwc0_def algebra_simps\<close>)
    qed
    done
qed

lemma CopyNc1hwc0ToNchw_fills:
  assumes ok: "platform_ok pf sz" and dims: "0 < n" "0 < c" "0 < h" "0 < w" "0 < c0" "c < 2 ^ 63 - c0"
    and src: "src = [n, Ceil c c0, h, w, c0]" and dst: "dst = [n, c, h, w]"
    and N: "prod_list dst * sz < 2 ^ 63" "prod_list src * sz < 2 ^ 63"
    and s: "data args = Some s" "int (length s) = prod_list src * sz"
  shows "fills sz (prod_list dst) (\<lambda>x. gather_elem sz src (nc1hwc0_of_nchw src dst) s (unflat dst x))
    {0..<prod_list dst} (CopyNc1hwc0ToNchw pf args sz (prod_list dst * sz) h w n (Ceil c c0) c0 c)"
proof -
  have nn: "0 \<le> n" "0 \<le> h" "0 \<le> w" "0 \<le> c" using dims by simp_all
  have P: "prod_list dst = 0 + n * (c * (h * w))" by (simp add: dst)
  show ?thesis
    unfolding CopyNc1hwc0ToNchw_def Let_def s(1)
    apply (subst (2) P)
    apply (rule fills_for_blocks, simp add: nn, simp add: nn)+
    apply (rule fills_for_elems, simp add: nn)
    subgoal premises ix for n_idx c_idx h_idx w_idx
    proof -
      have cs: "0 \<le> c_idx div c0" "c_idx div c0 < Ceil c c0" "c_idx mod c0 < c0" "0 \<le> c_idx mod c0"
        "c_idx sdiv c0 = c_idx div c0" "c_idx smod c0 = c_idx mod c0"
        using channel_split [of c_idx c c0] ix dims by simp_all
      show ?thesis
        unfolding cs(5,6)
        by (rule fills_copy_at [OF ok N s(2) refl, where idx = "[n_idx, c_idx, h_idx, w_idx]"
              and j = "[n_idx, c_idx div c0, h_idx, w_idx, c_idx mod c0]"];
            ((rule wrap_eq_intros)+)?;
            use ix dims cs(1-4) in \<open>simp add: src dst nc1hwc0_of_nchw_def algebra_simps\<close>)
    qed
    done
qed

lemma CopyNc1hwc0ToNhwc_fills:
  assumes ok: "platform_ok pf sz" and dims: "0 < n" "0 < c" "0 < h" "0 < w" "0 < c0" "c < 2 ^ 63 - c0"
    and src: "src = [n, Ceil c c0, h, w, c0]" and dst: "dst = [n, h, w, c]"
    and N: "prod_list dst * sz < 2 ^ 63" "prod_list src * sz < 2 ^ 63"
    and s: "data args = Some s" "int (length s) = prod_list src * sz"
  shows "fills sz (prod_list dst) (\<lambda>x. gather_elem sz src (nc1hwc0_of_nhwc src dst) s (unflat dst x))
    {0..<prod_list dst} (CopyNc1hwc0ToNhwc pf args sz (prod_list dst * sz) h w n (Ceil c c0) c0 c)"
proof -
  have nn: "0 \<le> n" "0 \<le> h" "0 \<le> w" "0 \<le> c" using dims by simp_all
  have P: "prod_list dst = 0 + n * (h * (w * c))" by (simp add: dst)
  show ?thesis
    unfolding CopyNc1hwc0ToNhwc_def Let_def s(1)
    apply (subst (2) P)
    apply (rule fills_for_blocks, simp add: nn, simp add: nn)+
    apply (rule fills_for_elems, simp add: nn)
    subgoal premises ix for n_idx h_idx w_idx c_idx
    proof -
      have cs: "0 \<le> c_idx div c0" "c_idx div c0 < Ceil c c0" "c_idx mod c0 < c0" "0 \<le> c_idx mod c0"
        "c_idx sdiv c0 = c_idx div c0" "c_idx smod c0 = c_idx mod c0"
        using channel_split [of c_idx c c0] ix dims by simp_all
      show ?thesis
        unfolding cs(5,6)
        by (rule fills_copy_at [OF ok N s(2) refl, where idx = "[n_idx, h_idx, w_idx, c_idx]"
              and j = "[n_idx, c_idx div c0, h_idx, w_idx, c_idx mod c0]"];
            ((rule wrap_eq_intros)+)?;
            use ix dims cs(1-4) in \<open>simp add: src dst nc1hwc0_of_nhwc_def algebra_simps\<close>)
    qed
    done
qed

section \<open>The transfers meet their contract\<close>

text \<open>The dimensions of a blocked shape, when it is not empty.\<close>

lemma blocked_dims:
  assumes "good_shape src" "good_shape dst" "prod_list src \<noteq> 0 \<or> prod_list dst \<noteq> 0"
    and "set src = {n, c, h, w}" "set dst = {n, Ceil c c0, h, w, c0}" "0 < c0" "c0 \<le> 32"
  shows "0 < n" "0 < c" "0 < h" "0 < w" "c < 2 ^ 63 - c0" "prod_list src \<noteq> 0" "prod_list dst \<noteq> 0"
proof -
  have nn: "0 \<le> n" "0 \<le> c" "0 \<le> h" "0 \<le> w" using assms(1,4) by (auto simp: good_shape_def)
  have ne: "n \<noteq> 0" "h \<noteq> 0" "w \<noteq> 0" using assms(3-5) by (auto simp: prod_list_zero_iff)
  have c: "c \<noteq> 0" using assms(3-5) by (auto simp: prod_list_zero_iff Ceil_def)
  show src: "prod_list src \<noteq> 0" using assms(4) ne c by (auto simp: prod_list_zero_iff)
  show "0 < n" "0 < c" "0 < h" "0 < w" using nn ne c by simp_all
  have "c \<le> 2 ^ 40" using good_shape_dim [OF assms(1) src, of c] assms(4) by simp
  then show "c < 2 ^ 63 - c0" using assms(7) by simp
  then have "0 < Ceil c c0" using Ceil_bounds(4) [of c c0] assms(6) nn c by simp
  then show "prod_list dst \<noteq> 0" using assms(5,6) ne by (auto simp: prod_list_zero_iff)
qed

lemma TransFormatNchwNc1hwc0_meets:
  assumes "CheckArgsForNchwToNc1hwc0 pf args = Inr ()"
    and ok: "platform_ok pf (GetSizeByDataType pf (src_data_type args))"
    and s: "holds_tensor (GetSizeByDataType pf (src_data_type args)) (src_shape args) (data args) s"
  shows "transfer_spec pf INTERNAL_ERROR (GetSizeByDataType pf (src_data_type args)) (src_shape args) (dst_shape args)
    (nchw_of_nc1hwc0 (src_shape args) (dst_shape args)) s result (TransFormatNchwNc1hwc0 pf args result)"
proof -
  let ?c0 = "GetCubeSizeByDataType pf (src_data_type args)"
  obtain n c h w where src: "src_shape args = [n, c, h, w]" and c0: "0 < ?c0" "?c0 \<le> 32"
    and dst: "dst_shape args = [n, Ceil c ?c0, h, w, ?c0]"
    and good: "good_shape (src_shape args)" "good_shape (dst_shape args)"
    using assms(1) by (auto simp: CheckArgsForNchwToNc1hwc0_Inr CubeSize_le IsShapeValid_good)
  let ?copy = "CopyNchwToNc1hwc0 pf args (GetSizeByDataType pf (src_data_type args))
    (prod_list (dst_shape args) * GetSizeByDataType pf (src_data_type args)) n c h w ?c0"
  have sets: "set (src_shape args) = {n, c, h, w}" "set (dst_shape args) = {n, Ceil c ?c0, h, w, ?c0}"
    by (auto simp: src dst)
  note dims = blocked_dims [OF good(1) good(2) _ sets c0]
  note bytes = good_shape_bytes [OF good(2) ok] good_shape_bytes [OF good(1) ok]
  show ?thesis
    unfolding TransFormatNchwNc1hwc0_def assms(1) on_error_simps and_then_simps Let_def
  proof (rule checked_trans_spec [OF good ok _ refl, where prog = ?copy])
    show "prod_list (dst_shape args) = 0 \<Longrightarrow> prod_list (src_shape args) = 0" using dims by blast
  qed (simp only: bytes(3), use c0 in \<open>simp add: GetDstDataAfterTrans_NchwToNc1hwc0_def Let_def src dst\<close>,
      rule CopyNchwToNc1hwc0_fills [OF ok _ _ _ _ _ _ dst src], use dims c0 bytes s in \<open>auto simp: holds_tensor_def\<close>)
qed

lemma TransFormatNhwcNc1hwc0_meets:
  assumes "CheckArgsForNhwcToNc1hwc0 pf args = Inr ()"
    and ok: "platform_ok pf (GetSizeByDataType pf (src_data_type args))"
    and s: "holds_tensor (GetSizeByDataType pf (src_data_type args)) (src_shape args) (data args) s"
  shows "transfer_spec pf INTERNAL_ERROR (GetSizeByDataType pf (src_data_type args)) (src_shape args) (dst_shape args)
    (nhwc_of_nc1hwc0 (src_shape args) (dst_shape args)) s result (TransFormatNhwcNc1hwc0 pf args result)"
proof -
  let ?c0 = "GetCubeSizeByDataType pf (src_data_type args)"
  obtain n h w c where src: "src_shape args = [n, h, w, c]" and c0: "0 < ?c0" "?c0 \<le> 32"
    and dst: "dst_shape args = [n, Ceil c ?c0, h, w, ?c0]"
    and good: "good_shape (src_shape args)" "good_shape (dst_shape args)"
    using assms(1) by (auto simp: CheckArgsForNhwcToNc1hwc0_Inr CubeSize_le IsShapeValid_good)
  let ?copy = "CopyNhwcToNc1hwc0 pf args (GetSizeByDataType pf (src_data_type args))
    (prod_list (dst_shape args) * GetSizeByDataType pf (src_data_type args)) n h w c (Ceil c ?c0) ?c0"
  have sets: "set (src_shape args) = {n, c, h, w}" "set (dst_shape args) = {n, Ceil c ?c0, h, w, ?c0}"
    by (auto simp: src dst)
  note dims = blocked_dims [OF good(1) good(2) _ sets c0]
  note bytes = good_shape_bytes [OF good(2) ok] good_shape_bytes [OF good(1) ok]
  show ?thesis
    unfolding TransFormatNhwcNc1hwc0_def assms(1) on_error_simps and_then_simps Let_def
  proof (rule checked_trans_spec [OF good ok _ refl, where prog = ?copy])
    show "prod_list (dst_shape args) = 0 \<Longrightarrow> prod_list (src_shape args) = 0" using dims by blast
  qed (simp only: bytes(3), use c0 in \<open>simp add: GetDstDataAfterTrans_NhwcToNc1hwc0_def src dst\<close>,
      rule CopyNhwcToNc1hwc0_fills [OF ok _ _ _ _ _ _ dst src], use dims c0 bytes s in \<open>auto simp: holds_tensor_def\<close>)
qed

lemma TransFormatNc1hwc0Nchw_meets:
  assumes "CheckArgsForNc1hwc0ToNchw pf args = Inr ()"
    and ok: "platform_ok pf (GetSizeByDataType pf (src_data_type args))"
    and s: "holds_tensor (GetSizeByDataType pf (src_data_type args)) (src_shape args) (data args) s"
  shows "transfer_spec pf INTERNAL_ERROR (GetSizeByDataType pf (src_data_type args)) (src_shape args) (dst_shape args)
    (nc1hwc0_of_nchw (src_shape args) (dst_shape args)) s result (TransFormatNc1hwc0Nchw pf args result)"
proof -
  let ?c0 = "GetCubeSizeByDataType pf (src_data_type args)"
  obtain n c h w where src: "src_shape args = [n, Ceil c ?c0, h, w, ?c0]" and c0: "0 < ?c0" "?c0 \<le> 32"
    and dst: "dst_shape args = [n, c, h, w]"
    and good: "good_shape (src_shape args)" "good_shape (dst_shape args)"
    using assms(1) by (auto simp: CheckArgsForNc1hwc0ToNchw_Inr CubeSize_le IsShapeValid_good)
  let ?copy = "CopyNc1hwc0ToNchw pf args (GetSizeByDataType pf (src_data_type args))
    (prod_list (dst_shape args) * GetSizeByDataType pf (src_data_type args)) h w n (Ceil c ?c0) ?c0 c"
  have sets: "set (dst_shape args) = {n, c, h, w}" "set (src_shape args) = {n, Ceil c ?c0, h, w, ?c0}"
    by (auto simp: src dst)
  note dims = blocked_dims [OF good(2) good(1) _ sets c0]
  note bytes = good_shape_bytes [OF good(2) ok] good_shape_bytes [OF good(1) ok]
  show ?thesis
    unfolding TransFormatNc1hwc0Nchw_def assms(1) on_error_simps and_then_simps Let_def
  proof (rule checked_trans_spec [OF good ok _ refl, where prog = ?copy])
    show "prod_list (dst_shape args) = 0 \<Longrightarrow> prod_list (src_shape args) = 0" using dims by blast
  qed (simp only: bytes(3), use c0 in \<open>simp add: GetDstDataAfterTrans_Nc1hwc0ToNchw_def src dst\<close>,
      rule CopyNc1hwc0ToNchw_fills [OF ok _ _ _ _ _ _ src dst], use dims c0 bytes s in \<open>auto simp: holds_tensor_def\<close>)
qed

lemma TransFormatNc1hwc0Nhwc_meets:
  assumes "CheckArgsForNc1hwc0ToNhwc pf args = Inr ()"
    and ok: "platform_ok pf (GetSizeByDataType pf (src_data_type args))"
    and s: "holds_tensor (GetSizeByDataType pf (src_data_type args)) (src_shape args) (data args) s"
  shows "transfer_spec pf INTERNAL_ERROR (GetSizeByDataType pf (src_data_type args)) (src_shape args) (dst_shape args)
    (nc1hwc0_of_nhwc (src_shape args) (dst_shape args)) s result (TransFormatNc1hwc0Nhwc pf args result)"
proof -
  let ?c0 = "GetCubeSizeByDataType pf (src_data_type args)"
  obtain n h w c where src: "src_shape args = [n, Ceil c ?c0, h, w, ?c0]" and c0: "0 < ?c0" "?c0 \<le> 32"
    and dst: "dst_shape args = [n, h, w, c]"
    and good: "good_shape (src_shape args)" "good_shape (dst_shape args)"
    using assms(1) by (auto simp: CheckArgsForNc1hwc0ToNhwc_Inr CubeSize_le IsShapeValid_good)
  let ?copy = "CopyNc1hwc0ToNhwc pf args (GetSizeByDataType pf (src_data_type args))
    (prod_list (dst_shape args) * GetSizeByDataType pf (src_data_type args)) h w n (Ceil c ?c0) ?c0 c"
  have sets: "set (dst_shape args) = {n, c, h, w}" "set (src_shape args) = {n, Ceil c ?c0, h, w, ?c0}"
    by (auto simp: src dst)
  note dims = blocked_dims [OF good(2) good(1) _ sets c0]
  note bytes = good_shape_bytes [OF good(2) ok] good_shape_bytes [OF good(1) ok]
  show ?thesis
    unfolding TransFormatNc1hwc0Nhwc_def assms(1) on_error_simps and_then_simps Let_def
  proof (rule checked_trans_spec [OF good ok _ refl, where prog = ?copy])
    show "prod_list (dst_shape args) = 0 \<Longrightarrow> prod_list (src_shape args) = 0" using dims by blast
  qed (simp only: bytes(3), use c0 in \<open>simp add: GetDstDataAfterTrans_Nc1hwc0ToNhwc_def src dst\<close>,
      rule CopyNc1hwc0ToNhwc_fills [OF ok _ _ _ _ _ _ src dst], use dims c0 bytes s in \<open>auto simp: holds_tensor_def\<close>)
qed

section \<open>The pairs of inverse transfers\<close>

interpretation nchw_5hd: transfer_pair
  "\<lambda>pf args. CheckArgsForNchwToNc1hwc0 pf args = Inr ()" TransFormatNchwNc1hwc0 nchw_of_nc1hwc0 INTERNAL_ERROR
  "\<lambda>pf args. CheckArgsForNc1hwc0ToNchw pf args = Inr ()" TransFormatNc1hwc0Nchw nc1hwc0_of_nchw INTERNAL_ERROR
proof unfold_locales
  fix pf args r assume chk: "CheckArgsForNchwToNc1hwc0 pf args = Inr ()"
  then obtain n c h w c0 where src: "src_shape args = [n, c, h, w]" and c0: "0 < c0" "c0 \<le> 32"
    "c0 = GetCubeSizeByDataType pf (src_data_type args)"
    and dst: "dst_shape args = [n, Ceil c c0, h, w, c0]"
    and good: "good_shape (src_shape args)" "good_shape (dst_shape args)"
    by (auto simp: CheckArgsForNchwToNc1hwc0_Inr CubeSize_le IsShapeValid_good)
  have sets: "set (src_shape args) = {n, c, h, w}" "set (dst_shape args) = {n, Ceil c c0, h, w, c0}"
    by (auto simp: src dst)
  note dims = blocked_dims [OF good _ sets c0(1,2)]
  show "CheckArgsForNc1hwc0ToNchw pf (args_back args r) = Inr () \<and> prod_list (dst_shape args) \<noteq> 0"
    if "prod_list (src_shape args) \<noteq> 0"
    using dims(7) that chk
    by (auto simp: CheckArgsForNchwToNc1hwc0_Inr CheckArgsForNc1hwc0ToNchw_Inr CubeSize_pos_iff)
  show "\<exists>j. nc1hwc0_of_nchw (dst_shape args) (src_shape args) idx = Some j \<and> valid_index (dst_shape args) j \<and>
      nchw_of_nc1hwc0 (src_shape args) (dst_shape args) j = Some idx"
    if v: "valid_index (src_shape args) idx" for idx
  proof -
    have "c < 2 ^ 63" using dims(5) prod_list_pos_of_valid [OF v] c0 by simp
    then show ?thesis
      using v c0 channel_split [of _ c c0]
      by (auto simp: src dst valid_index_Cons nc1hwc0_of_nchw_def nchw_of_nc1hwc0_def Let_def
          div_mult_mod_eq)
  qed
qed (auto simp: CheckArgsForNchwToNc1hwc0_Inr CheckArgsForNc1hwc0ToNchw_Inr IsShapeValid_good
    intro!: TransFormatNchwNc1hwc0_meets TransFormatNc1hwc0Nchw_meets)
interpretation nhwc_5hd: transfer_pair
  "\<lambda>pf args. CheckArgsForNhwcToNc1hwc0 pf args = Inr ()" TransFormatNhwcNc1hwc0 nhwc_of_nc1hwc0 INTERNAL_ERROR
  "\<lambda>pf args. CheckArgsForNc1hwc0ToNhwc pf args = Inr ()" TransFormatNc1hwc0Nhwc nc1hwc0_of_nhwc INTERNAL_ERROR
proof unfold_locales
  fix pf args r assume chk: "CheckArgsForNhwcToNc1hwc0 pf args = Inr ()"
  then obtain n h w c c0 where src: "src_shape args = [n, h, w, c]" and c0: "0 < c0" "c0 \<le> 32"
    "c0 = GetCubeSizeByDataType pf (src_data_type args)"
    and dst: "dst_shape args = [n, Ceil c c0, h, w, c0]"
    and good: "good_shape (src_shape args)" "good_shape (dst_shape args)"
    by (auto simp: CheckArgsForNhwcToNc1hwc0_Inr CubeSize_le IsShapeValid_good)
  have sets: "set (src_shape args) = {n, c, h, w}" "set (dst_shape args) = {n, Ceil c c0, h, w, c0}"
    by (auto simp: src dst)
  note dims = blocked_dims [OF good _ sets c0(1,2)]
  show "CheckArgsForNc1hwc0ToNhwc pf (args_back args r) = Inr () \<and> prod_list (dst_shape args) \<noteq> 0"
    if "prod_list (src_shape args) \<noteq> 0"
    using dims(7) that chk
    by (auto simp: CheckArgsForNhwcToNc1hwc0_Inr CheckArgsForNc1hwc0ToNhwc_Inr CubeSize_pos_iff)
  show "\<exists>j. nc1hwc0_of_nhwc (dst_shape args) (src_shape args) idx = Some j \<and> valid_index (dst_shape args) j \<and>
      nhwc_of_nc1hwc0 (src_shape args) (dst_shape args) j = Some idx"
    if v: "valid_index (src_shape args) idx" for idx
  proof -
    have "c < 2 ^ 63" using dims(5) prod_list_pos_of_valid [OF v] c0 by simp
    then show ?thesis
      using v c0 channel_split [of _ c c0]
      by (auto simp: src dst valid_index_Cons nc1hwc0_of_nhwc_def nhwc_of_nc1hwc0_def Let_def
          div_mult_mod_eq)
  qed
qed (auto simp: CheckArgsForNhwcToNc1hwc0_Inr CheckArgsForNc1hwc0ToNhwc_Inr IsShapeValid_good
    intro!: TransFormatNhwcNc1hwc0_meets TransFormatNc1hwc0Nhwc_meets)

section \<open>Properties\<close>

definition nchw_sample :: TransArgs where
  "nchw_sample = sample_args FORMAT_NCHW FORMAT_NC1HWC0 [1, 2, 1, 1] [1, 1, 1, 1, 16] DT_FLOAT16
     [Some 1, Some 2, Some 3, Some 4]"

definition nhwc_sample :: TransArgs where
  "nhwc_sample = sample_args FORMAT_NHWC FORMAT_NC1HWC0 [1, 1, 1, 2] [1, 1, 1, 1, 16] DT_FLOAT16
     [Some 1, Some 2, Some 3, Some 4]"

definition nc1hwc0_nchw_sample :: TransArgs where
  "nc1hwc0_nchw_sample = sample_args FORMAT_NC1HWC0 FORMAT_NCHW [1, 1, 1, 1, 16] [1, 2, 1, 1] DT_FLOAT16
     (replicate 32 (Some 7))"

definition nc1hwc0_nhwc_sample :: TransArgs where
  "nc1hwc0_nhwc_sample = sample_args FORMAT_NC1HWC0 FORMAT_NHWC [1, 1, 1, 1, 16] [1, 1, 1, 2] DT_FLOAT16
     (replicate 32 (Some 7))"

lemmas sample_5hd = sample_defs nchw_sample_def nhwc_sample_def nc1hwc0_nchw_sample_def
  nc1hwc0_nhwc_sample_def platform_ok_def
  holds_tensor_def CheckArgsForNchwToNc1hwc0_Inr CheckArgsForNhwcToNc1hwc0_Inr
  CheckArgsForNc1hwc0ToNchw_Inr CheckArgsForNc1hwc0ToNhwc_Inr GetCubeSizeByDataType_def kCubeSize_def
  kShapeItemNumMAX_def IsShapeValid_def Ceil_def

lemma nchw_sample_ok:
  "CheckArgsForNchwToNc1hwc0 sample_platform nchw_sample = Inr ()"
  "platform_ok sample_platform (GetSizeByDataType sample_platform (src_data_type nchw_sample))"
  "holds_tensor (GetSizeByDataType sample_platform (src_data_type nchw_sample)) (src_shape nchw_sample)
     (data nchw_sample) [Some 1, Some 2, Some 3, Some 4]"
  "new_succeeds sample_platform (prod_list (dst_shape nchw_sample) *
     GetSizeByDataType sample_platform (src_data_type nchw_sample))"
  "prod_list (dst_shape nchw_sample) \<noteq> 0" "prod_list (src_shape nchw_sample) \<noteq> 0"
  "new_succeeds sample_platform (prod_list (src_shape nchw_sample) *
     GetSizeByDataType sample_platform (src_data_type nchw_sample))"
  by (simp_all add: sample_5hd)

lemma nhwc_sample_ok:
  "CheckArgsForNhwcToNc1hwc0 sample_platform nhwc_sample = Inr ()"
  "platform_ok sample_platform (GetSizeByDataType sample_platform (src_data_type nhwc_sample))"
  "holds_tensor (GetSizeByDataType sample_platform (src_data_type nhwc_sample)) (src_shape nhwc_sample)
     (data nhwc_sample) [Some 1, Some 2, Some 3, Some 4]"
  "new_succeeds sample_platform (prod_list (dst_shape nhwc_sample) *
     GetSizeByDataType sample_platform (src_data_type nhwc_sample))"
  "prod_list (dst_shape nhwc_sample) \<noteq> 0" "prod_list (src_shape nhwc_sample) \<noteq> 0"
  "new_succeeds sample_platform (prod_list (src_shape nhwc_sample) *
     GetSizeByDataType sample_platform (src_data_type nhwc_sample))"
  by (simp_all add: sample_5hd)

lemma nc1hwc0_nchw_sample_ok:
  "CheckArgsForNc1hwc0ToNchw sample_platform nc1hwc0_nchw_sample = Inr ()"
  "platform_ok sample_platform (GetSizeByDataType sample_platform (src_data_type nc1hwc0_nchw_sample))"
  "holds_tensor (GetSizeByDataType sample_platform (src_data_type nc1hwc0_nchw_sample)) (src_shape nc1hwc0_nchw_sample)
     (data nc1hwc0_nchw_sample) (replicate 32 (Some 7))"
  by (simp_all add: sample_5hd)

lemma nc1hwc0_nhwc_sample_ok:
  "CheckArgsForNc1hwc0ToNhwc sample_platform nc1hwc0_nhwc_sample = Inr ()"
  "platform_ok sample_platform (GetSizeByDataType sample_platform (src_data_type nc1hwc0_nhwc_sample))"
  "holds_tensor (GetSizeByDataType sample_platform (src_data_type nc1hwc0_nhwc_sample)) (src_shape nc1hwc0_nhwc_sample)
     (data nc1hwc0_nhwc_sample) (replicate 32 (Some 7))"
  by (simp_all add: sample_5hd)

text \<open>C5: NCHW to NC1HWC0. Whenever the argument check accepts and the source buffer holds the tensor,
  the transfer stays inside both buffers and returns: an empty tensor gives an empty result, a failed
  allocation \<open>INTERNAL_ERROR\<close>, and otherwise a buffer of exactly the size of the destination shape
  whose element \<open>[n, c1, h, w, k]\<close> is source element \<open>[n, c1 * c0 + k, h, w]\<close>, or zero in the
  padding of the last channel block.\<close>

theorem TransFormatNchwNc1hwc0_correct:
  assumes "CheckArgsForNchwToNc1hwc0 pf args = Inr ()"
    and "sz = GetSizeByDataType pf (src_data_type args)" "platform_ok pf sz"
    and "holds_tensor sz (src_shape args) (data args) s"
  shows "transfer_spec pf INTERNAL_ERROR sz (src_shape args) (dst_shape args)
    (nchw_of_nc1hwc0 (src_shape args) (dst_shape args)) s result (TransFormatNchwNc1hwc0 pf args result)"
  using TransFormatNchwNc1hwc0_meets [of pf args s result] assms by simp

theorem TransFormatNchwNc1hwc0_correct_witness:
  "CheckArgsForNchwToNc1hwc0 sample_platform nchw_sample = Inr () \<and>
   transfer_spec sample_platform INTERNAL_ERROR (GetSizeByDataType sample_platform (src_data_type nchw_sample))
     (src_shape nchw_sample) (dst_shape nchw_sample)
     (nchw_of_nc1hwc0 (src_shape nchw_sample) (dst_shape nchw_sample)) [Some 1, Some 2, Some 3, Some 4] no_result
     (TransFormatNchwNc1hwc0 sample_platform nchw_sample no_result)"
  by (intro conjI nchw_sample_ok(1) TransFormatNchwNc1hwc0_correct [OF nchw_sample_ok(1) refl nchw_sample_ok(2,3)])

text \<open>NHWC to NC1HWC0, the same contract with the channel in the last place of the source index.\<close>

theorem TransFormatNhwcNc1hwc0_correct:
  assumes "CheckArgsForNhwcToNc1hwc0 pf args = Inr ()"
    and "sz = GetSizeByDataType pf (src_data_type args)" "platform_ok pf sz"
    and "holds_tensor sz (src_shape args) (data args) s"
  shows "transfer_spec pf INTERNAL_ERROR sz (src_shape args) (dst_shape args)
    (nhwc_of_nc1hwc0 (src_shape args) (dst_shape args)) s result (TransFormatNhwcNc1hwc0 pf args result)"
  using TransFormatNhwcNc1hwc0_meets [of pf args s result] assms by simp

theorem TransFormatNhwcNc1hwc0_correct_witness:
  "CheckArgsForNhwcToNc1hwc0 sample_platform nhwc_sample = Inr () \<and>
   transfer_spec sample_platform INTERNAL_ERROR (GetSizeByDataType sample_platform (src_data_type nhwc_sample))
     (src_shape nhwc_sample) (dst_shape nhwc_sample)
     (nhwc_of_nc1hwc0 (src_shape nhwc_sample) (dst_shape nhwc_sample)) [Some 1, Some 2, Some 3, Some 4] no_result
     (TransFormatNhwcNc1hwc0 sample_platform nhwc_sample no_result)"
  by (intro conjI nhwc_sample_ok(1) TransFormatNhwcNc1hwc0_correct [OF nhwc_sample_ok(1) refl nhwc_sample_ok(2,3)])

text \<open>NC1HWC0 to NCHW, from any source buffer of the right size: destination element
  \<open>[n, c, h, w]\<close> is source element \<open>[n, c div c0, h, w, c mod c0]\<close>; no access leaves the buffers.\<close>

theorem TransFormatNc1hwc0Nchw_correct:
  assumes "CheckArgsForNc1hwc0ToNchw pf args = Inr ()"
    and "sz = GetSizeByDataType pf (src_data_type args)" "platform_ok pf sz"
    and "holds_tensor sz (src_shape args) (data args) s"
  shows "transfer_spec pf INTERNAL_ERROR sz (src_shape args) (dst_shape args)
    (nc1hwc0_of_nchw (src_shape args) (dst_shape args)) s result (TransFormatNc1hwc0Nchw pf args result)"
  using TransFormatNc1hwc0Nchw_meets [of pf args s result] assms by simp

theorem TransFormatNc1hwc0Nchw_correct_witness:
  "CheckArgsForNc1hwc0ToNchw sample_platform nc1hwc0_nchw_sample = Inr () \<and>
   transfer_spec sample_platform INTERNAL_ERROR (GetSizeByDataType sample_platform (src_data_type nc1hwc0_nchw_sample))
     (src_shape nc1hwc0_nchw_sample) (dst_shape nc1hwc0_nchw_sample)
     (nc1hwc0_of_nchw (src_shape nc1hwc0_nchw_sample) (dst_shape nc1hwc0_nchw_sample)) (replicate 32 (Some 7)) no_result
     (TransFormatNc1hwc0Nchw sample_platform nc1hwc0_nchw_sample no_result)"
  by (intro conjI nc1hwc0_nchw_sample_ok(1) TransFormatNc1hwc0Nchw_correct [OF nc1hwc0_nchw_sample_ok(1) refl nc1hwc0_nchw_sample_ok(2,3)])

text \<open>NC1HWC0 to NHWC, likewise.\<close>

theorem TransFormatNc1hwc0Nhwc_correct:
  assumes "CheckArgsForNc1hwc0ToNhwc pf args = Inr ()"
    and "sz = GetSizeByDataType pf (src_data_type args)" "platform_ok pf sz"
    and "holds_tensor sz (src_shape args) (data args) s"
  shows "transfer_spec pf INTERNAL_ERROR sz (src_shape args) (dst_shape args)
    (nc1hwc0_of_nhwc (src_shape args) (dst_shape args)) s result (TransFormatNc1hwc0Nhwc pf args result)"
  using TransFormatNc1hwc0Nhwc_meets [of pf args s result] assms by simp

theorem TransFormatNc1hwc0Nhwc_correct_witness:
  "CheckArgsForNc1hwc0ToNhwc sample_platform nc1hwc0_nhwc_sample = Inr () \<and>
   transfer_spec sample_platform INTERNAL_ERROR (GetSizeByDataType sample_platform (src_data_type nc1hwc0_nhwc_sample))
     (src_shape nc1hwc0_nhwc_sample) (dst_shape nc1hwc0_nhwc_sample)
     (nc1hwc0_of_nhwc (src_shape nc1hwc0_nhwc_sample) (dst_shape nc1hwc0_nhwc_sample)) (replicate 32 (Some 7)) no_result
     (TransFormatNc1hwc0Nhwc sample_platform nc1hwc0_nhwc_sample no_result)"
  by (intro conjI nc1hwc0_nhwc_sample_ok(1) TransFormatNc1hwc0Nhwc_correct [OF nc1hwc0_nhwc_sample_ok(1) refl nc1hwc0_nhwc_sample_ok(2,3)])

text \<open>C6: A tensor taken from NCHW to NC1HWC0 comes back from NC1HWC0 to NCHW byte for byte: the
  second transfer accepts the result of the first with the shapes swapped, and returns the original
  buffer.\<close>

theorem nchw_nc1hwc0_roundtrip:
  assumes "CheckArgsForNchwToNc1hwc0 pf args = Inr ()"
    and "sz = GetSizeByDataType pf (src_data_type args)" "platform_ok pf sz"
    and "holds_tensor sz (src_shape args) (data args) s" "prod_list (src_shape args) \<noteq> 0"
    and "TransFormatNchwNc1hwc0 pf args result = Inr r"
    and "new_succeeds pf (prod_list (src_shape args) * sz)"
  shows "TransFormatNc1hwc0Nchw pf (args_back args r) result' =
    Inr (result'\<lparr>res_data := Some s, res_length := int (length s)\<rparr>)"
  using assms by (rule nchw_5hd.roundtrip)

theorem nchw_nc1hwc0_roundtrip_witness:
  "\<exists>r. TransFormatNchwNc1hwc0 sample_platform nchw_sample no_result = Inr r \<and>
     TransFormatNc1hwc0Nchw sample_platform (args_back nchw_sample r) no_result =
       Inr (no_result\<lparr>res_data := Some [Some 1, Some 2, Some 3, Some 4], res_length := 4\<rparr>)"
proof -
  note h = nchw_sample_ok
  obtain r where r: "TransFormatNchwNc1hwc0 sample_platform nchw_sample no_result = Inr r"
    by (rule nchw_5hd.fwd.returns [OF h(1) refl h(2-5), of no_result]) blast
  have "TransFormatNc1hwc0Nchw sample_platform (args_back nchw_sample r) no_result =
      Inr (no_result\<lparr>res_data := Some [Some 1, Some 2, Some 3, Some 4],
        res_length := int (length [Some 1, Some 2, Some 3, Some (4 :: byte)])\<rparr>)"
    by (rule nchw_nc1hwc0_roundtrip [OF h(1) refl h(2,3,6) r h(7)])
  with r show ?thesis by simp
qed

text \<open>A tensor taken from NHWC to NC1HWC0 comes back byte for byte.\<close>

theorem nhwc_nc1hwc0_roundtrip:
  assumes "CheckArgsForNhwcToNc1hwc0 pf args = Inr ()"
    and "sz = GetSizeByDataType pf (src_data_type args)" "platform_ok pf sz"
    and "holds_tensor sz (src_shape args) (data args) s" "prod_list (src_shape args) \<noteq> 0"
    and "TransFormatNhwcNc1hwc0 pf args result = Inr r"
    and "new_succeeds pf (prod_list (src_shape args) * sz)"
  shows "TransFormatNc1hwc0Nhwc pf (args_back args r) result' =
    Inr (result'\<lparr>res_data := Some s, res_length := int (length s)\<rparr>)"
  using assms by (rule nhwc_5hd.roundtrip)

theorem nhwc_nc1hwc0_roundtrip_witness:
  "\<exists>r. TransFormatNhwcNc1hwc0 sample_platform nhwc_sample no_result = Inr r \<and>
     TransFormatNc1hwc0Nhwc sample_platform (args_back nhwc_sample r) no_result =
       Inr (no_result\<lparr>res_data := Some [Some 1, Some 2, Some 3, Some 4], res_length := 4\<rparr>)"
proof -
  note h = nhwc_sample_ok
  obtain r where r: "TransFormatNhwcNc1hwc0 sample_platform nhwc_sample no_result = Inr r"
    by (rule nhwc_5hd.fwd.returns [OF h(1) refl h(2-5), of no_result]) blast
  have "TransFormatNc1hwc0Nhwc sample_platform (args_back nhwc_sample r) no_result =
      Inr (no_result\<lparr>res_data := Some [Some 1, Some 2, Some 3, Some 4],
        res_length := int (length [Some 1, Some 2, Some 3, Some (4 :: byte)])\<rparr>)"
    by (rule nhwc_nc1hwc0_roundtrip [OF h(1) refl h(2,3,6) r h(7)])
  with r show ?thesis by simp
qed

end
