(* ===== verification/Trans_Fracz.thy ===== *)
theory Trans_Fracz
  imports Transfer_Spec
begin

text \<open>
  The transfers between the 4D formats and FRACTAL\_Z, the layout of convolution weights: axes
  \<open>(C1 * H * W, No, Ni, C0)\<close> with \<open>Ni = 16\<close>, both the batch and the channel axis padded with
  zeros. Forward: \<open>format_transfer_fractal_z.cc\<close> (from NCHW, HWCN and NHWC); backward:
  \<open>format_transfer_fracz_{nchw, hwcn, nhwc}.cc\<close>.
\<close>

section \<open>Shapes\<close>

definition CheckDataTypeSupport :: "platform \<Rightarrow> DataType \<Rightarrow> Status" where
  "CheckDataTypeSupport pf data_type = (if GetSizeByDataType pf data_type > 0 then SUCCESS else UNSUPPORTED)"

definition TransShapeToFz :: "platform \<Rightarrow> int \<Rightarrow> int \<Rightarrow> int \<Rightarrow> int \<Rightarrow> DataType \<Rightarrow> int list res" where
  "TransShapeToFz pf n c h w data_type =
     (let c0 = GetCubeSizeByDataType pf data_type in
      if c0 < 0 then Inl (Ret ACL_ERROR_GE_TRANSSHAPE_DATATYPE_INVALID)
      else
        let c1 = Ceil c c0;
            no = Ceil n kNiSize;
            d_shape = [i64 (h * w * c1), no, kNiSize, c0]
        in if \<not> IsShapeValid d_shape then Inl (Ret ACL_ERROR_GE_TRANSSHAPE_SHAPE_INVALID) else Inr d_shape)"

definition TransShapeNchwToFz :: "platform \<Rightarrow> int list \<Rightarrow> DataType \<Rightarrow> int list res" where
  "TransShapeNchwToFz pf s_shape data_type =
     (if \<not> CheckShapeValid s_shape kNchwDimsNum then Inl (Ret ACL_ERROR_GE_TRANSSHAPE_SHAPE_INVALID)
      else
        at s_shape kNchwN (\<lambda>n. at s_shape kNchwC (\<lambda>c.
        at s_shape kNchwH (\<lambda>h. at s_shape kNchwW (\<lambda>w.
        TransShapeToFz pf n c h w data_type)))))"

definition TransShapeHwcnToFz :: "platform \<Rightarrow> int list \<Rightarrow> DataType \<Rightarrow> int list res" where
  "TransShapeHwcnToFz pf s_shape data_type =
     (if \<not> CheckShapeValid s_shape kHwcnDimsNum then Inl (Ret ACL_ERROR_GE_TRANSSHAPE_SHAPE_INVALID)
      else
        at s_shape kHwcnH (\<lambda>h. at s_shape kHwcnW (\<lambda>w.
        at s_shape kHwcnC (\<lambda>c. at s_shape kHwcnN (\<lambda>n.
        TransShapeToFz pf n c h w data_type)))))"

definition TransShapeNhwcToFz :: "platform \<Rightarrow> int list \<Rightarrow> DataType \<Rightarrow> int list res" where
  "TransShapeNhwcToFz pf s_shape data_type =
     (if \<not> CheckShapeValid s_shape kNhwcDimsNum then Inl (Ret ACL_ERROR_GE_TRANSSHAPE_SHAPE_INVALID)
      else
        at s_shape kNhwcN (\<lambda>n. at s_shape kNhwcH (\<lambda>h.
        at s_shape kNhwcW (\<lambda>w. at s_shape kNhwcC (\<lambda>c.
        TransShapeToFz pf n c h w data_type)))))"

definition TransShapeFractalZ ::
  "platform \<Rightarrow> Format \<Rightarrow> int list \<Rightarrow> DataType \<Rightarrow> Format \<Rightarrow> int list res" where
  "TransShapeFractalZ pf s_format s_shape data_type d_format =
     (if CheckDataTypeSupport pf data_type \<noteq> SUCCESS then Inl (Ret ACL_ERROR_GE_TRANSSHAPE_DATATYPE_INVALID)
      else if s_format = FORMAT_NHWC \<and> d_format = FORMAT_FRACTAL_Z then TransShapeNhwcToFz pf s_shape data_type
      else if s_format = FORMAT_HWCN \<and> d_format = FORMAT_FRACTAL_Z then TransShapeHwcnToFz pf s_shape data_type
      else if s_format = FORMAT_NCHW \<and> d_format = FORMAT_FRACTAL_Z then TransShapeNchwToFz pf s_shape data_type
      else Inl (Ret ACL_ERROR_GE_TRANSSHAPE_FORMAT_INVALID))"

section \<open>From the 4D formats to FRACTAL\_Z\<close>

definition CopyNchwToFz ::
  "platform \<Rightarrow> TransArgs \<Rightarrow> int \<Rightarrow> int \<Rightarrow> int \<Rightarrow> int \<Rightarrow> int \<Rightarrow> int \<Rightarrow> int \<Rightarrow> mem option \<Rightarrow> mem option res"
where
  "CopyNchwToFz pf args sz dst_size n c h w c0 =
     (let c1 = Ceil c c0;
          hw = i64 (h * w);
          chw = i64 (c * hw);
          nchw = i64 (n * chw);
          hwc0 = i64 (hw * c0);
          hf_cnt = Ceil n kNiSize;
          vf_cnt = i64 (c1 * hw);
          fractal_ele_cnt = i64 (c0 * kNiSize)
      in for_lt vf_cnt (\<lambda>vfi.
        let vf_base_i = i64 (vfi * hf_cnt)
        in for_lt hf_cnt (\<lambda>hfi.
          let gfi = i64 (vf_base_i + hfi);
              src_n_offset = i64 (hfi * chw * kNiSize);
              src_f_offset = i64 (src_n_offset + vfi smod hw + vfi sdiv hw * hwc0)
          in for_lt c0 (\<lambda>row.
            let src_ci = i64 (vfi sdiv hw * c0 + row);
                src_row_offset = i64 (src_f_offset + row * hw)
            in for_lt kNiSize (\<lambda>col dst.
              let src_ni = i64 (hfi * kNiSize + col);
                  src_offset = i64 (src_row_offset + chw * col);
                  need_pad_zero = (src_ni \<ge> n \<or> src_offset \<ge> nchw \<or> src_ci \<ge> c);
                  idx = i64 (gfi * fractal_ele_cnt + col * c0 + row);
                  offset = i64 (idx * sz)
              in if need_pad_zero
                 then check_eok (memset_s pf dst offset (protected_size pf dst_size offset) sz)
                 else guarded_copy pf dst offset dst_size (data args) (i64 (src_offset * sz)) sz)))))"

definition TransFormatFromNchwToFz :: "platform \<Rightarrow> TransArgs \<Rightarrow> TransResult \<Rightarrow> TransResult res" where
  "TransFormatFromNchwToFz pf args result =
     at (src_shape args) kNchwN (\<lambda>n. at (src_shape args) kNchwC (\<lambda>c.
     at (src_shape args) kNchwH (\<lambda>h. at (src_shape args) kNchwW (\<lambda>w.
     let c0 = GetCubeSizeByDataType pf (src_data_type args);
         c1 = Ceil c c0;
         hw = i64 (h * w);
         hf_cnt = Ceil n kNiSize;
         vf_cnt = i64 (c1 * hw);
         fractal_ele_cnt = i64 (c0 * kNiSize);
         total_ele_cnt = i64 (hf_cnt * vf_cnt * fractal_ele_cnt);
         sz = GetSizeByDataType pf (src_data_type args);
         dst_size = i64 (total_ele_cnt * sz)
     in nonempty_trans dst_size result (alloc_dst pf dst_size (\<lambda>dst.
          and_then (CopyNchwToFz pf args sz dst_size n c h w c0 dst) (set_result result dst_size)))))))"

definition CopyHwcnToFz ::
  "platform \<Rightarrow> TransArgs \<Rightarrow> int \<Rightarrow> int \<Rightarrow> int \<Rightarrow> int \<Rightarrow> int \<Rightarrow> int \<Rightarrow> int \<Rightarrow> mem option \<Rightarrow> mem option res"
where
  "CopyHwcnToFz pf args data_size dst_size h w c n c0 =
     (let cn = i64 (c * n);
          wcn = i64 (w * cn);
          n1n0 = i64 (Ceil n kNiSize * kNiSize);
          c1 = Ceil c c0;
          n1n0c0 = i64 (n1n0 * c0);
          wn1n0c0 = i64 (w * n1n0c0);
          hwn1n0c0 = i64 (h * wn1n0c0)
      in for_lt c1 (\<lambda>c1i. for_lt h (\<lambda>hi. for_lt w (\<lambda>wi. for_lt n1n0 (\<lambda>n1n0i. for_lt c0 (\<lambda>c0i dst.
        let dst_idx = i64 (c1i * hwn1n0c0 + hi * wn1n0c0 + wi * n1n0c0 + n1n0i * c0 + c0i);
            dst_offset = i64 (dst_idx * data_size);
            pad_zero = (i64 (c1i * c0 + c0i) \<ge> c \<or> n1n0i \<ge> n)
        in if pad_zero
           then check_eok (memset_s pf dst dst_offset (protected_size pf dst_size dst_offset) data_size)
           else
             let src_idx = i64 (hi * wcn + wi * cn + (c1i * c0 + c0i) * n + n1n0i)
             in guarded_copy pf dst dst_offset dst_size (data args) (i64 (src_idx * data_size)) data_size))))))"

definition TransFormatHwcnToFz :: "platform \<Rightarrow> TransArgs \<Rightarrow> TransResult \<Rightarrow> TransResult res" where
  "TransFormatHwcnToFz pf args result =
     at (src_shape args) kHwcnH (\<lambda>h. at (src_shape args) kHwcnW (\<lambda>w.
     at (src_shape args) kHwcnC (\<lambda>c. at (src_shape args) kHwcnN (\<lambda>n.
     let c0 = GetCubeSizeByDataType pf (src_data_type args);
         data_size = GetSizeByDataType pf (src_data_type args);
         dst_size = foldl (\<lambda>dst_size dim. i64 (dst_size * dim)) 1 (dst_shape args);
         dst_size = i64 (dst_size * data_size)
     in nonempty_trans dst_size result (alloc_dst pf dst_size (\<lambda>dst.
          and_then (CopyHwcnToFz pf args data_size dst_size h w c n c0 dst) (set_result result dst_size)))))))"

definition CopyNhwcToFz ::
  "platform \<Rightarrow> TransArgs \<Rightarrow> int \<Rightarrow> int \<Rightarrow> int \<Rightarrow> int \<Rightarrow> int \<Rightarrow> int \<Rightarrow> int \<Rightarrow> mem option \<Rightarrow> mem option res"
where
  "CopyNhwcToFz pf args data_size dst_size n h w c c0 =
     (let wc = i64 (w * c);
          hwc = i64 (h * w * c);
          n1n0 = i64 (Ceil n kNiSize * kNiSize);
          c1 = Ceil c c0;
          n1n0c0 = i64 (n1n0 * c0);
          wn1n0c0 = i64 (w * n1n0c0);
          hwn1n0c0 = i64 (h * wn1n0c0)
      in for_lt c1 (\<lambda>c1i. for_lt h (\<lambda>hi. for_lt w (\<lambda>wi. for_lt n1n0 (\<lambda>n1n0i. for_lt c0 (\<lambda>c0i dst.
        let dst_idx = i64 (c1i * hwn1n0c0 + hi * wn1n0c0 + wi * n1n0c0 + n1n0i * c0 + c0i);
            dst_offset = i64 (dst_idx * data_size);
            pad_zero = (i64 (c1i * c0 + c0i) \<ge> c \<or> n1n0i \<ge> n)
        in if pad_zero
           then check_eok (memset_s pf dst dst_offset (protected_size pf dst_size dst_offset) data_size)
           else
             let src_idx = i64 (n1n0i * hwc + hi * wc + wi * c + (c1i * c0 + c0i))
             in guarded_copy pf dst dst_offset dst_size (data args) (i64 (src_idx * data_size)) data_size))))))"

definition TransFormatNhwcToFz :: "platform \<Rightarrow> TransArgs \<Rightarrow> TransResult \<Rightarrow> TransResult res" where
  "TransFormatNhwcToFz pf args result =
     at (src_shape args) kNhwcN (\<lambda>n. at (src_shape args) kNhwcH (\<lambda>h.
     at (src_shape args) kNhwcW (\<lambda>w. at (src_shape args) kNhwcC (\<lambda>c.
     let c0 = GetCubeSizeByDataType pf (src_data_type args);
         data_size = GetSizeByDataType pf (src_data_type args);
         dst_size = foldl (\<lambda>dst_size dim. i64 (dst_size * dim)) 1 (dst_shape args);
         dst_size = i64 (dst_size * data_size)
     in nonempty_trans dst_size result (alloc_dst pf dst_size (\<lambda>dst.
          and_then (CopyNhwcToFz pf args data_size dst_size n h w c c0 dst) (set_result result dst_size)))))))"

definition TransFormatFractalZ :: "platform \<Rightarrow> TransArgs \<Rightarrow> TransResult \<Rightarrow> TransResult res" where
  "TransFormatFractalZ pf args result =
     and_then (TransShapeFractalZ pf (src_format args) (src_shape args) (src_data_type args) (dst_format args))
       (\<lambda>expect_shape.
         if \<not> IsTransShapeDstCorrect args expect_shape then Inl (Ret PARAM_INVALID)
         else if src_format args = FORMAT_NHWC \<and> dst_format args = FORMAT_FRACTAL_Z
         then TransFormatNhwcToFz pf args result
         else if src_format args = FORMAT_HWCN \<and> dst_format args = FORMAT_FRACTAL_Z
         then TransFormatHwcnToFz pf args result
         else if src_format args = FORMAT_NCHW \<and> dst_format args = FORMAT_FRACTAL_Z
         then TransFormatFromNchwToFz pf args result
         else Inl (Ret UNSUPPORTED))"

section \<open>From FRACTAL\_Z back to the 4D formats\<close>

definition CheckArgsForFracZToNchw :: "platform \<Rightarrow> TransArgs \<Rightarrow> unit res" where
  "CheckArgsForFracZToNchw pf args =
     (if src_format args \<noteq> FORMAT_FRACTAL_Z \<or> dst_format args \<noteq> FORMAT_NCHW then Inl (Ret UNSUPPORTED)
      else if \<not> CheckDataTypeSupported pf (src_data_type args) then Inl (Ret UNSUPPORTED)
      else if \<not> CheckShapeValid (src_shape args) kFracZDimsNum then Inl (Ret PARAM_INVALID)
      else if \<not> CheckShapeValid (dst_shape args) kNchwDimsNum then Inl (Ret PARAM_INVALID)
      else
        let c0 = GetCubeSizeByDataType pf (src_data_type args) in
        if c0 < 0 then Inl (Ret PARAM_INVALID)
        else
          at (dst_shape args) kNchwC (\<lambda>dc. at (dst_shape args) kNchwN (\<lambda>dn.
          at (src_shape args) kFracZHWC1 (\<lambda>shwc1. at (dst_shape args) kNchwH (\<lambda>dh.
          at (dst_shape args) kNchwW (\<lambda>dw. at (src_shape args) kFracZC0 (\<lambda>sc0.
          at (src_shape args) kFracZNi (\<lambda>sni. at (src_shape args) kFracZN0 (\<lambda>sn0.
          let c1 = Ceil dc c0;
              n0 = Ceil dn kNiSize
          in if shwc1 \<noteq> i64 (dh * dw * c1) \<or> sc0 \<noteq> c0 \<or> sni \<noteq> kNiSize \<or> sn0 \<noteq> n0
             then Inl (Ret PARAM_INVALID) else Inr ())))))))))"

definition CopyFracZToNchw ::
  "platform \<Rightarrow> TransArgs \<Rightarrow> int \<Rightarrow> int \<Rightarrow> int \<Rightarrow> int \<Rightarrow> int \<Rightarrow> int \<Rightarrow> int \<Rightarrow> int \<Rightarrow> int \<Rightarrow> mem option \<Rightarrow> mem option res"
where
  "CopyFracZToNchw pf args sz total_size n0 ni c0 h w c n =
     (let nc = i64 (ni * n0);
          ncc0 = i64 (nc * c0);
          wncc0 = i64 (w * ncc0);
          hwncc0 = i64 (h * wncc0);
          hw = i64 (h * w);
          chw = i64 (c * hw)
      in for_lt n (\<lambda>n_idx.
        let n_head_addr = i64 (n_idx * chw)
        in for_lt c (\<lambda>c_idx.
          let c_head_addr = i64 (n_head_addr + c_idx * hw)
          in for_lt h (\<lambda>h_idx.
            let h_head_addr = i64 (c_head_addr + h_idx * w)
            in for_lt w (\<lambda>w_idx dst.
              let dst_idx = i64 (h_head_addr + w_idx);
                  c1_idx = c_idx sdiv c0;
                  c0_idx = c_idx smod c0;
                  nc_idx = n_idx;
                  src_idx = i64 (c1_idx * hwncc0 + h_idx * wncc0 + w_idx * ncc0 + nc_idx * c0 + c0_idx);
                  src_offset = i64 (src_idx * sz);
                  dst_offset = i64 (dst_idx * sz)
              in check_eok (memcpy_s pf dst dst_offset (protected_size pf total_size dst_offset)
                   (data args) src_offset sz))))))"

definition GetDstDataAfterTrans_FracZToNchw ::
  "platform \<Rightarrow> TransArgs \<Rightarrow> TransResult \<Rightarrow> int \<Rightarrow> int \<Rightarrow> TransResult res"
where
  "GetDstDataAfterTrans_FracZToNchw pf args result sz total_size =
     alloc_dst pf total_size (\<lambda>dst.
       at (src_shape args) kFracZN0 (\<lambda>n0. at (src_shape args) kFracZNi (\<lambda>ni.
       at (src_shape args) kFracZC0 (\<lambda>c0. at (dst_shape args) kNchwH (\<lambda>h.
       at (dst_shape args) kNchwW (\<lambda>w. at (dst_shape args) kNchwC (\<lambda>c. at (dst_shape args) kNchwN (\<lambda>n.
       and_then (CopyFracZToNchw pf args sz total_size n0 ni c0 h w c n dst) (set_result result total_size)))))))))"

definition TransFormatFracZNchw :: "platform \<Rightarrow> TransArgs \<Rightarrow> TransResult \<Rightarrow> TransResult res" where
  "TransFormatFracZNchw pf args result =
     and_then (on_error PARAM_INVALID (CheckArgsForFracZToNchw pf args)) (\<lambda>_.
       let sz = GetSizeByDataType pf (src_data_type args);
           total_size = i64 (GetItemNumByShape (dst_shape args) * sz)
       in checked_trans args total_size result (GetDstDataAfterTrans_FracZToNchw pf args result sz total_size))"

definition TransShapeFracZNchw ::
  "platform \<Rightarrow> Format \<Rightarrow> int list \<Rightarrow> DataType \<Rightarrow> Format \<Rightarrow> int list res" where
  "TransShapeFracZNchw pf s_format s_shape data_type d_format = Inl (Ret ACL_ERROR_GE_TRANSSHAPE_FORMAT_INVALID)"

definition CheckArgsForFracZToHwcn :: "platform \<Rightarrow> TransArgs \<Rightarrow> unit res" where
  "CheckArgsForFracZToHwcn pf args =
     (if src_format args \<noteq> FORMAT_FRACTAL_Z \<or> dst_format args \<noteq> FORMAT_HWCN then Inl (Ret UNSUPPORTED)
      else if \<not> CheckDataTypeSupported pf (src_data_type args) then Inl (Ret UNSUPPORTED)
      else if \<not> CheckShapeValid (src_shape args) kFracZDimsNum then Inl (Ret PARAM_INVALID)
      else if \<not> CheckShapeValid (dst_shape args) kHwcnDimsNum then Inl (Ret PARAM_INVALID)
      else
        let c0 = GetCubeSizeByDataType pf (src_data_type args) in
        if c0 < 0 then Inl (Ret PARAM_INVALID)
        else
          at (dst_shape args) kHwcnC (\<lambda>dc. at (dst_shape args) kHwcnN (\<lambda>dn.
          at (src_shape args) kFracZHWC1 (\<lambda>shwc1. at (dst_shape args) kHwcnH (\<lambda>dh.
          at (dst_shape args) kHwcnW (\<lambda>dw. at (src_shape args) kFracZC0 (\<lambda>sc0.
          at (src_shape args) kFracZNi (\<lambda>sni. at (src_shape args) kFracZN0 (\<lambda>sn0.
          let c1 = Ceil dc c0;
              n0 = Ceil dn kNiSize
          in if shwc1 \<noteq> i64 (dh * dw * c1) \<or> sc0 \<noteq> c0 \<or> sni \<noteq> kNiSize \<or> sn0 \<noteq> n0
             then Inl (Ret PARAM_INVALID) else Inr ())))))))))"

definition CopyFracZToHwcn ::
  "platform \<Rightarrow> TransArgs \<Rightarrow> int \<Rightarrow> int \<Rightarrow> int \<Rightarrow> int \<Rightarrow> int \<Rightarrow> int \<Rightarrow> int \<Rightarrow> int \<Rightarrow> int \<Rightarrow> mem option \<Rightarrow> mem option res"
where
  "CopyFracZToHwcn pf args sz total_size n0 ni c0 h w c n =
     (let nc = i64 (ni * n0);
          ncc0 = i64 (nc * c0);
          wncc0 = i64 (w * ncc0);
          hwncc0 = i64 (h * wncc0);
          cn = i64 (c * n);
          wcn = i64 (w * cn)
      in for_lt h (\<lambda>h_idx.
        let h_head_addr = i64 (h_idx * wcn)
        in for_lt w (\<lambda>w_idx.
          let w_head_addr = i64 (h_head_addr + w_idx * cn)
          in for_lt c (\<lambda>c_idx.
            let c_head_addr = i64 (w_head_addr + c_idx * n)
            in for_lt n (\<lambda>n_idx dst.
              let dst_idx = i64 (c_head_addr + n_idx);
                  c1_idx = c_idx sdiv c0;
                  c0_idx = c_idx smod c0;
                  nc_idx = n_idx;
                  src_idx = i64 (c1_idx * hwncc0 + h_idx * wncc0 + w_idx * ncc0 + nc_idx * c0 + c0_idx);
                  src_offset = i64 (src_idx * sz);
                  dst_offset = i64 (dst_idx * sz)
              in check_eok (memcpy_s pf dst dst_offset (protected_size pf total_size dst_offset)
                   (data args) src_offset sz))))))"

definition GetDstDataAfterTrans_FracZToHwcn ::
  "platform \<Rightarrow> TransArgs \<Rightarrow> TransResult \<Rightarrow> int \<Rightarrow> int \<Rightarrow> TransResult res"
where
  "GetDstDataAfterTrans_FracZToHwcn pf args result sz total_size =
     alloc_dst pf total_size (\<lambda>dst.
       at (src_shape args) kFracZN0 (\<lambda>n0. at (src_shape args) kFracZNi (\<lambda>ni.
       at (src_shape args) kFracZC0 (\<lambda>c0. at (dst_shape args) kHwcnH (\<lambda>h.
       at (dst_shape args) kHwcnW (\<lambda>w. at (dst_shape args) kHwcnC (\<lambda>c. at (dst_shape args) kHwcnN (\<lambda>n.
       and_then (CopyFracZToHwcn pf args sz total_size n0 ni c0 h w c n dst) (set_result result total_size)))))))))"

definition TransFormatFracZHwcn :: "platform \<Rightarrow> TransArgs \<Rightarrow> TransResult \<Rightarrow> TransResult res" where
  "TransFormatFracZHwcn pf args result =
     and_then (on_error PARAM_INVALID (CheckArgsForFracZToHwcn pf args)) (\<lambda>_.
       let sz = GetSizeByDataType pf (src_data_type args);
           total_size = i64 (GetItemNumByShape (dst_shape args) * sz)
       in checked_trans args total_size result (GetDstDataAfterTrans_FracZToHwcn pf args result sz total_size))"

definition TransShapeFracZHwcn ::
  "platform \<Rightarrow> Format \<Rightarrow> int list \<Rightarrow> DataType \<Rightarrow> Format \<Rightarrow> int list res" where
  "TransShapeFracZHwcn pf s_format s_shape data_type d_format = Inl (Ret ACL_ERROR_GE_TRANSSHAPE_FORMAT_INVALID)"

definition CheckArgsForFracZToNhwc :: "platform \<Rightarrow> TransArgs \<Rightarrow> unit res" where
  "CheckArgsForFracZToNhwc pf args =
     (if src_format args \<noteq> FORMAT_FRACTAL_Z \<or> dst_format args \<noteq> FORMAT_NHWC then Inl (Ret UNSUPPORTED)
      else if \<not> CheckDataTypeSupported pf (src_data_type args) then Inl (Ret UNSUPPORTED)
      else if \<not> CheckShapeValid (src_shape args) kFracZDimsNum then Inl (Ret PARAM_INVALID)
      else if \<not> CheckShapeValid (dst_shape args) kNhwcDimsNum then Inl (Ret PARAM_INVALID)
      else
        let c0 = GetCubeSizeByDataType pf (src_data_type args) in
        if c0 < 0 then Inl (Ret PARAM_INVALID)
        else
          at (dst_shape args) kNhwcC (\<lambda>dc. at (dst_shape args) kNhwcN (\<lambda>dn.
          at (src_shape args) kFracZHWC1 (\<lambda>shwc1. at (dst_shape args) kNhwcH (\<lambda>dh.
          at (dst_shape args) kNhwcW (\<lambda>dw. at (src_shape args) kFracZC0 (\<lambda>sc0.
          at (src_shape args) kFracZNi (\<lambda>sni. at (src_shape args) kFracZN0 (\<lambda>sn0.
          let c1 = Ceil dc c0;
              n0 = Ceil dn kNiSize
          in if shwc1 \<noteq> i64 (dh * dw * c1) \<or> sc0 \<noteq> c0 \<or> sni \<noteq> kNiSize \<or> sn0 \<noteq> n0
             then Inl (Ret PARAM_INVALID) else Inr ())))))))))"

definition CopyFracZToNhwc ::
  "platform \<Rightarrow> TransArgs \<Rightarrow> int \<Rightarrow> int \<Rightarrow> int \<Rightarrow> int \<Rightarrow> int \<Rightarrow> int \<Rightarrow> int \<Rightarrow> int \<Rightarrow> int \<Rightarrow> mem option \<Rightarrow> mem option res"
where
  "CopyFracZToNhwc pf args sz total_size n0 ni c0 h w c n =
     (let nc = i64 (ni * n0);
          ncc0 = i64 (nc * c0);
          wncc0 = i64 (w * ncc0);
          hwncc0 = i64 (h * wncc0);
          wc = i64 (w * c);
          hwc = i64 (h * wc)
      in for_lt n (\<lambda>n_idx.
        let n_head_addr = i64 (n_idx * hwc)
        in for_lt h (\<lambda>h_idx.
          let h_head_addr = i64 (n_head_addr + h_idx * wc)
          in for_lt w (\<lambda>w_idx.
            let w_head_addr = i64 (h_head_addr + w_idx * c)
            in for_lt c (\<lambda>c_idx dst.
              let dst_idx = i64 (w_head_addr + c_idx);
                  c1_idx = c_idx sdiv c0;
                  c0_idx = c_idx smod c0;
                  nc_idx = n_idx;
                  src_idx = i64 (c1_idx * hwncc0 + h_idx * wncc0 + w_idx * ncc0 + nc_idx * c0 + c0_idx);
                  src_offset = i64 (src_idx * sz);
                  dst_offset = i64 (dst_idx * sz)
              in check_eok (memcpy_s pf dst dst_offset (protected_size pf total_size dst_offset)
                   (data args) src_offset sz))))))"

definition GetDstDataAfterTrans_FracZToNhwc ::
  "platform \<Rightarrow> TransArgs \<Rightarrow> TransResult \<Rightarrow> int \<Rightarrow> int \<Rightarrow> TransResult res"
where
  "GetDstDataAfterTrans_FracZToNhwc pf args result sz total_size =
     alloc_dst pf total_size (\<lambda>dst.
       at (src_shape args) kFracZN0 (\<lambda>n0. at (src_shape args) kFracZNi (\<lambda>ni.
       at (src_shape args) kFracZC0 (\<lambda>c0. at (dst_shape args) kNhwcH (\<lambda>h.
       at (dst_shape args) kNhwcW (\<lambda>w. at (dst_shape args) kNhwcC (\<lambda>c. at (dst_shape args) kNhwcN (\<lambda>n.
       and_then (CopyFracZToNhwc pf args sz total_size n0 ni c0 h w c n dst) (set_result result total_size)))))))))"

definition TransFormatFracZNhwc :: "platform \<Rightarrow> TransArgs \<Rightarrow> TransResult \<Rightarrow> TransResult res" where
  "TransFormatFracZNhwc pf args result =
     and_then (on_error PARAM_INVALID (CheckArgsForFracZToNhwc pf args)) (\<lambda>_.
       let sz = GetSizeByDataType pf (src_data_type args);
           total_size = i64 (GetItemNumByShape (dst_shape args) * sz)
       in checked_trans args total_size result (GetDstDataAfterTrans_FracZToNhwc pf args result sz total_size))"

definition TransShapeFracZNhwc ::
  "platform \<Rightarrow> Format \<Rightarrow> int list \<Rightarrow> DataType \<Rightarrow> Format \<Rightarrow> int list res" where
  "TransShapeFracZNhwc pf s_format s_shape data_type d_format = Inl (Ret UNSUPPORTED)"

section \<open>The layout maps\<close>

text \<open>
  Element \<open>[v, no, ni, k]\<close> of a FRACTAL\_Z tensor belongs to batch entry \<open>no * 16 + ni\<close>, channel
  \<open>v div (h * w) * c0 + k\<close> and image position \<open>v mod (h * w)\<close>.
\<close>

definition fz_source :: "int \<Rightarrow> int \<Rightarrow> int \<Rightarrow> int \<Rightarrow> int \<Rightarrow> (int \<Rightarrow> int \<Rightarrow> int \<Rightarrow> int \<Rightarrow> int list) \<Rightarrow> int list \<Rightarrow>
    int list option" where
  "fz_source n c h w c0 mk idx = (case idx of
     [v, no, ni, k] \<Rightarrow>
       (let ni' = no * 16 + ni; ci = v div (h * w) * c0 + k; x = v mod (h * w)
        in if ni' < n \<and> ci < c then Some (mk ni' ci (x div w) (x mod w)) else None)
   | _ \<Rightarrow> None)"

definition fz_position :: "int \<Rightarrow> int \<Rightarrow> int \<Rightarrow> int \<Rightarrow> int \<Rightarrow> int \<Rightarrow> int \<Rightarrow> int list" where
  "fz_position h w c0 ni ci hi wi = [ci div c0 * (h * w) + (hi * w + wi), ni div 16, ni mod 16, ci mod c0]"

definition nchw_of_fz :: layout_map where
  "nchw_of_fz src dst = fz_source (src ! 0) (src ! 1) (src ! 2) (src ! 3) (dst ! 3) (\<lambda>n c h w. [n, c, h, w])"

definition hwcn_of_fz :: layout_map where
  "hwcn_of_fz src dst = fz_source (src ! 3) (src ! 2) (src ! 0) (src ! 1) (dst ! 3) (\<lambda>n c h w. [h, w, c, n])"

definition nhwc_of_fz :: layout_map where
  "nhwc_of_fz src dst = fz_source (src ! 0) (src ! 3) (src ! 1) (src ! 2) (dst ! 3) (\<lambda>n c h w. [n, h, w, c])"

definition fz_of_nchw :: layout_map where
  "fz_of_nchw src dst idx = (case idx of
     [n, c, h, w] \<Rightarrow> Some (fz_position (dst ! 2) (dst ! 3) (src ! 3) n c h w) | _ \<Rightarrow> None)"

definition fz_of_hwcn :: layout_map where
  "fz_of_hwcn src dst idx = (case idx of
     [h, w, c, n] \<Rightarrow> Some (fz_position (dst ! 0) (dst ! 1) (src ! 3) n c h w) | _ \<Rightarrow> None)"

definition fz_of_nhwc :: layout_map where
  "fz_of_nhwc src dst idx = (case idx of
     [n, h, w, c] \<Rightarrow> Some (fz_position (dst ! 1) (dst ! 2) (src ! 3) n c h w) | _ \<Rightarrow> None)"

lemmas fz_maps = nchw_of_fz_def hwcn_of_fz_def nhwc_of_fz_def fz_of_nchw_def fz_of_hwcn_def fz_of_nhwc_def

section \<open>Dimensions of a FRACTAL\_Z shape\<close>

text \<open>
  When a tensor is not empty all its dimensions are positive, the leading dimension \<open>h * w * c1\<close> does
  not wrap around, and the destination is not empty either.
\<close>

lemma fz_dims:
  assumes good: "good_shape src" and "set src = {n, c, h, w}" "prod_list src = n * c * h * w"
    and "0 < c0" "c0 \<le> 32" "dst = [i64 (h * w * Ceil c c0), Ceil n 16, 16, c0]"
    and ne: "prod_list src \<noteq> 0 \<or> prod_list dst \<noteq> 0"
  shows "0 < n" "0 < c" "0 < h" "0 < w" "c < 2 ^ 63 - c0" "n < 2 ^ 63 - 16"
    "i64 (h * w * Ceil c c0) = Ceil c c0 * (h * w)" "prod_list src \<noteq> 0" "prod_list dst \<noteq> 0"
proof -
  have nn: "0 \<le> n" "0 \<le> c" "0 \<le> h" "0 \<le> w" using good assms(2) by (auto simp: good_shape_def)
  have z: "n \<noteq> 0" "c \<noteq> 0" "h \<noteq> 0" "w \<noteq> 0" using ne assms(3,6) by (auto simp: Ceil_def)
  then show src: "prod_list src \<noteq> 0" using assms(3) by simp
  show pos: "0 < n" "0 < c" "0 < h" "0 < w" using nn z by simp_all
  have le: "c \<le> 2 ^ 40" "n \<le> 2 ^ 40" using good_shape_dim [OF good src] assms(2) by simp_all
  then show "c < 2 ^ 63 - c0" "n < 2 ^ 63 - 16" using assms(5) by simp_all
  have cb: "0 < Ceil c c0" "Ceil c c0 \<le> c" "0 < Ceil n 16"
    using Ceil_bounds [of c c0] Ceil_bounds [of n 16] pos le assms(4) by simp_all
  have "Ceil c c0 * (h * w) \<le> c * (h * w)" using cb pos by (intro mult_right_mono) simp_all
  also have "\<dots> \<le> n * (c * (h * w))" using mult_right_mono [of 1 n "c * (h * w)"] pos by simp
  also have "\<dots> \<le> 2 ^ 40" using good_shape_prod [OF good] assms(3) by (simp add: shape_max_pow mult.assoc)
  finally have "Ceil c c0 * (h * w) < 2 ^ 63" by simp
  moreover have p: "0 < Ceil c c0 * (h * w)" using cb pos by simp
  ultimately show e: "i64 (h * w * Ceil c c0) = Ceil c c0 * (h * w)" by (simp add: mult.commute)
  show "prod_list dst \<noteq> 0" using cb pos assms(4) by (simp add: assms(6) e)
qed

text \<open>Evaluating the maps at an index written as the loops count it.\<close>

lemma hw_position:
  fixes q a b h w :: int
  assumes "0 \<le> a" "a < h" "0 \<le> b" "b < w"
  shows "0 \<le> a * w + b" "a * w + b < h * w" "(q * (h * w) + (a * w + b)) div (h * w) = q"
    "(q * (h * w) + (a * w + b)) mod (h * w) = a * w + b" "(a * w + b) div w = a" "(a * w + b) mod w = b"
proof -
  show b: "0 \<le> a * w + b" "a * w + b < h * w" using block_bound [of a h b w] assms by simp_all
  show "(q * (h * w) + (a * w + b)) div (h * w) = q" "(q * (h * w) + (a * w + b)) mod (h * w) = a * w + b"
    using block_div_mod [OF b, of q] by simp_all
  show "(a * w + b) div w = a" "(a * w + b) mod w = b" using block_div_mod [of b w a] assms by simp_all
qed

lemma fz_source_at:
  assumes "0 \<le> a" "a < h" "0 \<le> b" "b < w"
  shows "fz_source n c h w c0 mk [q * (h * w) + (a * w + b), no, ni, k] =
    (if no * 16 + ni < n \<and> q * c0 + k < c then Some (mk (no * 16 + ni) (q * c0 + k) a b) else None)"
  unfolding fz_source_def list.case Let_def hw_position(3,4) [OF assms] hw_position(5,6) [OF assms] ..

section \<open>The loops fill the destination\<close>

lemma CopyHwcnToFz_fills:
  assumes ok: "platform_ok pf sz" and dims: "0 < n" "0 < c" "0 < h" "0 < w" "0 < c0"
    "c < 2 ^ 63 - c0" "n < 2 ^ 63 - 16"
    and dst: "dst = [Ceil c c0 * (h * w), Ceil n 16, 16, c0]" and src: "src = [h, w, c, n]"
    and N: "prod_list dst * sz < 2 ^ 63" "prod_list src * sz < 2 ^ 63"
    and s: "data args = Some s" "int (length s) = prod_list src * sz"
  shows "fills sz (prod_list dst) (\<lambda>x. gather_elem sz src (hwcn_of_fz src dst) s (unflat dst x))
    {0..<prod_list dst} (CopyHwcnToFz pf args sz (prod_list dst * sz) h w c n c0)"
proof -
  have cb: "0 \<le> Ceil c c0" "Ceil c c0 * c0 < c + c0" "0 \<le> Ceil n 16" "Ceil n 16 * 16 < n + 16"
    using Ceil_bounds [of c c0] Ceil_bounds [of n 16] dims by simp_all
  have n1n0: "i64 (Ceil n kNiSize * kNiSize) = Ceil n 16 * 16" using cb dims by (simp add: kNiSize_def)
  have nn: "0 \<le> n" "0 \<le> h" "0 \<le> w" "0 \<le> c0" using dims by simp_all
  have P: "prod_list dst = 0 + Ceil c c0 * (h * (w * ((Ceil n 16 * 16) * c0)))" by (simp add: dst)
  show ?thesis
    unfolding CopyHwcnToFz_def Let_def n1n0 s(1)
    apply (subst (2) P)
    apply (rule fills_for_blocks, simp add: nn cb, simp add: nn cb)+
    apply (rule fills_for_elems, simp add: nn cb)
    subgoal premises ix for q a b n1n0i k
    proof -
      obtain no ni where ni: "n1n0i = no * 16 + ni" "0 \<le> no" "no < Ceil n 16" "0 \<le> ni" "ni < 16"
        using block_split [of n1n0i "Ceil n 16" 16] ix by auto
      have ci: "i64 (q * c0 + k) = q * c0 + k"
        using block_bound [of q "Ceil c c0" k c0] ix cb dims by simp
      have v: "0 \<le> q * (h * w) + (a * w + b)" "q * (h * w) + (a * w + b) < Ceil c c0 * (h * w)"
        using block_bound [of q "Ceil c c0" "a * w + b" "h * w"] hw_position(1,2) [of a h b w] ix by simp_all
      have m: "hwcn_of_fz src dst [q * (h * w) + (a * w + b), no, ni, k] =
          (if n1n0i < n \<and> q * c0 + k < c then Some [a, b, q * c0 + k, n1n0i] else None)"
        using fz_source_at [of a h b w] ix by (simp add: hwcn_of_fz_def src dst ni(1))
      have pad: "c \<le> q * c0 + k \<or> n \<le> n1n0i \<Longrightarrow> hwcn_of_fz src dst [q * (h * w) + (a * w + b), no, ni, k] = None"
        and cp: "\<not> (c \<le> q * c0 + k \<or> n \<le> n1n0i) \<Longrightarrow>
          hwcn_of_fz src dst [q * (h * w) + (a * w + b), no, ni, k] = Some [a, b, q * c0 + k, n1n0i]"
        unfolding m by auto
      show ?thesis
        unfolding ci
        by (rule fills_if;
            rule fills_bytecopy_at [OF ok N s(2) refl, where idx = "[q * (h * w) + (a * w + b), no, ni, k]"
              and j = "[a, b, q * c0 + k, n1n0i]"]
            fills_zero_at [OF ok N(1) refl, where idx = "[q * (h * w) + (a * w + b), no, ni, k]"];
            ((rule wrap_eq_intros)+)?; (rule pad cp, assumption)?; use ix ni v in \<open>simp add: src dst algebra_simps not_le\<close>)
    qed
    done
qed

lemma CopyNhwcToFz_fills:
  assumes ok: "platform_ok pf sz" and dims: "0 < n" "0 < c" "0 < h" "0 < w" "0 < c0"
    "c < 2 ^ 63 - c0" "n < 2 ^ 63 - 16"
    and dst: "dst = [Ceil c c0 * (h * w), Ceil n 16, 16, c0]" and src: "src = [n, h, w, c]"
    and N: "prod_list dst * sz < 2 ^ 63" "prod_list src * sz < 2 ^ 63"
    and s: "data args = Some s" "int (length s) = prod_list src * sz"
  shows "fills sz (prod_list dst) (\<lambda>x. gather_elem sz src (nhwc_of_fz src dst) s (unflat dst x))
    {0..<prod_list dst} (CopyNhwcToFz pf args sz (prod_list dst * sz) n h w c c0)"
proof -
  have cb: "0 \<le> Ceil c c0" "Ceil c c0 * c0 < c + c0" "0 \<le> Ceil n 16" "Ceil n 16 * 16 < n + 16"
    using Ceil_bounds [of c c0] Ceil_bounds [of n 16] dims by simp_all
  have n1n0: "i64 (Ceil n kNiSize * kNiSize) = Ceil n 16 * 16" using cb dims by (simp add: kNiSize_def)
  have nn: "0 \<le> n" "0 \<le> h" "0 \<le> w" "0 \<le> c0" using dims by simp_all
  have P: "prod_list dst = 0 + Ceil c c0 * (h * (w * ((Ceil n 16 * 16) * c0)))" by (simp add: dst)
  show ?thesis
    unfolding CopyNhwcToFz_def Let_def n1n0 s(1)
    apply (subst (2) P)
    apply (rule fills_for_blocks, simp add: nn cb, simp add: nn cb)+
    apply (rule fills_for_elems, simp add: nn cb)
    subgoal premises ix for q a b n1n0i k
    proof -
      obtain no ni where ni: "n1n0i = no * 16 + ni" "0 \<le> no" "no < Ceil n 16" "0 \<le> ni" "ni < 16"
        using block_split [of n1n0i "Ceil n 16" 16] ix by auto
      have ci: "i64 (q * c0 + k) = q * c0 + k"
        using block_bound [of q "Ceil c c0" k c0] ix cb dims by simp
      have v: "0 \<le> q * (h * w) + (a * w + b)" "q * (h * w) + (a * w + b) < Ceil c c0 * (h * w)"
        using block_bound [of q "Ceil c c0" "a * w + b" "h * w"] hw_position(1,2) [of a h b w] ix by simp_all
      have m: "nhwc_of_fz src dst [q * (h * w) + (a * w + b), no, ni, k] =
          (if n1n0i < n \<and> q * c0 + k < c then Some [n1n0i, a, b, q * c0 + k] else None)"
        using fz_source_at [of a h b w] ix by (simp add: nhwc_of_fz_def src dst ni(1))
      have pad: "c \<le> q * c0 + k \<or> n \<le> n1n0i \<Longrightarrow> nhwc_of_fz src dst [q * (h * w) + (a * w + b), no, ni, k] = None"
        and cp: "\<not> (c \<le> q * c0 + k \<or> n \<le> n1n0i) \<Longrightarrow>
          nhwc_of_fz src dst [q * (h * w) + (a * w + b), no, ni, k] = Some [n1n0i, a, b, q * c0 + k]"
        unfolding m by auto
      show ?thesis
        unfolding ci
        by (rule fills_if;
            rule fills_bytecopy_at [OF ok N s(2) refl, where idx = "[q * (h * w) + (a * w + b), no, ni, k]"
              and j = "[n1n0i, a, b, q * c0 + k]"]
            fills_zero_at [OF ok N(1) refl, where idx = "[q * (h * w) + (a * w + b), no, ni, k]"];
            ((rule wrap_eq_intros)+)?; (rule pad cp, assumption)?; use ix ni v in \<open>simp add: src dst algebra_simps not_le\<close>)
    qed
    done
qed

lemma CopyNchwToFz_fills:
  assumes ok: "platform_ok pf sz" and dims: "0 < n" "0 < c" "0 < h" "0 < w" "0 < c0"
    "c < 2 ^ 63 - c0" "n < 2 ^ 63 - 16"
    and dst: "dst = [Ceil c c0 * (h * w), Ceil n 16, 16, c0]" and src: "src = [n, c, h, w]"
    and N: "prod_list dst * sz < 2 ^ 63" "prod_list src * sz < 2 ^ 63"
    and vf: "Ceil c c0 * (h * w) < 2 ^ 63" and nchw: "n * (c * (h * w)) < 2 ^ 63"
    and s: "data args = Some s" "int (length s) = prod_list src * sz"
  shows "fills sz (prod_list dst) (\<lambda>x. gather_elem sz src (nchw_of_fz src dst) s (unflat dst x))
    {0..<prod_list dst} (CopyNchwToFz pf args sz (prod_list dst * sz) n c h w c0)"
proof -
  have cb: "0 < Ceil c c0" "Ceil c c0 * c0 < c + c0" "0 \<le> Ceil n 16" "Ceil n 16 * 16 < n + 16"
    using Ceil_bounds [of c c0] Ceil_bounds [of n 16] dims by simp_all
  have hw: "0 < h * w" using dims by simp
  have "h * w \<le> Ceil c c0 * (h * w)" using mult_right_mono [of 1 "Ceil c c0" "h * w"] cb hw by simp
  then have hw': "i64 (h * w) = h * w" using vf hw by simp
  have vfc: "i64 (Ceil c c0 * (h * w)) = Ceil c c0 * (h * w)" using vf cb hw by simp
  have tot: "i64 (n * i64 (c * (h * w))) = n * (c * (h * w))"
    using nchw dims hw by (intro i64_eqI) (rule wrap_eq_intros refl | simp)+
  have nn: "0 \<le> c0" "0 \<le> h * w" "0 \<le> Ceil c c0 * (h * w)" "0 \<le> Ceil n 16" using dims hw cb by simp_all
  have P: "prod_list dst = 0 + Ceil c c0 * (h * w) * (Ceil n 16 * (16 * c0))" by (simp add: dst)
  show ?thesis
    unfolding CopyNchwToFz_def Let_def hw' vfc tot s(1) kNiSize_def
    apply (subst (2) P)
    apply (rule fills_for_blocks, simp add: nn, simp add: nn)+
    apply (rule fills_for_transposed, simp, simp add: nn)
    subgoal premises ix for v no k ni
    proof -
      obtain q x where q: "v = q * (h * w) + x" "0 \<le> q" "q < Ceil c c0" "0 \<le> x" "x < h * w"
        using block_split [of v "Ceil c c0" "h * w"] ix hw by auto
      obtain a b where x: "x = a * w + b" "0 \<le> a" "a < h" "0 \<le> b" "b < w"
        using block_split [of x h w] q dims by auto
      have dm: "v sdiv (h * w) = q" "v smod (h * w) = a * w + b"
        using hw_position(3,4) [of a h b w q] x q ix hw by simp_all
      have ci: "i64 (q * c0 + k) = q * c0 + k" "i64 (no * 16 + ni) = no * 16 + ni"
        using block_bound [of q "Ceil c c0" k c0] block_bound [of no "Ceil n 16" ni 16] q ix cb dims by simp_all
      let ?j = "[no * 16 + ni, q * c0 + k, a, b]"
      let ?off = "i64 (i64 (i64 (i64 (no * i64 (c * (h * w)) * 16) + (a * w + b) + q * i64 (h * w * c0))
        + k * (h * w)) + i64 (c * (h * w)) * ni)"
      have off: "?off = flat src ?j" if "no * 16 + ni < n" "q * c0 + k < c"
      proof -
        have vj: "valid_index src ?j" using that ix q x by (simp add: src)
        have lt: "flat src ?j < 2 ^ 63" using flat_bounds [OF vj] nchw by (simp add: src)
        show ?thesis
          by (rule i64_eqI, (rule wrap_eq_intros)+)
            (use flat_bounds [OF vj] lt in \<open>simp_all add: src algebra_simps\<close>)
      qed
      have cond: "(no * 16 + ni \<ge> n \<or> ?off \<ge> n * (c * (h * w)) \<or> q * c0 + k \<ge> c)
          \<longleftrightarrow> \<not> (no * 16 + ni < n \<and> q * c0 + k < c)"
      proof (cases "no * 16 + ni < n \<and> q * c0 + k < c")
        case True
        then have "valid_index src ?j" using ix q x by (simp add: src)
        then have "flat src ?j < n * (c * (h * w))" using flat_bounds [of src ?j] by (simp add: src)
        with True off show ?thesis by auto
      qed auto
      have m: "nchw_of_fz src dst [v, no, ni, k] =
          (if no * 16 + ni < n \<and> q * c0 + k < c then Some ?j else None)"
        using fz_source_at [of a h b w n c c0 _ q no ni k] x by (simp add: nchw_of_fz_def src dst q(1) x(1))
      have pad: "\<not> (no * 16 + ni < n \<and> q * c0 + k < c) \<Longrightarrow> nchw_of_fz src dst [v, no, ni, k] = None"
        and cp: "\<not> \<not> (no * 16 + ni < n \<and> q * c0 + k < c) \<Longrightarrow> nchw_of_fz src dst [v, no, ni, k] = Some ?j"
        unfolding m by auto
      show ?thesis
        unfolding dm ci cond
        by (rule fills_if;
            rule fills_bytecopy_at [OF ok N s(2) refl, where idx = "[v, no, ni, k]" and j = ?j]
            fills_zero_at [OF ok N(1) refl, where idx = "[v, no, ni, k]"];
            ((rule wrap_eq_intros)+)?; (rule pad cp, assumption)?; use ix q x in \<open>simp add: src dst algebra_simps\<close>)
    qed
    done
qed

lemma CopyFracZToNchw_fills:
  assumes ok: "platform_ok pf sz" and dims: "0 < n" "0 < c" "0 < h" "0 < w" "0 < c0"
    "c < 2 ^ 63 - c0" "n < 2 ^ 63 - 16"
    and src: "src = [Ceil c c0 * (h * w), Ceil n 16, 16, c0]" and dst: "dst = [n, c, h, w]"
    and N: "prod_list dst * sz < 2 ^ 63" "prod_list src * sz < 2 ^ 63"
    and s: "data args = Some s" "int (length s) = prod_list src * sz"
  shows "fills sz (prod_list dst) (\<lambda>x. gather_elem sz src (fz_of_nchw src dst) s (unflat dst x))
    {0..<prod_list dst} (CopyFracZToNchw pf args sz (prod_list dst * sz) (Ceil n 16) 16 c0 h w c n)"
proof -
  have nn: "0 \<le> n" "0 \<le> h" "0 \<le> w" "0 \<le> c" using dims by simp_all
  have P: "prod_list dst = 0 + n * (c * (h * w))" by (simp add: dst)
  show ?thesis
    unfolding CopyFracZToNchw_def Let_def s(1)
    apply (subst (2) P)
    apply (rule fills_for_blocks, simp add: nn, simp add: nn)+
    apply (rule fills_for_elems, simp add: nn)
    subgoal premises ix for ni ci hi wi
    proof -
      have lt: "ci < Ceil c c0 * c0" "ni < Ceil n 16 * 16"
        using Ceil_bounds [of c c0] Ceil_bounds [of n 16] ix dims by simp_all
      obtain q k where q: "ci = q * c0 + k" "0 \<le> q" "q < Ceil c c0" "0 \<le> k" "k < c0"
        using block_split [of ci "Ceil c c0" c0] ix lt dims by auto
      obtain no n0 where no: "ni = no * 16 + n0" "0 \<le> no" "no < Ceil n 16" "0 \<le> n0" "n0 < 16"
        using block_split [of ni "Ceil n 16" 16] ix lt by auto
      have dm: "ci sdiv c0 = q" "ci smod c0 = k" using block_div_mod [of k c0 q] q ix dims by simp_all
      have v: "0 \<le> q * (h * w) + (hi * w + wi)" "q * (h * w) + (hi * w + wi) < Ceil c c0 * (h * w)"
        using block_bound [of q "Ceil c c0" "hi * w + wi" "h * w"] hw_position(1,2) [of hi h wi w] q ix by simp_all
      let ?j = "[q * (h * w) + (hi * w + wi), no, n0, k]"
      have m: "fz_of_nchw src dst [ni, ci, hi, wi] = Some ?j"
        using block_div_mod [of k c0 q] block_div_mod [of n0 16 no] q no
        by (simp add: fz_of_nchw_def fz_position_def src dst)
      show ?thesis
        unfolding dm
        by (rule fills_copy_at [OF ok N s(2) refl, where idx = "[ni, ci, hi, wi]" and j = ?j];
            ((rule wrap_eq_intros)+)?; (rule m)?; use ix q no v in \<open>simp add: src dst algebra_simps\<close>)
    qed
    done
qed

lemma CopyFracZToHwcn_fills:
  assumes ok: "platform_ok pf sz" and dims: "0 < n" "0 < c" "0 < h" "0 < w" "0 < c0"
    "c < 2 ^ 63 - c0" "n < 2 ^ 63 - 16"
    and src: "src = [Ceil c c0 * (h * w), Ceil n 16, 16, c0]" and dst: "dst = [h, w, c, n]"
    and N: "prod_list dst * sz < 2 ^ 63" "prod_list src * sz < 2 ^ 63"
    and s: "data args = Some s" "int (length s) = prod_list src * sz"
  shows "fills sz (prod_list dst) (\<lambda>x. gather_elem sz src (fz_of_hwcn src dst) s (unflat dst x))
    {0..<prod_list dst} (CopyFracZToHwcn pf args sz (prod_list dst * sz) (Ceil n 16) 16 c0 h w c n)"
proof -
  have nn: "0 \<le> n" "0 \<le> h" "0 \<le> w" "0 \<le> c" using dims by simp_all
  have P: "prod_list dst = 0 + h * (w * (c * n))" by (simp add: dst)
  show ?thesis
    unfolding CopyFracZToHwcn_def Let_def s(1)
    apply (subst (2) P)
    apply (rule fills_for_blocks, simp add: nn, simp add: nn)+
    apply (rule fills_for_elems, simp add: nn)
    subgoal premises ix for hi wi ci ni
    proof -
      have lt: "ci < Ceil c c0 * c0" "ni < Ceil n 16 * 16"
        using Ceil_bounds [of c c0] Ceil_bounds [of n 16] ix dims by simp_all
      obtain q k where q: "ci = q * c0 + k" "0 \<le> q" "q < Ceil c c0" "0 \<le> k" "k < c0"
        using block_split [of ci "Ceil c c0" c0] ix lt dims by auto
      obtain no n0 where no: "ni = no * 16 + n0" "0 \<le> no" "no < Ceil n 16" "0 \<le> n0" "n0 < 16"
        using block_split [of ni "Ceil n 16" 16] ix lt by auto
      have dm: "ci sdiv c0 = q" "ci smod c0 = k" using block_div_mod [of k c0 q] q ix dims by simp_all
      have v: "0 \<le> q * (h * w) + (hi * w + wi)" "q * (h * w) + (hi * w + wi) < Ceil c c0 * (h * w)"
        using block_bound [of q "Ceil c c0" "hi * w + wi" "h * w"] hw_position(1,2) [of hi h wi w] q ix by simp_all
      let ?j = "[q * (h * w) + (hi * w + wi), no, n0, k]"
      have m: "fz_of_hwcn src dst [hi, wi, ci, ni] = Some ?j"
        using block_div_mod [of k c0 q] block_div_mod [of n0 16 no] q no
        by (simp add: fz_of_hwcn_def fz_position_def src dst)
      show ?thesis
        unfolding dm
        by (rule fills_copy_at [OF ok N s(2) refl, where idx = "[hi, wi, ci, ni]" and j = ?j];
            ((rule wrap_eq_intros)+)?; (rule m)?; use ix q no v in \<open>simp add: src dst algebra_simps\<close>)
    qed
    done
qed

lemma CopyFracZToNhwc_fills:
  assumes ok: "platform_ok pf sz" and dims: "0 < n" "0 < c" "0 < h" "0 < w" "0 < c0"
    "c < 2 ^ 63 - c0" "n < 2 ^ 63 - 16"
    and src: "src = [Ceil c c0 * (h * w), Ceil n 16, 16, c0]" and dst: "dst = [n, h, w, c]"
    and N: "prod_list dst * sz < 2 ^ 63" "prod_list src * sz < 2 ^ 63"
    and s: "data args = Some s" "int (length s) = prod_list src * sz"
  shows "fills sz (prod_list dst) (\<lambda>x. gather_elem sz src (fz_of_nhwc src dst) s (unflat dst x))
    {0..<prod_list dst} (CopyFracZToNhwc pf args sz (prod_list dst * sz) (Ceil n 16) 16 c0 h w c n)"
proof -
  have nn: "0 \<le> n" "0 \<le> h" "0 \<le> w" "0 \<le> c" using dims by simp_all
  have P: "prod_list dst = 0 + n * (h * (w * c))" by (simp add: dst)
  show ?thesis
    unfolding CopyFracZToNhwc_def Let_def s(1)
    apply (subst (2) P)
    apply (rule fills_for_blocks, simp add: nn, simp add: nn)+
    apply (rule fills_for_elems, simp add: nn)
    subgoal premises ix for ni hi wi ci
    proof -
      have lt: "ci < Ceil c c0 * c0" "ni < Ceil n 16 * 16"
        using Ceil_bounds [of c c0] Ceil_bounds [of n 16] ix dims by simp_all
      obtain q k where q: "ci = q * c0 + k" "0 \<le> q" "q < Ceil c c0" "0 \<le> k" "k < c0"
        using block_split [of ci "Ceil c c0" c0] ix lt dims by auto
      obtain no n0 where no: "ni = no * 16 + n0" "0 \<le> no" "no < Ceil n 16" "0 \<le> n0" "n0 < 16"
        using block_split [of ni "Ceil n 16" 16] ix lt by auto
      have dm: "ci sdiv c0 = q" "ci smod c0 = k" using block_div_mod [of k c0 q] q ix dims by simp_all
      have v: "0 \<le> q * (h * w) + (hi * w + wi)" "q * (h * w) + (hi * w + wi) < Ceil c c0 * (h * w)"
        using block_bound [of q "Ceil c c0" "hi * w + wi" "h * w"] hw_position(1,2) [of hi h wi w] q ix by simp_all
      let ?j = "[q * (h * w) + (hi * w + wi), no, n0, k]"
      have m: "fz_of_nhwc src dst [ni, hi, wi, ci] = Some ?j"
        using block_div_mod [of k c0 q] block_div_mod [of n0 16 no] q no
        by (simp add: fz_of_nhwc_def fz_position_def src dst)
      show ?thesis
        unfolding dm
        by (rule fills_copy_at [OF ok N s(2) refl, where idx = "[ni, hi, wi, ci]" and j = ?j];
            ((rule wrap_eq_intros)+)?; (rule m)?; use ix q no v in \<open>simp add: src dst algebra_simps\<close>)
    qed
    done
qed

section \<open>What the argument checks accept\<close>

text \<open>
  The arguments on which the forward transfer is specified: the destination shape is the one that
  \<open>TransShape\<close> derives. The code also accepts an empty destination shape, \<open>fz_takes\<close>: the NCHW branch ignores the
  destination shape, while the HWCN and NHWC branches size their buffer by it.
\<close>

definition fz_accepted :: "Format \<Rightarrow> platform \<Rightarrow> TransArgs \<Rightarrow> bool" where
  "fz_accepted fmt pf args \<longleftrightarrow> src_format args = fmt \<and> dst_format args = FORMAT_FRACTAL_Z \<and>
     TransShapeFractalZ pf fmt (src_shape args) (src_data_type args) FORMAT_FRACTAL_Z = Inr (dst_shape args)"

definition fz_takes :: "Format \<Rightarrow> platform \<Rightarrow> TransArgs \<Rightarrow> int list \<Rightarrow> bool" where
  "fz_takes fmt pf args dst \<longleftrightarrow> src_format args = fmt \<and> dst_format args = FORMAT_FRACTAL_Z \<and>
     TransShapeFractalZ pf fmt (src_shape args) (src_data_type args) FORMAT_FRACTAL_Z = Inr dst \<and> IsTransShapeDstCorrect args dst"

lemma TransShapeToFz_Inr:
  "TransShapeToFz pf n c h w t = Inr dst \<longleftrightarrow> 0 \<le> GetCubeSizeByDataType pf t \<and>
     dst = [i64 (h * w * Ceil c (GetCubeSizeByDataType pf t)), Ceil n 16, 16, GetCubeSizeByDataType pf t] \<and>
     IsShapeValid dst"
  by (auto simp: TransShapeToFz_def Let_def kNiSize_def)

lemmas fz_check_defs = TransShapeFractalZ_def CheckDataTypeSupport_def CheckShapeValid_iff length_4D
  TransShapeToFz_Inr TransShapeNchwToFz_def TransShapeHwcnToFz_def TransShapeNhwcToFz_def

lemma fz_accepted_NCHW:
  "fz_accepted FORMAT_NCHW pf args \<longleftrightarrow> src_format args = FORMAT_NCHW \<and> dst_format args = FORMAT_FRACTAL_Z \<and>
     0 < GetSizeByDataType pf (src_data_type args) \<and>
     (\<exists>n c h w c0. src_shape args = [n, c, h, w] \<and> c0 = GetCubeSizeByDataType pf (src_data_type args) \<and>
        dst_shape args = [i64 (h * w * Ceil c c0), Ceil n 16, 16, c0] \<and>
        IsShapeValid (src_shape args) \<and> IsShapeValid (dst_shape args))"
  using CubeSize_pos [of pf "src_data_type args"]
  by (auto simp: fz_accepted_def fz_check_defs split: if_splits)

lemma CheckArgsForFracZToNchw_Inr:
  "CheckArgsForFracZToNchw pf args = Inr u \<longleftrightarrow> src_format args = FORMAT_FRACTAL_Z \<and> dst_format args = FORMAT_NCHW \<and>
     0 < GetSizeByDataType pf (src_data_type args) \<and>
     (\<exists>n c h w c0. dst_shape args = [n, c, h, w] \<and> c0 = GetCubeSizeByDataType pf (src_data_type args) \<and>
        src_shape args = [i64 (h * w * Ceil c c0), Ceil n 16, 16, c0] \<and>
        IsShapeValid (src_shape args) \<and> IsShapeValid (dst_shape args))"
  using CubeSize_pos [of pf "src_data_type args"]
  by (auto simp: CheckArgsForFracZToNchw_def CheckDataTypeSupported_def CheckShapeValid_iff length_4D kNiSize_def
      Let_def split: if_splits)

lemma fz_accepted_HWCN:
  "fz_accepted FORMAT_HWCN pf args \<longleftrightarrow> src_format args = FORMAT_HWCN \<and> dst_format args = FORMAT_FRACTAL_Z \<and>
     0 < GetSizeByDataType pf (src_data_type args) \<and>
     (\<exists>n c h w c0. src_shape args = [h, w, c, n] \<and> c0 = GetCubeSizeByDataType pf (src_data_type args) \<and>
        dst_shape args = [i64 (h * w * Ceil c c0), Ceil n 16, 16, c0] \<and>
        IsShapeValid (src_shape args) \<and> IsShapeValid (dst_shape args))"
  using CubeSize_pos [of pf "src_data_type args"]
  by (auto simp: fz_accepted_def fz_check_defs split: if_splits)

lemma CheckArgsForFracZToHwcn_Inr:
  "CheckArgsForFracZToHwcn pf args = Inr u \<longleftrightarrow> src_format args = FORMAT_FRACTAL_Z \<and> dst_format args = FORMAT_HWCN \<and>
     0 < GetSizeByDataType pf (src_data_type args) \<and>
     (\<exists>n c h w c0. dst_shape args = [h, w, c, n] \<and> c0 = GetCubeSizeByDataType pf (src_data_type args) \<and>
        src_shape args = [i64 (h * w * Ceil c c0), Ceil n 16, 16, c0] \<and>
        IsShapeValid (src_shape args) \<and> IsShapeValid (dst_shape args))"
  using CubeSize_pos [of pf "src_data_type args"]
  by (auto simp: CheckArgsForFracZToHwcn_def CheckDataTypeSupported_def CheckShapeValid_iff length_4D kNiSize_def
      Let_def split: if_splits)

lemma fz_accepted_NHWC:
  "fz_accepted FORMAT_NHWC pf args \<longleftrightarrow> src_format args = FORMAT_NHWC \<and> dst_format args = FORMAT_FRACTAL_Z \<and>
     0 < GetSizeByDataType pf (src_data_type args) \<and>
     (\<exists>n c h w c0. src_shape args = [n, h, w, c] \<and> c0 = GetCubeSizeByDataType pf (src_data_type args) \<and>
        dst_shape args = [i64 (h * w * Ceil c c0), Ceil n 16, 16, c0] \<and>
        IsShapeValid (src_shape args) \<and> IsShapeValid (dst_shape args))"
  using CubeSize_pos [of pf "src_data_type args"]
  by (auto simp: fz_accepted_def fz_check_defs split: if_splits)

lemma CheckArgsForFracZToNhwc_Inr:
  "CheckArgsForFracZToNhwc pf args = Inr u \<longleftrightarrow> src_format args = FORMAT_FRACTAL_Z \<and> dst_format args = FORMAT_NHWC \<and>
     0 < GetSizeByDataType pf (src_data_type args) \<and>
     (\<exists>n c h w c0. dst_shape args = [n, h, w, c] \<and> c0 = GetCubeSizeByDataType pf (src_data_type args) \<and>
        src_shape args = [i64 (h * w * Ceil c c0), Ceil n 16, 16, c0] \<and>
        IsShapeValid (src_shape args) \<and> IsShapeValid (dst_shape args))"
  using CubeSize_pos [of pf "src_data_type args"]
  by (auto simp: CheckArgsForFracZToNhwc_def CheckDataTypeSupported_def CheckShapeValid_iff length_4D kNiSize_def
      Let_def split: if_splits)

section \<open>The transfers meet their contract\<close>

lemma TransFormatFractalZ_NCHW_meets:
  assumes acc: "fz_accepted FORMAT_NCHW pf args" and sz: "sz = GetSizeByDataType pf (src_data_type args)"
    and ok: "platform_ok pf sz" and s: "holds_tensor sz (src_shape args) (data args) s"
  shows "transfer_spec pf OUT_OF_MEMORY sz (src_shape args) (dst_shape args)
    (nchw_of_fz (src_shape args) (dst_shape args)) s result (TransFormatFractalZ pf args result)"
proof -
  obtain n c h w c0 where src: "src_shape args = [n, c, h, w]" and c0: "0 < c0" "c0 \<le> 32"
    "c0 = GetCubeSizeByDataType pf (src_data_type args)"
    and dst: "dst_shape args = [i64 (h * w * Ceil c c0), Ceil n 16, 16, c0]"
    and good: "good_shape (src_shape args)" "good_shape (dst_shape args)"
    using acc by (auto simp: fz_accepted_NCHW CubeSize_le CubeSize_pos IsShapeValid_good)
  have sets: "set (src_shape args) = {n, c, h, w}" "prod_list (src_shape args) = n * c * h * w"
    by (auto simp: src)
  note dims = fz_dims [OF good(1) sets c0(1,2) dst]
  note bytes = good_shape_bytes [OF good(2) ok] good_shape_bytes [OF good(1) ok]
  have dst': "dst_shape args = [Ceil c c0 * (h * w), Ceil n 16, 16, c0]" if "0 < prod_list (dst_shape args)"
    unfolding dst using dims(7) that by simp
  have vf: "Ceil c c0 * (h * w) < 2 ^ 63" if "0 < prod_list (dst_shape args)"
    using i64_range [of "h * w * Ceil c c0"] dims(7) that by simp
  have nchw: "n * (c * (h * w)) < 2 ^ 63" using good_shape_prod [OF good(1)] by (simp add: src shape_max_pow)
  have "i64 (i64 (Ceil n kNiSize * i64 (Ceil c c0 * i64 (h * w)) * i64 (c0 * kNiSize)) * sz) =
      i64 (prod_list (dst_shape args) * sz)"
  proof -
    have "i64 (i64 (Ceil n kNiSize * i64 (Ceil c c0 * i64 (h * w)) * i64 (c0 * kNiSize)) * sz) =
        i64 (Ceil n kNiSize * (Ceil c c0 * (h * w)) * (c0 * kNiSize) * sz)"
      by (rule i64_wrap_eq) (rule wrap_eq_intros)+
    moreover have "i64 (prod_list (dst_shape args) * sz) = i64 (h * w * Ceil c c0 * (Ceil n 16 * (16 * (c0 * 1))) * sz)"
      unfolding dst prod_list.Cons prod_list.Nil by (rule i64_wrap_eq) (rule wrap_eq_intros)+
    ultimately show ?thesis by (simp add: kNiSize_def algebra_simps)
  qed
  then have tot: "i64 (i64 (Ceil n kNiSize * i64 (Ceil c c0 * i64 (h * w)) * i64 (c0 * kNiSize)) * sz) =
      prod_list (dst_shape args) * sz" using bytes(1,2) by simp
  have run: "TransFormatFractalZ pf args result = TransFormatFromNchwToFz pf args result"
    using acc by (auto simp: fz_accepted_def TransFormatFractalZ_def)
  have eq: "TransFormatFractalZ pf args result = nonempty_trans (prod_list (dst_shape args) * sz) result
      (alloc_dst pf (prod_list (dst_shape args) * sz) (\<lambda>dst.
        and_then (CopyNchwToFz pf args sz (prod_list (dst_shape args) * sz) n c h w c0 dst)
          (set_result result (prod_list (dst_shape args) * sz))))"
    by (simp only: run TransFormatFromNchwToFz_def src at_lits Let_def sz [symmetric] c0(3) [symmetric] tot)
  show ?thesis
    unfolding eq
  proof (rule nonempty_trans_spec [OF ok _ bytes(1) refl refl])
    show "0 \<le> prod_list (dst_shape args)" using good_shape_prod [OF good(2)] by simp
  qed (rule CopyNchwToFz_fills [OF ok _ _ _ _ _ _ _ dst' src],
      use dims c0 bytes vf nchw s in \<open>auto simp: holds_tensor_def\<close>)
qed

text \<open>The NCHW branch does not look at the destination shape.\<close>

lemma NchwToFz_shape:
  "CopyNchwToFz pf (args\<lparr>dst_shape := dst\<rparr>) = CopyNchwToFz pf args"
  "TransFormatFromNchwToFz pf (args\<lparr>dst_shape := dst\<rparr>) = TransFormatFromNchwToFz pf args"
proof -
  show c: "CopyNchwToFz pf (args\<lparr>dst_shape := dst\<rparr>) = CopyNchwToFz pf args"
    by (intro ext, cases args) (simp only: CopyNchwToFz_def TransArgs.simps)
  show "TransFormatFromNchwToFz pf (args\<lparr>dst_shape := dst\<rparr>) = TransFormatFromNchwToFz pf args"
    unfolding TransFormatFromNchwToFz_def c by (cases args) (simp only: TransArgs.simps)
qed

lemma TransFormatFractalZ_NCHW_shape:
  assumes "fz_takes FORMAT_NCHW pf args dst"
  shows "fz_accepted FORMAT_NCHW pf (args\<lparr>dst_shape := dst\<rparr>)"
    and "TransFormatFractalZ pf args result = TransFormatFractalZ pf (args\<lparr>dst_shape := dst\<rparr>) result"
  using assms by (auto simp: fz_takes_def fz_accepted_def TransFormatFractalZ_def IsTransShapeDstCorrect_def NchwToFz_shape)

lemma TransFormatFractalZ_HWCN_meets:
  assumes acc: "fz_accepted FORMAT_HWCN pf args" and sz: "sz = GetSizeByDataType pf (src_data_type args)"
    and ok: "platform_ok pf sz" and s: "holds_tensor sz (src_shape args) (data args) s"
  shows "transfer_spec pf OUT_OF_MEMORY sz (src_shape args) (dst_shape args)
    (hwcn_of_fz (src_shape args) (dst_shape args)) s result (TransFormatFractalZ pf args result)"
proof -
  obtain n c h w c0 where src: "src_shape args = [h, w, c, n]" and c0: "0 < c0" "c0 \<le> 32"
    "c0 = GetCubeSizeByDataType pf (src_data_type args)"
    and dst: "dst_shape args = [i64 (h * w * Ceil c c0), Ceil n 16, 16, c0]"
    and good: "good_shape (src_shape args)" "good_shape (dst_shape args)"
    using acc by (auto simp: fz_accepted_HWCN CubeSize_le CubeSize_pos IsShapeValid_good)
  have sets: "set (src_shape args) = {n, c, h, w}" "prod_list (src_shape args) = n * c * h * w"
    by (auto simp: src)
  note dims = fz_dims [OF good(1) sets c0(1,2) dst]
  note bytes = good_shape_bytes [OF good(2) ok] good_shape_bytes [OF good(1) ok]
  have dst': "dst_shape args = [Ceil c c0 * (h * w), Ceil n 16, 16, c0]" if "0 < prod_list (dst_shape args)"
    unfolding dst using dims(7) that by simp
  have tot: "i64 (foldl (\<lambda>dst_size dim. i64 (dst_size * dim)) 1 (dst_shape args) * sz) =
      prod_list (dst_shape args) * sz" using bytes(3) by (simp add: GetItemNumByShape_def)
  have run: "TransFormatFractalZ pf args result = TransFormatHwcnToFz pf args result"
    using acc by (auto simp: fz_accepted_def TransFormatFractalZ_def)
  have eq: "TransFormatFractalZ pf args result = nonempty_trans (prod_list (dst_shape args) * sz) result
      (alloc_dst pf (prod_list (dst_shape args) * sz) (\<lambda>dst.
        and_then (CopyHwcnToFz pf args sz (prod_list (dst_shape args) * sz) h w c n c0 dst)
          (set_result result (prod_list (dst_shape args) * sz))))"
    by (simp only: run TransFormatHwcnToFz_def src at_lits Let_def sz [symmetric] c0(3) [symmetric] tot)
  show ?thesis
    unfolding eq
  proof (rule nonempty_trans_spec [OF ok _ bytes(1) refl refl])
    show "0 \<le> prod_list (dst_shape args)" using good_shape_prod [OF good(2)] by simp
  qed (rule CopyHwcnToFz_fills [OF ok _ _ _ _ _ _ _ dst' src],
      use dims c0 bytes s in \<open>auto simp: holds_tensor_def\<close>)
qed

lemma TransFormatFractalZ_NHWC_meets:
  assumes acc: "fz_accepted FORMAT_NHWC pf args" and sz: "sz = GetSizeByDataType pf (src_data_type args)"
    and ok: "platform_ok pf sz" and s: "holds_tensor sz (src_shape args) (data args) s"
  shows "transfer_spec pf OUT_OF_MEMORY sz (src_shape args) (dst_shape args)
    (nhwc_of_fz (src_shape args) (dst_shape args)) s result (TransFormatFractalZ pf args result)"
proof -
  obtain n c h w c0 where src: "src_shape args = [n, h, w, c]" and c0: "0 < c0" "c0 \<le> 32"
    "c0 = GetCubeSizeByDataType pf (src_data_type args)"
    and dst: "dst_shape args = [i64 (h * w * Ceil c c0), Ceil n 16, 16, c0]"
    and good: "good_shape (src_shape args)" "good_shape (dst_shape args)"
    using acc by (auto simp: fz_accepted_NHWC CubeSize_le CubeSize_pos IsShapeValid_good)
  have sets: "set (src_shape args) = {n, c, h, w}" "prod_list (src_shape args) = n * c * h * w"
    by (auto simp: src)
  note dims = fz_dims [OF good(1) sets c0(1,2) dst]
  note bytes = good_shape_bytes [OF good(2) ok] good_shape_bytes [OF good(1) ok]
  have dst': "dst_shape args = [Ceil c c0 * (h * w), Ceil n 16, 16, c0]" if "0 < prod_list (dst_shape args)"
    unfolding dst using dims(7) that by simp
  have tot: "i64 (foldl (\<lambda>dst_size dim. i64 (dst_size * dim)) 1 (dst_shape args) * sz) =
      prod_list (dst_shape args) * sz" using bytes(3) by (simp add: GetItemNumByShape_def)
  have run: "TransFormatFractalZ pf args result = TransFormatNhwcToFz pf args result"
    using acc by (auto simp: fz_accepted_def TransFormatFractalZ_def)
  have eq: "TransFormatFractalZ pf args result = nonempty_trans (prod_list (dst_shape args) * sz) result
      (alloc_dst pf (prod_list (dst_shape args) * sz) (\<lambda>dst.
        and_then (CopyNhwcToFz pf args sz (prod_list (dst_shape args) * sz) n h w c c0 dst)
          (set_result result (prod_list (dst_shape args) * sz))))"
    by (simp only: run TransFormatNhwcToFz_def src at_lits Let_def sz [symmetric] c0(3) [symmetric] tot)
  show ?thesis
    unfolding eq
  proof (rule nonempty_trans_spec [OF ok _ bytes(1) refl refl])
    show "0 \<le> prod_list (dst_shape args)" using good_shape_prod [OF good(2)] by simp
  qed (rule CopyNhwcToFz_fills [OF ok _ _ _ _ _ _ _ dst' src],
      use dims c0 bytes s in \<open>auto simp: holds_tensor_def\<close>)
qed

lemma TransFormatFracZNchw_meets:
  assumes chk: "CheckArgsForFracZToNchw pf args = Inr ()" and sz: "sz = GetSizeByDataType pf (src_data_type args)"
    and ok: "platform_ok pf sz" and s: "holds_tensor sz (src_shape args) (data args) s"
  shows "transfer_spec pf INTERNAL_ERROR sz (src_shape args) (dst_shape args)
    (fz_of_nchw (src_shape args) (dst_shape args)) s result (TransFormatFracZNchw pf args result)"
proof -
  obtain n c h w c0 where dst: "dst_shape args = [n, c, h, w]" and c0: "0 < c0" "c0 \<le> 32"
    and src: "src_shape args = [i64 (h * w * Ceil c c0), Ceil n 16, 16, c0]"
    and good: "good_shape (src_shape args)" "good_shape (dst_shape args)"
    using chk by (auto simp: CheckArgsForFracZToNchw_Inr CubeSize_le CubeSize_pos IsShapeValid_good)
  have sets: "set (dst_shape args) = {n, c, h, w}" "prod_list (dst_shape args) = n * c * h * w"
    by (auto simp: dst)
  note dims = fz_dims [OF good(2) sets c0(1,2) src]
  note bytes = good_shape_bytes [OF good(2) ok] good_shape_bytes [OF good(1) ok]
  have src': "src_shape args = [Ceil c c0 * (h * w), Ceil n 16, 16, c0]" if "0 < prod_list (dst_shape args)"
    unfolding src using dims(7) that by simp
  let ?copy = "CopyFracZToNchw pf args sz (prod_list (dst_shape args) * sz) (Ceil n 16) 16 c0 h w c n"
  have eq: "TransFormatFracZNchw pf args result = checked_trans args (i64 (GetItemNumByShape (dst_shape args) * sz))
      result (alloc_dst pf (prod_list (dst_shape args) * sz) (\<lambda>d. and_then (?copy d)
        (set_result result (prod_list (dst_shape args) * sz))))"
    unfolding TransFormatFracZNchw_def chk on_error_simps and_then_simps Let_def sz [symmetric]
      GetDstDataAfterTrans_FracZToNchw_def src dst at_lits bytes(3) [unfolded dst] ..
  show ?thesis
    unfolding eq
  proof (rule checked_trans_spec [OF good ok _ refl refl])
    show "prod_list (dst_shape args) = 0 \<Longrightarrow> prod_list (src_shape args) = 0" using dims(8) by blast
  qed (rule CopyFracZToNchw_fills [OF ok _ _ _ _ _ _ _ src' dst],
      use dims c0 bytes s in \<open>auto simp: holds_tensor_def\<close>)
qed

lemma TransFormatFracZHwcn_meets:
  assumes chk: "CheckArgsForFracZToHwcn pf args = Inr ()" and sz: "sz = GetSizeByDataType pf (src_data_type args)"
    and ok: "platform_ok pf sz" and s: "holds_tensor sz (src_shape args) (data args) s"
  shows "transfer_spec pf INTERNAL_ERROR sz (src_shape args) (dst_shape args)
    (fz_of_hwcn (src_shape args) (dst_shape args)) s result (TransFormatFracZHwcn pf args result)"
proof -
  obtain n c h w c0 where dst: "dst_shape args = [h, w, c, n]" and c0: "0 < c0" "c0 \<le> 32"
    and src: "src_shape args = [i64 (h * w * Ceil c c0), Ceil n 16, 16, c0]"
    and good: "good_shape (src_shape args)" "good_shape (dst_shape args)"
    using chk by (auto simp: CheckArgsForFracZToHwcn_Inr CubeSize_le CubeSize_pos IsShapeValid_good)
  have sets: "set (dst_shape args) = {n, c, h, w}" "prod_list (dst_shape args) = n * c * h * w"
    by (auto simp: dst)
  note dims = fz_dims [OF good(2) sets c0(1,2) src]
  note bytes = good_shape_bytes [OF good(2) ok] good_shape_bytes [OF good(1) ok]
  have src': "src_shape args = [Ceil c c0 * (h * w), Ceil n 16, 16, c0]" if "0 < prod_list (dst_shape args)"
    unfolding src using dims(7) that by simp
  let ?copy = "CopyFracZToHwcn pf args sz (prod_list (dst_shape args) * sz) (Ceil n 16) 16 c0 h w c n"
  have eq: "TransFormatFracZHwcn pf args result = checked_trans args (i64 (GetItemNumByShape (dst_shape args) * sz))
      result (alloc_dst pf (prod_list (dst_shape args) * sz) (\<lambda>d. and_then (?copy d)
        (set_result result (prod_list (dst_shape args) * sz))))"
    unfolding TransFormatFracZHwcn_def chk on_error_simps and_then_simps Let_def sz [symmetric]
      GetDstDataAfterTrans_FracZToHwcn_def src dst at_lits bytes(3) [unfolded dst] ..
  show ?thesis
    unfolding eq
  proof (rule checked_trans_spec [OF good ok _ refl refl])
    show "prod_list (dst_shape args) = 0 \<Longrightarrow> prod_list (src_shape args) = 0" using dims(8) by blast
  qed (rule CopyFracZToHwcn_fills [OF ok _ _ _ _ _ _ _ src' dst],
      use dims c0 bytes s in \<open>auto simp: holds_tensor_def\<close>)
qed

lemma TransFormatFracZNhwc_meets:
  assumes chk: "CheckArgsForFracZToNhwc pf args = Inr ()" and sz: "sz = GetSizeByDataType pf (src_data_type args)"
    and ok: "platform_ok pf sz" and s: "holds_tensor sz (src_shape args) (data args) s"
  shows "transfer_spec pf INTERNAL_ERROR sz (src_shape args) (dst_shape args)
    (fz_of_nhwc (src_shape args) (dst_shape args)) s result (TransFormatFracZNhwc pf args result)"
proof -
  obtain n c h w c0 where dst: "dst_shape args = [n, h, w, c]" and c0: "0 < c0" "c0 \<le> 32"
    and src: "src_shape args = [i64 (h * w * Ceil c c0), Ceil n 16, 16, c0]"
    and good: "good_shape (src_shape args)" "good_shape (dst_shape args)"
    using chk by (auto simp: CheckArgsForFracZToNhwc_Inr CubeSize_le CubeSize_pos IsShapeValid_good)
  have sets: "set (dst_shape args) = {n, c, h, w}" "prod_list (dst_shape args) = n * c * h * w"
    by (auto simp: dst)
  note dims = fz_dims [OF good(2) sets c0(1,2) src]
  note bytes = good_shape_bytes [OF good(2) ok] good_shape_bytes [OF good(1) ok]
  have src': "src_shape args = [Ceil c c0 * (h * w), Ceil n 16, 16, c0]" if "0 < prod_list (dst_shape args)"
    unfolding src using dims(7) that by simp
  let ?copy = "CopyFracZToNhwc pf args sz (prod_list (dst_shape args) * sz) (Ceil n 16) 16 c0 h w c n"
  have eq: "TransFormatFracZNhwc pf args result = checked_trans args (i64 (GetItemNumByShape (dst_shape args) * sz))
      result (alloc_dst pf (prod_list (dst_shape args) * sz) (\<lambda>d. and_then (?copy d)
        (set_result result (prod_list (dst_shape args) * sz))))"
    unfolding TransFormatFracZNhwc_def chk on_error_simps and_then_simps Let_def sz [symmetric]
      GetDstDataAfterTrans_FracZToNhwc_def src dst at_lits bytes(3) [unfolded dst] ..
  show ?thesis
    unfolding eq
  proof (rule checked_trans_spec [OF good ok _ refl refl])
    show "prod_list (dst_shape args) = 0 \<Longrightarrow> prod_list (src_shape args) = 0" using dims(8) by blast
  qed (rule CopyFracZToNhwc_fills [OF ok _ _ _ _ _ _ _ src' dst],
      use dims c0 bytes s in \<open>auto simp: holds_tensor_def\<close>)
qed

section \<open>The pairs of inverse transfers\<close>

lemma fz_position_inverse:
  assumes "0 \<le> ni" "ni < n" "0 \<le> ci" "ci < c" "0 \<le> hi" "hi < h" "0 \<le> wi" "wi < w"
    and "c < 2 ^ 63 - c0" "n < 2 ^ 63 - 16" "0 < c0"
  shows "valid_index [Ceil c c0 * (h * w), Ceil n 16, 16, c0] (fz_position h w c0 ni ci hi wi)"
    and "fz_source n c h w c0 mk (fz_position h w c0 ni ci hi wi) = Some (mk ni ci hi wi)"
proof -
  have cs: "0 \<le> ci div c0" "ci div c0 < Ceil c c0" "0 \<le> ci mod c0" "ci mod c0 < c0"
    "0 \<le> ni div 16" "ni div 16 < Ceil n 16"
    using channel_split [of ci c c0] channel_split [of ni n 16] assms by simp_all
  then show "valid_index [Ceil c c0 * (h * w), Ceil n 16, 16, c0] (fz_position h w c0 ni ci hi wi)"
    using block_bound [of "ci div c0" "Ceil c c0" "hi * w + wi" "h * w"] hw_position(1,2) [of hi h wi w] assms
    by (simp add: fz_position_def)
  have "ni div 16 * 16 + ni mod 16 = ni" "ci div c0 * c0 + ci mod c0 = ci" by (simp_all only: div_mult_mod_eq)
  then show "fz_source n c h w c0 mk (fz_position h w c0 ni ci hi wi) = Some (mk ni ci hi wi)"
    unfolding fz_position_def using assms by (simp only: fz_source_at) simp
qed

interpretation nchw_fz: transfer_pair
  "fz_accepted FORMAT_NCHW" TransFormatFractalZ nchw_of_fz OUT_OF_MEMORY
  "\<lambda>pf args. CheckArgsForFracZToNchw pf args = Inr ()" TransFormatFracZNchw fz_of_nchw INTERNAL_ERROR
proof unfold_locales
  fix pf args r assume acc: "fz_accepted FORMAT_NCHW pf args"
  then obtain n c h w c0 where src: "src_shape args = [n, c, h, w]" and c0: "0 < c0" "c0 \<le> 32"
    and dst: "dst_shape args = [i64 (h * w * Ceil c c0), Ceil n 16, 16, c0]"
    and good: "good_shape (src_shape args)"
    by (auto simp: fz_accepted_NCHW CubeSize_le CubeSize_pos IsShapeValid_good)
  have sets: "set (src_shape args) = {n, c, h, w}" "prod_list (src_shape args) = n * c * h * w"
    by (auto simp: src)
  note dims = fz_dims [OF good sets c0 dst]
  show "CheckArgsForFracZToNchw pf (args_back args r) = Inr () \<and> prod_list (dst_shape args) \<noteq> 0"
    if "prod_list (src_shape args) \<noteq> 0"
    using dims(9) that acc by (auto simp: fz_accepted_NCHW CheckArgsForFracZToNchw_Inr)
  show "\<exists>j. fz_of_nchw (dst_shape args) (src_shape args) idx = Some j \<and> valid_index (dst_shape args) j \<and>
      nchw_of_fz (src_shape args) (dst_shape args) j = Some idx"
    if v: "valid_index (src_shape args) idx" for idx
  proof -
    have "prod_list (src_shape args) \<noteq> 0" using prod_list_pos_of_valid [OF v] by simp
    then have d: "c < 2 ^ 63 - c0" "n < 2 ^ 63 - 16" "i64 (h * w * Ceil c c0) = Ceil c c0 * (h * w)"
      using dims by simp_all
    show ?thesis
      using v c0 d fz_position_inverse [of _ n _ c _ h _ w c0]
      by (auto simp: src dst valid_index_Cons fz_of_nchw_def nchw_of_fz_def)
  qed
qed (auto simp: fz_accepted_NCHW CheckArgsForFracZToNchw_Inr IsShapeValid_good
    intro!: TransFormatFractalZ_NCHW_meets TransFormatFracZNchw_meets)

interpretation hwcn_fz: transfer_pair
  "fz_accepted FORMAT_HWCN" TransFormatFractalZ hwcn_of_fz OUT_OF_MEMORY
  "\<lambda>pf args. CheckArgsForFracZToHwcn pf args = Inr ()" TransFormatFracZHwcn fz_of_hwcn INTERNAL_ERROR
proof unfold_locales
  fix pf args r assume acc: "fz_accepted FORMAT_HWCN pf args"
  then obtain n c h w c0 where src: "src_shape args = [h, w, c, n]" and c0: "0 < c0" "c0 \<le> 32"
    and dst: "dst_shape args = [i64 (h * w * Ceil c c0), Ceil n 16, 16, c0]"
    and good: "good_shape (src_shape args)"
    by (auto simp: fz_accepted_HWCN CubeSize_le CubeSize_pos IsShapeValid_good)
  have sets: "set (src_shape args) = {n, c, h, w}" "prod_list (src_shape args) = n * c * h * w"
    by (auto simp: src)
  note dims = fz_dims [OF good sets c0 dst]
  show "CheckArgsForFracZToHwcn pf (args_back args r) = Inr () \<and> prod_list (dst_shape args) \<noteq> 0"
    if "prod_list (src_shape args) \<noteq> 0"
    using dims(9) that acc by (auto simp: fz_accepted_HWCN CheckArgsForFracZToHwcn_Inr)
  show "\<exists>j. fz_of_hwcn (dst_shape args) (src_shape args) idx = Some j \<and> valid_index (dst_shape args) j \<and>
      hwcn_of_fz (src_shape args) (dst_shape args) j = Some idx"
    if v: "valid_index (src_shape args) idx" for idx
  proof -
    have "prod_list (src_shape args) \<noteq> 0" using prod_list_pos_of_valid [OF v] by simp
    then have d: "c < 2 ^ 63 - c0" "n < 2 ^ 63 - 16" "i64 (h * w * Ceil c c0) = Ceil c c0 * (h * w)"
      using dims by simp_all
    show ?thesis
      using v c0 d fz_position_inverse [of _ n _ c _ h _ w c0]
      by (auto simp: src dst valid_index_Cons fz_of_hwcn_def hwcn_of_fz_def)
  qed
qed (auto simp: fz_accepted_HWCN CheckArgsForFracZToHwcn_Inr IsShapeValid_good
    intro!: TransFormatFractalZ_HWCN_meets TransFormatFracZHwcn_meets)

interpretation nhwc_fz: transfer_pair
  "fz_accepted FORMAT_NHWC" TransFormatFractalZ nhwc_of_fz OUT_OF_MEMORY
  "\<lambda>pf args. CheckArgsForFracZToNhwc pf args = Inr ()" TransFormatFracZNhwc fz_of_nhwc INTERNAL_ERROR
proof unfold_locales
  fix pf args r assume acc: "fz_accepted FORMAT_NHWC pf args"
  then obtain n c h w c0 where src: "src_shape args = [n, h, w, c]" and c0: "0 < c0" "c0 \<le> 32"
    and dst: "dst_shape args = [i64 (h * w * Ceil c c0), Ceil n 16, 16, c0]"
    and good: "good_shape (src_shape args)"
    by (auto simp: fz_accepted_NHWC CubeSize_le CubeSize_pos IsShapeValid_good)
  have sets: "set (src_shape args) = {n, c, h, w}" "prod_list (src_shape args) = n * c * h * w"
    by (auto simp: src)
  note dims = fz_dims [OF good sets c0 dst]
  show "CheckArgsForFracZToNhwc pf (args_back args r) = Inr () \<and> prod_list (dst_shape args) \<noteq> 0"
    if "prod_list (src_shape args) \<noteq> 0"
    using dims(9) that acc by (auto simp: fz_accepted_NHWC CheckArgsForFracZToNhwc_Inr)
  show "\<exists>j. fz_of_nhwc (dst_shape args) (src_shape args) idx = Some j \<and> valid_index (dst_shape args) j \<and>
      nhwc_of_fz (src_shape args) (dst_shape args) j = Some idx"
    if v: "valid_index (src_shape args) idx" for idx
  proof -
    have "prod_list (src_shape args) \<noteq> 0" using prod_list_pos_of_valid [OF v] by simp
    then have d: "c < 2 ^ 63 - c0" "n < 2 ^ 63 - 16" "i64 (h * w * Ceil c c0) = Ceil c c0 * (h * w)"
      using dims by simp_all
    show ?thesis
      using v c0 d fz_position_inverse [of _ n _ c _ h _ w c0]
      by (auto simp: src dst valid_index_Cons fz_of_nhwc_def nhwc_of_fz_def)
  qed
qed (auto simp: fz_accepted_NHWC CheckArgsForFracZToNhwc_Inr IsShapeValid_good
    intro!: TransFormatFractalZ_NHWC_meets TransFormatFracZNhwc_meets)

section \<open>Properties\<close>

definition nchw_fz_sample :: TransArgs where
  "nchw_fz_sample = sample_args FORMAT_NCHW FORMAT_FRACTAL_Z [1, 1, 1, 1] [1, 1, 16, 16] DT_FLOAT16 [Some 1, Some 2]"

definition hwcn_fz_sample :: TransArgs where
  "hwcn_fz_sample = sample_args FORMAT_HWCN FORMAT_FRACTAL_Z [1, 1, 1, 1] [1, 1, 16, 16] DT_FLOAT16 [Some 1, Some 2]"

definition nhwc_fz_sample :: TransArgs where
  "nhwc_fz_sample = sample_args FORMAT_NHWC FORMAT_FRACTAL_Z [1, 1, 1, 1] [1, 1, 16, 16] DT_FLOAT16 [Some 1, Some 2]"

lemmas sample_fz = sample_defs platform_ok_def holds_tensor_def GetCubeSizeByDataType_def kCubeSize_def
  kShapeItemNumMAX_def IsShapeValid_def Ceil_def nchw_fz_sample_def hwcn_fz_sample_def nhwc_fz_sample_def

lemma nchw_fz_sample_ok:
  "fz_accepted FORMAT_NCHW sample_platform nchw_fz_sample"
  "platform_ok sample_platform (GetSizeByDataType sample_platform (src_data_type nchw_fz_sample))"
  "holds_tensor (GetSizeByDataType sample_platform (src_data_type nchw_fz_sample)) (src_shape nchw_fz_sample)
     (data nchw_fz_sample) [Some 1, Some 2]"
  "new_succeeds sample_platform (prod_list (dst_shape nchw_fz_sample) *
     GetSizeByDataType sample_platform (src_data_type nchw_fz_sample))"
  "prod_list (dst_shape nchw_fz_sample) \<noteq> 0" "prod_list (src_shape nchw_fz_sample) \<noteq> 0"
  "new_succeeds sample_platform (prod_list (src_shape nchw_fz_sample) *
     GetSizeByDataType sample_platform (src_data_type nchw_fz_sample))"
  by (simp_all add: fz_accepted_NCHW sample_fz)

lemma hwcn_fz_sample_ok:
  "fz_accepted FORMAT_HWCN sample_platform hwcn_fz_sample"
  "platform_ok sample_platform (GetSizeByDataType sample_platform (src_data_type hwcn_fz_sample))"
  "holds_tensor (GetSizeByDataType sample_platform (src_data_type hwcn_fz_sample)) (src_shape hwcn_fz_sample)
     (data hwcn_fz_sample) [Some 1, Some 2]"
  "new_succeeds sample_platform (prod_list (dst_shape hwcn_fz_sample) *
     GetSizeByDataType sample_platform (src_data_type hwcn_fz_sample))"
  "prod_list (dst_shape hwcn_fz_sample) \<noteq> 0" "prod_list (src_shape hwcn_fz_sample) \<noteq> 0"
  "new_succeeds sample_platform (prod_list (src_shape hwcn_fz_sample) *
     GetSizeByDataType sample_platform (src_data_type hwcn_fz_sample))"
  by (simp_all add: fz_accepted_HWCN sample_fz)

lemma nhwc_fz_sample_ok:
  "fz_accepted FORMAT_NHWC sample_platform nhwc_fz_sample"
  "platform_ok sample_platform (GetSizeByDataType sample_platform (src_data_type nhwc_fz_sample))"
  "holds_tensor (GetSizeByDataType sample_platform (src_data_type nhwc_fz_sample)) (src_shape nhwc_fz_sample)
     (data nhwc_fz_sample) [Some 1, Some 2]"
  "new_succeeds sample_platform (prod_list (dst_shape nhwc_fz_sample) *
     GetSizeByDataType sample_platform (src_data_type nhwc_fz_sample))"
  "prod_list (dst_shape nhwc_fz_sample) \<noteq> 0" "prod_list (src_shape nhwc_fz_sample) \<noteq> 0"
  "new_succeeds sample_platform (prod_list (src_shape nhwc_fz_sample) *
     GetSizeByDataType sample_platform (src_data_type nhwc_fz_sample))"
  by (simp_all add: fz_accepted_NHWC sample_fz)

text \<open>C19: NCHW to FRACTAL\_Z. On every argument the code accepts, with the derived destination shape or an empty one, the
  element-wise loops over fractal rows and columns, with their three padding tests, produce exactly the fractal layout:
  element \<open>[c1 * h * w + x, no, ni, k]\<close> is the source element of batch entry \<open>no * 16 + ni\<close>, channel \<open>c1 * c0 + k\<close> and
  image position \<open>x\<close>, or zero outside the source; a failed allocation gives \<open>OUT_OF_MEMORY\<close>, an empty tensor an empty
  result, and no access leaves a buffer.\<close>

theorem nchw_to_fractal_z_correct:
  assumes "fz_takes FORMAT_NCHW pf args dst"
    and "sz = GetSizeByDataType pf (src_data_type args)" "platform_ok pf sz"
    and "holds_tensor sz (src_shape args) (data args) s"
  shows "transfer_spec pf OUT_OF_MEMORY sz (src_shape args) dst
    (nchw_of_fz (src_shape args) dst) s result (TransFormatFractalZ pf args result)"
  using TransFormatFractalZ_NCHW_meets [OF TransFormatFractalZ_NCHW_shape(1) [OF assms(1)], of sz s result] assms(2-4)
  by (simp add: TransFormatFractalZ_NCHW_shape(2) [OF assms(1)])

theorem nchw_to_fractal_z_correct_witness:
  "fz_takes FORMAT_NCHW sample_platform (nchw_fz_sample\<lparr>dst_shape := []\<rparr>) (dst_shape nchw_fz_sample) \<and>
   transfer_spec sample_platform OUT_OF_MEMORY (GetSizeByDataType sample_platform (src_data_type nchw_fz_sample))
     (src_shape nchw_fz_sample) (dst_shape nchw_fz_sample)
     (nchw_of_fz (src_shape nchw_fz_sample) (dst_shape nchw_fz_sample)) [Some 1, Some 2] no_result
     (TransFormatFractalZ sample_platform (nchw_fz_sample\<lparr>dst_shape := []\<rparr>) no_result)"
proof
  show t: "fz_takes FORMAT_NCHW sample_platform (nchw_fz_sample\<lparr>dst_shape := []\<rparr>) (dst_shape nchw_fz_sample)"
    using nchw_fz_sample_ok(1) by (simp add: fz_takes_def fz_accepted_def IsTransShapeDstCorrect_def)
  show "transfer_spec sample_platform OUT_OF_MEMORY (GetSizeByDataType sample_platform (src_data_type nchw_fz_sample))
     (src_shape nchw_fz_sample) (dst_shape nchw_fz_sample)
     (nchw_of_fz (src_shape nchw_fz_sample) (dst_shape nchw_fz_sample)) [Some 1, Some 2] no_result
     (TransFormatFractalZ sample_platform (nchw_fz_sample\<lparr>dst_shape := []\<rparr>) no_result)"
    using nchw_to_fractal_z_correct [OF t refl, of "[Some 1, Some 2]" no_result] nchw_fz_sample_ok(2,3) by simp
qed

text \<open>A weight tensor taken from NCHW to FRACTAL\_Z comes back byte for byte: the backward transfer
  accepts the result with the shapes swapped and returns the original buffer.\<close>

theorem nchw_fractal_z_roundtrip:
  assumes "fz_accepted FORMAT_NCHW pf args"
    and "sz = GetSizeByDataType pf (src_data_type args)" "platform_ok pf sz"
    and "holds_tensor sz (src_shape args) (data args) s" "prod_list (src_shape args) \<noteq> 0"
    and "TransFormatFractalZ pf args result = Inr r"
    and "new_succeeds pf (prod_list (src_shape args) * sz)"
  shows "TransFormatFracZNchw pf (args_back args r) result' =
    Inr (result'\<lparr>res_data := Some s, res_length := int (length s)\<rparr>)"
  using assms by (rule nchw_fz.roundtrip)

theorem nchw_fractal_z_roundtrip_witness:
  "\<exists>r. TransFormatFractalZ sample_platform nchw_fz_sample no_result = Inr r \<and>
     TransFormatFracZNchw sample_platform (args_back nchw_fz_sample r) no_result =
       Inr (no_result\<lparr>res_data := Some [Some 1, Some 2], res_length := 2\<rparr>)"
proof -
  note h = nchw_fz_sample_ok
  obtain r where r: "TransFormatFractalZ sample_platform nchw_fz_sample no_result = Inr r"
    by (rule nchw_fz.fwd.returns [OF h(1) refl h(2-5), of no_result]) blast
  have "TransFormatFracZNchw sample_platform (args_back nchw_fz_sample r) no_result =
      Inr (no_result\<lparr>res_data := Some [Some 1, Some 2], res_length := int (length [Some 1, Some (2 :: byte)])\<rparr>)"
    by (rule nchw_fractal_z_roundtrip [OF h(1) refl h(2,3,6) r h(7)])
  with r show ?thesis by simp
qed

text \<open>HWCN to FRACTAL\_Z produces the fractal layout of the source, on the same terms.\<close>

theorem hwcn_to_fractal_z_correct:
  assumes "fz_accepted FORMAT_HWCN pf args"
    and "sz = GetSizeByDataType pf (src_data_type args)" "platform_ok pf sz"
    and "holds_tensor sz (src_shape args) (data args) s"
  shows "transfer_spec pf OUT_OF_MEMORY sz (src_shape args) (dst_shape args)
    (hwcn_of_fz (src_shape args) (dst_shape args)) s result (TransFormatFractalZ pf args result)"
  using assms by (rule TransFormatFractalZ_HWCN_meets)

theorem hwcn_to_fractal_z_correct_witness:
  "fz_accepted FORMAT_HWCN sample_platform hwcn_fz_sample \<and>
   transfer_spec sample_platform OUT_OF_MEMORY (GetSizeByDataType sample_platform (src_data_type hwcn_fz_sample))
     (src_shape hwcn_fz_sample) (dst_shape hwcn_fz_sample)
     (hwcn_of_fz (src_shape hwcn_fz_sample) (dst_shape hwcn_fz_sample)) [Some 1, Some 2] no_result
     (TransFormatFractalZ sample_platform hwcn_fz_sample no_result)"
  by (intro conjI hwcn_fz_sample_ok(1) hwcn_to_fractal_z_correct [OF hwcn_fz_sample_ok(1) refl hwcn_fz_sample_ok(2,3)])

text \<open>A weight tensor taken from HWCN to FRACTAL\_Z comes back byte for byte: the backward transfer
  accepts the result with the shapes swapped and returns the original buffer.\<close>

theorem hwcn_fractal_z_roundtrip:
  assumes "fz_accepted FORMAT_HWCN pf args"
    and "sz = GetSizeByDataType pf (src_data_type args)" "platform_ok pf sz"
    and "holds_tensor sz (src_shape args) (data args) s" "prod_list (src_shape args) \<noteq> 0"
    and "TransFormatFractalZ pf args result = Inr r"
    and "new_succeeds pf (prod_list (src_shape args) * sz)"
  shows "TransFormatFracZHwcn pf (args_back args r) result' =
    Inr (result'\<lparr>res_data := Some s, res_length := int (length s)\<rparr>)"
  using assms by (rule hwcn_fz.roundtrip)

theorem hwcn_fractal_z_roundtrip_witness:
  "\<exists>r. TransFormatFractalZ sample_platform hwcn_fz_sample no_result = Inr r \<and>
     TransFormatFracZHwcn sample_platform (args_back hwcn_fz_sample r) no_result =
       Inr (no_result\<lparr>res_data := Some [Some 1, Some 2], res_length := 2\<rparr>)"
proof -
  note h = hwcn_fz_sample_ok
  obtain r where r: "TransFormatFractalZ sample_platform hwcn_fz_sample no_result = Inr r"
    by (rule hwcn_fz.fwd.returns [OF h(1) refl h(2-5), of no_result]) blast
  have "TransFormatFracZHwcn sample_platform (args_back hwcn_fz_sample r) no_result =
      Inr (no_result\<lparr>res_data := Some [Some 1, Some 2], res_length := int (length [Some 1, Some (2 :: byte)])\<rparr>)"
    by (rule hwcn_fractal_z_roundtrip [OF h(1) refl h(2,3,6) r h(7)])
  with r show ?thesis by simp
qed

text \<open>NHWC to FRACTAL\_Z produces the fractal layout of the source, on the same terms.\<close>

theorem nhwc_to_fractal_z_correct:
  assumes "fz_accepted FORMAT_NHWC pf args"
    and "sz = GetSizeByDataType pf (src_data_type args)" "platform_ok pf sz"
    and "holds_tensor sz (src_shape args) (data args) s"
  shows "transfer_spec pf OUT_OF_MEMORY sz (src_shape args) (dst_shape args)
    (nhwc_of_fz (src_shape args) (dst_shape args)) s result (TransFormatFractalZ pf args result)"
  using assms by (rule TransFormatFractalZ_NHWC_meets)

theorem nhwc_to_fractal_z_correct_witness:
  "fz_accepted FORMAT_NHWC sample_platform nhwc_fz_sample \<and>
   transfer_spec sample_platform OUT_OF_MEMORY (GetSizeByDataType sample_platform (src_data_type nhwc_fz_sample))
     (src_shape nhwc_fz_sample) (dst_shape nhwc_fz_sample)
     (nhwc_of_fz (src_shape nhwc_fz_sample) (dst_shape nhwc_fz_sample)) [Some 1, Some 2] no_result
     (TransFormatFractalZ sample_platform nhwc_fz_sample no_result)"
  by (intro conjI nhwc_fz_sample_ok(1) nhwc_to_fractal_z_correct [OF nhwc_fz_sample_ok(1) refl nhwc_fz_sample_ok(2,3)])

text \<open>A weight tensor taken from NHWC to FRACTAL\_Z comes back byte for byte: the backward transfer
  accepts the result with the shapes swapped and returns the original buffer.\<close>

theorem nhwc_fractal_z_roundtrip:
  assumes "fz_accepted FORMAT_NHWC pf args"
    and "sz = GetSizeByDataType pf (src_data_type args)" "platform_ok pf sz"
    and "holds_tensor sz (src_shape args) (data args) s" "prod_list (src_shape args) \<noteq> 0"
    and "TransFormatFractalZ pf args result = Inr r"
    and "new_succeeds pf (prod_list (src_shape args) * sz)"
  shows "TransFormatFracZNhwc pf (args_back args r) result' =
    Inr (result'\<lparr>res_data := Some s, res_length := int (length s)\<rparr>)"
  using assms by (rule nhwc_fz.roundtrip)

theorem nhwc_fractal_z_roundtrip_witness:
  "\<exists>r. TransFormatFractalZ sample_platform nhwc_fz_sample no_result = Inr r \<and>
     TransFormatFracZNhwc sample_platform (args_back nhwc_fz_sample r) no_result =
       Inr (no_result\<lparr>res_data := Some [Some 1, Some 2], res_length := 2\<rparr>)"
proof -
  note h = nhwc_fz_sample_ok
  obtain r where r: "TransFormatFractalZ sample_platform nhwc_fz_sample no_result = Inr r"
    by (rule nhwc_fz.fwd.returns [OF h(1) refl h(2-5), of no_result]) blast
  have "TransFormatFracZNhwc sample_platform (args_back nhwc_fz_sample r) no_result =
      Inr (no_result\<lparr>res_data := Some [Some 1, Some 2], res_length := int (length [Some 1, Some (2 :: byte)])\<rparr>)"
    by (rule nhwc_fractal_z_roundtrip [OF h(1) refl h(2,3,6) r h(7)])
  with r show ?thesis by simp
qed

text \<open>
  \<open>IsTransShapeDstCorrect\<close> accepts an empty destination shape, but the HWCN and NHWC loops size their
  buffer by it: one element is allocated and the second write fails.
\<close>

lemma hwcn_empty_dst_shape_fails:
  "TransFormatFractalZ sample_platform (hwcn_fz_sample\<lparr>dst_shape := []\<rparr>) no_result = Inl (Ret INTERNAL_ERROR)"
  by code_simp

end
