(* ===== verification/Trans_C1hwncoc0.thy ===== *)
theory Trans_C1hwncoc0
  imports Transfer_Spec
begin

text \<open>
  The transfers between HWCN and C1HWNCoC0, where each block of channels becomes a diagonal matrix:
  \<open>format_transfer_hwcn_c1hwncoc0.cc\<close> and \<open>format_transfer_c1hwncoc0_hwcn.cc\<close>.
\<close>

section \<open>HWCN to C1HWNCoC0\<close>

definition CheckDataTypeSupported_C1hwncoc0 :: "DataType \<Rightarrow> bool" where
  "CheckDataTypeSupported_C1hwncoc0 data_type \<longleftrightarrow>
     data_type = DT_FLOAT \<or> data_type = DT_FLOAT16 \<or> data_type = DT_INT8"

definition TransShapeHwcnToC1hwncoc0 :: "platform \<Rightarrow> DataType \<Rightarrow> int list \<Rightarrow> int list res" where
  "TransShapeHwcnToC1hwncoc0 pf data_type s_shape =
     (let cube_size = GetCubeSizeByDataType pf data_type in
      at s_shape kHwcnC (\<lambda>c. at s_shape kHwcnH (\<lambda>h. at s_shape kHwcnW (\<lambda>w. at s_shape kHwcnN (\<lambda>n.
      let d_shape = [Ceil c cube_size, h, w, n, cube_size, cube_size] in
      if \<not> CheckShapeValid d_shape kC1hwncoc0DimsNum then Inl (Ret ACL_ERROR_GE_TRANSSHAPE_SHAPE_INVALID)
      else Inr d_shape)))))"

definition CheckArgsForHwcnToC1hwncoc0 :: "platform \<Rightarrow> TransArgs \<Rightarrow> unit res" where
  "CheckArgsForHwcnToC1hwncoc0 pf args =
     (if src_format args \<noteq> FORMAT_HWCN \<or> dst_format args \<noteq> FORMAT_C1HWNCoC0 then Inl (Ret UNSUPPORTED)
      else if \<not> CheckDataTypeSupported_C1hwncoc0 (src_data_type args) then Inl (Ret UNSUPPORTED)
      else if \<not> CheckShapeValid (src_shape args) kHwcnDimsNum then Inl (Ret PARAM_INVALID)
      else if \<not> CheckShapeValid (dst_shape args) kC1hwncoc0DimsNum then Inl (Ret PARAM_INVALID)
      else and_then (TransShapeHwcnToC1hwncoc0 pf (src_data_type args) (src_shape args)) (\<lambda>expect_dst_shape.
        if dst_shape args \<noteq> expect_dst_shape then Inl (Ret PARAM_INVALID) else Inr ()))"

definition CopyHwcnToC1hwncoc0 ::
  "platform \<Rightarrow> TransArgs \<Rightarrow> int \<Rightarrow> int \<Rightarrow> int \<Rightarrow> int \<Rightarrow> int \<Rightarrow> int \<Rightarrow> int \<Rightarrow> int \<Rightarrow> int \<Rightarrow> mem option \<Rightarrow> mem option res"
where
  "CopyHwcnToC1hwncoc0 pf args sz total_size h w c n c1 c0 co =
     (let coc0 = i64 (co * c0);
          ncoc0 = i64 (n * coc0);
          wncoc0 = i64 (w * ncoc0);
          hwncoc0 = i64 (h * wncoc0);
          cn = i64 (c * n);
          wcn = i64 (w * cn)
      in for_lt c1 (\<lambda>c1_idx.
        let c1_head_addr = i64 (c1_idx * hwncoc0)
        in for_lt h (\<lambda>h_idx.
          let h_head_addr = i64 (c1_head_addr + h_idx * wncoc0)
          in for_lt w (\<lambda>w_idx.
            let w_head_addr = i64 (h_head_addr + w_idx * ncoc0)
            in for_lt n (\<lambda>n_idx.
              let n_head_addr = i64 (w_head_addr + n_idx * coc0)
              in for_lt co (\<lambda>co_idx.
                let co_head_addr = i64 (n_head_addr + co_idx * c0)
                in for_lt c0 (\<lambda>c0_idx dst.
                  let dst_idx = i64 (c0_idx + co_head_addr);
                      dst_offset = i64 (dst_idx * sz);
                      c_idx = i64 (c0_idx + c1_idx * c0);
                      src_idx = i64 (h_idx * wcn + w_idx * cn + c_idx * n + n_idx);
                      src_offset = i64 (src_idx * sz)
                  in if c_idx < c \<and> c0_idx = co_idx
                     then check_eok (memcpy_s pf dst dst_offset (protected_size pf total_size dst_offset)
                            (data args) src_offset sz)
                     else check_eok (memset_s pf dst dst_offset (protected_size pf total_size dst_offset) sz))))))))"

definition GetDstDataAfterTrans_HwcnToC1hwncoc0 ::
  "platform \<Rightarrow> TransArgs \<Rightarrow> TransResult \<Rightarrow> int \<Rightarrow> int \<Rightarrow> TransResult res"
where
  "GetDstDataAfterTrans_HwcnToC1hwncoc0 pf args result sz total_size =
     alloc_dst pf total_size (\<lambda>dst.
       at (src_shape args) kHwcnH (\<lambda>h. at (src_shape args) kHwcnW (\<lambda>w.
       at (src_shape args) kHwcnC (\<lambda>c. at (src_shape args) kHwcnN (\<lambda>n.
       at (dst_shape args) kC1hwncoc0C1 (\<lambda>c1. at (dst_shape args) kC1hwncoc0C0 (\<lambda>c0.
       at (dst_shape args) kC1hwncoc0Co (\<lambda>co.
       and_then (CopyHwcnToC1hwncoc0 pf args sz total_size h w c n c1 c0 co dst)
         (set_result result total_size)))))))))"

definition TransFormatHwcnC1hwncoc0 :: "platform \<Rightarrow> TransArgs \<Rightarrow> TransResult \<Rightarrow> TransResult res" where
  "TransFormatHwcnC1hwncoc0 pf args result =
     and_then (on_error PARAM_INVALID (CheckArgsForHwcnToC1hwncoc0 pf args)) (\<lambda>_.
       let sz = GetSizeByDataType pf (src_data_type args);
           total_size = i64 (GetItemNumByShape (dst_shape args) * sz)
       in checked_trans args total_size result (GetDstDataAfterTrans_HwcnToC1hwncoc0 pf args result sz total_size))"

definition TransShapeHwcnC1hwncoc0 ::
  "platform \<Rightarrow> Format \<Rightarrow> int list \<Rightarrow> DataType \<Rightarrow> Format \<Rightarrow> int list res" where
  "TransShapeHwcnC1hwncoc0 pf s_format s_shape data_type d_format =
     (if s_format = FORMAT_HWCN \<and> CheckDataTypeSupported_C1hwncoc0 data_type then
        if \<not> CheckShapeValid s_shape kHwcnDimsNum then Inl (Ret ACL_ERROR_GE_TRANSSHAPE_SHAPE_INVALID)
        else TransShapeHwcnToC1hwncoc0 pf data_type s_shape
      else if s_format \<noteq> FORMAT_HWCN then Inl (Ret ACL_ERROR_GE_TRANSSHAPE_FORMAT_INVALID)
      else Inl (Ret ACL_ERROR_GE_TRANSSHAPE_DATATYPE_INVALID))"

section \<open>C1HWNCoC0 to HWCN\<close>

definition CheckArgsForC1hwncoc0ToHwcn :: "platform \<Rightarrow> TransArgs \<Rightarrow> unit res" where
  "CheckArgsForC1hwncoc0ToHwcn pf args =
     (if src_format args \<noteq> FORMAT_C1HWNCoC0 \<or> dst_format args \<noteq> FORMAT_HWCN then Inl (Ret UNSUPPORTED)
      else if \<not> CheckDataTypeSupported_C1hwncoc0 (src_data_type args) then Inl (Ret UNSUPPORTED)
      else if \<not> CheckShapeValid (src_shape args) kC1hwncoc0DimsNum then Inl (Ret PARAM_INVALID)
      else if \<not> CheckShapeValid (dst_shape args) kHwcnDimsNum then Inl (Ret PARAM_INVALID)
      else
        let cube_size = GetCubeSizeByDataType pf (src_data_type args) in
        at (src_shape args) kC1hwncoc0C1 (\<lambda>sc1. at (dst_shape args) kHwcnC (\<lambda>dc.
        at (src_shape args) kC1hwncoc0H (\<lambda>sh. at (dst_shape args) kHwcnH (\<lambda>dh.
        at (src_shape args) kC1hwncoc0W (\<lambda>sw. at (dst_shape args) kHwcnW (\<lambda>dw.
        at (src_shape args) kC1hwncoc0N (\<lambda>sn. at (dst_shape args) kHwcnN (\<lambda>dn.
        at (src_shape args) kC1hwncoc0Co (\<lambda>sco. at (src_shape args) kC1hwncoc0C0 (\<lambda>sc0.
        if sc1 \<noteq> i64 (i64 (dc - 1) sdiv cube_size + 1) \<or> sh \<noteq> dh \<or> sw \<noteq> dw \<or> sn \<noteq> dn \<or>
           sco \<noteq> cube_size \<or> sc0 \<noteq> cube_size
        then Inl (Ret PARAM_INVALID) else Inr ())))))))))))"

definition CopyC1hwncoc0ToHwcn ::
  "platform \<Rightarrow> TransArgs \<Rightarrow> int \<Rightarrow> int \<Rightarrow> int \<Rightarrow> int \<Rightarrow> int \<Rightarrow> int \<Rightarrow> int \<Rightarrow> int \<Rightarrow> int \<Rightarrow> mem option \<Rightarrow> mem option res"
where
  "CopyC1hwncoc0ToHwcn pf args sz total_size h w n c0 co c cube_size =
     (let cn = i64 (c * n);
          wcn = i64 (w * cn);
          coc0 = i64 (co * c0);
          ncoc0 = i64 (n * coc0);
          wncoc0 = i64 (w * ncoc0);
          hwncoc0 = i64 (h * wncoc0)
      in for_lt h (\<lambda>h_idx.
        let h_head_addr = i64 (h_idx * wcn)
        in for_lt w (\<lambda>w_idx.
          let w_head_addr = i64 (h_head_addr + w_idx * cn)
          in for_lt c (\<lambda>c_idx.
            let c_head_addr = i64 (w_head_addr + c_idx * n)
            in for_lt n (\<lambda>n_idx dst.
              let dst_idx = i64 (c_head_addr + n_idx);
                  c1_idx = c_idx sdiv cube_size;
                  c0_idx = c_idx smod cube_size;
                  co_idx = c0_idx;
                  src_idx = i64 (c1_idx * hwncoc0 + h_idx * wncoc0 + w_idx * ncoc0 + n_idx * coc0 + co_idx * c0 + c0_idx);
                  src_offset = i64 (src_idx * sz);
                  dst_offset = i64 (dst_idx * sz)
              in check_eok (memcpy_s pf dst dst_offset (protected_size pf total_size dst_offset)
                   (data args) src_offset sz))))))"

definition GetDstDataAfterTrans_C1hwncoc0ToHwcn ::
  "platform \<Rightarrow> TransArgs \<Rightarrow> TransResult \<Rightarrow> int \<Rightarrow> int \<Rightarrow> TransResult res"
where
  "GetDstDataAfterTrans_C1hwncoc0ToHwcn pf args result sz total_size =
     alloc_dst pf total_size (\<lambda>dst.
       at (src_shape args) kC1hwncoc0H (\<lambda>h. at (src_shape args) kC1hwncoc0W (\<lambda>w.
       at (src_shape args) kC1hwncoc0N (\<lambda>n. at (src_shape args) kC1hwncoc0C0 (\<lambda>c0.
       at (src_shape args) kC1hwncoc0Co (\<lambda>co. at (dst_shape args) kHwcnC (\<lambda>c.
       let cube_size = GetCubeSizeByDataType pf (src_data_type args)
       in and_then (CopyC1hwncoc0ToHwcn pf args sz total_size h w n c0 co c cube_size dst)
            (set_result result total_size))))))))"

definition TransFormatC1hwncoc0Hwcn :: "platform \<Rightarrow> TransArgs \<Rightarrow> TransResult \<Rightarrow> TransResult res" where
  "TransFormatC1hwncoc0Hwcn pf args result =
     and_then (on_error PARAM_INVALID (CheckArgsForC1hwncoc0ToHwcn pf args)) (\<lambda>_.
       let sz = GetSizeByDataType pf (src_data_type args);
           total_size = i64 (GetItemNumByShape (dst_shape args) * sz)
       in checked_trans args total_size result (GetDstDataAfterTrans_C1hwncoc0ToHwcn pf args result sz total_size))"

definition TransShapeC1hwncoc0Hwcn ::
  "platform \<Rightarrow> Format \<Rightarrow> int list \<Rightarrow> DataType \<Rightarrow> Format \<Rightarrow> int list res" where
  "TransShapeC1hwncoc0Hwcn pf s_format s_shape data_type d_format =
     Inl (Ret ACL_ERROR_GE_TRANSSHAPE_FORMAT_INVALID)"

section \<open>The layout maps\<close>

definition hwcn_of_c1hwncoc0 :: layout_map where
  "hwcn_of_c1hwncoc0 src dst idx = (case idx of
     [c1, h, w, n, co, k] \<Rightarrow>
       (let c = c1 * dst ! 5 + k in if c < src ! 2 \<and> k = co then Some [h, w, c, n] else None)
   | _ \<Rightarrow> None)"

definition c1hwncoc0_of_hwcn :: layout_map where
  "c1hwncoc0_of_hwcn src dst idx = (case idx of
     [h, w, c, n] \<Rightarrow> Some [c div src ! 5, h, w, n, c mod src ! 5, c mod src ! 5] | _ \<Rightarrow> None)"

section \<open>What the argument checks accept\<close>

lemma CheckArgsForHwcnToC1hwncoc0_Inr:
  "CheckArgsForHwcnToC1hwncoc0 pf args = Inr u \<longleftrightarrow> src_format args = FORMAT_HWCN \<and>
     dst_format args = FORMAT_C1HWNCoC0 \<and> CheckDataTypeSupported_C1hwncoc0 (src_data_type args) \<and>
     (\<exists>n c h w c0. src_shape args = [h, w, c, n] \<and> c0 = GetCubeSizeByDataType pf (src_data_type args) \<and>
       dst_shape args = [Ceil c c0, h, w, n, c0, c0] \<and>
       IsShapeValid (src_shape args) \<and> IsShapeValid (dst_shape args))"
  by (auto simp: CheckArgsForHwcnToC1hwncoc0_def TransShapeHwcnToC1hwncoc0_def CheckShapeValid_iff Let_def
      length_4D and_then_eq_Inr split: if_splits)

lemma CheckArgsForC1hwncoc0ToHwcn_Inr:
  "CheckArgsForC1hwncoc0ToHwcn pf args = Inr u \<longleftrightarrow> src_format args = FORMAT_C1HWNCoC0 \<and>
     dst_format args = FORMAT_HWCN \<and> CheckDataTypeSupported_C1hwncoc0 (src_data_type args) \<and>
     (\<exists>n c h w c0. dst_shape args = [h, w, c, n] \<and> c0 = GetCubeSizeByDataType pf (src_data_type args) \<and>
       src_shape args = [i64 (i64 (c - 1) sdiv c0 + 1), h, w, n, c0, c0] \<and>
       IsShapeValid (src_shape args) \<and> IsShapeValid (dst_shape args))"
  by (auto simp: CheckArgsForC1hwncoc0ToHwcn_def CheckShapeValid_iff Let_def
      length_4D length_6D split: if_splits)

lemma CubeSize_nonneg: "0 \<le> GetCubeSizeByDataType pf t \<Longrightarrow> 0 < GetCubeSizeByDataType pf t"
  by (auto simp: GetCubeSizeByDataType_def kCubeSize_def Let_def split: if_splits)

text \<open>The dimensions of the diagonal layout, when one of the tensors is not empty.\<close>

lemma diagonal_dims:
  assumes good: "good_shape src" "good_shape dst"
    and src: "src = [h, w, c, n]" and dst: "dst = [Ceil c c0, h, w, n, c0, c0]"
    and c0: "0 < c0" "c0 \<le> 32" and ne: "prod_list src \<noteq> 0 \<or> prod_list dst \<noteq> 0"
  shows "0 < n" "0 < c" "0 < h" "0 < w" "c < 2 ^ 63 - c0" "prod_list src \<noteq> 0" "prod_list dst \<noteq> 0"
proof -
  have nn: "0 \<le> n" "0 \<le> c" "0 \<le> h" "0 \<le> w" using good(1) by (auto simp: good_shape_def src)
  have z: "n \<noteq> 0" "c \<noteq> 0" "h \<noteq> 0" "w \<noteq> 0" using ne by (auto simp: src dst Ceil_def)
  then show p: "prod_list src \<noteq> 0" by (simp add: src)
  show "0 < n" "0 < c" "0 < h" "0 < w" using nn z by simp_all
  have "c \<le> 2 ^ 40" using good_shape_dim [OF good(1) p, of c] by (simp add: src)
  then show "c < 2 ^ 63 - c0" using c0 by simp
  then have "0 < Ceil c c0" using Ceil_bounds(4) [of c c0] c0 nn z by simp
  then show "prod_list dst \<noteq> 0" using z c0 by (simp add: dst)
qed

section \<open>The loops fill the destination\<close>

lemma CopyHwcnToC1hwncoc0_fills:
  assumes ok: "platform_ok pf sz" and dims: "0 < n" "0 < c" "0 < h" "0 < w" "0 < c0" "c < 2 ^ 63 - c0"
    and dst: "dst = [Ceil c c0, h, w, n, c0, c0]" and src: "src = [h, w, c, n]"
    and N: "prod_list dst * sz < 2 ^ 63" "prod_list src * sz < 2 ^ 63"
    and s: "data args = Some s" "int (length s) = prod_list src * sz"
  shows "fills sz (prod_list dst) (\<lambda>x. gather_elem sz src (hwcn_of_c1hwncoc0 src dst) s (unflat dst x))
    {0..<prod_list dst} (CopyHwcnToC1hwncoc0 pf args sz (prod_list dst * sz) h w c n (Ceil c c0) c0 c0)"
proof -
  have cb: "0 \<le> Ceil c c0" "Ceil c c0 * c0 < c + c0" using Ceil_bounds [of c c0] dims by simp_all
  have nn: "0 \<le> n" "0 \<le> h" "0 \<le> w" "0 \<le> c0" using dims by simp_all
  have P: "prod_list dst = 0 + Ceil c c0 * (h * (w * (n * (c0 * c0))))" by (simp add: dst)
  show ?thesis
    unfolding CopyHwcnToC1hwncoc0_def Let_def s(1)
    apply (subst (2) P)
    apply (rule fills_for_blocks, simp add: nn cb, simp add: nn cb)+
    apply (rule fills_for_elems, simp add: nn cb)
    subgoal premises ix for q a b ni co k
    proof -
      let ?idx = "[q, a, b, ni, co, k]" and ?j = "[a, b, q * c0 + k, ni]"
      have ci: "i64 (k + q * c0) = q * c0 + k"
        using block_bound [of q "Ceil c c0" k c0] ix cb dims by (simp add: add.commute)
      have cp: "q * c0 + k < c \<and> k = co \<Longrightarrow> hwcn_of_c1hwncoc0 src dst ?idx = Some ?j"
        and pad: "\<not> (q * c0 + k < c \<and> k = co) \<Longrightarrow> hwcn_of_c1hwncoc0 src dst ?idx = None"
        by (auto simp: hwcn_of_c1hwncoc0_def src dst Let_def)
      show ?thesis
        unfolding ci
        by (rule fills_if;
            rule fills_copy_at [OF ok N s(2) refl, where idx = ?idx and j = ?j]
            fills_zero_at [OF ok N(1) refl, where idx = ?idx];
            ((rule wrap_eq_intros)+)?; (rule pad cp, assumption)?; use ix in \<open>simp add: src dst algebra_simps\<close>)
    qed
    done
qed

lemma CopyC1hwncoc0ToHwcn_fills:
  assumes ok: "platform_ok pf sz" and dims: "0 < n" "0 < c" "0 < h" "0 < w" "0 < c0" "c < 2 ^ 63 - c0"
    and src: "src = [Ceil c c0, h, w, n, c0, c0]" and dst: "dst = [h, w, c, n]"
    and N: "prod_list dst * sz < 2 ^ 63" "prod_list src * sz < 2 ^ 63"
    and s: "data args = Some s" "int (length s) = prod_list src * sz"
  shows "fills sz (prod_list dst) (\<lambda>x. gather_elem sz src (c1hwncoc0_of_hwcn src dst) s (unflat dst x))
    {0..<prod_list dst} (CopyC1hwncoc0ToHwcn pf args sz (prod_list dst * sz) h w n c0 c0 c c0)"
proof -
  have nn: "0 \<le> n" "0 \<le> h" "0 \<le> w" "0 \<le> c" using dims by simp_all
  have P: "prod_list dst = 0 + h * (w * (c * n))" by (simp add: dst)
  show ?thesis
    unfolding CopyC1hwncoc0ToHwcn_def Let_def s(1)
    apply (subst (2) P)
    apply (rule fills_for_blocks, simp add: nn, simp add: nn)+
    apply (rule fills_for_elems, simp add: nn)
    subgoal premises ix for a b ci ni
    proof -
      have cs: "0 \<le> ci div c0" "ci div c0 < Ceil c c0" "ci mod c0 < c0" "0 \<le> ci mod c0"
        "ci sdiv c0 = ci div c0" "ci smod c0 = ci mod c0"
        using channel_split [of ci c c0] ix dims by simp_all
      show ?thesis
        unfolding cs(5,6)
        by (rule fills_copy_at [OF ok N s(2) refl, where idx = "[a, b, ci, ni]"
              and j = "[ci div c0, a, b, ni, ci mod c0, ci mod c0]"];
            ((rule wrap_eq_intros)+)?;
            use ix dims cs(1-4) in \<open>simp add: src dst c1hwncoc0_of_hwcn_def algebra_simps\<close>)
    qed
    done
qed

section \<open>The transfers meet their contract\<close>

lemma TransFormatHwcnC1hwncoc0_meets:
  assumes chk: "CheckArgsForHwcnToC1hwncoc0 pf args = Inr ()" and sz: "sz = GetSizeByDataType pf (src_data_type args)"
    and ok: "platform_ok pf sz" and s: "holds_tensor sz (src_shape args) (data args) s"
  shows "transfer_spec pf INTERNAL_ERROR sz (src_shape args) (dst_shape args)
    (hwcn_of_c1hwncoc0 (src_shape args) (dst_shape args)) s result (TransFormatHwcnC1hwncoc0 pf args result)"
proof -
  obtain n c h w c0 where src: "src_shape args = [h, w, c, n]" and c0: "c0 \<le> 32"
    "c0 = GetCubeSizeByDataType pf (src_data_type args)"
    and dst: "dst_shape args = [Ceil c c0, h, w, n, c0, c0]"
    and good: "good_shape (src_shape args)" "good_shape (dst_shape args)"
    using chk by (auto simp: CheckArgsForHwcnToC1hwncoc0_Inr CubeSize_le IsShapeValid_good)
  have "0 \<le> c0" using good(2) by (simp add: good_shape_def dst)
  then have c0p: "0 < c0" using CubeSize_nonneg c0 by simp
  note dims = diagonal_dims [OF good src dst c0p c0(1)]
  note bytes = good_shape_bytes [OF good(2) ok] good_shape_bytes [OF good(1) ok]
  let ?copy = "CopyHwcnToC1hwncoc0 pf args sz (prod_list (dst_shape args) * sz) h w c n (Ceil c c0) c0 c0"
  have eq: "TransFormatHwcnC1hwncoc0 pf args result = checked_trans args (i64 (GetItemNumByShape (dst_shape args) * sz))
      result (alloc_dst pf (prod_list (dst_shape args) * sz) (\<lambda>d. and_then (?copy d)
        (set_result result (prod_list (dst_shape args) * sz))))"
    unfolding TransFormatHwcnC1hwncoc0_def chk on_error_simps and_then_simps Let_def sz [symmetric]
      GetDstDataAfterTrans_HwcnToC1hwncoc0_def src dst at_lits bytes(3) [unfolded dst] ..
  show ?thesis
    unfolding eq
  proof (rule checked_trans_spec [OF good ok _ refl refl])
    show "prod_list (dst_shape args) = 0 \<Longrightarrow> prod_list (src_shape args) = 0" using dims(7) by blast
  qed (rule CopyHwcnToC1hwncoc0_fills [OF ok _ _ _ _ _ _ dst src],
      use dims c0p bytes s in \<open>auto simp: holds_tensor_def\<close>)
qed

text \<open>
  The backward check computes the number of blocks as \<open>(c - 1) / cube_size + 1\<close>, which is \<open>Ceil\<close> for a
  tensor that is not empty.
\<close>

definition c1hwncoc0_accepted :: "platform \<Rightarrow> TransArgs \<Rightarrow> bool" where
  "c1hwncoc0_accepted pf args \<longleftrightarrow>
     CheckArgsForC1hwncoc0ToHwcn pf args = Inr () \<and> prod_list (dst_shape args) \<noteq> 0"

lemma c1hwncoc0_acceptedD:
  assumes "c1hwncoc0_accepted pf args"
  obtains n c h w c0 where "dst_shape args = [h, w, c, n]" "0 < c0" "c0 \<le> 32"
    "c0 = GetCubeSizeByDataType pf (src_data_type args)" "src_shape args = [Ceil c c0, h, w, n, c0, c0]"
    "good_shape (src_shape args)" "good_shape (dst_shape args)" "prod_list (dst_shape args) \<noteq> 0"
proof -
  from assms obtain n c h w c0 where d: "dst_shape args = [h, w, c, n]" "c0 \<le> 32"
    "c0 = GetCubeSizeByDataType pf (src_data_type args)"
    "src_shape args = [i64 (i64 (c - 1) sdiv c0 + 1), h, w, n, c0, c0]"
    "good_shape (src_shape args)" "good_shape (dst_shape args)" "prod_list (dst_shape args) \<noteq> 0"
    by (auto simp: c1hwncoc0_accepted_def CheckArgsForC1hwncoc0ToHwcn_Inr CubeSize_le IsShapeValid_good)
  have "0 \<le> c0" using d(4,5) by (simp add: good_shape_def)
  then have "0 < c0" using CubeSize_nonneg d(3) by simp
  moreover have "c \<noteq> 0" using d(1,7) by auto
  ultimately show ?thesis using d that [of h w c n c0] by (simp add: Ceil_def)
qed

lemma TransFormatC1hwncoc0Hwcn_meets:
  assumes acc: "c1hwncoc0_accepted pf args" and sz: "sz = GetSizeByDataType pf (src_data_type args)"
    and ok: "platform_ok pf sz" and s: "holds_tensor sz (src_shape args) (data args) s"
  shows "transfer_spec pf INTERNAL_ERROR sz (src_shape args) (dst_shape args)
    (c1hwncoc0_of_hwcn (src_shape args) (dst_shape args)) s result (TransFormatC1hwncoc0Hwcn pf args result)"
proof -
  obtain n c h w c0 where dst: "dst_shape args = [h, w, c, n]" and c0: "0 < c0" "c0 \<le> 32"
    "c0 = GetCubeSizeByDataType pf (src_data_type args)" and src: "src_shape args = [Ceil c c0, h, w, n, c0, c0]"
    and good: "good_shape (src_shape args)" "good_shape (dst_shape args)" and ne: "prod_list (dst_shape args) \<noteq> 0"
    using acc by (rule c1hwncoc0_acceptedD)
  note chk = acc [unfolded c1hwncoc0_accepted_def, THEN conjunct1]
  note dims = diagonal_dims [OF good(2,1) dst src c0(1,2)]
  note bytes = good_shape_bytes [OF good(2) ok] good_shape_bytes [OF good(1) ok]
  let ?copy = "CopyC1hwncoc0ToHwcn pf args sz (prod_list (dst_shape args) * sz) h w n c0 c0 c c0"
  have eq: "TransFormatC1hwncoc0Hwcn pf args result = checked_trans args (i64 (GetItemNumByShape (dst_shape args) * sz))
      result (alloc_dst pf (prod_list (dst_shape args) * sz) (\<lambda>d. and_then (?copy d)
        (set_result result (prod_list (dst_shape args) * sz))))"
    unfolding TransFormatC1hwncoc0Hwcn_def chk on_error_simps and_then_simps Let_def sz [symmetric]
      GetDstDataAfterTrans_C1hwncoc0ToHwcn_def src dst at_lits bytes(3) [unfolded dst] c0(3) [symmetric] ..
  show ?thesis
    unfolding eq
  proof (rule checked_trans_spec [OF good ok _ refl refl])
    show "prod_list (dst_shape args) = 0 \<Longrightarrow> prod_list (src_shape args) = 0" using ne by simp
  qed (rule CopyC1hwncoc0ToHwcn_fills [OF ok _ _ _ _ _ _ src dst],
      use dims c0 bytes s in \<open>auto simp: holds_tensor_def\<close>)
qed

lemma c1hwncoc0_shapes: "c1hwncoc0_accepted pf args \<Longrightarrow> good_shape (src_shape args)"
  by (auto simp: c1hwncoc0_accepted_def CheckArgsForC1hwncoc0ToHwcn_Inr IsShapeValid_good)

interpretation c1hwncoc0: transfer_pair
  "\<lambda>pf args. CheckArgsForHwcnToC1hwncoc0 pf args = Inr ()" TransFormatHwcnC1hwncoc0 hwcn_of_c1hwncoc0 INTERNAL_ERROR
  c1hwncoc0_accepted TransFormatC1hwncoc0Hwcn c1hwncoc0_of_hwcn INTERNAL_ERROR
proof unfold_locales
  fix pf args r assume chk: "CheckArgsForHwcnToC1hwncoc0 pf args = Inr ()"
  obtain n c h w c0 where src: "src_shape args = [h, w, c, n]" and c0: "c0 \<le> 32"
    "c0 = GetCubeSizeByDataType pf (src_data_type args)"
    and dst: "dst_shape args = [Ceil c c0, h, w, n, c0, c0]"
    and good: "good_shape (src_shape args)" "good_shape (dst_shape args)"
    using chk by (auto simp: CheckArgsForHwcnToC1hwncoc0_Inr CubeSize_le IsShapeValid_good)
  have "0 \<le> c0" using good(2) by (simp add: good_shape_def dst)
  then have c0p: "0 < c0" using CubeSize_nonneg c0 by simp
  note dims = diagonal_dims [OF good src dst c0p c0(1)]
  show "c1hwncoc0_accepted pf (args_back args r) \<and> prod_list (dst_shape args) \<noteq> 0"
    if ne: "prod_list (src_shape args) \<noteq> 0"
  proof -
    have "c \<noteq> 0" using ne src by auto
    then have "Ceil c c0 = i64 (i64 (c - 1) sdiv c0 + 1)" using c0p by (simp add: Ceil_def)
    then show ?thesis
      using dims(7) ne chk src dst c0
      by (auto simp: c1hwncoc0_accepted_def CheckArgsForHwcnToC1hwncoc0_Inr CheckArgsForC1hwncoc0ToHwcn_Inr)
  qed
  show "\<exists>j. c1hwncoc0_of_hwcn (dst_shape args) (src_shape args) idx = Some j \<and> valid_index (dst_shape args) j \<and>
      hwcn_of_c1hwncoc0 (src_shape args) (dst_shape args) j = Some idx"
    if v: "valid_index (src_shape args) idx" for idx
  proof -
    have "c < 2 ^ 63" using dims(5) prod_list_pos_of_valid [OF v] c0p by simp
    then show ?thesis
      using v c0p channel_split [of _ c c0]
      by (auto simp: src dst valid_index_Cons c1hwncoc0_of_hwcn_def hwcn_of_c1hwncoc0_def Let_def div_mult_mod_eq)
  qed
qed (use c1hwncoc0_shapes in \<open>auto simp: CheckArgsForHwcnToC1hwncoc0_Inr IsShapeValid_good
    intro!: TransFormatHwcnC1hwncoc0_meets TransFormatC1hwncoc0Hwcn_meets\<close>)

section \<open>Properties\<close>

definition c1hwncoc0_sample :: TransArgs where
  "c1hwncoc0_sample = sample_args FORMAT_HWCN FORMAT_C1HWNCoC0 [1, 1, 1, 1] [1, 1, 1, 1, 16, 16] DT_FLOAT16 [Some 1, Some 2]"

lemma c1hwncoc0_sample_ok:
  "CheckArgsForHwcnToC1hwncoc0 sample_platform c1hwncoc0_sample = Inr ()"
  "platform_ok sample_platform (GetSizeByDataType sample_platform (src_data_type c1hwncoc0_sample))"
  "holds_tensor (GetSizeByDataType sample_platform (src_data_type c1hwncoc0_sample)) (src_shape c1hwncoc0_sample)
     (data c1hwncoc0_sample) [Some 1, Some 2]"
  "new_succeeds sample_platform (prod_list (dst_shape c1hwncoc0_sample) *
     GetSizeByDataType sample_platform (src_data_type c1hwncoc0_sample))"
  "prod_list (dst_shape c1hwncoc0_sample) \<noteq> 0" "prod_list (src_shape c1hwncoc0_sample) \<noteq> 0"
  "new_succeeds sample_platform (prod_list (src_shape c1hwncoc0_sample) *
     GetSizeByDataType sample_platform (src_data_type c1hwncoc0_sample))"
  by (simp_all add: CheckArgsForHwcnToC1hwncoc0_Inr c1hwncoc0_sample_def sample_defs platform_ok_def
    holds_tensor_def GetCubeSizeByDataType_def kCubeSize_def kShapeItemNumMAX_def IsShapeValid_def Ceil_def
    CheckDataTypeSupported_C1hwncoc0_def)

text \<open>C20: HWCN to C1HWNCoC0. Element \<open>[c1, h, w, n, co, k]\<close> of the result is source element
  \<open>[h, w, c1 * c0 + k, n]\<close> on the diagonal \<open>co = k\<close> of a channel block, and zero off the diagonal and in the
  padding; the transfer always returns, inside both buffers.\<close>

theorem hwcn_to_c1hwncoc0_correct:
  assumes "CheckArgsForHwcnToC1hwncoc0 pf args = Inr ()"
    and "sz = GetSizeByDataType pf (src_data_type args)" "platform_ok pf sz"
    and "holds_tensor sz (src_shape args) (data args) s"
  shows "transfer_spec pf INTERNAL_ERROR sz (src_shape args) (dst_shape args)
    (hwcn_of_c1hwncoc0 (src_shape args) (dst_shape args)) s result (TransFormatHwcnC1hwncoc0 pf args result)"
  using assms by (rule TransFormatHwcnC1hwncoc0_meets)

theorem hwcn_to_c1hwncoc0_correct_witness:
  "CheckArgsForHwcnToC1hwncoc0 sample_platform c1hwncoc0_sample = Inr () \<and>
   transfer_spec sample_platform INTERNAL_ERROR (GetSizeByDataType sample_platform (src_data_type c1hwncoc0_sample))
     (src_shape c1hwncoc0_sample) (dst_shape c1hwncoc0_sample)
     (hwcn_of_c1hwncoc0 (src_shape c1hwncoc0_sample) (dst_shape c1hwncoc0_sample)) [Some 1, Some 2] no_result
     (TransFormatHwcnC1hwncoc0 sample_platform c1hwncoc0_sample no_result)"
  by (intro conjI c1hwncoc0_sample_ok(1) hwcn_to_c1hwncoc0_correct [OF c1hwncoc0_sample_ok(1) refl c1hwncoc0_sample_ok(2,3)])

text \<open>A tensor taken from HWCN to C1HWNCoC0 comes back byte for byte.\<close>

theorem hwcn_c1hwncoc0_roundtrip:
  assumes "CheckArgsForHwcnToC1hwncoc0 pf args = Inr ()"
    and "sz = GetSizeByDataType pf (src_data_type args)" "platform_ok pf sz"
    and "holds_tensor sz (src_shape args) (data args) s" "prod_list (src_shape args) \<noteq> 0"
    and "TransFormatHwcnC1hwncoc0 pf args result = Inr r"
    and "new_succeeds pf (prod_list (src_shape args) * sz)"
  shows "TransFormatC1hwncoc0Hwcn pf (args_back args r) result' =
    Inr (result'\<lparr>res_data := Some s, res_length := int (length s)\<rparr>)"
  using assms by (rule c1hwncoc0.roundtrip)

theorem hwcn_c1hwncoc0_roundtrip_witness:
  "\<exists>r. TransFormatHwcnC1hwncoc0 sample_platform c1hwncoc0_sample no_result = Inr r \<and>
     TransFormatC1hwncoc0Hwcn sample_platform (args_back c1hwncoc0_sample r) no_result =
       Inr (no_result\<lparr>res_data := Some [Some 1, Some 2], res_length := 2\<rparr>)"
proof -
  note h = c1hwncoc0_sample_ok
  obtain r where r: "TransFormatHwcnC1hwncoc0 sample_platform c1hwncoc0_sample no_result = Inr r"
    by (rule c1hwncoc0.fwd.returns [OF h(1) refl h(2-5), of no_result]) blast
  have "TransFormatC1hwncoc0Hwcn sample_platform (args_back c1hwncoc0_sample r) no_result =
      Inr (no_result\<lparr>res_data := Some [Some 1, Some 2],
        res_length := int (length ([Some 1, Some 2] :: mem))\<rparr>)"
    by (rule hwcn_c1hwncoc0_roundtrip [OF h(1) refl h(2,3,6) r h(7)])
  with r show ?thesis by simp
qed

text \<open>
  On a tensor with no channels the two directions disagree: the forward transfer succeeds with an empty
  result, but the backward check, which does not use \<open>Ceil\<close>, refuses the shape it produced.
\<close>

definition c1hwncoc0_empty :: TransArgs where
  "c1hwncoc0_empty = sample_args FORMAT_HWCN FORMAT_C1HWNCoC0 [1, 1, 0, 1] [0, 1, 1, 1, 16, 16] DT_FLOAT16 []"

lemma c1hwncoc0_no_channels:
  "TransFormatHwcnC1hwncoc0 sample_platform c1hwncoc0_empty no_result = Inr no_result"
  "TransFormatC1hwncoc0Hwcn sample_platform (args_back c1hwncoc0_empty no_result) no_result = Inl (Ret PARAM_INVALID)"
  by code_simp+

end
