(* ===== verification/Trans_Fracz3D.thy ===== *)
theory Trans_Fracz3D
  imports Transfer_Spec
begin

text \<open>
  The transfers of 5D convolution weights to FRACTAL\_Z\_3D and FRACTAL\_Z\_3D\_TRANSPOSE:
  \<open>format_transfer_dhwcn_fracz3D.cc\<close> and \<open>format_transfer_dhwnc_fracz3D_transpose.cc\<close>. Both files have
  the same helpers; the second exchanges the roles of the last two axes of the source.
\<close>

section \<open>Shapes\<close>

definition CheckDataTypeSupport_3D :: "platform \<Rightarrow> DataType \<Rightarrow> Status" where
  "CheckDataTypeSupport_3D pf data_type = (if GetSizeByDataType pf data_type > 0 then SUCCESS else UNSUPPORTED)"

definition TransShapeToFz_3D ::
  "platform \<Rightarrow> int \<Rightarrow> int \<Rightarrow> int \<Rightarrow> int \<Rightarrow> int \<Rightarrow> DataType \<Rightarrow> int list res" where
  "TransShapeToFz_3D pf d n c h w data_type =
     (let c0 = GetCubeSizeByDataType pf data_type in
      if c0 < 0 then Inl (Ret ACL_ERROR_GE_TRANSSHAPE_DATATYPE_INVALID)
      else
        let c1 = Ceil c c0;
            no = Ceil n kNiSize
        in Inr [i64 (d * c1 * h * w), no, kNiSize, c0])"

definition TransShapeDhwckToFz3D :: "platform \<Rightarrow> int list \<Rightarrow> DataType \<Rightarrow> int list res" where
  "TransShapeDhwckToFz3D pf s_shape data_type =
     (if \<not> CheckShapeValid s_shape kDhwcnDimsNum then Inl (Ret ACL_ERROR_GE_TRANSSHAPE_SHAPE_INVALID)
      else
        at s_shape kDhwcnD (\<lambda>d. at s_shape kDhwcnH (\<lambda>h. at s_shape kDhwcnW (\<lambda>w.
        at s_shape kDhwcnC (\<lambda>c. at s_shape kDhwcnN (\<lambda>n.
        TransShapeToFz_3D pf d n c h w data_type))))))"

definition TransShapeDhwncToFz3DTranspose :: "platform \<Rightarrow> int list \<Rightarrow> DataType \<Rightarrow> int list res" where
  "TransShapeDhwncToFz3DTranspose pf s_shape data_type =
     (if \<not> CheckShapeValid s_shape kDhwncDimsNum then Inl (Ret ACL_ERROR_GE_TRANSSHAPE_SHAPE_INVALID)
      else
        at s_shape kDhwncD (\<lambda>d. at s_shape kDhwncH (\<lambda>h. at s_shape kDhwncW (\<lambda>w.
        at s_shape kDhwncN (\<lambda>n. at s_shape kDhwncC (\<lambda>c.
        TransShapeToFz_3D pf d c n h w data_type))))))"

definition TransShapeDhwcnFractalZ3D ::
  "platform \<Rightarrow> Format \<Rightarrow> int list \<Rightarrow> DataType \<Rightarrow> Format \<Rightarrow> int list res" where
  "TransShapeDhwcnFractalZ3D pf s_format s_shape data_type d_format =
     (if CheckDataTypeSupport_3D pf data_type \<noteq> SUCCESS then Inl (Ret ACL_ERROR_GE_TRANSSHAPE_DATATYPE_INVALID)
      else if s_format = FORMAT_DHWCN \<and> d_format = FORMAT_FRACTAL_Z_3D
      then TransShapeDhwckToFz3D pf s_shape data_type
      else Inl (Ret ACL_ERROR_GE_TRANSSHAPE_FORMAT_INVALID))"

definition TransShapeDhwncFractalZ3DTranspose ::
  "platform \<Rightarrow> Format \<Rightarrow> int list \<Rightarrow> DataType \<Rightarrow> Format \<Rightarrow> int list res" where
  "TransShapeDhwncFractalZ3DTranspose pf s_format s_shape data_type d_format =
     (if CheckDataTypeSupport_3D pf data_type \<noteq> SUCCESS then Inl (Ret ACL_ERROR_GE_TRANSSHAPE_DATATYPE_INVALID)
      else if s_format = FORMAT_DHWNC \<and> d_format = FORMAT_FRACTAL_Z_3D_TRANSPOSE
      then TransShapeDhwncToFz3DTranspose pf s_shape data_type
      else Inl (Ret ACL_ERROR_GE_TRANSSHAPE_FORMAT_INVALID))"

section \<open>Data\<close>

definition CopyDhwckToFz3D ::
  "platform \<Rightarrow> TransArgs \<Rightarrow> int \<Rightarrow> int \<Rightarrow> int \<Rightarrow> int \<Rightarrow> int \<Rightarrow> int \<Rightarrow> int \<Rightarrow> int \<Rightarrow> mem option \<Rightarrow> mem option res"
where
  "CopyDhwckToFz3D pf args data_size dst_size d h w c n c0 =
     (let n1n0 = i64 (Ceil n kNiSize * kNiSize);
          c1 = Ceil c c0;
          cn = i64 (c * n);
          wcn = i64 (w * cn);
          hwcn = i64 (h * wcn);
          n1n0c0 = i64 (n1n0 * c0);
          wn1n0c0 = i64 (w * n1n0c0);
          hwn1n0c0 = i64 (h * wn1n0c0);
          c1hwn1n0c0 = i64 (c1 * hwn1n0c0)
      in for_lt d (\<lambda>di. for_lt c1 (\<lambda>c1i. for_lt h (\<lambda>hi. for_lt w (\<lambda>wi. for_lt n1n0 (\<lambda>n1n0i. for_lt c0 (\<lambda>c0i dst.
        let dst_idx = i64 (di * c1hwn1n0c0 + c1i * hwn1n0c0 + hi * wn1n0c0 + wi * n1n0c0 + n1n0i * c0 + c0i);
            dst_offset = i64 (dst_idx * data_size);
            pad_zero = (i64 (c1i * c0 + c0i) \<ge> c \<or> n1n0i \<ge> n)
        in if pad_zero
           then check_eok (memset_s pf dst dst_offset (protected_size pf dst_size dst_offset) data_size)
           else
             let src_idx = i64 (di * hwcn + hi * wcn + wi * cn + (c1i * c0 + c0i) * n + n1n0i)
             in check_eok (memcpy_s pf dst dst_offset (protected_size pf dst_size dst_offset)
                  (data args) (i64 (src_idx * data_size)) data_size)))))))) "

definition TransFormatDhwckToFz3D :: "platform \<Rightarrow> TransArgs \<Rightarrow> TransResult \<Rightarrow> TransResult res" where
  "TransFormatDhwckToFz3D pf args result =
     (if \<not> CheckShapeValid (src_shape args) kDhwcnDimsNum then Inl (Ret PARAM_INVALID)
      else
        at (src_shape args) kDhwcnD (\<lambda>d. at (src_shape args) kDhwcnH (\<lambda>h. at (src_shape args) kDhwcnW (\<lambda>w.
        at (src_shape args) kDhwcnC (\<lambda>c. at (src_shape args) kDhwcnN (\<lambda>n.
        let c0 = GetCubeSizeByDataType pf (src_data_type args);
            data_size = GetSizeByDataType pf (src_data_type args);
            dst_size = foldl (\<lambda>dst_size dim. i64 (dst_size * dim)) 1 (dst_shape args);
            dst_size = i64 (dst_size * data_size)
        in nonempty_trans dst_size result (alloc_dst pf dst_size (\<lambda>dst.
             and_then (CopyDhwckToFz3D pf args data_size dst_size d h w c n c0 dst)
               (set_result result dst_size)))))))))"

definition TransFormatDhwncToFz3DTranspose :: "platform \<Rightarrow> TransArgs \<Rightarrow> TransResult \<Rightarrow> TransResult res" where
  "TransFormatDhwncToFz3DTranspose pf args result =
     (if \<not> CheckShapeValid (src_shape args) kDhwncDimsNum then Inl (Ret PARAM_INVALID)
      else
        at (src_shape args) kDhwncD (\<lambda>d. at (src_shape args) kDhwncH (\<lambda>h. at (src_shape args) kDhwncW (\<lambda>w.
        at (src_shape args) kDhwncN (\<lambda>c. at (src_shape args) kDhwncC (\<lambda>n.
        let c0 = GetCubeSizeByDataType pf (src_data_type args);
            data_size = GetSizeByDataType pf (src_data_type args);
            dst_size = foldl (\<lambda>dst_size dim. i64 (dst_size * dim)) 1 (dst_shape args);
            dst_size = i64 (dst_size * data_size)
        in nonempty_trans dst_size result (alloc_dst pf dst_size (\<lambda>dst.
             and_then (CopyDhwckToFz3D pf args data_size dst_size d h w c n c0 dst)
               (set_result result dst_size)))))))))"

definition TransFormatDhwcnFractalZ3D :: "platform \<Rightarrow> TransArgs \<Rightarrow> TransResult \<Rightarrow> TransResult res" where
  "TransFormatDhwcnFractalZ3D pf args result =
     and_then (TransShapeDhwcnFractalZ3D pf (src_format args) (src_shape args) (src_data_type args) (dst_format args))
       (\<lambda>expect_shape.
         if \<not> IsTransShapeDstCorrect args expect_shape then Inl (Ret PARAM_INVALID)
         else if src_format args = FORMAT_DHWCN \<and> dst_format args = FORMAT_FRACTAL_Z_3D
         then TransFormatDhwckToFz3D pf args result
         else Inl (Ret UNSUPPORTED))"

definition TransFormatDhwncFractalZ3DTranspose :: "platform \<Rightarrow> TransArgs \<Rightarrow> TransResult \<Rightarrow> TransResult res" where
  "TransFormatDhwncFractalZ3DTranspose pf args result =
     and_then (TransShapeDhwncFractalZ3DTranspose pf (src_format args) (src_shape args) (src_data_type args)
         (dst_format args))
       (\<lambda>expect_shape.
         if \<not> IsTransShapeDstCorrect args expect_shape then Inl (Ret PARAM_INVALID)
         else if src_format args = FORMAT_DHWNC \<and> dst_format args = FORMAT_FRACTAL_Z_3D_TRANSPOSE
         then TransFormatDhwncToFz3DTranspose pf args result
         else Inl (Ret UNSUPPORTED))"

section \<open>The layout map\<close>

text \<open>
  Element \<open>[v, no, ni, k]\<close> of the destination, with \<open>v = (di * c1 + c1i) * h * w + x\<close>, is source element
  \<open>[di, x div w, x mod w, c1i * c0 + k, no * 16 + ni]\<close> or padding. For the transposed format the fourth source
  axis is N and the fifth is C.
\<close>

definition dhw_of_fz3d :: layout_map where
  "dhw_of_fz3d src dst idx = (case (src, idx) of
     ([d, h, w, c, n], [v, no, ni, k]) \<Rightarrow>
       (let c0 = dst ! 3; hw = h * w; y = v mod (Ceil c c0 * hw); ci = y div hw * c0 + k; nn = no * 16 + ni; x = y mod hw
        in if nn < n \<and> ci < c then Some [v div (Ceil c c0 * hw), x div w, x mod w, ci, nn] else None)
   | _ \<Rightarrow> None)"

lemma dhw_of_fz3d_at:
  assumes "0 \<le> q" "q < Ceil c c0" "0 \<le> a" "a < h" "0 \<le> b" "b < w"
  shows "dhw_of_fz3d [d, h, w, c, n] [x0, x1, x2, c0] [di * (Ceil c c0 * (h * w)) + (q * (h * w) + (a * w + b)), no, ni, k] =
    (if no * 16 + ni < n \<and> q * c0 + k < c then Some [di, a, b, q * c0 + k, no * 16 + ni] else None)"
proof -
  have x: "0 \<le> a * w + b" "a * w + b < h * w" using block_bound [of a h b w] assms by simp_all
  have y: "0 \<le> q * (h * w) + (a * w + b)" "q * (h * w) + (a * w + b) < Ceil c c0 * (h * w)"
    using block_bound [of q "Ceil c c0" _ "h * w"] assms x by simp_all
  note dm = block_div_mod [OF y, of di] block_div_mod [OF x, of q] block_div_mod [of b w a]
  show ?thesis
    using assms dm by (simp add: dhw_of_fz3d_def Let_def)
qed

section \<open>Dimensions\<close>

lemma fz3d_dims:
  assumes good: "good_shape src" and src: "src = [d, h, w, c, n]" and c0: "0 < c0" "c0 \<le> 32"
    and dst: "dst = [i64 (d * Ceil c c0 * h * w), Ceil n 16, 16, c0]"
    and ne: "prod_list src \<noteq> 0 \<or> prod_list dst \<noteq> 0"
  shows "0 < d" "0 < n" "0 < c" "0 < h" "0 < w" "c < 2 ^ 63 - c0" "n < 2 ^ 63 - 16"
    "i64 (d * Ceil c c0 * h * w) = d * (Ceil c c0 * (h * w))" "0 < prod_list dst" "prod_list dst \<le> 2 ^ 49"
proof -
  have nn: "0 \<le> d" "0 \<le> n" "0 \<le> c" "0 \<le> h" "0 \<le> w" using good by (auto simp: good_shape_def src)
  have z: "d \<noteq> 0" "n \<noteq> 0" "c \<noteq> 0" "h \<noteq> 0" "w \<noteq> 0" using ne by (auto simp: src dst Ceil_def)
  then have p: "prod_list src \<noteq> 0" by (simp add: src)
  show pos: "0 < d" "0 < n" "0 < c" "0 < h" "0 < w" using nn z by simp_all
  have le: "c \<le> 2 ^ 40" "n \<le> 2 ^ 40" using good_shape_dim [OF good p] by (simp_all add: src)
  then show "c < 2 ^ 63 - c0" "n < 2 ^ 63 - 16" using c0 by simp_all
  have cb: "0 < Ceil c c0" "Ceil c c0 \<le> c" "Ceil c c0 * c0 < c + c0" "0 < Ceil n 16" "Ceil n 16 \<le> n"
    using Ceil_bounds [of c c0] Ceil_bounds [of n 16] pos le c0 by simp_all
  have A: "0 < d * (h * w)" using pos by simp
  have src40: "c * (d * (h * w)) * n \<le> 2 ^ 40"
    using good_shape_prod [OF good] by (simp add: src shape_max_pow algebra_simps)
  have "Ceil c c0 * (d * (h * w)) \<le> c * (d * (h * w))" using cb A by (intro mult_right_mono) simp_all
  also have "\<dots> \<le> c * (d * (h * w)) * n" using mult_left_mono [of 1 n "c * (d * (h * w))"] pos A by simp
  finally have u: "Ceil c c0 * (d * (h * w)) \<le> 2 ^ 40" using src40 by linarith
  moreover have "0 < Ceil c c0 * (d * (h * w))" using cb A by simp
  ultimately show e: "i64 (d * Ceil c c0 * h * w) = d * (Ceil c c0 * (h * w))" by (simp add: algebra_simps)
  have "Ceil c c0 * (d * (h * w)) * Ceil n 16 \<le> c * (d * (h * w)) * n"
    using cb A pos by (intro mult_mono) simp_all
  then have "Ceil c c0 * (d * (h * w)) * Ceil n 16 * (16 * c0) \<le> 2 ^ 40 * (16 * 32)"
    using src40 c0 by (intro mult_mono) simp_all
  moreover have "prod_list dst = Ceil c c0 * (d * (h * w)) * Ceil n 16 * (16 * c0)"
    unfolding dst prod_list.Cons prod_list.Nil e by simp
  ultimately show "prod_list dst \<le> 2 ^ 49" by simp
  show "0 < prod_list dst" using A cb c0 pos by (simp add: dst e)
qed

section \<open>The loops fill the destination\<close>

lemma CopyDhwckToFz3D_fills:
  assumes ok: "platform_ok pf sz" and dims: "0 < d" "0 < n" "0 < c" "0 < h" "0 < w" "0 < c0"
    "c < 2 ^ 63 - c0" "n < 2 ^ 63 - 16"
    and dst: "dst = [d * (Ceil c c0 * (h * w)), Ceil n 16, 16, c0]" and src: "src = [d, h, w, c, n]"
    and N: "prod_list dst * sz < 2 ^ 63" "prod_list src * sz < 2 ^ 63"
    and s: "data args = Some s" "int (length s) = prod_list src * sz"
  shows "fills sz (prod_list dst) (\<lambda>x. gather_elem sz src (dhw_of_fz3d src dst) s (unflat dst x))
    {0..<prod_list dst} (CopyDhwckToFz3D pf args sz (prod_list dst * sz) d h w c n c0)"
proof -
  have cb: "0 \<le> Ceil c c0" "Ceil c c0 * c0 < c + c0" "0 \<le> Ceil n 16" "Ceil n 16 * 16 < n + 16"
    using Ceil_bounds [of c c0] Ceil_bounds [of n 16] dims by simp_all
  have n1n0: "i64 (Ceil n kNiSize * kNiSize) = Ceil n 16 * 16" using cb dims by (simp add: kNiSize_def)
  have nn: "0 \<le> d" "0 \<le> n" "0 \<le> h" "0 \<le> w" "0 \<le> c0" using dims by simp_all
  have P: "prod_list dst = 0 + d * (Ceil c c0 * (h * (w * ((Ceil n 16 * 16) * c0))))" by (simp add: dst)
  show ?thesis
    unfolding CopyDhwckToFz3D_def Let_def n1n0 s(1)
    apply (subst (2) P)
    apply (rule fills_for_blocks, simp add: nn cb, simp add: nn cb)+
    apply (rule fills_for_elems, simp add: nn cb)
    subgoal premises ix for di q a b n1n0i k
    proof -
      obtain no ni where ni: "n1n0i = no * 16 + ni" "0 \<le> no" "no < Ceil n 16" "0 \<le> ni" "ni < 16"
        using block_split [of n1n0i "Ceil n 16" 16] ix by auto
      have ci: "i64 (q * c0 + k) = q * c0 + k"
        using block_bound [of q "Ceil c c0" k c0] ix cb dims by simp
      have y: "0 \<le> q * (h * w) + (a * w + b)" "q * (h * w) + (a * w + b) < Ceil c c0 * (h * w)"
        using block_bound [of q "Ceil c c0" "a * w + b" "h * w"] block_bound [of a h b w] ix by simp_all
      let ?v = "di * (Ceil c c0 * (h * w)) + (q * (h * w) + (a * w + b))"
      have v: "0 \<le> ?v" "?v < d * (Ceil c c0 * (h * w))" using block_bound [OF _ _ y, of di d] ix by simp_all
      let ?idx = "[?v, no, ni, k]" and ?j = "[di, a, b, q * c0 + k, n1n0i]"
      have m: "dhw_of_fz3d src dst ?idx = (if n1n0i < n \<and> q * c0 + k < c then Some ?j else None)"
        using dhw_of_fz3d_at [of q c c0 a h b w] ix by (simp add: src dst ni(1))
      have pad: "c \<le> q * c0 + k \<or> n \<le> n1n0i \<Longrightarrow> dhw_of_fz3d src dst ?idx = None"
        and cp: "\<not> (c \<le> q * c0 + k \<or> n \<le> n1n0i) \<Longrightarrow> dhw_of_fz3d src dst ?idx = Some ?j"
        unfolding m by auto
      show ?thesis
        unfolding ci
        by (rule fills_if;
            rule fills_copy_at [OF ok N s(2) refl, where idx = ?idx and j = ?j]
            fills_zero_at [OF ok N(1) refl, where idx = ?idx];
            ((rule wrap_eq_intros)+)?; (rule pad cp, assumption)?; use ix ni v in \<open>simp add: src dst algebra_simps not_le\<close>)
    qed
    done
qed

section \<open>The transfers meet their contract\<close>

definition dhwcn_accepted :: "platform \<Rightarrow> TransArgs \<Rightarrow> bool" where
  "dhwcn_accepted pf args \<longleftrightarrow> src_format args = FORMAT_DHWCN \<and> dst_format args = FORMAT_FRACTAL_Z_3D \<and>
     TransShapeDhwcnFractalZ3D pf (src_format args) (src_shape args) (src_data_type args) (dst_format args) =
       Inr (dst_shape args)"

definition dhwnc_accepted :: "platform \<Rightarrow> TransArgs \<Rightarrow> bool" where
  "dhwnc_accepted pf args \<longleftrightarrow> src_format args = FORMAT_DHWNC \<and> dst_format args = FORMAT_FRACTAL_Z_3D_TRANSPOSE \<and>
     TransShapeDhwncFractalZ3DTranspose pf (src_format args) (src_shape args) (src_data_type args) (dst_format args) =
       Inr (dst_shape args)"

definition fz3d_shapes :: "platform \<Rightarrow> TransArgs \<Rightarrow> bool" where
  "fz3d_shapes pf args \<longleftrightarrow> 0 < GetSizeByDataType pf (src_data_type args) \<and> IsShapeValid (src_shape args) \<and>
     (\<exists>d h w c n c0. src_shape args = [d, h, w, c, n] \<and> c0 = GetCubeSizeByDataType pf (src_data_type args) \<and>
        dst_shape args = [i64 (d * Ceil c c0 * h * w), Ceil n 16, 16, c0])"

lemma fz3d_accepted_shapes:
  "dhwcn_accepted pf args \<Longrightarrow> fz3d_shapes pf args" "dhwnc_accepted pf args \<Longrightarrow> fz3d_shapes pf args"
  by (auto simp: dhwcn_accepted_def dhwnc_accepted_def fz3d_shapes_def TransShapeDhwcnFractalZ3D_def
      TransShapeDhwncFractalZ3DTranspose_def CheckDataTypeSupport_3D_def TransShapeDhwckToFz3D_def
      TransShapeDhwncToFz3DTranspose_def TransShapeToFz_3D_def CheckShapeValid_iff length_5D kNiSize_def Let_def
      split: if_splits)

lemma fz3d_meets:
  assumes acc: "fz3d_shapes pf args" and sz: "sz = GetSizeByDataType pf (src_data_type args)"
    and ok: "platform_ok pf sz" and s: "holds_tensor sz (src_shape args) (data args) s"
  shows "transfer_spec pf OUT_OF_MEMORY sz (src_shape args) (dst_shape args)
    (dhw_of_fz3d (src_shape args) (dst_shape args)) s result (TransFormatDhwckToFz3D pf args result)"
proof -
  obtain d h w c n c0 where src: "src_shape args = [d, h, w, c, n]" and c0: "0 < c0" "c0 \<le> 32"
    "c0 = GetCubeSizeByDataType pf (src_data_type args)" and valid: "IsShapeValid (src_shape args)"
    and dst: "dst_shape args = [i64 (d * Ceil c c0 * h * w), Ceil n 16, 16, c0]"
    using acc by (auto simp: fz3d_shapes_def CubeSize_le CubeSize_pos)
  note good = IsShapeValid_good [OF valid]
  note dims = fz3d_dims [OF good src c0(1,2) dst]
  have bnd: "0 \<le> prod_list (dst_shape args)" "prod_list (dst_shape args) * sz < 2 ^ 63"
  proof -
    show p: "0 \<le> prod_list (dst_shape args)" using dims(9) by (cases "prod_list (dst_shape args) = 0") auto
    have "prod_list (dst_shape args) \<le> 2 ^ 49" using dims(10) by (cases "prod_list (dst_shape args) = 0") auto
    then have "prod_list (dst_shape args) * sz \<le> 2 ^ 49 * 2 ^ 12"
      using ok p by (intro mult_mono) (auto simp: platform_ok_def)
    then show "prod_list (dst_shape args) * sz < 2 ^ 63" by simp
  qed
  have tot: "i64 (foldl (\<lambda>dst_size dim. i64 (dst_size * dim)) 1 (dst_shape args) * sz) = prod_list (dst_shape args) * sz"
    using bnd ok by (simp add: foldl_i64_mult i64_simps platform_ok_def)
  have dst': "dst_shape args = [d * (Ceil c c0 * (h * w)), Ceil n 16, 16, c0]" if "0 < prod_list (dst_shape args)"
    unfolding dst using dims(8) that by simp
  have chk: "(\<not> CheckShapeValid [d, h, w, c, n] 5) = False" using valid by (simp add: CheckShapeValid_iff src)
  have eq: "TransFormatDhwckToFz3D pf args result = nonempty_trans (prod_list (dst_shape args) * sz) result
      (alloc_dst pf (prod_list (dst_shape args) * sz) (\<lambda>dst.
        and_then (CopyDhwckToFz3D pf args sz (prod_list (dst_shape args) * sz) d h w c n c0 dst)
          (set_result result (prod_list (dst_shape args) * sz))))"
    by (simp only: TransFormatDhwckToFz3D_def src chk if_False at_lits Let_def sz [symmetric] c0(3) [symmetric] tot)
  show ?thesis
    unfolding eq
    by (rule nonempty_trans_spec [OF ok bnd refl refl], rule CopyDhwckToFz3D_fills [OF ok _ _ _ _ _ _ _ _ dst' src])
      (use dims c0 bnd good_shape_bytes [OF good ok] s in \<open>auto simp: holds_tensor_def\<close>)
qed

lemma fz3d_same: "TransFormatDhwncToFz3DTranspose = TransFormatDhwckToFz3D"
  by (intro ext) (simp only: TransFormatDhwncToFz3DTranspose_def TransFormatDhwckToFz3D_def)

lemma TransFormatDhwcnFractalZ3D_run:
  "dhwcn_accepted pf args \<Longrightarrow> TransFormatDhwcnFractalZ3D pf args result = TransFormatDhwckToFz3D pf args result"
  by (auto simp: dhwcn_accepted_def TransFormatDhwcnFractalZ3D_def)

lemma TransFormatDhwncFractalZ3DTranspose_run:
  "dhwnc_accepted pf args \<Longrightarrow> TransFormatDhwncFractalZ3DTranspose pf args result = TransFormatDhwckToFz3D pf args result"
  by (auto simp: dhwnc_accepted_def TransFormatDhwncFractalZ3DTranspose_def fz3d_same)

interpretation dhwcn: transfer dhwcn_accepted TransFormatDhwcnFractalZ3D dhw_of_fz3d OUT_OF_MEMORY
proof
  fix pf args assume acc: "dhwcn_accepted pf args"
  then show "good_shape (src_shape args)"
    using fz3d_accepted_shapes(1) IsShapeValid_good by (auto simp: fz3d_shapes_def)
  show "transfer_spec pf OUT_OF_MEMORY sz (src_shape args) (dst_shape args)
      (dhw_of_fz3d (src_shape args) (dst_shape args)) s result (TransFormatDhwcnFractalZ3D pf args result)"
    if "sz = GetSizeByDataType pf (src_data_type args)" "platform_ok pf sz"
      "holds_tensor sz (src_shape args) (data args) s" for sz s result
    using fz3d_meets [OF fz3d_accepted_shapes(1) [OF acc] that]
    by (simp add: TransFormatDhwcnFractalZ3D_run [OF acc])
qed

interpretation dhwnc: transfer dhwnc_accepted TransFormatDhwncFractalZ3DTranspose dhw_of_fz3d OUT_OF_MEMORY
proof
  fix pf args assume acc: "dhwnc_accepted pf args"
  then show "good_shape (src_shape args)"
    using fz3d_accepted_shapes(2) IsShapeValid_good by (auto simp: fz3d_shapes_def)
  show "transfer_spec pf OUT_OF_MEMORY sz (src_shape args) (dst_shape args)
      (dhw_of_fz3d (src_shape args) (dst_shape args)) s result (TransFormatDhwncFractalZ3DTranspose pf args result)"
    if "sz = GetSizeByDataType pf (src_data_type args)" "platform_ok pf sz"
      "holds_tensor sz (src_shape args) (data args) s" for sz s result
    using fz3d_meets [OF fz3d_accepted_shapes(2) [OF acc] that]
    by (simp add: TransFormatDhwncFractalZ3DTranspose_run [OF acc])
qed

section \<open>Properties\<close>

definition dhwcn_sample :: TransArgs where
  "dhwcn_sample = sample_args FORMAT_DHWCN FORMAT_FRACTAL_Z_3D [1, 1, 1, 1, 1] [1, 1, 16, 16] DT_FLOAT16 [Some 1, Some 2]"

definition dhwnc_sample :: TransArgs where
  "dhwnc_sample = sample_args FORMAT_DHWNC FORMAT_FRACTAL_Z_3D_TRANSPOSE [1, 1, 1, 1, 1] [1, 1, 16, 16] DT_FLOAT16 [Some 1, Some 2]"

lemmas sample_fz3d = dhwcn_sample_def dhwnc_sample_def sample_defs platform_ok_def
  holds_tensor_def GetCubeSizeByDataType_def kCubeSize_def kShapeItemNumMAX_def IsShapeValid_def Ceil_def
  dhwcn_accepted_def dhwnc_accepted_def TransShapeDhwcnFractalZ3D_def TransShapeDhwncFractalZ3DTranspose_def
  CheckDataTypeSupport_3D_def TransShapeDhwckToFz3D_def TransShapeDhwncToFz3DTranspose_def TransShapeToFz_3D_def
  CheckShapeValid_def at_def kNiSize_def

lemma dhwcn_sample_ok:
  "dhwcn_accepted sample_platform dhwcn_sample"
  "platform_ok sample_platform (GetSizeByDataType sample_platform (src_data_type dhwcn_sample))"
  "holds_tensor (GetSizeByDataType sample_platform (src_data_type dhwcn_sample)) (src_shape dhwcn_sample)
     (data dhwcn_sample) [Some 1, Some 2]"
  "new_succeeds sample_platform (prod_list (dst_shape dhwcn_sample) *
     GetSizeByDataType sample_platform (src_data_type dhwcn_sample))"
  "prod_list (dst_shape dhwcn_sample) \<noteq> 0" "prod_list (src_shape dhwcn_sample) \<noteq> 0"
  "new_succeeds sample_platform (prod_list (src_shape dhwcn_sample) *
     GetSizeByDataType sample_platform (src_data_type dhwcn_sample))"
  by (simp_all add: sample_fz3d)

lemma dhwnc_sample_ok:
  "dhwnc_accepted sample_platform dhwnc_sample"
  "platform_ok sample_platform (GetSizeByDataType sample_platform (src_data_type dhwnc_sample))"
  "holds_tensor (GetSizeByDataType sample_platform (src_data_type dhwnc_sample)) (src_shape dhwnc_sample)
     (data dhwnc_sample) [Some 1, Some 2]"
  "new_succeeds sample_platform (prod_list (dst_shape dhwnc_sample) *
     GetSizeByDataType sample_platform (src_data_type dhwnc_sample))"
  "prod_list (dst_shape dhwnc_sample) \<noteq> 0" "prod_list (src_shape dhwnc_sample) \<noteq> 0"
  "new_succeeds sample_platform (prod_list (src_shape dhwnc_sample) *
     GetSizeByDataType sample_platform (src_data_type dhwnc_sample))"
  by (simp_all add: sample_fz3d)

text \<open>C21: DHWCN to FRACTAL\_Z\_3D. On every shape the derivation accepts the transfer returns, inside both buffers,
  the zero-padded 3D fractal layout of the source, although the derived shape itself is never checked: for a tensor
  that is not empty its dimensions cannot wrap around.\<close>

theorem dhwcn_to_fractal_z_3d_correct:
  assumes "dhwcn_accepted pf args"
    and "sz = GetSizeByDataType pf (src_data_type args)" "platform_ok pf sz"
    and "holds_tensor sz (src_shape args) (data args) s"
  shows "transfer_spec pf OUT_OF_MEMORY sz (src_shape args) (dst_shape args)
    (dhw_of_fz3d (src_shape args) (dst_shape args)) s result (TransFormatDhwcnFractalZ3D pf args result)"
  using assms by (rule dhwcn.meets)

theorem dhwcn_to_fractal_z_3d_correct_witness:
  "dhwcn_accepted sample_platform dhwcn_sample \<and>
   transfer_spec sample_platform OUT_OF_MEMORY (GetSizeByDataType sample_platform (src_data_type dhwcn_sample))
     (src_shape dhwcn_sample) (dst_shape dhwcn_sample)
     (dhw_of_fz3d (src_shape dhwcn_sample) (dst_shape dhwcn_sample)) [Some 1, Some 2] no_result
     (TransFormatDhwcnFractalZ3D sample_platform dhwcn_sample no_result)"
  by (intro conjI dhwcn_sample_ok(1) dhwcn_to_fractal_z_3d_correct [OF dhwcn_sample_ok(1) refl dhwcn_sample_ok(2,3)])

text \<open>DHWNC to FRACTAL\_Z\_3D\_TRANSPOSE meets the same contract, with N blocked like channels and C padded to
  a multiple of 16.\<close>

theorem dhwnc_to_fractal_z_3d_transpose_correct:
  assumes "dhwnc_accepted pf args"
    and "sz = GetSizeByDataType pf (src_data_type args)" "platform_ok pf sz"
    and "holds_tensor sz (src_shape args) (data args) s"
  shows "transfer_spec pf OUT_OF_MEMORY sz (src_shape args) (dst_shape args)
    (dhw_of_fz3d (src_shape args) (dst_shape args)) s result (TransFormatDhwncFractalZ3DTranspose pf args result)"
  using assms by (rule dhwnc.meets)

theorem dhwnc_to_fractal_z_3d_transpose_correct_witness:
  "dhwnc_accepted sample_platform dhwnc_sample \<and>
   transfer_spec sample_platform OUT_OF_MEMORY (GetSizeByDataType sample_platform (src_data_type dhwnc_sample))
     (src_shape dhwnc_sample) (dst_shape dhwnc_sample)
     (dhw_of_fz3d (src_shape dhwnc_sample) (dst_shape dhwnc_sample)) [Some 1, Some 2] no_result
     (TransFormatDhwncFractalZ3DTranspose sample_platform dhwnc_sample no_result)"
  by (intro conjI dhwnc_sample_ok(1) dhwnc_to_fractal_z_3d_transpose_correct [OF dhwnc_sample_ok(1) refl dhwnc_sample_ok(2,3)])

end
