(* ===== verification/Nd_Blocks.thy ===== *)
theory Nd_Blocks
  imports Transfer_Spec
begin

text \<open>
  What the FRACTAL\_NZ and FRACTAL\_ZZ transfers share: a tensor read as \<open>times * H * W\<close>, the bounds that follow
  from its shape being valid, and the addresses of a row that is copied in blocks of \<open>w0\<close> elements and a tail.
\<close>

section \<open>Tensors as times * H * W\<close>

text \<open>
  \<open>nd_form shape outer h w\<close>: the shape read as outer dimensions, rows and columns, a vector being one row.
\<close>

definition nd_form :: "int list \<Rightarrow> int list \<Rightarrow> int \<Rightarrow> int \<Rightarrow> bool" where
  "nd_form shape outer h w \<longleftrightarrow> shape = outer @ [h, w] \<or> shape = [w] \<and> outer = [] \<and> h = 1"

definition nd_index :: "int list \<Rightarrow> int list \<Rightarrow> int \<Rightarrow> int \<Rightarrow> int list" where
  "nd_index shape p hi wi = (if length shape = 1 then [wi] else p @ [hi, wi])"

lemma nd_form_prod: "nd_form shape outer h w \<Longrightarrow> prod_list shape = prod_list outer * (h * w)"
  by (auto simp: nd_form_def)

lemma nd_index:
  assumes "nd_form shape outer h w" "valid_index outer p" "0 \<le> hi" "hi < h" "0 \<le> wi" "wi < w"
  shows "valid_index shape (nd_index shape p hi wi)"
    "flat shape (nd_index shape p hi wi) = flat outer p * (h * w) + (hi * w + wi)"
  using assms valid_index_length [OF assms(2)]
  by (auto simp: nd_form_def nd_index_def valid_index_append flat_append)

lemma nd_index_cases:
  assumes "nd_form shape outer h w" "valid_index shape idx"
  obtains p hi wi where "idx = nd_index shape p hi wi" "valid_index outer p" "0 \<le> hi" "hi < h" "0 \<le> wi" "wi < w"
proof (cases "shape = outer @ [h, w]")
  case True
  from assms(2) obtain p q where "idx = p @ q" "valid_index outer p" "valid_index [h, w] q"
    unfolding True by (rule valid_index_appendE)
  then show ?thesis using that [of p "q ! 0" "q ! 1"] True by (auto simp: nd_index_def valid_index_Cons)
next
  case False
  then show ?thesis using assms that [of "[]" 0 "idx ! 0"] by (auto simp: nd_form_def nd_index_def valid_index_Cons)
qed

lemma times_i64: "foldl (\<lambda>times_cnt dim. i64 (times_cnt * dim)) 1 outer = i64 (prod_list outer)"
  by (simp add: foldl_i64_mult)

section \<open>Dimensions\<close>

lemma fractal_dims:
  assumes good: "good_shape src" and src: "nd_form src outer h w" and w0: "0 < w0" "w0 \<le> 32" and h0: "0 < h0" "h0 \<le> 32"
    and ne: "prod_list src \<noteq> 0 \<or> prod_list dst \<noteq> 0"
    and dst: "prod_list dst = prod_list outer * (Ceil w w0 * Ceil h h0 * (h0 * w0))"
  shows "0 < h" "0 < w" "\<And>d. d \<in> set outer \<Longrightarrow> 0 < d" "i64 (prod_list outer) = prod_list outer"
    "w < 2 ^ 63 - w0" "h < 2 ^ 63 - h0" "prod_list src \<noteq> 0" "prod_list dst \<noteq> 0"
proof -
  note p = nd_form_prod [OF src]
  have sub: "set outer \<subseteq> set src" "w \<in> set src" "h \<in> set src \<or> h = 1" using src by (auto simp: nd_form_def)
  have z: "h \<noteq> 0" "w \<noteq> 0" "prod_list outer \<noteq> 0" using ne p dst by (auto simp: Ceil_def)
  then show ps: "prod_list src \<noteq> 0" by (simp add: p)
  have w: "0 < w \<and> w \<le> 2 ^ 40" using good_shape_dim [OF good ps] sub by blast
  have h: "0 < h \<and> h \<le> 2 ^ 40" using good_shape_dim [OF good ps, of h] sub(3) by auto
  show hw: "0 < h" "0 < w" using w h by simp_all
  show pos: "\<And>d. d \<in> set outer \<Longrightarrow> 0 < d" using good_shape_dim [OF good ps] sub by blast
  show "w < 2 ^ 63 - w0" "h < 2 ^ 63 - h0" using w h w0 h0 by simp_all
  have "0 < prod_list outer" using pos by (rule prod_list_pos)
  moreover have "prod_list outer * 1 \<le> prod_list outer * (h * w)"
    using \<open>0 < prod_list outer\<close> mult_mono [of 1 h 1 w] hw by (intro mult_left_mono) simp_all
  moreover have "prod_list outer * (h * w) \<le> 2 ^ 40" using good_shape_prod [OF good] by (simp add: p shape_max_pow)
  ultimately have "0 < prod_list outer" "prod_list outer \<le> 2 ^ 40" by linarith+
  then show "i64 (prod_list outer) = prod_list outer" by simp
  have "0 < Ceil w w0" "0 < Ceil h h0"
    using Ceil_bounds(4) [of w w0] Ceil_bounds(4) [of h h0] w h w0 h0 by simp_all
  then show "prod_list dst \<noteq> 0" using z w0 h0 by (simp add: dst)
qed

section \<open>Rows\<close>

lemma wrap_eq_eq: "wrap_eq a b \<Longrightarrow> b = c \<Longrightarrow> wrap_eq a c"
  by simp

lemma block_floor:
  fixes a b :: int
  assumes "0 < b" "0 \<le> a"
  shows "0 \<le> a div b" "a div b * b \<le> a" "a - a div b * b < b"
proof -
  have "a div b * b + a mod b = a" "0 \<le> a mod b" "a mod b < b"
    using assms by (simp_all only: div_mult_mod_eq pos_mod_sign pos_mod_bound)
  then show "a div b * b \<le> a" "a - a div b * b < b" by linarith+
  show "0 \<le> a div b" using assms by (simp add: pos_imp_zdiv_nonneg_iff)
qed

lemma row_bytes:
  assumes "platform_ok pf sz" "0 < w0" "w0 \<le> 32"
  shows "i64 (sz * w0) = w0 * sz"
proof -
  have sz: "0 < sz" "sz \<le> 2 ^ 12" using assms by (simp_all add: platform_ok_def)
  then have "sz * w0 \<le> 2 ^ 12 * 32" using assms by (intro mult_mono) simp_all
  moreover have "0 \<le> sz * w0" using sz assms by simp
  ultimately show ?thesis by (simp add: mult.commute)
qed

lemma nd_addr:
  "wrap_eq ((i64 (i64 (t * i64 (h * w)) + hi * w) + q * w0) * sz) ((t * (h * w) + (hi * w + q * w0)) * sz)"
  "wrap_eq ((i64 (i64 (t * i64 (h * w)) + hi * w) + i64 (q * w0 + k)) * sz) ((t * (h * w) + (hi * w + (q * w0 + k))) * sz)"
  by (rule wrap_eq_eq, (rule wrap_eq_intros)+, simp add: algebra_simps)+

lemma unflat_outer:
  assumes "\<And>d. d \<in> set outer \<Longrightarrow> 0 < d" "0 \<le> t" "t < prod_list outer"
  shows "valid_index outer (unflat outer t)" "flat outer (unflat outer t) = t"
  using unflat_valid [OF assms(1)] flat_unflat [OF assms(1)] assms by blast+

lemma nd_rows_cover:
  assumes form: "nd_form shape outer h w" and pos: "\<And>d. d \<in> set shape \<Longrightarrow> 0 < d"
  shows "{0..<prod_list shape} \<subseteq> (\<Union>t\<in>{0..<prod_list outer}. \<Union>hi\<in>{0..<h}. (\<lambda>wi. t * (h * w) + (hi * w + wi)) ` {0..<w})"
proof
  fix x assume x: "x \<in> {0..<prod_list shape}"
  have v: "valid_index shape (unflat shape x)" "flat shape (unflat shape x) = x"
    using unflat_outer [OF pos] x by simp_all
  obtain p hi wi where i: "unflat shape x = nd_index shape p hi wi" "valid_index outer p" "0 \<le> hi" "hi < h" "0 \<le> wi" "wi < w"
    using form v(1) by (rule nd_index_cases)
  then show "x \<in> (\<Union>t\<in>{0..<prod_list outer}. \<Union>hi\<in>{0..<h}. (\<lambda>wi. t * (h * w) + (hi * w + wi)) ` {0..<w})"
    using flat_bounds [OF i(2)] nd_index(2) [OF form i(2-6)] v(2)
    by (intro UN_I [of "flat outer p"] UN_I [of hi] image_eqI [of _ _ wi]) simp_all
qed

definition DIM_DEFAULT_VALUE :: int where "DIM_DEFAULT_VALUE = 1"

lemma Ceil_row:
  assumes "0 < c" "h < 2 ^ 63 - c" "0 \<le> h" "0 \<le> i" "i < Ceil h c"
  shows "i * c < h" "i64 (i * c) = i * c"
proof -
  have "(i + 1) * c \<le> Ceil h c * c" using assms by (intro mult_right_mono) simp_all
  moreover have "Ceil h c * c < h + c" using Ceil_bounds(3) [of h c] assms by simp
  ultimately show l: "i * c < h" by (simp add: distrib_right)
  have "0 \<le> i * c" using assms by simp
  then show "i64 (i * c) = i * c" using l assms by simp
qed

lemma sixteen: "0 < (16 :: int)" "(16 :: int) \<le> 32"
  by simp_all

lemma at_back_outer:
  "at_back (outer @ [a, b, c, d]) 4 k = k a" "at_back (outer @ [a, b, c, d]) 3 k = k b"
  "at_back (outer @ [a, b, c, d]) 2 k = k c" "at_back (outer @ [a, b, c, d]) 1 k = k d"
  by (simp_all add: at_back_def nth_append)

lemma at_hw: "at [a, b, c] 0 k = k a" "at [a, b, c] 1 k = k b" "at [a, b, c] 2 k = k c"
  by (simp_all add: at_def)

end
