(* ===== verification/Trans_FracNz.thy ===== *)
theory Trans_FracNz
  imports Nd_Blocks
begin

text \<open>
  The transfers between ND, NCHW or NHWC tensors and FRACTAL\_NZ: a tensor seen as \<open>times * H * W\<close> becomes
  \<open>times * W1 * H1 * H0 * W0\<close>, rows padded to blocks of 16 and columns to blocks of \<open>w0\<close>
  (\<open>format_transfer_fractal_nz.cc\<close>). The forward transfer writes only the elements that have a source, into a
  zeroed buffer; both directions copy whole blocks of a row and then its tail.
\<close>

section \<open>Shapes\<close>

definition IsDataTypeSupport :: "platform \<Rightarrow> DataType \<Rightarrow> bool" where
  "IsDataTypeSupport pf data_type \<longleftrightarrow> GetSizeByDataType pf data_type > 0"

definition CheckShape :: "Format \<Rightarrow> int list \<Rightarrow> bool" where
  "CheckShape format shape =
     (case format of
        FORMAT_ND \<Rightarrow> IsShapeValid shape
      | FORMAT_NCHW \<Rightarrow> CheckShapeValid shape 4
      | FORMAT_NHWC \<Rightarrow> CheckShapeValid shape 4
      | _ \<Rightarrow> False)"

definition TransShapeToFracNz :: "platform \<Rightarrow> int list \<Rightarrow> DataType \<Rightarrow> (int list \<times> int list) res" where
  "TransShapeToFracNz pf s_shape data_type =
     (let w0 = GetCubeSizeByDataType pf data_type;
          h0 = kCubeSize
      in if length s_shape = 1 then
           at s_shape 0 (\<lambda>n.
           let d_shape = [Ceil n w0, DIM_DEFAULT_VALUE, h0, w0];
               hw_shape = [DIM_DEFAULT_VALUE, DIM_DEFAULT_VALUE, n]
           in if \<not> IsShapeValid d_shape then Inl (Ret ACL_ERROR_GE_TRANSSHAPE_SHAPE_INVALID)
              else Inr (d_shape, hw_shape))
         else
           at_back s_shape 2 (\<lambda>h. at_back s_shape 1 (\<lambda>w.
           let outer = take (length s_shape - 2) s_shape;
               times_cnt = foldl (\<lambda>times_cnt dim. i64 (times_cnt * dim)) 1 outer;
               d_shape = outer @ [Ceil w w0, Ceil h h0, h0, w0];
               hw_shape = [times_cnt, h, w]
           in if \<not> IsShapeValid d_shape then Inl (Ret ACL_ERROR_GE_TRANSSHAPE_SHAPE_INVALID)
              else Inr (d_shape, hw_shape))))"

definition CheckShapeRelation :: "platform \<Rightarrow> TransArgs \<Rightarrow> int list res" where
  "CheckShapeRelation pf args =
     and_then (on_error INTERNAL_ERROR (TransShapeToFracNz pf (dst_shape args) (src_data_type args)))
       (\<lambda>(expect_src_shape, hw_shape).
         if \<not> IsTransShapeSrcCorrect args expect_src_shape then Inl (Ret PARAM_INVALID) else Inr hw_shape)"

section \<open>ND to FRACTAL\_NZ\<close>

definition CopyNdToFracNz ::
  "platform \<Rightarrow> TransArgs \<Rightarrow> int \<Rightarrow> int \<Rightarrow> int \<Rightarrow> int \<Rightarrow> int \<Rightarrow> int \<Rightarrow> int \<Rightarrow> int \<Rightarrow> int \<Rightarrow> mem option \<Rightarrow> mem option res"
where
  "CopyNdToFracNz pf args sz dst_size times_cnt h w w1 h1 h0 w0 =
     (let hw = i64 (h * w);
          h1h0 = i64 (h1 * h0);
          h1h0w0 = i64 (h1h0 * w0);
          w1h1h0w0 = i64 (w1 * h1h0w0);
          num_w1 = w sdiv w0
      in for_lt times_cnt (\<lambda>times_idx.
        let times_head = i64 (times_idx * w1h1h0w0);
            src_times_head = i64 (times_idx * hw)
        in for_lt h (\<lambda>h1h0_idx d.
          let h1h0_head = i64 (times_head + h1h0_idx * w0);
              src_h_head = i64 (src_times_head + h1h0_idx * w)
          in and_then
            (for_lt num_w1 (\<lambda>w1_idx dst.
              let dst_offset = i64 ((h1h0_head + w1_idx * h1h0w0) * sz);
                  src_offset = i64 ((src_h_head + w1_idx * w0) * sz)
              in check_eok (memcpy_s pf dst dst_offset (protected_size pf dst_size dst_offset)
                   (data args) src_offset (i64 (sz * w0)))) d)
            (let w1_head = i64 (num_w1 * w0)
             in for_lt (w - w1_head) (\<lambda>w0_idx dst.
               let src_w_idx = i64 (w1_head + w0_idx);
                   dst_offset = i64 ((h1h0_head + num_w1 * h1h0w0 + w0_idx) * sz);
                   src_offset = i64 ((src_h_head + src_w_idx) * sz)
               in check_eok (memcpy_s pf dst dst_offset (protected_size pf dst_size dst_offset)
                    (data args) src_offset sz))))))"

definition TransFormatFromNdToFracNz :: "platform \<Rightarrow> TransArgs \<Rightarrow> TransResult \<Rightarrow> int list \<Rightarrow> TransResult res" where
  "TransFormatFromNdToFracNz pf args result hw_shape =
     (let sz = GetSizeByDataType pf (src_data_type args);
          dst_size = i64 (GetItemNumByShape (dst_shape args) * sz)
      in nonempty_trans dst_size result (alloc_dst_zeroed pf dst_size (\<lambda>dst.
           at hw_shape 0 (\<lambda>times_cnt. at hw_shape 1 (\<lambda>h. at hw_shape 2 (\<lambda>w.
           at_back (dst_shape args) 4 (\<lambda>w1. at_back (dst_shape args) 3 (\<lambda>h1.
           at_back (dst_shape args) 2 (\<lambda>h0. at_back (dst_shape args) 1 (\<lambda>w0.
           and_then (CopyNdToFracNz pf args sz dst_size times_cnt h w w1 h1 h0 w0 dst)
             (set_result result dst_size)))))))))))"

definition TransFormatFractalNz :: "platform \<Rightarrow> TransArgs \<Rightarrow> TransResult \<Rightarrow> TransResult res" where
  "TransFormatFractalNz pf args result =
     (if \<not> IsDataTypeSupport pf (src_data_type args) \<or> \<not> CheckShape (src_format args) (src_shape args) \<or>
         \<not> IsShapeValid (dst_shape args)
      then Inl (Ret PARAM_INVALID)
      else and_then (TransShapeToFracNz pf (src_shape args) (src_data_type args)) (\<lambda>(expect_shape, hw_shape).
        if \<not> IsTransShapeDstCorrect args expect_shape then Inl (Ret PARAM_INVALID)
        else TransFormatFromNdToFracNz pf args result hw_shape))"

definition TransShapeFractalNz ::
  "platform \<Rightarrow> Format \<Rightarrow> int list \<Rightarrow> DataType \<Rightarrow> Format \<Rightarrow> int list res" where
  "TransShapeFractalNz pf s_format s_shape data_type d_format =
     (if \<not> IsDataTypeSupport pf data_type then Inl (Ret ACL_ERROR_GE_TRANSSHAPE_DATATYPE_INVALID)
      else if \<not> CheckShape s_format s_shape then Inl (Ret ACL_ERROR_GE_TRANSSHAPE_SHAPE_INVALID)
      else and_then (TransShapeToFracNz pf s_shape data_type) (\<lambda>(d_shape, hw_shape). Inr d_shape))"

section \<open>FRACTAL\_NZ to ND\<close>

definition CopyFracNzToNd ::
  "platform \<Rightarrow> TransArgs \<Rightarrow> int \<Rightarrow> int \<Rightarrow> int \<Rightarrow> int \<Rightarrow> int \<Rightarrow> int \<Rightarrow> int \<Rightarrow> int \<Rightarrow> int \<Rightarrow> mem option \<Rightarrow> mem option res"
where
  "CopyFracNzToNd pf args sz dst_size times_cnt h w w1 h1 h0 w0 =
     (let hw = i64 (h * w);
          h1h0 = i64 (h1 * h0);
          h1h0w0 = i64 (h1h0 * w0);
          w1h1h0w0 = i64 (w1 * h1h0w0);
          num_w1 = w sdiv w0
      in for_lt times_cnt (\<lambda>times_idx.
        let times_head = i64 (times_idx * w1h1h0w0);
            dst_times_head = i64 (times_idx * hw)
        in for_lt h (\<lambda>h1h0_idx d.
          let h1h0_head = i64 (times_head + h1h0_idx * w0);
              dst_h_head = i64 (dst_times_head + h1h0_idx * w)
          in and_then
            (for_lt num_w1 (\<lambda>w1_idx dst.
              let src_offset = i64 ((h1h0_head + w1_idx * h1h0w0) * sz);
                  dst_offset = i64 ((dst_h_head + w1_idx * w0) * sz)
              in check_eok (memcpy_s pf dst dst_offset (protected_size pf dst_size dst_offset)
                   (data args) src_offset (i64 (sz * w0)))) d)
            (let w1_head = i64 (num_w1 * w0)
             in for_lt (w - w1_head) (\<lambda>w0_idx dst.
               let dst_w_idx = i64 (w1_head + w0_idx);
                   src_offset = i64 ((h1h0_head + num_w1 * h1h0w0 + w0_idx) * sz);
                   dst_offset = i64 ((dst_h_head + dst_w_idx) * sz)
               in check_eok (memcpy_s pf dst dst_offset (protected_size pf dst_size dst_offset)
                    (data args) src_offset sz))))))"

definition TransFormatFromFracNzToNd :: "platform \<Rightarrow> TransArgs \<Rightarrow> TransResult \<Rightarrow> int list \<Rightarrow> TransResult res" where
  "TransFormatFromFracNzToNd pf args result dst_hw_shape =
     (let sz = GetSizeByDataType pf (src_data_type args);
          dst_size = i64 (GetItemNumByShape (dst_shape args) * sz)
      in nonempty_trans dst_size result (alloc_dst pf dst_size (\<lambda>dst.
           at dst_hw_shape 0 (\<lambda>times_cnt. at dst_hw_shape 1 (\<lambda>h. at dst_hw_shape 2 (\<lambda>w.
           at_back (src_shape args) 4 (\<lambda>w1. at_back (src_shape args) 3 (\<lambda>h1.
           at_back (src_shape args) 2 (\<lambda>h0. at_back (src_shape args) 1 (\<lambda>w0.
           and_then (CopyFracNzToNd pf args sz dst_size times_cnt h w w1 h1 h0 w0 dst)
             (set_result result dst_size)))))))))))"

definition TransFormatFractalNzND :: "platform \<Rightarrow> TransArgs \<Rightarrow> TransResult \<Rightarrow> TransResult res" where
  "TransFormatFractalNzND pf args result =
     (if \<not> IsDataTypeSupport pf (src_data_type args) \<or> \<not> IsShapeValid (src_shape args) \<or>
         \<not> CheckShape (dst_format args) (dst_shape args)
      then Inl (Ret PARAM_INVALID)
      else and_then (on_error PARAM_INVALID (CheckShapeRelation pf args)) (\<lambda>hw_shape.
        TransFormatFromFracNzToNd pf args result hw_shape))"

definition TransShapeFractalNzND ::
  "platform \<Rightarrow> Format \<Rightarrow> int list \<Rightarrow> DataType \<Rightarrow> Format \<Rightarrow> int list res" where
  "TransShapeFractalNzND pf s_format s_shape data_type d_format =
     Inl (Ret ACL_ERROR_GE_TRANSSHAPE_FORMAT_INVALID)"

definition nd_of_nz :: layout_map where
  "nd_of_nz src dst idx =
     (let k = length idx - 4; p = take k idx; h0 = dst ! (length dst - 2); w0 = dst ! (length dst - 1);
          h = (if length src = 1 then 1 else src ! (length src - 2)); w = src ! (length src - 1)
      in case drop k idx of
           [w1i, h1i, h0i, w0i] \<Rightarrow>
             (let hi = h1i * h0 + h0i; wi = w1i * w0 + w0i
              in if hi < h \<and> wi < w then Some (nd_index src p hi wi) else None)
         | _ \<Rightarrow> None)"

definition nz_of_nd :: layout_map where
  "nz_of_nd src dst idx =
     (let h0 = src ! (length src - 2); w0 = src ! (length src - 1);
          idx = (if length dst = 1 then 0 # idx else idx); k = length idx - 2; hi = idx ! k; wi = idx ! (k + 1)
      in Some (take k idx @ [wi div w0, hi div h0, hi mod h0, wi mod w0]))"

lemma nd_of_nz_at:
  assumes "nd_form src outer h w" "dst = outer @ [w1, h1, h0, w0]" "length p = length outer"
  shows "nd_of_nz src dst (p @ [w1i, h1i, h0i, w0i]) =
    (if h1i * h0 + h0i < h \<and> w1i * w0 + w0i < w then Some (nd_index src p (h1i * h0 + h0i) (w1i * w0 + w0i)) else None)"
  using assms by (auto simp: nd_of_nz_def nd_form_def Let_def nth_append)

lemma nz_of_nd_at:
  assumes "nd_form dst outer h w" "src = outer @ [w1, h1, h0, w0]" "length p = length outer" "0 \<le> hi" "hi < h"
  shows "nz_of_nd src dst (nd_index dst p hi wi) = Some (p @ [wi div w0, hi div h0, hi mod h0, wi mod w0])"
proof -
  consider "dst = outer @ [h, w]" | "dst = [w]" "outer = []" "hi = 0"
    using assms unfolding nd_form_def by force
  then show ?thesis
    using assms by cases (auto simp: nz_of_nd_def nd_index_def Let_def nth_append)
qed

section \<open>What the shape derivation accepts\<close>

lemma TransShapeToFracNz_Inr:
  assumes "TransShapeToFracNz pf s t = Inr (d, hw)" "w0 = GetCubeSizeByDataType pf t"
  obtains outer h w where "nd_form s outer h w" "d = outer @ [Ceil w w0, Ceil h 16, 16, w0]"
    "hw = [i64 (prod_list outer), h, w]" "IsShapeValid d"
proof (cases "length s = 1")
  case True
  then obtain n where n: "s = [n]" by (auto simp: length_Suc_conv)
  have "Ceil 1 16 = 1" by (simp add: Ceil_def)
  then show ?thesis
    using assms that [of "[]" 1 n] n
    by (auto simp: TransShapeToFracNz_def Let_def at_def kCubeSize_def DIM_DEFAULT_VALUE_def nd_form_def split: if_splits)
next
  case False
  then have l: "2 \<le> length s"
    using assms by (auto simp: TransShapeToFracNz_def at_back_def Let_def split: if_splits)
  obtain outer h w where s: "s = outer @ [h, w]"
  proof (cases s rule: rev_cases)
    case (snoc xs w)
    then show ?thesis using l that by (cases xs rule: rev_cases) auto
  qed (use l in simp)
  then have "nd_form s outer h w" by (simp add: nd_form_def)
  then show ?thesis
    using assms that False
    by (auto simp: TransShapeToFracNz_def Let_def at_back_def kCubeSize_def times_i64 s nth_append split: if_splits)
qed

section \<open>The loops fill the destination\<close>

lemma nz_addr:
  "0 < w0 \<Longrightarrow> wrap_eq ((i64 (i64 (t * i64 (w1 * i64 (i64 (h1 * 16) * w0))) + hi * w0) + q * i64 (i64 (h1 * 16) * w0)) * sz)
    ((t * (w1 * (h1 * 16 * w0)) + hi * w0 + q * w0 div w0 * (h1 * 16 * w0) + q * w0 mod w0) * sz)"
  by (rule wrap_eq_eq, (rule wrap_eq_intros)+, simp add: algebra_simps)

lemma nz_addr_tail:
  "0 \<le> k \<Longrightarrow> k < w0 \<Longrightarrow>
   wrap_eq ((i64 (i64 (t * i64 (w1 * i64 (i64 (h1 * 16) * w0))) + hi * w0) + q * i64 (i64 (h1 * 16) * w0) + k) * sz)
    ((t * (w1 * (h1 * 16 * w0)) + hi * w0 + (q * w0 + k) div w0 * (h1 * 16 * w0) + (q * w0 + k) mod w0) * sz)"
  unfolding block_div_mod by (rule wrap_eq_eq, (rule wrap_eq_intros)+, simp add: algebra_simps)

lemma nz_pos_flat:
  assumes "valid_index outer p" "0 \<le> hi" "hi < h" "0 \<le> wi" "wi < w" "0 < w0"
    and "h < 2 ^ 63 - 16" "w < 2 ^ 63 - w0"
  shows "valid_index (outer @ [Ceil w w0, Ceil h 16, 16, w0]) (p @ [wi div w0, hi div 16, hi mod 16, wi mod w0])"
    "flat (outer @ [Ceil w w0, Ceil h 16, 16, w0]) (p @ [wi div w0, hi div 16, hi mod 16, wi mod w0]) =
      flat outer p * (Ceil w w0 * (Ceil h 16 * 16 * w0)) + hi * w0 + wi div w0 * (Ceil h 16 * 16 * w0) + wi mod w0"
proof -
  note l = valid_index_length [OF assms(1)]
  have cs: "0 \<le> wi div w0" "wi div w0 < Ceil w w0" "0 \<le> wi mod w0" "wi mod w0 < w0"
    "0 \<le> hi div 16" "hi div 16 < Ceil h 16"
    using channel_split [of wi w w0] channel_split [of hi h 16] assms by simp_all
  then show "valid_index (outer @ [Ceil w w0, Ceil h 16, 16, w0]) (p @ [wi div w0, hi div 16, hi mod 16, wi mod w0])"
    using assms by (simp add: valid_index_append [OF l])
  have "hi div 16 * 16 + hi mod 16 = hi" by (simp only: div_mult_mod_eq)
  then have "hi div 16 * (16 * w0) + hi mod 16 * w0 = hi * w0" by (metis distrib_right mult.assoc)
  then show "flat (outer @ [Ceil w w0, Ceil h 16, 16, w0]) (p @ [wi div w0, hi div 16, hi mod 16, wi mod w0]) =
      flat outer p * (Ceil w w0 * (Ceil h 16 * 16 * w0)) + hi * w0 + wi div w0 * (Ceil h 16 * 16 * w0) + wi mod w0"
    by (simp add: flat_append [OF l] mult.assoc)
qed

lemma CopyNdToFracNz_fills:
  assumes ok: "platform_ok pf sz" and dims: "0 < h" "0 < w" "\<And>d. d \<in> set outer \<Longrightarrow> 0 < d" "0 < w0" "w0 \<le> 32"
    "w < 2 ^ 63 - w0" "h < 2 ^ 63 - 16"
    and src: "nd_form src outer h w" and dst: "dst = outer @ [Ceil w w0, Ceil h 16, 16, w0]"
    and N: "prod_list dst * sz < 2 ^ 63" "prod_list src * sz < 2 ^ 63"
    and s: "data args = Some s" "int (length s) = prod_list src * sz"
  shows "fills sz (prod_list dst) (\<lambda>x. gather_elem sz src (nd_of_nz src dst) s (unflat dst x))
    (\<Union>t\<in>{0..<prod_list outer}. \<Union>hi\<in>{0..<h}. (\<lambda>wi. t * (Ceil w w0 * (Ceil h 16 * 16 * w0)) + hi * w0 + wi div w0 * (Ceil h 16 * 16 * w0) + wi mod w0) ` {0..<w})
    (CopyNdToFracNz pf args sz (prod_list dst * sz) (prod_list outer) h w (Ceil w w0) (Ceil h 16) 16 w0)"
proof -
  have num: "w sdiv w0 = w div w0" using dims by simp
  have hd: "i64 (w div w0 * w0) = w div w0 * w0"
    using block_floor [of w0 w] dims by simp
  show ?thesis
    unfolding CopyNdToFracNz_def Let_def num hd s(1) row_bytes [OF ok dims(4,5)]
    apply (rule fills_for)+
    subgoal premises ix for t hi
    proof -
      have t: "valid_index outer (unflat outer t)" "flat outer (unflat outer t) = t"
        using unflat_outer [of outer t] dims(3) ix by blast+
      note nd_at = nd_index [OF src t(1) ix(3,4)]
      note nz_at = nz_pos_flat [OF t(1) ix(3,4) _ _ dims(4) dims(7,6)]
      show ?thesis
      proof (rule fills_fractal_row [OF ok N s(2) refl dims(4,5) _ refl refl,
            where Q = "\<lambda>wi. t * (h * w) + (hi * w + wi)"])
        show "\<exists>idx j. valid_index dst idx \<and> valid_index src j \<and> nd_of_nz src dst idx = Some j \<and>
            t * (Ceil w w0 * (Ceil h 16 * 16 * w0)) + hi * w0 + wi div w0 * (Ceil h 16 * 16 * w0) + wi mod w0 = flat dst idx \<and>
            t * (h * w) + (hi * w + wi) = flat src j" if "0 \<le> wi" "wi < w" for wi
          using nd_at [OF that] nz_at [OF that] nd_of_nz_at [OF src dst valid_index_length [OF t(1)]] ix that t(2)
          by (intro exI [of _ "unflat outer t @ [wi div w0, hi div 16, hi mod 16, wi mod w0]"]
              exI [of _ "nd_index src (unflat outer t) hi wi"]) (simp add: dst)
      qed (use dims block_floor [of w0 w] in
          \<open>(intro conjI nz_addr nz_addr_tail nd_addr; linarith) | simp add: block_div_mod\<close>)+
    qed
    done
qed

lemma CopyFracNzToNd_fills:
  assumes ok: "platform_ok pf sz" and dims: "0 < h" "0 < w" "\<And>d. d \<in> set outer \<Longrightarrow> 0 < d" "0 < w0" "w0 \<le> 32"
    "w < 2 ^ 63 - w0" "h < 2 ^ 63 - 16"
    and dst: "nd_form dst outer h w" and src: "src = outer @ [Ceil w w0, Ceil h 16, 16, w0]"
    and N: "prod_list dst * sz < 2 ^ 63" "prod_list src * sz < 2 ^ 63"
    and s: "data args = Some s" "int (length s) = prod_list src * sz"
  shows "fills sz (prod_list dst) (\<lambda>x. gather_elem sz src (nz_of_nd src dst) s (unflat dst x))
    (\<Union>t\<in>{0..<prod_list outer}. \<Union>hi\<in>{0..<h}. (\<lambda>wi. t * (h * w) + (hi * w + wi)) ` {0..<w})
    (CopyFracNzToNd pf args sz (prod_list dst * sz) (prod_list outer) h w (Ceil w w0) (Ceil h 16) 16 w0)"
proof -
  have num: "w sdiv w0 = w div w0" using dims by simp
  have hd: "i64 (w div w0 * w0) = w div w0 * w0"
    using block_floor [of w0 w] dims by simp
  show ?thesis
    unfolding CopyFracNzToNd_def Let_def num hd s(1) row_bytes [OF ok dims(4,5)]
    apply (rule fills_for)+
    subgoal premises ix for t hi
    proof -
      have t: "valid_index outer (unflat outer t)" "flat outer (unflat outer t) = t"
        using unflat_outer [of outer t] dims(3) ix by blast+
      note nd_at = nd_index [OF dst t(1) ix(3,4)]
      note nz_at = nz_pos_flat [OF t(1) ix(3,4) _ _ dims(4) dims(7,6)]
      show ?thesis
      proof (rule fills_fractal_row [OF ok N s(2) refl dims(4,5) _ refl refl,
            where Q = "\<lambda>wi. t * (Ceil w w0 * (Ceil h 16 * 16 * w0)) + hi * w0 + wi div w0 * (Ceil h 16 * 16 * w0) + wi mod w0"])
        show "\<exists>idx j. valid_index dst idx \<and> valid_index src j \<and> nz_of_nd src dst idx = Some j \<and>
            t * (h * w) + (hi * w + wi) = flat dst idx \<and>
            t * (Ceil w w0 * (Ceil h 16 * 16 * w0)) + hi * w0 + wi div w0 * (Ceil h 16 * 16 * w0) + wi mod w0 = flat src j" if "0 \<le> wi" "wi < w" for wi
          using nd_at [OF that] nz_at [OF that] nz_of_nd_at [OF dst src valid_index_length [OF t(1)] ix(3,4)] ix that t(2)
          by (intro exI [of _ "nd_index dst (unflat outer t) hi wi"]
              exI [of _ "unflat outer t @ [wi div w0, hi div 16, hi mod 16, wi mod w0]"]) (simp add: src)
      qed (use dims block_floor [of w0 w] in
          \<open>(intro conjI nz_addr nz_addr_tail nd_addr; linarith) | simp add: block_div_mod\<close>)+
    qed
    done
qed

section \<open>The transfers meet their contract\<close>

definition nz_accepted :: "platform \<Rightarrow> TransArgs \<Rightarrow> bool" where
  "nz_accepted pf args \<longleftrightarrow> IsDataTypeSupport pf (src_data_type args) \<and> CheckShape (src_format args) (src_shape args) \<and>
     IsShapeValid (dst_shape args) \<and>
     (case TransShapeToFracNz pf (src_shape args) (src_data_type args) of
        Inl e \<Rightarrow> False
      | Inr (expect_shape, hw_shape) \<Rightarrow> IsTransShapeDstCorrect args expect_shape)"

definition nz_nd_accepted :: "platform \<Rightarrow> TransArgs \<Rightarrow> bool" where
  "nz_nd_accepted pf args \<longleftrightarrow> IsDataTypeSupport pf (src_data_type args) \<and> IsShapeValid (src_shape args) \<and>
     CheckShape (dst_format args) (dst_shape args) \<and>
     (case CheckShapeRelation pf args of Inl e \<Rightarrow> False | Inr hw_shape \<Rightarrow> True)"

lemma CheckShape_good: "CheckShape fmt shape \<Longrightarrow> good_shape shape"
  by (auto simp: CheckShape_def CheckShapeValid_iff IsShapeValid_good split: Format.splits)

lemma IsDataTypeSupport_cube: "IsDataTypeSupport pf t \<Longrightarrow> 0 < GetCubeSizeByDataType pf t"
  by (simp add: IsDataTypeSupport_def CubeSize_pos_iff)

lemma nz_acceptedD:
  assumes "nz_accepted pf args" "w0 = GetCubeSizeByDataType pf (src_data_type args)"
  obtains outer h w where "nd_form (src_shape args) outer h w" "dst_shape args = outer @ [Ceil w w0, Ceil h 16, 16, w0]"
    "TransShapeToFracNz pf (src_shape args) (src_data_type args) = Inr (dst_shape args, [i64 (prod_list outer), h, w])"
    "good_shape (src_shape args)" "good_shape (dst_shape args)" "0 < w0" "w0 \<le> 32"
proof -
  obtain e hw where t: "TransShapeToFracNz pf (src_shape args) (src_data_type args) = Inr (e, hw)"
    using assms(1) by (auto simp: nz_accepted_def split: sum.splits)
  have e: "dst_shape args = e"
    using assms(1) t by (auto simp: nz_accepted_def IsTransShapeDstCorrect_def IsShapeEqual_iff IsShapeValid_def)
  have ok: "good_shape (src_shape args)" "good_shape (dst_shape args)" "0 < w0" "w0 \<le> 32"
    using assms by (auto simp: nz_accepted_def IsShapeValid_good CubeSize_le IsDataTypeSupport_cube dest: CheckShape_good)
  obtain outer h w where "nd_form (src_shape args) outer h w" "e = outer @ [Ceil w w0, Ceil h 16, 16, w0]"
    "hw = [i64 (prod_list outer), h, w]"
    using t assms(2) by (rule TransShapeToFracNz_Inr)
  with that ok t e show ?thesis by simp
qed

lemma nz_nd_acceptedD:
  assumes "nz_nd_accepted pf args" "w0 = GetCubeSizeByDataType pf (src_data_type args)"
  obtains outer h w where "nd_form (dst_shape args) outer h w" "src_shape args = outer @ [Ceil w w0, Ceil h 16, 16, w0]"
    "CheckShapeRelation pf args = Inr [i64 (prod_list outer), h, w]"
    "good_shape (src_shape args)" "good_shape (dst_shape args)" "0 < w0" "w0 \<le> 32"
proof -
  obtain e hw where t: "TransShapeToFracNz pf (dst_shape args) (src_data_type args) = Inr (e, hw)"
    and r: "CheckShapeRelation pf args = Inr hw"
    using assms(1) by (auto simp: nz_nd_accepted_def CheckShapeRelation_def and_then_def on_error_def
        split: sum.splits if_splits error.splits)
  have e: "src_shape args = e"
    using assms(1) t r
    by (auto simp: nz_nd_accepted_def CheckShapeRelation_def IsTransShapeSrcCorrect_def IsShapeEqual_iff IsShapeValid_def
        split: if_splits)
  have ok: "good_shape (src_shape args)" "good_shape (dst_shape args)" "0 < w0" "w0 \<le> 32"
    using assms by (auto simp: nz_nd_accepted_def IsShapeValid_good CubeSize_le IsDataTypeSupport_cube dest: CheckShape_good)
  obtain outer h w where "nd_form (dst_shape args) outer h w" "e = outer @ [Ceil w w0, Ceil h 16, 16, w0]"
    "hw = [i64 (prod_list outer), h, w]"
    using t assms(2) by (rule TransShapeToFracNz_Inr)
  with that ok r e show ?thesis by simp
qed

lemma TransFormatFractalNz_meets:
  assumes acc: "nz_accepted pf args" and sz: "sz = GetSizeByDataType pf (src_data_type args)"
    and ok: "platform_ok pf sz" and s: "holds_tensor sz (src_shape args) (data args) s"
  shows "transfer_spec pf OUT_OF_MEMORY sz (src_shape args) (dst_shape args)
    (nd_of_nz (src_shape args) (dst_shape args)) s result (TransFormatFractalNz pf args result)"
proof -
  obtain outer h w w0 where src: "nd_form (src_shape args) outer h w"
    and dst: "dst_shape args = outer @ [Ceil w w0, Ceil h 16, 16, w0]"
    and t: "TransShapeToFracNz pf (src_shape args) (src_data_type args) = Inr (dst_shape args, [i64 (prod_list outer), h, w])"
    and good: "good_shape (src_shape args)" "good_shape (dst_shape args)" and w0: "0 < w0" "w0 \<le> 32"
    using acc refl by (rule nz_acceptedD)
  have "prod_list (dst_shape args) = prod_list outer * (Ceil w w0 * Ceil h 16 * (16 * w0))" by (simp add: dst)
  note dims = fractal_dims [OF good(1) src w0 sixteen _ this]
  note bytes = good_shape_bytes [OF good(2) ok] good_shape_bytes [OF good(1) ok]
  have nn: "0 \<le> prod_list (dst_shape args)" using good_shape_prod [OF good(2)] by simp
  let ?dsize = "prod_list (dst_shape args) * sz"
  have c: "IsDataTypeSupport pf (src_data_type args)" "CheckShape (src_format args) (src_shape args)"
    "IsShapeValid (dst_shape args)" "IsTransShapeDstCorrect args (dst_shape args)"
    using acc t by (simp_all add: nz_accepted_def)
  have eq: "TransFormatFractalNz pf args result = nonempty_trans ?dsize result
     (alloc_dst_zeroed pf ?dsize (\<lambda>d. and_then
       (CopyNdToFracNz pf args sz ?dsize (i64 (prod_list outer)) h w (Ceil w w0) (Ceil h 16) 16 w0 d)
       (set_result result ?dsize)))"
    unfolding TransFormatFractalNz_def t and_then_simps prod.case
    using c by (simp only: TransFormatFromNdToFracNz_def Let_def sz [symmetric] bytes(3) if_False if_True simp_thms at_hw)
      (simp only: dst at_back_outer)
  show ?thesis
    unfolding eq
  proof (rule nonempty_trans_zeroed_spec [OF ok nn bytes(1) refl])
    assume p: "0 < prod_list (dst_shape args)"
    note d = dims [OF disjI2, OF p [THEN less_imp_neq, symmetric]]
    show "fills sz (prod_list (dst_shape args)) (\<lambda>x. gather_elem sz (src_shape args)
        (nd_of_nz (src_shape args) (dst_shape args)) s (unflat (dst_shape args) x))
      (\<Union>t\<in>{0..<prod_list outer}. \<Union>hi\<in>{0..<h}. (\<lambda>wi. t * (Ceil w w0 * (Ceil h 16 * 16 * w0)) + hi * w0 + wi div w0 * (Ceil h 16 * 16 * w0) + wi mod w0) ` {0..<w})
      (CopyNdToFracNz pf args sz ?dsize (i64 (prod_list outer)) h w (Ceil w w0) (Ceil h 16) 16 w0)"
      unfolding d(4)
      by (rule CopyNdToFracNz_fills [OF ok d(1-3) w0 d(5,6) src dst bytes(1,4)]) (use s in \<open>auto simp: holds_tensor_def\<close>)
    fix idx assume v: "valid_index (dst_shape args) idx" and g: "nd_of_nz (src_shape args) (dst_shape args) idx \<noteq> None"
    from v obtain p q where i: "idx = p @ q" "valid_index outer p" "valid_index [Ceil w w0, Ceil h 16, 16, w0] q"
      unfolding dst by (rule valid_index_appendE)
    then obtain w1i h1i h0i w0i where q: "q = [w1i, h1i, h0i, w0i]" "0 \<le> w1i" "0 \<le> h1i" "0 \<le> h0i" "h0i < 16" "0 \<le> w0i" "w0i < w0"
      by (auto simp: valid_index_Cons)
    let ?hi = "h1i * 16 + h0i" and ?wi = "w1i * w0 + w0i"
    have b: "?hi < h" "?wi < w" "0 \<le> ?hi" "0 \<le> ?wi"
      using g nd_of_nz_at [OF src dst valid_index_length [OF i(2)]] w0 q by (auto simp: i q(1) split: if_splits)
    have "flat (dst_shape args) idx = flat outer p * (Ceil w w0 * (Ceil h 16 * 16 * w0)) + ?hi * w0 +
        ?wi div w0 * (Ceil h 16 * 16 * w0) + ?wi mod w0"
      using nz_pos_flat(2) [OF i(2) b(3,1,4,2) w0(1) d(6,5)] q by (simp add: block_div_mod i(1) dst)
    with b flat_bounds [OF i(2)] show "flat (dst_shape args) idx \<in> (\<Union>t\<in>{0..<prod_list outer}. \<Union>hi\<in>{0..<h}. (\<lambda>wi. t * (Ceil w w0 * (Ceil h 16 * 16 * w0)) + hi * w0 + wi div w0 * (Ceil h 16 * 16 * w0) + wi mod w0) ` {0..<w})"
      by (intro UN_I [of "flat outer p"] UN_I [of ?hi] image_eqI [of _ _ ?wi]) simp_all
  qed simp
qed

lemma TransFormatFractalNzND_meets:
  assumes acc: "nz_nd_accepted pf args" and sz: "sz = GetSizeByDataType pf (src_data_type args)"
    and ok: "platform_ok pf sz" and s: "holds_tensor sz (src_shape args) (data args) s"
  shows "transfer_spec pf OUT_OF_MEMORY sz (src_shape args) (dst_shape args)
    (nz_of_nd (src_shape args) (dst_shape args)) s result (TransFormatFractalNzND pf args result)"
proof -
  obtain outer h w w0 where dst: "nd_form (dst_shape args) outer h w"
    and src: "src_shape args = outer @ [Ceil w w0, Ceil h 16, 16, w0]"
    and t: "CheckShapeRelation pf args = Inr [i64 (prod_list outer), h, w]"
    and good: "good_shape (src_shape args)" "good_shape (dst_shape args)" and w0: "0 < w0" "w0 \<le> 32"
    using acc refl by (rule nz_nd_acceptedD)
  have "prod_list (src_shape args) = prod_list outer * (Ceil w w0 * Ceil h 16 * (16 * w0))" by (simp add: src)
  note dims = fractal_dims [OF good(2) dst w0 sixteen _ this]
  note bytes = good_shape_bytes [OF good(2) ok] good_shape_bytes [OF good(1) ok]
  have nn: "0 \<le> prod_list (dst_shape args)" using good_shape_prod [OF good(2)] by simp
  let ?dsize = "prod_list (dst_shape args) * sz"
  have c: "IsDataTypeSupport pf (src_data_type args)" "IsShapeValid (src_shape args)"
    "CheckShape (dst_format args) (dst_shape args)"
    using acc by (simp_all add: nz_nd_accepted_def)
  have eq: "TransFormatFractalNzND pf args result = nonempty_trans ?dsize result
     (alloc_dst pf ?dsize (\<lambda>d. and_then
       (CopyFracNzToNd pf args sz ?dsize (i64 (prod_list outer)) h w (Ceil w w0) (Ceil h 16) 16 w0 d)
       (set_result result ?dsize)))"
    unfolding TransFormatFractalNzND_def t and_then_simps on_error_simps
    using c by (simp only: TransFormatFromFracNzToNd_def Let_def sz [symmetric] bytes(3) if_False if_True simp_thms at_hw)
      (simp only: src at_back_outer)
  show ?thesis
    unfolding eq
  proof (rule nonempty_trans_spec [OF ok nn bytes(1) refl])
    assume p: "0 < prod_list (dst_shape args)"
    note d = dims [OF disjI1, OF p [THEN less_imp_neq, symmetric]]
    have pos: "\<And>x. x \<in> set (dst_shape args) \<Longrightarrow> 0 < x" using good_shape_dim [OF good(2)] p by fastforce
    show "fills sz (prod_list (dst_shape args)) (\<lambda>x. gather_elem sz (src_shape args)
        (nz_of_nd (src_shape args) (dst_shape args)) s (unflat (dst_shape args) x)) {0..<prod_list (dst_shape args)}
      (CopyFracNzToNd pf args sz ?dsize (i64 (prod_list outer)) h w (Ceil w w0) (Ceil h 16) 16 w0)"
      unfolding d(4)
      by (rule fills_cover [OF CopyFracNzToNd_fills [OF ok d(1-3) w0 d(5,6) dst src bytes(1,4)] nd_rows_cover [OF dst pos]])
        (use s in \<open>auto simp: holds_tensor_def\<close>)
  qed simp
qed

interpretation nz: transfer_pair
  nz_accepted TransFormatFractalNz nd_of_nz OUT_OF_MEMORY nz_nd_accepted TransFormatFractalNzND nz_of_nd OUT_OF_MEMORY
proof unfold_locales
  fix pf args r assume acc: "nz_accepted pf args"
  obtain outer h w w0 where src: "nd_form (src_shape args) outer h w"
    and dst: "dst_shape args = outer @ [Ceil w w0, Ceil h 16, 16, w0]"
    and t: "TransShapeToFracNz pf (src_shape args) (src_data_type args) = Inr (dst_shape args, [i64 (prod_list outer), h, w])"
    and good: "good_shape (src_shape args)" "good_shape (dst_shape args)" and w0: "0 < w0" "w0 \<le> 32"
    using acc refl by (rule nz_acceptedD)
  have "prod_list (dst_shape args) = prod_list outer * (Ceil w w0 * Ceil h 16 * (16 * w0))" by (simp add: dst)
  note dims = fractal_dims [OF good(1) src w0 sixteen _ this]
  show "nz_nd_accepted pf (args_back args r) \<and> prod_list (dst_shape args) \<noteq> 0"
    if ne: "prod_list (src_shape args) \<noteq> 0"
    using acc t dims(8) ne
    by (auto simp: nz_accepted_def nz_nd_accepted_def CheckShapeRelation_def IsTransShapeSrcCorrect_def IsShapeEqual_iff args_back_def)
  show "\<exists>j. nz_of_nd (dst_shape args) (src_shape args) idx = Some j \<and> valid_index (dst_shape args) j \<and>
      nd_of_nz (src_shape args) (dst_shape args) j = Some idx"
    if v: "valid_index (src_shape args) idx" for idx
  proof -
    note d = dims [OF disjI1, OF prod_list_pos_of_valid [OF v, THEN less_imp_neq, symmetric]]
    obtain p hi wi where i: "idx = nd_index (src_shape args) p hi wi" "valid_index outer p" "0 \<le> hi" "hi < h" "0 \<le> wi" "wi < w"
      using src v by (rule nd_index_cases)
    note l = valid_index_length [OF i(2)]
    show ?thesis
      using nz_of_nd_at [OF src dst l i(3,4)] nd_of_nz_at [OF src dst l] nz_pos_flat(1) [OF i(2-6) w0(1) d(6,5)] i
      by (simp add: dst [symmetric] div_mult_mod_eq)
  qed
qed (auto simp: nz_accepted_def nz_nd_accepted_def IsShapeValid_good dest: CheckShape_good
    intro!: TransFormatFractalNz_meets TransFormatFractalNzND_meets)

section \<open>Properties\<close>

definition nz_sample :: TransArgs where
  "nz_sample = sample_args FORMAT_ND FORMAT_FRACTAL_NZ [1] [1, 1, 16, 16] DT_FLOAT16 [Some 1, Some 2]"

lemma nz_sample_ok:
  "nz_accepted sample_platform nz_sample"
  "platform_ok sample_platform (GetSizeByDataType sample_platform (src_data_type nz_sample))"
  "holds_tensor (GetSizeByDataType sample_platform (src_data_type nz_sample)) (src_shape nz_sample)
     (data nz_sample) [Some 1, Some 2]"
  "new_succeeds sample_platform (prod_list (dst_shape nz_sample) *
     GetSizeByDataType sample_platform (src_data_type nz_sample))"
  "prod_list (dst_shape nz_sample) \<noteq> 0" "prod_list (src_shape nz_sample) \<noteq> 0"
  "new_succeeds sample_platform (prod_list (src_shape nz_sample) *
     GetSizeByDataType sample_platform (src_data_type nz_sample))"
  by (simp_all add: nz_accepted_def nz_sample_def sample_defs platform_ok_def IsDataTypeSupport_def
    CheckShape_def TransShapeToFracNz_def at_def DIM_DEFAULT_VALUE_def IsTransShapeDstCorrect_def IsShapeEqual_iff
    holds_tensor_def GetCubeSizeByDataType_def kCubeSize_def kShapeItemNumMAX_def IsShapeValid_def Ceil_def)

text \<open>C22: ND, NCHW or NHWC to FRACTAL\_NZ. Element \<open>[.., w1, h1, h0, w0]\<close> of the result is source element
  \<open>[.., h1 * 16 + h0, w1 * c0 + w0]\<close>, or zero in the padding of rows and columns, although the code copies blocks and
  tails of rows only; the transfer always returns, inside both buffers.\<close>

theorem nd_to_fractal_nz_correct:
  assumes "nz_accepted pf args"
    and "sz = GetSizeByDataType pf (src_data_type args)" "platform_ok pf sz"
    and "holds_tensor sz (src_shape args) (data args) s"
  shows "transfer_spec pf OUT_OF_MEMORY sz (src_shape args) (dst_shape args)
    (nd_of_nz (src_shape args) (dst_shape args)) s result (TransFormatFractalNz pf args result)"
  using assms by (rule nz.fwd.meets)

theorem nd_to_fractal_nz_correct_witness:
  "nz_accepted sample_platform nz_sample \<and>
   transfer_spec sample_platform OUT_OF_MEMORY (GetSizeByDataType sample_platform (src_data_type nz_sample))
     (src_shape nz_sample) (dst_shape nz_sample)
     (nd_of_nz (src_shape nz_sample) (dst_shape nz_sample)) [Some 1, Some 2] no_result
     (TransFormatFractalNz sample_platform nz_sample no_result)"
  by (intro conjI nz_sample_ok(1) nd_to_fractal_nz_correct [OF nz_sample_ok(1) refl nz_sample_ok(2,3)])

text \<open>FRACTAL\_NZ to ND undoes ND to FRACTAL\_NZ: whatever the forward transfer of a tensor returns, the backward
  transfer accepts it and returns the bytes of the tensor.\<close>

theorem nd_fractal_nz_roundtrip:
  assumes "nz_accepted pf args"
    and "sz = GetSizeByDataType pf (src_data_type args)" "platform_ok pf sz"
    and "holds_tensor sz (src_shape args) (data args) s" "prod_list (src_shape args) \<noteq> 0"
    and "TransFormatFractalNz pf args result = Inr r"
    and "new_succeeds pf (prod_list (src_shape args) * sz)"
  shows "TransFormatFractalNzND pf (args_back args r) result' =
    Inr (result'\<lparr>res_data := Some s, res_length := int (length s)\<rparr>)"
  using assms by (rule nz.roundtrip)

theorem nd_fractal_nz_roundtrip_witness:
  "\<exists>r. TransFormatFractalNz sample_platform nz_sample no_result = Inr r \<and>
     TransFormatFractalNzND sample_platform (args_back nz_sample r) no_result =
       Inr (no_result\<lparr>res_data := Some [Some 1, Some 2], res_length := 2\<rparr>)"
proof -
  note h = nz_sample_ok
  obtain r where r: "TransFormatFractalNz sample_platform nz_sample no_result = Inr r"
    by (rule nz.fwd.returns [OF h(1) refl h(2-5), of no_result]) blast
  have "TransFormatFractalNzND sample_platform (args_back nz_sample r) no_result =
      Inr (no_result\<lparr>res_data := Some [Some 1, Some 2],
        res_length := int (length ([Some 1, Some 2] :: mem))\<rparr>)"
    by (rule nd_fractal_nz_roundtrip [OF h(1) refl h(2,3,6) r h(7)])
  with r show ?thesis by simp
qed

end
