(* ===== verification/Trans_FracZz.thy ===== *)
theory Trans_FracZz
  imports Nd_Blocks
begin

text \<open>
  The transfers between ND, NCHW or NHWC tensors and FRACTAL\_ZZ: \<open>times * H * W\<close> becomes
  \<open>times * H1 * W1 * H0 * W0\<close>, rows and columns both padded to blocks of the cube size
  (\<open>format_transfer_fractal_zz.cc\<close>). The loops run over the row blocks and, inside a block, over the rows that
  exist; both directions allocate a zeroed buffer.
\<close>

section \<open>Shapes\<close>

definition IsDataTypeSupport_Zz :: "platform \<Rightarrow> DataType \<Rightarrow> bool" where
  "IsDataTypeSupport_Zz pf data_type \<longleftrightarrow> GetSizeByDataType pf data_type > 0"

definition CheckShape_Zz :: "Format \<Rightarrow> int list \<Rightarrow> bool" where
  "CheckShape_Zz format shape =
     (case format of
        FORMAT_ND \<Rightarrow> IsShapeValid shape
      | FORMAT_NCHW \<Rightarrow> CheckShapeValid shape 4
      | FORMAT_NHWC \<Rightarrow> CheckShapeValid shape 4
      | _ \<Rightarrow> False)"

definition TransShapeToFracZz :: "platform \<Rightarrow> int list \<Rightarrow> DataType \<Rightarrow> (int list \<times> int list) res" where
  "TransShapeToFracZz pf s_shape data_type =
     (let w0 = GetCubeSizeByDataType pf data_type;
          h0 = GetCubeSizeByDataType pf data_type
      in if length s_shape = 1 then
           at s_shape 0 (\<lambda>n.
           let d_shape = [DIM_DEFAULT_VALUE, Ceil n w0, h0, w0];
               hw_shape = [DIM_DEFAULT_VALUE, DIM_DEFAULT_VALUE, n]
           in if \<not> IsShapeValid d_shape then Inl (Ret ACL_ERROR_GE_TRANSSHAPE_SHAPE_INVALID)
              else Inr (d_shape, hw_shape))
         else
           at_back s_shape 2 (\<lambda>h. at_back s_shape 1 (\<lambda>w.
           let outer = take (length s_shape - 2) s_shape;
               times_cnt = foldl (\<lambda>times_cnt dim. i64 (times_cnt * dim)) 1 outer;
               d_shape = outer @ [Ceil h h0, Ceil w w0, h0, w0];
               hw_shape = [times_cnt, h, w]
           in if \<not> IsShapeValid d_shape then Inl (Ret ACL_ERROR_GE_TRANSSHAPE_SHAPE_INVALID)
              else Inr (d_shape, hw_shape))))"

definition CheckShapeRelation_Zz :: "platform \<Rightarrow> TransArgs \<Rightarrow> int list res" where
  "CheckShapeRelation_Zz pf args =
     and_then (on_error INTERNAL_ERROR (TransShapeToFracZz pf (dst_shape args) (src_data_type args)))
       (\<lambda>(expect_src_shape, hw_shape).
         if \<not> IsTransShapeSrcCorrect args expect_src_shape then Inl (Ret PARAM_INVALID) else Inr hw_shape)"

section \<open>ND to FRACTAL\_ZZ\<close>

text \<open>
  The loop over \<open>h0_idx\<close> stops at \<open>h0\<close> or at the last row, whichever is first.
\<close>

definition CopyNdToFracZz ::
  "platform \<Rightarrow> TransArgs \<Rightarrow> int \<Rightarrow> int \<Rightarrow> int \<Rightarrow> int \<Rightarrow> int \<Rightarrow> int \<Rightarrow> int \<Rightarrow> int \<Rightarrow> int \<Rightarrow> mem option \<Rightarrow> mem option res"
where
  "CopyNdToFracZz pf args sz dst_size times_cnt h w h1 w1 h0 w0 =
     (let hw = i64 (h * w);
          h0w0 = i64 (h0 * w0);
          w1h0w0 = i64 (w1 * h0w0);
          h1w1h0w0 = i64 (h1 * w1h0w0);
          num_w1 = w sdiv w0
      in for_lt times_cnt (\<lambda>times_idx.
        let times_head = i64 (times_idx * h1w1h0w0);
            src_times_head = i64 (times_idx * hw)
        in for_lt h1 (\<lambda>h1_idx.
          let h1_head = i64 (times_head + h1_idx * w1h0w0);
              src_h1_head = i64 (h1_idx * h0)
          in for_lt (min h0 (h - src_h1_head)) (\<lambda>h0_idx d.
            let h0_head = i64 (h1_head + h0_idx * w0);
                src_h_head = i64 (src_times_head + (src_h1_head + h0_idx) * w)
            in and_then
              (for_lt num_w1 (\<lambda>w1_idx dst.
                let src_offset = i64 ((src_h_head + w1_idx * w0) * sz);
                    dst_offset = i64 ((h0_head + w1_idx * h0w0) * sz)
                in check_eok (memcpy_s pf dst dst_offset (protected_size pf dst_size dst_offset)
                     (data args) src_offset (i64 (sz * w0)))) d)
              (let w1_head = i64 (num_w1 * w0);
                   w0_head = i64 (h0_head + num_w1 * h0w0)
               in for_lt (w - w1_head) (\<lambda>w0_idx dst.
                let src_w_idx = i64 (w1_head + w0_idx);
                    src_offset = i64 ((src_h_head + src_w_idx) * sz);
                    dst_offset = i64 ((w0_head + w0_idx) * sz)
                 in check_eok (memcpy_s pf dst dst_offset (protected_size pf dst_size dst_offset)
                      (data args) src_offset sz)))))))"

definition TransFormatFromNdToFracZz :: "platform \<Rightarrow> TransArgs \<Rightarrow> TransResult \<Rightarrow> int list \<Rightarrow> TransResult res" where
  "TransFormatFromNdToFracZz pf args result hw_shape =
     (let sz = GetSizeByDataType pf (src_data_type args);
          dst_size = i64 (GetItemNumByShape (dst_shape args) * sz)
      in nonempty_trans dst_size result (alloc_dst_zeroed pf dst_size (\<lambda>dst.
           at hw_shape 0 (\<lambda>times_cnt. at hw_shape 1 (\<lambda>h. at hw_shape 2 (\<lambda>w.
           at_back (dst_shape args) 4 (\<lambda>h1. at_back (dst_shape args) 3 (\<lambda>w1.
           at_back (dst_shape args) 2 (\<lambda>h0. at_back (dst_shape args) 1 (\<lambda>w0.
           and_then (CopyNdToFracZz pf args sz dst_size times_cnt h w h1 w1 h0 w0 dst)
             (set_result result dst_size)))))))))))"

definition TransFormatFractalZz :: "platform \<Rightarrow> TransArgs \<Rightarrow> TransResult \<Rightarrow> TransResult res" where
  "TransFormatFractalZz pf args result =
     (if \<not> IsDataTypeSupport_Zz pf (src_data_type args) \<or> \<not> CheckShape_Zz (src_format args) (src_shape args) \<or>
         \<not> IsShapeValid (dst_shape args)
      then Inl (Ret PARAM_INVALID)
      else and_then (TransShapeToFracZz pf (src_shape args) (src_data_type args)) (\<lambda>(expect_shape, hw_shape).
        if \<not> IsTransShapeDstCorrect args expect_shape then Inl (Ret PARAM_INVALID)
        else TransFormatFromNdToFracZz pf args result hw_shape))"

definition TransShapeFractalZz ::
  "platform \<Rightarrow> Format \<Rightarrow> int list \<Rightarrow> DataType \<Rightarrow> Format \<Rightarrow> int list res" where
  "TransShapeFractalZz pf s_format s_shape data_type d_format =
     (if \<not> IsDataTypeSupport_Zz pf data_type then Inl (Ret ACL_ERROR_GE_TRANSSHAPE_DATATYPE_INVALID)
      else if \<not> CheckShape_Zz s_format s_shape then Inl (Ret ACL_ERROR_GE_TRANSSHAPE_SHAPE_INVALID)
      else and_then (TransShapeToFracZz pf s_shape data_type) (\<lambda>(d_shape, hw_shape). Inr d_shape))"

section \<open>FRACTAL\_ZZ to ND\<close>

text \<open>
  The loop over \<open>h0_idx\<close> stops at \<open>h0\<close> or at the last row, whichever is first.
\<close>

definition CopyFracZzToNd ::
  "platform \<Rightarrow> TransArgs \<Rightarrow> int \<Rightarrow> int \<Rightarrow> int \<Rightarrow> int \<Rightarrow> int \<Rightarrow> int \<Rightarrow> int \<Rightarrow> int \<Rightarrow> int \<Rightarrow> mem option \<Rightarrow> mem option res"
where
  "CopyFracZzToNd pf args sz dst_size times_cnt h w h1 w1 h0 w0 =
     (let hw = i64 (h * w);
          h0w0 = i64 (h0 * w0);
          w1h0w0 = i64 (w1 * h0w0);
          h1w1h0w0 = i64 (h1 * w1h0w0);
          num_w1 = w sdiv w0
      in for_lt times_cnt (\<lambda>times_idx.
        let times_head = i64 (times_idx * h1w1h0w0);
            dst_times_head = i64 (times_idx * hw)
        in for_lt h1 (\<lambda>h1_idx.
          let h1_head = i64 (times_head + h1_idx * w1h0w0);
              dst_h1_head = i64 (h1_idx * h0)
          in for_lt (min h0 (h - dst_h1_head)) (\<lambda>h0_idx d.
            let h0_head = i64 (h1_head + h0_idx * w0);
                dst_h_head = i64 (dst_times_head + (dst_h1_head + h0_idx) * w)
            in and_then
              (for_lt num_w1 (\<lambda>w1_idx dst.
                let src_offset = i64 ((h0_head + w1_idx * h0w0) * sz);
                    dst_offset = i64 ((dst_h_head + w1_idx * w0) * sz)
                in check_eok (memcpy_s pf dst dst_offset (protected_size pf dst_size dst_offset)
                     (data args) src_offset (i64 (sz * w0)))) d)
              (let w1_head = i64 (num_w1 * w0);
                   w0_head = i64 (h0_head + num_w1 * h0w0)
               in for_lt (w - w1_head) (\<lambda>w0_idx dst.
                let src_offset = i64 ((w0_head + w0_idx) * sz);
                    dst_w_idx = i64 (w1_head + w0_idx);
                    dst_offset = i64 ((dst_h_head + dst_w_idx) * sz)
                 in check_eok (memcpy_s pf dst dst_offset (protected_size pf dst_size dst_offset)
                      (data args) src_offset sz)))))))"

definition TransFormatFromFracZzToNd :: "platform \<Rightarrow> TransArgs \<Rightarrow> TransResult \<Rightarrow> int list \<Rightarrow> TransResult res" where
  "TransFormatFromFracZzToNd pf args result dst_hw_shape =
     (let sz = GetSizeByDataType pf (src_data_type args);
          dst_size = i64 (GetItemNumByShape (dst_shape args) * sz)
      in nonempty_trans dst_size result (alloc_dst_zeroed pf dst_size (\<lambda>dst.
           at dst_hw_shape 0 (\<lambda>times_cnt. at dst_hw_shape 1 (\<lambda>h. at dst_hw_shape 2 (\<lambda>w.
           at_back (src_shape args) 4 (\<lambda>h1. at_back (src_shape args) 3 (\<lambda>w1.
           at_back (src_shape args) 2 (\<lambda>h0. at_back (src_shape args) 1 (\<lambda>w0.
           and_then (CopyFracZzToNd pf args sz dst_size times_cnt h w h1 w1 h0 w0 dst)
             (set_result result dst_size)))))))))))"

definition TransFormatFractalZzND :: "platform \<Rightarrow> TransArgs \<Rightarrow> TransResult \<Rightarrow> TransResult res" where
  "TransFormatFractalZzND pf args result =
     (if \<not> IsDataTypeSupport_Zz pf (src_data_type args) \<or> \<not> IsShapeValid (src_shape args) \<or>
         \<not> CheckShape_Zz (dst_format args) (dst_shape args)
      then Inl (Ret PARAM_INVALID)
      else and_then (on_error PARAM_INVALID (CheckShapeRelation_Zz pf args)) (\<lambda>hw_shape.
        TransFormatFromFracZzToNd pf args result hw_shape))"

definition TransShapeFractalZzND ::
  "platform \<Rightarrow> Format \<Rightarrow> int list \<Rightarrow> DataType \<Rightarrow> Format \<Rightarrow> int list res" where
  "TransShapeFractalZzND pf s_format s_shape data_type d_format =
     Inl (Ret ACL_ERROR_GE_TRANSSHAPE_FORMAT_INVALID)"

section \<open>Layout maps\<close>

definition nd_of_zz :: layout_map where
  "nd_of_zz src dst idx =
     (let k = length idx - 4; p = take k idx; h0 = dst ! (length dst - 2); w0 = dst ! (length dst - 1);
          h = (if length src = 1 then 1 else src ! (length src - 2)); w = src ! (length src - 1)
      in case drop k idx of
           [h1i, w1i, h0i, w0i] \<Rightarrow>
             (let hi = h1i * h0 + h0i; wi = w1i * w0 + w0i
              in if hi < h \<and> wi < w then Some (nd_index src p hi wi) else None)
         | _ \<Rightarrow> None)"

definition zz_of_nd :: layout_map where
  "zz_of_nd src dst idx =
     (let h0 = src ! (length src - 2); w0 = src ! (length src - 1);
          idx = (if length dst = 1 then 0 # idx else idx); k = length idx - 2; hi = idx ! k; wi = idx ! (k + 1)
      in Some (take k idx @ [hi div h0, wi div w0, hi mod h0, wi mod w0]))"

lemma nd_of_zz_at:
  assumes "nd_form src outer h w" "dst = outer @ [h1, w1, h0, w0]" "length p = length outer"
  shows "nd_of_zz src dst (p @ [h1i, w1i, h0i, w0i]) =
    (if h1i * h0 + h0i < h \<and> w1i * w0 + w0i < w then Some (nd_index src p (h1i * h0 + h0i) (w1i * w0 + w0i)) else None)"
  using assms by (auto simp: nd_of_zz_def nd_form_def Let_def nth_append)

lemma zz_of_nd_at:
  assumes "nd_form dst outer h w" "src = outer @ [h1, w1, h0, w0]" "length p = length outer" "0 \<le> hi" "hi < h"
  shows "zz_of_nd src dst (nd_index dst p hi wi) = Some (p @ [hi div h0, wi div w0, hi mod h0, wi mod w0])"
proof -
  consider "dst = outer @ [h, w]" | "dst = [w]" "outer = []" "hi = 0"
    using assms unfolding nd_form_def by force
  then show ?thesis
    using assms by cases (auto simp: zz_of_nd_def nd_index_def Let_def nth_append)
qed

section \<open>What the shape derivation accepts\<close>

lemma Ceil_one: "0 < c \<Longrightarrow> c < 2 ^ 63 \<Longrightarrow> Ceil 1 c = 1"
  by (simp add: Ceil_eq zdiv_eq_0_iff [of 1 c])

lemma TransShapeToFracZz_Inr:
  assumes "TransShapeToFracZz pf s t = Inr (d, hw)" "c0 = GetCubeSizeByDataType pf t" "0 < c0" "c0 \<le> 32"
  obtains outer h w where "nd_form s outer h w" "d = outer @ [Ceil h c0, Ceil w c0, c0, c0]"
    "hw = [i64 (prod_list outer), h, w]" "IsShapeValid d"
proof (cases "length s = 1")
  case True
  then obtain n where n: "s = [n]" by (auto simp: length_Suc_conv)
  have "Ceil 1 c0 = 1" using assms(3,4) by (simp add: Ceil_one)
  then show ?thesis
    using assms that [of "[]" 1 n] n
    by (auto simp: TransShapeToFracZz_def Let_def at_def DIM_DEFAULT_VALUE_def nd_form_def split: if_splits)
next
  case False
  then have l: "2 \<le> length s"
    using assms by (auto simp: TransShapeToFracZz_def at_back_def Let_def split: if_splits)
  obtain outer h w where s: "s = outer @ [h, w]"
  proof (cases s rule: rev_cases)
    case (snoc xs w)
    then show ?thesis using l that by (cases xs rule: rev_cases) auto
  qed (use l in simp)
  then have "nd_form s outer h w" by (simp add: nd_form_def)
  then show ?thesis
    using assms that False
    by (auto simp: TransShapeToFracZz_def Let_def at_back_def times_i64 s nth_append split: if_splits)
qed

section \<open>The loops fill the destination\<close>

lemma zz_addr:
  "0 < w0 \<Longrightarrow> wrap_eq ((i64 (i64 (i64 (t * i64 (h1 * i64 (w1 * i64 (h0 * w0)))) + h1i * i64 (w1 * i64 (h0 * w0))) + h0i * w0) +
      q * i64 (h0 * w0)) * sz)
    ((t * (h1 * (w1 * (h0 * w0))) + h1i * (w1 * (h0 * w0)) + h0i * w0 + q * w0 div w0 * (h0 * w0) + q * w0 mod w0) * sz)"
  by (rule wrap_eq_eq, (rule wrap_eq_intros)+, simp add: algebra_simps)

lemma zz_addr_tail:
  "0 \<le> k \<Longrightarrow> k < w0 \<Longrightarrow>
   wrap_eq ((i64 (i64 (i64 (i64 (t * i64 (h1 * i64 (w1 * i64 (h0 * w0)))) + h1i * i64 (w1 * i64 (h0 * w0))) + h0i * w0) +
      q * i64 (h0 * w0)) + k) * sz)
    ((t * (h1 * (w1 * (h0 * w0))) + h1i * (w1 * (h0 * w0)) + h0i * w0 + (q * w0 + k) div w0 * (h0 * w0) +
      (q * w0 + k) mod w0) * sz)"
  unfolding block_div_mod by (rule wrap_eq_eq, (rule wrap_eq_intros)+, simp add: algebra_simps)

lemma zz_pos_flat:
  assumes "valid_index outer p" "0 \<le> h1i" "h1i < Ceil h c0" "0 \<le> h0i" "h0i < c0" "0 \<le> wi" "wi < w" "0 < c0" "w < 2 ^ 63 - c0"
  shows "valid_index (outer @ [Ceil h c0, Ceil w c0, c0, c0]) (p @ [h1i, wi div c0, h0i, wi mod c0])"
    "flat (outer @ [Ceil h c0, Ceil w c0, c0, c0]) (p @ [h1i, wi div c0, h0i, wi mod c0]) =
      flat outer p * (Ceil h c0 * (Ceil w c0 * (c0 * c0))) + h1i * (Ceil w c0 * (c0 * c0)) + h0i * c0 +
      wi div c0 * (c0 * c0) + wi mod c0"
proof -
  note l = valid_index_length [OF assms(1)]
  have cs: "0 \<le> wi div c0" "wi div c0 < Ceil w c0" "0 \<le> wi mod c0" "wi mod c0 < c0"
    using channel_split [of wi w c0] assms by simp_all
  then show "valid_index (outer @ [Ceil h c0, Ceil w c0, c0, c0]) (p @ [h1i, wi div c0, h0i, wi mod c0])"
    using assms by (simp add: valid_index_append [OF l])
  show "flat (outer @ [Ceil h c0, Ceil w c0, c0, c0]) (p @ [h1i, wi div c0, h0i, wi mod c0]) =
      flat outer p * (Ceil h c0 * (Ceil w c0 * (c0 * c0))) + h1i * (Ceil w c0 * (c0 * c0)) + h0i * c0 +
      wi div c0 * (c0 * c0) + wi mod c0"
    by (simp add: flat_append [OF l] algebra_simps)
qed

lemma CopyNdToFracZz_fills:
  assumes ok: "platform_ok pf sz" and dims: "0 < h" "0 < w" "\<And>d. d \<in> set outer \<Longrightarrow> 0 < d" "0 < c0" "c0 \<le> 32"
    "w < 2 ^ 63 - c0" "h < 2 ^ 63 - c0"
    and src: "nd_form src outer h w" and dst: "dst = outer @ [Ceil h c0, Ceil w c0, c0, c0]"
    and N: "prod_list dst * sz < 2 ^ 63" "prod_list src * sz < 2 ^ 63"
    and s: "data args = Some s" "int (length s) = prod_list src * sz"
  shows "fills sz (prod_list dst) (\<lambda>x. gather_elem sz src (nd_of_zz src dst) s (unflat dst x))
    (\<Union>t\<in>{0..<prod_list outer}. \<Union>h1i\<in>{0..<Ceil h c0}. \<Union>h0i\<in>{0..<min c0 (h - h1i * c0)}. (\<lambda>wi. t * (Ceil h c0 * (Ceil w c0 * (c0 * c0))) + h1i * (Ceil w c0 * (c0 * c0)) + h0i * c0 + wi div c0 * (c0 * c0) + wi mod c0) ` {0..<w})
    (CopyNdToFracZz pf args sz (prod_list dst * sz) (prod_list outer) h w (Ceil h c0) (Ceil w c0) c0 c0)"
proof -
  have num: "w sdiv c0 = w div c0" using dims by simp
  have hd: "i64 (w div c0 * c0) = w div c0 * c0"
    using block_floor [of c0 w] dims by simp
  have h1: "i64 (h1i * c0) = h1i * c0" if "0 \<le> h1i" "h1i < Ceil h c0" for h1i
    using Ceil_row [of c0 h h1i] that dims by simp
  show ?thesis
    unfolding CopyNdToFracZz_def Let_def num hd s(1) row_bytes [OF ok dims(4,5)]
    apply (rule fills_for)
    apply (rule fills_for)
    apply (simp only: h1)
    apply (rule fills_for)
    subgoal premises ix for t h1i h0i
    proof -
      have t: "valid_index outer (unflat outer t)" "flat outer (unflat outer t) = t"
        using unflat_outer [of outer t] dims(3) ix by blast+
      have h0i: "h0i < c0" "h1i * c0 + h0i < h" using ix(6) by simp_all
      have row: "0 \<le> h1i * c0 + h0i" "h1i * c0 + h0i < h" using ix h0i dims by simp_all
      note nd_at = nd_index [OF src t(1) row]
      note zz_at = zz_pos_flat [OF t(1) ix(3-5) h0i(1) _ _ dims(4,6)]
      show ?thesis
      proof (rule fills_fractal_row [OF ok N s(2) refl dims(4,5) _ refl refl,
            where Q = "\<lambda>wi. t * (h * w) + ((h1i * c0 + h0i) * w + wi)"])
        show "\<exists>idx j. valid_index dst idx \<and> valid_index src j \<and> nd_of_zz src dst idx = Some j \<and>
            t * (Ceil h c0 * (Ceil w c0 * (c0 * c0))) + h1i * (Ceil w c0 * (c0 * c0)) + h0i * c0 + wi div c0 * (c0 * c0) + wi mod c0 = flat dst idx \<and>
            t * (h * w) + ((h1i * c0 + h0i) * w + wi) = flat src j" if "0 \<le> wi" "wi < w" for wi
          using nd_at [OF that] zz_at [OF that] nd_of_zz_at [OF src dst valid_index_length [OF t(1)]] row ix h0i(1) that t(2)
          by (intro exI [of _ "unflat outer t @ [h1i, wi div c0, h0i, wi mod c0]"]
              exI [of _ "nd_index src (unflat outer t) (h1i * c0 + h0i) wi"]) (simp add: dst)
      qed (use dims block_floor [of c0 w] in
          \<open>(intro conjI zz_addr zz_addr_tail nd_addr; linarith) | simp add: block_div_mod\<close>)+
    qed
    done
qed

lemma CopyFracZzToNd_fills:
  assumes ok: "platform_ok pf sz" and dims: "0 < h" "0 < w" "\<And>d. d \<in> set outer \<Longrightarrow> 0 < d" "0 < c0" "c0 \<le> 32"
    "w < 2 ^ 63 - c0" "h < 2 ^ 63 - c0"
    and dst: "nd_form dst outer h w" and src: "src = outer @ [Ceil h c0, Ceil w c0, c0, c0]"
    and N: "prod_list dst * sz < 2 ^ 63" "prod_list src * sz < 2 ^ 63"
    and s: "data args = Some s" "int (length s) = prod_list src * sz"
  shows "fills sz (prod_list dst) (\<lambda>x. gather_elem sz src (zz_of_nd src dst) s (unflat dst x))
    (\<Union>t\<in>{0..<prod_list outer}. \<Union>h1i\<in>{0..<Ceil h c0}. \<Union>h0i\<in>{0..<min c0 (h - h1i * c0)}. (\<lambda>wi. t * (h * w) + ((h1i * c0 + h0i) * w + wi)) ` {0..<w})
    (CopyFracZzToNd pf args sz (prod_list dst * sz) (prod_list outer) h w (Ceil h c0) (Ceil w c0) c0 c0)"
proof -
  have num: "w sdiv c0 = w div c0" using dims by simp
  have hd: "i64 (w div c0 * c0) = w div c0 * c0"
    using block_floor [of c0 w] dims by simp
  have h1: "i64 (h1i * c0) = h1i * c0" if "0 \<le> h1i" "h1i < Ceil h c0" for h1i
    using Ceil_row [of c0 h h1i] that dims by simp
  show ?thesis
    unfolding CopyFracZzToNd_def Let_def num hd s(1) row_bytes [OF ok dims(4,5)]
    apply (rule fills_for)
    apply (rule fills_for)
    apply (simp only: h1)
    apply (rule fills_for)
    subgoal premises ix for t h1i h0i
    proof -
      have t: "valid_index outer (unflat outer t)" "flat outer (unflat outer t) = t"
        using unflat_outer [of outer t] dims(3) ix by blast+
      have h0i: "h0i < c0" "h1i * c0 + h0i < h" using ix(6) by simp_all
      have row: "0 \<le> h1i * c0 + h0i" "h1i * c0 + h0i < h" using ix h0i dims by simp_all
      note nd_at = nd_index [OF dst t(1) row]
      note zz_at = zz_pos_flat [OF t(1) ix(3-5) h0i(1) _ _ dims(4,6)]
      show ?thesis
      proof (rule fills_fractal_row [OF ok N s(2) refl dims(4,5) _ refl refl,
            where Q = "\<lambda>wi. t * (Ceil h c0 * (Ceil w c0 * (c0 * c0))) + h1i * (Ceil w c0 * (c0 * c0)) + h0i * c0 + wi div c0 * (c0 * c0) + wi mod c0"])
        show "\<exists>idx j. valid_index dst idx \<and> valid_index src j \<and> zz_of_nd src dst idx = Some j \<and>
            t * (h * w) + ((h1i * c0 + h0i) * w + wi) = flat dst idx \<and>
            t * (Ceil h c0 * (Ceil w c0 * (c0 * c0))) + h1i * (Ceil w c0 * (c0 * c0)) + h0i * c0 + wi div c0 * (c0 * c0) + wi mod c0 = flat src j" if "0 \<le> wi" "wi < w" for wi
          using nd_at [OF that] zz_at [OF that] zz_of_nd_at [OF dst src valid_index_length [OF t(1)] row] row ix h0i(1) that t(2)
          by (intro exI [of _ "nd_index dst (unflat outer t) (h1i * c0 + h0i) wi"]
              exI [of _ "unflat outer t @ [h1i, wi div c0, h0i, wi mod c0]"]) (simp add: src)
      qed (use dims block_floor [of c0 w] in
          \<open>(intro conjI zz_addr zz_addr_tail nd_addr; linarith) | simp add: block_div_mod\<close>)+
    qed
    done
qed

section \<open>The transfers meet their contract\<close>

definition zz_accepted :: "platform \<Rightarrow> TransArgs \<Rightarrow> bool" where
  "zz_accepted pf args \<longleftrightarrow> IsDataTypeSupport_Zz pf (src_data_type args) \<and> CheckShape_Zz (src_format args) (src_shape args) \<and>
     IsShapeValid (dst_shape args) \<and>
     (case TransShapeToFracZz pf (src_shape args) (src_data_type args) of
        Inl e \<Rightarrow> False
      | Inr (expect_shape, hw_shape) \<Rightarrow> IsTransShapeDstCorrect args expect_shape)"

definition zz_nd_accepted :: "platform \<Rightarrow> TransArgs \<Rightarrow> bool" where
  "zz_nd_accepted pf args \<longleftrightarrow> IsDataTypeSupport_Zz pf (src_data_type args) \<and> IsShapeValid (src_shape args) \<and>
     CheckShape_Zz (dst_format args) (dst_shape args) \<and>
     (case CheckShapeRelation_Zz pf args of Inl e \<Rightarrow> False | Inr hw_shape \<Rightarrow> True)"

lemma CheckShape_Zz_good: "CheckShape_Zz fmt shape \<Longrightarrow> good_shape shape"
  by (auto simp: CheckShape_Zz_def CheckShapeValid_iff IsShapeValid_good split: Format.splits)

lemma IsDataTypeSupport_Zz_cube: "IsDataTypeSupport_Zz pf t \<Longrightarrow> 0 < GetCubeSizeByDataType pf t"
  by (simp add: IsDataTypeSupport_Zz_def CubeSize_pos_iff)

lemma zz_acceptedD:
  assumes "zz_accepted pf args" "c0 = GetCubeSizeByDataType pf (src_data_type args)"
  obtains outer h w where "nd_form (src_shape args) outer h w" "dst_shape args = outer @ [Ceil h c0, Ceil w c0, c0, c0]"
    "TransShapeToFracZz pf (src_shape args) (src_data_type args) = Inr (dst_shape args, [i64 (prod_list outer), h, w])"
    "good_shape (src_shape args)" "good_shape (dst_shape args)" "0 < c0" "c0 \<le> 32"
proof -
  obtain e hw where t: "TransShapeToFracZz pf (src_shape args) (src_data_type args) = Inr (e, hw)"
    using assms(1) by (auto simp: zz_accepted_def split: sum.splits)
  have e: "dst_shape args = e"
    using assms(1) t by (auto simp: zz_accepted_def IsTransShapeDstCorrect_def IsShapeEqual_iff IsShapeValid_def)
  have ok: "good_shape (src_shape args)" "good_shape (dst_shape args)" "0 < c0" "c0 \<le> 32"
    using assms by (auto simp: zz_accepted_def IsShapeValid_good CubeSize_le IsDataTypeSupport_Zz_cube dest: CheckShape_Zz_good)
  obtain outer h w where "nd_form (src_shape args) outer h w" "e = outer @ [Ceil h c0, Ceil w c0, c0, c0]" "hw = [i64 (prod_list outer), h, w]"
    using t assms(2) ok(3,4) by (rule TransShapeToFracZz_Inr)
  with that ok t e show ?thesis by simp
qed

lemma zz_nd_acceptedD:
  assumes "zz_nd_accepted pf args" "c0 = GetCubeSizeByDataType pf (src_data_type args)"
  obtains outer h w where "nd_form (dst_shape args) outer h w" "src_shape args = outer @ [Ceil h c0, Ceil w c0, c0, c0]"
    "CheckShapeRelation_Zz pf args = Inr [i64 (prod_list outer), h, w]"
    "good_shape (src_shape args)" "good_shape (dst_shape args)" "0 < c0" "c0 \<le> 32"
proof -
  obtain e hw where t: "TransShapeToFracZz pf (dst_shape args) (src_data_type args) = Inr (e, hw)"
    and r: "CheckShapeRelation_Zz pf args = Inr hw"
    using assms(1) by (auto simp: zz_nd_accepted_def CheckShapeRelation_Zz_def and_then_def on_error_def
        split: sum.splits if_splits error.splits)
  have e: "src_shape args = e"
    using assms(1) t r
    by (auto simp: zz_nd_accepted_def CheckShapeRelation_Zz_def IsTransShapeSrcCorrect_def IsShapeEqual_iff IsShapeValid_def
        split: if_splits)
  have ok: "good_shape (src_shape args)" "good_shape (dst_shape args)" "0 < c0" "c0 \<le> 32"
    using assms by (auto simp: zz_nd_accepted_def IsShapeValid_good CubeSize_le IsDataTypeSupport_Zz_cube dest: CheckShape_Zz_good)
  obtain outer h w where "nd_form (dst_shape args) outer h w" "e = outer @ [Ceil h c0, Ceil w c0, c0, c0]" "hw = [i64 (prod_list outer), h, w]"
    using t assms(2) ok(3,4) by (rule TransShapeToFracZz_Inr)
  with that ok r e show ?thesis by simp
qed

lemma TransFormatFractalZz_meets:
  assumes acc: "zz_accepted pf args" and sz: "sz = GetSizeByDataType pf (src_data_type args)"
    and ok: "platform_ok pf sz" and s: "holds_tensor sz (src_shape args) (data args) s"
  shows "transfer_spec pf OUT_OF_MEMORY sz (src_shape args) (dst_shape args)
    (nd_of_zz (src_shape args) (dst_shape args)) s result (TransFormatFractalZz pf args result)"
proof -
  obtain outer h w c0 where src: "nd_form (src_shape args) outer h w" and dst: "dst_shape args = outer @ [Ceil h c0, Ceil w c0, c0, c0]"
    and t: "TransShapeToFracZz pf (src_shape args) (src_data_type args) = Inr (dst_shape args, [i64 (prod_list outer), h, w])"
    and good: "good_shape (src_shape args)" "good_shape (dst_shape args)" and c0: "0 < c0" "c0 \<le> 32"
    using acc refl by (rule zz_acceptedD)
  have "prod_list (dst_shape args) = prod_list outer * (Ceil w c0 * Ceil h c0 * (c0 * c0))" by (simp add: dst)
  note dims = fractal_dims [OF good(1) src c0 c0 _ this]
  note bytes = good_shape_bytes [OF good(2) ok] good_shape_bytes [OF good(1) ok]
  have nn: "0 \<le> prod_list (dst_shape args)" using good_shape_prod [OF good(2)] by simp
  let ?dsize = "prod_list (dst_shape args) * sz"
  have c: "IsDataTypeSupport_Zz pf (src_data_type args)" "CheckShape_Zz (src_format args) (src_shape args)"
    "IsShapeValid (dst_shape args)" "IsTransShapeDstCorrect args (dst_shape args)"
    using acc t by (simp_all add: zz_accepted_def)
  let ?copy = "CopyNdToFracZz pf args sz ?dsize (i64 (prod_list outer)) h w (Ceil h c0) (Ceil w c0) c0 c0"
  have eq: "TransFormatFractalZz pf args result = nonempty_trans ?dsize result
     (alloc_dst_zeroed pf ?dsize (\<lambda>d. and_then (?copy d) (set_result result ?dsize)))"
    unfolding TransFormatFractalZz_def t and_then_simps prod.case
    using c by (simp only: TransFormatFromNdToFracZz_def Let_def sz [symmetric] bytes(3) if_False if_True simp_thms at_hw)
      (simp only: dst at_back_outer)
  show ?thesis
    unfolding eq
  proof (rule nonempty_trans_zeroed_spec [OF ok nn bytes(1) refl])
    assume p: "0 < prod_list (dst_shape args)"
    note d = dims [OF disjI2, OF p [THEN less_imp_neq, symmetric]]
    show "fills sz (prod_list (dst_shape args)) (\<lambda>x. gather_elem sz (src_shape args)
        (nd_of_zz (src_shape args) (dst_shape args)) s (unflat (dst_shape args) x))
      (\<Union>t\<in>{0..<prod_list outer}. \<Union>h1i\<in>{0..<Ceil h c0}. \<Union>h0i\<in>{0..<min c0 (h - h1i * c0)}. (\<lambda>wi. t * (Ceil h c0 * (Ceil w c0 * (c0 * c0))) + h1i * (Ceil w c0 * (c0 * c0)) + h0i * c0 + wi div c0 * (c0 * c0) + wi mod c0) ` {0..<w}) ?copy"
      unfolding d(4)
      by (rule CopyNdToFracZz_fills [OF ok d(1-3) c0 d(5,6) src dst bytes(1,4)]) (use s in \<open>auto simp: holds_tensor_def\<close>)
    fix idx assume v: "valid_index (dst_shape args) idx" and g: "nd_of_zz (src_shape args) (dst_shape args) idx \<noteq> None"
    from v obtain p q where i: "idx = p @ q" "valid_index outer p" "valid_index [Ceil h c0, Ceil w c0, c0, c0] q"
      unfolding dst by (rule valid_index_appendE)
    then obtain h1i w1i h0i w0i where q: "q = [h1i, w1i, h0i, w0i]" "0 \<le> w1i" "0 \<le> h1i" "h1i < Ceil h c0"
      "0 \<le> h0i" "h0i < c0" "0 \<le> w0i" "w0i < c0"
      by (auto simp: valid_index_Cons)
    let ?wi = "w1i * c0 + w0i"
    have b: "h1i * c0 + h0i < h" "?wi < w" "0 \<le> ?wi"
      using g nd_of_zz_at [OF src dst valid_index_length [OF i(2)]] c0 q by (auto simp: i q(1) split: if_splits)
    have "flat (dst_shape args) idx = flat outer p * (Ceil h c0 * (Ceil w c0 * (c0 * c0))) + h1i * (Ceil w c0 * (c0 * c0)) +
        h0i * c0 + ?wi div c0 * (c0 * c0) + ?wi mod c0"
      using zz_pos_flat(2) [OF i(2) q(3-6) b(3,2) c0(1) d(5)] q by (simp add: block_div_mod i(1) dst)
    with b q flat_bounds [OF i(2)] show "flat (dst_shape args) idx \<in> (\<Union>t\<in>{0..<prod_list outer}. \<Union>h1i\<in>{0..<Ceil h c0}. \<Union>h0i\<in>{0..<min c0 (h - h1i * c0)}. (\<lambda>wi. t * (Ceil h c0 * (Ceil w c0 * (c0 * c0))) + h1i * (Ceil w c0 * (c0 * c0)) + h0i * c0 + wi div c0 * (c0 * c0) + wi mod c0) ` {0..<w})"
      by (intro UN_I [of "flat outer p"] UN_I [of h1i] UN_I [of h0i] image_eqI [of _ _ ?wi]) simp_all
  qed simp
qed

lemma TransFormatFractalZzND_meets:
  assumes acc: "zz_nd_accepted pf args" and sz: "sz = GetSizeByDataType pf (src_data_type args)"
    and ok: "platform_ok pf sz" and s: "holds_tensor sz (src_shape args) (data args) s"
  shows "transfer_spec pf OUT_OF_MEMORY sz (src_shape args) (dst_shape args)
    (zz_of_nd (src_shape args) (dst_shape args)) s result (TransFormatFractalZzND pf args result)"
proof -
  obtain outer h w c0 where dst: "nd_form (dst_shape args) outer h w" and src: "src_shape args = outer @ [Ceil h c0, Ceil w c0, c0, c0]"
    and t: "CheckShapeRelation_Zz pf args = Inr [i64 (prod_list outer), h, w]"
    and good: "good_shape (src_shape args)" "good_shape (dst_shape args)" and c0: "0 < c0" "c0 \<le> 32"
    using acc refl by (rule zz_nd_acceptedD)
  have "prod_list (src_shape args) = prod_list outer * (Ceil w c0 * Ceil h c0 * (c0 * c0))" by (simp add: src)
  note dims = fractal_dims [OF good(2) dst c0 c0 _ this]
  note bytes = good_shape_bytes [OF good(2) ok] good_shape_bytes [OF good(1) ok]
  have nn: "0 \<le> prod_list (dst_shape args)" using good_shape_prod [OF good(2)] by simp
  let ?dsize = "prod_list (dst_shape args) * sz"
  have c: "IsDataTypeSupport_Zz pf (src_data_type args)" "IsShapeValid (src_shape args)"
    "CheckShape_Zz (dst_format args) (dst_shape args)"
    using acc by (simp_all add: zz_nd_accepted_def)
  let ?copy = "CopyFracZzToNd pf args sz ?dsize (i64 (prod_list outer)) h w (Ceil h c0) (Ceil w c0) c0 c0"
  have eq: "TransFormatFractalZzND pf args result = nonempty_trans ?dsize result
     (alloc_dst_zeroed pf ?dsize (\<lambda>d. and_then (?copy d) (set_result result ?dsize)))"
    unfolding TransFormatFractalZzND_def t and_then_simps on_error_simps
    using c by (simp only: TransFormatFromFracZzToNd_def Let_def sz [symmetric] bytes(3) if_False if_True simp_thms at_hw)
      (simp only: src at_back_outer)
  show ?thesis
    unfolding eq
  proof (rule nonempty_trans_zeroed_spec [OF ok nn bytes(1) refl])
    assume p: "0 < prod_list (dst_shape args)"
    note d = dims [OF disjI1, OF p [THEN less_imp_neq, symmetric]]
    show "fills sz (prod_list (dst_shape args)) (\<lambda>x. gather_elem sz (src_shape args)
        (zz_of_nd (src_shape args) (dst_shape args)) s (unflat (dst_shape args) x))
      (\<Union>t\<in>{0..<prod_list outer}. \<Union>h1i\<in>{0..<Ceil h c0}. \<Union>h0i\<in>{0..<min c0 (h - h1i * c0)}. (\<lambda>wi. t * (h * w) + ((h1i * c0 + h0i) * w + wi)) ` {0..<w}) ?copy"
      unfolding d(4)
      by (rule CopyFracZzToNd_fills [OF ok d(1-3) c0 d(5,6) dst src bytes(1,4)]) (use s in \<open>auto simp: holds_tensor_def\<close>)
    fix idx assume v: "valid_index (dst_shape args) idx"
    obtain p hi wi where i: "idx = nd_index (dst_shape args) p hi wi" "valid_index outer p" "0 \<le> hi" "hi < h" "0 \<le> wi" "wi < w"
      using dst v by (rule nd_index_cases)
    have h: "0 \<le> hi div c0" "hi div c0 < Ceil h c0" "0 \<le> hi mod c0" "hi mod c0 < c0" "hi div c0 * c0 + hi mod c0 = hi"
      using channel_split [of hi h c0] i c0 d(6) by simp_all
    have "hi mod c0 < h - hi div c0 * c0" using h(5) i(4) by linarith
    with h i flat_bounds [OF i(2)] nd_index(2) [OF dst i(2-6)]
    show "flat (dst_shape args) idx \<in> (\<Union>t\<in>{0..<prod_list outer}. \<Union>h1i\<in>{0..<Ceil h c0}. \<Union>h0i\<in>{0..<min c0 (h - h1i * c0)}. (\<lambda>wi. t * (h * w) + ((h1i * c0 + h0i) * w + wi)) ` {0..<w})"
      by (intro UN_I [of "flat outer p"] UN_I [of "hi div c0"] UN_I [of "hi mod c0"] image_eqI [of _ _ wi]) simp_all
  qed simp
qed

interpretation zz: transfer_pair
  zz_accepted TransFormatFractalZz nd_of_zz OUT_OF_MEMORY zz_nd_accepted TransFormatFractalZzND zz_of_nd OUT_OF_MEMORY
proof unfold_locales
  fix pf args r assume acc: "zz_accepted pf args"
  obtain outer h w c0 where src: "nd_form (src_shape args) outer h w" and dst: "dst_shape args = outer @ [Ceil h c0, Ceil w c0, c0, c0]"
    and t: "TransShapeToFracZz pf (src_shape args) (src_data_type args) = Inr (dst_shape args, [i64 (prod_list outer), h, w])"
    and good: "good_shape (src_shape args)" "good_shape (dst_shape args)" and c0: "0 < c0" "c0 \<le> 32"
    using acc refl by (rule zz_acceptedD)
  have "prod_list (dst_shape args) = prod_list outer * (Ceil w c0 * Ceil h c0 * (c0 * c0))" by (simp add: dst)
  note dims = fractal_dims [OF good(1) src c0 c0 _ this]
  show "zz_nd_accepted pf (args_back args r) \<and> prod_list (dst_shape args) \<noteq> 0"
    if ne: "prod_list (src_shape args) \<noteq> 0"
    using acc t dims(8) ne
    by (auto simp: zz_accepted_def zz_nd_accepted_def CheckShapeRelation_Zz_def IsTransShapeSrcCorrect_def IsShapeEqual_iff args_back_def)
  show "\<exists>j. zz_of_nd (dst_shape args) (src_shape args) idx = Some j \<and> valid_index (dst_shape args) j \<and>
      nd_of_zz (src_shape args) (dst_shape args) j = Some idx"
    if v: "valid_index (src_shape args) idx" for idx
  proof -
    note d = dims [OF disjI1, OF prod_list_pos_of_valid [OF v, THEN less_imp_neq, symmetric]]
    obtain p hi wi where i: "idx = nd_index (src_shape args) p hi wi" "valid_index outer p" "0 \<le> hi" "hi < h" "0 \<le> wi" "wi < w"
      using src v by (rule nd_index_cases)
    note l = valid_index_length [OF i(2)]
    have h: "0 \<le> hi div c0" "hi div c0 < Ceil h c0" "0 \<le> hi mod c0" "hi mod c0 < c0"
      using channel_split [of hi h c0] i c0 d(6) by simp_all
    show ?thesis
      using zz_of_nd_at [OF src dst l i(3,4)] nd_of_zz_at [OF src dst l] zz_pos_flat(1) [OF i(2) h i(5,6) c0(1) d(5)] i
      by (simp add: dst [symmetric] div_mult_mod_eq)
  qed
qed (auto simp: zz_accepted_def zz_nd_accepted_def IsShapeValid_good dest: CheckShape_Zz_good
    intro!: TransFormatFractalZz_meets TransFormatFractalZzND_meets)

section \<open>Properties\<close>

definition zz_sample :: TransArgs where
  "zz_sample = sample_args FORMAT_ND FORMAT_FRACTAL_ZZ [1] [1, 1, 16, 16] DT_FLOAT16 [Some 1, Some 2]"

lemma zz_sample_ok:
  "zz_accepted sample_platform zz_sample"
  "platform_ok sample_platform (GetSizeByDataType sample_platform (src_data_type zz_sample))"
  "holds_tensor (GetSizeByDataType sample_platform (src_data_type zz_sample)) (src_shape zz_sample)
     (data zz_sample) [Some 1, Some 2]"
  "new_succeeds sample_platform (prod_list (dst_shape zz_sample) *
     GetSizeByDataType sample_platform (src_data_type zz_sample))"
  "prod_list (dst_shape zz_sample) \<noteq> 0" "prod_list (src_shape zz_sample) \<noteq> 0"
  "new_succeeds sample_platform (prod_list (src_shape zz_sample) *
     GetSizeByDataType sample_platform (src_data_type zz_sample))"
  by (simp_all add: zz_accepted_def zz_sample_def sample_defs platform_ok_def IsDataTypeSupport_Zz_def
    CheckShape_Zz_def TransShapeToFracZz_def at_def DIM_DEFAULT_VALUE_def IsTransShapeDstCorrect_def IsShapeEqual_iff
    holds_tensor_def GetCubeSizeByDataType_def kCubeSize_def kShapeItemNumMAX_def IsShapeValid_def Ceil_def)

text \<open>C23: ND, NCHW or NHWC to FRACTAL\_ZZ. Element \<open>[.., h1, w1, h0, w0]\<close> of the result is source element
  \<open>[.., h1 * c0 + h0, w1 * c0 + w0]\<close>, or zero in the padding of rows and columns; the transfer always returns,
  inside both buffers.\<close>

theorem nd_to_fractal_zz_correct:
  assumes "zz_accepted pf args"
    and "sz = GetSizeByDataType pf (src_data_type args)" "platform_ok pf sz"
    and "holds_tensor sz (src_shape args) (data args) s"
  shows "transfer_spec pf OUT_OF_MEMORY sz (src_shape args) (dst_shape args)
    (nd_of_zz (src_shape args) (dst_shape args)) s result (TransFormatFractalZz pf args result)"
  using assms by (rule zz.fwd.meets)

theorem nd_to_fractal_zz_correct_witness:
  "zz_accepted sample_platform zz_sample \<and>
   transfer_spec sample_platform OUT_OF_MEMORY (GetSizeByDataType sample_platform (src_data_type zz_sample))
     (src_shape zz_sample) (dst_shape zz_sample)
     (nd_of_zz (src_shape zz_sample) (dst_shape zz_sample)) [Some 1, Some 2] no_result
     (TransFormatFractalZz sample_platform zz_sample no_result)"
  by (intro conjI zz_sample_ok(1) nd_to_fractal_zz_correct [OF zz_sample_ok(1) refl zz_sample_ok(2,3)])

text \<open>FRACTAL\_ZZ to ND undoes ND to FRACTAL\_ZZ: whatever the forward transfer of a tensor returns, the backward
  transfer accepts it and returns the bytes of the tensor.\<close>

theorem nd_fractal_zz_roundtrip:
  assumes "zz_accepted pf args"
    and "sz = GetSizeByDataType pf (src_data_type args)" "platform_ok pf sz"
    and "holds_tensor sz (src_shape args) (data args) s" "prod_list (src_shape args) \<noteq> 0"
    and "TransFormatFractalZz pf args result = Inr r"
    and "new_succeeds pf (prod_list (src_shape args) * sz)"
  shows "TransFormatFractalZzND pf (args_back args r) result' =
    Inr (result'\<lparr>res_data := Some s, res_length := int (length s)\<rparr>)"
  using assms by (rule zz.roundtrip)

theorem nd_fractal_zz_roundtrip_witness:
  "\<exists>r. TransFormatFractalZz sample_platform zz_sample no_result = Inr r \<and>
     TransFormatFractalZzND sample_platform (args_back zz_sample r) no_result =
       Inr (no_result\<lparr>res_data := Some [Some 1, Some 2], res_length := 2\<rparr>)"
proof -
  note h = zz_sample_ok
  obtain r where r: "TransFormatFractalZz sample_platform zz_sample no_result = Inr r"
    by (rule zz.fwd.returns [OF h(1) refl h(2-5), of no_result]) blast
  have "TransFormatFractalZzND sample_platform (args_back zz_sample r) no_result =
      Inr (no_result\<lparr>res_data := Some [Some 1, Some 2],
        res_length := int (length ([Some 1, Some 2] :: mem))\<rparr>)"
    by (rule nd_fractal_zz_roundtrip [OF h(1) refl h(2,3,6) r h(7)])
  with r show ?thesis by simp
qed

end
