(* ===== verification/Trans_Transpose.thy ===== *)
theory Trans_Transpose
  imports Transfer_Spec
begin

text \<open>
  Transposition of tensors of any rank (\<open>format_transfer_transpose.cc\<close>): the permutation table of the 4D formats, the
  argument checks, the strides, the running index, \<open>Transpose\<close> itself and the transfer built on it. The lemmas show
  that the running index enumerates the destination in row-major order, that the permuted strides address the source
  element with the permuted index, and hence that the result is the transposed tensor.
\<close>

section \<open>The permutation table\<close>

definition perm_args :: "(Format \<times> (Format \<times> int list) list) list" where
  "perm_args =
     [(FORMAT_NCHW,
       [(FORMAT_NHWC, map int [kNchwN, kNchwH, kNchwW, kNchwC]),
        (FORMAT_HWCN, map int [kNchwH, kNchwW, kNchwC, kNchwN]),
        (FORMAT_CHWN, map int [kNchwC, kNchwH, kNchwW, kNchwN])]),
      (FORMAT_NHWC,
       [(FORMAT_NCHW, map int [kNhwcN, kNhwcC, kNhwcH, kNhwcW]),
        (FORMAT_CHWN, map int [kNhwcC, kNhwcH, kNhwcW, kNhwcN]),
        (FORMAT_HWCN, map int [kNhwcH, kNhwcW, kNhwcC, kNhwcN])]),
      (FORMAT_HWCN,
       [(FORMAT_NCHW, map int [kHwcnN, kHwcnC, kHwcnH, kHwcnW]),
        (FORMAT_NHWC, map int [kHwcnN, kHwcnH, kHwcnW, kHwcnC]),
        (FORMAT_CHWN, map int [kHwcnC, kHwcnH, kHwcnW, kHwcnN])]),
      (FORMAT_CHWN,
       [(FORMAT_NCHW, map int [kChwnN, kChwnC, kChwnH, kChwnW]),
        (FORMAT_NHWC, map int [kChwnN, kChwnH, kChwnW, kChwnC]),
        (FORMAT_HWCN, map int [kChwnH, kChwnW, kChwnC, kChwnN])])]"

definition GetPermByForamt :: "Format \<Rightarrow> Format \<Rightarrow> int list res" where
  "GetPermByForamt s_format d_format =
     (case map_of perm_args s_format of
        None \<Rightarrow> Inl (Ret ACL_ERROR_GE_TRANSSHAPE_FORMAT_INVALID)
      | Some dst_iter \<Rightarrow>
          (case map_of dst_iter d_format of
             None \<Rightarrow> Inl (Ret ACL_ERROR_GE_TRANSSHAPE_FORMAT_INVALID)
           | Some perm \<Rightarrow> Inr perm))"

section \<open>Argument checks\<close>

text \<open>The loop over the permutation; \<open>seen\<close> is the vector \<open>exists\<close>.\<close>

fun check_perm :: "nat \<Rightarrow> int list \<Rightarrow> int list \<Rightarrow> bool" where
  "check_perm n [] seen = True"
| "check_perm n (perm # perms) seen =
     (if perm < 0 \<or> perm \<ge> int n then False
      else let seen' = seen[nat perm := i64 (seen ! nat perm + 1)] in
        if seen' ! nat perm > 1 then False else check_perm n perms seen')"

definition IsShapeArgValid :: "int list \<Rightarrow> int list \<Rightarrow> bool" where
  "IsShapeArgValid s_shape perm_arg =
     (if s_shape = [] then False
      else if list_ex (\<lambda>dim. dim < 0) s_shape then False
      else if length perm_arg \<noteq> length s_shape then False
      else check_perm (length perm_arg) perm_arg (replicate (length perm_arg) 0))"

definition IsTransposeArgValid :: "platform \<Rightarrow> mem option \<Rightarrow> int list \<Rightarrow> DataType \<Rightarrow> int list \<Rightarrow> bool" where
  "IsTransposeArgValid pf src s_shape data_type perm_arg =
     (if src = None then False
      else if GetSizeByDataType pf data_type < 0 then False
      else IsShapeArgValid s_shape perm_arg)"

section \<open>Strides and indexes\<close>

text \<open>The loop runs from the last axis to the first; each stride is the next dimension times the next stride.\<close>

fun GenHeads :: "int list \<Rightarrow> int list" where
  "GenHeads [] = []"
| "GenHeads [dim] = [1]"
| "GenHeads (dim # dim' # dims) = (let heads = GenHeads (dim' # dims) in i64 (dim' * heads ! 0) # heads)"

fun GenOffset_from :: "int \<Rightarrow> int list \<Rightarrow> int list \<Rightarrow> int res" where
  "GenOffset_from offset offsets [] = Inr offset"
| "GenOffset_from offset [] (i # idx) = Inl Fault"
| "GenOffset_from offset (h # offsets) (i # idx) = GenOffset_from (i64 (offset + h * i)) offsets idx"

definition GenOffset :: "int list \<Rightarrow> int list \<Rightarrow> int res" where
  "GenOffset offsets indexes = GenOffset_from 0 offsets indexes"

text \<open>The \<open>while\<close> loop of \<open>AddOne\<close> at position \<open>i\<close>.\<close>

fun AddOne_loop :: "int list \<Rightarrow> nat \<Rightarrow> int list \<Rightarrow> int list" where
  "AddOne_loop shape 0 indexes = indexes"
| "AddOne_loop shape (Suc i) indexes =
     (if indexes ! Suc i \<ge> shape ! Suc i
      then AddOne_loop shape i (indexes[Suc i := 0, i := i64 (indexes ! i + 1)])
      else indexes)"

definition AddOne :: "int list \<Rightarrow> int list \<Rightarrow> int list res" where
  "AddOne shape indexes =
     (if indexes = [] \<or> length shape \<noteq> length indexes then Inl Fault
      else let i = length indexes - 1 in
        Inr (AddOne_loop shape i (indexes[i := i64 (indexes ! i + 1)])))"

definition TransShapeByPerm :: "int list \<Rightarrow> int list \<Rightarrow> int list res" where
  "TransShapeByPerm s_shape perm_arg =
     for_lt (int (length perm_arg))
       (\<lambda>i d_shape. and_then (at_index perm_arg i) (\<lambda>p. and_then (at_index s_shape p) (\<lambda>dim.
          and_then (at_index d_shape i) (\<lambda>_. Inr (d_shape[nat i := dim])))))
       (replicate (length s_shape) 0)"

section \<open>Transposition\<close>

definition transpose_step ::
  "platform \<Rightarrow> mem option \<Rightarrow> int list \<Rightarrow> int list \<Rightarrow> int \<Rightarrow> int \<Rightarrow> int \<Rightarrow> mem option \<times> int list \<Rightarrow> (mem option \<times> int list) res"
where
  "transpose_step pf src d_shape src_heads data_size dst_size dst_index = (\<lambda>(dst, dst_indexes).
     and_then (GenOffset src_heads dst_indexes) (\<lambda>offset.
       let src_offset = i64 (offset * data_size);
           dst_offset_bytes = i64 (dst_index * data_size)
       in and_then (check_eok (memcpy_s pf dst dst_offset_bytes (protected_size pf dst_size dst_offset_bytes)
            src src_offset data_size)) (\<lambda>dst.
          and_then (AddOne d_shape dst_indexes) (\<lambda>dst_indexes. Inr (dst, dst_indexes)))))"

definition Transpose ::
  "platform \<Rightarrow> mem option \<Rightarrow> int list \<Rightarrow> DataType \<Rightarrow> int list \<Rightarrow> TransResult \<Rightarrow> TransResult res"
where
  "Transpose pf src s_shape data_type perm_arg result =
     (if \<not> IsTransposeArgValid pf src s_shape data_type perm_arg then Inl (Ret PARAM_INVALID)
      else and_then (TransShapeByPerm s_shape perm_arg) (\<lambda>d_shape.
        let src_origin_ordered_heads = GenHeads s_shape in
        and_then (TransShapeByPerm src_origin_ordered_heads perm_arg) (\<lambda>src_heads.
        let dst_ele_num = GetItemNumByShape d_shape;
            data_size = GetSizeByDataType pf data_type;
            dst_size = i64 (data_size * dst_ele_num)
        in if dst_ele_num = 0 then Inr (result\<lparr>res_length := u64 dst_size\<rparr>)
           else
             let dst = new_bytes pf dst_size;
                 dst_indexes = replicate (length d_shape) 0
             in and_then (for_lt dst_ele_num (transpose_step pf src d_shape src_heads data_size dst_size)
                  (dst, dst_indexes)) (\<lambda>(dst, _).
                set_result result dst_size dst))))"

definition TransposeWithShapeCheck ::
  "platform \<Rightarrow> mem option \<Rightarrow> int list \<Rightarrow> int list \<Rightarrow> DataType \<Rightarrow> int list \<Rightarrow> TransResult \<Rightarrow> TransResult res"
where
  "TransposeWithShapeCheck pf src s_shape d_shape data_type perm_arg result =
     (if \<not> IsTransposeArgValid pf src s_shape data_type perm_arg then Inl (Ret PARAM_INVALID)
      else and_then (TransShapeByPerm s_shape perm_arg) (\<lambda>expected_shape.
        \<comment> \<open>a shape other than the expected one is only logged\<close>
        Transpose pf src s_shape data_type perm_arg result))"

definition TransShapeTranspose :: "platform \<Rightarrow> Format \<Rightarrow> int list \<Rightarrow> DataType \<Rightarrow> Format \<Rightarrow> int list res" where
  "TransShapeTranspose pf s_format s_shape data_type d_format =
     and_then (GetPermByForamt s_format d_format) (\<lambda>perm_arg.
       if \<not> IsShapeArgValid s_shape perm_arg then Inl (Ret ACL_ERROR_GE_TRANSSHAPE_SHAPE_INVALID)
       else TransShapeByPerm s_shape perm_arg)"

definition TransFormatTranspose :: trans_format where
  "TransFormatTranspose pf args result =
     and_then (TransShapeTranspose pf (src_format args) (src_shape args) (src_data_type args) (dst_format args))
       (\<lambda>expected_shape.
       if \<not> IsTransShapeDstCorrect args expected_shape then Inl (Ret PARAM_INVALID)
       else and_then (GetPermByForamt (src_format args) (dst_format args)) (\<lambda>perm_arg.
         Transpose pf (data args) (src_shape args) (src_data_type args) perm_arg result))"

section \<open>Permutations\<close>

definition is_perm :: "int list \<Rightarrow> bool" where
  "is_perm p \<longleftrightarrow> distinct p \<and> set p = {0..<int (length p)}"

definition permute :: "int list \<Rightarrow> 'a list \<Rightarrow> 'a list" where
  "permute p xs = map (\<lambda>k. xs ! nat k) p"

text \<open>The position of axis \<open>k\<close> in a permutation, and the source index of a destination index.\<close>

definition axis_position :: "int list \<Rightarrow> nat \<Rightarrow> nat" where
  "axis_position p k = length (takeWhile (\<lambda>q. q \<noteq> int k) p)"

definition unpermute :: "int list \<Rightarrow> 'a list \<Rightarrow> 'a list" where
  "unpermute p ys = map (\<lambda>k. ys ! axis_position p k) [0..<length p]"

lemma length_permute [simp]: "length (permute p xs) = length p" "length (unpermute p ys) = length p"
  by (simp_all add: permute_def unpermute_def)

lemma is_perm_nth: "is_perm p \<Longrightarrow> i < length p \<Longrightarrow> 0 \<le> p ! i \<and> p ! i < int (length p)"
  using nth_mem [of i p] by (auto simp: is_perm_def)

lemma is_perm_nat: "is_perm p \<Longrightarrow> i < length p \<Longrightarrow> nat (p ! i) < length p"
  using is_perm_nth [of p i] by auto

lemma permute_nth: "i < length p \<Longrightarrow> permute p xs ! i = xs ! nat (p ! i)"
  by (simp add: permute_def)

lemma axis_position:
  assumes "is_perm p" "k < length p"
  shows "axis_position p k < length p" "p ! axis_position p k = int k"
proof -
  have "\<exists>q\<in>set p. \<not> q \<noteq> int k" using assms by (auto simp: is_perm_def)
  then show less: "axis_position p k < length p"
    unfolding axis_position_def
    by (metis (mono_tags, lifting) length_takeWhile_le nat_less_le takeWhile_eq_all_conv takeWhile_eq_take take_all_iff order_refl)
  then show "p ! axis_position p k = int k"
    unfolding axis_position_def using nth_length_takeWhile [of "\<lambda>q. q \<noteq> int k" p] by simp
qed

lemma axis_position_nth:
  assumes "is_perm p" "i < length p"
  shows "axis_position p (nat (p ! i)) = i"
proof -
  have k: "nat (p ! i) < length p" "int (nat (p ! i)) = p ! i" using is_perm_nth [OF assms] by auto
  have "distinct p" using assms by (simp add: is_perm_def)
  then show ?thesis using axis_position [OF assms(1) k(1)] k(2) assms(2) by (simp add: nth_eq_iff_index_eq)
qed

lemma unpermute_permute: "is_perm p \<Longrightarrow> length xs = length p \<Longrightarrow> unpermute p (permute p xs) = xs"
  by (rule nth_equalityI) (auto simp: unpermute_def permute_nth axis_position)

lemma permute_unpermute: "is_perm p \<Longrightarrow> length ys = length p \<Longrightarrow> permute p (unpermute p ys) = ys"
  by (rule nth_equalityI) (auto simp: unpermute_def permute_nth axis_position_nth is_perm_nat)

lemma is_perm_bij: "is_perm p \<Longrightarrow> bij_betw (\<lambda>i. nat (p ! i)) {..<length p} {..<length p}"
  by (rule bij_betw_byWitness [where f' = "axis_position p"])
    (auto simp: axis_position axis_position_nth is_perm_nat)

lemma sum_permute:
  fixes f :: "nat \<Rightarrow> int"
  shows "is_perm p \<Longrightarrow> (\<Sum>i<length p. f (nat (p ! i))) = (\<Sum>k<length p. f k)"
  using sum.reindex_bij_betw [OF is_perm_bij] .

lemma prod_list_nth: "prod_list (xs :: int list) = (\<Prod>i<length xs. xs ! i)"
  by (induction xs) (simp_all del: prod.lessThan_Suc add: prod.lessThan_Suc_shift)

lemma prod_list_permute:
  fixes xs :: "int list"
  assumes "is_perm p" "length xs = length p"
  shows "prod_list (permute p xs) = prod_list xs"
  using prod.reindex_bij_betw [OF is_perm_bij [OF assms(1)], of "\<lambda>k. xs ! k"] assms(2)
  by (simp add: prod_list_nth permute_nth)

lemma set_permute: "is_perm p \<Longrightarrow> length xs = length p \<Longrightarrow> set (permute p xs) \<subseteq> set xs"
  by (auto simp: in_set_conv_nth permute_nth) (metis is_perm_nat)

lemma valid_index_nth: "valid_index ds is \<longleftrightarrow> length is = length ds \<and> (\<forall>k<length ds. 0 \<le> is ! k \<and> is ! k < ds ! k)"
  by (auto simp: valid_index_def list_all2_conv_all_nth)

lemma valid_index_unpermute:
  assumes "is_perm p" "length ds = length p" "valid_index (permute p ds) ys"
  shows "valid_index ds (unpermute p ys)"
  unfolding valid_index_nth
proof (intro conjI allI impI)
  fix k assume "k < length ds"
  then have "axis_position p k < length p" "p ! axis_position p k = int k"
    using axis_position [OF assms(1)] assms(2) by simp_all
  moreover from this have "0 \<le> ys ! axis_position p k \<and> ys ! axis_position p k < permute p ds ! axis_position p k"
    using assms(3) by (simp add: valid_index_nth)
  ultimately show "0 \<le> unpermute p ys ! k" "unpermute p ys ! k < ds ! k"
    using \<open>k < length ds\<close> assms(2) by (simp_all add: unpermute_def permute_nth)
qed (use assms in simp)

section \<open>The argument check accepts exactly the permutations\<close>

lemma check_perm_iff:
  assumes "length seen = n" "\<forall>k<n. seen ! k = 0 \<or> seen ! k = 1"
  shows "check_perm n ps seen \<longleftrightarrow>
    distinct ps \<and> set ps \<subseteq> {0..<int n} \<and> (\<forall>q\<in>set ps. seen ! nat q = 0)"
  using assms
proof (induction ps arbitrary: seen)
  case (Cons p ps)
  show ?case
  proof (cases "0 \<le> p \<and> p < int n")
    case True
    then have u: "\<not> (p < 0 \<or> int n \<le> p)" "nat p < length seen"
      using Cons.prems by (auto simp: nat_less_iff)
    have step: "check_perm n (p # ps) seen \<longleftrightarrow>
        i64 (seen ! nat p + 1) \<le> 1 \<and> check_perm n ps (seen[nat p := i64 (seen ! nat p + 1)])"
      using u by (auto simp: Let_def)
    show ?thesis
    proof (cases "seen ! nat p = 0")
      case False
      then have "seen ! nat p = 1" using Cons.prems u by auto
      then have "\<not> i64 (seen ! nat p + 1) \<le> 1" by simp
      with False show ?thesis unfolding step by auto
    next
      case zero: True
      then have e: "i64 (seen ! nat p + 1) = 1" by simp
      have "check_perm n ps (seen[nat p := 1]) \<longleftrightarrow>
          distinct ps \<and> set ps \<subseteq> {0..<int n} \<and> (\<forall>q\<in>set ps. seen[nat p := 1] ! nat q = 0)"
        using Cons.prems u by (intro Cons.IH) (auto simp: nth_list_update)
      moreover have "(\<forall>q\<in>set ps. seen[nat p := 1] ! nat q = 0) \<longleftrightarrow> p \<notin> set ps \<and> (\<forall>q\<in>set ps. seen ! nat q = 0)"
        if "set ps \<subseteq> {0..<int n}"
      proof -
        have "seen[nat p := 1] ! nat q = 0 \<longleftrightarrow> q \<noteq> p \<and> seen ! nat q = 0" if "q \<in> set ps" for q
          using \<open>set ps \<subseteq> _\<close> that True u(2) zero by (cases "q = p") (auto simp: nth_list_update eq_nat_nat_iff)
        then show ?thesis by blast
      qed
      ultimately show ?thesis unfolding step e using True zero by auto
    qed
  next
    case False
    then show ?thesis by auto
  qed
qed simp

lemma distinct_range_is_perm:
  assumes "distinct p" "set p \<subseteq> {0..<int (length p)}"
  shows "is_perm p"
proof -
  have "card (set p) = card {0..<int (length p)}" using distinct_card [OF assms(1)] by simp
  then show ?thesis using assms card_subset_eq [OF _ assms(2)] by (simp add: is_perm_def)
qed

lemma IsShapeArgValid_iff:
  "IsShapeArgValid s p \<longleftrightarrow> s \<noteq> [] \<and> (\<forall>d\<in>set s. 0 \<le> d) \<and> length p = length s \<and> is_perm p"
proof -
  have "check_perm (length s) p (replicate (length s) 0) \<longleftrightarrow> is_perm p" if "length p = length s"
    using check_perm_iff [of "replicate (length s) 0" "length s" p] distinct_range_is_perm [of p] that
    by (auto simp: is_perm_def nat_less_iff)
  moreover have "list_ex (\<lambda>dim. dim < 0) s \<longleftrightarrow> \<not> (\<forall>d\<in>set s. 0 \<le> d)" by (auto simp: list_ex_iff not_le)
  ultimately show ?thesis by (simp add: IsShapeArgValid_def)
qed

lemma TransShapeByPerm_loop:
  assumes "is_perm p" "length xs = length p" "k \<le> length p" "length d = length p"
  shows "for_upt k (int (length p - k))
       (\<lambda>i d. and_then (at_index p i) (\<lambda>q. and_then (at_index xs q) (\<lambda>dim.
          and_then (at_index d i) (\<lambda>_. Inr (d[nat i := dim]))))) d
    = Inr (take (length p - k) d @ drop (length p - k) (permute p xs))"
  using assms(3,4)
proof (induction k arbitrary: d)
  case (Suc k)
  define i where "i = length p - Suc k"
  have i: "i < length p" "length p - k = Suc i" "int i + 1 = int (Suc i)" using Suc.prems by (auto simp: i_def)
  have q: "0 \<le> p ! i" "p ! i < int (length xs)" using is_perm_nth [OF assms(1) i(1)] assms(2) by auto
  have "for_upt k (int i + 1) (\<lambda>i d. and_then (at_index p i) (\<lambda>q. and_then (at_index xs q) (\<lambda>dim.
          and_then (at_index d i) (\<lambda>_. Inr (d[nat i := dim]))))) (d[i := xs ! nat (p ! i)])
      = Inr (take (Suc i) (d[i := xs ! nat (p ! i)]) @ drop (Suc i) (permute p xs))"
    unfolding i(3) using Suc.IH [of "d[i := xs ! nat (p ! i)]"] Suc.prems i(2) by simp
  moreover have "take (Suc i) (d[i := xs ! nat (p ! i)]) @ drop (Suc i) (permute p xs) = take i d @ drop i (permute p xs)"
    using i(1) Suc.prems(2) by (simp add: take_Suc_conv_app_nth Cons_nth_drop_Suc [symmetric] permute_nth del: Cons_nth_drop_Suc)
  ultimately show ?case using q i(1,2) Suc.prems by (simp add: at_index_def i_def [symmetric])
qed simp

lemma TransShapeByPerm_eq:
  assumes "is_perm p" "length xs = length p"
  shows "TransShapeByPerm xs p = Inr (permute p xs)"
  using TransShapeByPerm_loop [OF assms, of "length p" "replicate (length p) 0"] assms(2)
  by (simp add: TransShapeByPerm_def for_lt_def)

section \<open>Strides\<close>

text \<open>The strides of a shape without overflow.\<close>

fun strides :: "int list \<Rightarrow> int list" where
  "strides [] = []"
| "strides (d # ds) = prod_list ds # strides ds"

lemma length_strides [simp]: "length (strides ds) = length ds"
  by (induction ds) simp_all

lemma prod_list_tail_le:
  assumes "\<forall>x\<in>set (d # ds). 0 < x"
  shows "0 < prod_list ds \<and> prod_list ds \<le> (d :: int) * prod_list ds"
  using prod_list_pos [of ds] assms by auto

lemma GenHeads_strides: "\<forall>d\<in>set ds. 0 < d \<Longrightarrow> prod_list ds < 2 ^ 63 \<Longrightarrow> GenHeads ds = strides ds"
proof (induction ds rule: GenHeads.induct)
  case (3 d e ds)
  have t: "0 < prod_list (e # ds)" "prod_list (e # ds) \<le> d * prod_list (e # ds)"
    using prod_list_tail_le [of d "e # ds"] 3(2) by blast+
  have "d * prod_list (e # ds) < 2 ^ 63" using 3(3) by simp
  with t(2) have lt: "prod_list (e # ds) < 2 ^ 63" by (rule le_less_trans)
  then have "GenHeads (e # ds) = strides (e # ds)" using 3(1,2) by simp
  then show ?case using t(1) lt by (simp add: Let_def)
qed simp_all

lemma length_GenHeads [simp]: "length (GenHeads ds) = length ds"
  by (induction ds rule: GenHeads.induct) (simp_all add: Let_def)

lemma flat_strides: "length is = length ds \<Longrightarrow> flat ds is = (\<Sum>k<length ds. strides ds ! k * is ! k)"
  by (induction ds "is" rule: flat.induct) (simp_all del: sum.lessThan_Suc add: sum.lessThan_Suc_shift mult.commute)

lemma GenOffset_from_eq:
  "length hs = length is \<Longrightarrow> \<exists>r. GenOffset_from a hs is = Inr r \<and> wrap_eq r (a + (\<Sum>k<length is. hs ! k * is ! k))"
proof (induction a hs "is" rule: GenOffset_from.induct)
  case (3 a h hs i "is")
  then obtain r where r: "GenOffset_from (i64 (a + h * i)) hs is = Inr r"
    "wrap_eq r (i64 (a + h * i) + (\<Sum>k<length is. hs ! k * is ! k))" by auto
  have "wrap_eq (i64 (a + h * i) + (\<Sum>k<length is. hs ! k * is ! k)) (a + h * i + (\<Sum>k<length is. hs ! k * is ! k))"
    by (rule wrap_eq_intros)+
  then have "wrap_eq r (a + h * i + (\<Sum>k<length is. hs ! k * is ! k))" using r(2) by (simp add: wrap_eq_def)
  then show ?case using r(1) by (simp del: sum.lessThan_Suc add: sum.lessThan_Suc_shift add.assoc)
qed (simp_all add: wrap_eq_refl)

text \<open>The permuted strides address the source element with the permuted index.\<close>

lemma GenOffset_permute:
  assumes p: "is_perm p" "length ds = length p" "length ys = length p"
  shows "\<exists>r. GenOffset (permute p (strides ds)) ys = Inr r \<and> wrap_eq r (flat ds (unpermute p ys))"
proof -
  have "(\<Sum>k<length ys. permute p (strides ds) ! k * ys ! k)
      = (\<Sum>i<length p. strides ds ! nat (p ! i) * unpermute p ys ! nat (p ! i))"
    using p by (intro sum.cong) (simp_all add: permute_nth unpermute_def axis_position_nth is_perm_nat)
  also have "\<dots> = flat ds (unpermute p ys)"
    using sum_permute [OF p(1), of "\<lambda>k. strides ds ! k * unpermute p ys ! k"] p by (simp add: flat_strides)
  finally show ?thesis using GenOffset_from_eq [of "permute p (strides ds)" ys 0] p by (simp add: GenOffset_def)
qed

section \<open>The running index\<close>

lemma AddOne_loop_Cons:
  assumes "i < length ds" "length idx = length ds" "0 < i \<longrightarrow> idx ! 0 < ds ! 0"
  shows "AddOne_loop (d # ds) (Suc i) (a # idx) =
    (let r = AddOne_loop ds i idx in if r ! 0 \<ge> ds ! 0 then i64 (a + 1) # r[0 := 0] else a # r)"
  using assms
proof (induction i arbitrary: idx)
  case (Suc i)
  show ?case
  proof (cases "idx ! Suc i \<ge> ds ! Suc i")
    case True
    then have "AddOne_loop (d # ds) (Suc (Suc i)) (a # idx)
        = AddOne_loop (d # ds) (Suc i) (a # idx[Suc i := 0, i := i64 (idx ! i + 1)])" by simp
    also have "\<dots> = (let r = AddOne_loop ds i (idx[Suc i := 0, i := i64 (idx ! i + 1)]) in
        if r ! 0 \<ge> ds ! 0 then i64 (a + 1) # r[0 := 0] else a # r)"
      using Suc.prems by (intro Suc.IH) auto
    finally show ?thesis using True by simp
  qed (use Suc.prems in simp)
qed (simp add: Let_def)

lemma AddOne_Cons:
  assumes "ds \<noteq> []" "length idx = length ds" "0 \<le> idx ! 0" "idx ! 0 < ds ! 0" "AddOne ds idx = Inr r"
  shows "AddOne (d # ds) (a # idx) = Inr (if r ! 0 \<ge> ds ! 0 then i64 (a + 1) # r[0 := 0] else a # r)"
proof -
  obtain i where i: "length ds = Suc i" using assms(1) by (cases ds) auto
  then show ?thesis
    using assms AddOne_loop_Cons [of i ds "idx[i := i64 (idx ! i + 1)]" d a]
    by (auto simp: AddOne_def Let_def split: if_splits)
qed

lemma AddOne_unflat:
  assumes "ds \<noteq> []" "\<forall>d\<in>set ds. 0 < d" "0 \<le> x" "x + 1 < 2 ^ 63"
  shows "AddOne ds (unflat ds x) = Inr (unflat ds (x + 1))"
  using assms
proof (induction ds arbitrary: x)
  case (Cons d ds)
  show ?case
  proof (cases ds)
    case Nil
    then show ?thesis using Cons.prems by (simp add: AddOne_def)
  next
    case ds: (Cons e es)
    define P where "P = prod_list ds"
    have P: "0 < P" "0 < prod_list es" "P = e * prod_list es"
      using Cons.prems prod_list_pos [of ds] prod_list_pos [of es] by (auto simp: P_def ds)
    define q y where "q = x div P" and "y = x mod P"
    have xy: "x = q * P + y" "0 \<le> y" "y < P" "0 \<le> q"
      using P(1) Cons.prems(3) unfolding q_def y_def
      by (simp_all only: div_mult_mod_eq pos_mod_sign pos_mod_bound pos_imp_zdiv_nonneg_iff)
    moreover have "0 \<le> q * P" using \<open>0 \<le> q\<close> P(1) by simp
    ultimately have y1: "y + 1 < 2 ^ 63" using Cons.prems(4) by linarith
    have "q * 1 \<le> q * P" using xy P by (intro mult_left_mono) auto
    then have q1: "i64 (q + 1) = q + 1" using xy Cons.prems by simp
    have IH: "AddOne ds (unflat ds y) = Inr (unflat ds (y + 1))"
      using Cons.IH [of y, OF _ _ xy(2) y1] Cons.prems(2) ds by auto
    have v: "valid_index ds (unflat ds y)" using unflat_valid [of ds y] Cons.prems xy by (auto simp: P_def)
    have carry: "unflat ds (y + 1) ! 0 \<ge> ds ! 0 \<longleftrightarrow> y + 1 = P"
    proof
      assume "ds ! 0 \<le> unflat ds (y + 1) ! 0"
      then have "\<not> y + 1 < P" using div_less_of_less_mult [of "prod_list es" "y + 1" e] P by (auto simp: ds)
      then show "y + 1 = P" using xy by simp
    qed (use P in \<open>simp add: ds\<close>)
    have "AddOne (d # ds) (q # unflat ds y) =
        Inr (if y + 1 = P then (q + 1) # (unflat ds (y + 1))[0 := 0] else q # unflat ds (y + 1))"
      using AddOne_Cons [OF _ _ _ _ IH, of d q] v carry by (auto simp: ds valid_index_nth q1)
    also have "\<dots> = Inr (unflat (d # ds) (x + 1))"
    proof (cases "y + 1 = P")
      case True
      then have "x + 1 = (q + 1) * P" using xy by (simp add: algebra_simps)
      then have "(x + 1) div P = q + 1" "(x + 1) mod P = 0" using P(1) by (simp_all del: distrib_right)
      then show ?thesis using True P by (simp add: P_def [symmetric]) (simp add: ds P)
    next
      case False
      then have "(x + 1) div P = q" "(x + 1) mod P = y + 1"
        using xy block_div_mod [of "y + 1" P q] by (simp_all add: add.assoc)
      then show ?thesis using False by (simp add: P_def [symmetric])
    qed
    finally show ?thesis by (simp add: q_def y_def P_def)
  qed
qed simp

section \<open>The copy loop\<close>

text \<open>A loop whose second state component is a function of the loop counter.\<close>

lemma for_upt_tracked:
  assumes "\<And>j m. i \<le> j \<Longrightarrow> j < i + int k \<Longrightarrow> body j (m, t j) = and_then (body' j m) (\<lambda>m'. Inr (m', t (j + 1)))"
  shows "for_upt k i body (m, t i) = and_then (for_upt k i body' m) (\<lambda>m'. Inr (m', t (i + int k)))"
  using assms
proof (induction k arbitrary: i m)
  case (Suc k)
  have "for_upt k (i + 1) body (m', t (i + 1)) =
      and_then (for_upt k (i + 1) body' m') (\<lambda>m'. Inr (m', t (i + 1 + int k)))" for m'
    using Suc.prems by (intro Suc.IH) simp
  then show ?case using Suc.prems [of i m] by (cases "body' i m") (simp_all add: add.assoc)
qed simp

lemma for_lt_tracked:
  assumes "\<And>j m. 0 \<le> j \<Longrightarrow> j < n \<Longrightarrow> body j (m, t j) = and_then (body' j m) (\<lambda>m'. Inr (m', t (j + 1)))"
  shows "for_lt n body (m, t 0) = and_then (for_lt n body' m) (\<lambda>m'. Inr (m', t (int (nat n))))"
  unfolding for_lt_def using for_upt_tracked [of 0 "nat n" body t body' m] assms by (cases "0 \<le> n") simp_all

definition transposed :: "int list \<Rightarrow> int list \<Rightarrow> int list option" where
  "transposed p idx = Some (unpermute p idx)"

text \<open>One step of the loop without the running index.\<close>

definition transpose_copy ::
  "platform \<Rightarrow> mem \<Rightarrow> int list \<Rightarrow> int list \<Rightarrow> int \<Rightarrow> int \<Rightarrow> int \<Rightarrow> mem option \<Rightarrow> mem option res"
where
  "transpose_copy pf s dst heads sz tot x m =
     and_then (GenOffset heads (unflat dst x)) (\<lambda>offset. check_eok (memcpy_s pf m (i64 (x * sz))
       (protected_size pf tot (i64 (x * sz))) (Some s) (i64 (offset * sz)) sz))"

lemma transpose_step_eq:
  assumes "dst \<noteq> []" "\<forall>d\<in>set dst. 0 < d" "0 \<le> x" "x + 1 < 2 ^ 63"
  shows "transpose_step pf (Some s) dst heads sz tot x (m, unflat dst x) =
    and_then (transpose_copy pf s dst heads sz tot x m) (\<lambda>m'. Inr (m', unflat dst (x + 1)))"
  using AddOne_unflat [OF assms]
  by (cases "GenOffset heads (unflat dst x)") (simp_all add: transpose_step_def transpose_copy_def Let_def)

lemma unflat_0: "\<forall>d\<in>set ds. 0 < d \<Longrightarrow> unflat ds 0 = replicate (length ds) 0"
  by (induction ds) simp_all

lemma Transpose_loop_fills:
  assumes ok: "platform_ok pf sz" and p: "is_perm p" "length ds = length p"
    and ds: "ds \<noteq> []" "\<forall>d\<in>set ds. 0 < d" and N: "prod_list ds * sz < 2 ^ 63"
    and s: "int (length s) = prod_list ds * sz" and heads: "heads = permute p (GenHeads ds)"
    and dst: "dst = permute p ds" and prog: "prog = for_lt (prod_list ds) (transpose_copy pf s dst heads sz (prod_list ds * sz))"
  shows "for_lt (prod_list ds) (transpose_step pf (Some s) dst heads sz (prod_list ds * sz)) (m, replicate (length p) 0)
      = and_then (prog m) (\<lambda>m'. Inr (m', unflat dst (prod_list ds)))"
    and "fills sz (prod_list ds) (\<lambda>x. gather_elem sz ds (transposed p) s (unflat dst x)) {0..<prod_list ds} prog"
    and "prog None = Inl (Ret INTERNAL_ERROR)"
proof -
  let ?N = "prod_list ds" and ?copy = "transpose_copy pf s dst heads sz (prod_list ds * sz)"
  have sz: "0 < sz" using ok by (simp add: platform_ok_def)
  have pos: "\<forall>d\<in>set dst. 0 < d" and ne: "dst \<noteq> []" and len: "length dst = length p"
    using set_permute [OF p(1), of ds] p ds by (auto simp: dst permute_def)
  have Np: "0 < ?N" using prod_list_pos ds(2) by blast
  have "?N * 1 \<le> ?N * sz" using sz Np by (intro mult_left_mono) auto
  then have N': "?N < 2 ^ 63" using N by simp
  have PN: "prod_list dst = ?N" unfolding dst by (rule prod_list_permute [OF p])
  show "for_lt ?N (transpose_step pf (Some s) dst heads sz (?N * sz)) (m, replicate (length p) 0)
      = and_then (prog m) (\<lambda>m'. Inr (m', unflat dst ?N))"
    using for_lt_tracked [of ?N "transpose_step pf (Some s) dst heads sz (?N * sz)" "unflat dst" ?copy m]
      transpose_step_eq [OF ne pos] N' Np by (simp add: prog unflat_0 [OF pos] len)
  have copy: "\<exists>r. wrap_eq r (flat ds (unpermute p (unflat dst x))) \<and> ?copy x =
      (\<lambda>m. check_eok (memcpy_s pf m (i64 (x * sz)) (protected_size pf (?N * sz) (i64 (x * sz))) (Some s) (i64 (r * sz)) sz))"
    and v: "valid_index dst (unflat dst x)" "flat dst (unflat dst x) = x" if x: "0 \<le> x" "x < ?N" for x
  proof -
    show v: "valid_index dst (unflat dst x)" "flat dst (unflat dst x) = x"
      using unflat_valid [of dst x] flat_unflat [of dst x] pos x by (simp_all add: PN)
    then obtain r where "GenOffset heads (unflat dst x) = Inr r" "wrap_eq r (flat ds (unpermute p (unflat dst x)))"
      using GenOffset_permute [OF p, of "unflat dst x"] GenHeads_strides [OF ds(2) N'] len
      by (auto simp: heads valid_index_nth)
    then show "\<exists>r. wrap_eq r (flat ds (unpermute p (unflat dst x))) \<and> ?copy x =
      (\<lambda>m. check_eok (memcpy_s pf m (i64 (x * sz)) (protected_size pf (?N * sz) (i64 (x * sz))) (Some s) (i64 (r * sz)) sz))"
      by (intro exI [of _ r] conjI ext) (simp_all add: transpose_copy_def)
  qed
  have "fills sz (prod_list dst) (\<lambda>x. gather_elem sz ds (transposed p) s (unflat dst x)) {0 + x} (?copy x)"
    if x: "0 \<le> x" "x < ?N" for x
  proof -
    note vx = v [OF x]
    obtain r where r: "wrap_eq r (flat ds (unpermute p (unflat dst x)))" "?copy x =
      (\<lambda>m. check_eok (memcpy_s pf m (i64 (x * sz)) (protected_size pf (?N * sz) (i64 (x * sz))) (Some s) (i64 (r * sz)) sz))"
      using copy [OF x] by blast
    show ?thesis
      unfolding r(2) using N s vx valid_index_unpermute [OF p vx(1) [unfolded dst], folded dst] wrap_eq_mult [OF r(1) wrap_eq_refl]
      by (intro fills_copy_at [OF ok, where idx = "unflat dst x" and j = "unpermute p (unflat dst x)"
          and doff' = "x * sz" and soff' = "flat ds (unpermute p (unflat dst x)) * sz"])
        (simp_all add: PN transposed_def wrap_eq_refl)
  qed
  then show "fills sz ?N (\<lambda>x. gather_elem sz ds (transposed p) s (unflat dst x)) {0..<?N} prog"
    using fills_for_elems [of ?N sz ?N _ 0 ?copy] Np by (simp add: PN prog)
  have "?copy 0 None = Inl (Ret INTERNAL_ERROR)"
    using copy [of 0] Np by (auto simp: memcpy_s_def check_eok_def)
  moreover obtain n where "nat ?N = Suc n" using Np by (metis gr0_conv_Suc zero_less_nat_eq)
  ultimately show "prog None = Inl (Ret INTERNAL_ERROR)" by (simp add: prog for_lt_def)
qed

section \<open>The contract\<close>

lemma Transpose_meets:
  assumes arg: "IsShapeArgValid ds p" and sz: "sz = GetSizeByDataType pf t" and ok: "platform_ok pf sz"
    and N: "prod_list ds * sz < 2 ^ 63" and s: "holds_tensor sz ds d s"
  shows "transfer_spec pf INTERNAL_ERROR sz ds (permute p ds) (transposed p) s result (Transpose pf d ds t p result)"
proof -
  have a: "ds \<noteq> []" "\<forall>x\<in>set ds. 0 \<le> x" "length ds = length p" "is_perm p" using arg by (auto simp: IsShapeArgValid_iff)
  have d: "d = Some s" "int (length s) = prod_list ds * sz" using s by (simp_all add: holds_tensor_def)
  have szp: "0 < sz" using ok by (simp add: platform_ok_def)
  have PN: "prod_list (permute p ds) = prod_list ds" by (rule prod_list_permute [OF a(4,3)])
  have nn: "0 \<le> prod_list ds" using prod_list_nonneg a(2) by blast
  have "prod_list ds * 1 \<le> prod_list ds * sz" using szp nn by (intro mult_left_mono) auto
  then have num: "GetItemNumByShape (permute p ds) = prod_list ds" using nn N by (simp add: GetItemNumByShape_i64 PN)
  have tot: "i64 (sz * prod_list ds) = prod_list ds * sz" using nn szp N by (simp add: mult.commute)
  have lenH: "length (GenHeads ds) = length p" using a(3) by simp
  have eq: "Transpose pf d ds t p result =
      (if prod_list ds = 0 then Inr (result\<lparr>res_length := u64 (prod_list ds * sz)\<rparr>)
       else and_then (for_lt (prod_list ds) (transpose_step pf (Some s) (permute p ds) (permute p (GenHeads ds)) sz (prod_list ds * sz))
         (new_bytes pf (prod_list ds * sz), replicate (length p) 0)) (\<lambda>(dst, _). set_result result (prod_list ds * sz) dst))"
    using szp unfolding Transpose_def IsTransposeArgValid_def
    by (simp add: arg d sz [symmetric] TransShapeByPerm_eq [OF a(4) a(3)] TransShapeByPerm_eq [OF a(4) lenH] num tot Let_def)
  show ?thesis
  proof (cases "prod_list ds = 0")
    case True
    then show ?thesis by (simp add: eq transfer_spec_def PN)
  next
    case False
    then have pos: "\<forall>x\<in>set ds. 0 < x" using a(2) by (metis order_less_le prod_list_zero_iff)
    note prog = Transpose_loop_fills [OF ok a(4,3,1) pos N d(2) refl refl refl]
    have "0 \<le> prod_list ds * sz" using nn szp by simp
    then show ?thesis
      using fills_gathers [OF prog(2) [folded PN], of "replicate (nat (prod_list ds * sz)) None"] prog(3) False N
      by (auto simp: eq transfer_spec_def PN prog(1) new_bytes_def set_result_def)
  qed
qed

section \<open>The transfer\<close>

lemma GetPermByForamt_cases:
  assumes "GetPermByForamt sf df = Inr p"
  shows "is_perm p" "length p = 4"
proof -
  have "distinct p \<and> set p \<subseteq> {0..<4} \<and> length p = 4"
    using assms by (cases sf; cases df) (auto simp: GetPermByForamt_def perm_args_def)
  then show "is_perm p" "length p = 4" using distinct_range_is_perm [of p] by simp_all
qed

text \<open>The axis order of each pair of formats; the two directions of a pair are inverse to each other.\<close>

lemma GetPermByForamt_inverse:
  assumes "GetPermByForamt sf df = Inr p"
  shows "\<exists>q. GetPermByForamt df sf = Inr q \<and> permute p q = [0, 1, 2, 3]"
  using assms by (cases sf; cases df) (auto simp: GetPermByForamt_def perm_args_def permute_def)

lemma unpermute_inverse:
  assumes p: "is_perm p" and q: "is_perm q" and len: "length p = n" "length q = n" "length idx = n"
    and inv: "permute p q = map int [0..<n]"
  shows "unpermute q idx = permute p idx"
proof (rule nth_equalityI)
  fix k assume k: "k < length (unpermute q idx)"
  then have i: "nat (p ! k) < length q" using is_perm_nat [OF p] len by simp
  have "q ! nat (p ! k) = int k" using arg_cong [OF inv, of "\<lambda>xs. xs ! k"] k len by (simp add: permute_nth)
  then have "axis_position q k = nat (p ! k)" using axis_position_nth [OF q i] by simp
  then show "unpermute q idx ! k = permute p idx ! k" using k len by (simp add: unpermute_def permute_nth)
qed (use len in simp)

definition transpose_axes :: "Format \<Rightarrow> Format \<Rightarrow> int list" where
  "transpose_axes sf df = (case GetPermByForamt sf df of Inr p \<Rightarrow> p | Inl _ \<Rightarrow> [])"

text \<open>
  Arguments of the transfer from \<open>sf\<close> to \<open>df\<close>, with the destination shape given, and a shape of at most \<open>2 ^ 40\<close>
  elements as the other transfers require; \<open>TransFormat\<close> itself does not bound the shape.
\<close>

definition transpose_accepted :: "Format \<Rightarrow> Format \<Rightarrow> platform \<Rightarrow> TransArgs \<Rightarrow> bool" where
  "transpose_accepted sf df pf args \<longleftrightarrow> src_format args = sf \<and> dst_format args = df
     \<and> TransShapeTranspose pf sf (src_shape args) (src_data_type args) df = Inr (dst_shape args)
     \<and> good_shape (src_shape args)"

lemma transpose_acceptedD:
  assumes "transpose_accepted sf df pf args"
  shows "GetPermByForamt sf df = Inr (transpose_axes sf df)" "is_perm (transpose_axes sf df)"
    "length (transpose_axes sf df) = 4" "length (src_shape args) = 4" "length (dst_shape args) = 4"
    "IsShapeArgValid (src_shape args) (transpose_axes sf df)"
    "dst_shape args = permute (transpose_axes sf df) (src_shape args)"
proof -
  obtain p where p: "GetPermByForamt sf df = Inr p" "IsShapeArgValid (src_shape args) p"
    "TransShapeByPerm (src_shape args) p = Inr (dst_shape args)"
    using assms by (auto simp: transpose_accepted_def TransShapeTranspose_def and_then_eq_Inr split: if_splits)
  have e: "transpose_axes sf df = p" using p by (simp add: transpose_axes_def)
  have q: "is_perm p" "length p = 4" using GetPermByForamt_cases [OF p(1)] .
  have l: "length (src_shape args) = 4" using p(2) q by (auto simp: IsShapeArgValid_iff)
  then have "dst_shape args = permute p (src_shape args)" using p(3) TransShapeByPerm_eq [OF q(1), of "src_shape args"] q by simp
  with p q l show "GetPermByForamt sf df = Inr (transpose_axes sf df)" "is_perm (transpose_axes sf df)"
    "length (transpose_axes sf df) = 4" "length (src_shape args) = 4" "length (dst_shape args) = 4"
    "IsShapeArgValid (src_shape args) (transpose_axes sf df)"
    "dst_shape args = permute (transpose_axes sf df) (src_shape args)"
    by (simp_all add: e)
qed

lemma TransFormatTranspose_meets:
  assumes acc: "transpose_accepted sf df pf args" and sz: "sz = GetSizeByDataType pf (src_data_type args)"
    and ok: "platform_ok pf sz" and s: "holds_tensor sz (src_shape args) (data args) s"
  shows "transfer_spec pf INTERNAL_ERROR sz (src_shape args) (dst_shape args)
    (transposed (transpose_axes sf df)) s result (TransFormatTranspose pf args result)"
proof -
  note a = transpose_acceptedD [OF acc]
  have N: "prod_list (src_shape args) * sz < 2 ^ 63"
    using acc good_shape_bytes [OF _ ok] by (simp add: transpose_accepted_def)
  have "TransFormatTranspose pf args result =
      Transpose pf (data args) (src_shape args) (src_data_type args) (transpose_axes sf df) result"
    using acc a(1) by (simp add: TransFormatTranspose_def transpose_accepted_def)
  then show ?thesis using Transpose_meets [OF a(6) sz ok N s, of result] a(7) by simp
qed

lemma transpose_accepted_back:
  assumes acc: "transpose_accepted sf df pf args"
  shows "transpose_accepted df sf pf (args_back args r)"
proof -
  note a = transpose_acceptedD [OF acc]
  obtain q where q: "GetPermByForamt df sf = Inr q" "permute (transpose_axes sf df) q = [0, 1, 2, 3]"
    using GetPermByForamt_inverse [OF a(1)] by blast
  have lq: "is_perm q" "length q = 4" using GetPermByForamt_cases [OF q(1)] .
  have s: "set (dst_shape args) \<subseteq> set (src_shape args)" "prod_list (dst_shape args) = prod_list (src_shape args)"
    using set_permute [OF a(2), of "src_shape args"] prod_list_permute [OF a(2), of "src_shape args"] a by auto
  have "src_shape args \<noteq> []" "dst_shape args \<noteq> []" using a(4,5) by auto
  moreover have "permute q (dst_shape args) = src_shape args"
  proof -
    have "unpermute q (src_shape args) = permute (transpose_axes sf df) (src_shape args)"
      by (rule unpermute_inverse [OF a(2) lq(1) a(3) lq(2) a(4)]) (simp add: q(2) upt_rec)
    then show ?thesis using permute_unpermute [OF lq(1), of "src_shape args"] a(4,7) lq(2) by simp
  qed
  ultimately show ?thesis
    using acc s lq a(5) TransShapeByPerm_eq [OF lq(1), of "dst_shape args"]
    by (auto simp: transpose_accepted_def TransShapeTranspose_def q(1) IsShapeArgValid_iff good_shape_def)
qed

interpretation transpose: transfer_pair
  "transpose_accepted sf df" TransFormatTranspose "\<lambda>_ _. transposed (transpose_axes sf df)" INTERNAL_ERROR
  "transpose_accepted df sf" TransFormatTranspose "\<lambda>_ _. transposed (transpose_axes df sf)" INTERNAL_ERROR
  for sf df
proof unfold_locales
  fix pf args r assume acc: "transpose_accepted sf df pf args"
  note a = transpose_acceptedD [OF acc]
  note b = transpose_acceptedD [OF transpose_accepted_back [OF acc]]
  show "transpose_accepted df sf pf (args_back args r) \<and> prod_list (dst_shape args) \<noteq> 0"
    if "prod_list (src_shape args) \<noteq> 0"
    using that transpose_accepted_back [OF acc] prod_list_permute [OF a(2), of "src_shape args"] a by simp
  obtain q where "GetPermByForamt df sf = Inr q" "permute (transpose_axes sf df) q = [0, 1, 2, 3]"
    using GetPermByForamt_inverse [OF a(1)] by blast
  then have inv: "permute (transpose_axes sf df) (transpose_axes df sf) = map int [0..<4]"
    using b(1) by (simp add: upt_rec)
  show "\<exists>j. transposed (transpose_axes df sf) idx = Some j \<and> valid_index (dst_shape args) j \<and>
      transposed (transpose_axes sf df) j = Some idx" if v: "valid_index (src_shape args) idx" for idx
  proof -
    have len: "length idx = 4" using v a(4) by (simp add: valid_index_nth)
    have e: "unpermute (transpose_axes df sf) idx = permute (transpose_axes sf df) idx"
      by (rule unpermute_inverse [OF a(2) b(2) a(3) b(3) len inv])
    have "valid_index (dst_shape args) (permute (transpose_axes sf df) idx)"
      using v a(3,4) is_perm_nat [OF a(2)] by (auto simp: a(7) valid_index_nth permute_nth)
    then show ?thesis
      using e unpermute_permute [OF a(2), of idx] len a(3) by (simp add: transposed_def)
  qed
qed (use TransFormatTranspose_meets in \<open>auto simp: transpose_accepted_def\<close>)

section \<open>Properties\<close>

text \<open>The axes of a 4D format, in order.\<close>

definition format_axes :: "Format \<Rightarrow> string" where
  "format_axes f = (case f of FORMAT_NCHW \<Rightarrow> ''NCHW'' | FORMAT_NHWC \<Rightarrow> ''NHWC'' | FORMAT_HWCN \<Rightarrow> ''HWCN''
     | FORMAT_CHWN \<Rightarrow> ''CHWN'' | _ \<Rightarrow> [])"

lemma transpose_axes_names:
  "GetPermByForamt sf df = Inr p \<Longrightarrow> permute p (format_axes sf) = format_axes df"
  by (cases sf; cases df) (auto simp: GetPermByForamt_def perm_args_def permute_def format_axes_def)

definition transpose_sample :: TransArgs where
  "transpose_sample = sample_args FORMAT_NCHW FORMAT_NHWC [1, 2, 1, 3] [1, 1, 3, 2] DT_INT8
     [Some 1, Some 2, Some 3, Some 4, Some 5, Some 6]"

lemma transpose_sample_ok:
  "transpose_accepted FORMAT_NCHW FORMAT_NHWC sample_platform transpose_sample"
  "platform_ok sample_platform (GetSizeByDataType sample_platform (src_data_type transpose_sample))"
  "holds_tensor (GetSizeByDataType sample_platform (src_data_type transpose_sample)) (src_shape transpose_sample)
     (data transpose_sample) [Some 1, Some 2, Some 3, Some 4, Some 5, Some 6]"
  "prod_list (src_shape transpose_sample) \<noteq> 0"
  "new_succeeds sample_platform (prod_list (src_shape transpose_sample) *
     GetSizeByDataType sample_platform (src_data_type transpose_sample))"
proof -
  have "TransShapeTranspose sample_platform FORMAT_NCHW [1, 2, 1, 3] DT_INT8 FORMAT_NHWC = Inr [1, 1, 3, 2]" by code_simp
  then show "transpose_accepted FORMAT_NCHW FORMAT_NHWC sample_platform transpose_sample"
    by (simp add: transpose_accepted_def transpose_sample_def sample_args_def good_shape_def kShapeItemNumMAX_def)
qed (simp_all add: transpose_sample_def sample_defs platform_ok_def holds_tensor_def)

text \<open>
  C7: Transposition of a tensor of any rank. For a permutation \<open>p\<close> of the axes, the element of the result at index
  \<open>idx\<close> is the source element whose index has \<open>idx ! i\<close> on axis \<open>p ! i\<close>; an empty tensor gives an empty result, a failed
  allocation \<open>INTERNAL_ERROR\<close>, and no access leaves a buffer.
\<close>

theorem transpose_correct:
  assumes "IsShapeArgValid shape p" "sz = GetSizeByDataType pf t" "platform_ok pf sz"
    and "prod_list shape * sz < 2 ^ 63" "holds_tensor sz shape d s"
  shows "transfer_spec pf INTERNAL_ERROR sz shape (permute p shape) (transposed p) s result (Transpose pf d shape t p result)"
  using assms by (rule Transpose_meets)

theorem transpose_correct_witness:
  "IsShapeArgValid [2, 3] [1, 0] \<and>
   transfer_spec sample_platform INTERNAL_ERROR 1 [2, 3] [3, 2] (transposed [1, 0])
     [Some 1, Some 2, Some 3, Some 4, Some 5, Some 6] no_result
     (Transpose sample_platform (Some [Some 1, Some 2, Some 3, Some 4, Some 5, Some 6]) [2, 3] DT_INT8 [1, 0] no_result)"
proof
  show v: "IsShapeArgValid [2, 3] [1, 0]" by code_simp
  show "transfer_spec sample_platform INTERNAL_ERROR 1 [2, 3] [3, 2] (transposed [1, 0])
     [Some 1, Some 2, Some 3, Some 4, Some 5, Some 6] no_result
     (Transpose sample_platform (Some [Some 1, Some 2, Some 3, Some 4, Some 5, Some 6]) [2, 3] DT_INT8 [1, 0] no_result)"
    using transpose_correct [OF v, of 1 sample_platform DT_INT8 "Some [Some 1, Some 2, Some 3, Some 4, Some 5, Some 6]"
      "[Some 1, Some 2, Some 3, Some 4, Some 5, Some 6]" no_result]
    by (simp add: sample_platform_def platform_ok_def holds_tensor_def permute_def)
qed

text \<open>
  C8: The transfers among NCHW, NHWC, HWCN and CHWN. The permutation table carries the axes of the source format to
  those of the destination format, and a tensor transferred to another of these formats and back is unchanged.
\<close>

theorem format_transpose_roundtrip:
  assumes "transpose_accepted sf df pf args"
    and "sz = GetSizeByDataType pf (src_data_type args)" "platform_ok pf sz"
    and "holds_tensor sz (src_shape args) (data args) s" "prod_list (src_shape args) \<noteq> 0"
    and "new_succeeds pf (prod_list (src_shape args) * sz)"
  shows "permute (transpose_axes sf df) (format_axes sf) = format_axes df \<and>
    (\<exists>r. TransFormatTranspose pf args result = Inr r \<and> res_length r = int (length s) \<and>
       TransFormatTranspose pf (args_back args r) result' =
         Inr (result'\<lparr>res_data := Some s, res_length := int (length s)\<rparr>))"
proof -
  note a = transpose_acceptedD [OF assms(1)]
  have P: "prod_list (dst_shape args) = prod_list (src_shape args)"
    using prod_list_permute [OF a(2), of "src_shape args"] a by simp
  obtain m where m: "TransFormatTranspose pf args result =
      Inr (result\<lparr>res_data := Some m, res_length := prod_list (src_shape args) * sz\<rparr>)"
    using transpose.fwd.returns [OF assms(1-4), of result] assms(5,6) by (auto simp: P)
  show ?thesis
    using transpose_axes_names [OF a(1)] m transpose.roundtrip [OF assms(1-5) m assms(6), of result'] assms(4)
    by (simp add: holds_tensor_def)
qed

theorem format_transpose_roundtrip_witness:
  "permute (transpose_axes FORMAT_NCHW FORMAT_NHWC) ''NCHW'' = ''NHWC'' \<and>
   (\<exists>r. TransFormatTranspose sample_platform transpose_sample no_result = Inr r \<and> res_length r = 6 \<and>
      TransFormatTranspose sample_platform (args_back transpose_sample r) no_result =
        Inr (no_result\<lparr>res_data := Some [Some 1, Some 2, Some 3, Some 4, Some 5, Some 6], res_length := 6\<rparr>))"
  using format_transpose_roundtrip [OF transpose_sample_ok(1) refl transpose_sample_ok(2-5), of no_result no_result]
  by (simp add: format_axes_def)

text \<open>
  The check of the destination shape has no effect, and the element count of the shape is not checked for overflow: a
  shape of \<open>2 ^ 64\<close> elements is transposed to nothing, successfully.
\<close>

lemma shape_check_ignored:
  "TransposeWithShapeCheck pf d shape d_shape t p result = Transpose pf d shape t p result"
proof (cases "IsTransposeArgValid pf d shape t p")
  case True
  then have "is_perm p" "length shape = length p"
    by (auto simp: IsTransposeArgValid_def IsShapeArgValid_iff split: if_splits)
  then show ?thesis using True by (simp add: TransposeWithShapeCheck_def TransShapeByPerm_eq)
qed (simp add: TransposeWithShapeCheck_def Transpose_def)

lemma transpose_overflow_empty:
  "Transpose sample_platform (Some []) [2 ^ 32, 2 ^ 32] DT_INT8 [1, 0] no_result = Inr no_result"
  by code_simp

end
