(* ===== verification/Math_Util.thy ===== *)
theory Math_Util
  imports GE_Prelude
begin

text \<open>
  The overflow checks of \<open>math_util.h\<close>. A signed operation of C++ whose result does not fit is undefined: an
  intermediate expression of width \<open>p\<close>, after the integral promotions, is a \<open>Fault\<close> when it leaves its range. The
  theorems show that the checks compute no such expression and decide exactly whether the operation they guard
  would overflow.
\<close>

section \<open>Ranges and intermediate expressions\<close>

definition smin :: "nat \<Rightarrow> int" where "smin w = - (2 ^ (w - 1))"
definition smax :: "nat \<Rightarrow> int" where "smax w = 2 ^ (w - 1) - 1"
definition umax :: "nat \<Rightarrow> int" where "umax w = 2 ^ w - 1"

abbreviation fits_signed :: "nat \<Rightarrow> int \<Rightarrow> bool" where
  "fits_signed w x \<equiv> smin w \<le> x \<and> x \<le> smax w"

abbreviation fits_unsigned :: "nat \<Rightarrow> int \<Rightarrow> bool" where
  "fits_unsigned w x \<equiv> 0 \<le> x \<and> x \<le> umax w"

definition signed_value :: "nat \<Rightarrow> int \<Rightarrow> int res" where
  "signed_value p x = (if fits_signed p x then Inr x else Inl Fault)"

definition signed_div :: "nat \<Rightarrow> int \<Rightarrow> int \<Rightarrow> int res" where
  "signed_div p x y = (if y = 0 then Inl Fault else signed_value p (x sdiv y))"

section \<open>The checks, by width\<close>

text \<open>
  The functions for the signed types differ only in the type: \<open>w\<close> is its width, \<open>p\<close> the width of the promoted
  operands.
\<close>

definition signed_add_check :: "nat \<Rightarrow> nat \<Rightarrow> int \<Rightarrow> int \<Rightarrow> Status res" where
  "signed_add_check w p a b =
     and_then (if b > 0 then and_then (signed_value p (smax w - b)) (\<lambda>m. Inr (a > m)) else Inr False) (\<lambda>c.
     if c then Inr FAILED else
     and_then (if b < 0 then and_then (signed_value p (smin w - b)) (\<lambda>m. Inr (a < m)) else Inr False) (\<lambda>c.
     Inr (if c then FAILED else SUCCESS)))"

definition signed_sub_check :: "nat \<Rightarrow> nat \<Rightarrow> int \<Rightarrow> int \<Rightarrow> Status res" where
  "signed_sub_check w p a b =
     and_then (if b > 0 then and_then (signed_value p (smin w + b)) (\<lambda>m. Inr (a < m)) else Inr False) (\<lambda>c.
     if c then Inr FAILED else
     and_then (if b < 0 then and_then (signed_value p (smax w + b)) (\<lambda>m. Inr (a > m)) else Inr False) (\<lambda>c.
     Inr (if c then FAILED else SUCCESS)))"

definition signed_mul_check :: "nat \<Rightarrow> nat \<Rightarrow> int \<Rightarrow> int \<Rightarrow> Status res" where
  "signed_mul_check w p a b =
     (if a > 0 then
        if b > 0 then and_then (signed_div p (smax w) b) (\<lambda>q. Inr (if a > q then FAILED else SUCCESS))
        else and_then (signed_div p (smin w) a) (\<lambda>q. Inr (if b < q then FAILED else SUCCESS))
      else
        if b > 0 then and_then (signed_div p (smin w) b) (\<lambda>q. Inr (if a < q then FAILED else SUCCESS))
        else if a \<noteq> 0 then and_then (signed_div p (smax w) a) (\<lambda>q. Inr (if b < q then FAILED else SUCCESS))
        else Inr SUCCESS)"

definition unsigned_add_check :: "nat \<Rightarrow> int \<Rightarrow> int \<Rightarrow> Status res" where
  "unsigned_add_check w a b = Inr (if a > umax w - b then FAILED else SUCCESS)"

definition unsigned_sub_check :: "int \<Rightarrow> int \<Rightarrow> Status res" where
  "unsigned_sub_check a b = Inr (if a < b then FAILED else SUCCESS)"

definition unsigned_mul_check :: "nat \<Rightarrow> int \<Rightarrow> int \<Rightarrow> Status res" where
  "unsigned_mul_check w a b =
     Inr (if a = 0 \<or> b = 0 then SUCCESS else if a > umax w div b then FAILED else SUCCESS)"

definition signed_div_check :: "nat \<Rightarrow> int \<Rightarrow> int \<Rightarrow> Status res" where
  "signed_div_check w a b = Inr (if b = 0 \<or> a = smin w \<and> b = - 1 then FAILED else SUCCESS)"

section \<open>The functions\<close>

definition CheckIntAddOverflow :: "int \<Rightarrow> int \<Rightarrow> Status res" where "CheckIntAddOverflow = signed_add_check 32 32"
definition CheckInt8AddOverflow :: "int \<Rightarrow> int \<Rightarrow> Status res" where "CheckInt8AddOverflow = signed_add_check 8 32"
definition CheckInt16AddOverflow :: "int \<Rightarrow> int \<Rightarrow> Status res" where "CheckInt16AddOverflow = signed_add_check 16 32"
definition CheckInt32AddOverflow :: "int \<Rightarrow> int \<Rightarrow> Status res" where "CheckInt32AddOverflow = signed_add_check 32 32"
definition CheckInt64AddOverflow :: "int \<Rightarrow> int \<Rightarrow> Status res" where "CheckInt64AddOverflow = signed_add_check 64 64"
definition CheckUint8AddOverflow :: "int \<Rightarrow> int \<Rightarrow> Status res" where "CheckUint8AddOverflow = unsigned_add_check 8"
definition CheckUint16AddOverflow :: "int \<Rightarrow> int \<Rightarrow> Status res" where "CheckUint16AddOverflow = unsigned_add_check 16"
definition CheckUint32AddOverflow :: "int \<Rightarrow> int \<Rightarrow> Status res" where "CheckUint32AddOverflow = unsigned_add_check 32"
definition CheckUint64AddOverflow :: "int \<Rightarrow> int \<Rightarrow> Status res" where "CheckUint64AddOverflow = unsigned_add_check 64"
definition CheckIntSubOverflow :: "int \<Rightarrow> int \<Rightarrow> Status res" where "CheckIntSubOverflow = signed_sub_check 32 32"
definition CheckInt8SubOverflow :: "int \<Rightarrow> int \<Rightarrow> Status res" where "CheckInt8SubOverflow = signed_sub_check 8 32"
definition CheckInt16SubOverflow :: "int \<Rightarrow> int \<Rightarrow> Status res" where "CheckInt16SubOverflow = signed_sub_check 16 32"
definition CheckInt32SubOverflow :: "int \<Rightarrow> int \<Rightarrow> Status res" where "CheckInt32SubOverflow = signed_sub_check 32 32"
definition CheckInt64SubOverflow :: "int \<Rightarrow> int \<Rightarrow> Status res" where "CheckInt64SubOverflow = signed_sub_check 64 64"
definition CheckUint8SubOverflow :: "int \<Rightarrow> int \<Rightarrow> Status res" where "CheckUint8SubOverflow = unsigned_sub_check"
definition CheckUint16SubOverflow :: "int \<Rightarrow> int \<Rightarrow> Status res" where "CheckUint16SubOverflow = unsigned_sub_check"
definition CheckUint32SubOverflow :: "int \<Rightarrow> int \<Rightarrow> Status res" where "CheckUint32SubOverflow = unsigned_sub_check"
definition CheckUint64SubOverflow :: "int \<Rightarrow> int \<Rightarrow> Status res" where "CheckUint64SubOverflow = unsigned_sub_check"
definition CheckIntMulOverflow :: "int \<Rightarrow> int \<Rightarrow> Status res" where "CheckIntMulOverflow = signed_mul_check 32 32"
definition CheckInt8MulOverflow :: "int \<Rightarrow> int \<Rightarrow> Status res" where "CheckInt8MulOverflow = signed_mul_check 8 32"
definition CheckInt16MulOverflow :: "int \<Rightarrow> int \<Rightarrow> Status res" where "CheckInt16MulOverflow = signed_mul_check 16 32"
definition CheckInt32MulOverflow :: "int \<Rightarrow> int \<Rightarrow> Status res" where "CheckInt32MulOverflow = signed_mul_check 32 32"
definition CheckInt64Int32MulOverflow :: "int \<Rightarrow> int \<Rightarrow> Status res" where "CheckInt64Int32MulOverflow = signed_mul_check 64 64"
definition Int64MulCheckOverflow :: "int \<Rightarrow> int \<Rightarrow> Status res" where "Int64MulCheckOverflow = signed_mul_check 64 64"
definition CheckUint8MulOverflow :: "int \<Rightarrow> int \<Rightarrow> Status res" where "CheckUint8MulOverflow = unsigned_mul_check 8"
definition CheckUint16MulOverflow :: "int \<Rightarrow> int \<Rightarrow> Status res" where "CheckUint16MulOverflow = unsigned_mul_check 16"
definition CheckUint32MulOverflow :: "int \<Rightarrow> int \<Rightarrow> Status res" where "CheckUint32MulOverflow = unsigned_mul_check 32"
definition CheckUint64MulOverflow :: "int \<Rightarrow> int \<Rightarrow> Status res" where "CheckUint64MulOverflow = unsigned_mul_check 64"
definition CheckIntDivOverflow :: "int \<Rightarrow> int \<Rightarrow> Status res" where "CheckIntDivOverflow = signed_div_check 32"
definition CheckInt32DivOverflow :: "int \<Rightarrow> int \<Rightarrow> Status res" where "CheckInt32DivOverflow = signed_div_check 32"

text \<open>The factor of type \<open>uint32_t\<close> is promoted to \<open>int64_t\<close>.\<close>

definition CheckInt64Uint32MulOverflow :: "int \<Rightarrow> int \<Rightarrow> Status res" where
  "CheckInt64Uint32MulOverflow a b =
     (if a = 0 \<or> b = 0 then Inr SUCCESS
      else if a > 0 then and_then (signed_div 64 (smax 64) b) (\<lambda>q. Inr (if a > q then FAILED else SUCCESS))
      else and_then (signed_div 64 (smin 64) b) (\<lambda>q. Inr (if a < q then FAILED else SUCCESS)))"

text \<open>\<open>CheckInt64MulOverflow\<close> of \<open>util.cc\<close>, a copy that answers with a \<open>bool\<close>.\<close>

definition CheckInt64MulOverflow :: "int \<Rightarrow> int \<Rightarrow> bool res" where
  "CheckInt64MulOverflow a b =
     (if a > 0 then
        if b > 0 then and_then (signed_div 64 (smax 64) b) (\<lambda>q. Inr (\<not> a > q))
        else and_then (signed_div 64 (smin 64) a) (\<lambda>q. Inr (\<not> b < q))
      else
        if b > 0 then and_then (signed_div 64 (smin 64) b) (\<lambda>q. Inr (\<not> a < q))
        else if a \<noteq> 0 then and_then (signed_div 64 (smax 64) a) (\<lambda>q. Inr (\<not> b < q))
        else Inr True)"

section \<open>The checks are exact\<close>

definition verdict :: "bool \<Rightarrow> Status res" where
  "verdict ok = Inr (if ok then SUCCESS else FAILED)"

lemma width_facts:
  assumes "1 \<le> w" "w \<le> p"
  shows "smin w = - smax w - 1" "0 \<le> smax w" "smax w \<le> smax p" "smin p \<le> smin w"
proof -
  have "(2 :: int) ^ (w - 1) \<le> 2 ^ (p - 1)" using assms by (intro power_increasing) auto
  moreover have "(1 :: int) \<le> 2 ^ (w - 1)" by (rule one_le_power) simp
  ultimately show "smin w = - smax w - 1" "0 \<le> smax w" "smax w \<le> smax p" "smin p \<le> smin w"
    unfolding smin_def smax_def by linarith+
qed

lemma signed_add_check_exact:
  assumes "1 \<le> w" "w \<le> p" "fits_signed w a" "fits_signed w b"
  shows "signed_add_check w p a b = verdict (fits_signed w (a + b))"
proof (cases "b > 0")
  case True
  then have "fits_signed p (smax w - b)" using width_facts [OF assms(1,2)] assms(3,4) by linarith
  with True assms(3,4) show ?thesis by (auto simp: signed_add_check_def signed_value_def verdict_def)
next
  case False
  then have "fits_signed p (smin w - b)" using width_facts [OF assms(1,2)] assms(3,4) by linarith
  with False assms(3,4) show ?thesis by (auto simp: signed_add_check_def signed_value_def verdict_def)
qed

lemma signed_sub_check_exact:
  assumes "1 \<le> w" "w \<le> p" "fits_signed w a" "fits_signed w b"
  shows "signed_sub_check w p a b = verdict (fits_signed w (a - b))"
proof (cases "b > 0")
  case True
  then have "fits_signed p (smin w + b)" using width_facts [OF assms(1,2)] assms(3,4) by linarith
  with True assms(3,4) show ?thesis by (auto simp: signed_sub_check_def signed_value_def verdict_def)
next
  case False
  then have "fits_signed p (smax w + b)" using width_facts [OF assms(1,2)] assms(3,4) by linarith
  with False assms(3,4) show ?thesis by (auto simp: signed_sub_check_def signed_value_def verdict_def)
qed

lemma div_less_iff:
  fixes x :: int
  assumes "0 < b"
  shows "x div b < a \<longleftrightarrow> x < a * b"
proof
  assume "x div b < a"
  then have "(x div b + 1) * b \<le> a * b" using assms by (intro mult_right_mono) auto
  moreover have "x < (x div b + 1) * b"
    unfolding distrib_right using pos_mod_bound [OF assms, of x] div_mult_mod_eq [of x b] by linarith
  ultimately show "x < a * b" by linarith
next
  assume l: "x < a * b"
  show "x div b < a"
  proof (rule ccontr)
    assume "\<not> x div b < a"
    then have "a * b \<le> (x div b) * b" using assms by (intro mult_right_mono) auto
    moreover have "(x div b) * b \<le> x" using assms pos_mod_sign [OF assms, of x] div_mult_mod_eq [of x b] by linarith
    ultimately show False using l by linarith
  qed
qed

text \<open>Truncated quotients by the sign of their operands.\<close>

lemma sdiv_signs:
  fixes x y :: int
  assumes "0 \<le> x" "0 < y"
  shows "x sdiv y = x div y" "- x sdiv y = - (x div y)" "x sdiv - y = - (x div y)"
  using assms by (cases "x = 0"; simp add: signed_divide_int_def)+

lemma quotient_fits:
  assumes "1 \<le> w" "w \<le> p" "0 \<le> x" "x \<le> smax w + 1" "0 < y"
  shows "fits_signed p (- (x div y))" "x \<le> smax w \<Longrightarrow> fits_signed p (x div y)"
proof -
  have "(x + 1) * 1 \<le> (x + 1) * y" using assms(3,5) by (intro mult_left_mono) auto
  then have "x div y \<le> x" using div_less_iff [OF assms(5), of x "x + 1"] by simp
  moreover have "0 \<le> x div y" using assms(3,5) by (simp add: pos_imp_zdiv_nonneg_iff)
  ultimately show "fits_signed p (- (x div y))" "x \<le> smax w \<Longrightarrow> fits_signed p (x div y)"
    using width_facts [OF assms(1,2)] assms(4) by linarith+
qed

lemma signed_mul_check_exact:
  assumes w: "1 \<le> w" "w \<le> p" and a: "fits_signed w a" and b: "fits_signed w b"
  shows "signed_mul_check w p a b = verdict (fits_signed w (a * b))"
proof -
  note wf = width_facts [OF w]
  have min: "smin w = - (smax w + 1)" using wf by simp
  consider (pp) "a > 0" "b > 0" | (pn) "a > 0" "b \<le> 0" | (np) "a \<le> 0" "b > 0" | (nn) "a < 0" "b \<le> 0" | (zn) "a = 0" "b \<le> 0" by linarith
  then show ?thesis
  proof cases
    case pp
    then have "0 < a * b" by (rule mult_pos_pos)
    then have fit: "fits_signed w (a * b) \<longleftrightarrow> \<not> smax w < a * b" using wf by linarith
    have "smax w sdiv b < a \<longleftrightarrow> smax w < a * b" using div_less_iff [OF pp(2)] wf pp by (simp add: sdiv_signs)
    moreover have "fits_signed p (smax w sdiv b)" using quotient_fits(2) [OF w, of "smax w" b] wf pp by (simp add: sdiv_signs)
    ultimately show ?thesis using pp unfolding fit by (simp add: signed_mul_check_def signed_div_def signed_value_def verdict_def)
  next
    case pn
    then have "a * b \<le> 0" by (simp add: mult_nonneg_nonpos)
    then have fit: "fits_signed w (a * b) \<longleftrightarrow> \<not> a * b < smin w" using wf by linarith
    have q: "smin w sdiv a = - ((smax w + 1) div a)" unfolding min using wf pn by (intro sdiv_signs(2)) linarith+
    have "(- b) * a = - (a * b)" by simp
    then have "b < smin w sdiv a \<longleftrightarrow> a * b < smin w" unfolding q using div_less_iff [OF pn(1), of "smax w + 1" "- b"] min by linarith
    moreover have "fits_signed p (smin w sdiv a)" unfolding q using quotient_fits(1) [OF w, of "smax w + 1" a] wf pn by simp
    ultimately show ?thesis using pn unfolding fit by (simp add: signed_mul_check_def signed_div_def signed_value_def verdict_def)
  next
    case np
    then have "a * b \<le> 0" by (simp add: mult_nonpos_nonneg)
    then have fit: "fits_signed w (a * b) \<longleftrightarrow> \<not> a * b < smin w" using wf by linarith
    have q: "smin w sdiv b = - ((smax w + 1) div b)" unfolding min using wf np by (intro sdiv_signs(2)) linarith+
    have "(- a) * b = - (a * b)" by simp
    then have "a < smin w sdiv b \<longleftrightarrow> a * b < smin w" unfolding q using div_less_iff [OF np(2), of "smax w + 1" "- a"] min by linarith
    moreover have "fits_signed p (smin w sdiv b)" unfolding q using quotient_fits(1) [OF w, of "smax w + 1" b] wf np by simp
    ultimately show ?thesis using np unfolding fit by (simp add: signed_mul_check_def signed_div_def signed_value_def verdict_def)
  next
    case nn
    then have "0 \<le> a * b" by (simp add: mult_nonpos_nonpos)
    then have fit: "fits_signed w (a * b) \<longleftrightarrow> \<not> smax w < a * b" using wf by linarith
    have q: "smax w sdiv a = - (smax w div - a)" using sdiv_signs(3) [of "smax w" "- a"] wf nn by simp
    have "(- b) * (- a) = a * b" by simp
    then have "b < smax w sdiv a \<longleftrightarrow> smax w < a * b" unfolding q using div_less_iff [of "- a" "smax w" "- b"] nn by linarith
    moreover have "fits_signed p (smax w sdiv a)" unfolding q using quotient_fits(1) [OF w, of "smax w" "- a"] wf nn by simp
    ultimately show ?thesis using nn unfolding fit by (simp add: signed_mul_check_def signed_div_def signed_value_def verdict_def)
  next
    case zn
    then show ?thesis using wf by (auto simp: signed_mul_check_def verdict_def)
  qed
qed

lemma unsigned_mul_check_exact:
  assumes "fits_unsigned w a" "fits_unsigned w b"
  shows "unsigned_mul_check w a b = verdict (fits_unsigned w (a * b))"
proof (cases "a = 0 \<or> b = 0")
  case True
  then show ?thesis using assms by (auto simp: unsigned_mul_check_def verdict_def)
next
  case False
  then have "0 < b" "0 \<le> a * b" using assms by simp_all
  then show ?thesis using div_less_iff [of b "umax w" a] False by (auto simp: unsigned_mul_check_def verdict_def)
qed

text \<open>A factor that fits a narrower unsigned type is never negative.\<close>

lemma CheckInt64Uint32MulOverflow_exact:
  assumes "fits_signed 64 a" "fits_unsigned 32 b"
  shows "CheckInt64Uint32MulOverflow a b = verdict (fits_signed 64 (a * b))"
proof (cases "a = 0 \<or> b = 0")
  case True
  then show ?thesis by (auto simp: CheckInt64Uint32MulOverflow_def verdict_def smin_def smax_def)
next
  case False
  then have "0 < b" using assms(2) by simp
  then have "CheckInt64Uint32MulOverflow a b = signed_mul_check 64 64 a b"
    using False by (simp add: CheckInt64Uint32MulOverflow_def signed_mul_check_def)
  moreover have "fits_signed 64 b" using assms(2) by (simp add: umax_def smin_def smax_def)
  ultimately show ?thesis using assms(1) by (simp add: signed_mul_check_exact)
qed

lemma CheckInt64MulOverflow_eq:
  "CheckInt64MulOverflow a b = and_then (signed_mul_check 64 64 a b) (\<lambda>s. Inr (s = SUCCESS))"
  by (cases "a > 0"; cases "b > 0"; cases "a = 0") (simp_all add: CheckInt64MulOverflow_def signed_mul_check_def and_then_def split: sum.splits)

lemmas check_defs =
  CheckIntAddOverflow_def CheckInt8AddOverflow_def CheckInt16AddOverflow_def CheckInt32AddOverflow_def
  CheckInt64AddOverflow_def CheckUint8AddOverflow_def CheckUint16AddOverflow_def CheckUint32AddOverflow_def
  CheckUint64AddOverflow_def CheckIntSubOverflow_def CheckInt8SubOverflow_def CheckInt16SubOverflow_def
  CheckInt32SubOverflow_def CheckInt64SubOverflow_def CheckUint8SubOverflow_def CheckUint16SubOverflow_def
  CheckUint32SubOverflow_def CheckUint64SubOverflow_def CheckIntMulOverflow_def CheckInt8MulOverflow_def
  CheckInt16MulOverflow_def CheckInt32MulOverflow_def CheckInt64Int32MulOverflow_def Int64MulCheckOverflow_def
  CheckUint8MulOverflow_def CheckUint16MulOverflow_def CheckUint32MulOverflow_def CheckUint64MulOverflow_def

section \<open>Properties\<close>

lemma signed_div_check_exact:
  assumes "1 \<le> w" "fits_signed w a" "fits_signed w b"
  shows "signed_div_check w a b = verdict (b \<noteq> 0 \<and> fits_signed w (a sdiv b))"
proof -
  have m: "smin w = - smax w - 1" "0 \<le> smax w" using width_facts [of w w] assms(1) by simp_all
  have "fits_signed w (a sdiv b) \<longleftrightarrow> \<not> (a = smin w \<and> b = - 1)" if "b \<noteq> 0"
  proof (cases "b = - 1")
    case True
    then show ?thesis using assms(2) m by auto
  next
    case False
    have pos: "0 \<le> \<bar>a\<bar> div \<bar>b\<bar>" using that by (simp add: pos_imp_zdiv_nonneg_iff)
    then have abs: "\<bar>a sdiv b\<bar> = \<bar>a\<bar> div \<bar>b\<bar>"
      using that by (cases "a = 0") (simp_all add: signed_divide_int_def abs_mult abs_sgn_eq)
    show ?thesis
    proof (cases "b = 1")
      case True
      then show ?thesis using assms(2) by simp
    next
      case b1: False
      then have "\<bar>a\<bar> div \<bar>b\<bar> \<le> \<bar>a\<bar> div 2" using that False by (intro zdiv_mono2) auto
      moreover have "\<bar>a\<bar> div 2 \<le> smax w" using assms(2) m by linarith
      ultimately show ?thesis using abs pos m False by linarith
    qed
  qed
  then show ?thesis by (auto simp: signed_div_check_def verdict_def)
qed

text \<open>
  C28: For every integer type the addition and subtraction checks evaluate no overflowing expression themselves and
  return SUCCESS exactly when the sum or the difference of two values of the type fits the type.
\<close>

theorem add_sub_checks_exact:
  "(\<forall>(f, w) \<in> {(CheckIntAddOverflow, 32), (CheckInt8AddOverflow, 8), (CheckInt16AddOverflow, 16), (CheckInt32AddOverflow, 32), (CheckInt64AddOverflow, 64)}.
      \<forall>a b. fits_signed w a \<longrightarrow> fits_signed w b \<longrightarrow> f a b = verdict (fits_signed w (a + b))) \<and>
   (\<forall>(f, w) \<in> {(CheckIntSubOverflow, 32), (CheckInt8SubOverflow, 8), (CheckInt16SubOverflow, 16), (CheckInt32SubOverflow, 32), (CheckInt64SubOverflow, 64)}.
      \<forall>a b. fits_signed w a \<longrightarrow> fits_signed w b \<longrightarrow> f a b = verdict (fits_signed w (a - b))) \<and>
   (\<forall>(f, w) \<in> {(CheckUint8AddOverflow, 8), (CheckUint16AddOverflow, 16), (CheckUint32AddOverflow, 32), (CheckUint64AddOverflow, 64)}.
      \<forall>a b. fits_unsigned w a \<longrightarrow> fits_unsigned w b \<longrightarrow> f a b = verdict (fits_unsigned w (a + b))) \<and>
   (\<forall>(f, w) \<in> {(CheckUint8SubOverflow, 8), (CheckUint16SubOverflow, 16), (CheckUint32SubOverflow, 32), (CheckUint64SubOverflow, 64)}.
      \<forall>a b. fits_unsigned w a \<longrightarrow> fits_unsigned w b \<longrightarrow> f a b = verdict (fits_unsigned w (a - b)))"
  by (intro conjI) (auto simp: check_defs signed_add_check_exact signed_sub_check_exact unsigned_add_check_def
      unsigned_sub_check_def verdict_def)

theorem add_sub_checks_exact_witness:
  "CheckInt8AddOverflow 100 27 = Inr SUCCESS \<and> CheckInt8AddOverflow 100 28 = Inr FAILED \<and> CheckUint8SubOverflow 3 4 = Inr FAILED"
  using add_sub_checks_exact by (simp add: verdict_def smin_def smax_def umax_def)

text \<open>
  C29: For every integer type the multiplication checks divide by nothing that is zero, evaluate no overflowing
  quotient, and return SUCCESS exactly when the product fits the type; the boolean copy in util.cc agrees. The division
  checks return SUCCESS exactly when the divisor is not zero and the truncated quotient fits the type.
\<close>

theorem mul_checks_exact:
  "(\<forall>(f, w) \<in> {(CheckIntMulOverflow, 32), (CheckInt8MulOverflow, 8), (CheckInt16MulOverflow, 16), (CheckInt32MulOverflow, 32), (Int64MulCheckOverflow, 64)}.
      \<forall>a b. fits_signed w a \<longrightarrow> fits_signed w b \<longrightarrow> f a b = verdict (fits_signed w (a * b))) \<and>
   (\<forall>(f, w) \<in> {(CheckUint8MulOverflow, 8), (CheckUint16MulOverflow, 16), (CheckUint32MulOverflow, 32), (CheckUint64MulOverflow, 64)}.
      \<forall>a b. fits_unsigned w a \<longrightarrow> fits_unsigned w b \<longrightarrow> f a b = verdict (fits_unsigned w (a * b))) \<and>
   (\<forall>a b. fits_signed 64 a \<longrightarrow> fits_signed 32 b \<longrightarrow> CheckInt64Int32MulOverflow a b = verdict (fits_signed 64 (a * b))) \<and>
   (\<forall>a b. fits_signed 64 a \<longrightarrow> fits_unsigned 32 b \<longrightarrow> CheckInt64Uint32MulOverflow a b = verdict (fits_signed 64 (a * b))) \<and>
   (\<forall>a b. fits_signed 64 a \<longrightarrow> fits_signed 64 b \<longrightarrow> CheckInt64MulOverflow a b = Inr (fits_signed 64 (a * b))) \<and>
   (\<forall>f \<in> {CheckIntDivOverflow, CheckInt32DivOverflow}. \<forall>a b. fits_signed 32 a \<longrightarrow> fits_signed 32 b \<longrightarrow>
      f a b = verdict (b \<noteq> 0 \<and> fits_signed 32 (a sdiv b)))"
proof (intro conjI)
  show "\<forall>a b. fits_signed 64 a \<longrightarrow> fits_signed 32 b \<longrightarrow> CheckInt64Int32MulOverflow a b = verdict (fits_signed 64 (a * b))"
  proof (intro allI impI)
    fix a b assume "fits_signed 64 a" "fits_signed 32 b"
    moreover from this have "fits_signed 64 b" by (simp add: smin_def smax_def)
    ultimately show "CheckInt64Int32MulOverflow a b = verdict (fits_signed 64 (a * b))"
      by (simp add: check_defs signed_mul_check_exact)
  qed
next
  show "\<forall>f \<in> {CheckIntDivOverflow, CheckInt32DivOverflow}. \<forall>a b. fits_signed 32 a \<longrightarrow> fits_signed 32 b \<longrightarrow>
      f a b = verdict (b \<noteq> 0 \<and> fits_signed 32 (a sdiv b))"
    using signed_div_check_exact [of 32] by (simp add: CheckIntDivOverflow_def CheckInt32DivOverflow_def)
qed (simp_all add: check_defs signed_mul_check_exact unsigned_mul_check_exact CheckInt64Uint32MulOverflow_exact CheckInt64MulOverflow_eq verdict_def)

theorem mul_checks_exact_witness:
  "CheckInt8MulOverflow (- 8) 16 = Inr SUCCESS \<and> CheckInt8MulOverflow 8 16 = Inr FAILED \<and> CheckInt64MulOverflow (- 1) (- (2 ^ 63)) = Inr False \<and>
   CheckInt32DivOverflow (- (2 ^ 31)) (- 1) = Inr FAILED"
  using mul_checks_exact by (simp add: verdict_def smin_def smax_def)

end
