(* ===== verification/Trans_FzC04.thy ===== *)
theory Trans_FzC04
  imports Trans_Transpose Math_Util
begin

text \<open>
  The transfer from NCHW with at most four channels to FRACTAL\_Z\_C04 (\<open>format_transfer_nchw_fz_c04.cc\<close>): the batch
  is padded to a multiple of the cube size and the channels to four, the tensor is transposed to NHWC, each row of
  \<open>h * w * 4\<close> elements is padded to a multiple of the cube size, and the result, seen as \<open>(N / c0, c0, Z / c0, c0)\<close>, is
  transposed to \<open>(Z / c0, N / c0, c0, c0)\<close>. The lemmas compose the four layout changes into one.
\<close>

section \<open>Shapes\<close>

definition kMaxDimsNumC :: int where "kMaxDimsNumC = 4"

definition TransShape_FzC04 :: "platform \<Rightarrow> int \<Rightarrow> int \<Rightarrow> int \<Rightarrow> int \<Rightarrow> DataType \<Rightarrow> int list res" where
  "TransShape_FzC04 pf n c h w data_type =
     (let c0 = GetCubeSizeByDataType pf data_type in
      if c0 < 0 then Inl (Ret ACL_ERROR_GE_TRANSSHAPE_DATATYPE_INVALID)
      else
        let chw = i64 (c * h * w);
            d_shape = [Ceil chw c0, Ceil n c0, c0, c0]
        in if \<not> IsShapeValid d_shape then Inl (Ret ACL_ERROR_GE_TRANSSHAPE_SHAPE_INVALID) else Inr d_shape)"

definition TransShapeNchwToFzC04 :: "platform \<Rightarrow> int list \<Rightarrow> DataType \<Rightarrow> int list res" where
  "TransShapeNchwToFzC04 pf s_shape data_type =
     (if \<not> CheckShapeValid s_shape kNchwDimsNum then Inl (Ret ACL_ERROR_GE_TRANSSHAPE_SHAPE_INVALID)
      else at s_shape kNchwN (\<lambda>n. at s_shape kNchwC (\<lambda>c. at s_shape kNchwH (\<lambda>h. at s_shape kNchwW (\<lambda>w.
        TransShape_FzC04 pf n c h w data_type)))))"

definition TransShapeNchwFZC04 :: "platform \<Rightarrow> Format \<Rightarrow> int list \<Rightarrow> DataType \<Rightarrow> Format \<Rightarrow> int list res" where
  "TransShapeNchwFZC04 pf s_format s_shape data_type d_format =
     (if \<not> GetSizeByDataType pf data_type > 0 then Inl (Ret ACL_ERROR_GE_TRANSSHAPE_DATATYPE_INVALID)
      else if s_format = FORMAT_NCHW \<and> d_format = FORMAT_FRACTAL_Z_C04 then TransShapeNchwToFzC04 pf s_shape data_type
      else Inl (Ret ACL_ERROR_GE_TRANSSHAPE_FORMAT_INVALID))"

section \<open>Padding and copying\<close>

text \<open>The overflow checks both functions make before they allocate; \<open>k\<close> gets the number of bytes.\<close>

definition require :: "bool res \<Rightarrow> 'a res \<Rightarrow> 'a res" where
  "require c k = and_then c (\<lambda>ok. if \<not> ok then Inl (Ret INTERNAL_ERROR) else k)"

definition checked_total :: "int \<Rightarrow> int \<Rightarrow> int \<Rightarrow> int \<Rightarrow> int \<Rightarrow> (int \<Rightarrow> 'a res) \<Rightarrow> 'a res" where
  "checked_total n_o c_o h_o w_o sz k =
     require (CheckInt64MulOverflow h_o w_o) (
     require (CheckInt64MulOverflow n_o c_o) (
     let t1 = i64 (h_o * w_o); t2 = i64 (n_o * c_o) in
     require (CheckInt64MulOverflow t1 t2) (
     let total_ele_cnt = i64 (n_o * c_o * h_o * w_o) in
     require (CheckInt64MulOverflow total_ele_cnt sz) (k (i64 (total_ele_cnt * sz))))))"

text \<open>\<open>dst = new uint8_t[dst_size]\<close> and \<open>memset_s(dst, dst_size, 0, dst_size)\<close>.\<close>

definition zeroed_dst :: "platform \<Rightarrow> int \<Rightarrow> (mem option \<Rightarrow> 'a res) \<Rightarrow> 'a res" where
  "zeroed_dst pf dst_size k =
     alloc_dst pf dst_size (\<lambda>dst. and_then (check_eok (memset_s pf dst 0 dst_size dst_size)) k)"

text \<open>
  The copy loops count with an \<open>int\<close>: after \<open>2 ^ 31\<close> iterations the counter overflows, which is undefined.
\<close>

definition for_int :: "int \<Rightarrow> (int \<Rightarrow> 's \<Rightarrow> 's res) \<Rightarrow> 's \<Rightarrow> 's res" where
  "for_int n body s = and_then (for_lt (min n (2 ^ 31)) body s) (\<lambda>s. if 2 ^ 31 \<le> n then Inl Fault else Inr s)"

definition PaddingNC :: "platform \<Rightarrow> TransArgs \<Rightarrow> TransArgs res" where
  "PaddingNC pf args =
     (if \<not> CheckShapeValid (src_shape args) kNchwDimsNum then Inl (Ret PARAM_INVALID)
      else
        let c0 = GetCubeSizeByDataType pf (src_data_type args) in
        at (src_shape args) kNchwN (\<lambda>n. at (src_shape args) kNchwC (\<lambda>c. at (src_shape args) kNchwH (\<lambda>h. at (src_shape args) kNchwW (\<lambda>w.
        if c > kMaxDimsNumC then Inl (Ret PARAM_INVALID)
        else
          let n_o = i64 (Ceil n c0 * c0); c_o = kMaxDimsNumC; h_o = h; w_o = w;
              args_tmp = args\<lparr>src_shape := [n_o, c_o, h_o, w_o]\<rparr>;
              sz = GetSizeByDataType pf (src_data_type args)
          in checked_total n_o c_o h_o w_o sz (\<lambda>dst_size.
            if dst_size = 0 then Inr args_tmp
            else zeroed_dst pf dst_size (\<lambda>p_d.
              let block = i64 (h * w * sz) in
              and_then (for_int n (\<lambda>i. for_int c (\<lambda>j (p_d, protectSize).
                  and_then (check_eok (memcpy_s pf p_d (i64 ((i * c_o * h_o * w_o + j * h_o * w_o) * sz)) protectSize
                    (data args) (i64 ((i * c * h * w + j * h * w) * sz)) block))
                    (\<lambda>p_d. Inr (p_d, i64 (protectSize - block))))) (p_d, dst_size))
                (\<lambda>(p_d, _). Inr (args_tmp\<lparr>data := p_d\<rparr>)))))))))"

definition TransFormatFromNchwToFzC04 :: "platform \<Rightarrow> TransArgs \<Rightarrow> TransResult \<Rightarrow> TransResult res" where
  "TransFormatFromNchwToFzC04 pf args result =
     at (src_shape args) kNchwN (\<lambda>n. at (src_shape args) kNchwC (\<lambda>c. at (src_shape args) kNchwH (\<lambda>h. at (src_shape args) kNchwW (\<lambda>w.
     let c0 = GetCubeSizeByDataType pf (src_data_type args);
         sz = GetSizeByDataType pf (src_data_type args);
         perm_arg_1 = [0, 2, 3, 1]
     in and_then (on_error NOT_CHANGED (Transpose pf (data args) (src_shape args) (src_data_type args) perm_arg_1
          \<lparr>res_data = None, res_length = 0\<rparr>)) (\<lambda>trans_result_1.
        let expect_size = u64 (n * c * h * w * sz) in
        if res_length trans_result_1 \<noteq> expect_size then Inl (Ret NOT_CHANGED)
        else
          let tmp = i64 (h * w * c); n_o = Ceil n c0; c_o = c0; h_o = Ceil tmp c0; w_o = c0;
              shape_o = [n_o, c_o, h_o, w_o]
          in checked_total n_o c_o h_o w_o sz (\<lambda>dst_size.
            if dst_size = 0 then Inr (result\<lparr>res_length := 0\<rparr>)
            else zeroed_dst pf dst_size (\<lambda>p_d.
              let block = i64 (c * h * w * sz); stride = i64 (h_o * w_o * sz); p_s = res_data trans_result_1 in
              and_then (for_int n (\<lambda>k (p_d, protectSize).
                  and_then (check_eok (memcpy_s pf p_d (i64 (k * stride)) protectSize p_s (i64 (k * block)) block))
                    (\<lambda>p_d. Inr (p_d, i64 (protectSize - block)))) (p_d, dst_size))
                (\<lambda>(p_d, _).
                  let perm_arg_2 = [2, 0, 1, 3] in
                  on_error NOT_CHANGED (Transpose pf p_d shape_o (src_data_type args) perm_arg_2 result)))))))))"

definition TransFormatNchwFZC04 :: trans_format where
  "TransFormatNchwFZC04 pf args result =
     and_then (PaddingNC pf args) (\<lambda>args_tmp.
     and_then (TransShapeNchwFZC04 pf (src_format args_tmp) (src_shape args_tmp) (src_data_type args_tmp) (dst_format args_tmp))
       (\<lambda>expect_shape.
     if \<not> IsTransShapeDstCorrect args_tmp expect_shape then Inl (Ret PARAM_INVALID)
     else if src_format args_tmp = FORMAT_NCHW \<and> dst_format args_tmp = FORMAT_FRACTAL_Z_C04
       then TransFormatFromNchwToFzC04 pf args_tmp result
     else Inl (Ret UNSUPPORTED)))"

lemma for_int_eq: "n < 2 ^ 31 \<Longrightarrow> for_int n body = for_lt n body"
  by (rule ext) (simp add: for_int_def min_def and_then_def split: sum.splits)

section \<open>Composing layout changes\<close>

lemma gathers_comp:
  assumes "gathers sz src mid g s m" "gathers sz mid dst g' m m'"
    and "\<And>idx j. valid_index dst idx \<Longrightarrow> g' idx = Some j \<Longrightarrow> valid_index mid j"
  shows "gathers sz src dst (\<lambda>idx. Option.bind (g' idx) g) s m'"
  unfolding gathers_def
proof (intro conjI allI impI)
  show "int (length m') = prod_list dst * sz" using assms(2) by (simp add: gathers_def)
  fix idx assume v: "valid_index dst idx"
  then have "elem sz m' (flat dst idx) = gather_elem sz mid g' m idx" using assms(2) by (simp add: gathers_def)
  also have "\<dots> = gather_elem sz src (\<lambda>idx. Option.bind (g' idx) g) s idx"
    using assms(1) assms(3) [OF v] by (cases "g' idx") (simp_all add: gather_elem_def gathers_def)
  finally show "elem sz m' (flat dst idx) = gather_elem sz src (\<lambda>idx. Option.bind (g' idx) g) s idx" .
qed

lemma gathers_cong:
  assumes "gathers sz src dst g s m" "\<And>idx. valid_index dst idx \<Longrightarrow> g idx = g' idx"
  shows "gathers sz src dst g' s m"
  using assms by (simp add: gathers_def gather_elem_def)

section \<open>Copies with a running limit\<close>

lemma fills_memcpy_max:
  assumes "0 < sz" and i: "0 \<le> i" "0 < k" "i + k \<le> N"
    and max: "k * sz \<le> mx" "mx \<le> SECUREC_MEM_MAX_LEN pf" "mx < 2 ^ 63"
    and eqs: "doff = i * sz" "cnt = k * sz" and s: "in_bounds s soff cnt"
    and f: "\<And>j. 0 \<le> j \<Longrightarrow> j < k \<Longrightarrow> f (i + j) = mem_read s (soff + j * sz) sz"
  shows "fills sz N f {i..<i + k} (\<lambda>d. check_eok (memcpy_s pf d doff mx (Some s) soff cnt))"
proof (rule fills_write [where bs = "mem_read s soff cnt"])
  have p: "0 < k * sz" using assms(1) i by simp
  show "int (length (mem_read s soff cnt)) = k * sz" using s p by (simp add: length_mem_read eqs)
  show "f (i + j) = elem sz (mem_read s soff cnt) j" if "0 \<le> j" "j < k" for j
    using that f s assms(1) by (simp add: eqs elem_mem_read in_bounds_def)
  show "check_eok (memcpy_s pf (Some d) doff mx (Some s) soff cnt) = Inr (Some (mem_write d (i * sz) (mem_read s soff cnt)))"
    if "int (length d) = N * sz" for d
  proof -
    have "u64 mx = mx" "u64 cnt = cnt" using max p by (simp_all add: eqs)
    moreover have "in_bounds d doff cnt" using block_in_bounds [OF assms(1) i(1) _ i(3) that] i(2) by (simp add: eqs)
    ultimately show ?thesis using max p s by (simp add: memcpy_s_def check_eok_def eqs)
  qed
qed (use assms in auto)

lemma zeroed_dst_eq:
  assumes "0 < n" "n \<le> SECUREC_MEM_MAX_LEN pf" "n < 2 ^ 63"
  shows "zeroed_dst pf n k =
    (if new_succeeds pf n then k (Some (replicate (nat n) (Some 0))) else Inl (Ret OUT_OF_MEMORY))"
  using assms by (simp add: zeroed_dst_def alloc_dst_def new_bytes_def memset_s_def check_eok_def in_bounds_def mem_write_def)

lemma zeroed_dst_limit:
  assumes "SECUREC_MEM_MAX_LEN pf < n" "0 < n" "n < 2 ^ 63" "new_succeeds pf n"
  shows "zeroed_dst pf n k = Inl (Ret INTERNAL_ERROR)"
  using assms by (simp add: zeroed_dst_def alloc_dst_def new_bytes_def memset_s_def check_eok_def)

lemma require_mul:
  assumes "0 \<le> a" "0 \<le> b" "a < 2 ^ 63" "b < 2 ^ 63" "a * b < 2 ^ 63"
  shows "require (CheckInt64MulOverflow a b) k = k"
proof -
  have "fits_signed 64 x" if "0 \<le> x" "x < 2 ^ 63" for x using that by (simp add: smin_def smax_def)
  from this [of a] this [of b] this [of "a * b"] have "fits_signed 64 a" "fits_signed 64 b" "fits_signed 64 (a * b)"
    using assms mult_nonneg_nonneg [OF assms(1,2)] by blast+
  then show ?thesis by (simp add: require_def CheckInt64MulOverflow_eq signed_mul_check_exact verdict_def)
qed

lemma checked_total_eq:
  assumes "0 < a" "0 < b" "0 < c" "0 < d" "0 < sz" "a * b * (c * d) * sz < 2 ^ 63"
  shows "checked_total a b c d sz k = k (a * b * (c * d) * sz)"
proof -
  have le: "x \<le> x * y" if "0 < x" "0 < y" for x y :: int using that by simp
  have p: "0 < a * b" "0 < c * d" "0 < a * b * (c * d)" "0 < a * b * (c * d) * sz" using assms by simp_all
  have "a * b * (c * d) < 2 ^ 63" using le [OF p(3) assms(5)] assms(6) by (rule le_less_trans)
  moreover from this have "a * b < 2 ^ 63" "c * d < 2 ^ 63"
    using le [OF p(1,2)] le [OF p(2,1)] by (simp_all add: mult.commute)
  moreover from this have "a < 2 ^ 63" "b < 2 ^ 63" "c < 2 ^ 63" "d < 2 ^ 63"
    using le [OF assms(1,2)] le [OF assms(2,1)] le [OF assms(3,4)] le [OF assms(4,3)] by (simp_all add: mult.commute)
  moreover have "sz < 2 ^ 63" using le [OF assms(5) p(3)] assms(6) by (simp add: mult.commute)
  ultimately show ?thesis
    using assms p by (simp add: checked_total_def require_mul Let_def mult.assoc mult.commute mult.left_commute)
qed

section \<open>Padding the batch and the channels\<close>

definition pad_nc :: "int \<Rightarrow> int \<Rightarrow> int list \<Rightarrow> int list option" where
  "pad_nc n c idx = (case idx of [a, b, y, x] \<Rightarrow> if a < n \<and> b < c then Some idx else None | _ \<Rightarrow> None)"

text \<open>One plane of the tensor; the limit passed to the copy goes down by one plane with every copy.\<close>

definition copy_plane :: "platform \<Rightarrow> mem \<Rightarrow> int \<Rightarrow> int \<Rightarrow> int \<Rightarrow> int \<Rightarrow> int \<Rightarrow> int \<Rightarrow> mem option \<Rightarrow> mem option res" where
  "copy_plane pf s c H sz D i j d = check_eok (memcpy_s pf d ((i * 4 + j) * H * sz) (D - (i * c + j) * (H * sz))
     (Some s) ((i * c + j) * H * sz) (H * sz))"

lemma copy_plane_fills:
  assumes sz: "0 < sz" and dims: "0 \<le> i" "i < n" "0 \<le> j" "j < c" "c \<le> 4" "n \<le> N" "0 < h" "0 < w"
    and D: "D = N * 4 * (h * w) * sz" "D \<le> SECUREC_MEM_MAX_LEN pf" "D < 2 ^ 63"
    and s: "int (length s) = n * c * (h * w) * sz"
  shows "fills sz (prod_list [N, 4, h, w]) (\<lambda>x. gather_elem sz [n, c, h, w] (pad_nc n c) s (unflat [N, 4, h, w] x))
    {(i * 4 + j) * (h * w)..<(i * 4 + j) * (h * w) + h * w} (copy_plane pf s c (h * w) sz D i j)"
proof -
  let ?H = "h * w"
  have H: "0 < ?H" using dims by simp
  have q: "0 \<le> i * c + j" "i * c + j < n * c" "i * c + j + 1 \<le> n * c"
    using block_bound [of i n j c] dims by simp_all
  have r: "0 \<le> i * 4 + j" "i * 4 + j < n * 4" using block_bound [of i n j 4] dims by simp_all
  have nN: "n * c \<le> N * 4" using dims by (intro mult_mono) auto
  have rN: "i * 4 + j + 1 \<le> N * 4" using r dims by linarith
  have blk: "(i * c + j) * (?H * sz) + ?H * sz \<le> D"
  proof -
    have "(i * c + j + 1) * (?H * sz) \<le> (N * 4) * (?H * sz)" using q nN H sz by (intro mult_right_mono) auto
    then show ?thesis by (simp add: D(1) algebra_simps)
  qed
  have "fills sz (prod_list [N, 4, h, w]) (\<lambda>x. gather_elem sz [n, c, h, w] (pad_nc n c) s (unflat [N, 4, h, w] x))
    {(i * 4 + j) * ?H..<(i * 4 + j) * ?H + ?H}
    (\<lambda>d. check_eok (memcpy_s pf d ((i * 4 + j) * ?H * sz) (D - (i * c + j) * (?H * sz)) (Some s) ((i * c + j) * ?H * sz) (?H * sz)))"
  proof (rule fills_memcpy_max [OF sz _ H])
    show "0 \<le> (i * 4 + j) * ?H" using r H by simp
    have "(i * 4 + j + 1) * ?H \<le> N * 4 * ?H" using rN H by (intro mult_right_mono) auto
    then show "(i * 4 + j) * ?H + ?H \<le> prod_list [N, 4, h, w]" by (simp add: algebra_simps)
    show "?H * sz \<le> D - (i * c + j) * (?H * sz)" using blk by simp
    have "0 \<le> (i * c + j) * (?H * sz)" using q(1) H sz by simp
    then show "D - (i * c + j) * (?H * sz) \<le> SECUREC_MEM_MAX_LEN pf" "D - (i * c + j) * (?H * sz) < 2 ^ 63"
      using D(2,3) by linarith+
    have "(i * c + j) * ?H + ?H \<le> n * c * ?H" using mult_right_mono [OF q(3), of ?H] H by (simp add: algebra_simps)
    then show "in_bounds s ((i * c + j) * ?H * sz) (?H * sz)"
      using block_in_bounds [OF sz, of "(i * c + j) * ?H" ?H "n * c * ?H" s] q(1) H s by simp
    show "gather_elem sz [n, c, h, w] (pad_nc n c) s (unflat [N, 4, h, w] ((i * 4 + j) * ?H + e)) =
        mem_read s ((i * c + j) * ?H * sz + e * sz) sz" if e: "0 \<le> e" "e < ?H" for e
    proof -
      obtain y x where yx: "e = y * w + x" "0 \<le> y" "y < h" "0 \<le> x" "x < w" using block_split [OF e dims(8)] by blast
      have v: "valid_index [N, 4, h, w] [i, j, y, x]" using yx dims by simp
      have "flat [N, 4, h, w] [i, j, y, x] = (i * 4 + j) * ?H + e" by (simp add: yx(1) algebra_simps)
      then have u: "unflat [N, 4, h, w] ((i * 4 + j) * ?H + e) = [i, j, y, x]" using unflat_flat [OF v] by simp
      have "flat [n, c, h, w] [i, j, y, x] * sz = (i * c + j) * ?H * sz + e * sz" by (simp add: yx(1) algebra_simps)
      then show ?thesis using dims unfolding u by (simp add: gather_elem_def pad_nc_def elem_def del: flat.simps)
    qed
  qed simp_all
  then show ?thesis by (simp add: copy_plane_def [abs_def])
qed

lemma pad_nc_loop:
  assumes "0 < sz" "0 \<le> n" "0 \<le> c" "c \<le> 4" "n \<le> N" "0 < h" "0 < w" "D = N * 4 * (h * w) * sz" "D < 2 ^ 63"
  shows "for_lt n (\<lambda>i. for_lt c (\<lambda>j (p_d, protectSize).
      and_then (check_eok (memcpy_s pf p_d (i64 ((i * 4 * h * w + j * h * w) * sz)) protectSize
        (Some s) (i64 ((i * c * h * w + j * h * w) * sz)) (h * w * sz)))
        (\<lambda>p_d. Inr (p_d, i64 (protectSize - h * w * sz))))) (m, D)
    = and_then (for_lt n (\<lambda>i. for_lt c (copy_plane pf s c (h * w) sz D i)) m) (\<lambda>m. Inr (m, D - n * c * (h * w * sz)))"
  (is "for_lt n (\<lambda>i. for_lt c (?body i)) (m, D) = _")
proof -
  let ?H = "h * w" and ?blk = "h * w * sz"
  have H: "0 < ?H" "0 < ?blk" using assms by simp_all
  have step: "?body i j (m, D - (i * c + j) * ?blk) =
      and_then (copy_plane pf s c ?H sz D i j m) (\<lambda>m. Inr (m, D - (i * c + (j + 1)) * ?blk))"
    if ij: "0 \<le> i" "i < n" "0 \<le> j" "j < c" for i j m
  proof -
    have q: "0 \<le> i * c + j" "i * c + j + 1 \<le> n * c" using block_bound [of i n j c] ij by simp_all
    have r: "0 \<le> i * 4 + j" "i * 4 + j < n * 4" using block_bound [of i n j 4] ij assms by simp_all
    have "n * c \<le> N * 4" using assms by (intro mult_mono) auto
    then have "(i * c + j + 1) * ?blk \<le> N * 4 * ?blk" using q H by (intro mult_right_mono) auto
    then have le: "(i * c + j) * ?blk + ?blk \<le> D" by (simp add: assms(8) algebra_simps)
    have "(i * 4 + j) * ?blk \<le> N * 4 * ?blk" using r assms H by (intro mult_right_mono) auto
    then have le4: "(i * 4 + j) * ?blk \<le> D" by (simp add: assms(8) algebra_simps)
    have nn: "0 \<le> (i * c + j) * ?blk" "0 \<le> (i * 4 + j) * ?blk" using q r H by simp_all
    have a: "(i * 4 * h * w + j * h * w) * sz = (i * 4 + j) * ?blk" "(i * c * h * w + j * h * w) * sz = (i * c + j) * ?blk"
      "(i * 4 + j) * ?H * sz = (i * 4 + j) * ?blk" "(i * c + j) * ?H * sz = (i * c + j) * ?blk"
      "D - (i * c + (j + 1)) * ?blk = D - (i * c + j) * ?blk - ?blk"
      by (simp_all add: algebra_simps)
    have "i64 ((i * 4 + j) * ?blk) = (i * 4 + j) * ?blk" "i64 ((i * c + j) * ?blk) = (i * c + j) * ?blk"
      "i64 (D - (i * c + j) * ?blk - ?blk) = D - (i * c + j) * ?blk - ?blk"
      using nn le le4 assms(9) H by simp_all
    then show ?thesis by (simp only: copy_plane_def a prod.case)
  qed
  have inner: "for_lt c (?body i) (m, D - i * c * ?blk) =
      and_then (for_lt c (copy_plane pf s c ?H sz D i) m) (\<lambda>m. Inr (m, D - (i + 1) * c * ?blk))"
    if "0 \<le> i" "i < n" for i m
    using for_lt_tracked [of c "?body i" "\<lambda>j. D - (i * c + j) * ?blk" "copy_plane pf s c ?H sz D i" m] step [OF that] assms(3)
    by (simp add: algebra_simps)
  show ?thesis
    using for_lt_tracked [of n "\<lambda>i. for_lt c (?body i)" "\<lambda>i. D - i * c * ?blk" "\<lambda>i. for_lt c (copy_plane pf s c ?H sz D i)" m]
      inner assms(2) by (simp add: mult.assoc)
qed

lemma pad_nc_gathers:
  assumes "0 < sz" "0 \<le> n" "0 \<le> c" "c \<le> 4" "n \<le> N" "0 < h" "0 < w" "0 \<le> N"
    and D: "D = N * 4 * (h * w) * sz" "D \<le> SECUREC_MEM_MAX_LEN pf" "D < 2 ^ 63"
    and s: "int (length s) = n * c * (h * w) * sz"
  shows "\<exists>m. for_lt n (\<lambda>i. for_lt c (copy_plane pf s c (h * w) sz D i)) (Some (replicate (nat D) (Some 0))) = Inr (Some m)
    \<and> gathers sz [n, c, h, w] [N, 4, h, w] (pad_nc n c) s m"
proof -
  let ?f = "\<lambda>x. gather_elem sz [n, c, h, w] (pad_nc n c) s (unflat [N, 4, h, w] x)"
  let ?R = "\<Union>i\<in>{0..<n}. \<Union>j\<in>{0..<c}. {(i * 4 + j) * (h * w)..<(i * 4 + j) * (h * w) + h * w}"
  have fl: "fills sz (prod_list [N, 4, h, w]) ?f ?R (for_lt n (\<lambda>i. for_lt c (copy_plane pf s c (h * w) sz D i)))"
    using assms by (intro fills_for copy_plane_fills) auto
  have cover: "flat [N, 4, h, w] idx \<in> ?R" if v: "valid_index [N, 4, h, w] idx" and g: "pad_nc n c idx \<noteq> None" for idx
  proof -
    obtain i j y x where idx: "idx = [i, j, y, x]" and b: "0 \<le> i" "i < n" "0 \<le> j" "j < c" "0 \<le> y" "y < h" "0 \<le> x" "x < w"
      using v g by (auto simp: valid_index_Cons pad_nc_def split: if_splits)
    have "flat [N, 4, h, w] idx = (i * 4 + j) * (h * w) + (y * w + x)" by (simp add: idx algebra_simps)
    then show ?thesis using block_bound [of y h x w] b by (intro UN_I [of i] UN_I [of j]) auto
  qed
  have Dp: "(replicate (nat D) (Some 0) :: mem) = replicate (nat (prod_list [N, 4, h, w] * sz)) (Some 0)" by (simp add: D(1) mult.assoc)
  have "0 \<le> prod_list [N, 4, h, w]" using assms by simp
  then show ?thesis by (rule fills_gathers_partial [OF fl _ assms(1) Dp, rotated]) (rule cover)
qed

section \<open>Padding the rows\<close>

definition pad_rows :: "int \<Rightarrow> int \<Rightarrow> int \<Rightarrow> int list \<Rightarrow> int list option" where
  "pad_rows c0 h w idx = (case idx of [a, b, p, q] \<Rightarrow>
     (let z = p * c0 + q in
      if z < h * w * 4 then Some [a * c0 + b, z div (w * 4), z div 4 mod w, z mod 4] else None) | _ \<Rightarrow> None)"

definition copy_row :: "platform \<Rightarrow> mem \<Rightarrow> int \<Rightarrow> int \<Rightarrow> int \<Rightarrow> int \<Rightarrow> int \<Rightarrow> mem option \<Rightarrow> mem option res" where
  "copy_row pf s S Z sz D k d =
     check_eok (memcpy_s pf d (k * S * sz) (D - k * (Z * sz)) (Some s) (k * Z * sz) (Z * sz))"

lemma nhwc_split:
  assumes "0 \<le> z" "z < h * w * 4" "0 < w"
  shows "valid_index [h, w, 4] [z div (w * 4), z div 4 mod w, z mod 4]"
    "flat [h, w, 4] [z div (w * 4), z div 4 mod w, z mod 4] = z"
proof -
  have "z div (w * 4) < h" using assms by (intro div_less_of_less_mult) (auto simp: mult.assoc)
  then show "valid_index [h, w, 4] [z div (w * 4), z div 4 mod w, z mod 4]"
    using assms by (simp add: pos_imp_zdiv_nonneg_iff)
  have "z div (w * 4) = z div 4 div w" using zdiv_zmult2_eq [of w z 4] assms by (simp add: mult.commute)
  moreover have "z div 4 div w * w + z div 4 mod w = z div 4" "z div 4 * 4 + z mod 4 = z" by (simp_all only: div_mult_mod_eq)
  ultimately have "(z div (w * 4) * w + z div 4 mod w) * 4 + z mod 4 = z" by simp
  then show "flat [h, w, 4] [z div (w * 4), z div 4 mod w, z mod 4] = z" by (simp add: algebra_simps)
qed

lemma copy_row_fills:
  assumes sz: "0 < sz" and dims: "0 \<le> k" "k < N" "N = A * c0" "0 < c0" "0 < h" "0 < w" "h * w * 4 \<le> B * c0"
    and D: "D = N * (B * c0) * sz" "D \<le> SECUREC_MEM_MAX_LEN pf" "D < 2 ^ 63"
    and s: "int (length s) = N * (h * w * 4) * sz"
  shows "fills sz (prod_list [A, c0, B, c0]) (\<lambda>x. gather_elem sz [N, h, w, 4] (pad_rows c0 h w) s (unflat [A, c0, B, c0] x))
    {k * (B * c0)..<k * (B * c0) + h * w * 4} (copy_row pf s (B * c0) (h * w * 4) sz D k)"
proof -
  let ?Z = "h * w * 4" and ?S = "B * c0"
  have Z: "0 < ?Z" using dims by simp
  have k1: "k + 1 \<le> N" using dims by simp
  have S: "0 \<le> ?S" using Z dims(7) by linarith
  have ZS: "(k + 1) * ?Z \<le> N * ?S" by (rule mult_mono [OF k1 dims(7)]) (use k1 dims(1) Z in auto)
  have "fills sz (prod_list [A, c0, B, c0]) (\<lambda>x. gather_elem sz [N, h, w, 4] (pad_rows c0 h w) s (unflat [A, c0, B, c0] x))
    {k * ?S..<k * ?S + ?Z} (\<lambda>d. check_eok (memcpy_s pf d (k * ?S * sz) (D - k * (?Z * sz)) (Some s) (k * ?Z * sz) (?Z * sz)))"
  proof (rule fills_memcpy_max [OF sz _ Z])
    show "0 \<le> k * ?S" by (rule mult_nonneg_nonneg [OF dims(1) S])
    have "(k + 1) * ?S \<le> N * ?S" by (rule mult_right_mono [OF k1 S])
    then show "k * ?S + ?Z \<le> prod_list [A, c0, B, c0]" using dims by (simp add: algebra_simps)
    have "(k + 1) * ?Z * sz \<le> N * ?S * sz" using ZS sz by (intro mult_right_mono) auto
    then show "?Z * sz \<le> D - k * (?Z * sz)" by (simp add: D(1) algebra_simps)
    have "0 \<le> k * (?Z * sz)" using dims Z sz by (intro mult_nonneg_nonneg) auto
    then show "D - k * (?Z * sz) \<le> SECUREC_MEM_MAX_LEN pf" "D - k * (?Z * sz) < 2 ^ 63" using D(2,3) by linarith+
    have "k * ?Z + ?Z \<le> N * ?Z" using mult_right_mono [OF k1, of ?Z] Z by (simp add: algebra_simps)
    then show "in_bounds s (k * ?Z * sz) (?Z * sz)"
      using block_in_bounds [OF sz, of "k * ?Z" ?Z "N * ?Z" s] dims Z s by simp
    show "gather_elem sz [N, h, w, 4] (pad_rows c0 h w) s (unflat [A, c0, B, c0] (k * ?S + z)) =
        mem_read s (k * ?Z * sz + z * sz) sz" if z: "0 \<le> z" "z < ?Z" for z
    proof -
      let ?idx = "[k div c0, k mod c0, z div c0, z mod c0]"
      have "k div c0 < A" "z div c0 < B" using dims z by (auto intro!: div_less_of_less_mult)
      then have v: "valid_index [A, c0, B, c0] ?idx" using dims z by (simp add: pos_imp_zdiv_nonneg_iff)
      have e: "k div c0 * c0 + k mod c0 = k" "z div c0 * c0 + z mod c0 = z" by (simp_all only: div_mult_mod_eq)
      have "flat [A, c0, B, c0] [a, b, p, q] = (a * c0 + b) * ?S + (p * c0 + q)" for a b p q by (simp add: algebra_simps)
      then have u: "unflat [A, c0, B, c0] (k * ?S + z) = ?idx" using unflat_flat [OF v] by (simp only: e)
      let ?j = "[z div (w * 4), z div 4 mod w, z mod 4]"
      have "flat [N, h, w, 4] (k # ?j) = k * ?Z + flat [h, w, 4] ?j" by (simp add: algebra_simps)
      then have "flat [N, h, w, 4] (k # ?j) * sz = k * ?Z * sz + z * sz"
        using nhwc_split(2) [OF z dims(6)] by (simp only: distrib_right)
      moreover have "pad_rows c0 h w ?idx = Some (k # ?j)" using z e by (simp add: pad_rows_def Let_def)
      ultimately show ?thesis unfolding u by (simp add: gather_elem_def elem_def del: flat.simps)
    qed
  qed simp_all
  then show ?thesis by (simp add: copy_row_def [abs_def])
qed

lemma pad_rows_loop:
  assumes "0 < sz" "0 \<le> N" "0 < Z" "Z \<le> S" "D = N * S * sz" "D < 2 ^ 63"
  shows "for_lt N (\<lambda>k (p_d, protectSize).
      and_then (check_eok (memcpy_s pf p_d (i64 (k * (S * sz))) protectSize (Some s) (i64 (k * (Z * sz))) (Z * sz)))
        (\<lambda>p_d. Inr (p_d, i64 (protectSize - Z * sz)))) (m, D)
    = and_then (for_lt N (copy_row pf s S Z sz D) m) (\<lambda>m. Inr (m, D - N * (Z * sz)))"
  (is "for_lt N ?body (m, D) = _")
proof -
  have step: "?body k (m, D - k * (Z * sz)) = and_then (copy_row pf s S Z sz D k m) (\<lambda>m. Inr (m, D - (k + 1) * (Z * sz)))"
    if k: "0 \<le> k" "k < N" for k m
  proof -
    have p: "0 < Z * sz" using assms by simp
    have "(k + 1) * (Z * sz) \<le> N * (S * sz)" using k assms by (intro mult_mono) auto
    then have le: "k * (Z * sz) + Z * sz \<le> D" by (simp add: assms(5) algebra_simps)
    have "k * (S * sz) \<le> N * (S * sz)" using k assms by (intro mult_right_mono) auto
    then have leS: "k * (S * sz) \<le> D" by (simp add: assms(5) algebra_simps)
    have nn: "0 \<le> k * (Z * sz)" "0 \<le> k * (S * sz)" using k assms by (simp_all add: mult_nonneg_nonneg)
    have a: "k * S * sz = k * (S * sz)" "k * Z * sz = k * (Z * sz)" "D - (k + 1) * (Z * sz) = D - k * (Z * sz) - Z * sz"
      by (simp_all add: algebra_simps)
    have "i64 (k * (S * sz)) = k * (S * sz)" "i64 (k * (Z * sz)) = k * (Z * sz)"
      "i64 (D - k * (Z * sz) - Z * sz) = D - k * (Z * sz) - Z * sz"
      using nn le leS assms(6) p by simp_all
    then show ?thesis by (simp only: copy_row_def a prod.case)
  qed
  show ?thesis
    using for_lt_tracked [of N ?body "\<lambda>k. D - k * (Z * sz)" "copy_row pf s S Z sz D" m] step assms(2) by simp
qed

lemma pad_rows_gathers:
  assumes "0 < sz" "N = A * c0" "0 \<le> A" "0 < c0" "0 < h" "0 < w" "h * w * 4 \<le> B * c0"
    and D: "D = N * (B * c0) * sz" "D \<le> SECUREC_MEM_MAX_LEN pf" "D < 2 ^ 63"
    and s: "int (length s) = N * (h * w * 4) * sz"
  shows "\<exists>m. for_lt N (copy_row pf s (B * c0) (h * w * 4) sz D) (Some (replicate (nat D) (Some 0))) = Inr (Some m)
    \<and> gathers sz [N, h, w, 4] [A, c0, B, c0] (pad_rows c0 h w) s m"
proof -
  let ?f = "\<lambda>x. gather_elem sz [N, h, w, 4] (pad_rows c0 h w) s (unflat [A, c0, B, c0] x)"
  let ?R = "\<Union>k\<in>{0..<N}. {k * (B * c0)..<k * (B * c0) + h * w * 4}"
  have fl: "fills sz (prod_list [A, c0, B, c0]) ?f ?R (for_lt N (copy_row pf s (B * c0) (h * w * 4) sz D))"
    using assms by (intro fills_for copy_row_fills) auto
  have cover: "flat [A, c0, B, c0] idx \<in> ?R" if v: "valid_index [A, c0, B, c0] idx" and g: "pad_rows c0 h w idx \<noteq> None" for idx
  proof -
    obtain a b p q where idx: "idx = [a, b, p, q]" and r: "0 \<le> a" "a < A" "0 \<le> b" "b < c0" "0 \<le> p" "p < B" "0 \<le> q" "q < c0"
      "p * c0 + q < h * w * 4"
      using v g by (auto simp: valid_index_Cons pad_rows_def Let_def split: if_splits)
    have "flat [A, c0, B, c0] idx = (a * c0 + b) * (B * c0) + (p * c0 + q)" by (simp add: idx algebra_simps)
    then show ?thesis
      using block_bound [of a A b c0] block_bound [of p B q c0] r assms(2) by (intro UN_I [of "a * c0 + b"]) auto
  qed
  have Dp: "(replicate (nat D) (Some 0) :: mem) = replicate (nat (prod_list [A, c0, B, c0] * sz)) (Some 0)"
    by (simp add: D(1) assms(2) mult.assoc)
  have "0 < h * w * 4" using assms by simp
  then have "0 \<le> B" using assms(4,7) by (metis less_le_trans not_le order_less_imp_le zero_less_mult_pos2)
  then have "0 \<le> prod_list [A, c0, B, c0]" using assms by simp
  then show ?thesis by (rule fills_gathers_partial [OF fl _ assms(1) Dp, rotated]) (rule cover)
qed

section \<open>The whole transfer\<close>

text \<open>
  Element \<open>[p, a, b, q]\<close> of the result belongs to batch element \<open>a * c0 + b\<close> and to position \<open>z = p * c0 + q\<close> of its row
  of \<open>h * w * 4\<close> elements.
\<close>

definition nchw_of_fz_c04 :: layout_map where
  "nchw_of_fz_c04 src dst idx = (case idx of [p, a, b, q] \<Rightarrow>
     (let c0 = dst ! 3; z = p * c0 + q; n = a * c0 + b; h = src ! 2; w = src ! 3 in
      if z < h * w * 4 \<and> z mod 4 < src ! 1 \<and> n < src ! 0
      then Some [n, z mod 4, z div (w * 4), z div 4 mod w] else None) | _ \<Rightarrow> None)"

lemma perms: "is_perm [0, 2, 3, 1]" "is_perm [2, 0, 1, 3]"
  by (auto simp: is_perm_def)

lemma permute_lits:
  "permute [0, 2, 3, 1] [a, b, c, d] = [a, c, d, b]" "permute [2, 0, 1, 3] [a, b, c, d] = [c, a, b, d]"
  "unpermute [0, 2, 3, 1] [a, c, d, b] = [a, b, c, d]" "unpermute [2, 0, 1, 3] [c, a, b, d] = [a, b, c, d]"
  by (simp_all add: permute_def unpermute_def axis_position_def upt_rec)

lemma Transpose_returns:
  assumes "is_perm p" "length shape = length p" "shape \<noteq> []" "\<forall>d\<in>set shape. 0 < d"
    and "sz = GetSizeByDataType pf t" "platform_ok pf sz" "prod_list shape * sz < 2 ^ 63"
    and "int (length s) = prod_list shape * sz" "new_succeeds pf (prod_list shape * sz)"
  obtains m where "Transpose pf (Some s) shape t p result = Inr (result\<lparr>res_data := Some m, res_length := prod_list shape * sz\<rparr>)"
    "gathers sz shape (permute p shape) (transposed p) s m"
proof -
  have "IsShapeArgValid shape p" using assms(1-4) by (auto simp: IsShapeArgValid_iff order_less_imp_le)
  then have "transfer_spec pf INTERNAL_ERROR sz shape (permute p shape) (transposed p) s result (Transpose pf (Some s) shape t p result)"
    using assms(5-8) by (intro Transpose_meets) (simp_all add: holds_tensor_def)
  moreover have "prod_list (permute p shape) = prod_list shape" by (rule prod_list_permute [OF assms(1,2)])
  moreover have "prod_list shape \<noteq> 0" using prod_list_pos [of shape] assms(4) by force
  ultimately show ?thesis using that assms(9) by (auto simp: transfer_spec_def)
qed

lemma layout_composes:
  assumes g: "gathers sz [n, c, h, w] [N, 4, h, w] (pad_nc n c) s m1"
    and t1: "gathers sz [N, 4, h, w] [N, h, w, 4] (transposed [0, 2, 3, 1]) m1 m2"
    and r: "gathers sz [N, h, w, 4] [A, c0, B, c0] (pad_rows c0 h w) m2 m3"
    and t2: "gathers sz [A, c0, B, c0] [B, A, c0, c0] (transposed [2, 0, 1, 3]) m3 m"
    and dims: "N = A * c0" "0 < c0" "0 < h" "0 < w"
  shows "gathers sz [n, c, h, w] [B, A, c0, c0] (nchw_of_fz_c04 [n, c, h, w] [B, A, c0, c0]) s m"
proof -
  have v1: "valid_index [N, 4, h, w] j" if "valid_index [N, h, w, 4] idx" "transposed [0, 2, 3, 1] idx = Some j" for idx j
    using valid_index_unpermute [OF perms(1), of "[N, 4, h, w]" idx] that by (auto simp: permute_lits transposed_def)
  have v2: "valid_index [N, h, w, 4] j" if v: "valid_index [A, c0, B, c0] idx" and j: "pad_rows c0 h w idx = Some j" for idx j
  proof -
    obtain a b p q where i: "idx = [a, b, p, q]" "0 \<le> a" "a < A" "0 \<le> b" "b < c0" "0 \<le> p" "p < B" "0 \<le> q" "q < c0"
      using v by (auto simp: valid_index_Cons)
    then have "0 \<le> p * c0 + q" "0 \<le> a * c0 + b" "a * c0 + b < N" using block_bound [of a A b c0] dims by simp_all
    then show ?thesis
      using j nhwc_split(1) [of "p * c0 + q" h w] dims by (auto simp: i(1) pad_rows_def Let_def split: if_splits)
  qed
  have v3: "valid_index [A, c0, B, c0] j" if "valid_index [B, A, c0, c0] idx" "transposed [2, 0, 1, 3] idx = Some j" for idx j
    using valid_index_unpermute [OF perms(2), of "[A, c0, B, c0]" idx] that by (auto simp: permute_lits transposed_def)
  have "gathers sz [n, c, h, w] [N, h, w, 4] (\<lambda>idx. Option.bind (transposed [0, 2, 3, 1] idx) (pad_nc n c)) s m2"
    by (rule gathers_comp [OF g t1]) (rule v1)
  from this r have "gathers sz [n, c, h, w] [A, c0, B, c0] (\<lambda>idx. Option.bind (pad_rows c0 h w idx)
      (\<lambda>idx. Option.bind (transposed [0, 2, 3, 1] idx) (pad_nc n c))) s m3"
    by (rule gathers_comp) (rule v2)
  from this t2 have comp: "gathers sz [n, c, h, w] [B, A, c0, c0] (\<lambda>idx. Option.bind (transposed [2, 0, 1, 3] idx)
      (\<lambda>idx. Option.bind (pad_rows c0 h w idx) (\<lambda>idx. Option.bind (transposed [0, 2, 3, 1] idx) (pad_nc n c)))) s m"
    by (rule gathers_comp) (rule v3)
  show ?thesis
  proof (rule gathers_cong [OF comp])
    fix idx assume "valid_index [B, A, c0, c0] idx"
    then obtain p a b q where i: "idx = [p, a, b, q]" by (auto simp: valid_index_Cons)
    show "Option.bind (transposed [2, 0, 1, 3] idx) (\<lambda>idx. Option.bind (pad_rows c0 h w idx)
        (\<lambda>idx. Option.bind (transposed [0, 2, 3, 1] idx) (pad_nc n c))) = nchw_of_fz_c04 [n, c, h, w] [B, A, c0, c0] idx"
      by (auto simp: i transposed_def permute_lits pad_rows_def pad_nc_def nchw_of_fz_c04_def Let_def)
  qed
qed

text \<open>Arguments the transfer accepts: a non-empty batch of non-empty planes with at most four channels.\<close>

definition fz_c04_shape :: "int \<Rightarrow> int list \<Rightarrow> int list" where
  "fz_c04_shape c0 src = [Ceil (src ! 2 * src ! 3 * 4) c0, Ceil (src ! 0) c0, c0, c0]"

definition fz_c04_accepted :: "platform \<Rightarrow> TransArgs \<Rightarrow> bool" where
  "fz_c04_accepted pf args \<longleftrightarrow>
     (let src = src_shape args; c0 = GetCubeSizeByDataType pf (src_data_type args); dst = fz_c04_shape c0 src in
      src_format args = FORMAT_NCHW \<and> dst_format args = FORMAT_FRACTAL_Z_C04 \<and> length src = 4
      \<and> IsShapeValid src \<and> src ! 1 \<le> 4 \<and> 0 < src ! 0 \<and> 0 < src ! 2 \<and> 0 < src ! 3
      \<and> Ceil (src ! 0) c0 * c0 < 2 ^ 31
      \<and> IsShapeValid [Ceil (src ! 0) c0 * c0, 4, src ! 2, src ! 3] \<and> IsShapeValid dst
      \<and> (dst_shape args = [] \<or> dst_shape args = dst))"

lemma Ceil_of_multiple:
  assumes "0 < c0" "0 \<le> a" "a * c0 < 2 ^ 63"
  shows "Ceil (a * c0) c0 = a"
proof -
  have "(a * c0 + c0 - 1) div c0 = a"
    using assms(1) by (intro int_div_pos_eq [where r = "c0 - 1"]) (auto simp: algebra_simps)
  then show ?thesis using Ceil_eq [of "a * c0" c0] assms by simp
qed

lemma PaddingNC_returns:
  assumes shape: "src_shape args = [n, c, h, w]" "IsShapeValid [n, c, h, w]" and dims: "0 < n" "0 \<le> c" "c \<le> 4" "0 < h" "0 < w"
    and c0: "c0 = GetCubeSizeByDataType pf (src_data_type args)" "0 < c0" and N: "N = Ceil n c0 * c0" "n \<le> N" "N < 2 ^ 31"
    and sz: "sz = GetSizeByDataType pf (src_data_type args)" "0 < sz"
    and D: "D = N * 4 * (h * w) * sz" "D \<le> SECUREC_MEM_MAX_LEN pf" "D < 2 ^ 63" "new_succeeds pf D"
    and s: "holds_tensor sz [n, c, h, w] (data args) s"
  obtains m where "PaddingNC pf args = Inr (args\<lparr>src_shape := [N, 4, h, w], data := Some m\<rparr>)"
    "gathers sz [n, c, h, w] [N, 4, h, w] (pad_nc n c) s m"
proof -
  have d: "data args = Some s" "int (length s) = n * c * (h * w) * sz" using s by (simp_all add: holds_tensor_def mult.assoc)
  have Np: "0 < N" using dims N by simp
  then have Dp: "0 < D" using dims sz D(1) by simp
  obtain m where m: "for_lt n (\<lambda>i. for_lt c (copy_plane pf s c (h * w) sz D i)) (Some (replicate (nat D) (Some 0))) = Inr (Some m)"
    "gathers sz [n, c, h, w] [N, 4, h, w] (pad_nc n c) s m"
    using pad_nc_gathers [OF sz(2) _ dims(2,3) N(2) dims(4,5) _ D(1-3) d(2)] dims Np by auto
  have "h * w * sz \<le> D"
  proof -
    have "1 * (h * w * sz) \<le> (N * 4) * (h * w * sz)" using Np dims sz by (intro mult_right_mono) auto
    then show ?thesis by (simp add: D(1) mult.assoc)
  qed
  then have blk: "i64 (h * w * sz) = h * w * sz" using D(3) dims sz by simp
  have ct: "checked_total N 4 h w sz k = k D" for k :: "int \<Rightarrow> TransArgs res"
    using checked_total_eq [of N 4 h w sz k] Np dims sz(2) D(1,3) by simp
  have "PaddingNC pf args = Inr (args\<lparr>src_shape := [N, 4, h, w], data := Some m\<rparr>)"
    using Np dims D(2-4) Dp N(2,3)
    by (simp add: PaddingNC_def for_int_eq CheckShapeValid_iff shape at_def Let_def kMaxDimsNumC_def c0(1) [symmetric] N(1) [symmetric] sz(1) [symmetric]
        ct zeroed_dst_eq blk d(1) pad_nc_loop [OF sz(2) _ dims(2,3) N(2) dims(4,5) D(1,3)] m(1))
  then show ?thesis using that m(2) by blast
qed

lemma TransFormatFromNchwToFzC04_returns:
  assumes shape: "src_shape args = [N, 4, h, w]" and dims: "0 < A" "0 < c0" "0 < h" "0 < w" "N = A * c0" "N < 2 ^ 31"
    and c0: "c0 = GetCubeSizeByDataType pf (src_data_type args)"
    and B: "B = Ceil (h * w * 4) c0" "h * w * 4 \<le> B * c0"
    and sz: "sz = GetSizeByDataType pf (src_data_type args)" and ok: "platform_ok pf sz"
    and D: "D = N * (B * c0) * sz" "D \<le> SECUREC_MEM_MAX_LEN pf" "D < 2 ^ 63" "new_succeeds pf D" "new_succeeds pf (N * (h * w * 4) * sz)"
    and s: "data args = Some m1" "int (length m1) = N * (h * w * 4) * sz"
  obtains m2 m3 m where
    "gathers sz [N, 4, h, w] [N, h, w, 4] (transposed [0, 2, 3, 1]) m1 m2"
    "gathers sz [N, h, w, 4] [A, c0, B, c0] (pad_rows c0 h w) m2 m3"
    "gathers sz [A, c0, B, c0] [B, A, c0, c0] (transposed [2, 0, 1, 3]) m3 m"
    "TransFormatFromNchwToFzC04 pf args result = Inr (result\<lparr>res_data := Some m, res_length := D\<rparr>)"
proof -
  have szp: "0 < sz" using ok by (simp add: platform_ok_def)
  have Np: "0 < N" using dims by simp
  have Z: "0 < h * w * 4" using dims by simp
  then have Bc: "0 < B * c0" using B(2) by linarith
  then have Bp: "0 < B" using dims(2) by (simp add: zero_less_mult_iff)
  have P1: "prod_list [N, 4, h, w] = N * (h * w * 4)" "prod_list [A, c0, B, c0] = N * (B * c0)"
    using dims by simp_all
  have le: "N * (h * w * 4) * sz \<le> D" unfolding D(1) using B(2) Np szp by (intro mult_right_mono mult_left_mono) auto
  obtain m2 where m2: "Transpose pf (Some m1) [N, 4, h, w] (src_data_type args) [0, 2, 3, 1] \<lparr>res_data = None, res_length = 0\<rparr> =
      Inr (\<lparr>res_data = None, res_length = 0\<rparr>\<lparr>res_data := Some m2, res_length := N * (h * w * 4) * sz\<rparr>)"
    "gathers sz [N, 4, h, w] [N, h, w, 4] (transposed [0, 2, 3, 1]) m1 m2"
  proof (rule Transpose_returns [OF perms(1) _ _ _ sz ok, of "[N, 4, h, w]" m1 "\<lparr>res_data = None, res_length = 0\<rparr>",
        unfolded P1 permute_lits])
    show "N * (h * w * 4) * sz < 2 ^ 63" using le D(3) by (rule le_less_trans)
  qed (use Np dims(3,4) D(5) s(2) in auto)
  have l2: "int (length m2) = N * (h * w * 4) * sz" using m2(2) by (simp add: gathers_def)
  obtain m3 where m3: "for_lt N (copy_row pf m2 (B * c0) (h * w * 4) sz D) (Some (replicate (nat D) (Some 0))) = Inr (Some m3)"
    "gathers sz [N, h, w, 4] [A, c0, B, c0] (pad_rows c0 h w) m2 m3"
    using pad_rows_gathers [OF szp dims(5) _ dims(2-4) B(2) D(1-3) l2] dims(1) by auto
  have l3: "int (length m3) = N * (B * c0) * sz" using m3(2) by (simp add: gathers_def P1 [simplified] dims(5) mult.assoc)
  obtain m where m: "Transpose pf (Some m3) [A, c0, B, c0] (src_data_type args) [2, 0, 1, 3] result =
      Inr (result\<lparr>res_data := Some m, res_length := N * (B * c0) * sz\<rparr>)"
    "gathers sz [A, c0, B, c0] [B, A, c0, c0] (transposed [2, 0, 1, 3]) m3 m"
    by (rule Transpose_returns [OF perms(2) _ _ _ sz ok, of "[A, c0, B, c0]" m3 result, unfolded P1 permute_lits])
      (use Bp dims(1,2) D(3,4) l3 in \<open>auto simp: D(1) [symmetric]\<close>)
  show ?thesis
  proof (rule that [OF m2(2) m3(2) m(2)])
    have nz: "0 < N * (h * w * 4) * sz" using Np Z szp by simp
    then have Dp: "0 < D" using le by linarith
    have b: "(h * w * 4) * sz \<le> D" "B * c0 * sz \<le> D"
    proof -
      have "1 * (B * c0 * sz) \<le> N * (B * c0 * sz)" using Np Bc szp by (intro mult_right_mono) auto
      then show "B * c0 * sz \<le> D" by (simp add: D(1) mult.assoc)
      moreover have "(h * w * 4) * sz \<le> B * c0 * sz" using B(2) szp by (intro mult_right_mono) auto
      ultimately show "(h * w * 4) * sz \<le> D" by linarith
    qed
    have "h * w * 4 * 1 \<le> h * w * 4 * sz" using Z szp by (intro mult_left_mono) auto
    then have "h * w * 4 \<le> D" using b(1) by linarith
    then have i: "i64 (h * w * 4) = h * w * 4" "i64 (4 * h * w * sz) = h * w * 4 * sz" "i64 (B * c0 * sz) = B * c0 * sz"
      "u64 (N * 4 * h * w * sz) = N * (h * w * 4) * sz"
      using b D(3) Z mult_pos_pos [OF Z szp] mult_pos_pos [OF Bc szp] nz le by (simp_all add: ac_simps)
    have ct: "checked_total A c0 B c0 sz k = k D" for k :: "int \<Rightarrow> TransResult res"
      using checked_total_eq [of A c0 B c0 sz k] dims(1,2,5) Bp szp D(1,3) by simp
    have cA: "Ceil N c0 = A" using Ceil_of_multiple [of c0 A] dims by simp
    show "TransFormatFromNchwToFzC04 pf args result = Inr (result\<lparr>res_data := Some m, res_length := D\<rparr>)"
      using nz Dp D(2-4) dims(6)
      by (simp add: TransFormatFromNchwToFzC04_def for_int_eq shape at_def Let_def c0 [symmetric] sz [symmetric] s(1) m2(1) i cA
          B(1) [symmetric] ct zeroed_dst_eq pad_rows_loop [OF szp _ Z B(2) D(1,3)] less_imp_le [OF Np] m3(1) m(1) D(1) [symmetric])
  qed
qed

lemma fz_c04_acceptedE:
  assumes "fz_c04_accepted pf args" "0 < GetSizeByDataType pf (src_data_type args)"
    and "c0 = GetCubeSizeByDataType pf (src_data_type args)"
  obtains n c h w A B where "src_shape args = [n, c, h, w]" "fz_c04_shape c0 (src_shape args) = [B, A, c0, c0]"
    "A = Ceil n c0" "B = Ceil (h * w * 4) c0" "0 < c0" "0 < A" "n \<le> A * c0" "A * c0 < 2 ^ 31" "h * w * 4 \<le> B * c0"
    "IsShapeValid [n, c, h, w]" "0 < n" "0 \<le> c" "c \<le> 4" "0 < h" "0 < w"
    "src_format args = FORMAT_NCHW" "dst_format args = FORMAT_FRACTAL_Z_C04"
    "dst_shape args = [] \<or> dst_shape args = [B, A, c0, c0]"
    "TransShapeNchwFZC04 pf (src_format args) [A * c0, 4, h, w] (src_data_type args) (dst_format args) = Inr [B, A, c0, c0]"
proof -
  obtain n c h w where src: "src_shape args = [n, c, h, w]"
    using assms(1) by (auto simp: fz_c04_accepted_def Let_def length_Suc_conv numeral_eq_Suc)
  define A where "A = Ceil n c0"
  define B where "B = Ceil (h * w * 4) c0"
  have acc: "src_format args = FORMAT_NCHW" "dst_format args = FORMAT_FRACTAL_Z_C04" "IsShapeValid [n, c, h, w]" "c \<le> 4"
    "0 < n" "0 < h" "0 < w" "A * c0 < 2 ^ 31" "IsShapeValid [A * c0, 4, h, w]" "IsShapeValid [B, A, c0, c0]"
    "dst_shape args = [] \<or> dst_shape args = [B, A, c0, c0]"
    using assms(1) by (simp_all add: fz_c04_accepted_def fz_c04_shape_def Let_def src assms(3) [symmetric] A_def B_def)
  have c: "0 \<le> c" and nb: "n < 2 ^ 63"
    using acc(3) [unfolded IsShapeValid_iff] by (auto simp: shape_max_pow dest: spec [of _ 1])
  have c0: "0 < c0" using CubeSize_pos assms(2,3) by simp
  have A: "n \<le> A * c0" "0 < A" using Ceil_bounds(2,4) [of n c0] acc(5) nb c0 by (simp_all add: A_def)
  have "1 * (h * w * 4) \<le> A * c0 * (h * w * 4)" using A acc(5-7) by (intro mult_right_mono) auto
  then have Zb: "h * w * 4 < 2 ^ 63"
    using good_shape_prod [OF IsShapeValid_good [OF acc(9)]] by (simp add: shape_max_pow ac_simps)
  have B: "h * w * 4 \<le> B * c0" using Ceil_bounds(2) [of "h * w * 4" c0] acc(6,7) Zb c0 by (simp add: B_def)
  have "Ceil (A * c0) c0 = A" using Ceil_of_multiple [of c0 A] c0 A(2) acc(8) by simp
  moreover have "i64 (4 * h * w) = h * w * 4" using Zb acc(6,7) by (simp add: ac_simps)
  ultimately have "TransShapeNchwFZC04 pf (src_format args) [A * c0, 4, h, w] (src_data_type args) (dst_format args) = Inr [B, A, c0, c0]"
    using c0 acc(1,2,9,10) assms(2) by (simp add: TransShapeNchwFZC04_def TransShapeNchwToFzC04_def TransShape_FzC04_def
        CheckShapeValid_iff at_def Let_def assms(3) [symmetric] B_def [symmetric])
  moreover have "fz_c04_shape c0 (src_shape args) = [B, A, c0, c0]" by (simp add: fz_c04_shape_def src A_def B_def)
  ultimately show ?thesis
    using that [OF src _ A_def B_def c0 A(2,1) acc(8) B acc(3,5) c acc(4,6,7) acc(1,2,11)] by blast
qed

text \<open>
  C11: The NCHW to FRACTAL\_Z\_C04 transfer. For at most four channels and buffers within the limit of the bounded copies,
  the two paddings and the two transpositions together put source element \<open>[n, c, y, x]\<close> at batch row \<open>n\<close> and row position
  \<open>(y * w + x) * 4 + c\<close> of the blocked result, and every padding element is zero.
\<close>

theorem fz_c04_correct:
  assumes "fz_c04_accepted pf args" "sz = GetSizeByDataType pf (src_data_type args)" "platform_ok pf sz"
    and "holds_tensor sz (src_shape args) (data args) s"
    and "dst = fz_c04_shape (GetCubeSizeByDataType pf (src_data_type args)) (src_shape args)"
    and "prod_list dst * sz \<le> SECUREC_MEM_MAX_LEN pf" "\<forall>b \<le> prod_list dst * sz. new_succeeds pf b"
  shows "\<exists>m. TransFormatNchwFZC04 pf args result = Inr (result\<lparr>res_data := Some m, res_length := prod_list dst * sz\<rparr>) \<and>
    gathers sz (src_shape args) dst (nchw_of_fz_c04 (src_shape args) dst) s m"
proof -
  define c0 where "c0 = GetCubeSizeByDataType pf (src_data_type args)"
  have szp: "0 < sz" using assms(3) by (simp add: platform_ok_def)
  obtain n c h w A B where src: "src_shape args = [n, c, h, w]" and dst: "fz_c04_shape c0 (src_shape args) = [B, A, c0, c0]"
    and AB: "A = Ceil n c0" "B = Ceil (h * w * 4) c0" "0 < c0" "0 < A" "n \<le> A * c0" "A * c0 < 2 ^ 31" "h * w * 4 \<le> B * c0"
    and dims: "IsShapeValid [n, c, h, w]" "0 < n" "0 \<le> c" "c \<le> 4" "0 < h" "0 < w"
    and fmt: "src_format args = FORMAT_NCHW" "dst_format args = FORMAT_FRACTAL_Z_C04"
      "dst_shape args = [] \<or> dst_shape args = [B, A, c0, c0]"
      "TransShapeNchwFZC04 pf (src_format args) [A * c0, 4, h, w] (src_data_type args) (dst_format args) = Inr [B, A, c0, c0]"
    by (rule fz_c04_acceptedE [OF assms(1) _ c0_def]) (use szp assms(2) in simp)
  define D where "D = A * c0 * (B * c0) * sz"
  have Deq: "prod_list dst * sz = D" by (simp add: assms(5) c0_def [symmetric] dst D_def ac_simps)
  have D: "D \<le> SECUREC_MEM_MAX_LEN pf" "D < 2 ^ 63" using assms(3,6) by (simp_all add: Deq platform_ok_def)
  have le: "A * c0 * 4 * (h * w) * sz \<le> D"
  proof -
    have "A * c0 * (h * w * 4) * sz \<le> D" unfolding D_def using AB(3,4,7) szp by (intro mult_right_mono mult_left_mono) auto
    then show ?thesis by (simp add: ac_simps)
  qed
  obtain m1 where pad: "PaddingNC pf args = Inr (args\<lparr>src_shape := [A * c0, 4, h, w], data := Some m1\<rparr>)"
    and g1: "gathers sz [n, c, h, w] [A * c0, 4, h, w] (pad_nc n c) s m1"
  proof (rule PaddingNC_returns [OF src dims c0_def AB(3) _ AB(5,6) assms(2) szp refl _ _ _ assms(4) [unfolded src]])
    show "A * c0 = Ceil n c0 * c0" by (simp add: AB(1))
    show "A * c0 * 4 * (h * w) * sz \<le> SECUREC_MEM_MAX_LEN pf" using le D(1) by (rule order_trans)
    show "A * c0 * 4 * (h * w) * sz < 2 ^ 63" using le D(2) by (rule le_less_trans)
    show "new_succeeds pf (A * c0 * 4 * (h * w) * sz)" using assms(7) le by (simp only: Deq)
  qed
  let ?args = "args\<lparr>src_shape := [A * c0, 4, h, w], data := Some m1\<rparr>"
  obtain m2 m3 m where g: "gathers sz [A * c0, 4, h, w] [A * c0, h, w, 4] (transposed [0, 2, 3, 1]) m1 m2"
    "gathers sz [A * c0, h, w, 4] [A, c0, B, c0] (pad_rows c0 h w) m2 m3"
    "gathers sz [A, c0, B, c0] [B, A, c0, c0] (transposed [2, 0, 1, 3]) m3 m"
    and run: "TransFormatFromNchwToFzC04 pf ?args result = Inr (result\<lparr>res_data := Some m, res_length := D\<rparr>)"
  proof (rule TransFormatFromNchwToFzC04_returns [of ?args "A * c0" h w A c0 pf B sz D m1 result])
    show "int (length m1) = A * c0 * (h * w * 4) * sz" using g1 by (simp add: gathers_def ac_simps)
    have "A * c0 * (h * w * 4) * sz \<le> D" using le by (simp add: ac_simps)
    then show "new_succeeds pf (A * c0 * (h * w * 4) * sz)" using assms(7) Deq by simp
  qed (use AB(2-4,6,7) dims(5,6) c0_def assms(2,3,7) D_def D Deq in auto)
  have "TransFormatNchwFZC04 pf args result = Inr (result\<lparr>res_data := Some m, res_length := D\<rparr>)"
    using fmt run by (auto simp: TransFormatNchwFZC04_def pad IsTransShapeDstCorrect_def)
  then show ?thesis
    using layout_composes [OF g1 g refl AB(3) dims(5,6)] unfolding Deq
    by (auto simp: assms(5) c0_def [symmetric] dst [unfolded src] src)
qed

definition fz_c04_sample :: TransArgs where
  "fz_c04_sample = sample_args FORMAT_NCHW FORMAT_FRACTAL_Z_C04 [1, 2, 1, 1] [1, 1, 16, 16] DT_FLOAT16 [Some 1, Some 2, Some 3, Some 4]"

theorem fz_c04_correct_witness:
  "fz_c04_accepted sample_platform fz_c04_sample \<and>
   (\<exists>m. TransFormatNchwFZC04 sample_platform fz_c04_sample no_result = Inr (no_result\<lparr>res_data := Some m, res_length := 512\<rparr>) \<and>
      gathers 2 [1, 2, 1, 1] [1, 1, 16, 16] (nchw_of_fz_c04 [1, 2, 1, 1] [1, 1, 16, 16]) [Some 1, Some 2, Some 3, Some 4] m)"
proof
  show acc: "fz_c04_accepted sample_platform fz_c04_sample" by code_simp
  have dst: "[1, 1, 16, 16] = fz_c04_shape (GetCubeSizeByDataType sample_platform (src_data_type fz_c04_sample)) (src_shape fz_c04_sample)"
    by code_simp
  show "\<exists>m. TransFormatNchwFZC04 sample_platform fz_c04_sample no_result = Inr (no_result\<lparr>res_data := Some m, res_length := 512\<rparr>) \<and>
      gathers 2 [1, 2, 1, 1] [1, 1, 16, 16] (nchw_of_fz_c04 [1, 2, 1, 1] [1, 1, 16, 16]) [Some 1, Some 2, Some 3, Some 4] m"
    using fz_c04_correct [OF acc _ _ _ dst, of 2 "[Some 1, Some 2, Some 3, Some 4]" no_result]
    by (simp add: fz_c04_sample_def sample_args_def sample_platform_def platform_ok_def holds_tensor_def)
qed

text \<open>
  The shape the transfer advertises is that of the unpadded source: with fewer than four channels its first dimension can be
  smaller than that of the data, and arguments carrying the advertised shape are rejected.
\<close>

lemma fz_c04_shape_mismatch:
  "TransShapeNchwFZC04 sample_platform FORMAT_NCHW [1, 1, 4, 4] DT_FLOAT16 FORMAT_FRACTAL_Z_C04 = Inr [1, 1, 16, 16]"
  "TransFormatNchwFZC04 sample_platform
     (sample_args FORMAT_NCHW FORMAT_FRACTAL_Z_C04 [1, 1, 4, 4] [1, 1, 16, 16] DT_FLOAT16 (replicate 32 (Some 0))) no_result
   = Inl (Ret PARAM_INVALID)"
  by code_simp+

end
