(* ===== verification/Fp16.thy ===== *)
theory Fp16
  imports GE_Prelude
begin

text \<open>
  The half-precision type \<open>fp16_t\<close> of \<open>ge/common/fp16_t.h\<close> and \<open>fp16_t.cc\<close>: extraction and construction of the bit
  fields, the conversions to and from the integer types, \<open>float\<close> and \<open>double\<close>, multiplication, addition and the
  comparisons.

  Machine integers are \<open>int\<close>s; an assignment that can leave the range of its C++ type is reduced explicitly
  (\<open>mod 2 ^ w\<close>, or \<open>bits_signed w\<close> for the reinterpretation of a bit pattern as a signed integer). A \<open>float\<close> or
  \<open>double\<close> is its IEEE bit pattern. The rounding mode \<open>g_round_mode\<close> is never assigned in the repository; it is an
  argument of the routines that read it. Loops whose exit depends on a bit becoming set return an \<open>option\<close>, so
  that not returning is the value \<open>None\<close>.
\<close>

unbundle bit_operations_syntax

section \<open>Fields\<close>

datatype TagFp16RoundMode = kRoundToNearest | kRoundByTruncated | kRoundModeReserved

definition kFp16ExpBias :: int where "kFp16ExpBias = 15"
definition kFp16ManLen :: nat where "kFp16ManLen = 10"
definition kFp16SignMask :: int where "kFp16SignMask = 0x8000"
definition kFp16ExpMask :: int where "kFp16ExpMask = 0x7C00"
definition kFp16ManMask :: int where "kFp16ManMask = 0x03FF"
definition kFp16ManHideBit :: int where "kFp16ManHideBit = 0x0400"
definition kFp16AbsMax :: int where "kFp16AbsMax = 0x7FFF"
definition kFp16MaxExp :: int where "kFp16MaxExp = 0x001F"
definition kFp16MaxMan :: int where "kFp16MaxMan = 0x03FF"

definition FP16_EXTRAC_SIGN :: "int \<Rightarrow> int" where
  "FP16_EXTRAC_SIGN x = drop_bit 15 x AND 1"

definition FP16_EXTRAC_EXP :: "int \<Rightarrow> int" where
  "FP16_EXTRAC_EXP x = drop_bit 10 x AND kFp16MaxExp"

definition FP16_EXTRAC_MAN :: "int \<Rightarrow> int" where
  "FP16_EXTRAC_MAN x = (drop_bit 0 x AND 0x3FF) OR ((if drop_bit 10 x AND 0x1F > 0 then 1 else 0) * 0x400)"

definition FP16_CONSTRUCTOR :: "int \<Rightarrow> int \<Rightarrow> int \<Rightarrow> int" where
  "FP16_CONSTRUCTOR s e m = ((push_bit 15 s OR push_bit kFp16ManLen e) OR (m AND kFp16MaxMan)) mod 2 ^ 16"

definition FP16_IS_ZERO :: "int \<Rightarrow> bool" where "FP16_IS_ZERO x \<longleftrightarrow> x AND kFp16AbsMax = 0"
definition FP16_IS_DENORM :: "int \<Rightarrow> bool" where "FP16_IS_DENORM x \<longleftrightarrow> x AND kFp16ExpMask = 0"
definition FP16_IS_INVALID :: "int \<Rightarrow> bool" where "FP16_IS_INVALID x \<longleftrightarrow> x AND kFp16ExpMask = kFp16ExpMask"

definition FP32_CONSTRUCTOR :: "int \<Rightarrow> int \<Rightarrow> int \<Rightarrow> int" where
  "FP32_CONSTRUCTOR s e m = ((push_bit 31 s OR push_bit 23 e) OR (m AND 0x7FFFFF)) mod 2 ^ 32"

definition bits_signed :: "nat \<Rightarrow> int \<Rightarrow> int" where
  "bits_signed w x = (if x mod 2 ^ w < 2 ^ (w - 1) then x mod 2 ^ w else x mod 2 ^ w - 2 ^ w)"

definition ExtractFp16 :: "int \<Rightarrow> int \<times> int \<times> int" where
  "ExtractFp16 val =
     (let e = FP16_EXTRAC_EXP val in
      (FP16_EXTRAC_SIGN val, if e = 0 then 1 else e, FP16_EXTRAC_MAN val))"

definition IsRoundOne :: "TagFp16RoundMode \<Rightarrow> int \<Rightarrow> nat \<Rightarrow> bool" where
  "IsRoundOne mode man trunc_len =
     (let shift_out = trunc_len - 2;
          mask0 = push_bit shift_out 4;
          mask1 = push_bit shift_out 2;
          mask2 = mask1 - 1;
          last_bit = man AND mask0 > 0;
          trunc_high = (mode = kRoundToNearest \<and> man AND mask1 > 0);
          trunc_left = (mode = kRoundToNearest \<and> man AND mask2 > 0)
      in trunc_high \<and> (trunc_left \<or> last_bit))"

definition Fp16Normalize :: "int \<Rightarrow> int \<Rightarrow> int \<times> int" where
  "Fp16Normalize e man =
     (if e \<ge> kFp16MaxExp then (kFp16MaxExp, kFp16MaxMan)
      else if e = 0 \<and> man = kFp16ManHideBit then (e + 1, 0)
      else (e, man))"

section \<open>Conversions to the other types\<close>

text \<open>\<open>while (hf_man && !(hf_man & kFp16ManHideBit)) { hf_man <<= 1; hf_exp--; }\<close>\<close>

partial_function (option) normalize_man :: "int \<Rightarrow> int \<Rightarrow> (int \<times> int) option" where
  [code]: "normalize_man hf_man hf_exp =
     (if hf_man \<noteq> 0 \<and> hf_man AND kFp16ManHideBit = 0
      then normalize_man (hf_man * 2 mod 2 ^ 16) (hf_exp - 1)
      else Some (hf_man, hf_exp))"

definition Fp16ToFloat :: "int \<Rightarrow> int option" where
  "Fp16ToFloat fp_val =
     (let (hf_sign, hf_exp, hf_man) = ExtractFp16 fp_val in
      case normalize_man hf_man hf_exp of
        None \<Rightarrow> None
      | Some (hf_man, hf_exp) \<Rightarrow>
          let (e_ret, m_ret) =
            (if hf_man = 0 then (0, 0)
             else (hf_exp - kFp16ExpBias + 127, push_bit (23 - 10) (hf_man AND kFp16ManMask)))
          in Some (FP32_CONSTRUCTOR hf_sign e_ret m_ret))"

definition Fp16ToDouble :: "int \<Rightarrow> int option" where
  "Fp16ToDouble fp_val =
     (let (hf_sign, hf_exp, hf_man) = ExtractFp16 fp_val in
      case normalize_man hf_man hf_exp of
        None \<Rightarrow> None
      | Some (hf_man, hf_exp) \<Rightarrow>
          let (e_ret, m_ret) =
            (if hf_man = 0 then (0, 0)
             else (hf_exp - kFp16ExpBias + 1023, push_bit (52 - 10) (hf_man AND kFp16ManMask)))
          in Some ((push_bit 63 hf_sign OR push_bit 52 e_ret) OR m_ret))"

text \<open>
  The loop \<open>while (hf_e != kFp16ExpBias)\<close> of the integer conversions. \<open>over m\<close> is the overflow test made after
  each left shift; a \<open>break\<close> returns \<open>True\<close> as the overflow flag.
\<close>

function align_exp :: "(int \<Rightarrow> bool) \<Rightarrow> int \<Rightarrow> int \<Rightarrow> nat \<Rightarrow> bool \<times> int \<times> nat" where
  "align_exp over hf_e long_int_m shift_out =
     (if hf_e = kFp16ExpBias then (False, long_int_m, shift_out)
      else if hf_e > kFp16ExpBias then
        let m = long_int_m * 2 mod 2 ^ 64 in
        if over m then (True, m, shift_out) else align_exp over (hf_e - 1) m shift_out
      else align_exp over (hf_e + 1) long_int_m (shift_out + 1))"
  by pat_completeness auto
termination by (relation "measure (\<lambda>(_, e, _, _). nat \<bar>e - kFp16ExpBias\<bar>)") auto

definition GetUint8ValByMan :: "TagFp16RoundMode \<Rightarrow> int \<Rightarrow> int \<Rightarrow> nat \<Rightarrow> int" where
  "GetUint8ValByMan mode s_ret long_int_m shift_out =
     (let m_ret = drop_bit (10 + shift_out) long_int_m AND 0xFF;
          need_round = IsRoundOne mode long_int_m (shift_out + 10)
            \<and> (s_ret = 0 \<and> m_ret < 0x7F \<or> s_ret = 1 \<and> m_ret \<le> 0x7F);
          m_ret = (if need_round then (m_ret + 1) mod 2 ^ 8 else m_ret);
          m_ret = (if s_ret \<noteq> 0 then (NOT m_ret + 1) mod 2 ^ 8 else m_ret);
          s_ret = (if m_ret = 0 then 0 else s_ret)
      in (push_bit 7 s_ret OR m_ret) mod 2 ^ 8)"

definition Fp16ToInt8 :: "TagFp16RoundMode \<Rightarrow> int \<Rightarrow> int" where
  "Fp16ToInt8 mode fp_val =
     (let s_ret = FP16_EXTRAC_SIGN fp_val; hf_e = FP16_EXTRAC_EXP fp_val; hf_m = FP16_EXTRAC_MAN fp_val in
      if FP16_IS_DENORM fp_val then 0
      else
        let (overflow_flag, long_int_m, shift_out) =
          (if FP16_IS_INVALID fp_val then (True, hf_m, 0)
           else align_exp (\<lambda>m. s_ret = 1 \<and> m \<ge> 0x20000 \<or> s_ret \<noteq> 1 \<and> m \<ge> 0x1FFFF) hf_e hf_m 0);
          ret_v = (if overflow_flag then 0x7F + s_ret else GetUint8ValByMan mode s_ret long_int_m shift_out)
        in bits_signed 8 ret_v)"

definition Fp16ToUInt8 :: "TagFp16RoundMode \<Rightarrow> int \<Rightarrow> int" where
  "Fp16ToUInt8 mode fp_val =
     (let s_ret = FP16_EXTRAC_SIGN fp_val; hf_e = FP16_EXTRAC_EXP fp_val; hf_m = FP16_EXTRAC_MAN fp_val in
      if FP16_IS_DENORM fp_val then 0
      else
        let m_ret =
          (if FP16_IS_INVALID fp_val then 0xFF
           else
             let (overflow_flag, long_int_m, shift_out) = align_exp (\<lambda>m. m \<ge> 0x40000) hf_e hf_m 0 in
             if overflow_flag then 0xFF
             else
               let m_ret = drop_bit (10 + shift_out) long_int_m AND 0xFF in
               if IsRoundOne mode long_int_m (shift_out + 10) \<and> m_ret \<noteq> 0xFF then m_ret + 1 else m_ret)
        in if s_ret = 1 then 0 else m_ret)"

definition GetUint16ValByMan :: "TagFp16RoundMode \<Rightarrow> int \<Rightarrow> int \<Rightarrow> nat \<Rightarrow> int" where
  "GetUint16ValByMan mode s_ret long_int_m shift_out =
     (let m_ret = drop_bit (10 + shift_out) long_int_m AND 0xFFFF;
          m_ret = (if IsRoundOne mode long_int_m (shift_out + 10) \<and> m_ret < 0x7FFF then m_ret + 1 else m_ret);
          m_ret = (if s_ret \<noteq> 0 then (NOT m_ret + 1) mod 2 ^ 16 else m_ret);
          s_ret = (if m_ret = 0 then 0 else s_ret)
      in (push_bit 15 s_ret OR m_ret) mod 2 ^ 16)"

definition Fp16ToInt16 :: "TagFp16RoundMode \<Rightarrow> int \<Rightarrow> int" where
  "Fp16ToInt16 mode fp_val =
     (let s_ret = FP16_EXTRAC_SIGN fp_val; hf_e = FP16_EXTRAC_EXP fp_val; hf_m = FP16_EXTRAC_MAN fp_val in
      if FP16_IS_DENORM fp_val then 0
      else
        let (overflow_flag, long_int_m, shift_out) =
          (if FP16_IS_INVALID fp_val then (True, hf_m, 0)
           else align_exp (\<lambda>m. s_ret = 1 \<and> m > 0x2000000 \<or> s_ret \<noteq> 1 \<and> m \<ge> 0x1FFFFFF) hf_e hf_m 0);
          ret_v = (if overflow_flag then 0x7FFF + s_ret else GetUint16ValByMan mode s_ret long_int_m shift_out)
        in bits_signed 16 ret_v)"

definition Fp16ToUInt16 :: "TagFp16RoundMode \<Rightarrow> int \<Rightarrow> int" where
  "Fp16ToUInt16 mode fp_val =
     (let s_ret = FP16_EXTRAC_SIGN fp_val; hf_e = FP16_EXTRAC_EXP fp_val; hf_m = FP16_EXTRAC_MAN fp_val in
      if FP16_IS_DENORM fp_val then 0
      else
        let m_ret =
          (if FP16_IS_INVALID fp_val then 0xFFFF
           else
             let (_, long_int_m, shift_out) = align_exp (\<lambda>_. False) hf_e hf_m 0;
                 m_ret = drop_bit (10 + shift_out) long_int_m AND 0xFFFF in
             if IsRoundOne mode long_int_m (shift_out + 10) \<and> m_ret \<noteq> 0xFFFF then m_ret + 1 else m_ret)
        in if s_ret = 1 then 0 else m_ret)"

definition Fp16ToInt32 :: "TagFp16RoundMode \<Rightarrow> int \<Rightarrow> int" where
  "Fp16ToInt32 mode fp_val =
     (let s_ret = FP16_EXTRAC_SIGN fp_val; hf_e = FP16_EXTRAC_EXP fp_val; hf_m = FP16_EXTRAC_MAN fp_val;
          ret_v =
            (if FP16_IS_INVALID fp_val then 0x7FFFFFFF + s_ret
             else
               let (_, long_int_m, shift_out) = align_exp (\<lambda>_. False) hf_e hf_m 0;
                   m_ret = drop_bit (10 + shift_out) long_int_m AND 0xFFFFFFFF;
                   m_ret = (if IsRoundOne mode long_int_m (shift_out + 10) \<and> m_ret < 0x7FFFFFFF then m_ret + 1 else m_ret);
                   m_ret = (if s_ret = 1 then (NOT m_ret + 1) mod 2 ^ 32 else m_ret);
                   s_ret = (if m_ret = 0 then 0 else s_ret)
               in (push_bit 31 s_ret OR m_ret) mod 2 ^ 32)
      in bits_signed 32 ret_v)"

definition Fp16ToUInt32 :: "TagFp16RoundMode \<Rightarrow> int \<Rightarrow> int" where
  "Fp16ToUInt32 mode fp_val =
     (let s_ret = FP16_EXTRAC_SIGN fp_val; hf_e = FP16_EXTRAC_EXP fp_val; hf_m = FP16_EXTRAC_MAN fp_val in
      if FP16_IS_DENORM fp_val then 0
      else
        let m_ret =
          (if FP16_IS_INVALID fp_val then 0xFFFFFFFF
           else
             let (_, long_int_m, shift_out) = align_exp (\<lambda>_. False) hf_e hf_m 0;
                 m_ret = (drop_bit (10 + shift_out) long_int_m mod 2 ^ 32) AND 0xFFFFFFFF in
             if IsRoundOne mode long_int_m (shift_out + 10) \<and> m_ret \<noteq> 0xFFFFFFFF then m_ret + 1 else m_ret)
        in if s_ret = 1 then 0 else m_ret)"

section \<open>Arithmetic\<close>

definition ManRoundToNearest :: "bool \<Rightarrow> bool \<Rightarrow> bool \<Rightarrow> int \<Rightarrow> nat \<Rightarrow> int" where
  "ManRoundToNearest bit0 bit1 bitLeft man shift =
     drop_bit shift man + (if bit1 \<and> (bitLeft \<or> bit0) then 1 else 0)"

text \<open>The three loops of \<open>Fp16Mul\<close> on the mantissa, the exponent and the bits shifted out.\<close>

function mul_shift_up :: "int \<Rightarrow> int \<Rightarrow> int \<times> int" where
  "mul_shift_up mul_m e_ret =
     (if mul_m < kFp16ManHideBit \<and> e_ret > 1 then mul_shift_up (mul_m * 2 mod 2 ^ 32) (e_ret - 1) else (mul_m, e_ret))"
  by pat_completeness auto
termination by (relation "measure (\<lambda>(_, e). nat e)") auto

function mul_shift_down :: "int \<Rightarrow> int \<Rightarrow> int \<Rightarrow> int \<times> int \<times> int" where
  "mul_shift_down mul_m e_ret m_trunc =
     (if mul_m \<ge> 2 * kFp16ManHideBit \<or> e_ret < 1
      then mul_shift_down (drop_bit 1 mul_m) (e_ret + 1) (drop_bit 1 m_trunc OR (0x80000000 * (mul_m AND 1)))
      else (mul_m, e_ret, m_trunc))"
  by pat_completeness auto
termination
  by (relation "measure (\<lambda>(m, e, _). nat m + nat (1 - e))")
    (auto simp: drop_bit_eq_div kFp16ManHideBit_def)

function mul_renormalize :: "int \<Rightarrow> int \<Rightarrow> int \<times> int" where
  "mul_renormalize mul_m e_ret =
     (if mul_m \<ge> 2 * kFp16ManHideBit \<or> e_ret < 0 then mul_renormalize (drop_bit 1 mul_m) (e_ret + 1) else (mul_m, e_ret))"
  by pat_completeness auto
termination
  by (relation "measure (\<lambda>(m, e). nat m + nat (- e))") (auto simp: drop_bit_eq_div kFp16ManHideBit_def)

definition Fp16Mul :: "TagFp16RoundMode \<Rightarrow> int \<Rightarrow> int \<Rightarrow> int" where
  "Fp16Mul mode v_1 v_2 =
     (let (s_a, e_a, m_a) = ExtractFp16 v_1;
          (s_b, e_b, m_b) = ExtractFp16 v_2;
          e_ret = e_a + e_b - kFp16ExpBias - 10;
          mul_m = m_a * m_b mod 2 ^ 32;
          s_ret = s_a XOR s_b;
          (mul_m, e_ret) = mul_shift_up mul_m e_ret;
          (mul_m, e_ret, m_trunc) = mul_shift_down mul_m e_ret 0;
          b_last_bit = mul_m AND 1 > 0;
          b_trunc_high = (mode = kRoundToNearest \<and> m_trunc AND 0x80000000 > 0);
          b_trunc_left = (mode = kRoundToNearest \<and> m_trunc AND 0x7FFFFFFF > 0);
          mul_m = ManRoundToNearest b_last_bit b_trunc_high b_trunc_left mul_m 0;
          (mul_m, e_ret) = mul_renormalize mul_m e_ret;
          e_ret = (if e_ret = 1 \<and> mul_m < kFp16ManHideBit then 0 else e_ret);
          (e_ret, m_ret) = Fp16Normalize e_ret (mul_m mod 2 ^ 16)
      in FP16_CONSTRUCTOR s_ret e_ret m_ret)"

text \<open>Addition: \<open>RightShift\<close> at 32 bits keeps the top bit.\<close>

fun RightShift :: "int \<Rightarrow> nat \<Rightarrow> int" where
  "RightShift man 0 = man"
| "RightShift man (Suc n) = RightShift ((man AND 0x80000000) OR drop_bit 1 man) n"

definition ReverseMan :: "bool \<Rightarrow> int \<Rightarrow> int" where
  "ReverseMan negative man = (if negative then (NOT man + 1) mod 2 ^ 32 else man)"

definition GetManSum :: "int \<Rightarrow> int \<Rightarrow> int \<Rightarrow> int \<Rightarrow> int" where
  "GetManSum e_a m_a e_b m_b =
     (if e_a \<noteq> e_b then
        let e_tmp = nat \<bar>e_a - e_b\<bar> in
        if e_a > e_b then (m_a + RightShift m_b e_tmp) mod 2 ^ 32 else (RightShift m_a e_tmp + m_b) mod 2 ^ 32
      else (m_a + m_b) mod 2 ^ 32)"

function add_shift_up :: "int \<Rightarrow> int \<Rightarrow> int \<Rightarrow> int \<Rightarrow> int \<times> int \<times> int" where
  "add_shift_up m_min m_ret e_ret m_trunc =
     (if m_ret < m_min \<and> e_ret > 0
      then add_shift_up m_min ((m_ret * 2 + drop_bit 31 (0x80000000 AND m_trunc)) mod 2 ^ 16) (e_ret - 1) (m_trunc * 2 mod 2 ^ 32)
      else (m_ret, e_ret, m_trunc))"
  by pat_completeness auto
termination by (relation "measure (\<lambda>(_, _, e, _). nat e)") auto

partial_function (option) add_shift_down :: "int \<Rightarrow> int \<Rightarrow> int \<Rightarrow> int \<Rightarrow> (int \<times> int \<times> int) option" where
  [code]: "add_shift_down m_max m_ret e_ret m_trunc =
     (if m_ret \<ge> m_max
      then add_shift_down m_max (drop_bit 1 m_ret) (e_ret + 1) (drop_bit 1 m_trunc OR (0x80000000 * (m_ret AND 1)))
      else Some (m_ret, e_ret, m_trunc))"

partial_function (option) add_renormalize :: "int \<Rightarrow> int \<Rightarrow> int \<Rightarrow> (int \<times> int) option" where
  [code]: "add_renormalize m_max m_ret e_ret =
     (if m_ret \<ge> m_max then add_renormalize m_max (drop_bit 1 m_ret) (e_ret + 1) else Some (m_ret, e_ret))"

definition Fp16AddCalVal :: "TagFp16RoundMode \<Rightarrow> int \<Rightarrow> int \<Rightarrow> int \<Rightarrow> int \<Rightarrow> nat \<Rightarrow> int option" where
  "Fp16AddCalVal mode s_ret e_ret m_ret m_trunc shift_out =
     (let m_min = push_bit shift_out kFp16ManHideBit mod 2 ^ 16;
          m_max = m_min * 2 mod 2 ^ 16;
          (m_ret, e_ret, m_trunc) = add_shift_up m_min m_ret e_ret m_trunc in
      case add_shift_down m_max m_ret e_ret m_trunc of
        None \<Rightarrow> None
      | Some (m_ret, e_ret, m_trunc) \<Rightarrow>
          let b_last_bit = m_ret AND 1 > 0;
              b_trunc_high = (mode = kRoundToNearest \<and> m_trunc AND 0x80000000 > 0);
              b_trunc_left = (mode = kRoundToNearest \<and> m_trunc AND 0x7FFFFFFF > 0);
              m_ret = ManRoundToNearest b_last_bit b_trunc_high b_trunc_left m_ret shift_out in
          case add_renormalize m_max m_ret e_ret of
            None \<Rightarrow> None
          | Some (m_ret, e_ret) \<Rightarrow>
              let m_ret = (if e_ret = 0 \<and> m_ret \<le> m_max then drop_bit 1 m_ret else m_ret);
                  (e_ret, m_ret) = Fp16Normalize e_ret m_ret
              in Some (FP16_CONSTRUCTOR s_ret e_ret m_ret))"

definition Fp16Add :: "TagFp16RoundMode \<Rightarrow> int \<Rightarrow> int \<Rightarrow> int option" where
  "Fp16Add mode v_1 v_2 =
     (let (s_a, e_a, m_a) = ExtractFp16 v_1;
          (s_b, e_b, m_b) = ExtractFp16 v_2;
          (sum, s_ret, m_a, m_b) =
            (if s_a \<noteq> s_b then
               let m_a = ReverseMan (s_a > 0) m_a;
                   m_b = ReverseMan (s_b > 0) m_b;
                   sum = GetManSum e_a m_a e_b m_b mod 2 ^ 16;
                   s_ret = drop_bit 15 (sum AND kFp16SignMask)
               in (sum, s_ret, ReverseMan (s_ret > 0) m_a, ReverseMan (s_ret > 0) m_b)
             else (GetManSum e_a m_a e_b m_b mod 2 ^ 16, s_a, m_a, m_b));
          shift_out = (if sum = 0 then 3 else 0);
          m_a = (if sum = 0 then push_bit shift_out m_a mod 2 ^ 32 else m_a);
          m_b = (if sum = 0 then push_bit shift_out m_b mod 2 ^ 32 else m_b);
          e_ret = max e_a e_b;
          e_tmp = nat \<bar>e_a - e_b\<bar>;
          (m_a, m_b, m_trunc) =
            (if e_a > e_b then (m_a, RightShift m_b e_tmp, push_bit (32 - e_tmp) m_b mod 2 ^ 32)
             else if e_a < e_b then (RightShift m_a e_tmp, m_b, push_bit (32 - e_tmp) m_a mod 2 ^ 32)
             else (m_a, m_b, 0))
      in Fp16AddCalVal mode s_ret e_ret ((m_a + m_b) mod 2 ^ 16) m_trunc shift_out)"

definition Fp16Sub :: "TagFp16RoundMode \<Rightarrow> int \<Rightarrow> int \<Rightarrow> int option" where
  "Fp16Sub mode v_1 v_2 = Fp16Add mode v_1 ((NOT v_2 AND kFp16SignMask) OR (v_2 AND kFp16AbsMax))"

section \<open>Comparisons\<close>

definition fp16_eq :: "int \<Rightarrow> int \<Rightarrow> bool" where
  "fp16_eq a b = (if FP16_IS_ZERO a \<and> FP16_IS_ZERO b then True else a AND 0xFFFF = b AND 0xFFFF)"

definition fp16_neq :: "int \<Rightarrow> int \<Rightarrow> bool" where
  "fp16_neq a b = (if FP16_IS_ZERO a \<and> FP16_IS_ZERO b then False else a AND 0xFFFF \<noteq> b AND 0xFFFF)"

definition fp16_gt :: "int \<Rightarrow> int \<Rightarrow> bool" where
  "fp16_gt a b =
     (let s_a = FP16_EXTRAC_SIGN a; s_b = FP16_EXTRAC_SIGN b;
          e_a = FP16_EXTRAC_EXP a; e_b = FP16_EXTRAC_EXP b;
          m_a = FP16_EXTRAC_MAN a; m_b = FP16_EXTRAC_MAN b in
      if s_a = 0 \<and> s_b > 0 then \<not> (FP16_IS_ZERO a \<and> FP16_IS_ZERO b)
      else if s_a = 0 \<and> s_b = 0 then
        if e_a > e_b then True else if e_a = e_b then m_a > m_b else False
      else if s_a > 0 \<and> s_b > 0 then
        if e_a < e_b then True else if e_a = e_b then m_a < m_b else False
      else False)"

definition fp16_ge :: "int \<Rightarrow> int \<Rightarrow> bool" where
  "fp16_ge a b = (if fp16_gt a b then True else if fp16_eq a b then True else False)"

definition fp16_lt :: "int \<Rightarrow> int \<Rightarrow> bool" where
  "fp16_lt a b = (if fp16_ge a b then False else True)"

definition fp16_le :: "int \<Rightarrow> int \<Rightarrow> bool" where
  "fp16_le a b = (if fp16_gt a b then False else True)"

section \<open>Conversions from the other types\<close>

definition fp16_of_float :: "TagFp16RoundMode \<Rightarrow> int \<Rightarrow> int" where
  "fp16_of_float mode ui32_v =
     (let s_ret = drop_bit 31 (ui32_v AND 0x80000000);
          e_f = drop_bit 23 (ui32_v AND 0x7F800000);
          m_f = ui32_v AND 0x007FFFFF;
          (e_ret, m_ret) =
            (if e_f > 0x8F then (kFp16MaxExp - 1, kFp16MaxMan)
             else if e_f \<le> 0x70 then
               (0, if e_f \<ge> 0x67 then
                     let m_tmp = push_bit (nat (e_f - 0x67)) (m_f OR 0x00800000);
                         m_ret = drop_bit 23 m_tmp mod 2 ^ 16
                     in if IsRoundOne mode m_tmp 23 then (m_ret + 1) mod 2 ^ 16 else m_ret
                   else if e_f = 0x66 \<and> m_f > 0 then 1 else 0)
             else
               let m_ret = drop_bit (23 - 10) m_f mod 2 ^ 16;
                   m_ret = (if IsRoundOne mode m_f (23 - 10) then (m_ret + 1) mod 2 ^ 16 else m_ret)
               in (if m_ret AND kFp16ManHideBit \<noteq> 0 then e_f - 0x70 + 1 else e_f - 0x70, m_ret));
          (e_ret, m_ret) = Fp16Normalize e_ret m_ret
      in FP16_CONSTRUCTOR s_ret e_ret m_ret)"

definition fp16_of_double :: "TagFp16RoundMode \<Rightarrow> int \<Rightarrow> int" where
  "fp16_of_double mode ui64_v =
     (let s_ret = drop_bit 63 (ui64_v AND 0x8000000000000000);
          e_d = drop_bit 52 (ui64_v AND 0x7FF0000000000000);
          m_d = ui64_v AND 0x000FFFFFFFFFFFFF;
          (e_ret, m_ret) =
            (if e_d \<ge> 0x410 then (kFp16MaxExp - 1, kFp16MaxMan)
             else if e_d \<le> 0x3F0 then
               (0, if e_d \<ge> 0x3E7 then
                     let m_tmp = push_bit (nat (e_d - 0x3E7)) (0x0010000000000000 OR m_d);
                         m_ret = drop_bit 52 m_tmp mod 2 ^ 16
                     in if IsRoundOne mode m_tmp 52 then (m_ret + 1) mod 2 ^ 16 else m_ret
                   else if e_d = 0x3E6 \<and> m_d > 0 then 1 else 0)
             else
               let m_ret = drop_bit (52 - 10) m_d mod 2 ^ 16;
                   m_ret = (if IsRoundOne mode m_d (52 - 10) then (m_ret + 1) mod 2 ^ 16 else m_ret)
               in (if m_ret AND kFp16ManHideBit \<noteq> 0 then e_d - 0x3F0 + 1 else e_d - 0x3F0, m_ret));
          (e_ret, m_ret) = Fp16Normalize e_ret m_ret
      in FP16_CONSTRUCTOR s_ret e_ret m_ret)"

text \<open>\<open>while ((m_ret & kFp16ManHideBit) == 0) { m_ret = m_ret << 1; e_ret = e_ret - 1; }\<close>\<close>

partial_function (option) raise_man :: "int \<Rightarrow> int \<Rightarrow> (int \<times> int) option" where
  [code]: "raise_man m_ret e_ret =
     (if m_ret AND kFp16ManHideBit = 0 then raise_man (m_ret * 2 mod 2 ^ 16) (e_ret - 1) else Some (m_ret, e_ret))"

definition fp16_of_int8 :: "int \<Rightarrow> int option" where
  "fp16_of_int8 i_val =
     (let s_ret = drop_bit 7 ((i_val mod 2 ^ 8) AND 0x80);
          m_ret = (i_val mod 2 ^ 8) AND 0x7F in
      if m_ret = 0 then Some (FP16_CONSTRUCTOR s_ret 0 m_ret)
      else
        let m_ret = (if s_ret \<noteq> 0 then \<bar>i_val\<bar> mod 2 ^ 16 else m_ret) in
        case raise_man m_ret (int kFp16ManLen) of
          None \<Rightarrow> None
        | Some (m_ret, e_ret) \<Rightarrow> Some (FP16_CONSTRUCTOR s_ret (e_ret + kFp16ExpBias) m_ret))"

definition fp16_of_uint8 :: "int \<Rightarrow> int option" where
  "fp16_of_uint8 ui_val =
     (if ui_val = 0 then Some (FP16_CONSTRUCTOR 0 0 ui_val)
      else case raise_man ui_val (int kFp16ManLen) of
          None \<Rightarrow> None
        | Some (m_ret, e_ret) \<Rightarrow> Some (FP16_CONSTRUCTOR 0 (e_ret + kFp16ExpBias) m_ret))"

function GetManBitLength :: "int \<Rightarrow> nat" where
  "GetManBitLength man = (if man \<le> 0 then 0 else Suc (GetManBitLength (drop_bit 1 man)))"
  by pat_completeness auto
termination by (relation "measure nat") (auto simp: drop_bit_eq_div)

text \<open>The mask loop \<open>for (int i = 1; i < e_tmp; i++) trunc_mask = (trunc_mask << 1) + 1\<close> and the shift loop.\<close>

fun trunc_mask :: "nat \<Rightarrow> int" where
  "trunc_mask 0 = 1"
| "trunc_mask (Suc 0) = 1"
| "trunc_mask (Suc (Suc n)) = (trunc_mask (Suc n) * 2 + 1) mod 2 ^ 32"

fun shift_down_times :: "nat \<Rightarrow> int \<Rightarrow> int \<Rightarrow> int \<times> int" where
  "shift_down_times 0 m e_ret = (m, e_ret)"
| "shift_down_times (Suc n) m e_ret = shift_down_times n (drop_bit 1 m) (e_ret + 1)"

text \<open>
  The common part of the conversions from the 16- and 32-bit integers: \<open>mod 2 ^ w\<close> is the width of the mantissa
  variable.
\<close>

definition round_long_man :: "TagFp16RoundMode \<Rightarrow> int \<Rightarrow> nat \<Rightarrow> int \<times> int" where
  "round_long_man mode m len =
     (let e_tmp = len - 11;
          m_trunc = push_bit (32 - e_tmp) (m AND trunc_mask e_tmp) mod 2 ^ 32;
          (m, e_ret) = shift_down_times e_tmp m (kFp16ExpBias + int kFp16ManLen);
          b_last_bit = m AND 1 > 0;
          b_trunc_high = (mode = kRoundToNearest \<and> m_trunc AND 0x80000000 > 0);
          b_trunc_left = (mode = kRoundToNearest \<and> m_trunc AND 0x7FFFFFFF > 0);
          m = ManRoundToNearest b_last_bit b_trunc_high b_trunc_left m 0
      in mul_renormalize m e_ret)"

definition SetValByUint16Val :: "TagFp16RoundMode \<Rightarrow> int \<Rightarrow> int \<Rightarrow> int \<Rightarrow> int" where
  "SetValByUint16Val mode input_val sign ret_val =
     (let m_tmp = input_val AND 0x7FFFFFFF; len = GetManBitLength m_tmp in
      if m_tmp \<noteq> 0 then
        let (m_tmp, e_ret) =
          (if len > 11 then round_long_man mode m_tmp len
           else (push_bit (11 - len) m_tmp mod 2 ^ 32, kFp16ExpBias + (int len - 1)))
        in FP16_CONSTRUCTOR sign e_ret (m_tmp mod 2 ^ 16)
      else ret_val)"

definition fp16_of_int16 :: "TagFp16RoundMode \<Rightarrow> int \<Rightarrow> int \<Rightarrow> int" where
  "fp16_of_int16 mode val i_val =
     (if i_val = 0 then 0
      else
        let ui_val = i_val mod 2 ^ 16; s_ret = drop_bit 15 ui_val;
            ui_val = (if s_ret \<noteq> 0 then bits_signed 16 (- i_val) mod 2 ^ 16 else ui_val)
        in SetValByUint16Val mode ui_val s_ret val)"

definition fp16_of_uint16 :: "TagFp16RoundMode \<Rightarrow> int \<Rightarrow> int" where
  "fp16_of_uint16 mode ui_val =
     (if ui_val = 0 then 0
      else
        let len = GetManBitLength ui_val;
            (m_ret, e_ret) =
              (if len > 11 then round_long_man mode ui_val len
               else (push_bit (11 - len) ui_val mod 2 ^ 16, kFp16ExpBias + (int len - 1)))
        in FP16_CONSTRUCTOR 0 e_ret m_ret)"

definition SetValByUint32Val :: "TagFp16RoundMode \<Rightarrow> int \<Rightarrow> int \<Rightarrow> int" where
  "SetValByUint32Val mode input_val sign =
     (let m_tmp = input_val AND 0x7FFFFFFF; len = GetManBitLength m_tmp;
          (m_tmp, e_ret) =
            (if len > 11 then
               let (m_tmp, e_ret) = round_long_man mode m_tmp len in
               if e_ret \<ge> kFp16MaxExp then (kFp16MaxMan, kFp16MaxExp - 1) else (m_tmp, e_ret)
             else (push_bit (11 - len) m_tmp mod 2 ^ 32, kFp16ExpBias + (int len - 1)))
      in FP16_CONSTRUCTOR sign (e_ret mod 2 ^ 16) (m_tmp mod 2 ^ 16))"

text \<open>Negating the smallest \<open>int32_t\<close> overflows, a \<open>Fault\<close>.\<close>

definition fp16_of_int32 :: "TagFp16RoundMode \<Rightarrow> int \<Rightarrow> int res" where
  "fp16_of_int32 mode i_val =
     (if i_val = 0 then Inr 0
      else
        let ui_val = i_val mod 2 ^ 32; s_ret = drop_bit 31 ui_val in
        if s_ret \<noteq> 0 then
          if i_val = - (2 ^ 31) then Inl Fault
          else Inr (SetValByUint32Val mode ((- i_val) mod 2 ^ 32) s_ret)
        else Inr (SetValByUint32Val mode ui_val s_ret))"

definition fp16_of_uint32 :: "TagFp16RoundMode \<Rightarrow> int \<Rightarrow> int" where
  "fp16_of_uint32 mode ui_val =
     (if ui_val = 0 then 0
      else
        let len = GetManBitLength ui_val;
            (m_tmp, e_ret) =
              (if len > 11 then
                 let (m_tmp, e_ret) = round_long_man mode ui_val len in
                 if e_ret \<ge> kFp16MaxExp then (kFp16MaxMan, kFp16MaxExp - 1) else (m_tmp, e_ret)
               else (push_bit (11 - len) ui_val mod 2 ^ 32, kFp16ExpBias + (int len - 1)))
        in FP16_CONSTRUCTOR 0 e_ret (m_tmp mod 2 ^ 16))"

definition IsInf :: "int \<Rightarrow> int" where
  "IsInf val =
     (if val AND kFp16AbsMax = kFp16ExpMask then if val AND kFp16SignMask \<noteq> 0 then - 1 else 1 else 0)"

end
