(* ===== verification/Fp16_Correct.thy ===== *)
theory Fp16_Correct
  imports Fp16
begin

text \<open>
  Correctness of \<open>fp16_t\<close>. The value of a half-precision pattern is an integer in units of \<open>2 ^ -24\<close>, the smallest
  positive subnormal; patterns with the exponent field 31 are infinities and NaNs. \<open>rne_div n k\<close> is \<open>n / 2 ^ k\<close>
  rounded to the nearest integer, ties to even, and \<open>round16 k n\<close> rounds the number \<open>n\<close> in units of
  \<open>2 ^ - (24 + k)\<close> to the nearest half-precision magnitude.
\<close>

section \<open>Bit operations as arithmetic\<close>

lemma and_mask_int: "(x :: int) AND (2 ^ n - 1) = x mod 2 ^ n"
  by (simp add: take_bit_eq_mod [symmetric] take_bit_eq_mask mask_eq_exp_minus_1)

lemma and_mask_eq: "m = 2 ^ n - 1 \<Longrightarrow> 2 ^ n = p \<Longrightarrow> (x :: int) AND m = x mod p"
  using and_mask_int [of x n] by simp

lemma and_masks [simp]:
  "(x :: int) AND 31 = x mod 32"
  "(x :: int) AND 127 = x mod 128"
  "(x :: int) AND 255 = x mod 256"
  "(x :: int) AND 1023 = x mod 1024"
  "(x :: int) AND 32767 = x mod 32768"
  "(x :: int) AND 65535 = x mod 65536"
  "(x :: int) AND 8388607 = x mod 8388608"
  "(x :: int) AND 2147483647 = x mod 2147483648"
  "(x :: int) AND 4294967295 = x mod 4294967296"
  "(x :: int) AND 4503599627370495 = x mod 4503599627370496"
  by (rule and_mask_eq [where n = 5], simp, simp, rule and_mask_eq [where n = 7], simp, simp, rule and_mask_eq [where n = 8], simp, simp, rule and_mask_eq [where n = 10], simp, simp, rule and_mask_eq [where n = 15], simp, simp, rule and_mask_eq [where n = 16], simp, simp, rule and_mask_eq [where n = 23], simp, simp, rule and_mask_eq [where n = 31], simp, simp, rule and_mask_eq [where n = 32], simp, simp, rule and_mask_eq [where n = 52], simp, simp)

lemma and_push_bit: "(x :: int) AND push_bit n m = push_bit n (drop_bit n x AND m)"
  by (rule bit_eqI) (auto simp: bit_simps)

lemma drop_and: "drop_bit i (v AND push_bit i x) = v div 2 ^ i AND (x :: int)"
  unfolding and_push_bit unfolding drop_bit_eq_div push_bit_eq_mult by simp

lemma or_disjoint: "0 \<le> a \<Longrightarrow> a < 2 ^ n \<Longrightarrow> push_bit n b OR a = b * 2 ^ n + (a :: int)"
proof -
  assume a: "0 \<le> a" "a < 2 ^ n"
  then have "take_bit n a = a"
    by (simp add: take_bit_int_eq_self)
  then have "\<not> bit (push_bit n b) k \<or> \<not> bit a k" for k
    by (metis bit_push_bit_iff_int bit_take_bit_iff not_le)
  then show ?thesis
    by (simp add: disjunctive_add [symmetric] push_bit_eq_mult)
qed

lemma and_exp_pos: "0 \<le> x \<Longrightarrow> (x AND 2 ^ n > 0) = odd (x div 2 ^ n)" for x :: int
  by (simp add: order_less_le and_exp_eq_0_iff_not_bit bit_iff_odd eq_commute [of 0])

section \<open>Values and rounding\<close>

definition round_up :: "int \<Rightarrow> nat \<Rightarrow> bool" where
  "round_up n k \<longleftrightarrow> 2 * (n mod 2 ^ k) > 2 ^ k \<or> 2 * (n mod 2 ^ k) = 2 ^ k \<and> odd (n div 2 ^ k)"

definition rne_div :: "int \<Rightarrow> nat \<Rightarrow> int" where
  "rne_div n k = n div 2 ^ k + (if round_up n k then 1 else 0)"

lemma rne_div_scale: "rne_div (n * 2 ^ j) (k + j) = rne_div n k"
proof -
  have "n * 2 ^ j div 2 ^ (k + j) = n div 2 ^ k"
    unfolding power_add by (rule div_mult_mult2) simp
  moreover have r: "n * 2 ^ j mod 2 ^ (k + j) = (n mod 2 ^ k) * 2 ^ j"
    unfolding power_add by (rule mod_mult_mult2)
  moreover have "(2 * (n mod 2 ^ k * 2 ^ j) > 2 ^ (k + j)) = (2 * (n mod 2 ^ k) > 2 ^ k)"
    using mult_less_cancel_right_pos [of "2 ^ j" "2 ^ k" "2 * (n mod 2 ^ k)"] by (simp only: power_add mult.assoc) simp
  moreover have "(2 * (n mod 2 ^ k * 2 ^ j) = 2 ^ (k + j)) = (2 * (n mod 2 ^ k) = 2 ^ k)"
    using mult_cancel_right [of "2 * (n mod 2 ^ k)" "2 ^ j" "2 ^ k"] by (simp only: power_add mult.assoc) simp
  ultimately show ?thesis
    unfolding rne_div_def round_up_def by (simp only:)
qed

lemma rne_div_0 [simp]: "rne_div n 0 = n"
  by (simp add: rne_div_def round_up_def)

text \<open>The result is a nearest integer.\<close>

lemma rne_div_nearest: "2 * \<bar>rne_div n k * 2 ^ k - n\<bar> \<le> 2 ^ k"
proof -
  define q r where "q = n div 2 ^ k" and "r = n mod 2 ^ k"
  have n: "n = q * 2 ^ k + r" and r: "0 \<le> r" "r < 2 ^ k"
    using div_mult_mod_eq [of n "2 ^ k"] by (simp_all add: q_def r_def)
  have "(q + 1) * 2 ^ k - n = 2 ^ k - r" "q * 2 ^ k - n = - r"
    unfolding n by (simp_all add: algebra_simps)
  with r show ?thesis
    unfolding rne_div_def round_up_def q_def [symmetric] r_def [symmetric] by auto
qed

lemma rne_div_small:
  assumes "0 \<le> n" and "2 * n < 2 ^ k"
  shows "rne_div n k = 0"
proof -
  have "n div 2 ^ k = 0" "n mod 2 ^ k = n"
    using assms by (auto intro!: div_pos_pos_trivial mod_pos_pos_trivial)
  with assms show ?thesis
    by (simp add: rne_div_def round_up_def)
qed

lemma IsRoundOne_round_up:
  assumes "2 \<le> k" and "0 \<le> n"
  shows "IsRoundOne kRoundToNearest n k = round_up n k"
proof -
  obtain j where k: "k = j + 2"
    using assms(1) by (metis add.commute le_Suc_ex)
  define q r where "q = n div 2 ^ (j + 1)" and "r = n mod 2 ^ (j + 1)"
  have masks: "push_bit j (4 :: int) = 2 ^ (j + 2)" "push_bit j (2 :: int) = 2 ^ (j + 1)"
    by (simp_all add: push_bit_eq_mult)
  have bits: "(n AND 2 ^ (j + 2) > 0) = odd (n div 2 ^ k)" "(n AND 2 ^ (j + 1) > 0) = odd q"
    "n AND (2 ^ (j + 1) - 1) = r"
    using and_exp_pos [OF assms(2), of "j + 2"] and_exp_pos [OF assms(2), of "j + 1"] and_mask_int [of n "j + 1"]
    by (simp_all only: k q_def r_def)
  have r: "0 \<le> r" "r < 2 ^ (j + 1)"
    by (simp_all add: r_def)
  have rem: "n mod 2 ^ k = 2 ^ (j + 1) * (q mod 2) + r"
    using zmod_zmult2_eq [of 2 n "2 ^ (j + 1)"] by (simp add: k q_def r_def mult.commute)
  have two: "(2 :: int) ^ k = 2 * 2 ^ (j + 1)"
    by (simp add: k)
  have "round_up n k = (odd q \<and> (r > 0 \<or> odd (n div 2 ^ k)))"
    unfolding round_up_def rem using r two by (cases "odd q") (auto simp: mod_2_eq_odd)
  then show ?thesis
    using bits by (simp add: IsRoundOne_def k masks Let_def del: power_Suc)
qed

section \<open>Fields\<close>

definition is16 :: "int \<Rightarrow> bool" where "is16 v \<longleftrightarrow> 0 \<le> v \<and> v < 2 ^ 16"
definition sgn16 :: "int \<Rightarrow> int" where "sgn16 v = v div 2 ^ 15"
definition exp16 :: "int \<Rightarrow> int" where "exp16 v = v div 2 ^ 10 mod 32"
definition man16 :: "int \<Rightarrow> int" where "man16 v = v mod 2 ^ 10 + (if exp16 v > 0 then 2 ^ 10 else 0)"
definition mag16 :: "int \<Rightarrow> int" where "mag16 v = man16 v * 2 ^ (nat (exp16 v) - 1)"
definition value16 :: "int \<Rightarrow> int" where "value16 v = (if sgn16 v = 0 then mag16 v else - mag16 v)"
definition finite16 :: "int \<Rightarrow> bool" where "finite16 v \<longleftrightarrow> is16 v \<and> exp16 v < 31"

lemmas fp16_consts = kFp16ExpBias_def kFp16ManLen_def kFp16SignMask_def kFp16ExpMask_def kFp16ManMask_def
  kFp16ManHideBit_def kFp16AbsMax_def kFp16MaxExp_def kFp16MaxMan_def

lemma sgn16_cases: "is16 v \<Longrightarrow> sgn16 v = 0 \<or> sgn16 v = 1"
  by (auto simp: is16_def sgn16_def)

lemma exp16_bounds: "0 \<le> exp16 v" "exp16 v \<le> 31"
proof -
  have "0 \<le> v div 2 ^ 10 mod 32" "v div 2 ^ 10 mod 32 < 32"
    by (rule pos_mod_sign, simp) (rule pos_mod_bound, simp)
  then show "0 \<le> exp16 v" "exp16 v \<le> 31"
    by (simp_all only: exp16_def)
qed

lemma man16_bounds: "0 \<le> man16 v" "man16 v < 2 ^ 11" "0 < exp16 v \<Longrightarrow> 2 ^ 10 \<le> man16 v" "exp16 v = 0 \<Longrightarrow> man16 v < 2 ^ 10"
proof -
  have "0 \<le> v mod 2 ^ 10" "v mod 2 ^ 10 < 2 ^ 10"
    by (rule pos_mod_sign, simp) (rule pos_mod_bound, simp)
  then show "0 \<le> man16 v" "man16 v < 2 ^ 11" "0 < exp16 v \<Longrightarrow> 2 ^ 10 \<le> man16 v" "exp16 v = 0 \<Longrightarrow> man16 v < 2 ^ 10"
    unfolding man16_def by auto
qed

lemma extract_fields:
  assumes "is16 v"
  shows "FP16_EXTRAC_SIGN v = sgn16 v" and "FP16_EXTRAC_EXP v = exp16 v" and "FP16_EXTRAC_MAN v = man16 v"
proof -
  have "drop_bit 15 v AND 1 = sgn16 v mod 2"
    by (simp add: drop_bit_eq_div sgn16_def and_one_eq)
  then show "FP16_EXTRAC_SIGN v = sgn16 v"
    using sgn16_cases [OF assms] by (auto simp: FP16_EXTRAC_SIGN_def)
  show "FP16_EXTRAC_EXP v = exp16 v"
    by (simp add: FP16_EXTRAC_EXP_def exp16_def fp16_consts drop_bit_eq_div)
  have "(v mod 1024) OR (c * 1024) = v mod 1024 + c * 1024" for c
    using or_disjoint [of "v mod 1024" 10 c] by (simp add: push_bit_eq_mult or.commute add.commute)
  from this [of 0] this [of 1] show "FP16_EXTRAC_MAN v = man16 v"
    by (simp add: FP16_EXTRAC_MAN_def man16_def exp16_def drop_bit_eq_div)
qed

lemma ExtractFp16_eq:
  assumes "is16 v"
  shows "ExtractFp16 v = (sgn16 v, max 1 (exp16 v), man16 v)"
  using exp16_bounds [of v] by (auto simp: ExtractFp16_def extract_fields [OF assms] Let_def)

lemma mag16_max: "mag16 v = man16 v * 2 ^ nat (max 1 (exp16 v) - 1)"
  using exp16_bounds(1) [of v] by (cases "exp16 v = 0") (auto simp: mag16_def max_def nat_diff_distrib')

lemma FP16_CONSTRUCTOR_eq:
  assumes "s = 0 \<or> s = 1" and "0 \<le> e" and "e \<le> 31"
  shows "FP16_CONSTRUCTOR s e m = s * 2 ^ 15 + e * 2 ^ 10 + m mod 2 ^ 10"
proof -
  have "push_bit 15 s OR push_bit 10 e = push_bit 10 (push_bit 5 s OR e)"
    by (simp add: push_bit_or)
  also have "push_bit 5 s OR e = s * 2 ^ 5 + e"
    using assms by (intro or_disjoint) auto
  finally have "(push_bit 15 s OR push_bit 10 e) OR (m mod 1024) = (s * 2 ^ 5 + e) * 2 ^ 10 + m mod 1024"
    using or_disjoint [of "m mod 1024" 10 "s * 2 ^ 5 + e"] by simp
  moreover have "0 \<le> m mod 1024" "m mod 1024 < 1024"
    by simp_all
  then have "0 \<le> (s * 2 ^ 5 + e) * 2 ^ 10 + m mod 1024" "(s * 2 ^ 5 + e) * 2 ^ 10 + m mod 1024 < 2 ^ 16"
    using assms by auto
  ultimately show ?thesis
    by (simp add: FP16_CONSTRUCTOR_def fp16_consts)
qed

lemma fields_of_sum:
  assumes "s = 0 \<or> s = 1" and "0 \<le> e" and "e \<le> 31" and "0 \<le> f" and "f < 2 ^ 10"
  shows "is16 (s * 2 ^ 15 + e * 2 ^ 10 + f)" and "sgn16 (s * 2 ^ 15 + e * 2 ^ 10 + f) = s"
    and "exp16 (s * 2 ^ 15 + e * 2 ^ 10 + f) = e" and "(s * 2 ^ 15 + e * 2 ^ 10 + f) mod 2 ^ 10 = f"
proof -
  show "is16 (s * 2 ^ 15 + e * 2 ^ 10 + f)"
    using assms by (auto simp: is16_def)
  show "sgn16 (s * 2 ^ 15 + e * 2 ^ 10 + f) = s"
    unfolding sgn16_def using assms by (intro int_div_pos_eq [where r = "e * 2 ^ 10 + f"]) auto
  have "(s * 2 ^ 15 + e * 2 ^ 10 + f) div 2 ^ 10 = s * 32 + e"
    using assms by (intro int_div_pos_eq [where r = f]) auto
  then show "exp16 (s * 2 ^ 15 + e * 2 ^ 10 + f) = e"
    using assms by (simp add: exp16_def)
  show "(s * 2 ^ 15 + e * 2 ^ 10 + f) mod 2 ^ 10 = f"
    using assms by (intro int_mod_pos_eq [where q = "s * 32 + e"]) auto
qed

text \<open>A pattern is determined by its fields, and the magnitude grows with the low 15 bits.\<close>

lemma pattern_split: "v = sgn16 v * 2 ^ 15 + exp16 v * 2 ^ 10 + v mod 2 ^ 10"
proof -
  define a b c d where "a = v div 2 ^ 10" and "b = v mod 2 ^ 10" and "c = a div 32" and "d = a mod 32"
  have "v = a * 2 ^ 10 + b" and "a = c * 32 + d"
    using div_mult_mod_eq [of v "2 ^ 10"] div_mult_mod_eq [of a 32] by (simp_all add: a_def b_def c_def d_def)
  moreover have "sgn16 v = c"
    using zdiv_zmult2_eq [of 32 v "2 ^ 10"] by (simp add: sgn16_def a_def c_def)
  moreover have "exp16 v = d"
    by (simp add: exp16_def a_def d_def)
  ultimately show ?thesis
    unfolding b_def [symmetric] by simp
qed

lemma mag16_Suc:
  assumes "0 \<le> t" and "t < 2 ^ 15 - 1"
  shows "mag16 t < mag16 (t + 1)"
proof -
  define e f where "e = t div 2 ^ 10" and "f = t mod 2 ^ 10"
  have ef: "t = e * 2 ^ 10 + f" "0 \<le> f" "f < 2 ^ 10" "0 \<le> e" "e < 32"
    using assms by (auto simp: e_def f_def)
  have t: "exp16 t = e" "t mod 2 ^ 10 = f"
    using fields_of_sum(3,4) [of 0 e f] ef by auto
  show ?thesis
  proof (cases "f < 2 ^ 10 - 1")
    case True
    have "exp16 (t + 1) = e" "(t + 1) mod 2 ^ 10 = f + 1"
      using fields_of_sum(3,4) [of 0 e "f + 1"] ef True by (auto simp: add.assoc)
    with t show ?thesis
      by (auto simp: mag16_def man16_def)
  next
    case False
    then have f: "f = 2 ^ 10 - 1" and e: "e < 31"
      using ef assms by auto
    then have "exp16 (t + 1) = e + 1" "(t + 1) mod 2 ^ 10 = 0"
      using fields_of_sum(3,4) [of 0 "e + 1" 0] ef by (auto simp: algebra_simps)
    moreover have "nat (e + 1) - 1 = nat e"
      using ef by simp
    moreover have "(2 :: int) ^ nat e = (if e = 0 then 1 else 2 * 2 ^ (nat e - 1))"
      using ef(4) by (cases "nat e") auto
    ultimately show ?thesis
      using t f ef(4) by (auto simp: mag16_def man16_def)
  qed
qed

lemma mag16_mono:
  assumes "0 \<le> t" and "t < u" and "u < 2 ^ 15"
  shows "mag16 t < mag16 u"
  using assms(2,3)
proof (induction u rule: int_gr_induct [where k = t])
  case base
  then show ?case using mag16_Suc [of t] assms(1) by simp
next
  case (step u)
  then show ?case using mag16_Suc [of u] assms(1) by simp
qed

lemma low_bits:
  assumes "is16 v"
  shows "v mod 2 ^ 15 = exp16 v * 2 ^ 10 + v mod 2 ^ 10" and "mag16 (v mod 2 ^ 15) = mag16 v"
    and "0 \<le> v mod 2 ^ 15" and "v mod 2 ^ 15 < 2 ^ 15"
proof -
  define f where "f = v mod 2 ^ 10"
  have f: "0 \<le> f" "f < 2 ^ 10"
    by (simp_all add: f_def)
  have e: "0 \<le> exp16 v" "exp16 v \<le> 31"
    by (rule exp16_bounds)+
  have v: "v = 2 ^ 15 * sgn16 v + (exp16 v * 2 ^ 10 + f)"
    using pattern_split [of v] by (simp add: f_def algebra_simps)
  then have low: "v mod 2 ^ 15 = exp16 v * 2 ^ 10 + f"
    using f e by (intro int_mod_pos_eq [where q = "sgn16 v"]) auto
  then show "v mod 2 ^ 15 = exp16 v * 2 ^ 10 + v mod 2 ^ 10" and "0 \<le> v mod 2 ^ 15" and "v mod 2 ^ 15 < 2 ^ 15"
    using f e by (auto simp: f_def)
  show "mag16 (v mod 2 ^ 15) = mag16 v"
    using fields_of_sum(3,4) [of 0 "exp16 v" f] f e unfolding low by (simp add: mag16_def man16_def f_def)
qed

lemma mag16_less_iff:
  assumes "is16 a" and "is16 b"
  shows "mag16 a < mag16 b \<longleftrightarrow> a mod 2 ^ 15 < b mod 2 ^ 15"
proof -
  have "t < u \<Longrightarrow> 0 \<le> t \<Longrightarrow> u < 2 ^ 15 \<Longrightarrow> mag16 t < mag16 u" for t u
    by (rule mag16_mono)
  then show ?thesis
    using low_bits [OF assms(1)] low_bits [OF assms(2)] by (metis linorder_less_linear order_less_asym)
qed

lemma mag16_eq_iff:
  assumes "is16 a" and "is16 b"
  shows "mag16 a = mag16 b \<longleftrightarrow> a mod 2 ^ 15 = b mod 2 ^ 15"
  using mag16_less_iff [OF assms] mag16_less_iff [OF assms(2,1)] by (metis linorder_less_linear order_less_irrefl)

lemma mag16_nonneg: "0 \<le> mag16 v"
  using man16_bounds(1) [of v] by (simp add: mag16_def)

lemma mag16_zero_iff: "is16 v \<Longrightarrow> mag16 v = 0 \<longleftrightarrow> v mod 2 ^ 15 = 0"
  using mag16_eq_iff [of v 0] by (simp add: is16_def mag16_def man16_def exp16_def)

lemma FP16_IS_ZERO_iff: "is16 v \<Longrightarrow> FP16_IS_ZERO v \<longleftrightarrow> mag16 v = 0"
  by (simp add: FP16_IS_ZERO_def fp16_consts mag16_zero_iff)

lemma sign_split: "is16 v \<Longrightarrow> v = sgn16 v * 2 ^ 15 + v mod 2 ^ 15"
  using div_mult_mod_eq [of v "2 ^ 15"] by (simp add: sgn16_def)

section \<open>Comparisons\<close>

lemma field_order:
  assumes "is16 a" and "is16 b"
  shows "(exp16 a < exp16 b \<or> exp16 a = exp16 b \<and> man16 a < man16 b) \<longleftrightarrow> mag16 a < mag16 b"
proof -
  define f g where "f = a mod 2 ^ 10" and "g = b mod 2 ^ 10"
  have "0 \<le> f" "f < 2 ^ 10" "0 \<le> g" "g < 2 ^ 10"
    by (simp_all add: f_def g_def)
  moreover have "exp16 a = exp16 b \<Longrightarrow> (man16 a < man16 b) = (f < g)"
    by (simp add: man16_def f_def g_def)
  ultimately show ?thesis
    unfolding mag16_less_iff [OF assms] low_bits(1) [OF assms(1)] low_bits(1) [OF assms(2)]
      f_def [symmetric] g_def [symmetric] by auto
qed

lemma fp16_gt_iff:
  assumes "is16 a" and "is16 b"
  shows "fp16_gt a b \<longleftrightarrow> value16 a > value16 b"
proof -
  have lex: "(if e > e' then True else if e = e' then m > m' else False) = (e' < e \<or> e' = e \<and> m' < m)"
    "(if e < e' then True else if e = e' then m < m' else False) = (e < e' \<or> e = e' \<and> m < m')" for e e' m m' :: int
    by auto
  have gt: "fp16_gt a b =
      (if sgn16 a = 0 \<and> sgn16 b > 0 then \<not> (mag16 a = 0 \<and> mag16 b = 0)
       else if sgn16 a = 0 \<and> sgn16 b = 0 then mag16 a > mag16 b
       else if sgn16 a > 0 \<and> sgn16 b > 0 then mag16 a < mag16 b else False)"
    unfolding fp16_gt_def Let_def extract_fields [OF assms(1)] extract_fields [OF assms(2)]
      FP16_IS_ZERO_iff [OF assms(1)] FP16_IS_ZERO_iff [OF assms(2)] lex
    by (simp only: field_order [OF assms] field_order [OF assms(2,1)])
  show ?thesis
    using sgn16_cases [OF assms(1)] sgn16_cases [OF assms(2)] mag16_nonneg [of a] mag16_nonneg [of b]
    unfolding gt value16_def by auto
qed

lemma fp16_eq_iff:
  assumes "is16 a" and "is16 b"
  shows "fp16_eq a b \<longleftrightarrow> value16 a = value16 b"
proof -
  have "fp16_eq a b \<longleftrightarrow> mag16 a = 0 \<and> mag16 b = 0 \<or> a = b"
    using assms by (auto simp: fp16_eq_def FP16_IS_ZERO_iff is16_def)
  moreover have "a = b \<longleftrightarrow> sgn16 a = sgn16 b \<and> mag16 a = mag16 b"
    using sign_split [OF assms(1)] sign_split [OF assms(2)] mag16_eq_iff [OF assms] by metis
  ultimately show ?thesis
    using sgn16_cases [OF assms(1)] sgn16_cases [OF assms(2)] mag16_nonneg [of a] mag16_nonneg [of b]
    by (auto simp: value16_def)
qed

end
