(* ===== verification/Fp16_Ints.thy ===== *)
theory Fp16_Ints
  imports Fp16_Correct
begin

text \<open>Conversion of half-precision values to the integer types: rounding to nearest even, then saturation.\<close>

section \<open>The alignment loop\<close>

declare align_exp.simps [simp del]

lemma align_exp_down:
  assumes "e \<le> 15"
  shows "align_exp over e m so = (False, m, so + nat (15 - e))"
  using assms
proof (induction "nat (15 - e)" arbitrary: e so)
  case 0
  then show ?case by (simp add: align_exp.simps kFp16ExpBias_def)
next
  case (Suc k)
  then have "align_exp over (e + 1) m (so + 1) = (False, m, so + 1 + nat (15 - (e + 1)))"
    by (intro Suc.hyps(1)) auto
  moreover have "so + 1 + nat (15 - (e + 1)) = so + nat (15 - e)"
    using Suc.hyps(2) by simp
  moreover have "e < 15"
    using Suc.hyps(2) by simp
  ultimately show ?case
    by (subst align_exp.simps) (simp add: kFp16ExpBias_def)
qed

lemma align_exp_up:
  assumes "15 \<le> e" and "0 \<le> m" and "m * 2 ^ nat (e - 15) < 2 ^ 64" and mono: "\<And>a b. over a \<Longrightarrow> a \<le> b \<Longrightarrow> over b"
  shows "if e > 15 \<and> over (m * 2 ^ nat (e - 15)) then fst (align_exp over e m so)
    else align_exp over e m so = (False, m * 2 ^ nat (e - 15), so)"
  using assms(1-3)
proof (induction "nat (e - 15)" arbitrary: e m)
  case 0
  then show ?case by (simp add: align_exp.simps kFp16ExpBias_def)
next
  case (Suc k)
  then have e: "15 < e" "nat (e - 15) = Suc k" "nat (e - 1 - 15) = k"
    by auto
  have pow: "m * 2 ^ nat (e - 15) = (m * 2) * 2 ^ k"
    by (simp add: e)
  have ge: "m * 2 \<le> (m * 2) * 2 ^ k"
    using Suc.prems(2) by (simp add: mult_le_cancel_left1)
  have small: "m * 2 mod 2 ^ 64 = m * 2"
    using Suc.prems(2,3) ge unfolding pow by (intro mod_pos_pos_trivial) linarith+
  have step: "align_exp over e m so = (if over (m * 2) then (True, m * 2, so) else align_exp over (e - 1) (m * 2) so)"
    using e(1) small by (subst align_exp.simps) (simp add: kFp16ExpBias_def Let_def)
  show ?case
  proof (cases "over (m * 2)")
    case True
    then have "over (m * 2 ^ nat (e - 15))"
      unfolding pow using ge by (rule mono)
    with True e(1) show ?thesis
      by (simp add: step)
  next
    case False
    define t where "t = (m * 2) * 2 ^ k"
    have "if e - 1 > 15 \<and> over t then fst (align_exp over (e - 1) (m * 2) so)
      else align_exp over (e - 1) (m * 2) so = (False, t, so)"
      using Suc.hyps(1) [of "e - 1" "m * 2"] Suc.prems e unfolding t_def pow by auto
    moreover have "e - 1 = 15 \<Longrightarrow> \<not> over t"
      using False e by (auto simp: t_def)
    ultimately show ?thesis
      using False e unfolding step pow t_def [symmetric] by (auto split: if_splits)
  qed
qed

text \<open>What the loop leaves: the aligned mantissa rounds like the value itself.\<close>

definition aligned :: "int \<Rightarrow> int \<times> nat" where
  "aligned v = (if exp16 v \<ge> 15 then (man16 v * 2 ^ nat (exp16 v - 15), 0) else (man16 v, nat (15 - exp16 v)))"

definition rounded :: "int \<Rightarrow> int" where
  "rounded v = rne_div (mag16 v) 24"

lemma aligned_rounds: "rne_div (fst (aligned v)) (10 + snd (aligned v)) = rounded v"
proof -
  note e = exp16_bounds [of v] and m = man16_bounds [of v]
  consider (up) "15 \<le> exp16 v" | (down) "1 \<le> exp16 v" "exp16 v < 15" | (sub) "exp16 v = 0"
    using e by linarith
  then show ?thesis
  proof cases
    case up
    then have "nat (exp16 v) - 1 = nat (exp16 v - 15) + 14"
      by simp
    then have "mag16 v = man16 v * 2 ^ nat (exp16 v - 15) * 2 ^ 14"
      by (simp add: mag16_def power_add)
    then show ?thesis
      using up rne_div_scale [of "man16 v * 2 ^ nat (exp16 v - 15)" 14 10] by (simp add: aligned_def rounded_def)
  next
    case down
    then have "10 + nat (15 - exp16 v) + (nat (exp16 v) - 1) = 24"
      by simp
    then show ?thesis
      using down rne_div_scale [of "man16 v" "nat (exp16 v) - 1" "10 + nat (15 - exp16 v)"]
      by (simp add: aligned_def rounded_def mag16_def)
  next
    case sub
    then have "rne_div (man16 v) 25 = 0" "rne_div (man16 v) 24 = 0"
      using m by (auto intro!: rne_div_small)
    with sub show ?thesis
      by (simp add: aligned_def rounded_def mag16_def)
  qed
qed

lemma aligned_bounds:
  assumes "exp16 v \<le> 30"
  shows "0 \<le> fst (aligned v)" and "fst (aligned v) < 2 ^ 26" and "exp16 v < 16 \<Longrightarrow> fst (aligned v) < 2 ^ 11"
proof -
  note m = man16_bounds [of v]
  have "man16 v * 2 ^ nat (exp16 v - 15) \<le> 2047 * 2 ^ 15" if "15 \<le> exp16 v"
    using m that assms by (intro mult_mono power_increasing) auto
  then show "0 \<le> fst (aligned v)" and "fst (aligned v) < 2 ^ 26" and "exp16 v < 16 \<Longrightarrow> fst (aligned v) < 2 ^ 11"
    using m by (auto simp: aligned_def)
qed

lemma align_exp_aligned:
  assumes "exp16 v \<le> 30" and mono: "\<And>a b. over a \<Longrightarrow> a \<le> b \<Longrightarrow> over b"
  shows "if exp16 v > 15 \<and> over (fst (aligned v)) then fst (align_exp over (exp16 v) (man16 v) 0)
    else align_exp over (exp16 v) (man16 v) 0 = (False, aligned v)"
proof (cases "15 \<le> exp16 v")
  case True
  have "man16 v * 2 ^ nat (exp16 v - 15) < 2 ^ 64"
    using aligned_bounds(2) [OF assms(1)] True by (simp add: aligned_def)
  from align_exp_up [OF True man16_bounds(1) this, of over 0] mono True show ?thesis
    by (simp add: aligned_def)
next
  case False
  then show ?thesis
    by (simp add: align_exp_down aligned_def)
qed

section \<open>Assembly of the result\<close>

lemma or_top_bit: "2 ^ n \<le> x \<Longrightarrow> x < 2 ^ Suc n \<Longrightarrow> 2 ^ n OR x = (x :: int)"
proof -
  assume x: "2 ^ n \<le> x" "x < 2 ^ Suc n"
  then have "2 ^ n OR (x - 2 ^ n) = x"
    using or_disjoint [of "x - 2 ^ n" n 1] by simp
  then show ?thesis
    by (metis or.left_idem)
qed

definition sign_bits :: "nat \<Rightarrow> int \<Rightarrow> int \<Rightarrow> int" where
  "sign_bits n s r =
     (let m = (if s \<noteq> 0 then (NOT r + 1) mod 2 ^ Suc n else r); s = (if m = 0 then 0 else s)
      in (push_bit n s OR m) mod 2 ^ Suc n)"

lemma sign_bits_unfold:
  "sign_bits 31 s r = (let m = (if s \<noteq> 0 then (NOT r + 1) mod 2 ^ 32 else r); s = (if m = 0 then 0 else s) in (push_bit 31 s OR m) mod 2 ^ 32)"
  "sign_bits 15 s r = (let m = (if s \<noteq> 0 then (NOT r + 1) mod 2 ^ 16 else r); s = (if m = 0 then 0 else s) in (push_bit 15 s OR m) mod 2 ^ 16)"
  "sign_bits 7 s r = (let m = (if s \<noteq> 0 then (NOT r + 1) mod 2 ^ 8 else r); s = (if m = 0 then 0 else s) in (push_bit 7 s OR m) mod 2 ^ 8)"
  by (simp_all only: sign_bits_def Suc_numeral arith_simps)

lemma bits_signed_sign_bits:
  assumes "s = 0 \<or> s = 1" and "0 \<le> r" and "r \<le> 2 ^ n" and "s = 0 \<Longrightarrow> r < 2 ^ n"
  shows "bits_signed (Suc n) (sign_bits n s r) = (if s = 0 then r else - r)"
proof (cases "s = 1 \<and> r \<noteq> 0")
  case True
  define x where "x = 2 ^ Suc n - r"
  have x: "2 ^ n \<le> x" "x < 2 ^ Suc n" "0 \<le> x"
    using assms True by (auto simp: x_def)
  have "(- r) mod 2 ^ Suc n = x"
    using assms True by (simp add: zmod_zminus1_eq_if x_def)
  moreover have "NOT r + 1 = - r"
    by (simp add: not_int_def)
  moreover have "x \<noteq> 0"
    using x by auto
  ultimately have "sign_bits n s r = x"
    using True x or_top_bit [OF x(1,2)] by (simp add: sign_bits_def Let_def del: power_Suc)
  moreover have "bits_signed (Suc n) x = x - 2 ^ Suc n"
    using x by (simp add: bits_signed_def del: power_Suc)
  ultimately show ?thesis
    using True by (simp add: x_def del: power_Suc)
next
  case False
  then have "sign_bits n s r = r"
    using assms by (auto simp: sign_bits_def Let_def not_int_def)
  moreover have "r < 2 ^ n"
    using False assms by auto
  ultimately show ?thesis
    using False assms by (auto simp: bits_signed_def)
qed

lemma class_fields:
  assumes "is16 v"
  shows "FP16_IS_DENORM v \<longleftrightarrow> exp16 v = 0" and "FP16_IS_INVALID v \<longleftrightarrow> exp16 v = 31"
proof -
  have "v AND push_bit 10 31 = push_bit 10 (drop_bit 10 v AND 31)"
    by (rule and_push_bit)
  moreover have "drop_bit 10 v AND 31 = exp16 v"
    by (simp add: drop_bit_eq_div exp16_def)
  moreover have "push_bit 10 31 = (0x7C00 :: int)"
    by (simp add: push_bit_eq_mult)
  ultimately have "v AND 0x7C00 = exp16 v * 1024"
    by (simp add: push_bit_eq_mult)
  then show "FP16_IS_DENORM v \<longleftrightarrow> exp16 v = 0" and "FP16_IS_INVALID v \<longleftrightarrow> exp16 v = 31"
    by (auto simp: FP16_IS_DENORM_def FP16_IS_INVALID_def fp16_consts)
qed

text \<open>The integer part of the aligned mantissa and the rounding decision.\<close>

definition al_man :: "int \<Rightarrow> int" where "al_man v = fst (aligned v)"
definition al_shift :: "int \<Rightarrow> nat" where "al_shift v = snd (aligned v)"
definition quot :: "int \<Rightarrow> int" where "quot v = al_man v div 2 ^ (10 + al_shift v)"
definition carry :: "int \<Rightarrow> bool" where "carry v = IsRoundOne kRoundToNearest (al_man v) (al_shift v + 10)"

lemma carry_fold: "IsRoundOne kRoundToNearest (al_man v) (al_shift v + 10) = carry v"
  by (simp add: carry_def)

lemma finite16D: "finite16 v \<Longrightarrow> is16 v \<and> exp16 v \<le> 30 \<and> exp16 v \<noteq> 31"
  by (auto simp: finite16_def)

lemma al_man_bounds: "finite16 v \<Longrightarrow> 0 \<le> al_man v" "finite16 v \<Longrightarrow> al_man v < 2 ^ 26"
  using aligned_bounds [of v] finite16D [of v] by (simp_all add: al_man_def)

lemma quot_drop_bit: "drop_bit (10 + al_shift v) (al_man v) = quot v"
  by (simp add: quot_def drop_bit_eq_div)

lemma quot_up: "15 \<le> exp16 v \<Longrightarrow> quot v = al_man v div 2 ^ 10"
  by (simp add: quot_def al_shift_def aligned_def)

lemma quot_le: "finite16 v \<Longrightarrow> quot v \<le> al_man v div 2 ^ 10"
  using al_man_bounds(1) power_increasing [of 10 "10 + al_shift v" "2 :: int"]
  unfolding quot_def by (intro zdiv_mono2) auto

lemma quot_bounds:
  assumes "finite16 v"
  shows "0 \<le> quot v" and "quot v < 2 ^ 16" and "exp16 v \<le> 15 \<Longrightarrow> quot v < 2"
proof -
  show "0 \<le> quot v"
    using al_man_bounds(1) [OF assms] by (simp add: quot_def pos_imp_zdiv_nonneg_iff)
  show "quot v < 2 ^ 16"
    using quot_le [OF assms] al_man_bounds [OF assms] by auto
  show "quot v < 2" if "exp16 v \<le> 15"
    using quot_le [OF assms] aligned_bounds(3) [of v] finite16D [OF assms] that by (auto simp: al_man_def)
qed

lemma rounded_quot:
  assumes "finite16 v"
  shows "rounded v = (if carry v then quot v + 1 else quot v)"
  using aligned_rounds [of v] IsRoundOne_round_up [of "10 + al_shift v" "al_man v"] al_man_bounds(1) [OF assms]
  by (auto simp: rne_div_def carry_def quot_def al_man_def al_shift_def add.commute)

text \<open>A value of at least \<open>2 ^ 10\<close> is an integer.\<close>

lemma carry_small:
  assumes "finite16 v" and "carry v"
  shows "quot v < 2 ^ 10"
proof (rule ccontr)
  assume big: "\<not> quot v < 2 ^ 10"
  note m = man16_bounds [of v] and D = finite16D [OF assms(1)]
  have "25 \<le> exp16 v"
  proof (rule ccontr)
    assume small: "\<not> 25 \<le> exp16 v"
    have "al_man v \<le> 2047 * 2 ^ 9"
    proof (cases "15 \<le> exp16 v")
      case True
      with small m have "man16 v * 2 ^ nat (exp16 v - 15) \<le> 2047 * 2 ^ 9"
        by (intro mult_mono power_increasing) auto
      with True show ?thesis by (simp add: al_man_def aligned_def)
    next
      case False
      with m show ?thesis by (simp add: al_man_def aligned_def)
    qed
    with quot_le [OF assms(1)] big show False by auto
  qed
  moreover from this have "nat (exp16 v - 15) = nat (exp16 v - 25) + 10"
    by simp
  ultimately have "al_man v = man16 v * 2 ^ nat (exp16 v - 25) * 2 ^ 10" and so: "al_shift v = 0"
    by (simp_all add: al_man_def al_shift_def aligned_def power_add)
  then have "\<not> round_up (al_man v) 10"
    by (simp add: round_up_def)
  with assms(2) al_man_bounds(1) [OF assms(1)] so show False
    by (simp add: carry_def IsRoundOne_round_up)
qed

definition saturate :: "int \<Rightarrow> int \<Rightarrow> int \<Rightarrow> int" where
  "saturate lo hi x = max lo (min hi x)"

definition signed_rounded :: "int \<Rightarrow> int" where
  "signed_rounded v = (if sgn16 v = 0 then rounded v else - rounded v)"

lemma rounded_nonneg: "0 \<le> rounded v"
  using mag16_nonneg [of v] by (simp add: rounded_def rne_div_def pos_imp_zdiv_nonneg_iff)

lemma rounded_sub: "exp16 v = 0 \<Longrightarrow> rounded v = 0"
  using man16_bounds [of v] by (auto simp: rounded_def mag16_def intro!: rne_div_small)

lemma align_exp_threshold:
  assumes "finite16 v"
  obtains (over) x y where "align_exp (\<lambda>m. m \<ge> t) (exp16 v) (man16 v) 0 = (True, x, y)" and "exp16 v > 15" and "t \<le> al_man v"
    | (fine) "align_exp (\<lambda>m. m \<ge> t) (exp16 v) (man16 v) 0 = (False, al_man v, al_shift v)" and "exp16 v > 15 \<Longrightarrow> al_man v < t"
proof -
  have "exp16 v \<le> 30"
    using finite16D [OF assms] by simp
  from align_exp_aligned [OF this, of "\<lambda>m. m \<ge> t"] show thesis
    using that by (cases "align_exp (\<lambda>m. m \<ge> t) (exp16 v) (man16 v) 0") (auto simp: al_man_def al_shift_def split: if_splits)
qed

lemma align_exp_never: "finite16 v \<Longrightarrow> align_exp (\<lambda>_. False) (exp16 v) (man16 v) 0 = (False, al_man v, al_shift v)"
  using align_exp_aligned [of v "\<lambda>_. False"] finite16D [of v] by (simp add: al_man_def al_shift_def)

section \<open>The conversions\<close>

lemma Fp16ToInt32_correct:
  assumes "finite16 v"
  shows "Fp16ToInt32 kRoundToNearest v = signed_rounded v"
proof -
  note v16 = conjunct1 [OF finite16D [OF assms]] and e = finite16D [OF assms, THEN conjunct2, THEN conjunct2]
  note q = quot_bounds [OF assms] and r = rounded_quot [OF assms]
  have facts: "quot v AND 0xFFFFFFFF = quot v" "(sgn16 v = 1) = (sgn16 v \<noteq> 0)"
    "(if carry v \<and> quot v < 0x7FFFFFFF then quot v + 1 else quot v) = rounded v"
    using q r sgn16_cases [OF v16] by auto
  have "Fp16ToInt32 kRoundToNearest v = bits_signed 32 (sign_bits 31 (sgn16 v) (rounded v))"
    by (simp only: Fp16ToInt32_def extract_fields [OF v16] class_fields [OF v16] align_exp_never [OF assms] Let_def prod.case
        e if_False quot_drop_bit carry_fold facts sign_bits_unfold)
  also have "\<dots> = signed_rounded v"
    using sgn16_cases [OF v16] rounded_nonneg [of v] q r unfolding signed_rounded_def
    by (subst bits_signed_sign_bits [of _ _ 31, simplified Suc_numeral arith_simps]) auto
  finally show ?thesis .
qed

lemma Fp16ToUInt32_correct:
  assumes "finite16 v"
  shows "Fp16ToUInt32 kRoundToNearest v = saturate 0 (2 ^ 32 - 1) (signed_rounded v)"
proof -
  note v16 = conjunct1 [OF finite16D [OF assms]] and e = finite16D [OF assms, THEN conjunct2, THEN conjunct2]
  note q = quot_bounds [OF assms] and r = rounded_quot [OF assms]
  have facts: "quot v mod 2 ^ 32 AND 0xFFFFFFFF = quot v"
    "(if carry v \<and> quot v \<noteq> 0xFFFFFFFF then quot v + 1 else quot v) = rounded v"
    using q r by auto
  have "Fp16ToUInt32 kRoundToNearest v = (if exp16 v = 0 then 0 else if sgn16 v = 1 then 0 else rounded v)"
    by (simp only: Fp16ToUInt32_def extract_fields [OF v16] class_fields [OF v16] align_exp_never [OF assms] Let_def prod.case
        e if_False quot_drop_bit carry_fold facts)
  then show ?thesis
    using sgn16_cases [OF v16] rounded_nonneg [of v] rounded_sub [of v] q r by (auto simp: saturate_def signed_rounded_def)
qed

lemma Fp16ToUInt16_correct:
  assumes "finite16 v"
  shows "Fp16ToUInt16 kRoundToNearest v = saturate 0 (2 ^ 16 - 1) (signed_rounded v)"
proof -
  note v16 = conjunct1 [OF finite16D [OF assms]] and e = finite16D [OF assms, THEN conjunct2, THEN conjunct2]
  note q = quot_bounds [OF assms] and r = rounded_quot [OF assms]
  have facts: "quot v AND 0xFFFF = quot v"
    "(if carry v \<and> quot v \<noteq> 0xFFFF then quot v + 1 else quot v) = min (2 ^ 16 - 1) (rounded v)"
    using q r by auto
  have "Fp16ToUInt16 kRoundToNearest v = (if exp16 v = 0 then 0 else if sgn16 v = 1 then 0 else min (2 ^ 16 - 1) (rounded v))"
    by (simp only: Fp16ToUInt16_def extract_fields [OF v16] class_fields [OF v16] align_exp_never [OF assms] Let_def prod.case
        e if_False quot_drop_bit carry_fold facts)
  then show ?thesis
    using sgn16_cases [OF v16] rounded_nonneg [of v] rounded_sub [of v] by (auto simp: saturate_def signed_rounded_def)
qed

lemma Fp16ToUInt8_correct:
  assumes "finite16 v"
  shows "Fp16ToUInt8 kRoundToNearest v = saturate 0 (2 ^ 8 - 1) (signed_rounded v)"
proof -
  note v16 = conjunct1 [OF finite16D [OF assms]] and e = finite16D [OF assms, THEN conjunct2, THEN conjunct2]
  note q = quot_bounds [OF assms] and r = rounded_quot [OF assms]
  have "Fp16ToUInt8 kRoundToNearest v = (if exp16 v = 0 then 0 else if sgn16 v = 1 then 0 else min (2 ^ 8 - 1) (rounded v))"
  proof (cases rule: align_exp_threshold [OF assms, of "0x40000", case_names over fine])
    case (over x y)
    then have "min (2 ^ 8 - 1) (rounded v) = 0xFF"
      using r quot_up [of v] by auto
    then show ?thesis
      by (simp only: Fp16ToUInt8_def extract_fields [OF v16] class_fields [OF v16] over(1) Let_def prod.case e if_False if_True)
  next
    case fine
    then have "quot v < 0x100"
      using q quot_up [of v] by (cases "15 < exp16 v") auto
    then have facts: "quot v AND 0xFF = quot v"
      "(if carry v \<and> quot v \<noteq> 0xFF then quot v + 1 else quot v) = min (2 ^ 8 - 1) (rounded v)"
      using q r by auto
    show ?thesis
      by (simp only: Fp16ToUInt8_def extract_fields [OF v16] class_fields [OF v16] fine(1) Let_def prod.case e if_False
          quot_drop_bit carry_fold facts)
  qed
  then show ?thesis
    using sgn16_cases [OF v16] rounded_nonneg [of v] rounded_sub [of v] by (auto simp: saturate_def signed_rounded_def)
qed

lemma Fp16ToInt16_correct:
  assumes "finite16 v"
  shows "Fp16ToInt16 kRoundToNearest v = saturate (- (2 ^ 15)) (2 ^ 15 - 1) (signed_rounded v)"
proof -
  note v16 = conjunct1 [OF finite16D [OF assms]] and e = finite16D [OF assms, THEN conjunct2, THEN conjunct2]
  note q = quot_bounds [OF assms] and r = rounded_quot [OF assms]
  define t where "t = (if sgn16 v = 1 then 0x2000001 else 0x1FFFFFF :: int)"
  have test: "(\<lambda>m. sgn16 v = 1 \<and> m > 0x2000000 \<or> sgn16 v \<noteq> 1 \<and> m \<ge> 0x1FFFFFF) = (\<lambda>m. m \<ge> t)"
    by (auto simp: t_def fun_eq_iff)
  have "Fp16ToInt16 kRoundToNearest v = (if exp16 v = 0 then 0 else saturate (- (2 ^ 15)) (2 ^ 15 - 1) (signed_rounded v))"
  proof (cases rule: align_exp_threshold [OF assms, of t, case_names over fine])
    case (over x y)
    then have "bits_signed 16 (0x7FFF + sgn16 v) = saturate (- (2 ^ 15)) (2 ^ 15 - 1) (signed_rounded v)"
      using r quot_up [of v] sgn16_cases [OF v16] by (auto simp: bits_signed_def saturate_def signed_rounded_def t_def)
    then show ?thesis
      by (simp only: Fp16ToInt16_def extract_fields [OF v16] class_fields [OF v16] test over(1) Let_def prod.case e if_False if_True)
  next
    case fine
    then have small: "quot v \<le> 0x7FFF + sgn16 v"
      using q quot_up [of v] sgn16_cases [OF v16] by (cases "15 < exp16 v") (auto simp: t_def)
    then have facts: "quot v AND 0xFFFF = quot v"
      "(if carry v \<and> quot v < 0x7FFF then quot v + 1 else quot v) = rounded v"
      using q r sgn16_cases [OF v16] carry_small [OF assms] by auto
    have "Fp16ToInt16 kRoundToNearest v = (if exp16 v = 0 then 0 else bits_signed 16 (sign_bits 15 (sgn16 v) (rounded v)))"
      by (simp only: Fp16ToInt16_def GetUint16ValByMan_def extract_fields [OF v16] class_fields [OF v16] test fine(1) Let_def
          prod.case e if_False quot_drop_bit carry_fold facts sign_bits_unfold)
    moreover have "rounded v \<le> 0x7FFF + sgn16 v"
      using small r carry_small [OF assms] sgn16_cases [OF v16] by auto
    then have "bits_signed 16 (sign_bits 15 (sgn16 v) (rounded v)) = saturate (- (2 ^ 15)) (2 ^ 15 - 1) (signed_rounded v)"
      using sgn16_cases [OF v16] rounded_nonneg [of v] unfolding signed_rounded_def saturate_def
      by (subst bits_signed_sign_bits [of _ _ 15, simplified Suc_numeral arith_simps]) auto
    ultimately show ?thesis by simp
  qed
  then show ?thesis
    using rounded_sub [of v] by (simp add: saturate_def signed_rounded_def)
qed

lemma Fp16ToInt8_correct:
  assumes "finite16 v"
  shows "Fp16ToInt8 kRoundToNearest v = saturate (- (2 ^ 7)) (2 ^ 7 - 1) (signed_rounded v)"
proof -
  note v16 = conjunct1 [OF finite16D [OF assms]] and e = finite16D [OF assms, THEN conjunct2, THEN conjunct2]
  note q = quot_bounds [OF assms] and r = rounded_quot [OF assms]
  define t where "t = (if sgn16 v = 1 then 0x20000 else 0x1FFFF :: int)"
  have test: "(\<lambda>m. sgn16 v = 1 \<and> m \<ge> 0x20000 \<or> sgn16 v \<noteq> 1 \<and> m \<ge> 0x1FFFF) = (\<lambda>m. m \<ge> t)"
    by (auto simp: t_def fun_eq_iff)
  have "Fp16ToInt8 kRoundToNearest v = (if exp16 v = 0 then 0 else saturate (- (2 ^ 7)) (2 ^ 7 - 1) (signed_rounded v))"
  proof (cases rule: align_exp_threshold [OF assms, of t, case_names over fine])
    case (over x y)
    then have "bits_signed 8 (0x7F + sgn16 v) = saturate (- (2 ^ 7)) (2 ^ 7 - 1) (signed_rounded v)"
      using r quot_up [of v] sgn16_cases [OF v16] by (auto simp: bits_signed_def saturate_def signed_rounded_def t_def)
    then show ?thesis
      by (simp only: Fp16ToInt8_def extract_fields [OF v16] class_fields [OF v16] test over(1) Let_def prod.case e if_False if_True)
  next
    case fine
    then have small: "quot v \<le> 0x7F"
      using q quot_up [of v] by (cases "15 < exp16 v") (auto simp: t_def split: if_splits)
    define m where "m = min (0x7F + sgn16 v) (rounded v)"
    have facts: "quot v AND 0xFF = quot v"
      "(if carry v \<and> (sgn16 v = 0 \<and> quot v < 0x7F \<or> sgn16 v = 1 \<and> quot v \<le> 0x7F) then (quot v + 1) mod 2 ^ 8 else quot v) = m"
      using q r small sgn16_cases [OF v16] by (auto simp: m_def)
    have "Fp16ToInt8 kRoundToNearest v = (if exp16 v = 0 then 0 else bits_signed 8 (sign_bits 7 (sgn16 v) m))"
      by (simp only: Fp16ToInt8_def GetUint8ValByMan_def extract_fields [OF v16] class_fields [OF v16] test fine(1) Let_def
          prod.case e if_False quot_drop_bit carry_fold facts sign_bits_unfold)
    moreover have "bits_signed 8 (sign_bits 7 (sgn16 v) m) = saturate (- (2 ^ 7)) (2 ^ 7 - 1) (signed_rounded v)"
      using sgn16_cases [OF v16] rounded_nonneg [of v] unfolding signed_rounded_def saturate_def m_def
      by (subst bits_signed_sign_bits [of _ _ 7, simplified Suc_numeral arith_simps]) auto
    ultimately show ?thesis by simp
  qed
  then show ?thesis
    using rounded_sub [of v] by (simp add: saturate_def signed_rounded_def)
qed

end
