(* ===== verification/Fp16_Round.thy ===== *)
theory Fp16_Round
  imports Fp16_Correct "HOL-Library.Log_Nat"
begin

text \<open>
  Correct rounding to half precision. A non-negative magnitude is a fraction \<open>n / 2 ^ k\<close> in units of \<open>2 ^ -24\<close>, the
  smallest subnormal value. \<open>encode16\<close> is the bit pattern of the nearest value, ties to even; it is the reference
  that multiplication, addition and the conversions from the other types are compared with.
\<close>

section \<open>The reference rounding\<close>

definition ulp16 :: "int \<Rightarrow> nat \<Rightarrow> nat" where
  "ulp16 n k = nat (bitlen n) - (k + 11)"

definition round16 :: "int \<Rightarrow> nat \<Rightarrow> int" where
  "round16 n k = rne_div n (k + ulp16 n k) * 2 ^ ulp16 n k"

definition encode16 :: "int \<Rightarrow> int \<Rightarrow> nat \<Rightarrow> int" where
  "encode16 s n k = s * 2 ^ 15 + int (ulp16 n k) * 2 ^ 10 + rne_div n (k + ulp16 n k)"

text \<open>What the routines return: a result that rounds to \<open>2 ^ 16\<close> or more becomes the pattern of all ones.\<close>

definition encode16_nan :: "int \<Rightarrow> int \<Rightarrow> nat \<Rightarrow> int" where
  "encode16_nan s n k = (if round16 n k < 2 ^ 40 then encode16 s n k else s * 2 ^ 15 + 0x7FFF)"

lemma bitlen_unique:
  assumes "2 ^ m \<le> n" and "n < 2 ^ Suc m"
  shows "bitlen n = int m + 1"
proof -
  have n: "0 < n"
    using assms(1) zero_less_power [of "2 :: int" m] by linarith
  from bitlen_bounds [OF n] have "(2 :: int) ^ m < 2 ^ nat (bitlen n)" "(2 :: int) ^ nat (bitlen n - 1) < 2 ^ Suc m"
    using assms by linarith+
  then have "m < nat (bitlen n)" "nat (bitlen n - 1) < Suc m"
    by (simp_all only: power_strict_increasing_iff [of "2 :: int"] one_less_numeral_iff semiring_norm)
  then show ?thesis by linarith
qed

lemma ulp16_bounds:
  assumes "0 \<le> n"
  shows "n < 2 ^ (k + 11 + ulp16 n k)" and "ulp16 n k = 0 \<or> 2 ^ (k + 10 + ulp16 n k) \<le> n"
proof -
  have "n < 2 ^ nat (bitlen n)"
    using bitlen_bounds [of n] assms by (cases "n = 0") auto
  also have "\<dots> \<le> 2 ^ (k + 11 + ulp16 n k)"
    by (intro power_increasing) (auto simp: ulp16_def)
  finally show "n < 2 ^ (k + 11 + ulp16 n k)" .
  show "ulp16 n k = 0 \<or> 2 ^ (k + 10 + ulp16 n k) \<le> n"
  proof (cases "ulp16 n k = 0")
    case False
    then have "k + 10 + ulp16 n k = nat (bitlen n - 1)" and "n \<noteq> 0"
      by (auto simp: ulp16_def)
    with bitlen_bounds [of n] assms show ?thesis by simp
  qed simp
qed

lemma ulp16_unique:
  assumes "0 \<le> n" and "n < 2 ^ (k + 11 + e)" and "e = 0 \<or> 2 ^ (k + 10 + e) \<le> n"
  shows "ulp16 n k = e"
proof (cases "e = 0")
  case True
  have "nat (bitlen n) \<le> k + 11"
  proof (cases "n = 0")
    case False
    then have "2 ^ nat (bitlen n - 1) \<le> n"
      using bitlen_bounds [of n] assms(1) by simp
    also have "n < 2 ^ (k + 11)"
      using assms(2) True by simp
    finally have "(2 :: int) ^ nat (bitlen n - 1) < 2 ^ (k + 11)" .
    then have "nat (bitlen n - 1) < k + 11"
      by (simp only: power_strict_increasing_iff [of "2 :: int"] one_less_numeral_iff semiring_norm)
    then show ?thesis by linarith
  qed simp
  with True show ?thesis by (simp add: ulp16_def)
next
  case False
  with assms have "bitlen n = int (k + 10 + e) + 1"
    by (intro bitlen_unique) (simp_all add: eval_nat_numeral)
  then show ?thesis by (simp add: ulp16_def)
qed

lemma encode16_unique:
  assumes "0 \<le> n" and "n < 2 ^ (k + 11 + e)" and "e = 0 \<or> 2 ^ (k + 10 + e) \<le> n"
  shows "encode16 s n k = s * 2 ^ 15 + int e * 2 ^ 10 + rne_div n (k + e)" and "round16 n k = rne_div n (k + e) * 2 ^ e"
  using ulp16_unique [OF assms] by (simp_all add: encode16_def round16_def)

lemma ulp16_scale:
  assumes "0 \<le> n"
  shows "ulp16 (n * 2 ^ j) (k + j) = ulp16 n k"
proof (rule ulp16_unique)
  note b = ulp16_bounds [OF assms, of k]
  show "0 \<le> n * 2 ^ j"
    using assms by simp
  have p: "(2 :: int) ^ (k + j + i + ulp16 n k) = 2 ^ (k + i + ulp16 n k) * 2 ^ j" for i
    by (simp add: power_add)
  show "n * 2 ^ j < 2 ^ (k + j + 11 + ulp16 n k)" and "ulp16 n k = 0 \<or> 2 ^ (k + j + 10 + ulp16 n k) \<le> n * 2 ^ j"
    using b by (simp_all add: p)
qed

lemma encode16_scale:
  assumes "0 \<le> n"
  shows "encode16 s (n * 2 ^ j) (k + j) = encode16 s n k" and "round16 (n * 2 ^ j) (k + j) = round16 n k"
    and "encode16_nan s (n * 2 ^ j) (k + j) = encode16_nan s n k"
proof -
  have r: "rne_div (n * 2 ^ j) (k + j + i) = rne_div n (k + i)" for i
    using rne_div_scale [of n j "k + i"] by (simp add: ac_simps)
  show "encode16 s (n * 2 ^ j) (k + j) = encode16 s n k" "round16 (n * 2 ^ j) (k + j) = round16 n k"
    unfolding encode16_def round16_def ulp16_scale [OF assms] r by simp_all
  then show "encode16_nan s (n * 2 ^ j) (k + j) = encode16_nan s n k"
    by (simp add: encode16_nan_def)
qed

section \<open>The rounded mantissa\<close>

lemma le_div_power: "c \<le> x div 2 ^ d \<longleftrightarrow> c * 2 ^ d \<le> (x :: int)"
proof
  have "(x div 2 ^ d) * 2 ^ d \<le> x"
    using minus_mod_eq_div_mult [of x "2 ^ d"] pos_mod_sign [of "2 ^ d" x, OF zero_less_power] by linarith
  moreover assume "c \<le> x div 2 ^ d"
  then have "c * 2 ^ d \<le> (x div 2 ^ d) * 2 ^ d"
    by simp
  ultimately show "c * 2 ^ d \<le> x" by linarith
next
  assume "c * 2 ^ d \<le> x"
  from zdiv_mono1 [OF this, of "2 ^ d"] show "c \<le> x div 2 ^ d"
    by simp
qed

lemma div_power_less: "x div 2 ^ d < c \<longleftrightarrow> (x :: int) < c * 2 ^ d"
  using le_div_power [of c x d] by linarith

lemma div_power_Suc: "x div 2 ^ i div 2 = (x :: int) div 2 ^ Suc i"
  by (metis power_Suc2 zdiv_zmult2_eq zero_le_numeral)

lemma rne_div_mono_bounds:
  assumes "lo * 2 ^ k \<le> n" and "n < hi * 2 ^ k"
  shows "lo \<le> rne_div n k" and "rne_div n k \<le> hi"
  using assms by (auto simp: rne_div_def simp flip: le_div_power div_power_less)

lemma rounded_man:
  assumes "0 \<le> n"
  shows "0 \<le> rne_div n (k + ulp16 n k)" and "rne_div n (k + ulp16 n k) \<le> 2 ^ 11"
    and "ulp16 n k = 0 \<or> 2 ^ 10 \<le> rne_div n (k + ulp16 n k)"
proof -
  note b = ulp16_bounds [OF assms, of k]
  have p: "(2 :: int) ^ (k + i + ulp16 n k) = 2 ^ i * 2 ^ (k + ulp16 n k)" for i
    by (simp add: power_add)
  show "0 \<le> rne_div n (k + ulp16 n k)" "rne_div n (k + ulp16 n k) \<le> 2 ^ 11"
    using rne_div_mono_bounds [of 0 "k + ulp16 n k" n "2 ^ 11"] b(1) assms unfolding p by auto
  show "ulp16 n k = 0 \<or> 2 ^ 10 \<le> rne_div n (k + ulp16 n k)"
    using rne_div_mono_bounds(1) [of "2 ^ 10" "k + ulp16 n k" n "2 ^ 11"] b unfolding p by auto
qed

lemma pattern_value:
  assumes "s = 0 \<or> s = 1" and "0 \<le> m" and "m \<le> 2 ^ 11" and "e = 0 \<or> 2 ^ 10 \<le> m" and "int e * 2 ^ 10 + m < 2 ^ 15"
  shows "is16 (s * 2 ^ 15 + int e * 2 ^ 10 + m)" and "sgn16 (s * 2 ^ 15 + int e * 2 ^ 10 + m) = s"
    and "mag16 (s * 2 ^ 15 + int e * 2 ^ 10 + m) = m * 2 ^ e"
    and "exp16 (s * 2 ^ 15 + int e * 2 ^ 10 + m) < 31 \<longleftrightarrow> int e * 2 ^ 10 + m < 31 * 2 ^ 10"
proof -
  define c where "c = m div 2 ^ 10"
  define f where "f = m mod 2 ^ 10"
  define v where "v = s * 2 ^ 15 + int e * 2 ^ 10 + m"
  have m: "m = c * 2 ^ 10 + f" and f: "0 \<le> f" "f < 2 ^ 10"
    by (simp_all add: c_def f_def)
  with assms have c: "c = 0 \<and> e = 0 \<or> c = 1 \<or> c = 2 \<and> f = 0" "0 \<le> int e + c" "int e + c \<le> 31"
    by auto
  have v: "v = s * 2 ^ 15 + (int e + c) * 2 ^ 10 + f"
    by (simp add: v_def m distrib_right)
  note F = fields_of_sum [OF assms(1) c(2,3) f, folded v]
  show "is16 (s * 2 ^ 15 + int e * 2 ^ 10 + m)" "sgn16 (s * 2 ^ 15 + int e * 2 ^ 10 + m) = s"
    using F by (simp_all add: v_def)
  have "mag16 v = m * 2 ^ e"
    using c f unfolding mag16_def man16_def F(3,4)
    by (auto simp: m nat_add_distrib distrib_right power_Suc [symmetric] simp del: power_Suc)
  then show "mag16 (s * 2 ^ 15 + int e * 2 ^ 10 + m) = m * 2 ^ e"
    by (simp add: v_def)
  have "(int e + c < 31) \<longleftrightarrow> int e * 2 ^ 10 + m < 31 * 2 ^ 10"
    using f m by auto
  with F(3) show "exp16 (s * 2 ^ 15 + int e * 2 ^ 10 + m) < 31 \<longleftrightarrow> int e * 2 ^ 10 + m < 31 * 2 ^ 10"
    by (simp add: v_def)
qed


lemma overflow16:
  assumes "0 \<le> n"
  shows "round16 n k < 2 ^ 40 \<longleftrightarrow> int (ulp16 n k) * 2 ^ 10 + rne_div n (k + ulp16 n k) < 31 * 2 ^ 10"
proof -
  define e where "e = ulp16 n k"
  define m where "m = rne_div n (k + ulp16 n k)"
  have m: "0 \<le> m" "m \<le> 2 ^ 11" "e = 0 \<or> 2 ^ 10 \<le> m"
    using rounded_man [OF assms, of k] by (simp_all add: e_def m_def)
  have "m * 2 ^ e < 2 ^ 40 \<longleftrightarrow> int e * 2 ^ 10 + m < 31 * 2 ^ 10"
  proof (cases e "29 :: nat" rule: linorder_cases)
    case less
    then have "m * 2 ^ e \<le> 2 ^ 11 * 2 ^ 28"
      using m by (intro mult_mono power_increasing) auto
    with less m show ?thesis by auto
  next
    case equal
    then show ?thesis by simp
  next
    case greater
    then have "2 ^ 10 * 2 ^ 30 \<le> m * 2 ^ e"
      using m by (intro mult_mono power_increasing) auto
    with greater m show ?thesis by auto
  qed
  then show ?thesis by (simp add: e_def m_def round16_def)
qed

lemma encode16_correct:
  assumes "s = 0 \<or> s = 1" and "0 \<le> n" and "round16 n k < 2 ^ 40"
  shows "finite16 (encode16 s n k)" and "sgn16 (encode16 s n k) = s" and "mag16 (encode16 s n k) = round16 n k"
proof -
  note small = iffD1 [OF overflow16 [OF assms(2), of k] assms(3)]
  then have "int (ulp16 n k) * 2 ^ 10 + rne_div n (k + ulp16 n k) < 2 ^ 15"
    by simp
  note V = pattern_value [OF assms(1) rounded_man [OF assms(2)] this, folded encode16_def]
  show "finite16 (encode16 s n k)"
    using V(1,4) small by (simp add: finite16_def)
  show "sgn16 (encode16 s n k) = s" and "mag16 (encode16 s n k) = round16 n k"
    using V(2,3) by (simp_all add: round16_def)
qed

lemma encode16_nan_small:
  assumes "0 \<le> n" and "n < 2 ^ 10"
  shows "encode16_nan s n 0 = s * 2 ^ 15 + n"
  using encode16_unique(1) [of n 0 0 s] encode16_unique(2) [of n 0 0] assms by (simp add: encode16_nan_def)

text \<open>A half-precision value is its own rounding.\<close>

lemma encode16_exact:
  assumes "finite16 v"
  shows "encode16 (sgn16 v) (mag16 v) 0 = v" and "round16 (mag16 v) 0 = mag16 v" and "encode16_nan (sgn16 v) (mag16 v) 0 = v"
proof -
  define e where "e = nat (exp16 v) - 1"
  have b: "0 \<le> exp16 v" "exp16 v \<le> 30"
    using exp16_bounds [of v] assms by (auto simp: finite16_def)
  note m = man16_bounds [of v]
  have mag: "mag16 v = man16 v * 2 ^ e"
    by (simp add: mag16_def e_def)
  have "man16 v * 2 ^ e < 2 ^ 11 * 2 ^ e" "0 < e \<Longrightarrow> 2 ^ 10 * 2 ^ e \<le> man16 v * 2 ^ e"
    using m b by (auto simp: e_def)
  then have u: "0 \<le> mag16 v" "mag16 v < 2 ^ (0 + 11 + e)" "e = 0 \<or> 2 ^ (0 + 10 + e) \<le> mag16 v"
    using m(1) by (auto simp: mag power_add)
  have r: "rne_div (mag16 v) (0 + e) = man16 v"
    using rne_div_scale [of "man16 v" e 0] by (simp add: mag)
  have "int e * 2 ^ 10 + man16 v = exp16 v * 2 ^ 10 + v mod 2 ^ 10"
    using b by (auto simp: e_def man16_def)
  then show v: "encode16 (sgn16 v) (mag16 v) 0 = v"
    using pattern_split [of v] unfolding encode16_unique(1) [OF u] r by linarith
  show R: "round16 (mag16 v) 0 = mag16 v"
    unfolding encode16_unique(2) [OF u] r by (simp add: mag)
  have "mag16 v < 2 ^ 11 * 2 ^ 29"
    using m b unfolding mag by (intro mult_less_le_imp_less power_increasing) (auto simp: e_def)
  with v R show "encode16_nan (sgn16 v) (mag16 v) 0 = v"
    by (simp add: encode16_nan_def)
qed

section \<open>The rounding is to nearest\<close>

lemma rne_div_closest: "\<bar>rne_div n k * 2 ^ k - n\<bar> \<le> \<bar>j * 2 ^ k - n\<bar>"
proof (cases "j = rne_div n k")
  case False
  have "2 ^ k * 1 \<le> 2 ^ k * \<bar>j - rne_div n k\<bar>"
    using False by (intro mult_left_mono) auto
  also have "\<dots> = \<bar>j * 2 ^ k - rne_div n k * 2 ^ k\<bar>"
    by (simp add: abs_mult flip: left_diff_distrib)
  finally have "2 ^ k \<le> \<bar>j * 2 ^ k - rne_div n k * 2 ^ k\<bar>"
    by simp
  moreover have "p \<le> \<bar>b - a\<bar> \<Longrightarrow> 2 * \<bar>a - n\<bar> \<le> p \<Longrightarrow> \<bar>a - n\<bar> \<le> \<bar>b - n\<bar>" for p a b :: int
    by (simp add: abs_if split: if_splits)
  ultimately show ?thesis
    using rne_div_nearest by blast
qed simp

lemma round16_closest:
  assumes "0 \<le> n" and "finite16 w"
  shows "\<bar>round16 n k * 2 ^ k - n\<bar> \<le> \<bar>mag16 w * 2 ^ k - n\<bar>"
proof -
  define e where "e = ulp16 n k"
  have p: "round16 n k * 2 ^ k = rne_div n (k + e) * 2 ^ (k + e)"
    by (simp add: round16_def e_def power_add)
  show ?thesis
  proof (cases "e \<le> nat (exp16 w) - 1")
    case True
    then obtain d where d: "nat (exp16 w) - 1 = e + d"
      using le_Suc_ex by blast
    have "mag16 w * 2 ^ k = (man16 w * 2 ^ d) * 2 ^ (k + e)"
      unfolding mag16_def d by (simp add: power_add)
    then show ?thesis
      unfolding p by (metis rne_div_closest)
  next
    case False
    then have lo: "2 ^ (k + 10 + e) \<le> n"
      using ulp16_bounds(2) [OF assms(1), of k] by (auto simp: e_def)
    have "mag16 w \<le> 2 ^ 11 * 2 ^ (e - 1)"
      using man16_bounds [of w] False unfolding mag16_def by (intro mult_mono power_increasing) auto
    also have "\<dots> = 2 ^ 10 * 2 ^ e"
      using False by (cases e) auto
    finally have "mag16 w * 2 ^ k \<le> 2 ^ 10 * 2 ^ e * 2 ^ k"
      by (intro mult_right_mono) auto
    then have "mag16 w * 2 ^ k \<le> 2 ^ 10 * 2 ^ (k + e)"
      by (simp add: power_add ac_simps)
    moreover have "2 ^ 10 * 2 ^ (k + e) \<le> n"
      using lo by (simp add: power_add ac_simps)
    moreover note rne_div_closest [of n "k + e" "2 ^ 10"]
    ultimately show ?thesis
      unfolding p by linarith
  qed
qed

section \<open>The loops that build a result\<close>

text \<open>\<open>t\<close> holds the \<open>i\<close> bits shifted out of the mantissa \<open>m\<close>, left-justified in 32 bits.\<close>

definition shifted_out :: "int \<Rightarrow> nat \<Rightarrow> int" where
  "shifted_out m i = (m mod 2 ^ i) * 2 ^ (32 - i)"

lemma shifted_out_0 [simp]: "shifted_out m 0 = 0"
  by (simp add: shifted_out_def)

lemma shifted_out_Suc:
  assumes "i < 32"
  shows "drop_bit 1 (shifted_out m i) OR (0x80000000 * (m div 2 ^ i AND 1)) = shifted_out m (Suc i)"
proof -
  obtain j where j: "32 - i = Suc j" "32 - Suc i = j" "32 = i + Suc j"
    using assms by (metis Suc_diff_Suc add_diff_inverse_nat not_less_iff_gr_or_eq order.asym)
  define r where "r = m mod 2 ^ i"
  have r: "0 \<le> r" "r < 2 ^ i"
    by (simp_all add: r_def)
  have "r * 2 ^ j < 2 ^ i * 2 ^ j"
    using r by simp
  also have "\<dots> = 2 ^ 31"
    using j(3) by (simp flip: power_add)
  finally have b: "r * 2 ^ j < 2 ^ 31" .
  have "drop_bit 1 (shifted_out m i) = r * 2 ^ j"
    by (simp add: shifted_out_def r_def [symmetric] j(1) drop_bit_eq_div)
  moreover have "0x80000000 * (m div 2 ^ i AND 1) = push_bit 31 (m div 2 ^ i mod 2)"
    by (simp add: push_bit_eq_mult and_one_eq)
  moreover have "push_bit 31 (m div 2 ^ i mod 2) OR r * 2 ^ j = (m div 2 ^ i mod 2) * 2 ^ 31 + r * 2 ^ j"
    using b r by (intro or_disjoint) auto
  moreover have "(m div 2 ^ i mod 2) * 2 ^ 31 + r * 2 ^ j = (m mod 2 ^ Suc i) * 2 ^ j"
  proof -
    have "m mod 2 ^ Suc i = 2 ^ i * (m div 2 ^ i mod 2) + r"
      using mod_mult2_eq' [of m "2 ^ i" 2] by (simp add: r_def mult.commute zmod_zmult2_eq)
    moreover have "(2 :: int) ^ 31 = 2 ^ i * 2 ^ j"
      using j(3) by (simp flip: power_add)
    ultimately show ?thesis by (simp add: distrib_right)
  qed
  ultimately show ?thesis
    unfolding shifted_out_def [of m "Suc i"] j(2) by (simp add: or.commute)
qed

lemma div_mod_double:
  fixes r p :: int
  assumes "0 \<le> r" and "r < 2 * p"
  shows "r div p = (if p \<le> r then 1 else 0)" and "r mod p = (if p \<le> r then r - p else r)"
proof -
  have "r div p = 1 \<and> r mod p = r - p" if "p \<le> r"
    using assms that div_add_self2 [of p "r - p"] minus_div_mult_eq_mod [of r p] by (cases "p = 0") auto
  with assms show "r div p = (if p \<le> r then 1 else 0)" "r mod p = (if p \<le> r then r - p else r)"
    by auto
qed

lemma shifted_out_round:
  assumes "0 \<le> m" and "i \<le> 32"
  shows "ManRoundToNearest (m div 2 ^ i AND 1 > 0) (shifted_out m i AND 0x80000000 > 0) (shifted_out m i AND 0x7FFFFFFF > 0)
    (m div 2 ^ i) 0 = rne_div m i"
proof (cases i)
  case 0
  then show ?thesis by (simp add: ManRoundToNearest_def rne_div_def round_up_def)
next
  case (Suc j)
  define r where "r = m mod 2 ^ i"
  have r: "0 \<le> r" "r < 2 * 2 ^ j"
    by (simp_all add: r_def Suc)
  have p: "(2 :: int) ^ 31 = 2 ^ j * 2 ^ (32 - i)"
    using assms(2) Suc by (simp flip: power_add)
  have s: "shifted_out m i = r * 2 ^ (32 - i)"
    by (simp add: shifted_out_def r_def)
  have pos: "0 < x * 2 ^ (32 - i) \<longleftrightarrow> 0 < x" for x :: int
    by (simp add: zero_less_mult_iff)
  have div: "shifted_out m i div 2 ^ 31 = r div 2 ^ j"
    unfolding s p by simp
  have mod: "shifted_out m i mod 2 ^ 31 = (r mod 2 ^ j) * 2 ^ (32 - i)"
    unfolding s p by (simp add: mult_mod_left)
  have high: "(shifted_out m i AND 0x80000000 > 0) = (2 ^ j \<le> r)"
    using and_exp_pos [of "shifted_out m i" 31] r div div_mod_double(1) [OF r] by (simp add: s split: if_splits)
  have "shifted_out m i AND 0x7FFFFFFF = (if 2 ^ j \<le> r then r - 2 ^ j else r) * 2 ^ (32 - i)"
    using and_mask_int [of "shifted_out m i" 31] mod div_mod_double(2) [OF r] by simp
  then have left: "(shifted_out m i AND 0x7FFFFFFF > 0) = ((if 2 ^ j \<le> r then r - 2 ^ j else r) > 0)"
    by (simp only: pos)
  have last: "(m div 2 ^ i AND 1 > 0) = odd (m div 2 ^ i)"
    using and_exp_pos [of "m div 2 ^ i" 0] assms(1) by (simp add: pos_imp_zdiv_nonneg_iff)
  have "round_up m i \<longleftrightarrow> 2 * r > 2 ^ i \<or> 2 * r = 2 ^ i \<and> odd (m div 2 ^ i)"
    by (simp only: round_up_def r_def)
  then have "round_up m i \<longleftrightarrow> r > 2 ^ j \<or> r = 2 ^ j \<and> odd (m div 2 ^ i)"
    by (simp add: Suc)
  then show ?thesis
    unfolding ManRoundToNearest_def rne_div_def high left last by auto
qed

end
