(* ===== verification/Fp16_Arith.thy ===== *)
theory Fp16_Arith
  imports Fp16_Round
begin

text \<open>Half-precision multiplication is correctly rounded.\<close>

declare mul_shift_up.simps [simp del] mul_shift_down.simps [simp del] mul_renormalize.simps [simp del]

section \<open>The loops of the multiplication\<close>

lemma mul_shift_up_run:
  assumes "0 \<le> m" and "m < 2 ^ 22"
  obtains u where "mul_shift_up m e = (m * 2 ^ u, e - int u)" and "2 ^ 10 \<le> m * 2 ^ u \<or> e - int u \<le> 1"
    and "u = 0 \<or> m * 2 ^ u < 2 ^ 11 \<and> 1 \<le> e - int u"
proof -
  have "\<exists>u. mul_shift_up m e = (m * 2 ^ u, e - int u) \<and> (2 ^ 10 \<le> m * 2 ^ u \<or> e - int u \<le> 1)
    \<and> (u = 0 \<or> m * 2 ^ u < 2 ^ 11 \<and> 1 \<le> e - int u)"
    using assms
  proof (induction m e rule: mul_shift_up.induct)
    case (1 m e)
    show ?case
    proof (cases "m < 2 ^ 10 \<and> e > 1")
      case True
      then have step: "mul_shift_up m e = mul_shift_up (m * 2) (e - 1)"
        using 1(2) by (subst mul_shift_up.simps) (simp add: fp16_consts)
      from True 1 obtain u where u: "mul_shift_up (m * 2) (e - 1) = (m * 2 * 2 ^ u, e - 1 - int u)"
        "2 ^ 10 \<le> m * 2 * 2 ^ u \<or> e - 1 - int u \<le> 1" "u = 0 \<or> m * 2 * 2 ^ u < 2 ^ 11 \<and> 1 \<le> e - 1 - int u"
        by (auto simp: fp16_consts)
      then show ?thesis
        using True by (intro exI [of _ "Suc u"]) (auto simp: step)
    next
      case False
      then show ?thesis
        by (intro exI [of _ 0], subst mul_shift_up.simps) (auto simp: fp16_consts)
    qed
  qed
  with that show thesis by blast
qed

lemma mul_shift_down_steps:
  assumes "\<And>j. j < d \<Longrightarrow> \<not> (x div 2 ^ (i + j) < 2 ^ 11 \<and> 1 \<le> e + int j)"
    and "x div 2 ^ (i + d) < 2 ^ 11" and "1 \<le> e + int d" and "i + d \<le> 32"
  shows "mul_shift_down (x div 2 ^ i) e (shifted_out x i) = (x div 2 ^ (i + d), e + int d, shifted_out x (i + d))"
  using assms
proof (induction d arbitrary: i e)
  case 0
  then show ?case by (subst mul_shift_down.simps) (simp add: fp16_consts)
next
  case (Suc d)
  have half: "drop_bit 1 (x div 2 ^ i) = x div 2 ^ Suc i"
    using div_power_Suc [of x i] by (simp add: drop_bit_eq_div)
  have "\<not> (x div 2 ^ i < 2 ^ 11 \<and> 1 \<le> e)"
    using Suc.prems(1) [of 0] by simp
  then have "mul_shift_down (x div 2 ^ i) e (shifted_out x i) = mul_shift_down (x div 2 ^ Suc i) (e + 1) (shifted_out x (Suc i))"
    unfolding half [symmetric] using Suc.prems(4)
    by (subst mul_shift_down.simps, subst shifted_out_Suc [symmetric]) (auto simp: fp16_consts)
  also have "\<dots> = (x div 2 ^ (Suc i + d), e + 1 + int d, shifted_out x (Suc i + d))"
    using Suc.prems(2-) Suc.prems(1) [of "Suc _"] by (intro Suc.IH) auto
  finally show ?case by simp
qed

lemma mul_shift_down_run:
  assumes "0 \<le> x" and "x < 2 ^ 35" and "- 23 \<le> e"
  obtains d where "mul_shift_down x e 0 = (x div 2 ^ d, e + int d, shifted_out x d)" and "d \<le> 24"
    and "x div 2 ^ d < 2 ^ 11" and "1 \<le> e + int d" and "d = 0 \<or> e + int d = 1 \<or> 2 ^ 10 \<le> x div 2 ^ d"
proof -
  define P where "P = (\<lambda>d. x div 2 ^ d < 2 ^ 11 \<and> 1 \<le> e + int d)"
  have "x div 2 ^ 24 < 2 ^ 11"
    using assms(1,2) by simp
  then have P24: "P 24"
    using assms(3) by (simp add: P_def)
  define d where "d = (LEAST d. P d)"
  note d = LeastI [of P, OF P24, folded d_def] Least_le [of P, OF P24, folded d_def] not_less_Least [of _ P, folded d_def]
  have "2 ^ 10 \<le> x div 2 ^ d" if "d \<noteq> 0" "e + int d \<noteq> 1"
  proof -
    from that obtain c where c: "d = Suc c"
      by (cases d) auto
    with d(3) [of c] d(1) that have "2 ^ 11 \<le> x div 2 ^ c"
      by (auto simp: P_def)
    then have "2 ^ 11 div 2 \<le> x div 2 ^ c div 2"
      by (rule zdiv_mono1) simp
    then show ?thesis
      using div_power_Suc [of x c] by (simp add: c)
  qed
  moreover have "mul_shift_down x e 0 = (x div 2 ^ d, e + int d, shifted_out x d)"
    using mul_shift_down_steps [of d x 0 e] d by (simp add: P_def)
  ultimately show thesis
    using d(1,2) by (intro that [of d]) (auto simp: P_def)
qed

lemma mul_renormalize_run:
  assumes "0 \<le> m" and "m \<le> 2 ^ 11" and "0 \<le> e"
  shows "mul_renormalize m e = (if m = 2 ^ 11 then (2 ^ 10, e + 1) else (m, e))"
proof (cases "m = 2 ^ 11")
  case True
  with assms(3) show ?thesis
    by (subst mul_renormalize.simps, subst mul_renormalize.simps) (simp add: fp16_consts)
next
  case False
  with assms show ?thesis
    by (subst mul_renormalize.simps) (simp add: fp16_consts)
qed

section \<open>The rounded pattern\<close>

lemma encode16_shifted:
  assumes "0 \<le> x" and "n = x * 2 ^ j" and "k + e = d + j" and "x div 2 ^ d < 2 ^ 11" and "e = 0 \<or> 2 ^ 10 \<le> x div 2 ^ d"
  shows "encode16 s n k = s * 2 ^ 15 + int e * 2 ^ 10 + rne_div x d" and "round16 n k = rne_div x d * 2 ^ e"
    and "0 \<le> rne_div x d" and "rne_div x d \<le> 2 ^ 11" and "e = 0 \<or> 2 ^ 10 \<le> rne_div x d"
proof -
  have le: "x < 2 ^ 11 * 2 ^ d" "e = 0 \<or> 2 ^ 10 * 2 ^ d \<le> x"
    using assms(4,5) by (simp_all only: le_div_power div_power_less)
  have p: "(2 :: int) ^ (k + i + e) = 2 ^ i * 2 ^ d * 2 ^ j" for i
    using assms(3) by (simp add: ac_simps flip: power_add)
  have u: "0 \<le> n" "n < 2 ^ (k + 11 + e)" "e = 0 \<or> 2 ^ (k + 10 + e) \<le> n"
    using assms(1) le unfolding assms(2) p by auto
  have "rne_div n (k + e) = rne_div x d"
    unfolding assms(2,3) by (rule rne_div_scale)
  with encode16_unique [OF u] show "encode16 s n k = s * 2 ^ 15 + int e * 2 ^ 10 + rne_div x d" "round16 n k = rne_div x d * 2 ^ e"
    by simp_all
  show "0 \<le> rne_div x d" "rne_div x d \<le> 2 ^ 11" "e = 0 \<or> 2 ^ 10 \<le> rne_div x d"
    using rounded_man [OF u(1), of k] ulp16_unique [OF u] \<open>rne_div n (k + e) = rne_div x d\<close> by simp_all
qed


text \<open>The last lines of \<open>Fp16Mul\<close>: renormalisation, subnormal results and overflow.\<close>

lemma assemble16:
  assumes "s = 0 \<or> s = 1" and "0 \<le> r" and "r \<le> 2 ^ 11" and "e = 0 \<or> 2 ^ 10 \<le> r"
    and "(m', e') = (if r = 2 ^ 11 then (2 ^ 10, int e + 1 + 1) else (r, int e + 1))"
    and "(e'', m'') = Fp16Normalize (if e' = 1 \<and> m' < kFp16ManHideBit then 0 else e') (m' mod 2 ^ 16)"
  shows "FP16_CONSTRUCTOR s e'' m'' = (if int e * 2 ^ 10 + r < 31 * 2 ^ 10 then s * 2 ^ 15 + int e * 2 ^ 10 + r else s * 2 ^ 15 + 0x7FFF)"
proof (cases "int e * 2 ^ 10 + r < 31 * 2 ^ 10")
  case True
  have "r mod 1024 = r - 1024" if "1024 \<le> r" "r < 2048"
    using div_mod_double(2) [of r 1024] that by simp
  with True assms have "0 \<le> e''" "e'' \<le> 30" "e'' * 2 ^ 10 + m'' mod 2 ^ 10 = int e * 2 ^ 10 + r"
    by (auto simp: Fp16Normalize_def fp16_consts split: if_splits)
  with True show ?thesis
    unfolding FP16_CONSTRUCTOR_eq [OF assms(1) \<open>0 \<le> e''\<close> order.trans [OF \<open>e'' \<le> 30\<close>, of 31, simplified]] by simp
next
  case False
  with assms have "e'' = 31" "m'' = 0x3FF"
    by (auto simp: Fp16Normalize_def fp16_consts split: if_splits)
  with False assms(1) show ?thesis
    by (simp add: FP16_CONSTRUCTOR_eq)
qed

lemma encode16_nan_shifted:
  assumes "0 \<le> n" and "encode16 s n k = s * 2 ^ 15 + int e * 2 ^ 10 + r" and "round16 n k = r * 2 ^ e"
    and "0 \<le> r" and "r \<le> 2 ^ 11" and "e = 0 \<or> 2 ^ 10 \<le> r"
  shows "encode16_nan s n k = (if int e * 2 ^ 10 + r < 31 * 2 ^ 10 then s * 2 ^ 15 + int e * 2 ^ 10 + r else s * 2 ^ 15 + 0x7FFF)"
  using overflow16 [OF assms(1), of k] assms by (simp add: encode16_nan_def encode16_def)

section \<open>Multiplication\<close>

lemma Fp16Mul_encode:
  assumes "finite16 a" and "finite16 b"
  shows "Fp16Mul kRoundToNearest a b = encode16_nan (sgn16 a XOR sgn16 b) (mag16 a * mag16 b) 24"
proof -
  define s where "s = sgn16 a XOR sgn16 b"
  define ea eb where "ea = max 1 (exp16 a)" and "eb = max 1 (exp16 b)"
  define m where "m = man16 a * man16 b"
  have ab: "is16 a" "is16 b"
    using assms by (simp_all add: finite16_def)
  have s: "s = 0 \<or> s = 1"
    using sgn16_cases [OF ab(1)] sgn16_cases [OF ab(2)] by (auto simp: s_def)
  have e: "1 \<le> ea" "ea \<le> 30" "1 \<le> eb" "eb \<le> 30"
    using assms exp16_bounds by (auto simp: ea_def eb_def finite16_def)
  have m: "0 \<le> m" "m < 2 ^ 22"
    using man16_bounds(1,2) [of a] man16_bounds(1,2) [of b] mult_strict_mono [of "man16 a" "2 ^ 11" "man16 b" "2 ^ 11"]
    by (simp_all add: m_def)
  then have m32: "m mod 2 ^ 32 = m"
    by simp
  obtain u where u: "mul_shift_up m (ea + eb - 25) = (m * 2 ^ u, ea + eb - 25 - int u)"
    "2 ^ 10 \<le> m * 2 ^ u \<or> ea + eb - 25 - int u \<le> 1" "u = 0 \<or> m * 2 ^ u < 2 ^ 11 \<and> 1 \<le> ea + eb - 25 - int u"
    by (rule mul_shift_up_run [OF m])
  define x E where "x = m * 2 ^ u" and "E = ea + eb - 25 - int u"
  have x: "0 \<le> x" "x < 2 ^ 35" "- 23 \<le> E"
    using m u(3) e by (auto simp: x_def E_def)
  obtain d where d: "mul_shift_down x E 0 = (x div 2 ^ d, E + int d, shifted_out x d)" "d \<le> 24"
    "x div 2 ^ d < 2 ^ 11" "1 \<le> E + int d" "d = 0 \<or> E + int d = 1 \<or> 2 ^ 10 \<le> x div 2 ^ d"
    by (rule mul_shift_down_run [OF x])
  have mag: "mag16 a * mag16 b = x * 2 ^ nat (E + 23)"
  proof -
    have "mag16 a * mag16 b = m * (2 ^ nat (ea - 1) * 2 ^ nat (eb - 1))"
      by (simp add: mag16_max m_def ea_def eb_def)
    also have "\<dots> = m * (2 ^ u * 2 ^ nat (E + 23))"
      using e x(3) unfolding power_add [symmetric]
      by (intro arg_cong [of _ _ "\<lambda>i. m * 2 ^ i"]) (simp add: E_def)
    finally show ?thesis by (simp add: x_def)
  qed
  define e' where "e' = nat (E + int d - 1)"
  have "e' = 0 \<or> 2 ^ 10 \<le> x div 2 ^ d"
    using d u(2) by (auto simp: e'_def x_def E_def)
  moreover have "24 + e' = d + nat (E + 23)"
    using d(4) x(3) by (simp add: e'_def)
  ultimately have R: "encode16 s (mag16 a * mag16 b) 24 = s * 2 ^ 15 + int e' * 2 ^ 10 + rne_div x d"
    "round16 (mag16 a * mag16 b) 24 = rne_div x d * 2 ^ e'" "0 \<le> rne_div x d" "rne_div x d \<le> 2 ^ 11"
    "e' = 0 \<or> 2 ^ 10 \<le> rne_div x d"
    using encode16_shifted [where k = 24, OF x(1) mag _ d(3)] by blast+
  obtain m1 e1 where n1: "(m1, e1) = (if rne_div x d = 2 ^ 11 then (2 ^ 10, int e' + 1 + 1) else (rne_div x d, int e' + 1))"
    by (metis surj_pair)
  have n2: "mul_renormalize (rne_div x d) (E + int d) = (m1, e1)"
    using mul_renormalize_run [OF R(3,4), of "E + int d"] d(4) n1 by (simp add: e'_def)
  obtain e2 m2 where n3: "(e2, m2) = Fp16Normalize (if e1 = 1 \<and> m1 < kFp16ManHideBit then 0 else e1) (m1 mod 2 ^ 16)"
    by (metis surj_pair)
  have bias: "ea + eb - kFp16ExpBias - 10 = ea + eb - 25"
    by (simp add: kFp16ExpBias_def)
  have "Fp16Mul kRoundToNearest a b = FP16_CONSTRUCTOR s e2 m2"
    using shifted_out_round [OF x(1), of d] d(2)
    by (simp only: Fp16Mul_def ExtractFp16_eq [OF ab(1)] ExtractFp16_eq [OF ab(2)] Let_def prod.case m_def [symmetric] m32
        ea_def [symmetric] eb_def [symmetric] s_def [symmetric] bias u(1) x_def [symmetric] E_def [symmetric] d(1) simp_thms
        n2 n3 [symmetric])
  then show ?thesis
    using assemble16 [OF s R(3-5) n1 n3] encode16_nan_shifted [OF _ R] mag16_nonneg by (simp add: s_def)
qed

end
