(* ===== verification/Fp16_Convert.thy ===== *)
theory Fp16_Convert
  imports Fp16_Arith
begin

text \<open>
  Conversions between half precision and \<open>float\<close>, \<open>double\<close> and the integer types. An IEEE pattern with an exponent
  field of \<open>w\<close> bits and a fraction of \<open>l\<close> bits has its magnitude in units of its smallest subnormal value.
\<close>

section \<open>IEEE patterns\<close>

definition ieee_sgn :: "nat \<Rightarrow> nat \<Rightarrow> int \<Rightarrow> int" where "ieee_sgn l w v = v div 2 ^ (l + w)"
definition ieee_exp :: "nat \<Rightarrow> nat \<Rightarrow> int \<Rightarrow> int" where "ieee_exp l w v = v div 2 ^ l mod 2 ^ w"
definition ieee_frac :: "nat \<Rightarrow> int \<Rightarrow> int" where "ieee_frac l v = v mod 2 ^ l"

definition ieee_mag :: "nat \<Rightarrow> nat \<Rightarrow> int \<Rightarrow> int" where
  "ieee_mag l w v = (ieee_frac l v + (if ieee_exp l w v > 0 then 2 ^ l else 0)) * 2 ^ (nat (ieee_exp l w v) - 1)"

lemma ieee_bounds:
  assumes "0 \<le> v" and "v < 2 ^ (l + w + 1)"
  shows "ieee_sgn l w v = 0 \<or> ieee_sgn l w v = 1" and "0 \<le> ieee_exp l w v" and "ieee_exp l w v < 2 ^ w"
    and "0 \<le> ieee_frac l v" and "ieee_frac l v < 2 ^ l"
proof -
  have "ieee_sgn l w v < 2" "0 \<le> ieee_sgn l w v"
    using assms by (simp_all add: ieee_sgn_def div_power_less pos_imp_zdiv_nonneg_iff)
  then show "ieee_sgn l w v = 0 \<or> ieee_sgn l w v = 1" by auto
qed (simp_all add: ieee_exp_def ieee_frac_def)

lemma hide_bit:
  assumes "0 \<le> r" and "r < 2 ^ 11"
  shows "r AND kFp16ManHideBit = 0 \<longleftrightarrow> r < 2 ^ 10"
proof -
  have "r AND 2 ^ 10 > 0 \<longleftrightarrow> 2 ^ 10 \<le> r"
    using and_exp_pos [OF assms(1), of 10] div_mod_double(1) [of r "2 ^ 10"] assms by simp
  moreover have "r AND 1024 > 0 \<or> r AND 1024 = 0"
    using AND_lower [OF assms(1), of 1024] unfolding le_less by auto
  ultimately show ?thesis
    by (auto simp: kFp16ManHideBit_def)
qed

section \<open>Rounding a fraction to ten bits\<close>

lemma rounded_field:
  assumes "0 \<le> m" and "2 \<le> k" and "m div 2 ^ k < 2 ^ 15"
  shows "(if IsRoundOne kRoundToNearest m k then (drop_bit k m mod 2 ^ 16 + 1) mod 2 ^ 16 else drop_bit k m mod 2 ^ 16) = rne_div m k"
proof -
  have "0 \<le> m div 2 ^ k"
    using assms(1) by (simp add: pos_imp_zdiv_nonneg_iff)
  with assms show ?thesis
    by (auto simp: IsRoundOne_round_up rne_div_def drop_bit_eq_div)
qed

lemma rne_div_add_even:
  assumes "even c"
  shows "rne_div (c * 2 ^ k + m) k = c + rne_div m k"
  using assms by (simp add: rne_div_def round_up_def)

lemma power_minus_10: "10 \<le> l \<Longrightarrow> (2 :: int) ^ l = 2 ^ 10 * 2 ^ (l - 10)"
  using power_add [of "2 :: int" 10 "l - 10"] by simp

lemma narrow_normal:
  assumes "s = 0 \<or> s = 1" and "12 \<le> l" and "0 \<le> m" and "m < 2 ^ l" and "r = rne_div m (l - 10)"
    and "(e', m') = Fp16Normalize (if r AND kFp16ManHideBit \<noteq> 0 then int e + 1 + 1 else int e + 1) r" 
  shows "FP16_CONSTRUCTOR s e' m' = encode16_nan s ((2 ^ l + m) * 2 ^ e) (l - 10)"
proof -
  define x where "x = 2 ^ l + m"
  have l: "(2 :: int) ^ l = 2 ^ 10 * 2 ^ (l - 10)"
    using assms(2) by (intro power_minus_10) simp
  have x: "0 \<le> x" "x div 2 ^ (l - 10) < 2 ^ 11" "2 ^ 10 \<le> x div 2 ^ (l - 10)"
    using assms(3,4) by (simp_all add: x_def div_power_less le_div_power l)
  have rx: "rne_div x (l - 10) = 2 ^ 10 + r"
    unfolding x_def l assms(5) by (intro rne_div_add_even) simp
  have "e = 0 \<or> 2 ^ 10 \<le> x div 2 ^ (l - 10)"
    using x(3) by blast
  note R = encode16_shifted [where n = "x * 2 ^ e" and k = "l - 10", OF x(1) refl refl x(2) this]
  have r: "0 \<le> r" "r \<le> 2 ^ 10"
    using rne_div_mono_bounds [of 0 "l - 10" m "2 ^ 10"] assms(3,4) by (simp_all add: assms(5) l)
  have "r AND kFp16ManHideBit \<noteq> 0 \<longleftrightarrow> r = 2 ^ 10"
    using hide_bit [of r] r by auto
  moreover have "encode16_nan s (x * 2 ^ e) (l - 10) = (if int e * 2 ^ 10 + (2 ^ 10 + r) < 31 * 2 ^ 10
      then s * 2 ^ 15 + int e * 2 ^ 10 + (2 ^ 10 + r) else s * 2 ^ 15 + 0x7FFF)"
    using x(1) r by (intro encode16_nan_shifted) (use R in \<open>simp_all add: rx\<close>)
  moreover have "FP16_CONSTRUCTOR s e' m' = s * 2 ^ 15 + e' * 2 ^ 10 + m' mod 2 ^ 10"
    using calculation(1) assms(6) r by (intro FP16_CONSTRUCTOR_eq [OF assms(1)])
      (auto simp: Fp16Normalize_def fp16_consts split: if_splits)
  ultimately show ?thesis
    using assms(6) r unfolding x_def [symmetric] by (auto simp: Fp16Normalize_def fp16_consts split: if_splits)
qed

lemma narrow_subnormal:
  assumes "s = 0 \<or> s = 1" and "0 \<le> m" and "m div 2 ^ k < 2 ^ 10" and "(e', m') = Fp16Normalize 0 (rne_div m k)"
  shows "FP16_CONSTRUCTOR s e' m' = encode16_nan s m k"
proof -
  define r where "r = rne_div m k"
  have r: "0 \<le> r" "r \<le> 2 ^ 10"
    using rne_div_mono_bounds [of 0 k m "2 ^ 10"] assms(2,3) by (simp_all add: r_def div_power_less)
  have "m div 2 ^ k < 2 ^ 11"
    using assms(3) by simp
  note R = encode16_shifted [where n = m and k = k and e = 0 and d = k and j = 0, OF assms(2) _ _ this, folded r_def]
  have "encode16_nan s m k = (if int 0 * 2 ^ 10 + r < 31 * 2 ^ 10 then s * 2 ^ 15 + int 0 * 2 ^ 10 + r else s * 2 ^ 15 + 0x7FFF)"
    using assms(2) r by (intro encode16_nan_shifted) (use R in simp_all)
  moreover have "FP16_CONSTRUCTOR s e' m' = s * 2 ^ 15 + e' * 2 ^ 10 + m' mod 2 ^ 10"
    using assms(4) r by (intro FP16_CONSTRUCTOR_eq [OF assms(1)])
      (auto simp: Fp16Normalize_def fp16_consts r_def [symmetric] split: if_splits)
  ultimately show ?thesis
    using assms(4) r by (auto simp: Fp16Normalize_def fp16_consts r_def [symmetric] split: if_splits)
qed

lemma rne_div_half:
  assumes "0 \<le> m" and "m < 2 ^ l"
  shows "rne_div (2 ^ l + m) (Suc l) = (if m > 0 then 1 else 0)"
proof -
  have "(2 ^ l + m) div 2 ^ Suc l = 0" "(2 ^ l + m) mod 2 ^ Suc l = 2 ^ l + m"
    using assms by (auto intro!: div_pos_pos_trivial mod_pos_pos_trivial)
  with assms show ?thesis
    by (auto simp: rne_div_def round_up_def)
qed

section \<open>Conversion from the wider formats\<close>

text \<open>The computation the conversions from \<open>float\<close> and \<open>double\<close> share below their overflow threshold.\<close>

definition narrow_fields :: "nat \<Rightarrow> int \<Rightarrow> int \<Rightarrow> int \<Rightarrow> int \<times> int" where
  "narrow_fields l b e m =
     (if e \<le> b then
        (0, if e \<ge> b - 9 then
              let m_tmp = push_bit (nat (e - (b - 9))) (m OR 2 ^ l);
                  m_ret = drop_bit l m_tmp mod 2 ^ 16
              in if IsRoundOne kRoundToNearest m_tmp l then (m_ret + 1) mod 2 ^ 16 else m_ret
            else if e = b - 10 \<and> m > 0 then 1 else 0)
      else
        let m_ret = drop_bit (l - 10) m mod 2 ^ 16;
            m_ret = (if IsRoundOne kRoundToNearest m (l - 10) then (m_ret + 1) mod 2 ^ 16 else m_ret)
        in (if m_ret AND kFp16ManHideBit \<noteq> 0 then e - b + 1 else e - b, m_ret))"

lemma narrow_fields_encode:
  assumes "s = 0 \<or> s = 1" and "12 \<le> l" and "0 \<le> m" and "m < 2 ^ l" and "0 \<le> e" and "12 \<le> b"
    and "(e', m') = (let (e, m) = narrow_fields l (int b) e m in Fp16Normalize e m)"
  shows "FP16_CONSTRUCTOR s e' m' = encode16_nan s ((m + (if e > 0 then 2 ^ l else 0)) * 2 ^ (nat e - 1)) (b + (l - 10))"
proof -
  consider (normal) i where "e = int b + 1 + int i" | (sub) i where "e = int b - 9 + int i" "i \<le> 9" | (half) "e = int b - 10"
    | (tiny) "e < int b - 10"
  proof -
    have "int b < e \<Longrightarrow> e = int b + 1 + int (nat (e - int b - 1))"
      and "int b - 9 \<le> e \<Longrightarrow> e \<le> int b \<Longrightarrow> e = int b - 9 + int (nat (e - int b + 9)) \<and> nat (e - int b + 9) \<le> 9"
      by auto
    moreover have "int b < e \<or> int b - 9 \<le> e \<and> e \<le> int b \<or> e = int b - 10 \<or> e < int b - 10"
      by linarith
    ultimately show thesis
      using that by metis
  qed
  then show ?thesis
  proof cases
    case normal
    have "m div 2 ^ (l - 10) < 2 ^ 10"
      using assms(2,4) power_minus_10 [of l] by (simp add: div_power_less)
    then have F: "(if IsRoundOne kRoundToNearest m (l - 10) then (drop_bit (l - 10) m mod 2 ^ 16 + 1) mod 2 ^ 16
        else drop_bit (l - 10) m mod 2 ^ 16) = rne_div m (l - 10)"
      using assms(2,3) by (intro rounded_field) auto
    have "narrow_fields l (int b) e m = (if rne_div m (l - 10) AND kFp16ManHideBit \<noteq> 0 then int i + 1 + 1 else int i + 1, rne_div m (l - 10))"
      unfolding narrow_fields_def Let_def F by (simp add: normal)
    with assms(7) have "FP16_CONSTRUCTOR s e' m' = encode16_nan s ((2 ^ l + m) * 2 ^ i) (l - 10)"
      by (intro narrow_normal [OF assms(1-4) refl]) simp
    also have "\<dots> = encode16_nan s ((2 ^ l + m) * 2 ^ i * 2 ^ b) (l - 10 + b)"
      using assms(3) by (intro encode16_scale(3) [symmetric]) simp
    also have "(2 ^ l + m) * 2 ^ i * 2 ^ b = (m + (if e > 0 then 2 ^ l else 0)) * 2 ^ (nat e - 1)"
      using normal by (simp add: nat_add_distrib power_add)
    finally show ?thesis by (simp add: add.commute)
  next
    case sub
    define x where "x = (2 ^ l + m) * 2 ^ i"
    have "(m OR 2 ^ l) = 2 ^ l + m"
      using or_disjoint [OF assms(3,4), of 1] by (simp add: or.commute)
    then have x: "push_bit (nat (e - (int b - 9))) (m OR 2 ^ l) = x"
      using sub by (simp add: x_def push_bit_eq_mult)
    have "x < 2 ^ Suc l * 2 ^ i"
      using assms(4) by (simp add: x_def)
    also have "\<dots> \<le> 2 ^ Suc l * 2 ^ 9"
      using sub(2) by (intro mult_left_mono power_increasing) auto
    finally have x2: "0 \<le> x" "x div 2 ^ l < 2 ^ 10"
      using assms(3) by (simp_all add: x_def div_power_less)
    then have F: "(if IsRoundOne kRoundToNearest x l then (drop_bit l x mod 2 ^ 16 + 1) mod 2 ^ 16 else drop_bit l x mod 2 ^ 16) = rne_div x l"
      using assms(2) by (intro rounded_field) auto
    have "narrow_fields l (int b) e m = (0, rne_div x l)"
      unfolding narrow_fields_def Let_def x F using sub by simp
    with assms(7) have "FP16_CONSTRUCTOR s e' m' = encode16_nan s x l"
      by (intro narrow_subnormal [OF assms(1) x2]) simp
    also have "\<dots> = encode16_nan s (x * 2 ^ (b - 10)) (l + (b - 10))"
      using x2 by (intro encode16_scale(3) [symmetric]) simp
    also have "x * 2 ^ (b - 10) = (m + (if e > 0 then 2 ^ l else 0)) * 2 ^ (nat e - 1)"
    proof -
      have "nat e - 1 = i + (b - 10)"
        using sub assms(6) by simp
      moreover have "e > 0"
        using sub assms(6) by simp
      ultimately show ?thesis by (simp add: x_def power_add add.commute)
    qed
    finally show ?thesis
      using assms(2,6) by (simp add: add.commute)
  next
    case half
    define x where "x = 2 ^ l + m"
    have x: "0 \<le> x" "x div 2 ^ Suc l < 2 ^ 10"
      using assms(3,4) by (simp_all add: x_def div_power_less)
    have "narrow_fields l (int b) e m = (0, rne_div x (Suc l))"
      unfolding narrow_fields_def x_def rne_div_half [OF assms(3,4)] using half by simp
    with assms(7) have "FP16_CONSTRUCTOR s e' m' = encode16_nan s x (Suc l)"
      by (intro narrow_subnormal [OF assms(1) x]) simp
    also have "\<dots> = encode16_nan s (x * 2 ^ (b - 11)) (Suc l + (b - 11))"
      using x by (intro encode16_scale(3) [symmetric]) simp
    also have "x * 2 ^ (b - 11) = (m + (if e > 0 then 2 ^ l else 0)) * 2 ^ (nat e - 1)"
      using half assms(6) by (auto simp: x_def add.commute nat_diff_distrib)
    also have "Suc l + (b - 11) = b + (l - 10)"
      using assms(2,6) by simp
    finally show ?thesis .
  next
    case tiny
    define n where "n = (m + (if e > 0 then 2 ^ l else 0)) * 2 ^ (nat e - 1)"
    have "n < 2 ^ Suc l * 2 ^ (b - 12)"
      using assms(3-6) tiny unfolding n_def by (intro mult_less_le_imp_less power_increasing) auto
    also have "\<dots> \<le> 2 ^ (b + (l - 10) - 1)"
      using assms(2,6) tiny by (auto simp: assms(5) simp flip: power_Suc power_add intro!: power_increasing)
    finally have "2 * n < 2 ^ Suc (b + (l - 10) - 1)"
      by simp
    moreover have "Suc (b + (l - 10) - 1) = b + (l - 10)"
      using assms(2) by simp
    ultimately have n: "0 \<le> n" "2 * n < 2 ^ (b + (l - 10))"
      using assms(3) by (simp_all only: n_def) simp
    then have "n div 2 ^ (b + (l - 10)) < 2 ^ 10"
      by (simp add: div_power_less)
    moreover have "narrow_fields l (int b) e m = (0, rne_div n (b + (l - 10)))"
      unfolding narrow_fields_def rne_div_small [OF n] using tiny by simp
    ultimately show ?thesis
      using assms(7) n unfolding n_def [symmetric] by (intro narrow_subnormal [OF assms(1)]) auto
  qed
qed


lemma ieee_fields:
  assumes "0 \<le> v" and "v < 2 ^ (l + w + 1)"
  shows "n = l + w \<Longrightarrow> msk = 2 ^ n \<Longrightarrow> drop_bit n (v AND msk) = ieee_sgn l w v"
    and "msk = 2 ^ l * (2 ^ w - 1) \<Longrightarrow> drop_bit l (v AND msk) = ieee_exp l w v"
    and "msk = 2 ^ l - 1 \<Longrightarrow> v AND msk = ieee_frac l v"
proof -
  note drop = drop_and [of _ v]
  show "n = l + w \<Longrightarrow> msk = 2 ^ n \<Longrightarrow> drop_bit n (v AND msk) = ieee_sgn l w v"
    using drop [of n 1] ieee_bounds(1) [OF assms] by (auto simp: push_bit_eq_mult ieee_sgn_def)
  show "msk = 2 ^ l * (2 ^ w - 1) \<Longrightarrow> drop_bit l (v AND msk) = ieee_exp l w v"
    using drop [of l "2 ^ w - 1"] by (simp add: push_bit_eq_mult mult.commute ieee_exp_def and_mask_int)
  show "msk = 2 ^ l - 1 \<Longrightarrow> v AND msk = ieee_frac l v"
    by (simp add: ieee_frac_def and_mask_int)
qed

lemma fp16_of_float_encode:
  assumes "0 \<le> v" and "v < 2 ^ 32"
  shows "fp16_of_float kRoundToNearest v =
    (if ieee_exp 23 8 v > 0x8F then ieee_sgn 23 8 v * 2 ^ 15 + 0x7BFF else encode16_nan (ieee_sgn 23 8 v) (ieee_mag 23 8 v) 125)"
proof -
  define s e m where "s = ieee_sgn 23 8 v" and "e = ieee_exp 23 8 v" and "m = ieee_frac 23 v"
  have v: "v < 2 ^ (23 + 8 + 1)"
    using assms by simp
  have f: "drop_bit 31 (v AND 0x80000000) = s" "drop_bit 23 (v AND 0x7F800000) = e" "v AND 0x007FFFFF = m"
    unfolding s_def e_def m_def by (rule ieee_fields [OF assms(1) v]; simp)+
  have b: "s = 0 \<or> s = 1" "0 \<le> e" "0 \<le> m" "m < 2 ^ 23"
    using ieee_bounds [OF assms(1) v] by (simp_all add: s_def e_def m_def)
  obtain e1 m1 where n: "narrow_fields 23 (int 112) e m = (e1, m1)"
    by (metis surj_pair)
  obtain e' m' where n': "(e', m') = Fp16Normalize e1 m1"
    by (metis surj_pair)
  have num: "int 112 = 0x70" "(0x70 :: int) - 9 = 0x67" "(0x70 :: int) - 10 = 0x66" "(2 :: int) ^ 23 = 0x00800000"
    by simp_all
  have "fp16_of_float kRoundToNearest v = FP16_CONSTRUCTOR s e' m'" if "\<not> e > 0x8F"
    using that by (simp only: fp16_of_float_def Let_def f if_False
        n [unfolded narrow_fields_def Let_def num] n' [symmetric] prod.case)
  moreover have "fp16_of_float kRoundToNearest v = FP16_CONSTRUCTOR s 30 0x3FF" if "e > 0x8F"
    using that by (simp only: fp16_of_float_def Let_def f if_True prod.case) (simp add: Fp16Normalize_def fp16_consts)
  moreover have "FP16_CONSTRUCTOR s 30 0x3FF = s * 2 ^ 15 + 0x7BFF"
    using b(1) by (simp add: FP16_CONSTRUCTOR_eq)
  moreover have "FP16_CONSTRUCTOR s e' m' = encode16_nan s ((m + (if e > 0 then 2 ^ 23 else 0)) * 2 ^ (nat e - 1)) (112 + (23 - 10))"
    by (rule narrow_fields_encode [OF b(1) _ b(3,4,2)]) (simp_all add: n n' del: of_nat_numeral)
  ultimately show ?thesis
    by (simp add: ieee_mag_def s_def e_def m_def)
qed

lemma fp16_of_double_encode:
  assumes "0 \<le> v" and "v < 2 ^ 64"
  shows "fp16_of_double kRoundToNearest v =
    (if ieee_exp 52 11 v \<ge> 0x410 then ieee_sgn 52 11 v * 2 ^ 15 + 0x7BFF else encode16_nan (ieee_sgn 52 11 v) (ieee_mag 52 11 v) 1050)"
proof -
  define s e m where "s = ieee_sgn 52 11 v" and "e = ieee_exp 52 11 v" and "m = ieee_frac 52 v"
  have v: "v < 2 ^ (52 + 11 + 1)"
    using assms by simp
  have f: "drop_bit 63 (v AND 0x8000000000000000) = s" "drop_bit 52 (v AND 0x7FF0000000000000) = e" "v AND 0x000FFFFFFFFFFFFF = m"
    unfolding s_def e_def m_def by (rule ieee_fields [OF assms(1) v]; simp)+
  have b: "s = 0 \<or> s = 1" "0 \<le> e" "0 \<le> m" "m < 2 ^ 52"
    using ieee_bounds [OF assms(1) v] by (simp_all add: s_def e_def m_def)
  obtain e1 m1 where n: "narrow_fields 52 (int 1008) e m = (e1, m1)"
    by (metis surj_pair)
  obtain e' m' where n': "(e', m') = Fp16Normalize e1 m1"
    by (metis surj_pair)
  have num: "int 1008 = 0x3F0" "(0x3F0 :: int) - 9 = 0x3E7" "(0x3F0 :: int) - 10 = 0x3E6" "(2 :: int) ^ 52 = 0x0010000000000000"
    by simp_all
  have "fp16_of_double kRoundToNearest v = FP16_CONSTRUCTOR s e' m'" if "\<not> e \<ge> 0x410"
    using that by (simp only: fp16_of_double_def Let_def f if_False or.commute [of m]
        n [unfolded narrow_fields_def Let_def num or.commute [of m]] n' [symmetric] prod.case)
  moreover have "fp16_of_double kRoundToNearest v = FP16_CONSTRUCTOR s 30 0x3FF" if "e \<ge> 0x410"
    using that by (simp only: fp16_of_double_def Let_def f if_True prod.case) (simp add: Fp16Normalize_def fp16_consts)
  moreover have "FP16_CONSTRUCTOR s 30 0x3FF = s * 2 ^ 15 + 0x7BFF"
    using b(1) by (simp add: FP16_CONSTRUCTOR_eq)
  moreover have "FP16_CONSTRUCTOR s e' m' = encode16_nan s ((m + (if e > 0 then 2 ^ 52 else 0)) * 2 ^ (nat e - 1)) (1008 + (52 - 10))"
    by (rule narrow_fields_encode [OF b(1) _ b(3,4,2)]) (simp_all add: n n' del: of_nat_numeral)
  ultimately show ?thesis
    by (simp add: ieee_mag_def s_def e_def m_def)
qed


section \<open>Conversion to the wider formats\<close>

lemma normalize_man_run:
  assumes "0 < m" and "m < 2 ^ 11"
  obtains j where "normalize_man m e = Some (m * 2 ^ j, e - int j)" and "raise_man m e = Some (m * 2 ^ j, e - int j)" and "2 ^ 10 \<le> m * 2 ^ j" and "m * 2 ^ j < 2 ^ 11" and "j \<le> 10"
proof -
  have "\<exists>j. normalize_man m e = Some (m * 2 ^ j, e - int j) \<and> raise_man m e = Some (m * 2 ^ j, e - int j) \<and> 2 ^ 10 \<le> m * 2 ^ j \<and> m * 2 ^ j < 2 ^ 11"
    using assms
  proof (induction "nat (2 ^ 11 - m)" arbitrary: m e rule: less_induct)
    case less
    show ?case
    proof (cases "m < 2 ^ 10")
      case True
      then have "normalize_man m e = normalize_man (m * 2) (e - 1)" "raise_man m e = raise_man (m * 2) (e - 1)"
        using less.prems hide_bit [of m] by (simp_all add: normalize_man.simps [of m] raise_man.simps [of m])
      moreover obtain j where "normalize_man (m * 2) (e - 1) = Some (m * 2 * 2 ^ j, e - 1 - int j)"
        "raise_man (m * 2) (e - 1) = Some (m * 2 * 2 ^ j, e - 1 - int j)"
        "2 ^ 10 \<le> m * 2 * 2 ^ j" "m * 2 * 2 ^ j < 2 ^ 11"
        using less.hyps [of "m * 2" "e - 1"] less.prems True by auto
      ultimately show ?thesis
        by (intro exI [of _ "Suc j"]) auto
    next
      case False
      with less.prems hide_bit [of m] show ?thesis
        by (intro exI [of _ 0]) (simp add: normalize_man.simps [of m] raise_man.simps [of m])
    qed
  qed
  then obtain j where j: "normalize_man m e = Some (m * 2 ^ j, e - int j)" "raise_man m e = Some (m * 2 ^ j, e - int j)"
    "2 ^ 10 \<le> m * 2 ^ j" "m * 2 ^ j < 2 ^ 11"
    by blast
  have "1 * 2 ^ j \<le> m * 2 ^ j"
    using assms(1) by (intro mult_right_mono) auto
  with j(4) have "(2 :: int) ^ j < 2 ^ 11"
    by linarith
  then have "j < 11"
    by (simp only: power_strict_increasing_iff [of "2 :: int"] one_less_numeral_iff semiring_norm)
  with j that show thesis by simp
qed

lemma ieee_pattern:
  assumes "s = 0 \<or> s = 1" and "0 \<le> e" and "e < 2 ^ w" and "0 \<le> m" and "m < 2 ^ l" and "v = s * 2 ^ (l + w) + e * 2 ^ l + m"
  shows "0 \<le> v" and "v < 2 ^ (l + w + 1)" and "ieee_sgn l w v = s" and "ieee_exp l w v = e" and "ieee_frac l v = m"
proof -
  have v: "v = (s * 2 ^ w + e) * 2 ^ l + m"
    by (simp add: assms(6) power_add algebra_simps)
  moreover from this have "v div 2 ^ l = s * 2 ^ w + e"
    using assms(4,5) by simp
  ultimately have v: "v = (s * 2 ^ w + e) * 2 ^ l + m" "v div 2 ^ l = s * 2 ^ w + e"
    by blast+
  show "0 \<le> v"
    using assms by auto
  have "v div 2 ^ (l + w) = v div 2 ^ l div 2 ^ w"
    by (simp add: power_add zdiv_zmult2_eq)
  also have "\<dots> = s"
    using assms(2,3) by (simp add: v(2))
  finally show sgn: "ieee_sgn l w v = s"
    by (simp add: ieee_sgn_def)
  have "v div 2 ^ (l + w) < 2"
    using sgn assms(1) by (auto simp: ieee_sgn_def)
  then show "v < 2 ^ (l + w + 1)"
    by (simp add: div_power_less)
  show "ieee_exp l w v = e" "ieee_frac l v = m"
    using assms(2-5) v(2) by (simp_all add: ieee_exp_def ieee_frac_def v(1))
qed

lemma or_fields:
  assumes "0 \<le> e" and "e < 2 ^ w" and "0 \<le> m" and "m < 2 ^ l" and "n = l + w"
  shows "(push_bit n s OR push_bit l e) OR m = s * 2 ^ n + e * 2 ^ l + (m :: int)"
proof -
  have "push_bit n s OR push_bit l e = push_bit l (push_bit w s OR e)"
    by (simp add: assms(5) push_bit_push_bit add.commute)
  also have "push_bit w s OR e = s * 2 ^ w + e"
    using assms(1,2) by (rule or_disjoint)
  finally have "(push_bit n s OR push_bit l e) OR m = (s * 2 ^ w + e) * 2 ^ l + m"
    using or_disjoint [OF assms(3,4)] by simp
  then show ?thesis
    by (simp add: assms(5) power_add algebra_simps)
qed

lemma widened_mag:
  assumes "finite16 v" and "man16 v \<noteq> 0" and "man16 v * 2 ^ j = m" and "2 ^ 10 \<le> m" and "j \<le> 10" and "10 \<le> l" and "11 \<le> b"
    and "ieee_exp l w f = max 1 (exp16 v) - int j + int b" and "ieee_frac l f = (m - 2 ^ 10) * 2 ^ (l - 10)"
  shows "ieee_mag l w f = mag16 v * 2 ^ (b + l - 10)"
proof -
  have e: "1 \<le> max 1 (exp16 v)"
    by simp
  have "ieee_frac l f + 2 ^ l = m * 2 ^ (l - 10)"
    using power_minus_10 [OF assms(6)] by (simp add: assms(9) algebra_simps)
  moreover have "ieee_exp l w f > 0" "nat (ieee_exp l w f) - 1 = nat (max 1 (exp16 v) - 1) + (b - j)"
    using e assms(5,7) unfolding assms(8) by linarith+
  ultimately have "ieee_mag l w f = man16 v * 2 ^ (j + (l - 10) + nat (max 1 (exp16 v) - 1) + (b - j))"
    by (simp add: ieee_mag_def power_add assms(3) [symmetric])
  also have "j + (l - 10) + nat (max 1 (exp16 v) - 1) + (b - j) = nat (max 1 (exp16 v) - 1) + (b + l - 10)"
    using assms(5-7) by simp
  finally show ?thesis
    by (simp add: mag16_max power_add)
qed


lemma widen_fields:
  assumes "finite16 v" and "man16 v \<noteq> 0" and "10 \<le> l" and "11 \<le> b" and "int b + 30 < 2 ^ w"
  obtains m e g f where "normalize_man (man16 v) (max 1 (exp16 v)) = Some (m, e)" and "m \<noteq> 0" and "m AND kFp16ManMask = g"
    and "0 \<le> e + int b" and "e \<le> 30" and "0 \<le> g * 2 ^ (l - 10)" and "g * 2 ^ (l - 10) < 2 ^ l"
    and "f = sgn16 v * 2 ^ (l + w) + (e + int b) * 2 ^ l + g * 2 ^ (l - 10)" and "0 \<le> f" and "f < 2 ^ (l + w + 1)"
    and "ieee_sgn l w f = sgn16 v" and "ieee_exp l w f = e + int b" and "ieee_mag l w f = mag16 v * 2 ^ (b + l - 10)"
proof -
  note v16 = assms(1) [unfolded finite16_def, THEN conjunct1]
  have e: "1 \<le> max 1 (exp16 v)" "max 1 (exp16 v) \<le> 30"
    using assms(1) by (auto simp: finite16_def)
  have "0 < man16 v" "man16 v < 2 ^ 11"
    using man16_bounds [of v] assms(2) by auto
  then obtain j where j: "normalize_man (man16 v) (max 1 (exp16 v)) = Some (man16 v * 2 ^ j, max 1 (exp16 v) - int j)"
    "2 ^ 10 \<le> man16 v * 2 ^ j" "man16 v * 2 ^ j < 2 ^ 11" "j \<le> 10"
    by (rule normalize_man_run) blast
  define m E g where "m = man16 v * 2 ^ j" and "E = max 1 (exp16 v) - int j" and "g = man16 v * 2 ^ j - 2 ^ 10"
  define f where "f = sgn16 v * 2 ^ (l + w) + (E + int b) * 2 ^ l + g * 2 ^ (l - 10)"
  have g: "0 \<le> g" "g < 2 ^ 10" and E: "0 \<le> E + int b" "E \<le> 30" "E + int b < 2 ^ w"
    using j e assms(4,5) by (simp_all add: g_def E_def)
  have frac: "0 \<le> g * 2 ^ (l - 10)" "g * 2 ^ (l - 10) < 2 ^ l"
    using g by (simp_all add: power_minus_10 [OF assms(3)])
  note P = ieee_pattern [OF sgn16_cases [OF v16] E(1,3) frac f_def]
  have "ieee_mag l w f = mag16 v * 2 ^ (b + l - 10)"
    using P j(2,4) assms(3,4) by (intro widened_mag [OF assms(1,2) m_def [symmetric]]) (simp_all add: E_def g_def m_def)
  moreover have "m AND kFp16ManMask = g"
    using j(2,3) div_mod_double(2) [of m "2 ^ 10"] by (simp add: kFp16ManMask_def m_def g_def)
  ultimately show thesis
    using that [of m E g f] j(1,2) E frac P f_def assms(2) by (simp add: m_def E_def)
qed

lemma Fp16ToFloat_exact:
  assumes "finite16 v"
  obtains f where "Fp16ToFloat v = Some f" and "0 \<le> f" and "f < 2 ^ 32" and "ieee_exp 23 8 f \<le> 0x8E"
    and "ieee_sgn 23 8 f = sgn16 v" and "ieee_mag 23 8 f = mag16 v * 2 ^ 125"
proof (cases "man16 v = 0")
  case True
  note v16 = assms [unfolded finite16_def, THEN conjunct1]
  define f where "f = sgn16 v * 2 ^ 31"
  have "f = sgn16 v * 2 ^ (23 + 8) + 0 * 2 ^ 23 + 0"
    by (simp add: f_def)
  note P = ieee_pattern [OF sgn16_cases [OF v16] _ _ _ _ this, simplified]
  have "Fp16ToFloat v = Some f"
    using True sgn16_cases [OF v16] unfolding Fp16ToFloat_def ExtractFp16_eq [OF v16]
    by (auto simp: normalize_man.simps [of 0] FP32_CONSTRUCTOR_def push_bit_eq_mult f_def)
  with P True show thesis
    by (intro that) (auto simp: ieee_mag_def mag16_def)
next
  case False
  note v16 = assms [unfolded finite16_def, THEN conjunct1]
  obtain m e g f where F: "normalize_man (man16 v) (max 1 (exp16 v)) = Some (m, e)" "m \<noteq> 0" "m AND kFp16ManMask = g"
    "0 \<le> e + int 112" "e \<le> 30" "0 \<le> g * 2 ^ (23 - 10)" "g * 2 ^ (23 - 10) < 2 ^ 23"
    "f = sgn16 v * 2 ^ (23 + 8) + (e + int 112) * 2 ^ 23 + g * 2 ^ (23 - 10)" "0 \<le> f" "f < 2 ^ (23 + 8 + 1)"
    "ieee_sgn 23 8 f = sgn16 v" "ieee_exp 23 8 f = e + int 112" "ieee_mag 23 8 f = mag16 v * 2 ^ (112 + 23 - 10)"
    by (rule widen_fields [OF assms False, of 23 112 8]) auto
  have E: "e + int 112 < 2 ^ 8" "e - kFp16ExpBias + 127 = e + int 112"
    using F(5) by (simp_all add: kFp16ExpBias_def)
  have mask: "push_bit (23 - 10) g AND 0x7FFFFF = g * 2 ^ (23 - 10)"
    using F(6,7) and_mask_int [of "g * 2 ^ 13" 23] by (simp add: push_bit_eq_mult)
  have mod: "(sgn16 v * 2 ^ 31 + (e + int 112) * 2 ^ 23 + g * 2 ^ (23 - 10)) mod 2 ^ 32 = f"
    using F(8-10) by simp
  have "Fp16ToFloat v = Some f"
    using F(2) by (simp only: Fp16ToFloat_def ExtractFp16_eq [OF v16] Let_def prod.case F(1,3) option.case if_False E(2)
        FP32_CONSTRUCTOR_def mask or_fields [OF F(4) E(1) F(6,7), of 31] arith_simps mod refl)
  with F show thesis
    by (intro that [of f]) auto
qed

lemma Fp16ToDouble_exact:
  assumes "finite16 v"
  obtains f where "Fp16ToDouble v = Some f" and "0 \<le> f" and "f < 2 ^ 64" and "ieee_exp 52 11 f \<le> 0x40E"
    and "ieee_sgn 52 11 f = sgn16 v" and "ieee_mag 52 11 f = mag16 v * 2 ^ 1050"
proof (cases "man16 v = 0")
  case True
  note v16 = assms [unfolded finite16_def, THEN conjunct1]
  define f where "f = sgn16 v * 2 ^ 63"
  have "f = sgn16 v * 2 ^ (52 + 11) + 0 * 2 ^ 52 + 0"
    by (simp add: f_def)
  note P = ieee_pattern [OF sgn16_cases [OF v16] _ _ _ _ this, simplified]
  have "Fp16ToDouble v = Some f"
    using True sgn16_cases [OF v16] unfolding Fp16ToDouble_def ExtractFp16_eq [OF v16]
    by (auto simp: normalize_man.simps [of 0] push_bit_eq_mult f_def)
  with P True show thesis
    by (intro that) (auto simp: ieee_mag_def mag16_def)
next
  case False
  note v16 = assms [unfolded finite16_def, THEN conjunct1]
  obtain m e g f where F: "normalize_man (man16 v) (max 1 (exp16 v)) = Some (m, e)" "m \<noteq> 0" "m AND kFp16ManMask = g"
    "0 \<le> e + int 1008" "e \<le> 30" "0 \<le> g * 2 ^ (52 - 10)" "g * 2 ^ (52 - 10) < 2 ^ 52"
    "f = sgn16 v * 2 ^ (52 + 11) + (e + int 1008) * 2 ^ 52 + g * 2 ^ (52 - 10)" "0 \<le> f" "f < 2 ^ (52 + 11 + 1)"
    "ieee_sgn 52 11 f = sgn16 v" "ieee_exp 52 11 f = e + int 1008" "ieee_mag 52 11 f = mag16 v * 2 ^ (1008 + 52 - 10)"
    by (rule widen_fields [OF assms False, of 52 1008 11]) auto
  have E: "e + int 1008 < 2 ^ 11" "e - kFp16ExpBias + 1023 = e + int 1008"
    using F(5) by (simp_all add: kFp16ExpBias_def)
  have f: "sgn16 v * 2 ^ 63 + (e + int 1008) * 2 ^ 52 + g * 2 ^ (52 - 10) = f"
    using F(8) by simp
  have "Fp16ToDouble v = Some f"
    using F(2) by (simp only: Fp16ToDouble_def ExtractFp16_eq [OF v16] Let_def prod.case F(1,3) option.case if_False E(2)
        push_bit_eq_mult [of "52 - 10"] or_fields [OF F(4) E(1) F(6,7), of 63] arith_simps f refl)
  with F show thesis
    by (intro that [of f]) auto
qed

end
