(* ===== verification/Fp16_FromInt.thy ===== *)
theory Fp16_FromInt
  imports Fp16_Convert
begin

text \<open>Conversion of the integer types to half precision: an integer \<open>i\<close> is \<open>i * 2 ^ 24\<close> units of \<open>2 ^ -24\<close>.\<close>

declare GetManBitLength.simps [simp del]

lemma GetManBitLength_eq:
  assumes "2 ^ n \<le> m" and "m < 2 ^ Suc n"
  shows "GetManBitLength m = Suc n"
  using assms
proof (induction n arbitrary: m)
  case 0
  then have "m = 1" by simp
  then show ?case
    by (simp add: GetManBitLength.simps)
next
  case (Suc n)
  have "GetManBitLength (drop_bit 1 m) = Suc n"
  proof (rule Suc.IH)
    show "2 ^ n \<le> drop_bit 1 m"
      using zdiv_mono1 [OF Suc.prems(1), of 2] by (simp add: drop_bit_eq_div)
    show "drop_bit 1 m < 2 ^ Suc n"
      using Suc.prems(2) div_power_less [of m 1 "2 ^ Suc n"] by (simp add: drop_bit_eq_div)
  qed
  moreover have "0 < m"
    using Suc.prems(1) zero_less_power [of "2 :: int" "Suc n"] by linarith
  ultimately show ?case
    by (subst GetManBitLength.simps) simp
qed

lemma GetManBitLength_bounds:
  assumes "0 < m"
  obtains n where "GetManBitLength m = Suc n" and "2 ^ n \<le> m" and "m < 2 ^ Suc n"
proof -
  define n where "n = nat (bitlen m - 1)"
  have "0 < bitlen m"
    using assms bitlen_nonneg [of m] bitlen_eq_zero_iff [of m] by linarith
  then have "nat (bitlen m) = Suc n"
    by (simp add: n_def)
  with bitlen_bounds [OF assms] have "2 ^ n \<le> m" "m < 2 ^ Suc n"
    by (simp_all add: n_def)
  with GetManBitLength_eq that show thesis by blast
qed

lemma trunc_mask_eq: "0 < n \<Longrightarrow> n \<le> 32 \<Longrightarrow> trunc_mask n = 2 ^ n - 1"
proof (induction n rule: trunc_mask.induct)
  case (3 n)
  have "(2 :: int) ^ Suc (Suc n) \<le> 2 ^ 32"
    using 3 by (intro power_increasing) auto
  with 3 show ?case by simp
qed auto

lemma shift_down_times_eq: "shift_down_times n m e = (m div 2 ^ n, e + int n)"
  by (induction n arbitrary: m e) (simp_all add: drop_bit_eq_div zdiv_zmult2_eq)

lemma round_long_man_eq:
  assumes "2 ^ (11 + d) \<le> 2 * m" and "m < 2 ^ (11 + d)" and "0 < d" and "d \<le> 32"
  shows "round_long_man kRoundToNearest m (11 + d) =
    (if rne_div m d = 2 ^ 11 then (2 ^ 10, int d + 24 + 1 + 1) else (rne_div m d, int d + 24 + 1))"
proof -
  have m: "0 \<le> m"
    using assms(1) zero_less_power [of "2 :: int" "11 + d"] by linarith
  have t: "push_bit (32 - d) (m AND trunc_mask d) mod 2 ^ 32 = shifted_out m d"
  proof -
    define r where "r = m mod 2 ^ d"
    have "r * 2 ^ (32 - d) < 2 ^ d * 2 ^ (32 - d)"
      by (simp add: r_def)
    also have "\<dots> = 2 ^ 32"
      using assms(4) by (simp flip: power_add)
    finally have "r * 2 ^ (32 - d) mod 2 ^ 32 = r * 2 ^ (32 - d)"
      by (intro mod_pos_pos_trivial) (auto simp: r_def)
    then show ?thesis
      using assms(3,4) by (simp add: trunc_mask_eq and_mask_int push_bit_eq_mult shifted_out_def r_def)
  qed
  have r: "0 \<le> rne_div m d" "rne_div m d \<le> 2 ^ 11"
    using rne_div_mono_bounds [of 0 d m "2 ^ 11"] m assms(2) by (simp_all add: power_add)
  have "round_long_man kRoundToNearest m (11 + d) = mul_renormalize (rne_div m d) (int d + 25)"
    using shifted_out_round [OF m assms(4)]
    by (simp only: round_long_man_def Let_def diff_add_inverse t shift_down_times_eq prod.case simp_thms)
      (simp add: fp16_consts add.commute)
  also have "\<dots> = (if rne_div m d = 2 ^ 11 then (2 ^ 10, int d + 24 + 1 + 1) else (rne_div m d, int d + 24 + 1))"
    using mul_renormalize_run [OF r, of "int d + 25"] by simp
  finally show ?thesis .
qed

text \<open>The two ways the integer conversions build a pattern.\<close>

lemma build_exact:
  assumes "s = 0 \<or> s = 1" and "2 ^ 10 \<le> x" and "x < 2 ^ 11" and "e \<le> 30"
  shows "FP16_CONSTRUCTOR s (int e + 1) x = encode16 s (x * 2 ^ e) 0"
proof -
  have "encode16 s (x * 2 ^ e) 0 = s * 2 ^ 15 + int e * 2 ^ 10 + rne_div x 0"
    using assms(2,3) by (intro encode16_shifted(1) [where j = e]) auto
  moreover have "FP16_CONSTRUCTOR s (int e + 1) x = s * 2 ^ 15 + (int e + 1) * 2 ^ 10 + (x - 2 ^ 10)"
    using assms div_mod_double(2) [of x "2 ^ 10"] by (simp add: FP16_CONSTRUCTOR_eq)
  ultimately show ?thesis by simp
qed

lemma build_rounded:
  assumes "s = 0 \<or> s = 1" and "2 ^ 10 \<le> m div 2 ^ d" and "m div 2 ^ d < 2 ^ 11"
    and "(m', e') = (if rne_div m d = 2 ^ 11 then (2 ^ 10, int d + 24 + 1 + 1) else (rne_div m d, int d + 24 + 1))"
  shows "e' \<le> 31 \<Longrightarrow> FP16_CONSTRUCTOR s e' m' = encode16 s (m * 2 ^ 24) 0"
    and "round16 (m * 2 ^ 24) 0 < 2 ^ 40 \<longleftrightarrow> e' < 31" and "0 \<le> m'" and "m' < 2 ^ 11" and "0 \<le> e'"
proof -
  have m: "0 \<le> m"
    using assms(2) order.trans [of 0 "2 ^ 10 * 2 ^ d" m] by (simp add: le_div_power)
  have "d + 24 = 0 \<or> 2 ^ 10 \<le> m div 2 ^ d"
    using assms(2) by blast
  note R = encode16_shifted [where n = "m * 2 ^ 24" and k = 0 and e = "d + 24" and j = 24, OF m refl _ assms(3) this]
  define r where "r = rne_div m d"
  have r: "2 ^ 10 \<le> r" "r \<le> 2 ^ 11" and E: "encode16 s (m * 2 ^ 24) 0 = s * 2 ^ 15 + int (d + 24) * 2 ^ 10 + r"
    and R2: "round16 (m * 2 ^ 24) 0 = r * 2 ^ (d + 24)"
    using R by (simp_all add: r_def)
  show "FP16_CONSTRUCTOR s e' m' = encode16 s (m * 2 ^ 24) 0" if "e' \<le> 31"
    using that assms(1,4) r div_mod_double(2) [of r "2 ^ 10"] unfolding E r_def [symmetric]
    by (auto simp: FP16_CONSTRUCTOR_eq split: if_splits)
  have "round16 (m * 2 ^ 24) 0 < 2 ^ 40 \<longleftrightarrow> int (d + 24) * 2 ^ 10 + r < 31 * 2 ^ 10"
    using overflow16 [of "m * 2 ^ 24" 0] m E by (simp add: encode16_def)
  then show "round16 (m * 2 ^ 24) 0 < 2 ^ 40 \<longleftrightarrow> e' < 31"
    using assms(4) r unfolding r_def [symmetric] by (auto split: if_splits)
  show "0 \<le> m'" "m' < 2 ^ 11" "0 \<le> e'"
    using assms(4) r unfolding r_def [symmetric] by (auto split: if_splits)
qed


lemma from_uint:
  assumes "0 < m" and "m < 2 ^ 32" and "s = 0 \<or> s = 1"
  obtains (short) x where "\<not> GetManBitLength m > 11" and "push_bit (11 - GetManBitLength m) m = x" and "0 \<le> x" and "x < 2 ^ 11"
      and "FP16_CONSTRUCTOR s (kFp16ExpBias + (int (GetManBitLength m) - 1)) x = encode16 s (m * 2 ^ 24) 0"
      and "round16 (m * 2 ^ 24) 0 < 2 ^ 40"
    | (long) m' e' where "GetManBitLength m > 11" and "round_long_man kRoundToNearest m (GetManBitLength m) = (m', e')"
      and "0 \<le> m'" and "m' < 2 ^ 11" and "0 \<le> e'" and "e' \<le> 31 \<Longrightarrow> FP16_CONSTRUCTOR s e' m' = encode16 s (m * 2 ^ 24) 0"
      and "round16 (m * 2 ^ 24) 0 < 2 ^ 40 \<longleftrightarrow> e' < 31" and "m < 2 ^ 16 \<Longrightarrow> e' \<le> 31"
proof -
  obtain n where n: "GetManBitLength m = Suc n" "2 ^ n \<le> m" "m < 2 ^ Suc n"
    by (rule GetManBitLength_bounds [OF assms(1)])
  have pow: "i < j" if "(2 :: int) ^ i < 2 ^ j" for i j :: nat
    using that by (simp only: power_strict_increasing_iff [of "2 :: int"] one_less_numeral_iff semiring_norm)
  show thesis
  proof (cases "n \<le> 10")
    case True
    define x where "x = m * 2 ^ (10 - n)"
    have "2 ^ n * 2 ^ (10 - n) \<le> x" "x < 2 ^ Suc n * 2 ^ (10 - n)"
      using n(2,3) by (simp_all add: x_def)
    moreover have "(2 :: int) ^ n * 2 ^ (10 - n) = 2 ^ 10"
      using True by (simp flip: power_add)
    ultimately have x: "2 ^ 10 \<le> x" "x < 2 ^ 11"
      by simp_all
    have mx: "m * 2 ^ 24 = x * 2 ^ (n + 14)"
      using True by (simp add: x_def mult.assoc flip: power_add)
    have "x * 2 ^ (n + 14) < 2 ^ 11 * 2 ^ 24"
      using x True by (intro mult_less_le_imp_less power_increasing) auto
    moreover have "round16 (x * 2 ^ (n + 14)) 0 = rne_div x 0 * 2 ^ (n + 14)"
      using x by (intro encode16_shifted(2) [where j = "n + 14"]) auto
    ultimately have "round16 (m * 2 ^ 24) 0 < 2 ^ 40"
      unfolding mx by simp
    moreover have "FP16_CONSTRUCTOR s (int (n + 14) + 1) x = encode16 s (m * 2 ^ 24) 0"
      unfolding mx using True by (intro build_exact [OF assms(3) x]) simp
    moreover have "push_bit (11 - GetManBitLength m) m = x"
      by (simp add: n(1) x_def push_bit_eq_mult)
    ultimately show thesis
      using x True n(1) by (intro short) (simp_all add: kFp16ExpBias_def add.commute)
  next
    case False
    define d where "d = n - 10"
    have d: "GetManBitLength m = 11 + d" "0 < d" "Suc n = 11 + d"
      using False n(1) by (simp_all add: d_def)
    have "(2 :: int) ^ n < 2 ^ 32"
      using n(2) assms(2) by linarith
    then have "n < 32"
      by (rule pow)
    then have d32: "d \<le> 32"
      by (simp add: d_def)
    have l: "2 ^ (11 + d) \<le> 2 * m" "m < 2 ^ (11 + d)"
      using n(2,3) unfolding d(3) [symmetric] by simp_all
    obtain m' e' where e: "(m', e') = (if rne_div m d = 2 ^ 11 then (2 ^ 10, int d + 24 + 1 + 1) else (rne_div m d, int d + 24 + 1))"
      by (metis surj_pair)
    have "2 ^ 10 \<le> m div 2 ^ d" "m div 2 ^ d < 2 ^ 11"
      using l by (simp_all add: le_div_power div_power_less power_add)
    note B = build_rounded [OF assms(3) this e]
    have "e' \<le> 31" if "m < 2 ^ 16"
    proof -
      have "(2 :: int) ^ n < 2 ^ 16"
        using n(2) that by linarith
      then have "n < 16" by (rule pow)
      with e show ?thesis
        by (auto simp: d_def split: if_splits)
    qed
    with B round_long_man_eq [OF l d(2) d32] e d(1,2) show thesis
      by (intro long [of m' e']) simp_all
  qed
qed

section \<open>The conversions\<close>

lemma fp16_of_uint16_encode:
  assumes "0 \<le> u" and "u < 2 ^ 16"
  shows "fp16_of_uint16 kRoundToNearest u = encode16 0 (u * 2 ^ 24) 0"
proof (cases "u = 0")
  case True
  then show ?thesis
    by (simp add: fp16_of_uint16_def encode16_def ulp16_def rne_div_small)
next
  case False
  then have "0 < u" "u < 2 ^ 32"
    using assms by simp_all
  then show ?thesis
  proof (cases rule: from_uint [where s = 0, case_names zero short long])
    case (short x)
    then show ?thesis
      using False by (simp add: fp16_of_uint16_def Let_def)
  next
    case (long m' e')
    then show ?thesis
      using False assms(2) by (simp add: fp16_of_uint16_def Let_def)
  qed simp
qed

lemma SetValByUint16Val_encode:
  assumes "0 \<le> u" and "u < 2 ^ 16" and "s = 0 \<or> s = 1"
  shows "SetValByUint16Val kRoundToNearest u s v = (if u = 0 then v else encode16 s (u * 2 ^ 24) 0)"
proof (cases "u = 0")
  case True
  then show ?thesis
    by (simp add: SetValByUint16Val_def)
next
  case False
  then have u: "0 < u" "u < 2 ^ 32" "u AND 0x7FFFFFFF = u"
    using assms and_mask_int [of u 31] by simp_all
  from u(1,2) assms(3) show ?thesis
  proof (cases rule: from_uint)
    case (short x)
    then show ?thesis
      using False u(3) by (simp add: SetValByUint16Val_def Let_def)
  next
    case (long m' e')
    then show ?thesis
      using False assms(2) u(3) by (simp add: SetValByUint16Val_def Let_def)
  qed
qed


lemma sign_bit:
  fixes i :: int
  assumes "- (2 ^ n) \<le> i" and "i < 2 ^ n"
  shows "i mod 2 ^ Suc n = (if i < 0 then i + 2 ^ Suc n else i)" and "drop_bit n (i mod 2 ^ Suc n) = (if i < 0 then 1 else 0)"
proof -
  show i: "i mod 2 ^ Suc n = (if i < 0 then i + 2 ^ Suc n else i)"
    using assms mod_add_self2 [of i "2 ^ Suc n"] mod_pos_pos_trivial [of "i + 2 ^ Suc n" "2 ^ Suc n"] by auto
  show "drop_bit n (i mod 2 ^ Suc n) = (if i < 0 then 1 else 0)"
    using assms div_mod_double(1) [of "i + 2 ^ Suc n" "2 ^ n"] div_mod_double(1) [of i "2 ^ n"]
    unfolding i drop_bit_eq_div by auto
qed

lemma fp16_of_int16_encode:
  assumes "- (2 ^ 15) \<le> i" and "i < 2 ^ 15"
  shows "fp16_of_int16 kRoundToNearest v i = encode16 (if i < 0 then 1 else 0) (\<bar>i\<bar> * 2 ^ 24) 0"
proof (cases "i = 0")
  case True
  then show ?thesis
    by (simp add: fp16_of_int16_def encode16_def ulp16_def rne_div_small)
next
  case False
  note sb = sign_bit [of 15 i, OF assms, simplified Suc_numeral arith_simps]
  have "- i mod 2 ^ 16 = - i" if "i < 0"
    using assms that by (intro mod_pos_pos_trivial) auto
  then have "bits_signed 16 (- i) mod 2 ^ 16 = - i" if "i < 0"
    using that by (auto simp: bits_signed_def)
  then have u: "(if (if i < 0 then 1 else 0 :: int) \<noteq> 0 then bits_signed 16 (- i) mod 2 ^ 16 else i mod 2 ^ 16) = \<bar>i\<bar>"
    unfolding sb(1) by simp
  have "fp16_of_int16 kRoundToNearest v i = SetValByUint16Val kRoundToNearest \<bar>i\<bar> (if i < 0 then 1 else 0) v"
    using False by (simp only: fp16_of_int16_def Let_def sb(2) u if_False)
  with SetValByUint16Val_encode [of "\<bar>i\<bar>" "if i < 0 then 1 else 0" v] assms False show ?thesis
    by simp
qed

text \<open>The 32-bit conversions saturate at the largest finite value instead.\<close>

definition encode16_sat :: "int \<Rightarrow> int \<Rightarrow> nat \<Rightarrow> int" where
  "encode16_sat s n k = (if round16 n k < 2 ^ 40 then encode16 s n k else s * 2 ^ 15 + 0x7BFF)"

lemma fp16_of_uint32_encode:
  assumes "0 \<le> u" and "u < 2 ^ 32"
  shows "fp16_of_uint32 kRoundToNearest u = encode16_sat 0 (u * 2 ^ 24) 0"
proof (cases "u = 0")
  case True
  then show ?thesis
    by (simp add: fp16_of_uint32_def encode16_sat_def round16_def encode16_def ulp16_def rne_div_small)
next
  case False
  then have "0 < u"
    using assms by simp
  then show ?thesis using assms(2)
  proof (cases rule: from_uint [where s = 0, case_names zero short long])
    case (short x)
    then show ?thesis
      using False by (simp add: fp16_of_uint32_def encode16_sat_def Let_def)
  next
    case (long m' e')
    then show ?thesis
      using False by (auto simp: fp16_of_uint32_def encode16_sat_def Let_def kFp16MaxExp_def kFp16MaxMan_def FP16_CONSTRUCTOR_eq)
  qed simp
qed

lemma SetValByUint32Val_encode:
  assumes "0 < u" and "u < 2 ^ 31" and "s = 0 \<or> s = 1"
  shows "SetValByUint32Val kRoundToNearest u s = encode16_sat s (u * 2 ^ 24) 0"
proof -
  have u: "u < 2 ^ 32" "u AND 0x7FFFFFFF = u"
    using assms and_mask_int [of u 31] by simp_all
  from assms(1) u(1) assms(3) show ?thesis
  proof (cases rule: from_uint)
    case (short x)
    have "GetManBitLength u < 2 ^ 15"
      using short(1) by simp
    with short u(2) show ?thesis
      by (simp add: SetValByUint32Val_def encode16_sat_def Let_def kFp16ExpBias_def)
  next
    case (long m' e')
    then show ?thesis
      using u(2) assms(3)
      by (auto simp: SetValByUint32Val_def encode16_sat_def Let_def kFp16MaxExp_def kFp16MaxMan_def FP16_CONSTRUCTOR_eq)
  qed
qed

lemma fp16_of_int32_encode:
  assumes "- (2 ^ 31) < i" and "i < 2 ^ 31"
  shows "fp16_of_int32 kRoundToNearest i = Inr (encode16_sat (if i < 0 then 1 else 0) (\<bar>i\<bar> * 2 ^ 24) 0)"
proof (cases "i = 0")
  case True
  then show ?thesis
    by (simp add: fp16_of_int32_def encode16_sat_def round16_def encode16_def ulp16_def rne_div_small)
next
  case False
  have "- i mod 2 ^ 32 = - i" if "i < 0"
    using assms that by (intro mod_pos_pos_trivial) auto
  moreover note sb = sign_bit [of 31 i, OF less_imp_le [OF assms(1)] assms(2), simplified Suc_numeral arith_simps]
  ultimately show ?thesis
    using SetValByUint32Val_encode [of "\<bar>i\<bar>" "if i < 0 then 1 else 0"] assms False
    by (simp only: fp16_of_int32_def Let_def sb(2)) (auto simp: sb(1) [simplified])
qed

lemma build_uint:
  assumes "s = 0 \<or> s = 1" and "2 ^ 10 \<le> u * 2 ^ j" and "u * 2 ^ j < 2 ^ 11" and "j \<le> 10"
  shows "FP16_CONSTRUCTOR s (int kFp16ManLen - int j + kFp16ExpBias) (u * 2 ^ j) = encode16 s (u * 2 ^ 24) 0"
proof -
  have "u * 2 ^ 24 = (u * 2 ^ j) * 2 ^ (24 - j)"
    using assms(4) by (simp add: mult.assoc flip: power_add)
  moreover have "FP16_CONSTRUCTOR s (int (24 - j) + 1) (u * 2 ^ j) = encode16 s ((u * 2 ^ j) * 2 ^ (24 - j)) 0"
    using assms by (intro build_exact) auto
  moreover have "int kFp16ManLen - int j + kFp16ExpBias = int (24 - j) + 1"
    using assms(4) by (simp add: fp16_consts)
  ultimately show ?thesis by metis
qed

lemma fp16_of_uint8_encode:
  assumes "0 \<le> u" and "u < 2 ^ 8"
  shows "fp16_of_uint8 u = Some (encode16 0 (u * 2 ^ 24) 0)"
proof (cases "u = 0")
  case True
  then show ?thesis
    by (simp add: fp16_of_uint8_def encode16_def ulp16_def rne_div_small FP16_CONSTRUCTOR_eq)
next
  case False
  then have "0 < u" "u < 2 ^ 11"
    using assms by simp_all
  then obtain j where j: "raise_man u (int kFp16ManLen) = Some (u * 2 ^ j, int kFp16ManLen - int j)" "2 ^ 10 \<le> u * 2 ^ j"
    "u * 2 ^ j < 2 ^ 11" "j \<le> 10"
    by (rule normalize_man_run) blast
  then show ?thesis
    using False build_uint [of 0, OF _ j(2-4)] by (simp only: fp16_of_uint8_def j(1) option.case prod.case if_False) simp
qed


lemma fp16_of_int8_encode:
  assumes "- 128 < i" and "i < 128"
  shows "fp16_of_int8 i = Some (encode16 (if i < 0 then 1 else 0) (\<bar>i\<bar> * 2 ^ 24) 0)"
proof (cases "i = 0")
  case True
  then show ?thesis
    by (simp add: fp16_of_int8_def encode16_def ulp16_def rne_div_small FP16_CONSTRUCTOR_eq)
next
  case False
  define s :: int where "s = (if i < 0 then 1 else 0)"
  have "i mod 2 ^ 8 = (if i < 0 then i + 2 ^ 8 else i)"
    using sign_bit(1) [of 7 i] assms by simp
  then have low: "i mod 2 ^ 8 AND 0x7F = (if i < 0 then i + 128 else i)"
    using assms div_mod_double(2) [of "i + 256" 128] by simp
  have "drop_bit 7 (i mod 2 ^ 8 AND 0x80) = drop_bit 7 (i mod 2 ^ 8) AND 1"
    using drop_and [of 7 "i mod 2 ^ 8" 1] by (simp add: push_bit_eq_mult drop_bit_eq_div)
  then have sgn: "drop_bit 7 (i mod 2 ^ 8 AND 0x80) = s"
    using sign_bit(2) [of 7 i] assms by (simp add: s_def)
  have "0 < \<bar>i\<bar>" "\<bar>i\<bar> < 2 ^ 11"
    using False assms by auto
  then obtain j where j: "raise_man \<bar>i\<bar> (int kFp16ManLen) = Some (\<bar>i\<bar> * 2 ^ j, int kFp16ManLen - int j)" "2 ^ 10 \<le> \<bar>i\<bar> * 2 ^ j"
    "\<bar>i\<bar> * 2 ^ j < 2 ^ 11" "j \<le> 10"
    by (rule normalize_man_run) blast
  have m: "(if s \<noteq> 0 then \<bar>i\<bar> mod 2 ^ 16 else if i < 0 then i + 128 else i) = \<bar>i\<bar>"
    using assms by (simp add: s_def)
  have "(if i < 0 then i + 128 else i) \<noteq> 0"
    using assms False by simp
  moreover have "FP16_CONSTRUCTOR s (int kFp16ManLen - int j + kFp16ExpBias) (\<bar>i\<bar> * 2 ^ j) = encode16 s (\<bar>i\<bar> * 2 ^ 24) 0"
    using build_uint [OF _ j(2-4), of s] by (simp add: s_def)
  ultimately show ?thesis
    unfolding s_def [symmetric] by (simp only: fp16_of_int8_def Let_def low sgn m j(1) option.case prod.case if_False)
qed

end
