(* ===== verification/Fp16_Add.thy ===== *)
theory Fp16_Add
  imports Fp16_Arith
begin

text \<open>Half-precision addition is correctly rounded.\<close>

declare add_shift_up.simps [simp del]

section \<open>Two's complement mantissas\<close>

lemma ReverseMan_mod: "ReverseMan c (x mod 2 ^ 32) = (if c then - x else x) mod 2 ^ 32"
  by (simp add: ReverseMan_def not_int_def mod_minus_eq)

lemma shift_step:
  fixes x :: int
  assumes "- (2 ^ 31) \<le> x" and "x < 2 ^ 31"
  shows "(x mod 2 ^ 32 AND 0x80000000) OR drop_bit 1 (x mod 2 ^ 32) = x div 2 mod 2 ^ 32"
proof (cases "x < 0")
  case True
  have y: "x mod 2 ^ 32 = x + 2 ^ 32"
    using assms True mod_add_self2 [of x "2 ^ 32"] mod_pos_pos_trivial [of "x + 2 ^ 32" "2 ^ 32"] by simp
  have "(x + 2 ^ 32) div 2 ^ 31 = 1"
    using div_mod_double(1) [of "x + 2 ^ 32" "2 ^ 31"] assms True by simp
  moreover have "(x + 2 ^ 32) AND push_bit 31 1 = push_bit 31 (drop_bit 31 (x + 2 ^ 32) AND 1)"
    by (rule and_push_bit)
  ultimately have top: "(x + 2 ^ 32) AND 0x80000000 = push_bit 31 1"
    by (simp add: push_bit_eq_mult drop_bit_eq_div)
  have "(x + 2 ^ 32) div 2 = x div 2 + 2 ^ 31"
    by simp
  moreover have "push_bit 31 1 OR (x div 2 + 2 ^ 31) = 1 * 2 ^ 31 + (x div 2 + 2 ^ 31)"
    using assms True by (intro or_disjoint) auto
  moreover have "x div 2 mod 2 ^ 32 = x div 2 + 2 ^ 32"
    using assms True mod_add_self2 [of "x div 2" "2 ^ 32"] mod_pos_pos_trivial [of "x div 2 + 2 ^ 32" "2 ^ 32"] by simp
  ultimately show ?thesis
    unfolding y top drop_bit_eq_div by simp
next
  case False
  then have "x AND push_bit 31 1 = 0"
    using assms(2) unfolding and_push_bit by (simp add: drop_bit_eq_div)
  with False assms show ?thesis
    by (simp add: drop_bit_eq_div push_bit_eq_mult)
qed

lemma RightShift_mod:
  assumes "- (2 ^ 31) \<le> x" and "x < 2 ^ 31"
  shows "RightShift (x mod 2 ^ 32) n = x div 2 ^ n mod 2 ^ 32"
  using assms
proof (induction n arbitrary: x)
  case (Suc n)
  then have "RightShift (x mod 2 ^ 32) (Suc n) = RightShift (x div 2 mod 2 ^ 32) n"
    using shift_step [of x] by simp
  also have "\<dots> = x div 2 div 2 ^ n mod 2 ^ 32"
    using Suc.prems by (intro Suc.IH) auto
  also have "x div 2 div 2 ^ n = x div 2 ^ Suc n"
    by (simp add: zdiv_zmult2_eq)
  finally show ?case .
qed simp

section \<open>The loops of the addition\<close>

lemma shifted_out_double:
  assumes "0 \<le> p" and "d \<le> 32"
  shows "(p div 2 ^ d) * 2 + drop_bit 31 (0x80000000 AND shifted_out p d) = p * 2 div 2 ^ d"
    and "shifted_out p d * 2 mod 2 ^ 32 = shifted_out (p * 2) d"
proof -
  define q r where "q = p div 2 ^ d" and "r = p mod 2 ^ d"
  have p: "p = q * 2 ^ d + r"
    unfolding q_def r_def by (rule div_mult_mod_eq [symmetric])
  have r: "0 \<le> r" "r < 2 ^ d"
    by (simp_all add: r_def)
  have w: "(2 :: int) ^ d * 2 ^ (32 - d) = 2 ^ 32"
    using assms(2) by (simp flip: power_add)
  show "(p div 2 ^ d) * 2 + drop_bit 31 (0x80000000 AND shifted_out p d) = p * 2 div 2 ^ d"
  proof (cases d)
    case (Suc j)
    have w31: "(2 :: int) ^ 31 = 2 ^ j * 2 ^ (32 - d)"
      using assms(2) Suc by (simp flip: power_add)
    have "shifted_out p d div 2 ^ 31 = r div 2 ^ j"
      unfolding shifted_out_def r_def w31 by simp
    moreover have "r div 2 ^ j = (if 2 ^ j \<le> r then 1 else 0)"
      using r Suc by (intro div_mod_double) simp_all
    ultimately have "drop_bit 31 (shifted_out p d AND push_bit 31 1) = r div 2 ^ j"
      unfolding drop_and by simp
    then have top: "drop_bit 31 (0x80000000 AND shifted_out p d) = r div 2 ^ j"
      by (simp add: push_bit_eq_mult and.commute)
    have "p = (q * 2) * 2 ^ j + r"
      using p Suc by simp
    from arg_cong [OF this, of "\<lambda>v. v div 2 ^ j"] have "p div 2 ^ j = q * 2 + r div 2 ^ j"
      by (simp only: div_mult_self3 power_not_zero) simp
    moreover have "p * 2 div 2 ^ d = p div 2 ^ j"
      unfolding Suc by simp
    ultimately show ?thesis
      unfolding top q_def by simp
  qed simp
  have "p * 2 mod 2 ^ d = r * 2 mod 2 ^ d"
    by (simp add: r_def mod_mult_left_eq)
  then have "shifted_out (p * 2) d = r * 2 * 2 ^ (32 - d) mod (2 ^ d * 2 ^ (32 - d))"
    by (simp add: shifted_out_def mult_mod_left)
  then show "shifted_out p d * 2 mod 2 ^ 32 = shifted_out (p * 2) d"
    by (simp add: w shifted_out_def r_def ac_simps)
qed


lemma add_shift_up_run:
  assumes "0 \<le> p" and "d \<le> 32" and "m_min \<le> 2 ^ 13"
  obtains u where "u \<le> e" and "add_shift_up m_min (p div 2 ^ d) (int e) (shifted_out p d) = (p * 2 ^ u div 2 ^ d, int (e - u), shifted_out (p * 2 ^ u) d)"
    and "m_min \<le> p * 2 ^ u div 2 ^ d \<or> u = e" and "u = 0 \<or> p * 2 ^ u div 2 ^ d < 2 * m_min"
proof -
  have "\<exists>u. u \<le> e \<and> add_shift_up m_min (p div 2 ^ d) (int e) (shifted_out p d) = (p * 2 ^ u div 2 ^ d, int (e - u), shifted_out (p * 2 ^ u) d)
    \<and> (m_min \<le> p * 2 ^ u div 2 ^ d \<or> u = e) \<and> (u = 0 \<or> p * 2 ^ u div 2 ^ d < 2 * m_min)"
    using assms(1)
  proof (induction e arbitrary: p)
    case 0
    then show ?case by (simp add: add_shift_up.simps)
  next
    case (Suc e)
    show ?case
    proof (cases "p div 2 ^ d < m_min")
      case True
      note D = shifted_out_double [OF Suc.prems assms(2)]
      have small: "p * 2 div 2 ^ d < 2 * m_min"
        using True by (simp add: div_power_less)
      then have m16: "p * 2 div 2 ^ d mod 2 ^ 16 = p * 2 div 2 ^ d"
        using Suc.prems assms(3) by (intro mod_pos_pos_trivial) (auto simp: pos_imp_zdiv_nonneg_iff)
      have e: "int (Suc e) - 1 = int e" "int (Suc e) > 0"
        by simp_all
      have step: "add_shift_up m_min (p div 2 ^ d) (int (Suc e)) (shifted_out p d) = add_shift_up m_min (p * 2 div 2 ^ d) (int e) (shifted_out (p * 2) d)"
        by (subst add_shift_up.simps) (simp only: True D m16 e simp_thms if_True)
      have "0 \<le> p * 2"
        using Suc.prems by simp
      from Suc.IH [OF this] obtain u where "u \<le> e" "add_shift_up m_min (p * 2 div 2 ^ d) (int e) (shifted_out (p * 2) d)
          = (p * 2 * 2 ^ u div 2 ^ d, int (e - u), shifted_out (p * 2 * 2 ^ u) d)"
        "m_min \<le> p * 2 * 2 ^ u div 2 ^ d \<or> u = e" "u = 0 \<or> p * 2 * 2 ^ u div 2 ^ d < 2 * m_min"
        by blast
      with step small show ?thesis
        by (intro exI [of _ "Suc u"]) (auto simp: mult.assoc)
    next
      case False
      then show ?thesis
        by (intro exI [of _ 0], subst add_shift_up.simps) simp
    qed
  qed
  with that show thesis by blast
qed

lemma add_shift_down_run:
  assumes "d < 32" and "p div 2 ^ d < 2 ^ 12"
  shows "add_shift_down (2 ^ 11) (p div 2 ^ d) e (shifted_out p d) =
    Some (if 2 ^ 11 \<le> p div 2 ^ d then (p div 2 ^ Suc d, e + 1, shifted_out p (Suc d)) else (p div 2 ^ d, e, shifted_out p d))"
proof (cases "2 ^ 11 \<le> p div 2 ^ d")
  case True
  have half: "drop_bit 1 (p div 2 ^ d) = p div 2 ^ Suc d"
    using div_power_Suc [of p d] by (simp add: drop_bit_eq_div)
  have small: "p div 2 ^ Suc d < 2 ^ 11"
    using assms(2) unfolding div_power_less by simp
  have "add_shift_down (2 ^ 11) (p div 2 ^ d) e (shifted_out p d) = add_shift_down (2 ^ 11) (p div 2 ^ Suc d) (e + 1) (shifted_out p (Suc d))"
    unfolding half [symmetric] shifted_out_Suc [OF assms(1), symmetric] by (subst add_shift_down.simps) (simp only: True if_True)
  also have "\<dots> = Some (p div 2 ^ Suc d, e + 1, shifted_out p (Suc d))"
    using small by (subst add_shift_down.simps) simp
  finally show ?thesis
    using True by simp
next
  case False
  then show ?thesis
    by (subst add_shift_down.simps) simp
qed

lemma add_renormalize_run:
  assumes "r \<le> 2 ^ 11"
  shows "add_renormalize (2 ^ 11) r e = Some (if r = 2 ^ 11 then (2 ^ 10, e + 1) else (r, e))"
proof (cases "r = 2 ^ 11")
  case True
  have "add_renormalize (2 ^ 11) r e = add_renormalize (2 ^ 11) (2 ^ 10) (e + 1)"
    unfolding True by (subst add_renormalize.simps) (simp add: drop_bit_eq_div)
  also have "\<dots> = Some (2 ^ 10, e + 1)"
    by (subst add_renormalize.simps) simp
  finally show ?thesis
    using True by simp
next
  case False
  with assms show ?thesis
    by (subst add_renormalize.simps) simp
qed

section \<open>Rounding the sum\<close>

lemma AddCalVal_unfold:
  assumes "add_shift_up (2 ^ 10) m e t = (m1, e1, t1)" and "add_shift_down (2 ^ 11) m1 e1 t1 = Some (m2, e2, t2)"
    and "ManRoundToNearest (m2 AND 1 > 0) (t2 AND 0x80000000 > 0) (t2 AND 0x7FFFFFFF > 0) m2 0 = r"
    and "add_renormalize (2 ^ 11) r e2 = Some (m3, e3)"
    and "Fp16Normalize e3 (if e3 = 0 \<and> m3 \<le> 2 ^ 11 then drop_bit 1 m3 else m3) = (e4, m4)"
  shows "Fp16AddCalVal kRoundToNearest s e m t 0 = Some (FP16_CONSTRUCTOR s e4 m4)"
proof -
  have c: "push_bit 0 kFp16ManHideBit mod 2 ^ 16 = (2 ^ 10 :: int)" "2 ^ 10 * 2 mod 2 ^ 16 = (2 ^ 11 :: int)"
    by (simp_all add: kFp16ManHideBit_def)
  show ?thesis
    by (simp only: Fp16AddCalVal_def Let_def c assms prod.case option.case simp_thms)
qed

lemma AddCalVal_encode:
  assumes "s = 0 \<or> s = 1" and "0 \<le> p" and "p div 2 ^ d < 2 ^ 12" and "d < 30" and "E = Suc (d + i)"
  shows "Fp16AddCalVal kRoundToNearest s (int E) (p div 2 ^ d) (shifted_out p d) 0 = Some (encode16_nan s (p * 2 ^ i) 0)"
proof -
  have d: "d \<le> 32" "d < 32"
    using assms(4) by simp_all
  obtain u where u: "u \<le> E" "add_shift_up (2 ^ 10) (p div 2 ^ d) (int E) (shifted_out p d) = (p * 2 ^ u div 2 ^ d, int (E - u), shifted_out (p * 2 ^ u) d)"
    "2 ^ 10 \<le> p * 2 ^ u div 2 ^ d \<or> u = E" "u = 0 \<or> p * 2 ^ u div 2 ^ d < 2 * 2 ^ 10"
    by (rule add_shift_up_run [OF assms(2) d(1), of "2 ^ 10" E]) auto
  define x where "x = p * 2 ^ u"
  have x: "0 \<le> x" "x div 2 ^ d < 2 ^ 12"
    using assms(2,3) u(4) by (auto simp: x_def)
  note u = u(1) u(2) [folded x_def] u(3,4) [folded x_def]
  note down = add_shift_down_run [OF d(2) x(2)]
  show ?thesis
  proof (cases "u = E")
    case True
    define n where "n = p * 2 ^ i"
    have xn: "x = (2 * n) * 2 ^ d"
      by (simp add: x_def n_def True assms(5) power_add)
    then have x2: "x div 2 ^ d = 2 * n" "shifted_out x d = 0" "rne_div x d = 2 * n"
      using rne_div_scale [of "2 * n" d 0] by (simp_all add: shifted_out_def)
    have n: "0 \<le> n" "n < 2 ^ 10"
      using assms(2,5) u(4) x2(1) True by (simp_all add: n_def)
    have "Fp16AddCalVal kRoundToNearest s (int E) (p div 2 ^ d) (shifted_out p d) 0 = Some (FP16_CONSTRUCTOR s 0 n)"
    proof (rule AddCalVal_unfold [OF u(2)])
      show "add_shift_down (2 ^ 11) (x div 2 ^ d) (int (E - u)) (shifted_out x d) = Some (x div 2 ^ d, 0, shifted_out x d)"
        unfolding down using n x2(1) True by simp
      show "ManRoundToNearest (x div 2 ^ d AND 1 > 0) (shifted_out x d AND 0x80000000 > 0) (shifted_out x d AND 0x7FFFFFFF > 0)
          (x div 2 ^ d) 0 = 2 * n"
        using shifted_out_round [OF x(1) d(1)] x2(3) by metis
      show "add_renormalize (2 ^ 11) (2 * n) 0 = Some (2 * n, 0)"
        using n add_renormalize_run [of "2 * n" 0] by simp
      show "Fp16Normalize 0 (if 0 = (0 :: int) \<and> 2 * n \<le> 2 ^ 11 then drop_bit 1 (2 * n) else 2 * n) = (0, n)"
        using n by (simp add: Fp16Normalize_def fp16_consts drop_bit_eq_div)
    qed
    then show ?thesis
      using n assms(1) encode16_nan_small [OF n] by (simp add: FP16_CONSTRUCTOR_eq n_def [symmetric])
  next
    case False
    then have big: "2 ^ 10 \<le> x div 2 ^ d"
      using u(3) by blast
    define d' where "d' = (if 2 ^ 11 \<le> x div 2 ^ d then Suc d else d)"
    define e where "e = E - u - 1 + (d' - d)"
    have d': "d \<le> d'" "d' \<le> 32" "2 ^ 10 \<le> x div 2 ^ d'" "x div 2 ^ d' < 2 ^ 11"
      using d big x(2) unfolding d'_def le_div_power div_power_less by auto
    have D: "add_shift_down (2 ^ 11) (x div 2 ^ d) (int (E - u)) (shifted_out x d) = Some (x div 2 ^ d', int e + 1, shifted_out x d')"
      unfolding down using False u(1) by (auto simp: d'_def e_def)
    have "p * 2 ^ i * 2 ^ d' = x * 2 ^ e"
      using False u(1) d'(1) by (simp add: x_def e_def assms(5) mult.assoc flip: power_add)
    note R = encode16_shifted [where n = "p * 2 ^ i * 2 ^ d'" and k = d' and e = e, OF x(1) this refl d'(4) disjI2 [OF d'(3)]]
    define r where "r = rne_div x d'"
    have r: "0 \<le> r" "r \<le> 2 ^ 11" "e = 0 \<or> 2 ^ 10 \<le> r" "2 ^ 10 \<le> r"
      using R(3-5) rne_div_mono_bounds(1) [of "2 ^ 10" d' x "2 ^ 11"] d'(3,4) by (simp_all add: r_def le_div_power div_power_less)
    obtain m3 e3 where n3: "(m3, e3) = (if r = 2 ^ 11 then (2 ^ 10, int e + 1 + 1) else (r, int e + 1))"
      by (metis surj_pair)
    obtain e4 m4 where n4: "(e4, m4) = Fp16Normalize (if e3 = 1 \<and> m3 < kFp16ManHideBit then 0 else e3) (m3 mod 2 ^ 16)"
      by (metis surj_pair)
    have "Fp16AddCalVal kRoundToNearest s (int E) (p div 2 ^ d) (shifted_out p d) 0 = Some (FP16_CONSTRUCTOR s e4 m4)"
    proof (rule AddCalVal_unfold [OF u(2) D])
      show "ManRoundToNearest (x div 2 ^ d' AND 1 > 0) (shifted_out x d' AND 0x80000000 > 0) (shifted_out x d' AND 0x7FFFFFFF > 0)
          (x div 2 ^ d') 0 = r"
        using shifted_out_round [OF x(1) d'(2)] by (simp only: r_def)
      show "add_renormalize (2 ^ 11) r (int e + 1) = Some (m3, e3)"
        using add_renormalize_run [OF r(2), of "int e + 1"] n3 by simp
      show "Fp16Normalize e3 (if e3 = 0 \<and> m3 \<le> 2 ^ 11 then drop_bit 1 m3 else m3) = (e4, m4)"
        using n3 n4 r by (auto simp: kFp16ManHideBit_def split: if_splits)
    qed
    moreover have "encode16_nan s (p * 2 ^ i * 2 ^ d') d' = (if int e * 2 ^ 10 + r < 31 * 2 ^ 10 then s * 2 ^ 15 + int e * 2 ^ 10 + r else s * 2 ^ 15 + 0x7FFF)"
      using R r assms(2) by (intro encode16_nan_shifted) (simp_all add: r_def)
    moreover have "encode16_nan s (p * 2 ^ i * 2 ^ d') (0 + d') = encode16_nan s (p * 2 ^ i) 0"
      using assms(2) by (intro encode16_scale(3)) simp
    ultimately show ?thesis
      using assemble16 [OF assms(1) r(1-3) n3 n4] by simp
  qed
qed

text \<open>The case of a vanishing integer part, where three guard bits are kept: the sum is zero or half a unit.\<close>

lemma AddCalVal_guard:
  assumes "s = 0 \<or> s = 1" and "w = 0 \<and> d = 0 \<or> w = 1 \<and> d = 1" and "E = Suc (d + i)" and "E \<le> 30"
  shows "Fp16AddCalVal kRoundToNearest s (int E) (w * 8 div 2 ^ d) (shifted_out (w * 8) d) 3 = Some (encode16_nan s (w * 2 ^ i) 0)"
proof -
  have "\<forall>s \<in> {0, 1}. \<forall>i \<in> set [0..<30]. Fp16AddCalVal kRoundToNearest s (int (Suc i)) 0 0 3 = Some (encode16_nan s 0 0)"
    by code_simp
  moreover have "\<forall>s \<in> {0, 1}. \<forall>i \<in> set [0..<29]. Fp16AddCalVal kRoundToNearest s (int (Suc (Suc i))) 4 0 3 = Some (encode16_nan s (2 ^ i) 0)"
    by code_simp
  ultimately show ?thesis
    using assms by (auto simp: shifted_out_def)
qed


section \<open>Aligning the operands\<close>

lemma aligned_sum:
  assumes "- (2 ^ 31) \<le> y" and "y < 2 ^ 31" and "d \<le> 32"
  shows "(x mod 2 ^ 32 + RightShift (y mod 2 ^ 32) d) mod 2 ^ 16 = (x * 2 ^ d + y) div 2 ^ d mod 2 ^ 16"
    and "push_bit (32 - d) (y mod 2 ^ 32) mod 2 ^ 32 = shifted_out (x * 2 ^ d + y) d"
proof -
  have m: "a mod 2 ^ 32 mod 2 ^ 16 = a mod (2 ^ 16 :: int)" for a
    by (rule mod_mod_cancel) simp
  have "(x * 2 ^ d + y) div 2 ^ d = x + y div 2 ^ d"
    by simp
  then show "(x mod 2 ^ 32 + RightShift (y mod 2 ^ 32) d) mod 2 ^ 16 = (x * 2 ^ d + y) div 2 ^ d mod 2 ^ 16"
    unfolding RightShift_mod [OF assms(1,2)] by (metis m mod_add_eq)
  have w: "(2 :: int) ^ 32 = 2 ^ d * 2 ^ (32 - d)"
    using assms(3) by (simp flip: power_add)
  have "push_bit (32 - d) (y mod 2 ^ 32) mod 2 ^ 32 = y * 2 ^ (32 - d) mod 2 ^ 32"
    by (simp add: push_bit_eq_mult mod_mult_left_eq)
  also have "\<dots> = (y mod 2 ^ d) * 2 ^ (32 - d)"
    unfolding w by (simp add: mult_mod_left)
  also have "\<dots> = shifted_out (x * 2 ^ d + y) d"
    by (simp add: shifted_out_def)
  finally show "push_bit (32 - d) (y mod 2 ^ 32) mod 2 ^ 32 = shifted_out (x * 2 ^ d + y) d" .
qed

text \<open>The operands scaled to the smaller exponent, and their sum.\<close>

definition scaled_sum :: "int \<Rightarrow> int \<Rightarrow> int \<Rightarrow> int \<Rightarrow> int" where
  "scaled_sum ea x eb y = (if eb \<le> ea then x * 2 ^ nat \<bar>ea - eb\<bar> + y else x + y * 2 ^ nat \<bar>ea - eb\<bar>)"

lemma mod_32_16: "a mod 2 ^ 32 mod 2 ^ 16 = a mod (2 ^ 16 :: int)"
  by (rule mod_mod_cancel) simp

lemma aligned_operands:
  assumes "\<bar>x\<bar> < 2 ^ 31" and "\<bar>y\<bar> < 2 ^ 31" and "d = nat \<bar>ea - eb\<bar>" and "d \<le> 32"
  obtains u v where "(if ea > eb then (x mod 2 ^ 32, RightShift (y mod 2 ^ 32) d, push_bit (32 - d) (y mod 2 ^ 32) mod 2 ^ 32)
      else if ea < eb then (RightShift (x mod 2 ^ 32) d, y mod 2 ^ 32, push_bit (32 - d) (x mod 2 ^ 32) mod 2 ^ 32)
      else (x mod 2 ^ 32, y mod 2 ^ 32, 0)) = (u, v, shifted_out (scaled_sum ea x eb y) d)"
    and "(u + v) mod 2 ^ 16 = scaled_sum ea x eb y div 2 ^ d mod 2 ^ 16"
    and "GetManSum ea (x mod 2 ^ 32) eb (y mod 2 ^ 32) mod 2 ^ 16 = scaled_sum ea x eb y div 2 ^ d mod 2 ^ 16"
proof -
  have b: "- (2 ^ 31) \<le> x" "x < 2 ^ 31" "- (2 ^ 31) \<le> y" "y < 2 ^ 31"
    using assms(1,2) by auto
  note S = aligned_sum [OF b(3,4) assms(4), of x] aligned_sum [OF b(1,2) assms(4), of y]
  consider (gt) "eb < ea" | (lt) "ea < eb" | (eq) "ea = eb"
    by linarith
  then show thesis
  proof cases
    case gt
    then have P: "scaled_sum ea x eb y = x * 2 ^ d + y" "ea \<noteq> eb" "(eb < ea) = True"
      by (simp_all add: scaled_sum_def assms(3))
    show thesis
    proof (rule that [of "x mod 2 ^ 32" "RightShift (y mod 2 ^ 32) d"])
      show "GetManSum ea (x mod 2 ^ 32) eb (y mod 2 ^ 32) mod 2 ^ 16 = scaled_sum ea x eb y div 2 ^ d mod 2 ^ 16"
        using P(2) by (simp only: GetManSum_def Let_def assms(3) [symmetric] P(1,3) if_True mod_32_16 S simp_thms)
    qed (simp_all only: P S if_True)
  next
    case lt
    then have P: "scaled_sum ea x eb y = y * 2 ^ d + x" "ea \<noteq> eb" "(eb < ea) = False" "(ea < eb) = True"
      by (simp_all add: scaled_sum_def assms(3))
    show thesis
    proof (rule that [of "RightShift (x mod 2 ^ 32) d" "y mod 2 ^ 32"])
      show "GetManSum ea (x mod 2 ^ 32) eb (y mod 2 ^ 32) mod 2 ^ 16 = scaled_sum ea x eb y div 2 ^ d mod 2 ^ 16"
        using P(2) by (simp only: GetManSum_def Let_def assms(3) [symmetric] P(1,3) if_True if_False mod_32_16 S simp_thms
            add.commute [of "RightShift _ _"])
    qed (simp_all only: P S if_True if_False add.commute [of "RightShift _ _"])
  next
    case eq
    then have P: "scaled_sum ea x eb y = x + y" "d = 0"
      by (simp_all add: scaled_sum_def assms(3))
    have xy: "(x mod 2 ^ 32 + y mod 2 ^ 32) mod 2 ^ 16 = (x + y) mod 2 ^ 16"
      by (metis mod_32_16 mod_add_eq)
    show thesis
      by (rule that [of "x mod 2 ^ 32" "y mod 2 ^ 32"])
        (simp_all only: P [unfolded eq] eq xy GetManSum_def mod_32_16 less_irrefl if_False simp_thms shifted_out_0 power_0 div_by_1)
  qed
qed


lemma GetManSum_eq:
  assumes "\<bar>x\<bar> < 2 ^ 11" and "\<bar>y\<bar> < 2 ^ 11" and "d = nat \<bar>ea - eb\<bar>" and "d \<le> 32"
  shows "GetManSum ea (x mod 2 ^ 32) eb (y mod 2 ^ 32) mod 2 ^ 16 = scaled_sum ea x eb y div 2 ^ d mod 2 ^ 16"
proof -
  have "\<bar>x\<bar> < 2 ^ 31" "\<bar>y\<bar> < 2 ^ 31"
    using assms(1,2) by simp_all
  then show ?thesis
    by (rule aligned_operands [OF _ _ assms(3,4)])
qed

section \<open>Addition\<close>

lemma top_bit:
  assumes "- (2 ^ 15) \<le> q" and "q < (2 ^ 15 :: int)"
  shows "drop_bit 15 (q mod 2 ^ 16 AND kFp16SignMask) = (if q < 0 then 1 else 0)" and "q mod 2 ^ 16 = 0 \<longleftrightarrow> q = 0"
proof -
  have q: "q mod 2 ^ 16 = (if q < 0 then q + 2 ^ 16 else q)"
    using assms mod_add_self2 [of q "2 ^ 16"] mod_pos_pos_trivial [of "q + 2 ^ 16" "2 ^ 16"] by auto
  have "drop_bit 15 (q mod 2 ^ 16 AND push_bit 15 1) = (if q < 0 then 1 else 0)"
    unfolding drop_and q using assms div_mod_double(1) [of "q + 2 ^ 16" "2 ^ 15"] by (auto simp: div_pos_pos_trivial)
  then show "drop_bit 15 (q mod 2 ^ 16 AND kFp16SignMask) = (if q < 0 then 1 else 0)"
    by (simp add: kFp16SignMask_def push_bit_eq_mult)
  show "q mod 2 ^ 16 = 0 \<longleftrightarrow> q = 0"
    using assms unfolding q by auto
qed

lemma scaled_sum_minus: "scaled_sum ea (- x) eb (- y) = - scaled_sum ea x eb y"
  by (simp add: scaled_sum_def)

lemma scaled_sum_scale: "scaled_sum ea (c * x) eb (c * y) = c * scaled_sum ea x eb y"
  by (simp add: scaled_sum_def algebra_simps)

text \<open>The exponents and mantissas of the operands.\<close>

lemma scaled_sum_value:
  assumes "1 \<le> ea" and "1 \<le> eb"
  shows "x * 2 ^ nat (ea - 1) + y * 2 ^ nat (eb - 1) = scaled_sum ea x eb y * 2 ^ nat (min ea eb - 1)"
proof (cases "eb \<le> ea")
  case True
  then have "nat (ea - 1) = nat \<bar>ea - eb\<bar> + nat (eb - 1)" "min ea eb = eb"
    using assms by auto
  with True show ?thesis
    by (simp add: scaled_sum_def power_add distrib_right mult.assoc)
next
  case False
  then have "nat (eb - 1) = nat \<bar>ea - eb\<bar> + nat (ea - 1)" "min ea eb = ea"
    using assms by auto
  with False show ?thesis
    by (simp add: scaled_sum_def power_add distrib_right mult.assoc)
qed

lemma scaled_sum_bound:
  assumes "\<bar>x\<bar> < 2 ^ 11" and "\<bar>y\<bar> < 2 ^ 11" and "d = nat \<bar>ea - eb\<bar>"
  shows "\<bar>scaled_sum ea x eb y\<bar> < 2 ^ 12 * 2 ^ d" and "- (2 ^ 12) \<le> scaled_sum ea x eb y div 2 ^ d" and "scaled_sum ea x eb y div 2 ^ d < 2 ^ 12"
proof -
  have "\<bar>h * 2 ^ d + l\<bar> < 2 ^ 12 * 2 ^ d" if "\<bar>h\<bar> < 2 ^ 11" "\<bar>l\<bar> < 2 ^ 11" for h l :: int
  proof -
    define q where "q = (2 :: int) ^ d"
    have "\<bar>h * q\<bar> \<le> 2047 * q" "1 \<le> q" "\<bar>l\<bar> < 2048"
      using that by (auto simp: q_def abs_mult)
    then have "\<bar>h * q + l\<bar> < 4096 * q"
      using abs_triangle_ineq [of "h * q" l] by linarith
    then show ?thesis
      by (simp add: q_def)
  qed
  from this [OF assms(1,2)] this [OF assms(2,1)] show B: "\<bar>scaled_sum ea x eb y\<bar> < 2 ^ 12 * 2 ^ d"
    unfolding scaled_sum_def assms(3) [symmetric] by (simp add: add.commute)
  then show "- (2 ^ 12) \<le> scaled_sum ea x eb y div 2 ^ d" "scaled_sum ea x eb y div 2 ^ d < 2 ^ 12"
    unfolding le_div_power div_power_less by auto
qed

text \<open>Cancellation of the whole integer part leaves nothing or one half.\<close>

lemma cancellation:
  assumes "\<bar>x\<bar> < 2 ^ 11" and "\<bar>y\<bar> < 2 ^ 11" and "1 < ea \<Longrightarrow> 2 ^ 10 \<le> \<bar>x\<bar>" and "1 < eb \<Longrightarrow> 2 ^ 10 \<le> \<bar>y\<bar>"
    and "1 \<le> ea" and "1 \<le> eb" and "d = nat \<bar>ea - eb\<bar>" and "0 \<le> scaled_sum ea x eb y" and "scaled_sum ea x eb y < 2 ^ d"
  shows "scaled_sum ea x eb y = 0 \<and> d = 0 \<or> scaled_sum ea x eb y = 1 \<and> d = 1"
proof (cases "d = 0")
  case True
  with assms(8,9) show ?thesis by simp
next
  case False
  have main: "d = 1 \<and> h * 2 ^ d + l = 1"
    if "2 ^ 10 \<le> \<bar>h\<bar>" "\<bar>l\<bar> < 2 ^ 11" "0 \<le> h * 2 ^ d + l" "h * 2 ^ d + l < 2 ^ d" for h l :: int
  proof -
    obtain c where c: "d = Suc c"
      using False by (cases d) auto
    have "2 ^ 10 * 2 ^ d \<le> \<bar>h * 2 ^ d\<bar>"
      unfolding abs_mult using that(1) by simp
    moreover have "\<bar>h * 2 ^ d\<bar> \<le> \<bar>l\<bar> + 2 ^ d - 1"
      using that(3,4) by linarith
    ultimately have l: "1023 * 2 ^ d + 1 \<le> \<bar>l\<bar>"
      by simp
    with that(2) have "(2 :: int) ^ c < 2 ^ 1"
      by (simp add: c)
    then have "c < 1"
      by (simp only: power_strict_increasing_iff [of "2 :: int"] one_less_numeral_iff semiring_norm)
    then have "d = 1" by (simp add: c)
    with that(2-4) l have "\<bar>l\<bar> = 2047" "0 \<le> h * 2 + l" "h * 2 + l < 2"
      by simp_all
    then have "h * 2 + l = 1"
      by presburger
    with \<open>d = 1\<close> show ?thesis by simp
  qed
  show ?thesis
  proof (cases "eb \<le> ea")
    case True
    with assms False show ?thesis
      using main [of x y] by (simp add: scaled_sum_def)
  next
    case False
    with assms \<open>d \<noteq> 0\<close> show ?thesis
      using main [of y x] by (simp add: scaled_sum_def add.commute)
  qed
qed


definition sum_sign :: "int \<Rightarrow> int \<Rightarrow> int" where
  "sum_sign a b = (if sgn16 a \<noteq> sgn16 b then if value16 a + value16 b < 0 then 1 else 0 else sgn16 a)"

text \<open>Exponent and signed mantissa of an operand; the mantissa relative to the sign of the sum.\<close>

definition sexp :: "int \<Rightarrow> int" where "sexp v = max 1 (exp16 v)"
definition sman :: "int \<Rightarrow> int" where "sman v = (if sgn16 v = 0 then man16 v else - man16 v)"
definition oriented :: "int \<Rightarrow> int \<Rightarrow> int" where "oriented s v = (if s = 0 then sman v else - sman v)"

lemma operand_bounds:
  assumes "finite16 v"
  shows "1 \<le> sexp v" and "sexp v \<le> 30" and "\<bar>sman v\<bar> < 2 ^ 11" and "\<bar>oriented s v\<bar> < 2 ^ 11"
    and "1 < sexp v \<Longrightarrow> 2 ^ 10 \<le> \<bar>oriented s v\<bar>" and "value16 v = sman v * 2 ^ nat (sexp v - 1)"
  using man16_bounds [of v] assms
  by (auto simp: sexp_def sman_def oriented_def finite16_def value16_def mag16_max max_def split: if_splits)

lemma sum_sign_cases: "is16 a \<Longrightarrow> sum_sign a b = 0 \<or> sum_sign a b = 1"
  using sgn16_cases [of a] by (auto simp: sum_sign_def)

lemma oriented_same: "is16 a \<Longrightarrow> oriented (sgn16 a) a = man16 a"
  using sgn16_cases [of a] by (auto simp: oriented_def sman_def)

lemma oriented_sum:
  assumes "finite16 a" and "finite16 b" and "s = sum_sign a b" and "p = scaled_sum (sexp a) (oriented s a) (sexp b) (oriented s b)"
  shows "0 \<le> p" and "\<bar>value16 a + value16 b\<bar> = p * 2 ^ nat (min (sexp a) (sexp b) - 1)"
    and "sgn16 a \<noteq> sgn16 b \<Longrightarrow> s = (if scaled_sum (sexp a) (sman a) (sexp b) (sman b) < 0 then 1 else 0)"
    and "p = (if s = 0 then scaled_sum (sexp a) (sman a) (sexp b) (sman b) else - scaled_sum (sexp a) (sman a) (sexp b) (sman b))"
proof -
  define w where "w = scaled_sum (sexp a) (sman a) (sexp b) (sman b)"
  have ab: "is16 a" "is16 b"
    using assms(1,2) by (simp_all add: finite16_def)
  have v: "value16 a + value16 b = w * 2 ^ nat (min (sexp a) (sexp b) - 1)"
    using scaled_sum_value [of "sexp a" "sexp b" "sman a" "sman b"] operand_bounds [OF assms(1)] operand_bounds [OF assms(2)]
    by (simp add: w_def)
  have s: "s = (if w < 0 then 1 else 0)" if "sgn16 a \<noteq> sgn16 b"
    using that unfolding assms(3) sum_sign_def v by (simp add: mult_less_0_iff)
  have pw: "p = (if s = 0 then w else - w)"
    by (simp add: assms(4) w_def oriented_def scaled_sum_minus)
  show p: "0 \<le> p"
  proof (cases "sgn16 a = sgn16 b")
    case True
    then have "oriented s a = man16 a" "oriented s b = man16 b"
      using oriented_same [OF ab(1)] oriented_same [OF ab(2)] by (simp_all add: assms(3) sum_sign_def)
    with man16_bounds(1) show ?thesis
      by (simp add: assms(4) scaled_sum_def)
  next
    case False
    with s pw show ?thesis by simp
  qed
  show "\<bar>value16 a + value16 b\<bar> = p * 2 ^ nat (min (sexp a) (sexp b) - 1)"
    using p pw by (auto simp: v abs_mult)
  show "sgn16 a \<noteq> sgn16 b \<Longrightarrow> s = (if scaled_sum (sexp a) (sman a) (sexp b) (sman b) < 0 then 1 else 0)"
    and "p = (if s = 0 then scaled_sum (sexp a) (sman a) (sexp b) (sman b) else - scaled_sum (sexp a) (sman a) (sexp b) (sman b))"
    using s pw by (simp_all add: w_def)
qed

text \<open>The first step of the addition: the truncated sum, its sign and the mantissas relative to that sign.\<close>

definition trunc_sum :: "int \<Rightarrow> int \<Rightarrow> int" where
  "trunc_sum a b = (if sgn16 a \<noteq> sgn16 b then scaled_sum (sexp a) (sman a) (sexp b) (sman b)
     else scaled_sum (sexp a) (man16 a) (sexp b) (man16 b)) div 2 ^ nat \<bar>sexp a - sexp b\<bar>"

lemma trunc_sum_bounds:
  assumes "finite16 a" and "finite16 b"
  shows "- (2 ^ 15) \<le> trunc_sum a b" and "trunc_sum a b < 2 ^ 15"
proof -
  note A = operand_bounds [OF assms(1)] and B = operand_bounds [OF assms(2)]
  have "\<bar>man16 a\<bar> < 2 ^ 11" "\<bar>man16 b\<bar> < 2 ^ 11"
    using man16_bounds [of a] man16_bounds [of b] by simp_all
  note scaled_sum_bound(2,3) [OF A(3) B(3) refl, of "sexp a" "sexp b"] scaled_sum_bound(2,3) [OF this refl, of "sexp a" "sexp b"]
  then show "- (2 ^ 15) \<le> trunc_sum a b" "trunc_sum a b < 2 ^ 15"
    by (auto simp: trunc_sum_def)
qed

lemma sign_step:
  assumes "finite16 a" and "finite16 b" and "s = sum_sign a b"
  shows "(if sgn16 a \<noteq> sgn16 b then
       (GetManSum (sexp a) (ReverseMan (sgn16 a > 0) (man16 a)) (sexp b) (ReverseMan (sgn16 b > 0) (man16 b)) mod 2 ^ 16,
        drop_bit 15 (GetManSum (sexp a) (ReverseMan (sgn16 a > 0) (man16 a)) (sexp b) (ReverseMan (sgn16 b > 0) (man16 b)) mod 2 ^ 16 AND kFp16SignMask),
        ReverseMan (drop_bit 15 (GetManSum (sexp a) (ReverseMan (sgn16 a > 0) (man16 a)) (sexp b) (ReverseMan (sgn16 b > 0) (man16 b)) mod 2 ^ 16 AND kFp16SignMask) > 0)
          (ReverseMan (sgn16 a > 0) (man16 a)),
        ReverseMan (drop_bit 15 (GetManSum (sexp a) (ReverseMan (sgn16 a > 0) (man16 a)) (sexp b) (ReverseMan (sgn16 b > 0) (man16 b)) mod 2 ^ 16 AND kFp16SignMask) > 0)
          (ReverseMan (sgn16 b > 0) (man16 b)))
     else (GetManSum (sexp a) (man16 a) (sexp b) (man16 b) mod 2 ^ 16, sgn16 a, man16 a, man16 b))
     = (trunc_sum a b mod 2 ^ 16, s, oriented s a mod 2 ^ 32, oriented s b mod 2 ^ 32)"
proof -
  note A = operand_bounds [OF assms(1)] and B = operand_bounds [OF assms(2)]
  have ab: "is16 a" "is16 b"
    using assms(1,2) by (simp_all add: finite16_def)
  have d32: "nat \<bar>sexp a - sexp b\<bar> \<le> 32"
    using A(1,2) B(1,2) by simp
  have man: "\<bar>man16 a\<bar> < 2 ^ 11" "\<bar>man16 b\<bar> < 2 ^ 11" "man16 a mod 2 ^ 32 = man16 a" "man16 b mod 2 ^ 32 = man16 b"
    using man16_bounds [of a] man16_bounds [of b] by simp_all
  show ?thesis
  proof (cases "sgn16 a = sgn16 b")
    case True
    then have X: "oriented s a = man16 a" "oriented s b = man16 b" and s: "s = sgn16 a"
      using oriented_same [OF ab(1)] oriented_same [OF ab(2)] by (simp_all add: assms(3) sum_sign_def)
    have "GetManSum (sexp a) (man16 a) (sexp b) (man16 b) mod 2 ^ 16 = trunc_sum a b mod 2 ^ 16"
      using GetManSum_eq [OF man(1,2) refl d32] True unfolding man trunc_sum_def by simp
    with True show ?thesis
      unfolding X man by (simp add: s)
  next
    case False
    have R: "ReverseMan (sgn16 a > 0) (man16 a) = sman a mod 2 ^ 32" "ReverseMan (sgn16 b > 0) (man16 b) = sman b mod 2 ^ 32"
      using ReverseMan_mod [of "sgn16 a > 0" "man16 a"] ReverseMan_mod [of "sgn16 b > 0" "man16 b"] sgn16_cases [OF ab(1)] sgn16_cases [OF ab(2)]
      unfolding man by (auto simp: sman_def)
    have G: "GetManSum (sexp a) (sman a mod 2 ^ 32) (sexp b) (sman b mod 2 ^ 32) mod 2 ^ 16 = trunc_sum a b mod 2 ^ 16"
      using GetManSum_eq [OF A(3) B(3) refl d32] False unfolding trunc_sum_def by simp
    have "trunc_sum a b < 0 \<longleftrightarrow> scaled_sum (sexp a) (sman a) (sexp b) (sman b) < 0"
      using False by (simp add: trunc_sum_def div_power_less)
    then have S: "drop_bit 15 (trunc_sum a b mod 2 ^ 16 AND kFp16SignMask) = s"
      using top_bit(1) [OF trunc_sum_bounds [OF assms(1,2)]] oriented_sum(3) [OF assms refl False] by simp
    have "ReverseMan (s > 0) (sman v mod 2 ^ 32) = oriented s v mod 2 ^ 32" for v
      using sum_sign_cases [OF ab(1), of b] unfolding ReverseMan_mod oriented_def assms(3) by auto
    with False show ?thesis
      by (simp only: R G S if_True simp_thms)
  qed
qed

lemma trunc_sum_zero:
  assumes "finite16 a" and "finite16 b" and "s = sum_sign a b" and "p = scaled_sum (sexp a) (oriented s a) (sexp b) (oriented s b)"
    and "trunc_sum a b = 0"
  shows "p < 2 ^ nat \<bar>sexp a - sexp b\<bar>"
proof (cases "sgn16 a = sgn16 b")
  case True
  then have "oriented s a = man16 a" "oriented s b = man16 b"
    using oriented_same [of a] oriented_same [of b] assms(1,2) by (simp_all add: assms(3) sum_sign_def finite16_def)
  with True assms(4,5) show ?thesis
    using div_power_less [of p "nat \<bar>sexp a - sexp b\<bar>" 1] by (simp add: trunc_sum_def)
next
  case False
  define w where "w = scaled_sum (sexp a) (sman a) (sexp b) (sman b)"
  have w: "w div 2 ^ nat \<bar>sexp a - sexp b\<bar> = 0"
    using False assms(5) by (simp add: trunc_sum_def w_def)
  then have "0 \<le> w" "w < 1 * 2 ^ nat \<bar>sexp a - sexp b\<bar>"
    using le_div_power [of 0 w] div_power_less [of w _ 1] by (metis mult_zero_left order_refl, metis zero_less_one)
  with oriented_sum(3,4) [OF assms(1-4)] False show ?thesis
    by (simp add: w_def)
qed

lemma Fp16Add_encode:
  assumes "finite16 a" and "finite16 b"
  shows "Fp16Add kRoundToNearest a b = Some (encode16_nan (sum_sign a b) \<bar>value16 a + value16 b\<bar> 0)"
proof -
  define s d i where "s = sum_sign a b" and "d = nat \<bar>sexp a - sexp b\<bar>" and "i = nat (min (sexp a) (sexp b) - 1)"
  define x y where "x = oriented s a" and "y = oriented s b"
  define p where "p = scaled_sum (sexp a) x (sexp b) y"
  note A = operand_bounds [OF assms(1)] and B = operand_bounds [OF assms(2)]
  note p = oriented_sum(1,2) [OF assms s_def p_def [unfolded x_def y_def]]
  have ab: "is16 a" "is16 b"
    using assms by (simp_all add: finite16_def)
  have s01: "s = 0 \<or> s = 1"
    using sum_sign_cases [OF ab(1), of b] by (simp add: s_def)
  have d32: "d \<le> 32" "d < 30" "Suc (d + i) \<le> 30" and E: "max (sexp a) (sexp b) = int (Suc (d + i))"
    using A(1,2) B(1,2) by (auto simp: d_def i_def)
  have xy: "\<bar>x\<bar> < 2 ^ 11" "\<bar>y\<bar> < 2 ^ 11" "1 < sexp a \<Longrightarrow> 2 ^ 10 \<le> \<bar>x\<bar>" "1 < sexp b \<Longrightarrow> 2 ^ 10 \<le> \<bar>y\<bar>"
    using A(4,5) B(4,5) by (auto simp: x_def y_def)
  note zero = top_bit(2) [OF trunc_sum_bounds [OF assms]]
  note unfold = Fp16Add_def ExtractFp16_eq [OF ab(1)] ExtractFp16_eq [OF ab(2)] Let_def prod.case sexp_def [symmetric]
    sign_step [OF assms s_def] x_def [symmetric] y_def [symmetric] d_def [symmetric] E
  define k :: nat where "k = (if trunc_sum a b = 0 then 3 else 0)"
  have k: "\<bar>c * 2 ^ k\<bar> < 2 ^ 31" if "\<bar>c\<bar> < 2 ^ 11" for c :: int
    using that by (auto simp: k_def)
  have pk: "scaled_sum (sexp a) (x * 2 ^ k) (sexp b) (y * 2 ^ k) = p * 2 ^ k"
    using scaled_sum_scale [of "sexp a" "2 ^ k" x "sexp b" y] by (simp add: p_def mult.commute)
  obtain u v where uv: "(if sexp a > sexp b then (x * 2 ^ k mod 2 ^ 32, RightShift (y * 2 ^ k mod 2 ^ 32) d, push_bit (32 - d) (y * 2 ^ k mod 2 ^ 32) mod 2 ^ 32)
      else if sexp a < sexp b then (RightShift (x * 2 ^ k mod 2 ^ 32) d, y * 2 ^ k mod 2 ^ 32, push_bit (32 - d) (x * 2 ^ k mod 2 ^ 32) mod 2 ^ 32)
      else (x * 2 ^ k mod 2 ^ 32, y * 2 ^ k mod 2 ^ 32, 0)) = (u, v, shifted_out (p * 2 ^ k) d)"
    "(u + v) mod 2 ^ 16 = p * 2 ^ k div 2 ^ d mod 2 ^ 16"
    by (rule aligned_operands [OF k [OF xy(1)] k [OF xy(2)] d_def d32(1), unfolded pk])
  have sh: "(if trunc_sum a b mod 2 ^ 16 = 0 then push_bit (if trunc_sum a b mod 2 ^ 16 = 0 then 3 else 0) (c mod 2 ^ 32) mod 2 ^ 32 else c mod 2 ^ 32)
      = c * 2 ^ k mod 2 ^ 32" for c :: int
    unfolding zero by (simp add: k_def push_bit_eq_mult mod_mult_left_eq)
  have cal: "Fp16Add kRoundToNearest a b = Fp16AddCalVal kRoundToNearest s (int (Suc (d + i))) (p * 2 ^ k div 2 ^ d mod 2 ^ 16) (shifted_out (p * 2 ^ k) d) k"
    by (simp only: unfold sh uv) (simp only: zero k_def)
  show ?thesis
  proof (cases "trunc_sum a b = 0")
    case True
    then have c: "p = 0 \<and> d = 0 \<or> p = 1 \<and> d = 1"
      using cancellation [OF xy A(1) B(1) d_def] p(1) trunc_sum_zero [OF assms s_def p_def [unfolded x_def y_def]]
      by (simp add: p_def d_def)
    then have "p * 2 ^ 3 div 2 ^ d mod 2 ^ 16 = p * 8 div 2 ^ d"
      by auto
    with AddCalVal_guard [OF s01 c refl d32(3)] True cal show ?thesis
      by (simp add: k_def p(2) s_def i_def)
  next
    case False
    have small: "p div 2 ^ d < 2 ^ 12" "0 \<le> p div 2 ^ d"
      using scaled_sum_bound(3) [OF xy(1,2) d_def] p(1) by (simp_all add: p_def pos_imp_zdiv_nonneg_iff)
    then have "p div 2 ^ d mod 2 ^ 16 = p div 2 ^ d"
      by (intro mod_pos_pos_trivial) auto
    with AddCalVal_encode [OF s01 p(1) small(1) d32(2) refl, of i] False cal show ?thesis
      by (simp add: k_def p(2) s_def i_def)
  qed
qed

end
