(* ===== verification/Fp16_Spec.thy ===== *)
theory Fp16_Spec
  imports Fp16_Ints Fp16_FromInt Fp16_Add
begin

text \<open>
  The half-precision type as a whole. Values are exact integers in units of \<open>2 ^ -24\<close> (\<open>value16\<close>, \<open>mag16\<close>); a
  result is correctly rounded when no finite half-precision value is closer to the exact one, ties going to the
  even pattern.
\<close>

section \<open>Correct rounding\<close>

text \<open>
  The exact magnitude is \<open>n / 2 ^ k\<close> in units of \<open>2 ^ -24\<close>. From \<open>65520\<close> on, halfway between the largest finite value
  \<open>65504\<close> and \<open>2 ^ 16\<close>, there is nothing to round to, and addition and multiplication return the pattern of all ones,
  which the source calls invalid data.
\<close>

definition correctly_rounded :: "int \<Rightarrow> nat \<Rightarrow> int \<Rightarrow> int \<Rightarrow> bool" where
  "correctly_rounded n k s v \<longleftrightarrow> finite16 v \<and> sgn16 v = s \<and> mag16 v = round16 n k
     \<and> (\<forall>w. finite16 w \<longrightarrow> \<bar>mag16 v * 2 ^ k - n\<bar> \<le> \<bar>mag16 w * 2 ^ k - n\<bar>)"

definition rounded_or_invalid :: "int \<Rightarrow> nat \<Rightarrow> int \<Rightarrow> int \<Rightarrow> bool" where
  "rounded_or_invalid n k s v \<longleftrightarrow>
     (if n < 65520 * 2 ^ (k + 24) then correctly_rounded n k s v else v = s * 2 ^ 15 + 0x7FFF)"

lemma round16_fits:
  assumes "0 \<le> n"
  shows "round16 n k < 2 ^ 40 \<longleftrightarrow> n < 65520 * 2 ^ (k + 24)"
proof -
  consider "30 \<le> ulp16 n k" | "ulp16 n k = 29" | "ulp16 n k \<le> 28" by linarith
  then show ?thesis
  proof cases
    case 1
    have "(2 :: int) ^ (k + 24) * 2 ^ 16 \<le> 2 ^ (k + 10 + ulp16 n k)"
      unfolding power_add [symmetric] using 1 by (intro power_increasing) auto
    moreover have "2 ^ (k + 10 + ulp16 n k) \<le> n" using ulp16_bounds(2) [OF assms, of k] 1 by auto
    moreover have "65520 * (2 :: int) ^ (k + 24) \<le> 2 ^ (k + 24) * 2 ^ 16" by simp
    ultimately have "\<not> n < 65520 * 2 ^ (k + 24)" by linarith
    moreover have "(2 :: int) ^ 10 * 2 ^ 30 \<le> round16 n k"
      unfolding round16_def using rounded_man(3) [OF assms, of k] 1 by (intro mult_mono power_increasing) auto
    ultimately show ?thesis by simp
  next
    case 2
    define d where "d = n div 2 ^ (k + 29)"
    define r where "r = n mod 2 ^ (k + 29)"
    have P: "(2 :: int) ^ (k + 29) = 2 * (16 * 2 ^ (k + 24))" by (simp add: power_add)
    have n: "n = d * 2 ^ (k + 29) + r" by (simp only: d_def r_def div_mult_mod_eq)
    have r: "0 \<le> r" "r < 2 ^ (k + 29)" by (simp_all add: r_def)
    have "d \<le> 2047" using ulp16_bounds(1) [OF assms, of k] 2 div_power_less [of n "k + 29" 2048] by (simp add: d_def power_add)
    then consider "d < 2047" | "d = 2047" by linarith
    then have "rne_div n (k + 29) < 2048 \<longleftrightarrow> n < 65520 * 2 ^ (k + 24)"
    proof cases
      case 1
      then have "(d + 1) * 2 ^ (k + 29) \<le> 2047 * 2 ^ (k + 29)" by (intro mult_right_mono) auto
      moreover have "n < (d + 1) * 2 ^ (k + 29)" using n r(2) by (simp add: distrib_right)
      moreover have "2047 * 2 ^ (k + 29) \<le> 65520 * (2 :: int) ^ (k + 24)" by (simp add: power_add)
      ultimately have "n < 65520 * 2 ^ (k + 24)" by linarith
      then show ?thesis using 1 by (simp add: rne_div_def d_def)
    next
      case 2
      then have "round_up n (k + 29) \<longleftrightarrow> 16 * 2 ^ (k + 24) \<le> r"
        unfolding round_up_def d_def [symmetric] r_def [symmetric] unfolding P by auto
      moreover have "n < 65520 * 2 ^ (k + 24) \<longleftrightarrow> r < 16 * 2 ^ (k + 24)" using n unfolding 2 P by auto
      ultimately show ?thesis using 2 by (auto simp: rne_div_def d_def)
    qed
    then show ?thesis using 2 by (simp add: round16_def)
  next
    case 3
    have "round16 n k \<le> 2 ^ 11 * 2 ^ 28"
      unfolding round16_def using 3 rounded_man [OF assms, of k] by (intro mult_mono power_increasing) auto
    moreover have "n < 2 ^ (k + 24) * 2 ^ 15"
      using ulp16_bounds(1) [OF assms, of k] power_increasing [of "k + 11 + ulp16 n k" "k + 24 + 15" "2 :: int"] 3
      unfolding power_add [symmetric] by linarith
    moreover have "(2 :: int) ^ (k + 24) * 2 ^ 15 \<le> 65520 * 2 ^ (k + 24)" by simp
    ultimately have "round16 n k < 2 ^ 40" "n < 65520 * 2 ^ (k + 24)" by (simp, linarith)
    then show ?thesis by simp
  qed
qed

lemma encode16_nan_rounded:
  assumes "s = 0 \<or> s = 1" and "0 \<le> n"
  shows "rounded_or_invalid n k s (encode16_nan s n k)"
  using encode16_correct [OF assms] round16_closest [OF assms(2)] round16_fits [OF assms(2), of k]
  by (simp add: rounded_or_invalid_def correctly_rounded_def encode16_nan_def)

lemma negate16:
  assumes "finite16 v"
  shows "finite16 ((NOT v AND kFp16SignMask) OR (v AND kFp16AbsMax))"
    and "value16 ((NOT v AND kFp16SignMask) OR (v AND kFp16AbsMax)) = - value16 v"
    and "sgn16 ((NOT v AND kFp16SignMask) OR (v AND kFp16AbsMax)) = 1 - sgn16 v"
proof -
  have v16: "is16 v"
    using assms by (simp add: finite16_def)
  have f: "0 \<le> v mod 2 ^ 10" "v mod 2 ^ 10 < 2 ^ 10"
    by simp_all
  note e = exp16_bounds [of v]
  have s: "1 - sgn16 v = 0 \<or> 1 - sgn16 v = 1"
    using sgn16_cases [OF v16] by auto
  have "NOT v AND push_bit 15 1 = push_bit 15 (drop_bit 15 (NOT v) AND 1)"
    by (rule and_push_bit)
  also have "drop_bit 15 (NOT v) AND 1 = 1 - sgn16 v"
  proof -
    define r where "r = v mod 2 ^ 15"
    have "v = sgn16 v * 2 ^ 15 + r" "0 \<le> r" "r < 2 ^ 15"
      using sign_split [OF v16] by (simp_all add: r_def)
    then have "(- v - 1) div 2 ^ 15 = - sgn16 v - 1"
      by (intro int_div_pos_eq [where r = "2 ^ 15 - 1 - r"]) auto
    then show ?thesis
      using sgn16_cases [OF v16] by (auto simp: drop_bit_eq_div not_int_def)
  qed
  finally have "(NOT v AND kFp16SignMask) OR (v AND kFp16AbsMax) = (1 - sgn16 v) * 2 ^ 15 + v mod 2 ^ 15"
    using or_disjoint [of "v mod 2 ^ 15" 15 "1 - sgn16 v"] by (simp add: kFp16SignMask_def kFp16AbsMax_def push_bit_eq_mult)
  also have "\<dots> = (1 - sgn16 v) * 2 ^ 15 + exp16 v * 2 ^ 10 + v mod 2 ^ 10"
    using low_bits(1) [OF v16] by simp
  finally have w: "(NOT v AND kFp16SignMask) OR (v AND kFp16AbsMax) = (1 - sgn16 v) * 2 ^ 15 + exp16 v * 2 ^ 10 + v mod 2 ^ 10" .
  note F = fields_of_sum [OF s e f]
  show "finite16 ((NOT v AND kFp16SignMask) OR (v AND kFp16AbsMax))"
    "sgn16 ((NOT v AND kFp16SignMask) OR (v AND kFp16AbsMax)) = 1 - sgn16 v"
    unfolding w finite16_def using F assms by (simp_all only: finite16_def simp_thms)
  show "value16 ((NOT v AND kFp16SignMask) OR (v AND kFp16AbsMax)) = - value16 v"
    unfolding w value16_def mag16_def man16_def F using sgn16_cases [OF v16] by auto
qed

definition diff_sign :: "int \<Rightarrow> int \<Rightarrow> int" where
  "diff_sign a b = (if sgn16 a = sgn16 b then if value16 a < value16 b then 1 else 0 else sgn16 a)"

lemma negate16_sign:
  assumes "finite16 a" and "finite16 b"
  shows "sum_sign a ((NOT b AND kFp16SignMask) OR (b AND kFp16AbsMax)) = diff_sign a b"
  unfolding sum_sign_def negate16 [OF assms(2)] diff_sign_def
  using sgn16_cases [of a] sgn16_cases [of b] assms by (auto simp: finite16_def)

section \<open>Loops\<close>

lemma add_shift_down_terminates: "0 < m_max \<Longrightarrow> \<exists>r. add_shift_down m_max m e t = Some r"
proof (induction "nat m" arbitrary: m e t rule: less_induct)
  case less
  then show ?case
    by (subst add_shift_down.simps) (auto simp: drop_bit_eq_div)
qed

lemma add_renormalize_terminates: "0 < m_max \<Longrightarrow> \<exists>r. add_renormalize m_max m e = Some r"
proof (induction "nat m" arbitrary: m e rule: less_induct)
  case less
  then show ?case
    by (subst add_renormalize.simps) (auto simp: drop_bit_eq_div)
qed

lemma AddCalVal_terminates:
  assumes "shift_out = 0 \<or> shift_out = 3"
  shows "\<exists>r. Fp16AddCalVal mode s e m t shift_out = Some r"
proof -
  define m_min where "m_min = push_bit shift_out kFp16ManHideBit mod 2 ^ 16"
  obtain m1 e1 t1 where up: "add_shift_up m_min m e t = (m1, e1, t1)"
    by (metis surj_pair)
  have "0 < m_min * 2 mod 2 ^ 16"
    using assms by (auto simp: m_min_def kFp16ManHideBit_def)
  note T = add_shift_down_terminates [OF this] add_renormalize_terminates [OF this]
  obtain m2 e2 t2 where down: "add_shift_down (m_min * 2 mod 2 ^ 16) m1 e1 t1 = Some (m2, e2, t2)"
    using T(1) by (metis surj_pair)
  define r where "r = ManRoundToNearest (m2 AND 1 > 0) (mode = kRoundToNearest \<and> t2 AND 0x80000000 > 0)
    (mode = kRoundToNearest \<and> t2 AND 0x7FFFFFFF > 0) m2 shift_out"
  obtain m3 e3 where "add_renormalize (m_min * 2 mod 2 ^ 16) r e2 = Some (m3, e3)"
    using T(2) by (metis surj_pair)
  then show ?thesis
    by (simp only: Fp16AddCalVal_def Let_def m_min_def [symmetric] up down r_def prod.case option.case) (simp split: prod.split)
qed

lemma let_some: "(\<And>x. x = v \<Longrightarrow> \<exists>r. f x = Some r) \<Longrightarrow> \<exists>r. (let x = v in f x) = Some r"
  by (simp add: Let_def)

lemma split_some: "(\<And>x y. \<exists>r. f x y = Some r) \<Longrightarrow> \<exists>r. (case p of (x, y) \<Rightarrow> f x y) = Some r"
  by (cases p) simp

lemma Fp16Add_terminates: "\<exists>r. Fp16Add mode a b = Some r"
  unfolding Fp16Add_def by (intro let_some split_some AddCalVal_terminates) simp

lemma normalize_man_terminates: "0 \<le> m \<Longrightarrow> m < 2 ^ 11 \<Longrightarrow> \<exists>r. normalize_man m e = Some r"
  by (cases "m = 0") (simp add: normalize_man.simps, rule normalize_man_run [of m e], auto)

section \<open>Conversion from integers\<close>

text \<open>The nearest finite value, saturating at the largest one, \<open>65504\<close>.\<close>

definition represents16 :: "int \<Rightarrow> int \<Rightarrow> bool" where
  "represents16 i v \<longleftrightarrow> finite16 v \<and> sgn16 v = (if i < 0 then 1 else 0) \<and> mag16 v = min (2047 * 2 ^ 29) (round16 (\<bar>i\<bar> * 2 ^ 24) 0)"

lemma finite_mag: "finite16 v \<Longrightarrow> mag16 v \<le> 2047 * 2 ^ 29"
  using man16_bounds [of v] unfolding mag16_def
  by (intro mult_mono power_increasing) (auto simp: finite16_def)

lemma max_finite:
  assumes "s = 0 \<or> s = 1"
  shows "finite16 (s * 2 ^ 15 + 0x7BFF)" and "sgn16 (s * 2 ^ 15 + 0x7BFF) = s" and "mag16 (s * 2 ^ 15 + 0x7BFF) = 2047 * 2 ^ 29"
  using assms by (auto simp: finite16_def is16_def sgn16_def exp16_def mag16_def man16_def)

lemma encode16_sat_represents:
  assumes "s = (if i < 0 then 1 else 0)"
  shows "represents16 i (encode16_sat s (\<bar>i\<bar> * 2 ^ 24) 0)"
proof (cases "round16 (\<bar>i\<bar> * 2 ^ 24) 0 < 2 ^ 40")
  case True
  have "s = 0 \<or> s = 1" "0 \<le> \<bar>i\<bar> * 2 ^ 24"
    using assms by simp_all
  note E = encode16_correct [OF this True]
  with finite_mag [OF E(1)] True assms show ?thesis
    by (simp add: represents16_def encode16_sat_def)
next
  case False
  with assms max_finite [of s] show ?thesis
    by (auto simp: represents16_def encode16_sat_def)
qed

lemma encode16_represents:
  assumes "s = (if i < 0 then 1 else 0)" and "round16 (\<bar>i\<bar> * 2 ^ 24) 0 < 2 ^ 40"
  shows "represents16 i (encode16 s (\<bar>i\<bar> * 2 ^ 24) 0)"
  using encode16_sat_represents [OF assms(1)] assms(2) by (simp add: encode16_sat_def)


section \<open>Findings\<close>

text \<open>
  Values that round to \<open>2 ^ 16\<close> or more: a \<open>float\<close> from \<open>2 ^ 16\<close> up to \<open>2 ^ 17\<close> becomes the pattern of all ones, a NaN,
  while larger ones become the largest finite value; the thresholds \<open>0x8F\<close> and \<open>0x410\<close> are one more than their comments
  (142 and \<open>1023 + 16\<close>) say.
\<close>

lemma float_overflow_nan: "fp16_of_float kRoundToNearest 0x47800000 = 0x7FFF" "fp16_of_float kRoundToNearest 0x48000000 = 0x7BFF"
  by code_simp+

lemma double_overflow_nan: "fp16_of_double kRoundToNearest 0x40F0000000000000 = 0x7FFF" "fp16_of_double kRoundToNearest 0x4100000000000000 = 0x7BFF"
  by code_simp+

text \<open>The smallest \<open>int8_t\<close> converts to minus zero, the smallest \<open>int32_t\<close> is negated, infinity converts to \<open>2 ^ 16\<close>.\<close>

lemma int8_min_is_zero: "fp16_of_int8 (- 128) = Some 0x8000"
  by code_simp

lemma int32_min_faults: "fp16_of_int32 kRoundToNearest (- (2 ^ 31)) = Inl Fault"
  by code_simp

lemma uint16_overflow_infinite:
  assumes "65520 \<le> u" and "u < 2 ^ 16"
  shows "fp16_of_uint16 kRoundToNearest u = 0x7C00"
proof -
  have "list_all (\<lambda>u. fp16_of_uint16 kRoundToNearest u = 0x7C00) [65520..65535]" by code_simp
  moreover have "u \<in> set [65520..65535]" unfolding set_upto using assms by simp
  ultimately show ?thesis unfolding list_all_iff by (rule bspec)
qed

lemma infinity_to_float: "Fp16ToFloat 0x7C00 = Some 0x47800000"
  by code_simp


section \<open>Properties\<close>

text \<open>
  C9: Half-precision addition and subtraction are correctly rounded. For finite operands the result has the exact
  sum or difference rounded to nearest, ties to even, as its value; a sum that rounds to \<open>2 ^ 16\<close> or more gives the
  pattern of all ones with its sign.
\<close>

theorem fp16_add_sub_correct:
  assumes "finite16 a" and "finite16 b"
  shows "(\<exists>r. Fp16Add kRoundToNearest a b = Some r \<and> rounded_or_invalid \<bar>value16 a + value16 b\<bar> 0 (sum_sign a b) r)
    \<and> (\<exists>r. Fp16Sub kRoundToNearest a b = Some r \<and> rounded_or_invalid \<bar>value16 a - value16 b\<bar> 0 (diff_sign a b) r)"
proof -
  note N = negate16 [OF assms(2)]
  have a: "is16 a"
    using assms by (simp add: finite16_def)
  have d: "diff_sign a b = 0 \<or> diff_sign a b = 1"
    using sgn16_cases [OF a] by (auto simp: diff_sign_def)
  have "Fp16Sub kRoundToNearest a b = Some (encode16_nan (diff_sign a b) \<bar>value16 a - value16 b\<bar> 0)"
    using Fp16Add_encode [OF assms(1) N(1)] negate16_sign [OF assms] N(2) by (simp add: Fp16Sub_def)
  then show ?thesis
    using Fp16Add_encode [OF assms] encode16_nan_rounded [OF sum_sign_cases [OF a] abs_ge_zero]
      encode16_nan_rounded [OF d abs_ge_zero] by blast
qed

theorem fp16_add_sub_correct_witness:
  "finite16 0x3C00 \<and> finite16 0x8001
    \<and> (\<exists>r. Fp16Add kRoundToNearest 0x3C00 0x8001 = Some r \<and> rounded_or_invalid \<bar>value16 0x3C00 + value16 0x8001\<bar> 0 (sum_sign 0x3C00 0x8001) r)"
proof -
  have "finite16 0x3C00" "finite16 0x8001"
    by code_simp+
  then show ?thesis
    using fp16_add_sub_correct [of "0x3C00" "0x8001"] by blast
qed

text \<open>
  C10: Half-precision multiplication is correctly rounded. For finite operands the magnitude of the result is the exact
  product rounded to nearest, ties to even, and its sign is the exclusive or of the signs; a product that rounds to
  \<open>2 ^ 16\<close> or more gives the pattern of all ones with that sign.
\<close>

theorem fp16_mul_correct:
  assumes "finite16 a" and "finite16 b"
  shows "rounded_or_invalid (mag16 a * mag16 b) 24 (sgn16 a XOR sgn16 b) (Fp16Mul kRoundToNearest a b)"
proof -
  have "sgn16 a XOR sgn16 b = 0 \<or> sgn16 a XOR sgn16 b = 1"
    using assms sgn16_cases [of a] sgn16_cases [of b] by (auto simp: finite16_def)
  with encode16_nan_rounded show ?thesis
    unfolding Fp16Mul_encode [OF assms] using mag16_nonneg by simp
qed

theorem fp16_mul_correct_witness:
  "finite16 0x3E00 \<and> finite16 0xB555 \<and> Fp16Mul kRoundToNearest 0x3E00 0xB555 = 0xB800
    \<and> rounded_or_invalid (mag16 0x3E00 * mag16 0xB555) 24 (sgn16 0x3E00 XOR sgn16 0xB555) (Fp16Mul kRoundToNearest 0x3E00 0xB555)"
proof -
  have "finite16 0x3E00" "finite16 0xB555" "Fp16Mul kRoundToNearest 0x3E00 0xB555 = 0xB800"
    by code_simp+
  then show ?thesis
    using fp16_mul_correct [of "0x3E00" "0xB555"] by blast
qed

text \<open>
  C35: On all 16-bit patterns, infinities and NaNs included, the six comparison operators are the order of the values
  \<open>value16\<close>; in particular the two zeros are equal and the order is total.
\<close>

theorem fp16_comparisons_correct:
  assumes "is16 a" and "is16 b"
  shows "(fp16_eq a b \<longleftrightarrow> value16 a = value16 b) \<and> (fp16_neq a b \<longleftrightarrow> value16 a \<noteq> value16 b)
    \<and> (fp16_gt a b \<longleftrightarrow> value16 a > value16 b) \<and> (fp16_ge a b \<longleftrightarrow> value16 a \<ge> value16 b)
    \<and> (fp16_lt a b \<longleftrightarrow> value16 a < value16 b) \<and> (fp16_le a b \<longleftrightarrow> value16 a \<le> value16 b)"
proof -
  have "fp16_neq a b \<longleftrightarrow> \<not> fp16_eq a b"
    by (simp add: fp16_neq_def fp16_eq_def)
  then show ?thesis
    using fp16_gt_iff [OF assms] fp16_eq_iff [OF assms] by (auto simp: fp16_ge_def fp16_lt_def fp16_le_def)
qed

theorem fp16_comparisons_correct_witness:
  "is16 0 \<and> is16 0x8000 \<and> (fp16_eq 0 0x8000 \<longleftrightarrow> value16 0 = value16 0x8000) \<and> fp16_eq 0 0x8000"
proof -
  have "is16 0" "is16 0x8000" "fp16_eq 0 0x8000"
    by code_simp+
  then show ?thesis
    using fp16_comparisons_correct [of 0 "0x8000"] by blast
qed


text \<open>
  C36: Conversion of a finite half-precision value to each integer type rounds to nearest, ties to even, and saturates
  at the bounds of the type.
\<close>

theorem fp16_to_integers_correct:
  assumes "finite16 v"
  shows "Fp16ToInt8 kRoundToNearest v = saturate (- (2 ^ 7)) (2 ^ 7 - 1) (signed_rounded v)
    \<and> Fp16ToUInt8 kRoundToNearest v = saturate 0 (2 ^ 8 - 1) (signed_rounded v)
    \<and> Fp16ToInt16 kRoundToNearest v = saturate (- (2 ^ 15)) (2 ^ 15 - 1) (signed_rounded v)
    \<and> Fp16ToUInt16 kRoundToNearest v = saturate 0 (2 ^ 16 - 1) (signed_rounded v)
    \<and> Fp16ToInt32 kRoundToNearest v = signed_rounded v
    \<and> Fp16ToUInt32 kRoundToNearest v = saturate 0 (2 ^ 32 - 1) (signed_rounded v)"
  by (intro conjI Fp16ToInt8_correct Fp16ToUInt8_correct Fp16ToInt16_correct Fp16ToUInt16_correct Fp16ToInt32_correct
      Fp16ToUInt32_correct assms)

theorem fp16_to_integers_correct_witness:
  "finite16 0xD804 \<and> Fp16ToInt8 kRoundToNearest 0xD804 = saturate (- (2 ^ 7)) (2 ^ 7 - 1) (signed_rounded 0xD804)
    \<and> Fp16ToInt8 kRoundToNearest 0xD804 = - 128"
proof -
  have "finite16 0xD804" "Fp16ToInt8 kRoundToNearest 0xD804 = - 128"
    by code_simp+
  then show ?thesis
    using fp16_to_integers_correct [of "0xD804"] by blast
qed

text \<open>
  C37: Conversion of every integer of the six types. A value converts to the nearest half-precision value with its sign,
  ties to even, saturating at the largest finite value; the exceptions are the \<open>int8_t\<close> \<open>-128\<close>, which becomes minus zero, the
  \<open>uint16_t\<close> values from \<open>65520\<close> on, which become infinity, and the smallest \<open>int32_t\<close>, whose negation is undefined.
\<close>

theorem fp16_of_integers_correct:
  "(- 128 \<le> i \<and> i < 128 \<longrightarrow> (\<exists>v. fp16_of_int8 i = Some v \<and> (if i = - 128 then v = 0x8000 else represents16 i v)))
    \<and> (0 \<le> i \<and> i < 2 ^ 8 \<longrightarrow> (\<exists>v. fp16_of_uint8 i = Some v \<and> represents16 i v))
    \<and> (- (2 ^ 15) \<le> i \<and> i < 2 ^ 15 \<longrightarrow> represents16 i (fp16_of_int16 kRoundToNearest v0 i))
    \<and> (0 \<le> i \<and> i < 2 ^ 16 \<longrightarrow> (if i < 65520 then represents16 i (fp16_of_uint16 kRoundToNearest i)
        else fp16_of_uint16 kRoundToNearest i = 0x7C00))
    \<and> (- (2 ^ 31) \<le> i \<and> i < 2 ^ 31 \<longrightarrow> (if i = - (2 ^ 31) then fp16_of_int32 kRoundToNearest i = Inl Fault
        else \<exists>v. fp16_of_int32 kRoundToNearest i = Inr v \<and> represents16 i v))
    \<and> (0 \<le> i \<and> i < 2 ^ 32 \<longrightarrow> represents16 i (fp16_of_uint32 kRoundToNearest i))"
proof -
  have fits: "round16 (\<bar>i\<bar> * 2 ^ 24) 0 < 2 ^ 40" if "\<bar>i\<bar> < 65520"
    using that round16_fits [of "\<bar>i\<bar> * 2 ^ 24" 0] by simp
  note E = encode16_represents [OF refl fits] and S = encode16_sat_represents [OF refl, of i]
  have "represents16 i (fp16_of_uint16 kRoundToNearest i)" if "0 \<le> i" "i < 65520"
    using E fp16_of_uint16_encode [of i] that by simp
  moreover have "\<exists>v. fp16_of_int8 i = Some v \<and> (if i = - 128 then v = 0x8000 else represents16 i v)" if "- 128 \<le> i" "i < 128"
    using E fp16_of_int8_encode [of i] int8_min_is_zero that by (cases "i = - 128") auto
  moreover have "fp16_of_int32 kRoundToNearest i = Inl Fault" if "i = - (2 ^ 31)" using int32_min_faults that by simp
  ultimately show ?thesis
    using E S fp16_of_uint8_encode [of i] fp16_of_int16_encode [of i v0] uint16_overflow_infinite [of i]
      fp16_of_int32_encode [of i] fp16_of_uint32_encode [of i]
    by (intro conjI impI) auto
qed

theorem fp16_of_integers_correct_witness:
  "fp16_of_uint16 kRoundToNearest 2049 = 0x6800 \<and> represents16 2049 (fp16_of_uint16 kRoundToNearest 2049)"
proof -
  have "fp16_of_uint16 kRoundToNearest 2049 = 0x6800"
    by code_simp
  then show ?thesis
    using fp16_of_integers_correct [of 2049 0] by simp
qed



text \<open>
  C39: Converting a finite half-precision value to \<open>float\<close> or \<open>double\<close> is exact, and converting the result back gives the
  original bit pattern.
\<close>

theorem fp16_widening_roundtrip:
  assumes "finite16 v"
  shows "(\<exists>f. Fp16ToFloat v = Some f \<and> ieee_sgn 23 8 f = sgn16 v \<and> ieee_mag 23 8 f = mag16 v * 2 ^ 125
      \<and> fp16_of_float kRoundToNearest f = v)
    \<and> (\<exists>d. Fp16ToDouble v = Some d \<and> ieee_sgn 52 11 d = sgn16 v \<and> ieee_mag 52 11 d = mag16 v * 2 ^ 1050
      \<and> fp16_of_double kRoundToNearest d = v)"
proof -
  have inv: "encode16_nan (sgn16 v) (mag16 v * 2 ^ k) k = v" for k
    using encode16_scale(3) [OF mag16_nonneg, of "sgn16 v" v k 0] encode16_exact(3) [OF assms] by simp
  obtain f where F: "Fp16ToFloat v = Some f" "0 \<le> f" "f < 2 ^ 32" "ieee_exp 23 8 f \<le> 0x8E" "ieee_sgn 23 8 f = sgn16 v"
    "ieee_mag 23 8 f = mag16 v * 2 ^ 125"
    by (rule Fp16ToFloat_exact [OF assms])
  obtain d where D: "Fp16ToDouble v = Some d" "0 \<le> d" "d < 2 ^ 64" "ieee_exp 52 11 d \<le> 0x40E" "ieee_sgn 52 11 d = sgn16 v"
    "ieee_mag 52 11 d = mag16 v * 2 ^ 1050"
    by (rule Fp16ToDouble_exact [OF assms])
  have "fp16_of_float kRoundToNearest f = v" "fp16_of_double kRoundToNearest d = v"
    using fp16_of_float_encode [OF F(2,3)] fp16_of_double_encode [OF D(2,3)] F(4-6) D(4-6) inv [of 125] inv [of 1050] by simp_all
  with F(1,5,6) D(1,5,6) show ?thesis
    by blast
qed

theorem fp16_widening_roundtrip_witness:
  "finite16 0x8001 \<and> Fp16ToFloat 0x8001 = Some 0xB3800000 \<and> fp16_of_float kRoundToNearest 0xB3800000 = 0x8001"
proof -
  have "finite16 0x8001" "Fp16ToFloat 0x8001 = Some 0xB3800000"
    by code_simp+
  then show ?thesis
    using fp16_widening_roundtrip [of "0x8001"] by auto
qed

text \<open>
  C40: The loops that run until a bit appears or disappears, and are modelled as possibly not returning, end: those of
  addition and subtraction on all bit patterns and in every rounding mode, those of the conversions to \<open>float\<close> and
  \<open>double\<close> on all 16-bit patterns, and those of the conversions from the 8-bit integers on all their values.
\<close>

theorem fp16_loops_terminate:
  "(\<exists>r. Fp16Add mode a b = Some r) \<and> (\<exists>r. Fp16Sub mode a b = Some r)
    \<and> (is16 v \<longrightarrow> (\<exists>r. Fp16ToFloat v = Some r) \<and> (\<exists>r. Fp16ToDouble v = Some r))
    \<and> (- 128 \<le> i \<and> i < 128 \<longrightarrow> (\<exists>r. fp16_of_int8 i = Some r)) \<and> (0 \<le> i \<and> i < 256 \<longrightarrow> (\<exists>r. fp16_of_uint8 i = Some r))"
proof -
  have "(\<exists>r. Fp16ToFloat v = Some r) \<and> (\<exists>r. Fp16ToDouble v = Some r)" if "is16 v"
    using normalize_man_terminates [of "man16 v" "max 1 (exp16 v)"] man16_bounds [of v]
    unfolding Fp16ToFloat_def Fp16ToDouble_def ExtractFp16_eq [OF that] by (auto simp: Let_def)
  moreover have "\<exists>r. fp16_of_int8 i = Some r" if "- 128 \<le> i" "i < 128"
    using fp16_of_int8_encode [of i] int8_min_is_zero that by (cases "i = - 128") auto
  ultimately show ?thesis
    using Fp16Add_terminates fp16_of_uint8_encode [of i] by (auto simp: Fp16Sub_def)
qed

theorem fp16_loops_terminate_witness:
  "is16 0x7E01 \<and> (\<exists>r. Fp16ToFloat 0x7E01 = Some r) \<and> (\<exists>r. fp16_of_int8 (- 128) = Some r)"
proof -
  have "is16 0x7E01"
    by code_simp
  then show ?thesis
    using fp16_loops_terminate [of kRoundToNearest 0 0 "0x7E01" "- 128"] by auto
qed

end
