(* ===== verification/Datatype_Transfer.thy ===== *)
theory Datatype_Transfer
  imports Transfer_Spec Fp16_Spec
begin

text \<open>
  Conversion of a buffer from one element type to another (\<open>datatype_transfer.cc\<close>). Elements are read and written as
  bit patterns through pointers to the element types; the conversions of half precision are those of \<open>fp16_t\<close>, the
  others are the conversions of the language: integers wrap, an integer becomes the nearest floating-point number, a
  floating-point number is truncated towards zero, and a value the target integer cannot hold is undefined behaviour
  (\<open>Fault\<close>), as is reading a byte that was never written. Bytes are in little-endian order.
\<close>

section \<open>Elements of a buffer\<close>

datatype ctype = C_float | C_double | C_fp16 | C_int8 | C_uint8 | C_int32 | C_int64

definition sizeof :: "ctype \<Rightarrow> nat" where
  "sizeof t = (case t of C_float \<Rightarrow> 4 | C_double \<Rightarrow> 8 | C_fp16 \<Rightarrow> 2 | C_int8 \<Rightarrow> 1 | C_uint8 \<Rightarrow> 1 | C_int32 \<Rightarrow> 4 | C_int64 \<Rightarrow> 8)"

fun bits_of_bytes :: "mem \<Rightarrow> int res" where
  "bits_of_bytes [] = Inr 0"
| "bits_of_bytes (None # bs) = Inl Fault"
| "bits_of_bytes (Some b # bs) = and_then (bits_of_bytes bs) (\<lambda>v. Inr (uint b + 256 * v))"

fun bytes_of_bits :: "nat \<Rightarrow> int \<Rightarrow> mem" where
  "bytes_of_bits 0 v = []"
| "bytes_of_bits (Suc n) v = Some (word_of_int v) # bytes_of_bits n (v div 256)"

definition read_elem :: "mem option \<Rightarrow> ctype \<Rightarrow> int \<Rightarrow> int res" where
  "read_elem p t idx = (case p of None \<Rightarrow> Inl Fault
     | Some m \<Rightarrow> if in_bounds m (idx * int (sizeof t)) (int (sizeof t))
         then bits_of_bytes (elem (int (sizeof t)) m idx) else Inl Fault)"

definition write_elem :: "mem option \<Rightarrow> ctype \<Rightarrow> int \<Rightarrow> int \<Rightarrow> mem option res" where
  "write_elem p t idx v = (case p of None \<Rightarrow> Inl Fault
     | Some m \<Rightarrow> if in_bounds m (idx * int (sizeof t)) (int (sizeof t))
         then Inr (Some (mem_write m (idx * int (sizeof t)) (bytes_of_bits (sizeof t) v))) else Inl Fault)"

section \<open>The conversions\<close>

text \<open>
  An integer to an IEEE format with \<open>l\<close> fraction bits, \<open>w\<close> exponent bits and the given bias, rounded to nearest, ties to
  even; and an IEEE pattern to \<open>int32_t\<close>.
\<close>

definition ieee_of_int :: "nat \<Rightarrow> nat \<Rightarrow> int \<Rightarrow> int \<Rightarrow> int" where
  "ieee_of_int l w bias i =
     (if i = 0 then 0
      else
        let n = \<bar>i\<bar>; b = GetManBitLength n;
            m = (if b \<le> l + 1 then n * 2 ^ (l + 1 - b) else rne_div n (b - (l + 1)))
        in (if i < 0 then 2 ^ (l + w) else 0) + (bias + int b - 1) * 2 ^ l + (m - 2 ^ l))"

definition int32_of_ieee :: "nat \<Rightarrow> nat \<Rightarrow> nat \<Rightarrow> int \<Rightarrow> int res" where
  "int32_of_ieee l w bias v =
     (if ieee_exp l w v = 2 ^ w - 1 then Inl Fault
      else
        let n = ieee_mag l w v div 2 ^ (bias - 1 + l); i = (if ieee_sgn l w v = 0 then n else - n) in
        if - (2 ^ 31) \<le> i \<and> i < 2 ^ 31 then Inr i else Inl Fault)"

definition returned :: "'a option \<Rightarrow> 'a res" where
  "returned r = (case r of Some x \<Rightarrow> Inr x | None \<Rightarrow> Inl Fault)"

text \<open>\<open>static_cast<DstT>(src_data)\<close> on bit patterns, for the types the transfer handles.\<close>

definition static_cast :: "TagFp16RoundMode \<Rightarrow> ctype \<Rightarrow> ctype \<Rightarrow> int \<Rightarrow> int res" where
  "static_cast rm src dst v = (case (src, dst) of
     (C_float, C_int32) \<Rightarrow> and_then (int32_of_ieee 23 8 127 v) (\<lambda>i. Inr (i mod 2 ^ 32))
   | (C_double, C_int32) \<Rightarrow> and_then (int32_of_ieee 52 11 1023 v) (\<lambda>i. Inr (i mod 2 ^ 32))
   | (C_fp16, C_float) \<Rightarrow> returned (Fp16ToFloat v)
   | (C_fp16, C_int32) \<Rightarrow> Inr (Fp16ToInt32 rm v mod 2 ^ 32)
   | (C_int32, C_float) \<Rightarrow> Inr (ieee_of_int 23 8 127 (bits_signed 32 v))
   | (C_int32, C_double) \<Rightarrow> Inr (ieee_of_int 52 11 1023 (bits_signed 32 v))
   | (C_int32, C_uint8) \<Rightarrow> Inr (bits_signed 32 v mod 2 ^ 8)
   | (C_int32, C_int8) \<Rightarrow> Inr (bits_signed 32 v mod 2 ^ 8)
   | (C_int32, C_int64) \<Rightarrow> Inr (bits_signed 32 v mod 2 ^ 64)
   | (C_uint8, C_float) \<Rightarrow> Inr (ieee_of_int 23 8 127 v)
   | (C_uint8, C_int32) \<Rightarrow> Inr v
   | (C_int8, C_float) \<Rightarrow> Inr (ieee_of_int 23 8 127 (bits_signed 8 v))
   | (C_int8, C_int32) \<Rightarrow> Inr (bits_signed 8 v mod 2 ^ 32)
   | (C_int64, C_int32) \<Rightarrow> Inr (bits_signed 64 v mod 2 ^ 32)
   | _ \<Rightarrow> Inl Fault)"

text \<open>\<open>src_data = ...\<close> with a \<open>fp16_t\<close> on the left.\<close>

definition assign_fp16 :: "TagFp16RoundMode \<Rightarrow> ctype \<Rightarrow> int \<Rightarrow> int res" where
  "assign_fp16 rm src v = (case src of
     C_float \<Rightarrow> Inr (fp16_of_float rm v)
   | C_int32 \<Rightarrow> fp16_of_int32 rm (bits_signed 32 v)
   | _ \<Rightarrow> Inl Fault)"

section \<open>The transfer\<close>

datatype DataTypeTransMode = kTransferWithDatatypeFloatToFloat16 | kTransferWithDatatypeFloatToInt32
  | kTransferWithDatatypeFloat16ToFloat | kTransferWithDatatypeFloat16ToInt32 | kTransferWithDatatypeInt32ToFloat
  | kTransferWithDatatypeInt32ToFloat16 | kTransferWithDatatypeInt32ToUint8 | kTransferWithDatatypeInt32ToInt8
  | kTransferWithDatatypeUint8ToFloat | kTransferWithDatatypeUint8ToInt32 | kTransferWithDatatypeInt8ToFloat
  | kTransferWithDatatypeInt8ToInt32 | kTransferWithDatatypeInt64ToInt32 | kTransferWithDatatypeInt32ToInt64
  | kTransferWithDatatypeInt32ToDouble | kTransferWithDatatypeDoubleToInt32

definition trans_mode_map :: "((DataType \<times> DataType) \<times> DataTypeTransMode) list" where
  "trans_mode_map =
     [((DT_FLOAT, DT_FLOAT16), kTransferWithDatatypeFloatToFloat16),
      ((DT_FLOAT, DT_INT32), kTransferWithDatatypeFloatToInt32),
      ((DT_FLOAT16, DT_FLOAT), kTransferWithDatatypeFloat16ToFloat),
      ((DT_FLOAT16, DT_INT32), kTransferWithDatatypeFloat16ToInt32),
      ((DT_INT32, DT_FLOAT), kTransferWithDatatypeInt32ToFloat),
      ((DT_INT32, DT_FLOAT16), kTransferWithDatatypeInt32ToFloat16),
      ((DT_INT32, DT_UINT8), kTransferWithDatatypeInt32ToUint8),
      ((DT_INT32, DT_INT8), kTransferWithDatatypeInt32ToInt8),
      ((DT_UINT8, DT_FLOAT), kTransferWithDatatypeUint8ToFloat),
      ((DT_UINT8, DT_INT32), kTransferWithDatatypeUint8ToInt32),
      ((DT_INT8, DT_FLOAT), kTransferWithDatatypeInt8ToFloat),
      ((DT_INT8, DT_INT32), kTransferWithDatatypeInt8ToInt32),
      ((DT_INT64, DT_INT32), kTransferWithDatatypeInt64ToInt32),
      ((DT_INT32, DT_INT64), kTransferWithDatatypeInt32ToInt64),
      ((DT_INT32, DT_DOUBLE), kTransferWithDatatypeInt32ToDouble),
      ((DT_DOUBLE, DT_INT32), kTransferWithDatatypeDoubleToInt32)]"

record CastArgs =
  cast_data :: "mem option"
  src_data_size :: int
  cast_src_type :: DataType
  cast_dst_type :: DataType

definition TransDataSrc2Dst ::
  "TagFp16RoundMode \<Rightarrow> ctype \<Rightarrow> ctype \<Rightarrow> CastArgs \<Rightarrow> int \<Rightarrow> mem option \<Rightarrow> mem option res"
where
  "TransDataSrc2Dst rm srcT dstT args data_size = for_lt data_size (\<lambda>idx dst.
     and_then (read_elem (cast_data args) srcT idx) (\<lambda>src_data.
     and_then (static_cast rm srcT dstT src_data) (\<lambda>v. write_elem dst dstT idx v)))"

definition TransDataSrc2Fp16 ::
  "TagFp16RoundMode \<Rightarrow> ctype \<Rightarrow> CastArgs \<Rightarrow> int \<Rightarrow> mem option \<Rightarrow> mem option res"
where
  "TransDataSrc2Fp16 rm srcT args data_size = for_lt data_size (\<lambda>idx dst.
     and_then (read_elem (cast_data args) srcT idx) (\<lambda>x.
     and_then (assign_fp16 rm srcT x) (\<lambda>src_data. write_elem dst C_fp16 idx src_data)))"

definition CastKernel ::
  "TagFp16RoundMode \<Rightarrow> CastArgs \<Rightarrow> int \<Rightarrow> DataTypeTransMode \<Rightarrow> mem option \<Rightarrow> mem option res"
where
  "CastKernel rm args data_size trans_mode = (case trans_mode of
     kTransferWithDatatypeFloatToFloat16 \<Rightarrow> TransDataSrc2Fp16 rm C_float args data_size
   | kTransferWithDatatypeFloatToInt32 \<Rightarrow> TransDataSrc2Dst rm C_float C_int32 args data_size
   | kTransferWithDatatypeFloat16ToFloat \<Rightarrow> TransDataSrc2Dst rm C_fp16 C_float args data_size
   | kTransferWithDatatypeFloat16ToInt32 \<Rightarrow> TransDataSrc2Dst rm C_fp16 C_int32 args data_size
   | kTransferWithDatatypeInt32ToFloat \<Rightarrow> TransDataSrc2Dst rm C_int32 C_float args data_size
   | kTransferWithDatatypeInt32ToFloat16 \<Rightarrow> TransDataSrc2Fp16 rm C_int32 args data_size
   | kTransferWithDatatypeInt32ToUint8 \<Rightarrow> TransDataSrc2Dst rm C_int32 C_uint8 args data_size
   | kTransferWithDatatypeInt32ToInt8 \<Rightarrow> TransDataSrc2Dst rm C_int32 C_int8 args data_size
   | kTransferWithDatatypeUint8ToFloat \<Rightarrow> TransDataSrc2Dst rm C_uint8 C_float args data_size
   | kTransferWithDatatypeUint8ToInt32 \<Rightarrow> TransDataSrc2Dst rm C_uint8 C_int32 args data_size
   | kTransferWithDatatypeInt8ToFloat \<Rightarrow> TransDataSrc2Dst rm C_int8 C_float args data_size
   | kTransferWithDatatypeInt8ToInt32 \<Rightarrow> TransDataSrc2Dst rm C_int8 C_int32 args data_size
   | kTransferWithDatatypeInt64ToInt32 \<Rightarrow> TransDataSrc2Dst rm C_int64 C_int32 args data_size
   | kTransferWithDatatypeInt32ToInt64 \<Rightarrow> TransDataSrc2Dst rm C_int32 C_int64 args data_size
   | kTransferWithDatatypeInt32ToDouble \<Rightarrow> TransDataSrc2Dst rm C_int32 C_double args data_size
   | kTransferWithDatatypeDoubleToInt32 \<Rightarrow> TransDataSrc2Dst rm C_double C_int32 args data_size)"

definition TransDataType :: "platform \<Rightarrow> TagFp16RoundMode \<Rightarrow> CastArgs \<Rightarrow> TransResult \<Rightarrow> TransResult res" where
  "TransDataType pf rm args result =
     (case map_of trans_mode_map (cast_src_type args, cast_dst_type args) of
        None \<Rightarrow> Inl (Ret UNSUPPORTED)
      | Some trans_mode \<Rightarrow>
          let sz = GetSizeByDataType pf (cast_dst_type args) in
          if sz \<le> 0 then Inl (Ret PARAM_INVALID)
          else if src_data_size args > (2 ^ 64 - 1) div sz then Inl (Ret PARAM_INVALID)
          else
            let total_size = u64 (src_data_size args * sz);
                result = result\<lparr>res_length := total_size\<rparr>
            in if total_size = 0 then Inr result
               else case new_bytes pf total_size of
                   None \<Rightarrow> Inl (Ret OUT_OF_MEMORY)
                 | Some d \<Rightarrow>
                     and_then (on_error INTERNAL_ERROR (CastKernel rm args (src_data_size args) trans_mode (Some d)))
                       (\<lambda>dst. Inr (result\<lparr>res_data := dst\<rparr>)))"

definition DataTypeTransferExists :: "CastArgs \<Rightarrow> bool" where
  "DataTypeTransferExists args \<longleftrightarrow> map_of trans_mode_map (cast_src_type args, cast_dst_type args) \<noteq> None"

section \<open>Bytes and bits\<close>

lemma length_bytes_of_bits [simp]: "length (bytes_of_bits n v) = n"
  by (induction n arbitrary: v) simp_all

lemma sizeof_pos [simp]: "0 < sizeof t"
  by (cases t) (simp_all add: sizeof_def)

lemma sizeof_not_0 [simp]: "sizeof t \<noteq> 0"
  using sizeof_pos [of t] by simp

lemma bits_of_bytes_of_bits: "0 \<le> v \<Longrightarrow> v < 256 ^ n \<Longrightarrow> bits_of_bytes (bytes_of_bits n v) = Inr v"
proof (induction n arbitrary: v)
  case (Suc n)
  have "v div 256 < 256 ^ n" "0 \<le> v div 256" using Suc.prems by simp_all
  then show ?case using Suc.IH [of "v div 256"] by (simp add: uint_word_of_int take_bit_eq_mod)
qed simp

lemma bytes_of_bits_of_bytes: "bits_of_bytes bs = Inr v \<Longrightarrow> bytes_of_bits (length bs) v = bs"
proof (induction bs arbitrary: v rule: bits_of_bytes.induct)
  case (3 b bs)
  then obtain u where u: "bits_of_bytes bs = Inr u" "v = uint b + 256 * u" by (auto simp: and_then_eq_Inr)
  have b: "0 \<le> uint b" "uint b < 256" using uint_lt2p [of b] by simp_all
  then have "v div 256 = u" using u(2) by simp
  moreover have "word_of_int v = b"
  proof -
    have "word_of_int v = b + 256 * word_of_int u" by (simp add: u(2))
    moreover have "(256 :: 8 word) = 0" by simp
    ultimately show ?thesis by (metis add.right_neutral mult_zero_left)
  qed
  ultimately show ?case using 3(1) [OF u(1)] by simp
qed simp_all

lemma bits_of_bytes_range: "bits_of_bytes bs = Inr v \<Longrightarrow> 0 \<le> v \<and> v < 256 ^ length bs"
proof (induction bs arbitrary: v rule: bits_of_bytes.induct)
  case (3 b bs)
  then obtain u where u: "bits_of_bytes bs = Inr u" "v = uint b + 256 * u" by (auto simp: and_then_eq_Inr)
  have "0 \<le> uint b" "uint b < 256" using uint_lt2p [of b] by simp_all
  with u(2) 3(1) [OF u(1)] show ?case by simp
qed simp_all

abbreviation pattern_of :: "ctype \<Rightarrow> int \<Rightarrow> bool" where
  "pattern_of t x \<equiv> 0 \<le> x \<and> x < 256 ^ sizeof t"

lemma read_elem_pattern: "read_elem p t i = Inr x \<Longrightarrow> pattern_of t x"
  using bits_of_bytes_range [of "elem (int (sizeof t)) (the p) i" x]
  by (auto simp: read_elem_def elem_def length_mem_read split: option.splits if_splits)

section \<open>Which conversion runs\<close>

definition ctype_of :: "DataType \<Rightarrow> ctype" where
  "ctype_of t = (case t of DT_FLOAT \<Rightarrow> C_float | DT_DOUBLE \<Rightarrow> C_double | DT_FLOAT16 \<Rightarrow> C_fp16 | DT_INT8 \<Rightarrow> C_int8
     | DT_UINT8 \<Rightarrow> C_uint8 | DT_INT32 \<Rightarrow> C_int32 | _ \<Rightarrow> C_int64)"

definition convert :: "ctype \<Rightarrow> ctype \<Rightarrow> int \<Rightarrow> int res" where
  "convert s d x = (if d = C_fp16 then assign_fp16 kRoundToNearest s x else static_cast kRoundToNearest s d x)"

definition cast_step :: "mem option \<Rightarrow> ctype \<Rightarrow> ctype \<Rightarrow> int \<Rightarrow> mem option \<Rightarrow> mem option res" where
  "cast_step src s d idx dst = and_then (read_elem src s idx) (\<lambda>x. and_then (convert s d x) (write_elem dst d idx))"

text \<open>The table of modes and the table of handlers agree: the element types are those of the data types.\<close>

lemma CastKernel_loop:
  assumes "map_of trans_mode_map (st, dt) = Some mode"
  shows "CastKernel kRoundToNearest args n mode = for_lt n (cast_step (cast_data args) (ctype_of st) (ctype_of dt))"
proof -
  have "((st, dt), mode) \<in> set trans_mode_map" using assms by (rule map_of_SomeD)
  then show ?thesis
    by (auto simp: trans_mode_map_def CastKernel_def TransDataSrc2Dst_def TransDataSrc2Fp16_def cast_step_def [abs_def]
        convert_def ctype_of_def)
qed

section \<open>The conversions stay in the element type\<close>

lemma ieee_of_int_mantissa:
  assumes "0 < n" "GetManBitLength n = Suc k"
  shows "2 ^ l \<le> (if k \<le> l then n * 2 ^ (l - k) else rne_div n (k - l))
    \<and> (if k \<le> l then n * 2 ^ (l - k) else rne_div n (k - l)) \<le> 2 ^ (l + 1)"
    and "2 ^ k \<le> n" "n < 2 ^ Suc k"
proof -
  obtain k' where "GetManBitLength n = Suc k'" "2 ^ k' \<le> n" "n < 2 ^ Suc k'"
    by (rule GetManBitLength_bounds [OF assms(1)])
  with assms(2) show k: "2 ^ k \<le> n" "n < 2 ^ Suc k" by simp_all
  show "2 ^ l \<le> (if k \<le> l then n * 2 ^ (l - k) else rne_div n (k - l))
    \<and> (if k \<le> l then n * 2 ^ (l - k) else rne_div n (k - l)) \<le> 2 ^ (l + 1)"
  proof (cases "k \<le> l")
    case True
    have "2 ^ k * 2 ^ (l - k) \<le> n * 2 ^ (l - k)" "n * 2 ^ (l - k) \<le> 2 ^ Suc k * 2 ^ (l - k)"
      using k(1) less_imp_le [OF k(2)] by (simp_all only: mult_right_mono zero_le_power zero_le_numeral)
    moreover have "(2 :: int) ^ k * 2 ^ (l - k) = 2 ^ l" "(2 :: int) ^ Suc k * 2 ^ (l - k) = 2 ^ (l + 1)"
      using True by (simp_all flip: power_add)
    ultimately show ?thesis using True by (simp only: simp_thms if_True)
  next
    case False
    have e: "(2 :: int) ^ k = 2 ^ l * 2 ^ (k - l)" "(2 :: int) ^ Suc k = 2 ^ (l + 1) * 2 ^ (k - l)"
      using False by (simp_all flip: power_add)
    have "2 ^ l * 2 ^ (k - l) \<le> n" "n < 2 ^ (l + 1) * 2 ^ (k - l)" using k by (simp_all only: e)
    then show ?thesis using rne_div_mono_bounds [of "2 ^ l" "k - l" n "2 ^ (l + 1)"] False by (simp only: simp_thms if_False)
  qed
qed

lemma ieee_of_int_eq:
  assumes "i \<noteq> 0" "GetManBitLength \<bar>i\<bar> = Suc k"
  shows "ieee_of_int l w bias i = (if i < 0 then 2 ^ (l + w) else 0) + (bias + int k) * 2 ^ l
    + ((if k \<le> l then \<bar>i\<bar> * 2 ^ (l - k) else rne_div \<bar>i\<bar> (k - l)) - 2 ^ l)"
  using assms by (simp add: ieee_of_int_def Let_def)

lemma ieee_of_int_range:
  assumes "0 \<le> bias" "bias + 64 < 2 ^ w" "\<bar>i\<bar> < 2 ^ 63"
  shows "0 \<le> ieee_of_int l w bias i \<and> ieee_of_int l w bias i < 2 ^ (l + w + 1)"
proof (cases "i = 0")
  case False
  then have n: "0 < \<bar>i\<bar>" by simp
  obtain k where k: "GetManBitLength \<bar>i\<bar> = Suc k" "2 ^ k \<le> \<bar>i\<bar>" by (rule GetManBitLength_bounds [OF n])
  have "(2 :: int) ^ k < 2 ^ 63" using k(2) assms(3) by (rule le_less_trans)
  then have k63: "k < 63" by (rule power_less_imp_less_exp [rotated]) simp
  define m where "m = (if k \<le> l then \<bar>i\<bar> * 2 ^ (l - k) else rne_div \<bar>i\<bar> (k - l))"
  have m: "2 ^ l \<le> m" "m \<le> 2 ^ (l + 1)" using ieee_of_int_mantissa(1) [OF n k(1), of l] by (simp_all only: m_def)
  have p: "0 < (2 :: int) ^ l" by simp
  have "(bias + int k + 1) * 2 ^ l \<le> (2 ^ w - 1) * 2 ^ l" using assms k63 by (intro mult_right_mono) auto
  then have "(bias + int k) * 2 ^ l + 2 * 2 ^ l \<le> 2 ^ (l + w)" by (simp add: algebra_simps power_add)
  moreover have "m \<le> 2 * 2 ^ l" using m(2) by simp
  ultimately have "(bias + int k) * 2 ^ l + (m - 2 ^ l) < 2 ^ (l + w)" using p by linarith
  moreover have "0 \<le> (bias + int k) * 2 ^ l" using assms by simp
  ultimately show ?thesis using ieee_of_int_eq [OF False k(1), of l w bias, folded m_def] m(1) by simp
qed (simp add: ieee_of_int_def)

lemma constructor_ranges:
  "0 \<le> FP16_CONSTRUCTOR s e m \<and> FP16_CONSTRUCTOR s e m < 2 ^ 16"
  "0 \<le> FP32_CONSTRUCTOR s e m \<and> FP32_CONSTRUCTOR s e m < 2 ^ 32"
  by (simp_all add: FP16_CONSTRUCTOR_def FP32_CONSTRUCTOR_def)

lemma fp16_of_float_range: "0 \<le> fp16_of_float rm v \<and> fp16_of_float rm v < 2 ^ 16"
  unfolding fp16_of_float_def Let_def case_prod_beta by (rule constructor_ranges)

lemma SetValByUint32Val_range: "0 \<le> SetValByUint32Val rm v s \<and> SetValByUint32Val rm v s < 2 ^ 16"
  unfolding SetValByUint32Val_def Let_def case_prod_beta by (rule constructor_ranges)

lemma fp16_of_int32_range: "fp16_of_int32 rm i = Inr h \<Longrightarrow> 0 \<le> h \<and> h < 2 ^ 16"
  using SetValByUint32Val_range by (auto simp: fp16_of_int32_def Let_def split: if_splits)

lemma Fp16ToFloat_range: "Fp16ToFloat v = Some f \<Longrightarrow> 0 \<le> f \<and> f < 2 ^ 32"
  unfolding Fp16ToFloat_def Let_def case_prod_beta using constructor_ranges(2)
  by (auto simp del: power_numeral split: option.splits)

lemma bits_signed_range: "0 < w \<Longrightarrow> - (2 ^ (w - 1)) \<le> bits_signed w v \<and> bits_signed w v < 2 ^ (w - 1)"
proof -
  assume "0 < w"
  then have e: "(2 :: int) ^ w = 2 * 2 ^ (w - 1)" by (cases w) simp_all
  define r where "r = v mod 2 ^ w"
  have "0 \<le> r" "r < 2 ^ w" by (simp_all add: r_def)
  then show ?thesis unfolding bits_signed_def r_def [symmetric] using e by auto
qed

lemma convert_pattern:
  assumes "convert s d x = Inr y" "pattern_of s x"
  shows "pattern_of d y"
proof -
  have signed: "\<bar>bits_signed 8 v\<bar> < 2 ^ 63" "\<bar>bits_signed 32 v\<bar> < 2 ^ 63" for v
    using bits_signed_range [of 8 v] bits_signed_range [of 32 v] by auto
  have f: "0 \<le> ieee_of_int 23 8 127 i \<and> ieee_of_int 23 8 127 i < 2 ^ 32"
    "0 \<le> ieee_of_int 52 11 1023 i \<and> ieee_of_int 52 11 1023 i < 2 ^ 64" if "\<bar>i\<bar> < 2 ^ 63" for i
    using ieee_of_int_range [of 127 8 i 23] ieee_of_int_range [of 1023 11 i 52] that by simp_all
  show ?thesis
    using assms f [OF signed(1)] f [OF signed(2)] f [of x] fp16_of_float_range [of kRoundToNearest x]
      Fp16ToFloat_range [of x] fp16_of_int32_range
    by (cases s; cases d) (auto simp: convert_def static_cast_def assign_fp16_def sizeof_def and_then_eq_Inr returned_def
        split: option.splits)
qed

section \<open>The cast loop\<close>

lemma write_elem_fills:
  assumes "0 \<le> i" "i < n" and f: "f i = bytes_of_bits (sizeof d) y"
  shows "fills (int (sizeof d)) n f {i} (\<lambda>m. write_elem m d i y)"
proof -
  have "fills (int (sizeof d)) n f {i..<i + 1} (\<lambda>m. write_elem m d i y)"
  proof (rule fills_write)
    show "write_elem (Some m) d i y = Inr (Some (mem_write m (i * int (sizeof d)) (bytes_of_bits (sizeof d) y)))"
      if "int (length m) = n * int (sizeof d)" for m
      using elem_bounds [of "int (sizeof d)" i n m] assms that by (simp add: write_elem_def)
    show "f (i + j) = elem (int (sizeof d)) (bytes_of_bits (sizeof d) y) j" if "0 \<le> j" "j < 1" for j
    proof -
      have "j = 0" using that by simp
      then show ?thesis using f by (simp add: elem_def mem_read_def)
    qed
  qed (use assms in simp_all)
  moreover have "{i..<i + 1} = {i}" by auto
  ultimately show ?thesis by simp
qed

lemma cast_loop_fills:
  assumes rd: "\<And>i. 0 \<le> i \<Longrightarrow> i < n \<Longrightarrow> read_elem src s i = Inr (x i)"
    and cv: "\<And>i. 0 \<le> i \<Longrightarrow> i < n \<Longrightarrow> convert s d (x i) = Inr (y i)" and "0 \<le> n"
  shows "fills (int (sizeof d)) n (\<lambda>i. bytes_of_bits (sizeof d) (y i)) {0..<n} (for_lt n (cast_step src s d))"
  using fills_for_elems [OF \<open>0 \<le> n\<close>, of "int (sizeof d)" n "\<lambda>i. bytes_of_bits (sizeof d) (y i)" 0 "cast_step src s d"]
    write_elem_fills [where d = d and n = n and f = "\<lambda>i. bytes_of_bits (sizeof d) (y i)"] rd cv
  by (simp add: cast_step_def [abs_def])

text \<open>A conversion with undefined behaviour anywhere in the buffer makes the transfer undefined.\<close>

lemma cast_loop_fault:
  assumes rd: "\<And>i. a \<le> i \<Longrightarrow> i < a + int k \<Longrightarrow> read_elem src s i = Inr (x i)"
    and cv: "\<And>i. a \<le> i \<Longrightarrow> i < a + int k \<Longrightarrow> convert s d (x i) = Inl Fault \<or> (\<exists>y. convert s d (x i) = Inr y)"
    and bad: "a \<le> j" "j < a + int k" "convert s d (x j) = Inl Fault"
    and len: "int (length m) = n * int (sizeof d)" and n: "0 \<le> a" "a + int k \<le> n"
  shows "for_upt k a (cast_step src s d) (Some m) = Inl Fault"
  using assms
proof (induction k arbitrary: a m)
  case (Suc k)
  show ?case
  proof (cases "convert s d (x a) = Inl Fault")
    case True
    then show ?thesis using Suc.prems(1) [of a] by (simp add: cast_step_def)
  next
    case False
    then obtain y where y: "convert s d (x a) = Inr y" using Suc.prems(2) [of a] by auto
    have "fills (int (sizeof d)) n (\<lambda>_. bytes_of_bits (sizeof d) y) {a} (\<lambda>m. write_elem m d a y)"
      using Suc.prems(7,8) by (intro write_elem_fills) auto
    then obtain m' where m': "write_elem (Some m) d a y = Inr (Some m')" "length m' = length m"
      using fillsD [OF _ Suc.prems(6)] by metis
    have "j \<noteq> a" using False Suc.prems(5) by auto
    then have "for_upt k (a + 1) (cast_step src s d) (Some m') = Inl Fault"
      using Suc.prems m'(2) by (intro Suc.IH) auto
    moreover have "cast_step src s d a (Some m) = Inr (Some m')" using y m'(1) Suc.prems(1) [of a] by (simp add: cast_step_def)
    ultimately show ?thesis by simp
  qed
qed simp

lemma convert_cases: "convert s d x = Inl Fault \<or> (\<exists>y. convert s d x = Inr y)"
  by (cases s; cases d) (auto simp: convert_def static_cast_def assign_fp16_def int32_of_ieee_def returned_def
      fp16_of_int32_def Let_def split: option.splits)

section \<open>What the transfer returns\<close>

text \<open>A buffer of \<open>n\<close> initialised elements.\<close>

definition typed_buffer :: "ctype \<Rightarrow> int \<Rightarrow> mem \<Rightarrow> (int \<Rightarrow> int) \<Rightarrow> bool" where
  "typed_buffer t n m x \<longleftrightarrow> int (length m) = n * int (sizeof t) \<and> (\<forall>i. 0 \<le> i \<longrightarrow> i < n \<longrightarrow> read_elem (Some m) t i = Inr (x i))"

definition cast_spec :: "ctype \<Rightarrow> ctype \<Rightarrow> int \<Rightarrow> (int \<Rightarrow> int) \<Rightarrow> TransResult \<Rightarrow> TransResult res \<Rightarrow> bool" where
  "cast_spec s d n x result r \<longleftrightarrow>
     (if n = 0 then r = Inr (result\<lparr>res_length := 0\<rparr>)
      else if \<exists>i. 0 \<le> i \<and> i < n \<and> convert s d (x i) = Inl Fault then r = Inl Fault
      else \<exists>m y. r = Inr (result\<lparr>res_data := Some m, res_length := n * int (sizeof d)\<rparr>) \<and> typed_buffer d n m y
        \<and> (\<forall>i. 0 \<le> i \<longrightarrow> i < n \<longrightarrow> convert s d (x i) = Inr (y i)))"

lemma TransDataType_meets:
  assumes ex: "DataTypeTransferExists args" and dt: "s = ctype_of (cast_src_type args)" "d = ctype_of (cast_dst_type args)"
    and sz: "GetSizeByDataType pf (cast_dst_type args) = int (sizeof d)"
    and n: "n = src_data_size args" "0 \<le> n" "n * int (sizeof d) < 2 ^ 64"
    and src: "cast_data args = Some b" "typed_buffer s n b x" and new: "new_succeeds pf (n * int (sizeof d))"
  shows "cast_spec s d n x result (TransDataType pf kRoundToNearest args result)"
proof -
  obtain mode where mode: "map_of trans_mode_map (cast_src_type args, cast_dst_type args) = Some mode"
    using ex by (auto simp: DataTypeTransferExists_def)
  have szp: "0 < int (sizeof d)" by simp
  have "n \<le> (2 ^ 64 - 1) div int (sizeof d)"
    using n(3) zdiv_mono1 [of "n * int (sizeof d)" "2 ^ 64 - 1" "int (sizeof d)"] szp by simp
  moreover have tot: "u64 (n * int (sizeof d)) = n * int (sizeof d)" using n by simp
  ultimately have eq: "TransDataType pf kRoundToNearest args result =
      (if n = 0 then Inr (result\<lparr>res_length := 0\<rparr>)
       else and_then (on_error INTERNAL_ERROR (for_lt n (cast_step (Some b) s d) (Some (replicate (nat (n * int (sizeof d))) None))))
         (\<lambda>dst. Inr (result\<lparr>res_length := n * int (sizeof d), res_data := dst\<rparr>)))"
    using szp n(2) new
    by (simp add: TransDataType_def Let_def mode sz n(1) [symmetric] CastKernel_loop [OF mode] dt [symmetric] src(1) new_bytes_def not_less)
  have rd: "read_elem (Some b) s i = Inr (x i)" if "0 \<le> i" "i < n" for i
    using src(2) that by (simp add: typed_buffer_def)
  let ?m0 = "replicate (nat (n * int (sizeof d))) None :: mem"
  have len0: "int (length ?m0) = n * int (sizeof d)" using n by simp
  show ?thesis
  proof (cases "\<exists>i. 0 \<le> i \<and> i < n \<and> convert s d (x i) = Inl Fault")
    case True
    then obtain j where j: "0 \<le> j" "j < n" "convert s d (x j) = Inl Fault" by blast
    have "for_lt n (cast_step (Some b) s d) (Some ?m0) = Inl Fault"
      unfolding for_lt_def using rd j n convert_cases
      by (intro cast_loop_fault [where x = x and j = j and n = n, OF _ _ _ _ _ len0]) auto
    with True show ?thesis by (auto simp: cast_spec_def eq)
  next
    case False
    then have "\<exists>y. convert s d (x i) = Inr y" if "0 \<le> i" "i < n" for i using convert_cases [of s d "x i"] that by auto
    then obtain y where y: "convert s d (x i) = Inr (y i)" if "0 \<le> i" "i < n" for i by metis
    obtain m where m: "for_lt n (cast_step (Some b) s d) (Some ?m0) = Inr (Some m)" "int (length m) = n * int (sizeof d)"
      "\<And>i. 0 \<le> i \<Longrightarrow> i < n \<Longrightarrow> elem (int (sizeof d)) m i = bytes_of_bits (sizeof d) (y i)"
      using fills_run [OF cast_loop_fills [OF rd y n(2)] len0] by auto
    have "read_elem (Some m) d i = Inr (y i)" if i: "0 \<le> i" "i < n" for i
    proof -
      have "pattern_of d (y i)" using convert_pattern [OF y [OF i]] read_elem_pattern [OF rd [OF i]] by blast
      then show ?thesis
        using m(2,3) i elem_bounds [of "int (sizeof d)" i n m] by (simp add: read_elem_def bits_of_bytes_of_bits)
    qed
    then have "typed_buffer d n m y" using m(2) by (simp add: typed_buffer_def)
    moreover have "TransDataType pf kRoundToNearest args result =
        Inr (result\<lparr>res_data := Some m, res_length := n * int (sizeof d)\<rparr>)" if "n \<noteq> 0"
      using m(1) that by (simp add: eq)
    ultimately show ?thesis using False y by (cases "n = 0") (auto simp: cast_spec_def eq)
  qed
qed

lemma typed_buffer_unique:
  assumes "typed_buffer t n m x" "typed_buffer t n m' x"
  shows "m = m'"
proof (rule mem_eqI)
  show "elem (int (sizeof t)) m i = elem (int (sizeof t)) m' i" if i: "0 \<le> i" "i < n" for i
  proof -
    have "elem (int (sizeof t)) b i = bytes_of_bits (sizeof t) (x i)" if "typed_buffer t n b x" for b
    proof -
      have "bits_of_bytes (elem (int (sizeof t)) b i) = Inr (x i)" "length (elem (int (sizeof t)) b i) = sizeof t"
        using that i length_elem [of "int (sizeof t)" i n b] by (auto simp: typed_buffer_def read_elem_def split: if_splits)
      then show ?thesis using bytes_of_bits_of_bytes by metis
    qed
    then show ?thesis using assms by metis
  qed
qed (use assms in \<open>auto simp: typed_buffer_def\<close>)

section \<open>Lossless conversions\<close>

text \<open>A pair of conversions that undo each other on the patterns satisfying \<open>ok\<close>.\<close>

locale lossless_cast =
  fixes st dt :: DataType and ok :: "int \<Rightarrow> bool"
  assumes supported: "map_of trans_mode_map (st, dt) \<noteq> None" "map_of trans_mode_map (dt, st) \<noteq> None"
    and inverse: "ok x \<Longrightarrow> \<exists>y. convert (ctype_of st) (ctype_of dt) x = Inr y \<and> convert (ctype_of dt) (ctype_of st) y = Inr x"
begin

lemma roundtrip:
  assumes args: "args = \<lparr>cast_data = Some b, src_data_size = n, cast_src_type = st, cast_dst_type = dt\<rparr>"
    and buf: "typed_buffer (ctype_of st) n b x" "\<forall>i. 0 \<le> i \<longrightarrow> i < n \<longrightarrow> ok (x i)"
    and sz: "GetSizeByDataType pf st = int (sizeof (ctype_of st))" "GetSizeByDataType pf dt = int (sizeof (ctype_of dt))"
    and n: "0 < n" "n * 8 < 2 ^ 64" and new: "\<forall>k. new_succeeds pf k"
  shows "\<exists>r. TransDataType pf kRoundToNearest args result = Inr r \<and>
    TransDataType pf kRoundToNearest (args\<lparr>cast_data := res_data r, cast_src_type := dt, cast_dst_type := st\<rparr>) result' =
      Inr (result'\<lparr>res_data := Some b, res_length := int (length b)\<rparr>)"
proof -
  let ?s = "ctype_of st" and ?d = "ctype_of dt"
  have le8: "sizeof t \<le> 8" for t by (cases t) (simp_all add: sizeof_def)
  have nb: "n * int (sizeof t) < 2 ^ 64" for t
  proof -
    have "n * int (sizeof t) \<le> n * 8" using le8 [of t] n by (intro mult_left_mono) auto
    then show ?thesis using n(2) by (rule le_less_trans)
  qed
  have "cast_spec ?s ?d n x result (TransDataType pf kRoundToNearest args result)"
    using supported(1) sz(2) n nb buf(1) new
    by (intro TransDataType_meets [where args = args and b = b]) (auto simp: args DataTypeTransferExists_def)
  moreover have conv: "convert ?s ?d (x i) \<noteq> Inl Fault" if "0 \<le> i" "i < n" for i using inverse [of "x i"] buf(2) that by auto
  ultimately obtain m y where m: "TransDataType pf kRoundToNearest args result =
      Inr (result\<lparr>res_data := Some m, res_length := n * int (sizeof ?d)\<rparr>)" "typed_buffer ?d n m y"
    "\<And>i. 0 \<le> i \<Longrightarrow> i < n \<Longrightarrow> convert ?s ?d (x i) = Inr (y i)"
    using n(1) unfolding cast_spec_def by (auto split: if_splits)
  have bk: "convert ?d ?s (y i) = Inr (x i)" if "0 \<le> i" "i < n" for i
    using inverse [of "x i"] buf(2) m(3) [OF that] that by auto
  let ?args = "args\<lparr>cast_data := Some m, cast_src_type := dt, cast_dst_type := st\<rparr>"
  have "cast_spec ?d ?s n y result' (TransDataType pf kRoundToNearest ?args result')"
    using supported(2) sz(1) n nb m(2) new
    by (intro TransDataType_meets [where args = ?args and b = m]) (auto simp: args DataTypeTransferExists_def)
  moreover have "convert ?d ?s (y i) \<noteq> Inl Fault" if "0 \<le> i" "i < n" for i using bk [OF that] by simp
  ultimately obtain b' x' where b': "TransDataType pf kRoundToNearest ?args result' =
      Inr (result'\<lparr>res_data := Some b', res_length := n * int (sizeof ?s)\<rparr>)" "typed_buffer ?s n b' x'"
    "\<And>i. 0 \<le> i \<Longrightarrow> i < n \<Longrightarrow> convert ?d ?s (y i) = Inr (x' i)"
    using n(1) unfolding cast_spec_def by (auto split: if_splits)
  have "x' i = x i" if "0 \<le> i" "i < n" for i using b'(3) [OF that] bk [OF that] by simp
  then have "typed_buffer ?s n b' x" using b'(2) by (simp add: typed_buffer_def)
  then have "b' = b" using buf(1) typed_buffer_unique by blast
  with m(1) b'(1) buf(1) show ?thesis by (simp add: typed_buffer_def)
qed

end

lemma bits_signed_mod: "bits_signed w v mod 2 ^ w = v mod 2 ^ w"
  by (simp add: bits_signed_def)

lemma bits_signed_id: "- (2 ^ (w - 1)) \<le> i \<Longrightarrow> i < 2 ^ (w - 1) \<Longrightarrow> 0 < w \<Longrightarrow> bits_signed w i = i"
proof -
  assume i: "- (2 ^ (w - 1)) \<le> i" "i < 2 ^ (w - 1)" "0 < w"
  then have e: "(2 :: int) ^ w = 2 * 2 ^ (w - 1)" by (cases w) simp_all
  show ?thesis
  proof (cases "0 \<le> i")
    case True
    then have "i mod 2 ^ w = i" using i e by (intro mod_pos_pos_trivial) auto
    then show ?thesis using i by (simp add: bits_signed_def)
  next
    case False
    then have "(i + 2 ^ w) mod 2 ^ w = i + 2 ^ w" using i e by (intro mod_pos_pos_trivial) auto
    then have "i mod 2 ^ w = i + 2 ^ w" by simp
    then show ?thesis using i e by (simp add: bits_signed_def)
  qed
qed

lemma bits_signed_of_mod: "bits_signed w (i mod 2 ^ w) = bits_signed w i"
  by (simp add: bits_signed_def)

text \<open>An integer whose magnitude fits the fraction survives the way to floating point and back.\<close>

lemma int32_of_ieee_of_int:
  assumes i: "- (2 ^ 31) \<le> i" "i < 2 ^ 31" and l: "32 \<le> l" "int bias + 32 < 2 ^ w - 1" "1 \<le> bias"
  shows "int32_of_ieee l w bias (ieee_of_int l w (int bias) i) = Inr i"
proof (cases "i = 0")
  case True
  have "1 < (2 :: int) ^ w" using l by simp
  then show ?thesis
    using True by (simp add: ieee_of_int_def int32_of_ieee_def ieee_exp_def ieee_mag_def ieee_frac_def ieee_sgn_def)
next
  case False
  then have n: "0 < \<bar>i\<bar>" by simp
  obtain k where k: "GetManBitLength \<bar>i\<bar> = Suc k" "2 ^ k \<le> \<bar>i\<bar>" "\<bar>i\<bar> < 2 ^ Suc k" by (rule GetManBitLength_bounds [OF n])
  have "(2 :: int) ^ k \<le> 2 ^ 31" using k(2) i by simp
  then have k31: "k \<le> 31" by (rule power_le_imp_le_exp [rotated]) simp
  define f where "f = \<bar>i\<bar> * 2 ^ (l - k) - 2 ^ l"
  have "2 ^ k * 2 ^ (l - k) \<le> \<bar>i\<bar> * 2 ^ (l - k)" "\<bar>i\<bar> * 2 ^ (l - k) < 2 ^ Suc k * 2 ^ (l - k)"
    using k(2,3) by simp_all
  moreover have "(2 :: int) ^ k * 2 ^ (l - k) = 2 ^ l" "(2 :: int) ^ Suc k * 2 ^ (l - k) = 2 * 2 ^ l"
    using k31 l(1) by (simp_all flip: power_add)
  ultimately have f: "0 \<le> f" "f < 2 ^ l" unfolding f_def by linarith+
  define s :: int where "s = (if i < 0 then 1 else 0)"
  have v: "ieee_of_int l w (int bias) i = s * 2 ^ (l + w) + (int bias + int k) * 2 ^ l + f"
    using ieee_of_int_eq [OF False k(1), of l w "int bias"] k31 l(1) by (simp add: s_def f_def)
  have P: "ieee_sgn l w (ieee_of_int l w (int bias) i) = s" "ieee_exp l w (ieee_of_int l w (int bias) i) = int bias + int k"
    "ieee_frac l (ieee_of_int l w (int bias) i) = f"
    using ieee_pattern [OF _ _ _ f v] k31 l by (auto simp: s_def)
  have "ieee_mag l w (ieee_of_int l w (int bias) i) = \<bar>i\<bar> * 2 ^ (l - k) * 2 ^ (bias + k - 1)"
    using l(3) unfolding ieee_mag_def P by (simp add: f_def nat_add_distrib)
  also have "\<dots> = \<bar>i\<bar> * 2 ^ (bias - 1 + l)"
  proof -
    have "l - k + (bias + k - 1) = bias - 1 + l" using k31 l by simp
    then show ?thesis by (simp only: mult.assoc flip: power_add)
  qed
  finally have "ieee_mag l w (ieee_of_int l w (int bias) i) div 2 ^ (bias - 1 + l) = \<bar>i\<bar>" by simp
  then show ?thesis using P i k31 l by (auto simp: int32_of_ieee_def s_def Let_def)
qed

lemma pattern_signed:
  assumes "pattern_of t x" "w = 8 * sizeof t"
  shows "x mod 2 ^ w = x"
proof -
  have "(256 :: int) ^ sizeof t = 2 ^ w" using assms(2) power_mult [of "2 :: int" 8 "sizeof t"] by simp
  then show ?thesis using assms(1) by simp
qed

interpretation fp16_float: lossless_cast DT_FLOAT16 DT_FLOAT finite16
proof
  fix x assume x: "finite16 x"
  obtain f where F: "Fp16ToFloat x = Some f" "0 \<le> f" "f < 2 ^ 32" "ieee_exp 23 8 f \<le> 0x8E" "ieee_sgn 23 8 f = sgn16 x"
    "ieee_mag 23 8 f = mag16 x * 2 ^ 125"
    by (rule Fp16ToFloat_exact [OF x])
  have "encode16_nan (sgn16 x) (mag16 x * 2 ^ 125) 125 = x"
    using encode16_scale(3) [OF mag16_nonneg, of "sgn16 x" x 125 0] encode16_exact(3) [OF x] by simp
  then have "fp16_of_float kRoundToNearest f = x" using fp16_of_float_encode [OF F(2,3)] F(4-6) by simp
  with F(1) show "\<exists>y. convert (ctype_of DT_FLOAT16) (ctype_of DT_FLOAT) x = Inr y \<and>
      convert (ctype_of DT_FLOAT) (ctype_of DT_FLOAT16) y = Inr x"
    by (simp add: convert_def ctype_of_def static_cast_def assign_fp16_def returned_def)
qed (simp_all add: trans_mode_map_def)

interpretation int32_int64: lossless_cast DT_INT32 DT_INT64 "pattern_of C_int32"
proof
  fix x assume x: "pattern_of C_int32 x"
  have "bits_signed 64 (bits_signed 32 x mod 2 ^ 64) = bits_signed 32 x"
    using bits_signed_range [of 32 x] unfolding bits_signed_of_mod by (intro bits_signed_id) auto
  then show "\<exists>y. convert (ctype_of DT_INT32) (ctype_of DT_INT64) x = Inr y \<and>
      convert (ctype_of DT_INT64) (ctype_of DT_INT32) y = Inr x"
    using bits_signed_mod [of 32 x] pattern_signed [OF x, of 32]
    by (simp add: convert_def ctype_of_def static_cast_def sizeof_def)
qed (simp_all add: trans_mode_map_def)

interpretation int32_double: lossless_cast DT_INT32 DT_DOUBLE "pattern_of C_int32"
proof
  fix x assume x: "pattern_of C_int32 x"
  have "int32_of_ieee 52 11 1023 (ieee_of_int 52 11 1023 (bits_signed 32 x)) = Inr (bits_signed 32 x)"
    using int32_of_ieee_of_int [of "bits_signed 32 x" 52 1023 11] bits_signed_range [of 32 x] by simp
  then show "\<exists>y. convert (ctype_of DT_INT32) (ctype_of DT_DOUBLE) x = Inr y \<and>
      convert (ctype_of DT_DOUBLE) (ctype_of DT_INT32) y = Inr x"
    using bits_signed_mod [of 32 x] pattern_signed [OF x, of 32]
    by (simp add: convert_def ctype_of_def static_cast_def sizeof_def)
qed (simp_all add: trans_mode_map_def)

interpretation int8_int32: lossless_cast DT_INT8 DT_INT32 "pattern_of C_int8"
proof
  fix x assume x: "pattern_of C_int8 x"
  have "bits_signed 32 (bits_signed 8 x mod 2 ^ 32) = bits_signed 8 x"
    using bits_signed_range [of 8 x] unfolding bits_signed_of_mod by (intro bits_signed_id) auto
  then show "\<exists>y. convert (ctype_of DT_INT8) (ctype_of DT_INT32) x = Inr y \<and>
      convert (ctype_of DT_INT32) (ctype_of DT_INT8) y = Inr x"
    using bits_signed_mod [of 8 x] pattern_signed [OF x, of 8]
    by (simp add: convert_def ctype_of_def static_cast_def sizeof_def)
qed (simp_all add: trans_mode_map_def)

interpretation uint8_int32: lossless_cast DT_UINT8 DT_INT32 "pattern_of C_uint8"
proof
  fix x assume x: "pattern_of C_uint8 x"
  then have "bits_signed 32 x = x" by (intro bits_signed_id) (auto simp: sizeof_def)
  then show "\<exists>y. convert (ctype_of DT_UINT8) (ctype_of DT_INT32) x = Inr y \<and>
      convert (ctype_of DT_INT32) (ctype_of DT_UINT8) y = Inr x"
    using pattern_signed [OF x, of 8] by (simp add: convert_def ctype_of_def static_cast_def sizeof_def)
qed (simp_all add: trans_mode_map_def)

section \<open>Properties\<close>

definition cast_sample :: CastArgs where
  "cast_sample = \<lparr>cast_data = Some [Some 0, Some 0x3C, Some 1, Some 0x80], src_data_size = 2,
     cast_src_type = DT_FLOAT16, cast_dst_type = DT_FLOAT\<rparr>"

definition cast_sample_elems :: "int \<Rightarrow> int" where
  "cast_sample_elems i = (if i = 0 then 0x3C00 else 0x8001)"

lemma cast_sample_buffer: "typed_buffer C_fp16 2 [Some 0, Some 0x3C, Some 1, Some 0x80] cast_sample_elems"
proof -
  have "read_elem (Some [Some 0, Some 0x3C, Some 1, Some 0x80]) C_fp16 0 = Inr 0x3C00"
    "read_elem (Some [Some 0, Some 0x3C, Some 1, Some 0x80]) C_fp16 1 = Inr 0x8001" by code_simp+
  moreover have "i = 0 \<or> i = 1" if "0 \<le> i" "i < 2" for i :: int using that by auto
  ultimately show ?thesis by (auto simp: typed_buffer_def cast_sample_elems_def sizeof_def)
qed

text \<open>
  C17: Conversion of a buffer to another element type. For each of the sixteen supported pairs of types, with the sizes
  of the types as the platform reports them, every element of the result is the conversion of the corresponding source
  element and the whole result is initialised; an empty buffer gives an empty result; and the behaviour is undefined
  exactly when some element has no value in the target type. Other pairs are refused.
\<close>

theorem data_type_cast_correct:
  assumes "s = ctype_of (cast_src_type args)" "d = ctype_of (cast_dst_type args)"
    and "GetSizeByDataType pf (cast_dst_type args) = int (sizeof d)"
    and "n = src_data_size args" "0 \<le> n" "n * int (sizeof d) < 2 ^ 64"
    and "cast_data args = Some b" "typed_buffer s n b x" "new_succeeds pf (n * int (sizeof d))"
  shows "if DataTypeTransferExists args then cast_spec s d n x result (TransDataType pf kRoundToNearest args result)
    else TransDataType pf kRoundToNearest args result = Inl (Ret UNSUPPORTED)"
  using TransDataType_meets [OF _ assms, of result] by (simp add: TransDataType_def DataTypeTransferExists_def)

theorem data_type_cast_correct_witness:
  "DataTypeTransferExists cast_sample \<and>
   cast_spec C_fp16 C_float 2 cast_sample_elems no_result (TransDataType sample_platform kRoundToNearest cast_sample no_result)"
proof -
  have "DataTypeTransferExists cast_sample" by code_simp
  moreover have "if DataTypeTransferExists cast_sample
    then cast_spec C_fp16 C_float 2 cast_sample_elems no_result (TransDataType sample_platform kRoundToNearest cast_sample no_result)
    else TransDataType sample_platform kRoundToNearest cast_sample no_result = Inl (Ret UNSUPPORTED)"
    by (rule data_type_cast_correct [where b = "[Some 0, Some 0x3C, Some 1, Some 0x80]"])
      (simp_all add: cast_sample_def sample_platform_def ctype_of_def sizeof_def cast_sample_buffer)
  ultimately show ?thesis by (simp only: if_True simp_thms)
qed

definition lossless_casts :: "(DataType \<times> DataType \<times> (int \<Rightarrow> bool)) list" where
  "lossless_casts = [(DT_FLOAT16, DT_FLOAT, finite16), (DT_INT32, DT_INT64, pattern_of C_int32),
     (DT_INT32, DT_DOUBLE, pattern_of C_int32), (DT_INT8, DT_INT32, pattern_of C_int8), (DT_UINT8, DT_INT32, pattern_of C_uint8)]"

text \<open>
  C18: The conversions that lose nothing. A buffer of finite half-precision values converted to \<open>float\<close> and back, of
  \<open>int32_t\<close> values converted to \<open>int64_t\<close> or \<open>double\<close> and back, or of \<open>int8_t\<close> or \<open>uint8_t\<close> values converted to
  \<open>int32_t\<close> and back, is unchanged byte for byte. The buffer is not empty and the allocations succeed.
\<close>

theorem lossless_cast_roundtrip:
  assumes "(st, dt, ok) \<in> set lossless_casts"
    and "args = \<lparr>cast_data = Some b, src_data_size = n, cast_src_type = st, cast_dst_type = dt\<rparr>"
    and "typed_buffer (ctype_of st) n b x" "\<forall>i. 0 \<le> i \<longrightarrow> i < n \<longrightarrow> ok (x i)"
    and "GetSizeByDataType pf st = int (sizeof (ctype_of st))" "GetSizeByDataType pf dt = int (sizeof (ctype_of dt))"
    and "0 < n" "n * 8 < 2 ^ 64" "\<forall>k. new_succeeds pf k"
  shows "\<exists>r. TransDataType pf kRoundToNearest args result = Inr r \<and>
    TransDataType pf kRoundToNearest (args\<lparr>cast_data := res_data r, cast_src_type := dt, cast_dst_type := st\<rparr>) result' =
      Inr (result'\<lparr>res_data := Some b, res_length := int (length b)\<rparr>)"
proof -
  have "lossless_cast st dt ok"
    using assms(1) fp16_float.lossless_cast_axioms int32_int64.lossless_cast_axioms int32_double.lossless_cast_axioms
      int8_int32.lossless_cast_axioms uint8_int32.lossless_cast_axioms by (auto simp: lossless_casts_def)
  then show ?thesis using assms(2-) by (rule lossless_cast.roundtrip)
qed

theorem lossless_cast_roundtrip_witness:
  "\<exists>r. TransDataType sample_platform kRoundToNearest cast_sample no_result = Inr r \<and>
    TransDataType sample_platform kRoundToNearest
      (cast_sample\<lparr>cast_data := res_data r, cast_src_type := DT_FLOAT, cast_dst_type := DT_FLOAT16\<rparr>) no_result =
      Inr (no_result\<lparr>res_data := Some [Some 0, Some 0x3C, Some 1, Some 0x80], res_length := 4\<rparr>)"
proof -
  have fin: "finite16 (cast_sample_elems i)" for i
  proof -
    have "finite16 0x3C00" "finite16 0x8001" by code_simp+
    then show ?thesis by (simp add: cast_sample_elems_def)
  qed
  show ?thesis
    using lossless_cast_roundtrip [OF _ cast_sample_def, of finite16 cast_sample_elems sample_platform no_result no_result]
      cast_sample_buffer fin by (simp add: lossless_casts_def sample_platform_def ctype_of_def sizeof_def)
qed

end
