(* ===== verification/Formats.thy ===== *)
theory Formats
  imports Trans_Nc1hwc0 Trans_Fracz Trans_C1hwncoc0 Trans_Fracz3D Trans_FracNz Trans_FracZz
    Trans_Transpose Trans_FzC04 Datatype_Transfer
begin

text \<open>
  The entry points of the format library (\<open>formats.cc\<close>) and the registrations that connect them with the transfers (the
  \<open>REGISTER_FORMAT_TRANSFER\<close> lines of the transfers). The registry itself, \<open>BuildFormatTransfer\<close> and
  \<open>FormatTransferExists\<close>, is outside the repository: it is a parameter, and \<open>registry_ok\<close> states what it documents, that
  a pair of formats gives the transfer registered for it. The lemmas carry the round
  trip of a pair of transfers over to the entry points, show that a transfer accepts the shape it advertises, and list
  the pairs of formats registered in both directions.
\<close>

section \<open>Registrations\<close>

record FormatTransfer =
  vt_TransFormat :: trans_format
  vt_TransShape :: "platform \<Rightarrow> Format \<Rightarrow> int list \<Rightarrow> DataType \<Rightarrow> Format \<Rightarrow> int list res"

definition FormatTransferTranspose :: FormatTransfer where
  "FormatTransferTranspose = \<lparr>vt_TransFormat = TransFormatTranspose, vt_TransShape = TransShapeTranspose\<rparr>"

definition FormatTransferNchwNc1hwc0 :: FormatTransfer where
  "FormatTransferNchwNc1hwc0 = \<lparr>vt_TransFormat = TransFormatNchwNc1hwc0, vt_TransShape = TransShapeNchwNc1hwc0\<rparr>"

definition FormatTransferNhwcNc1hwc0 :: FormatTransfer where
  "FormatTransferNhwcNc1hwc0 = \<lparr>vt_TransFormat = TransFormatNhwcNc1hwc0, vt_TransShape = TransShapeNhwcNc1hwc0\<rparr>"

definition FormatTransferNc1hwc0Nchw :: FormatTransfer where
  "FormatTransferNc1hwc0Nchw = \<lparr>vt_TransFormat = TransFormatNc1hwc0Nchw, vt_TransShape = TransShapeNc1hwc0Nchw\<rparr>"

definition FormatTransferNc1hwc0Nhwc :: FormatTransfer where
  "FormatTransferNc1hwc0Nhwc = \<lparr>vt_TransFormat = TransFormatNc1hwc0Nhwc, vt_TransShape = TransShapeNc1hwc0Nhwc\<rparr>"

definition FormatTransferFractalZ :: FormatTransfer where
  "FormatTransferFractalZ = \<lparr>vt_TransFormat = TransFormatFractalZ, vt_TransShape = TransShapeFractalZ\<rparr>"

definition FormatTransferFracZNchw :: FormatTransfer where
  "FormatTransferFracZNchw = \<lparr>vt_TransFormat = TransFormatFracZNchw, vt_TransShape = TransShapeFracZNchw\<rparr>"

definition FormatTransferFracZHwcn :: FormatTransfer where
  "FormatTransferFracZHwcn = \<lparr>vt_TransFormat = TransFormatFracZHwcn, vt_TransShape = TransShapeFracZHwcn\<rparr>"

definition FormatTransferFracZNhwc :: FormatTransfer where
  "FormatTransferFracZNhwc = \<lparr>vt_TransFormat = TransFormatFracZNhwc, vt_TransShape = TransShapeFracZNhwc\<rparr>"

definition FormatTransferHwcnC1hwncoc0 :: FormatTransfer where
  "FormatTransferHwcnC1hwncoc0 = \<lparr>vt_TransFormat = TransFormatHwcnC1hwncoc0, vt_TransShape = TransShapeHwcnC1hwncoc0\<rparr>"

definition FormatTransferC1hwncoc0Hwcn :: FormatTransfer where
  "FormatTransferC1hwncoc0Hwcn = \<lparr>vt_TransFormat = TransFormatC1hwncoc0Hwcn, vt_TransShape = TransShapeC1hwncoc0Hwcn\<rparr>"

definition FormatTransferDhwcnFractalZ3D :: FormatTransfer where
  "FormatTransferDhwcnFractalZ3D = \<lparr>vt_TransFormat = TransFormatDhwcnFractalZ3D, vt_TransShape = TransShapeDhwcnFractalZ3D\<rparr>"

definition FormatTransferDhwncFractalZ3DTranspose :: FormatTransfer where
  "FormatTransferDhwncFractalZ3DTranspose = \<lparr>vt_TransFormat = TransFormatDhwncFractalZ3DTranspose, vt_TransShape = TransShapeDhwncFractalZ3DTranspose\<rparr>"

definition FormatTransferFractalNz :: FormatTransfer where
  "FormatTransferFractalNz = \<lparr>vt_TransFormat = TransFormatFractalNz, vt_TransShape = TransShapeFractalNz\<rparr>"

definition FormatTransferFractalNzND :: FormatTransfer where
  "FormatTransferFractalNzND = \<lparr>vt_TransFormat = TransFormatFractalNzND, vt_TransShape = TransShapeFractalNzND\<rparr>"

definition FormatTransferFractalZz :: FormatTransfer where
  "FormatTransferFractalZz = \<lparr>vt_TransFormat = TransFormatFractalZz, vt_TransShape = TransShapeFractalZz\<rparr>"

definition FormatTransferFractalZzND :: FormatTransfer where
  "FormatTransferFractalZzND = \<lparr>vt_TransFormat = TransFormatFractalZzND, vt_TransShape = TransShapeFractalZzND\<rparr>"

definition FormatTransferNchwToFZC04 :: FormatTransfer where
  "FormatTransferNchwToFZC04 = \<lparr>vt_TransFormat = TransFormatNchwFZC04, vt_TransShape = TransShapeNchwFZC04\<rparr>"

lemmas vtables = FormatTransferTranspose_def
  FormatTransferNchwNc1hwc0_def
  FormatTransferNhwcNc1hwc0_def
  FormatTransferNc1hwc0Nchw_def
  FormatTransferNc1hwc0Nhwc_def
  FormatTransferFractalZ_def
  FormatTransferFracZNchw_def
  FormatTransferFracZHwcn_def
  FormatTransferFracZNhwc_def
  FormatTransferHwcnC1hwncoc0_def
  FormatTransferC1hwncoc0Hwcn_def
  FormatTransferDhwcnFractalZ3D_def
  FormatTransferDhwncFractalZ3DTranspose_def
  FormatTransferFractalNz_def
  FormatTransferFractalNzND_def
  FormatTransferFractalZz_def
  FormatTransferFractalZzND_def
  FormatTransferNchwToFZC04_def

type_synonym registrations = "((Format \<times> Format) \<times> FormatTransfer) list"

definition registered_transpose :: registrations where
  "registered_transpose =
     [((FORMAT_NCHW, FORMAT_NHWC), FormatTransferTranspose),
      ((FORMAT_NCHW, FORMAT_HWCN), FormatTransferTranspose),
      ((FORMAT_NCHW, FORMAT_CHWN), FormatTransferTranspose),
      ((FORMAT_NHWC, FORMAT_NCHW), FormatTransferTranspose),
      ((FORMAT_NHWC, FORMAT_CHWN), FormatTransferTranspose),
      ((FORMAT_NHWC, FORMAT_HWCN), FormatTransferTranspose),
      ((FORMAT_HWCN, FORMAT_NCHW), FormatTransferTranspose),
      ((FORMAT_HWCN, FORMAT_NHWC), FormatTransferTranspose),
      ((FORMAT_HWCN, FORMAT_CHWN), FormatTransferTranspose),
      ((FORMAT_CHWN, FORMAT_NCHW), FormatTransferTranspose),
      ((FORMAT_CHWN, FORMAT_NHWC), FormatTransferTranspose),
      ((FORMAT_CHWN, FORMAT_HWCN), FormatTransferTranspose)]"

definition registered_nz :: registrations where
  "registered_nz =
     [((FORMAT_ND, FORMAT_FRACTAL_NZ), FormatTransferFractalNz),
      ((FORMAT_NCHW, FORMAT_FRACTAL_NZ), FormatTransferFractalNz),
      ((FORMAT_NHWC, FORMAT_FRACTAL_NZ), FormatTransferFractalNz),
      ((FORMAT_FRACTAL_NZ, FORMAT_ND), FormatTransferFractalNzND),
      ((FORMAT_FRACTAL_NZ, FORMAT_NCHW), FormatTransferFractalNzND),
      ((FORMAT_FRACTAL_NZ, FORMAT_NHWC), FormatTransferFractalNzND)]"

definition registered_zz :: registrations where
  "registered_zz =
     [((FORMAT_ND, FORMAT_FRACTAL_ZZ), FormatTransferFractalZz),
      ((FORMAT_NCHW, FORMAT_FRACTAL_ZZ), FormatTransferFractalZz),
      ((FORMAT_NHWC, FORMAT_FRACTAL_ZZ), FormatTransferFractalZz),
      ((FORMAT_FRACTAL_ZZ, FORMAT_ND), FormatTransferFractalZzND),
      ((FORMAT_FRACTAL_ZZ, FORMAT_NCHW), FormatTransferFractalZzND),
      ((FORMAT_FRACTAL_ZZ, FORMAT_NHWC), FormatTransferFractalZzND)]"

definition registered_fractal_z :: registrations where
  "registered_fractal_z =
     [((FORMAT_NCHW, FORMAT_FRACTAL_Z), FormatTransferFractalZ),
      ((FORMAT_HWCN, FORMAT_FRACTAL_Z), FormatTransferFractalZ),
      ((FORMAT_NHWC, FORMAT_FRACTAL_Z), FormatTransferFractalZ)]"

text \<open>The transfers that serve one pair of formats.\<close>

definition registered_nchw_nc1hwc0 :: registrations where
  "registered_nchw_nc1hwc0 = [((FORMAT_NCHW, FORMAT_NC1HWC0), FormatTransferNchwNc1hwc0)]"

definition registered_nhwc_nc1hwc0 :: registrations where
  "registered_nhwc_nc1hwc0 = [((FORMAT_NHWC, FORMAT_NC1HWC0), FormatTransferNhwcNc1hwc0)]"

definition registered_nc1hwc0_nchw :: registrations where
  "registered_nc1hwc0_nchw = [((FORMAT_NC1HWC0, FORMAT_NCHW), FormatTransferNc1hwc0Nchw)]"

definition registered_nc1hwc0_nhwc :: registrations where
  "registered_nc1hwc0_nhwc = [((FORMAT_NC1HWC0, FORMAT_NHWC), FormatTransferNc1hwc0Nhwc)]"

definition registered_fracz_nchw :: registrations where
  "registered_fracz_nchw = [((FORMAT_FRACTAL_Z, FORMAT_NCHW), FormatTransferFracZNchw)]"

definition registered_fracz_hwcn :: registrations where
  "registered_fracz_hwcn = [((FORMAT_FRACTAL_Z, FORMAT_HWCN), FormatTransferFracZHwcn)]"

definition registered_fracz_nhwc :: registrations where
  "registered_fracz_nhwc = [((FORMAT_FRACTAL_Z, FORMAT_NHWC), FormatTransferFracZNhwc)]"

definition registered_hwcn_c1hwncoc0 :: registrations where
  "registered_hwcn_c1hwncoc0 = [((FORMAT_HWCN, FORMAT_C1HWNCoC0), FormatTransferHwcnC1hwncoc0)]"

definition registered_c1hwncoc0_hwcn :: registrations where
  "registered_c1hwncoc0_hwcn = [((FORMAT_C1HWNCoC0, FORMAT_HWCN), FormatTransferC1hwncoc0Hwcn)]"

definition registered_dhwcn_fracz3D :: registrations where
  "registered_dhwcn_fracz3D = [((FORMAT_DHWCN, FORMAT_FRACTAL_Z_3D), FormatTransferDhwcnFractalZ3D)]"

definition registered_dhwnc_fracz3D_transpose :: registrations where
  "registered_dhwnc_fracz3D_transpose = [((FORMAT_DHWNC, FORMAT_FRACTAL_Z_3D_TRANSPOSE), FormatTransferDhwncFractalZ3DTranspose)]"

definition registered_nchw_fz_c04 :: registrations where
  "registered_nchw_fz_c04 = [((FORMAT_NCHW, FORMAT_FRACTAL_Z_C04), FormatTransferNchwToFZC04)]"

definition registered :: registrations where
  "registered = registered_transpose @ registered_nz @ registered_zz @ registered_fractal_z
     @ registered_nchw_nc1hwc0 @ registered_nhwc_nc1hwc0 @ registered_nc1hwc0_nchw @ registered_nc1hwc0_nhwc
     @ registered_fracz_nchw @ registered_fracz_hwcn @ registered_fracz_nhwc @ registered_hwcn_c1hwncoc0
     @ registered_c1hwncoc0_hwcn @ registered_dhwcn_fracz3D @ registered_dhwnc_fracz3D_transpose @ registered_nchw_fz_c04"

lemmas registered_defs = registered_def registered_transpose_def registered_nz_def registered_zz_def registered_fractal_z_def
  registered_nchw_nc1hwc0_def registered_nhwc_nc1hwc0_def registered_nc1hwc0_nchw_def registered_nc1hwc0_nhwc_def
  registered_fracz_nchw_def registered_fracz_hwcn_def registered_fracz_nhwc_def registered_hwcn_c1hwncoc0_def
  registered_c1hwncoc0_hwcn_def registered_dhwcn_fracz3D_def registered_dhwnc_fracz3D_transpose_def registered_nchw_fz_c04_def

record registry =
  BuildFormatTransfer :: "TransArgs \<Rightarrow> FormatTransfer option"
  FormatTransferExists :: "TransArgs \<Rightarrow> bool"
  MakeSharedDataTypeTransfer :: bool

definition registry_ok :: "registry \<Rightarrow> bool" where
  "registry_ok reg \<longleftrightarrow>
     (\<forall>args. BuildFormatTransfer reg args = map_of registered (src_format args, dst_format args)) \<and>
     (\<forall>args. FormatTransferExists reg args \<longleftrightarrow> (src_format args, dst_format args) \<in> fst ` set registered)"

section \<open>Entry points\<close>

definition formats_TransFormat :: "registry \<Rightarrow> trans_format" where
  "formats_TransFormat reg pf args result = (case BuildFormatTransfer reg args of
     None \<Rightarrow> Inl (Ret UNSUPPORTED)
   | Some tr \<Rightarrow>
       let src_shape_size = GetItemNumByShape (src_shape args) in
       if data args = None \<and> src_shape_size \<noteq> 0 then Inl (Ret PARAM_INVALID)
       else vt_TransFormat tr pf args result)"

text \<open>Only the formats of the arguments built here are set; the registry reads no others.\<close>

definition formats_TransShape ::
  "registry \<Rightarrow> platform \<Rightarrow> Format \<Rightarrow> int list \<Rightarrow> DataType \<Rightarrow> Format \<Rightarrow> int list res"
where
  "formats_TransShape reg pf s_format s_shape data_type d_format =
     (let args = \<lparr>data = None, src_format = s_format, dst_format = d_format, src_shape = [], dst_shape = [],
          src_data_type = data_type\<rparr> in
      case BuildFormatTransfer reg args of
        None \<Rightarrow> Inl (Ret ACL_ERROR_GE_TRANSSHAPE_FORMAT_INVALID)
      | Some tr \<Rightarrow> vt_TransShape tr pf s_format s_shape data_type d_format)"

definition BuildDataTypeTransfer :: "registry \<Rightarrow> CastArgs \<Rightarrow> bool" where
  "BuildDataTypeTransfer reg args = (if \<not> DataTypeTransferExists args then False else MakeSharedDataTypeTransfer reg)"

definition formats_TransDataType ::
  "registry \<Rightarrow> platform \<Rightarrow> TagFp16RoundMode \<Rightarrow> CastArgs \<Rightarrow> TransResult \<Rightarrow> TransResult res"
where
  "formats_TransDataType reg pf rm args result =
     (if \<not> BuildDataTypeTransfer reg args then Inl (Ret UNSUPPORTED)
      else if cast_data args = None \<and> src_data_size args \<noteq> 0 then Inl (Ret PARAM_INVALID)
      else TransDataType pf rm args result)"

definition IsTransFormatSupport :: "registry \<Rightarrow> TransArgs \<Rightarrow> bool" where
  "IsTransFormatSupport reg args = FormatTransferExists reg args"

definition IsTransDataTypeSupport :: "CastArgs \<Rightarrow> bool" where
  "IsTransDataTypeSupport args = DataTypeTransferExists args"

section \<open>There and back\<close>

lemma formats_TransFormat_eq:
  assumes "registry_ok reg" "map_of registered (src_format args, dst_format args) = Some t" "data args \<noteq> None"
  shows "formats_TransFormat reg pf args result = vt_TransFormat t pf args result"
  using assms by (auto simp: formats_TransFormat_def registry_ok_def)

lemma formats_TransShape_eq:
  assumes "registry_ok reg" "map_of registered (sf, df) = Some t"
  shows "formats_TransShape reg pf sf shape dt df = vt_TransShape t pf sf shape dt df"
  using assms by (simp add: formats_TransShape_def registry_ok_def)

context transfer_pair
begin

lemma dispatch_back:
  assumes reg: "registry_ok reg" and t: "map_of registered (src_format args, dst_format args) = Some t" "vt_TransFormat t = trans"
    and t': "map_of registered (dst_format args, src_format args) = Some t'" "vt_TransFormat t' = trans'"
    and acc: "accepted pf args" and sz: "sz = GetSizeByDataType pf (src_data_type args)" and ok: "platform_ok pf sz"
    and s: "holds_tensor sz (src_shape args) (data args) s" and ne: "prod_list (src_shape args) \<noteq> 0"
    and new: "new_succeeds pf (prod_list (dst_shape args) * sz)" "new_succeeds pf (prod_list (src_shape args) * sz)"
  shows "\<exists>r. formats_TransFormat reg pf args result = Inr r \<and> res_length r = prod_list (dst_shape args) * sz \<and>
    formats_TransFormat reg pf (args_back args r) result' = Inr (result'\<lparr>res_data := Some s, res_length := int (length s)\<rparr>)"
proof -
  obtain m where m: "trans pf args result = Inr (result\<lparr>res_data := Some m, res_length := prod_list (dst_shape args) * sz\<rparr>)"
    using fwd.returns [OF acc sz ok s new(1)] accepts [OF acc ne] by blast
  have "data args \<noteq> None" using s by (simp add: holds_tensor_def)
  then show ?thesis
    using formats_TransFormat_eq [OF reg, of args t pf result] roundtrip [OF acc sz ok s ne m new(2), of result']
      formats_TransFormat_eq [OF reg, of "args_back args r" t' pf result' for r] t t' m
    by simp
qed

end

text \<open>The shape that a transfer advertises is one it accepts.\<close>

lemma nchw_5hd_advertised:
  assumes "src_format args = FORMAT_NCHW" "dst_format args = FORMAT_NC1HWC0"
    and "TransShapeNchwNc1hwc0 pf FORMAT_NCHW (src_shape args) (src_data_type args) FORMAT_NC1HWC0 = Inr (dst_shape args)"
  shows "CheckArgsForNchwToNc1hwc0 pf args = Inr ()"
  using assms by (simp add: TransShapeNchwNc1hwc0_def CheckArgsForNchwToNc1hwc0_def)

lemma nhwc_5hd_advertised:
  assumes "src_format args = FORMAT_NHWC" "dst_format args = FORMAT_NC1HWC0"
    and "TransShapeNhwcNc1hwc0 pf FORMAT_NHWC (src_shape args) (src_data_type args) FORMAT_NC1HWC0 = Inr (dst_shape args)"
  shows "CheckArgsForNhwcToNc1hwc0 pf args = Inr ()"
proof -
  have "CheckShapeValid d kNc1hwc0DimsNum" if "TransShapeNhwcToNc1hwc0 pf shape t = Inr d" for shape t d
    using that by (auto simp: TransShapeNhwcToNc1hwc0_def at_def Let_def split: if_splits)
  then show ?thesis using assms by (simp add: TransShapeNhwcNc1hwc0_def CheckArgsForNhwcToNc1hwc0_def split: if_splits)
qed

lemma c1hwncoc0_advertised:
  assumes "src_format args = FORMAT_HWCN" "dst_format args = FORMAT_C1HWNCoC0"
    and "TransShapeHwcnC1hwncoc0 pf FORMAT_HWCN (src_shape args) (src_data_type args) FORMAT_C1HWNCoC0 = Inr (dst_shape args)"
  shows "CheckArgsForHwcnToC1hwncoc0 pf args = Inr ()"
proof -
  have "CheckShapeValid d kC1hwncoc0DimsNum" if "TransShapeHwcnToC1hwncoc0 pf t shape = Inr d" for shape t d
    using that by (auto simp: TransShapeHwcnToC1hwncoc0_def at_def Let_def split: if_splits)
  then show ?thesis using assms by (simp add: TransShapeHwcnC1hwncoc0_def CheckArgsForHwcnToC1hwncoc0_def split: if_splits)
qed

lemma nz_advertised:
  assumes "TransShapeFractalNz pf (src_format args) (src_shape args) (src_data_type args) df = Inr (dst_shape args)"
  shows "nz_accepted pf args"
  using assms
  by (auto simp: TransShapeFractalNz_def nz_accepted_def TransShapeToFracNz_def at_def at_back_def IsTransShapeDstCorrect_def Let_def
      and_then_eq_Inr split: if_splits)

lemma zz_advertised:
  assumes "TransShapeFractalZz pf (src_format args) (src_shape args) (src_data_type args) df = Inr (dst_shape args)"
  shows "zz_accepted pf args"
  using assms
  by (auto simp: TransShapeFractalZz_def zz_accepted_def TransShapeToFracZz_def at_def at_back_def IsTransShapeDstCorrect_def Let_def
      and_then_eq_Inr split: if_splits)

text \<open>The pairs registered in both directions.\<close>

lemma list_memE:
  assumes "x \<in> set (y # ys)"
  obtains "x = y" | "x \<in> set ys"
  using assms by auto

lemma both_pairs:
  "filter (\<lambda>(a, b). (b, a) \<in> set (map fst registered)) (map fst registered) =
    [(FORMAT_NCHW, FORMAT_NHWC), (FORMAT_NCHW, FORMAT_HWCN), (FORMAT_NCHW, FORMAT_CHWN), (FORMAT_NHWC,
     FORMAT_NCHW), (FORMAT_NHWC, FORMAT_CHWN), (FORMAT_NHWC, FORMAT_HWCN), (FORMAT_HWCN, FORMAT_NCHW),
     (FORMAT_HWCN, FORMAT_NHWC), (FORMAT_HWCN, FORMAT_CHWN), (FORMAT_CHWN, FORMAT_NCHW), (FORMAT_CHWN,
     FORMAT_NHWC), (FORMAT_CHWN, FORMAT_HWCN), (FORMAT_ND, FORMAT_FRACTAL_NZ), (FORMAT_NCHW, FORMAT_FRACTAL_NZ),
     (FORMAT_NHWC, FORMAT_FRACTAL_NZ), (FORMAT_FRACTAL_NZ, FORMAT_ND), (FORMAT_FRACTAL_NZ, FORMAT_NCHW),
     (FORMAT_FRACTAL_NZ, FORMAT_NHWC), (FORMAT_ND, FORMAT_FRACTAL_ZZ), (FORMAT_NCHW, FORMAT_FRACTAL_ZZ),
     (FORMAT_NHWC, FORMAT_FRACTAL_ZZ), (FORMAT_FRACTAL_ZZ, FORMAT_ND), (FORMAT_FRACTAL_ZZ, FORMAT_NCHW),
     (FORMAT_FRACTAL_ZZ, FORMAT_NHWC), (FORMAT_NCHW, FORMAT_FRACTAL_Z), (FORMAT_HWCN, FORMAT_FRACTAL_Z),
     (FORMAT_NHWC, FORMAT_FRACTAL_Z), (FORMAT_NCHW, FORMAT_NC1HWC0), (FORMAT_NHWC, FORMAT_NC1HWC0),
     (FORMAT_NC1HWC0, FORMAT_NCHW), (FORMAT_NC1HWC0, FORMAT_NHWC), (FORMAT_FRACTAL_Z, FORMAT_NCHW),
     (FORMAT_FRACTAL_Z, FORMAT_HWCN), (FORMAT_FRACTAL_Z, FORMAT_NHWC), (FORMAT_HWCN, FORMAT_C1HWNCoC0),
     (FORMAT_C1HWNCoC0, FORMAT_HWCN)]"
  by (simp add: registered_defs)

text \<open>The transfers out of a blocked format, which advertise no shape.\<close>

definition backward_transfers :: "FormatTransfer list" where
  "backward_transfers = [FormatTransferNc1hwc0Nchw, FormatTransferNc1hwc0Nhwc, FormatTransferFracZNchw, FormatTransferFracZHwcn,
     FormatTransferFracZNhwc, FormatTransferC1hwncoc0Hwcn, FormatTransferFractalNzND, FormatTransferFractalZzND]"

lemma registered_both:
  assumes "(sf, df) \<in> fst ` set registered" "(df, sf) \<in> fst ` set registered"
  obtains (nchw_5hd) "sf = FORMAT_NCHW" "df = FORMAT_NC1HWC0"
      "map_of registered (sf, df) = Some FormatTransferNchwNc1hwc0" "map_of registered (df, sf) = Some FormatTransferNc1hwc0Nchw"
    | (nhwc_5hd) "sf = FORMAT_NHWC" "df = FORMAT_NC1HWC0"
      "map_of registered (sf, df) = Some FormatTransferNhwcNc1hwc0" "map_of registered (df, sf) = Some FormatTransferNc1hwc0Nhwc"
    | (nchw_fz) "sf = FORMAT_NCHW" "df = FORMAT_FRACTAL_Z"
      "map_of registered (sf, df) = Some FormatTransferFractalZ" "map_of registered (df, sf) = Some FormatTransferFracZNchw"
    | (hwcn_fz) "sf = FORMAT_HWCN" "df = FORMAT_FRACTAL_Z"
      "map_of registered (sf, df) = Some FormatTransferFractalZ" "map_of registered (df, sf) = Some FormatTransferFracZHwcn"
    | (nhwc_fz) "sf = FORMAT_NHWC" "df = FORMAT_FRACTAL_Z"
      "map_of registered (sf, df) = Some FormatTransferFractalZ" "map_of registered (df, sf) = Some FormatTransferFracZNhwc"
    | (c1hwncoc0) "sf = FORMAT_HWCN" "df = FORMAT_C1HWNCoC0"
      "map_of registered (sf, df) = Some FormatTransferHwcnC1hwncoc0" "map_of registered (df, sf) = Some FormatTransferC1hwncoc0Hwcn"
    | (transpose) "map_of registered (sf, df) = Some FormatTransferTranspose" "map_of registered (df, sf) = Some FormatTransferTranspose"
    | (nz) "map_of registered (sf, df) = Some FormatTransferFractalNz" "map_of registered (df, sf) = Some FormatTransferFractalNzND"
    | (zz) "map_of registered (sf, df) = Some FormatTransferFractalZz" "map_of registered (df, sf) = Some FormatTransferFractalZzND"
    | (backward) t where "map_of registered (sf, df) = Some t" "t \<in> set backward_transfers"
proof -
  have "(sf, df) \<in> set (filter (\<lambda>(a, b). (b, a) \<in> set (map fst registered)) (map fst registered))"
    using assms by simp
  then show ?thesis
    unfolding both_pairs
    by (elim list_memE; simp add: registered_defs backward_transfers_def that)
qed

lemma backward_shape_unsupported: "t \<in> set backward_transfers \<Longrightarrow> vt_TransShape t pf sf shape dt df \<noteq> Inr d"
  by (auto simp: backward_transfers_def vtables TransShapeNc1hwc0Nchw_def TransShapeNc1hwc0Nhwc_def TransShapeFracZNchw_def TransShapeFracZHwcn_def
      TransShapeFracZNhwc_def TransShapeC1hwncoc0Hwcn_def TransShapeFractalNzND_def TransShapeFractalZzND_def)

definition sample_registry :: registry where
  "sample_registry = \<lparr>BuildFormatTransfer = (\<lambda>args. map_of registered (src_format args, dst_format args)),
     FormatTransferExists = (\<lambda>args. (src_format args, dst_format args) \<in> fst ` set registered),
     MakeSharedDataTypeTransfer = True\<rparr>"

lemma sample_registry_ok: "registry_ok sample_registry"
  by (simp add: registry_ok_def sample_registry_def)

end
