(* ===== verification/Block_Memory.thy ===== *)
theory Block_Memory
  imports GE_Prelude "HOL-Library.Product_Lexorder" "HOL-Library.Log_Nat"
begin

text \<open>
  Memory blocks of the device allocators (\<open>block_memory.h\<close>): the \<open>Block\<close> objects live in a heap,
  a partial function from object identities, so that the pointers \<open>prev\<close>, \<open>next\<close> and the entries of a bin
  can dangle; reading through a dangling pointer is a \<open>Fault\<close>. A \<open>BlockBin\<close>, a \<open>std::set\<close> of block pointers
  ordered by size and address, is the list of its elements in that order.

  The invariant \<open>chain_inv\<close> says that the blocks tile the device regions of the allocator: neighbours point at
  each other, are adjacent in memory and lie in one region, and different blocks do not overlap. Merging two
  neighbours and splitting a block keep it.
\<close>

section \<open>Blocks and their heap\<close>

record Block =
  blk_device_id :: int
  blk_size :: int
  blk_bin :: "nat option"
  blk_ptr :: int
  blk_allocated :: bool
  blk_prev :: "nat option"
  blk_next :: "nat option"

type_synonym heap = "nat \<Rightarrow> Block option"

definition new_Block :: "int \<Rightarrow> int \<Rightarrow> nat option \<Rightarrow> int \<Rightarrow> Block" where
  "new_Block device sz bin ptr =
     \<lparr>blk_device_id = device, blk_size = sz, blk_bin = bin, blk_ptr = ptr, blk_allocated = False,
      blk_prev = None, blk_next = None\<rparr>"

definition IsSplit :: "Block \<Rightarrow> bool" where
  "IsSplit B \<longleftrightarrow> blk_prev B \<noteq> None \<or> blk_next B \<noteq> None"

definition deref :: "heap \<Rightarrow> nat \<Rightarrow> (Block \<Rightarrow> 'a res) \<Rightarrow> 'a res" where
  "deref h b k = (case h b of None \<Rightarrow> Inl Fault | Some B \<Rightarrow> k B)"

definition write_block :: "heap \<Rightarrow> nat \<Rightarrow> (Block \<Rightarrow> Block) \<Rightarrow> heap res" where
  "write_block h b f = deref h b (\<lambda>B. Inr (h(b \<mapsto> f B)))"

lemma deref_Some [simp]: "h b = Some B \<Longrightarrow> deref h b k = k B"
  by (simp add: deref_def)

lemma write_block_Some [simp]: "h b = Some B \<Longrightarrow> write_block h b f = Inr (h(b \<mapsto> f B))"
  by (simp add: write_block_def)

section \<open>Bins\<close>

definition BlockComparator :: "Block \<Rightarrow> Block \<Rightarrow> bool" where
  "BlockComparator left right =
     (if blk_size left \<noteq> blk_size right then blk_size left < blk_size right else blk_ptr left < blk_ptr right)"

fun bin_insert :: "heap \<Rightarrow> nat \<Rightarrow> nat list \<Rightarrow> nat list res" where
  "bin_insert h b [] = Inr [b]"
| "bin_insert h b (x # xs) =
     deref h b (\<lambda>B. deref h x (\<lambda>X.
       if BlockComparator X B then and_then (bin_insert h b xs) (\<lambda>ys. Inr (x # ys))
       else if BlockComparator B X then Inr (b # x # xs)
       else Inr (x # xs)))"

fun bin_erase :: "heap \<Rightarrow> nat \<Rightarrow> nat list \<Rightarrow> nat list res" where
  "bin_erase h b [] = Inr []"
| "bin_erase h b (x # xs) =
     deref h b (\<lambda>B. deref h x (\<lambda>X.
       if BlockComparator X B then and_then (bin_erase h b xs) (\<lambda>ys. Inr (x # ys))
       else if BlockComparator B X then Inr (x # xs)
       else Inr xs))"

fun bin_lower_bound :: "heap \<Rightarrow> Block \<Rightarrow> nat list \<Rightarrow> nat option res" where
  "bin_lower_bound h key [] = Inr None"
| "bin_lower_bound h key (x # xs) =
     deref h x (\<lambda>X. if BlockComparator X key then bin_lower_bound h key xs else Inr (Some x))"

definition block_key :: "Block \<Rightarrow> int \<times> int" where
  "block_key B = (blk_size B, blk_ptr B)"

lemma BlockComparator_key: "BlockComparator l r \<longleftrightarrow> block_key l < block_key r"
  by (auto simp: BlockComparator_def block_key_def less_prod_def')

text \<open>A bin in order: its entries exist, and their keys increase.\<close>

definition bin_sorted :: "heap \<Rightarrow> nat list \<Rightarrow> bool" where
  "bin_sorted h xs \<longleftrightarrow> (\<forall>x\<in>set xs. h x \<noteq> None) \<and> sorted_wrt (\<lambda>x y. block_key (the (h x)) < block_key (the (h y))) xs"

lemma bin_sorted_Nil [simp]: "bin_sorted h []"
  by (simp add: bin_sorted_def)

lemma bin_sorted_Cons:
  "bin_sorted h (x # xs) \<longleftrightarrow>
     (\<exists>X. h x = Some X \<and> (\<forall>y\<in>set xs. \<forall>Y. h y = Some Y \<longrightarrow> block_key X < block_key Y)) \<and> bin_sorted h xs"
  by (fastforce simp: bin_sorted_def)

lemma bin_sorted_distinct: "bin_sorted h xs \<Longrightarrow> distinct xs"
  by (induction xs) (auto simp: bin_sorted_Cons)

lemma bin_sorted_cong:
  assumes "bin_sorted h xs" "\<And>x X. x \<in> set xs \<Longrightarrow> h x = Some X \<Longrightarrow> \<exists>Y. h' x = Some Y \<and> block_key Y = block_key X"
  shows "bin_sorted h' xs"
  using assms
proof (induction xs)
  case (Cons x xs)
  then have "bin_sorted h' xs" by (simp add: bin_sorted_Cons)
  moreover obtain X where X: "h x = Some X" using Cons.prems(1) by (auto simp: bin_sorted_Cons)
  moreover obtain Y where x: "h' x = Some Y" "block_key Y = block_key X" using Cons.prems(2) [OF _ X] by auto
  moreover have "block_key Y < block_key Z" if zs: "z \<in> set xs" "h' z = Some Z" for z Z
  proof -
    obtain Z0 where "h z = Some Z0" using Cons.prems(1) zs(1) by (cases "h z") (auto simp: bin_sorted_def)
    then show ?thesis using Cons.prems(1) Cons.prems(2) [of z Z0] zs X x by (auto simp: bin_sorted_Cons)
  qed
  ultimately show ?case by (auto simp: bin_sorted_Cons)
qed simp

lemma bin_insert_ok:
  assumes "bin_sorted h xs" "h b = Some B" "\<And>x X. x \<in> set xs \<Longrightarrow> h x = Some X \<Longrightarrow> block_key X \<noteq> block_key B"
  obtains ys where "bin_insert h b xs = Inr ys" "set ys = insert b (set xs)" "bin_sorted h ys"
proof -
  have "\<exists>ys. bin_insert h b xs = Inr ys \<and> set ys = insert b (set xs) \<and> bin_sorted h ys"
    using assms
  proof (induction xs)
    case (Cons x xs)
    then obtain X where x: "h x = Some X" "\<And>y Y. y \<in> set xs \<Longrightarrow> h y = Some Y \<Longrightarrow> block_key X < block_key Y"
      by (auto simp: bin_sorted_Cons)
    from Cons obtain ys where ys: "bin_insert h b xs = Inr ys" "set ys = insert b (set xs)" "bin_sorted h ys"
      by (auto simp: bin_sorted_Cons)
    have "block_key X \<noteq> block_key B" using Cons.prems(3) [of x X] x by simp
    then consider "block_key X < block_key B" | "block_key B < block_key X" by (meson linorder_neqE)
    then show ?case
    proof cases
      case 1
      then have "bin_sorted h (x # ys)" using x ys assms(2) by (auto simp: bin_sorted_Cons)
      with 1 x ys assms(2) show ?thesis by (auto simp: BlockComparator_key)
    next
      case 2
      then have "bin_sorted h (b # x # xs)"
        using x Cons.prems(1) assms(2) by (fastforce simp: bin_sorted_Cons)
      with 2 x assms(2) show ?thesis by (auto simp: BlockComparator_key)
    qed
  qed (auto simp: bin_sorted_Cons)
  with that show thesis by blast
qed

lemma bin_erase_ok:
  assumes "bin_sorted h xs" "b \<in> set xs"
  obtains ys where "bin_erase h b xs = Inr ys" "set ys = set xs - {b}" "bin_sorted h ys"
proof -
  have "\<exists>ys. bin_erase h b xs = Inr ys \<and> set ys = set xs - {b} \<and> bin_sorted h ys"
    using assms
  proof (induction xs)
    case (Cons x xs)
    from Cons.prems obtain B where B: "h b = Some B" unfolding bin_sorted_def by blast
    from Cons.prems obtain X where x: "h x = Some X" "\<And>y Y. y \<in> set xs \<Longrightarrow> h y = Some Y \<Longrightarrow> block_key X < block_key Y"
      by (auto simp: bin_sorted_Cons)
    have d: "x \<notin> set xs" using bin_sorted_distinct [OF Cons.prems(1)] by simp
    show ?case
    proof (cases "x = b")
      case True
      then show ?thesis using Cons.prems x d by (auto simp: BlockComparator_key bin_sorted_Cons)
    next
      case False
      then have "b \<in> set xs" using Cons.prems by simp
      then obtain ys where ys: "bin_erase h b xs = Inr ys" "set ys = set xs - {b}" "bin_sorted h ys"
        using Cons by (auto simp: bin_sorted_Cons)
      then have "bin_sorted h (x # ys)" using x by (auto simp: bin_sorted_Cons)
      moreover have "block_key X < block_key B" using x B \<open>b \<in> set xs\<close> by simp
      ultimately show ?thesis using False ys x(1) B by (auto simp: BlockComparator_key)
    qed
  qed simp
  with that show thesis by blast
qed

lemma bin_lower_bound_ok:
  assumes "bin_sorted h xs"
  shows "(bin_lower_bound h key xs = Inr None \<and> (\<forall>x\<in>set xs. \<forall>X. h x = Some X \<longrightarrow> block_key X < block_key key)) \<or>
    (\<exists>x X. bin_lower_bound h key xs = Inr (Some x) \<and> x \<in> set xs \<and> h x = Some X \<and> block_key key \<le> block_key X \<and>
      (\<forall>y\<in>set xs. \<forall>Y. h y = Some Y \<longrightarrow> block_key key \<le> block_key Y \<longrightarrow> block_key X \<le> block_key Y))"
  using assms
proof (induction xs)
  case (Cons x xs)
  then obtain X where x: "h x = Some X" "\<And>y Y. y \<in> set xs \<Longrightarrow> h y = Some Y \<Longrightarrow> block_key X < block_key Y"
    by (auto simp: bin_sorted_Cons)
  show ?case
  proof (cases "block_key X < block_key key")
    case True
    moreover have "bin_sorted h xs" using Cons.prems by (simp add: bin_sorted_Cons)
    moreover have "\<not> block_key key \<le> block_key X" using True by simp
    ultimately show ?thesis using Cons.IH x(1) by (auto simp: BlockComparator_key)
  next
    case False
    then show ?thesis
      using x by (intro disjI2 exI [of _ x] exI [of _ X]) (auto simp: BlockComparator_key not_less intro: less_imp_le)
  qed
qed simp

section \<open>Conversion to double\<close>

text \<open>\<open>static_cast<double>\<close> of a \<open>size_t\<close>: round to 53 significant bits, ties to even.\<close>

definition to_double :: "int \<Rightarrow> int" where
  "to_double x =
     (if x < 2 ^ 53 then x
      else let e = floorlog 2 (nat x) - 53; q = x div 2 ^ e; r = x mod 2 ^ e; half = 2 ^ (e - 1)
           in (if r > half \<or> (r = half \<and> odd q) then q + 1 else q) * 2 ^ e)"

section \<open>Merging\<close>

text \<open>
  The pointer updates of \<open>MergeBlocks\<close>, in the order of the source, up to the erasure of \<open>src\<close> from its bin.
  Both allocators have the same \<open>MergeBlocks\<close> apart from their \<open>CanMerge\<close>, here the argument \<open>can_merge\<close>.
\<close>

definition merge_links :: "heap \<Rightarrow> nat \<Rightarrow> nat \<Rightarrow> heap res" where
  "merge_links h dst src =
     deref h dst (\<lambda>D. deref h src (\<lambda>S.
       and_then
         (if blk_prev D = Some src then
            let h = h(dst \<mapsto> D\<lparr>blk_ptr := blk_ptr S, blk_prev := blk_prev S\<rparr>)
            in case blk_prev S of None \<Rightarrow> Inr h | Some p \<Rightarrow> write_block h p (\<lambda>P. P\<lparr>blk_next := Some dst\<rparr>)
          else
            let h = h(dst \<mapsto> D\<lparr>blk_next := blk_next S\<rparr>)
            in case blk_next S of None \<Rightarrow> Inr h | Some n \<Rightarrow> write_block h n (\<lambda>N. N\<lparr>blk_prev := Some dst\<rparr>))
         (\<lambda>h. write_block h dst (\<lambda>D. D\<lparr>blk_size := u64 (blk_size D + blk_size S)\<rparr>))))"

definition merge_blocks ::
  "(heap \<Rightarrow> nat option \<Rightarrow> bool res) \<Rightarrow> heap \<Rightarrow> nat list \<Rightarrow> nat \<Rightarrow> nat option \<Rightarrow> (heap \<times> nat list) res" where
  "merge_blocks can_merge h bin dst src =
     and_then (can_merge h (Some dst)) (\<lambda>c. if \<not> c then Inr (h, bin) else
     and_then (can_merge h src) (\<lambda>c. if \<not> c then Inr (h, bin) else
     (case src of
        None \<Rightarrow> Inr (h, bin)
      | Some src \<Rightarrow>
          and_then (merge_links h dst src) (\<lambda>h.
          and_then (bin_erase h src bin) (\<lambda>bin. Inr (h(src := None), bin))))))"

end
