(* ===== verification/Block_Chains.thy ===== *)
theory Block_Chains
  imports Block_Memory
begin

text \<open>
  The shape invariant of a heap of blocks, relative to the device regions \<open>R\<close> (start address and length) the
  allocator holds, and the heap updates of the allocators that keep it: merging two neighbours, splitting a block
  on either side, adding a region, and giving a region back.
\<close>

section \<open>Regions and chains\<close>

abbreviation blk_end :: "Block \<Rightarrow> int" where
  "blk_end B \<equiv> blk_ptr B + blk_size B"

definition regions_ok :: "(int \<times> int) set \<Rightarrow> bool" where
  "regions_ok R \<longleftrightarrow>
     (\<forall>a n. (a, n) \<in> R \<longrightarrow> 0 < a \<and> 0 < n \<and> a + n \<le> 2 ^ 64) \<and>
     (\<forall>a n b m. (a, n) \<in> R \<longrightarrow> (b, m) \<in> R \<longrightarrow> (a, n) \<noteq> (b, m) \<longrightarrow> a + n \<le> b \<or> b + m \<le> a)"

text \<open>
  A block of the heap lies in a region, starts it exactly when it has no predecessor and ends it exactly when it
  has no successor; its successor starts where it ends and points back.
\<close>

definition block_ok :: "(int \<times> int) set \<Rightarrow> heap \<Rightarrow> nat \<Rightarrow> Block \<Rightarrow> bool" where
  "block_ok R h b B \<longleftrightarrow>
     0 < blk_size B \<and>
     (\<exists>a n. (a, n) \<in> R \<and> a \<le> blk_ptr B \<and> blk_end B \<le> a + n \<and>
        (blk_prev B = None \<longleftrightarrow> blk_ptr B = a) \<and> (blk_next B = None \<longleftrightarrow> blk_end B = a + n)) \<and>
     (\<forall>c. blk_next B = Some c \<longrightarrow>
        (\<exists>C. h c = Some C \<and> blk_prev C = Some b \<and> blk_ptr C = blk_end B \<and> blk_bin C = blk_bin B)) \<and>
     (\<forall>c. blk_prev B = Some c \<longrightarrow> (\<exists>C. h c = Some C \<and> blk_next C = Some b))"

definition chain_inv :: "(int \<times> int) set \<Rightarrow> heap \<Rightarrow> bool" where
  "chain_inv R h \<longleftrightarrow> regions_ok R \<and> (\<forall>b B. h b = Some B \<longrightarrow> block_ok R h b B) \<and>
     (\<forall>b B c C. h b = Some B \<longrightarrow> h c = Some C \<longrightarrow> b \<noteq> c \<longrightarrow> blk_end B \<le> blk_ptr C \<or> blk_end C \<le> blk_ptr B)"

lemma chain_inv_empty: "regions_ok R \<Longrightarrow> chain_inv R Map.empty"
  by (simp add: chain_inv_def)

lemma chain_regions: "chain_inv R h \<Longrightarrow> regions_ok R"
  by (simp add: chain_inv_def)

lemma chain_block: "chain_inv R h \<Longrightarrow> h b = Some B \<Longrightarrow> block_ok R h b B"
  by (simp add: chain_inv_def)

lemma chain_size: "chain_inv R h \<Longrightarrow> h b = Some B \<Longrightarrow> 0 < blk_size B"
  by (auto dest: chain_block simp: block_ok_def)

lemma chain_apart:
  "chain_inv R h \<Longrightarrow> h b = Some B \<Longrightarrow> h c = Some C \<Longrightarrow> b \<noteq> c \<Longrightarrow> blk_end B \<le> blk_ptr C \<or> blk_end C \<le> blk_ptr B"
  by (simp add: chain_inv_def)

lemma chain_next:
  assumes "chain_inv R h" "h b = Some B" "blk_next B = Some c"
  obtains C where "h c = Some C" "blk_prev C = Some b" "blk_ptr C = blk_end B" "blk_bin C = blk_bin B" "b \<noteq> c"
proof -
  from chain_block [OF assms(1,2)] assms(3)
  obtain C where C: "h c = Some C" "blk_prev C = Some b" "blk_ptr C = blk_end B" "blk_bin C = blk_bin B"
    by (auto simp: block_ok_def)
  moreover have "b \<noteq> c" using chain_size [OF assms(1,2)] assms(2) C by auto
  ultimately show thesis using that by blast
qed

lemma chain_prev:
  assumes "chain_inv R h" "h b = Some B" "blk_prev B = Some c"
  obtains C where "h c = Some C" "blk_next C = Some b" "blk_ptr B = blk_end C" "blk_bin C = blk_bin B" "b \<noteq> c"
proof -
  from chain_block [OF assms(1,2)] assms(3) obtain C where C: "h c = Some C" "blk_next C = Some b"
    by (auto simp: block_ok_def)
  obtain B' where "h b = Some B'" "blk_ptr B' = blk_end C" "blk_bin B' = blk_bin C" "c \<noteq> b"
    using assms(1) C by (rule chain_next)
  with C that assms(2) show thesis by simp
qed

lemma chain_region:
  assumes "chain_inv R h" "h b = Some B"
  obtains a n where "(a, n) \<in> R" "a \<le> blk_ptr B" "blk_end B \<le> a + n"
    "blk_prev B = None \<longleftrightarrow> blk_ptr B = a" "blk_next B = None \<longleftrightarrow> blk_end B = a + n"
  using chain_block [OF assms] unfolding block_ok_def by (elim conjE exE) (rule that)

lemma regions_pos: "regions_ok R \<Longrightarrow> (a, n) \<in> R \<Longrightarrow> 0 < a \<and> 0 < n \<and> a + n \<le> 2 ^ 64"
  by (simp add: regions_ok_def)

lemma chain_ptr:
  assumes "chain_inv R h" "h b = Some B"
  shows "0 < blk_ptr B" "blk_end B \<le> 2 ^ 64"
proof -
  obtain a n where "(a, n) \<in> R" "a \<le> blk_ptr B" "blk_end B \<le> a + n" using assms by (rule chain_region)
  with regions_pos [OF chain_regions [OF assms(1)], of a n] show "0 < blk_ptr B" "blk_end B \<le> 2 ^ 64" by linarith+
qed

lemma chain_ptr_inj: "chain_inv R h \<Longrightarrow> h b = Some B \<Longrightarrow> h c = Some C \<Longrightarrow> blk_ptr B = blk_ptr C \<Longrightarrow> b = c"
  using chain_apart [of R h b B c C] chain_size [of R h b B] chain_size [of R h c C] by linarith

lemma chain_key_inj: "chain_inv R h \<Longrightarrow> h b = Some B \<Longrightarrow> h c = Some C \<Longrightarrow> block_key B = block_key C \<Longrightarrow> b = c"
  by (simp add: block_key_def chain_ptr_inj)

lemma region_unique:
  assumes "regions_ok R" "(a, n) \<in> R" "(b, m) \<in> R" "a \<le> x" "x < a + n" "b \<le> x" "x < b + m"
  shows "a = b \<and> n = m"
proof (rule ccontr)
  assume "\<not> (a = b \<and> n = m)"
  then have "a + n \<le> b \<or> b + m \<le> a" using assms(1-3) unfolding regions_ok_def by blast
  with assms show False by linarith
qed

section \<open>Merging neighbours\<close>

text \<open>
  The block \<open>c\<close> that follows \<open>b\<close> is absorbed: \<open>b\<close> grows, takes over the successor of \<open>c\<close>, and \<open>c\<close> is deleted.
\<close>

definition absorb_next :: "heap \<Rightarrow> nat \<Rightarrow> Block \<Rightarrow> nat \<Rightarrow> Block \<Rightarrow> heap" where
  "absorb_next h b B c C = (\<lambda>x.
     if x = c then None
     else if x = b then Some (B\<lparr>blk_next := blk_next C, blk_size := blk_size B + blk_size C\<rparr>)
     else if blk_next C = Some x then map_option (\<lambda>D. D\<lparr>blk_prev := Some b\<rparr>) (h x)
     else h x)"

text \<open>The block \<open>c\<close> that precedes \<open>b\<close> is absorbed.\<close>

definition absorb_prev :: "heap \<Rightarrow> nat \<Rightarrow> Block \<Rightarrow> nat \<Rightarrow> Block \<Rightarrow> heap" where
  "absorb_prev h b B c C = (\<lambda>x.
     if x = c then None
     else if x = b then Some (B\<lparr>blk_ptr := blk_ptr C, blk_prev := blk_prev C, blk_size := blk_size B + blk_size C\<rparr>)
     else if blk_prev C = Some x then map_option (\<lambda>D. D\<lparr>blk_next := Some b\<rparr>) (h x)
     else h x)"

lemma chain_same_region:
  assumes inv: "chain_inv R h" and b: "h b = Some B" and c: "h c = Some C" and n: "blk_next B = Some c"
  obtains a m where "(a, m) \<in> R" "a \<le> blk_ptr B" "blk_end B < a + m" "blk_prev B = None \<longleftrightarrow> blk_ptr B = a"
    "blk_ptr C = blk_end B" "blk_end C \<le> a + m" "blk_next C = None \<longleftrightarrow> blk_end C = a + m"
proof -
  have C: "blk_prev C = Some b" "blk_ptr C = blk_end B" using chain_next [OF inv b n] c by auto
  obtain a m where r: "(a, m) \<in> R" "a \<le> blk_ptr B" "blk_end B \<le> a + m"
    "blk_prev B = None \<longleftrightarrow> blk_ptr B = a" "blk_next B = None \<longleftrightarrow> blk_end B = a + m"
    using inv b by (rule chain_region)
  obtain a' m' where r': "(a', m') \<in> R" "a' \<le> blk_ptr C" "blk_end C \<le> a' + m'"
    "blk_prev C = None \<longleftrightarrow> blk_ptr C = a'" "blk_next C = None \<longleftrightarrow> blk_end C = a' + m'"
    using inv c by (rule chain_region)
  have "a' = a \<and> m' = m"
    using r r' C n chain_size [OF inv b] chain_size [OF inv c]
    by (intro region_unique [OF chain_regions [OF inv] r'(1) r(1), of "blk_ptr C"]) auto
  with that r r' C n show thesis by simp
qed

lemma chain_invI:
  assumes "regions_ok R" "\<And>b B. h b = Some B \<Longrightarrow> block_ok R h b B"
    "\<And>b B c C. h b = Some B \<Longrightarrow> h c = Some C \<Longrightarrow> b \<noteq> c \<Longrightarrow> blk_end B \<le> blk_ptr C \<or> blk_end C \<le> blk_ptr B"
  shows "chain_inv R h"
  using assms by (simp add: chain_inv_def)

lemma block_okI:
  assumes "0 < blk_size B" "(a, n) \<in> R" "a \<le> blk_ptr B" "blk_end B \<le> a + n"
    "blk_prev B = None \<longleftrightarrow> blk_ptr B = a" "blk_next B = None \<longleftrightarrow> blk_end B = a + n"
    "\<And>c. blk_next B = Some c \<Longrightarrow> \<exists>C. h c = Some C \<and> blk_prev C = Some b \<and> blk_ptr C = blk_end B \<and> blk_bin C = blk_bin B"
    "\<And>c. blk_prev B = Some c \<Longrightarrow> \<exists>C. h c = Some C \<and> blk_next C = Some b"
  shows "block_ok R h b B"
  using assms(1-6) assms(7,8) unfolding block_ok_def by (intro conjI exI [of _ a] exI [of _ n]) simp_all

lemma chain_next_ex:
  "chain_inv R h \<Longrightarrow> h b = Some B \<Longrightarrow> blk_next B = Some c \<Longrightarrow>
   \<exists>C. h c = Some C \<and> blk_prev C = Some b \<and> blk_ptr C = blk_end B \<and> blk_bin C = blk_bin B \<and> b \<noteq> c"
  by (erule chain_next) auto

lemma chain_prev_ex:
  "chain_inv R h \<Longrightarrow> h b = Some B \<Longrightarrow> blk_prev B = Some c \<Longrightarrow>
   \<exists>C. h c = Some C \<and> blk_next C = Some b \<and> blk_ptr B = blk_end C \<and> blk_bin C = blk_bin B \<and> b \<noteq> c"
  by (erule chain_prev) auto

lemma absorb_next_inv:
  assumes inv: "chain_inv R h" and b: "h b = Some B" and c: "h c = Some C" and n: "blk_next B = Some c"
  shows "chain_inv R (absorb_next h b B c C)" (is "chain_inv R ?h")
proof -
  obtain a m where r: "(a, m) \<in> R" "a \<le> blk_ptr B" "blk_end B < a + m" "blk_prev B = None \<longleftrightarrow> blk_ptr B = a"
    "blk_ptr C = blk_end B" "blk_end C \<le> a + m" "blk_next C = None \<longleftrightarrow> blk_end C = a + m"
    using inv b c n by (rule chain_same_region)
  have C: "blk_prev C = Some b" "blk_bin C = blk_bin B" "b \<noteq> c" using chain_next_ex [OF inv b n] c by auto
  note sz = chain_size [OF inv b] chain_size [OF inv c]
  let ?B = "B\<lparr>blk_next := blk_next C, blk_size := blk_size B + blk_size C\<rparr>"
  have nb: "blk_next C \<noteq> Some b"
  proof
    assume "blk_next C = Some b"
    from chain_next_ex [OF inv c this] b have "blk_ptr B = blk_end C" by auto
    with r sz show False by linarith
  qed
  have cases: "(x = b \<and> X = ?B) \<or> (x \<noteq> b \<and> x \<noteq> c \<and> blk_next C = Some x \<and> (\<exists>D. h x = Some D \<and> X = D\<lparr>blk_prev := Some b\<rparr>)) \<or>
      (x \<noteq> b \<and> x \<noteq> c \<and> blk_next C \<noteq> Some x \<and> h x = Some X)" if "?h x = Some X" for x X
    using that by (auto simp: absorb_next_def split: if_splits)
  have old: "\<exists>Y. h x = Some Y \<and> x \<noteq> c \<and> blk_ptr X = blk_ptr Y \<and> blk_next X = (if x = b then blk_next C else blk_next Y) \<and>
      blk_end X = (if x = b then blk_end C else blk_end Y)" if "?h x = Some X" for x X
    using cases [OF that] r b C by auto
  show ?thesis
  proof (rule chain_invI)
    show "regions_ok R" using inv by (rule chain_regions)
    fix x X assume x: "?h x = Some X"
    from cases [OF x] show "block_ok R ?h x X"
    proof (elim disjE conjE exE)
      assume x: "x = b" "X = ?B"
      show ?thesis unfolding x
      proof (rule block_okI [of _ a m])
        fix d assume "blk_next ?B = Some d"
        then have d: "blk_next C = Some d" by simp
        from chain_next_ex [OF inv c this] show "\<exists>D. ?h d = Some D \<and> blk_prev D = Some b \<and> blk_ptr D = blk_end ?B \<and> blk_bin D = blk_bin ?B"
          using d nb r C by (auto simp: absorb_next_def)
      next
        fix d assume "blk_prev ?B = Some d"
        then have d: "blk_prev B = Some d" by simp
        from chain_prev_ex [OF inv b this] show "\<exists>D. ?h d = Some D \<and> blk_next D = Some b"
          using nb c by (auto simp: absorb_next_def)
      qed (use r sz in auto)
    next
      fix D assume x: "x \<noteq> b" "x \<noteq> c" "blk_next C = Some x" "h x = Some D" "X = D\<lparr>blk_prev := Some b\<rparr>"
      obtain a' m' where r': "(a', m') \<in> R" "a' \<le> blk_ptr D" "blk_end D \<le> a' + m'"
        "blk_prev D = None \<longleftrightarrow> blk_ptr D = a'" "blk_next D = None \<longleftrightarrow> blk_end D = a' + m'"
        using inv x(4) by (rule chain_region)
      have D: "blk_prev D = Some c" using chain_next_ex [OF inv c x(3)] x(4) by auto
      show ?thesis unfolding x(5)
      proof (rule block_okI [of _ a' m'])
        fix d assume "blk_next (D\<lparr>blk_prev := Some b\<rparr>) = Some d"
        then have d: "blk_next D = Some d" by simp
        from chain_next_ex [OF inv x(4) this] show "\<exists>E. ?h d = Some E \<and> blk_prev E = Some x \<and> blk_ptr E = blk_end (D\<lparr>blk_prev := Some b\<rparr>) \<and> blk_bin E = blk_bin (D\<lparr>blk_prev := Some b\<rparr>)"
          using x b c C by (auto simp: absorb_next_def)
      qed (use r' x C D chain_size [OF inv x(4)] in \<open>auto simp: absorb_next_def\<close>)
    next
      assume x: "x \<noteq> b" "x \<noteq> c" "blk_next C \<noteq> Some x" "h x = Some X"
      obtain a' m' where r': "(a', m') \<in> R" "a' \<le> blk_ptr X" "blk_end X \<le> a' + m'"
        "blk_prev X = None \<longleftrightarrow> blk_ptr X = a'" "blk_next X = None \<longleftrightarrow> blk_end X = a' + m'"
        using inv x(4) by (rule chain_region)
      show ?thesis
      proof (rule block_okI [of _ a' m'])
        fix d assume "blk_next X = Some d"
        from chain_next_ex [OF inv x(4) this] show "\<exists>E. ?h d = Some E \<and> blk_prev E = Some x \<and> blk_ptr E = blk_end X \<and> blk_bin E = blk_bin X"
          using x b c C n chain_next_ex [OF inv c] by (auto simp: absorb_next_def) 
      next
        fix d assume "blk_prev X = Some d"
        from chain_prev_ex [OF inv x(4) this] show "\<exists>E. ?h d = Some E \<and> blk_next E = Some x"
          using x b c C n by (auto simp: absorb_next_def)
      qed (use r' chain_size [OF inv x(4)] in auto)
    qed
  next
    fix x X y Y assume x: "?h x = Some X" "?h y = Some Y" "x \<noteq> y"
    obtain X0 Y0 where o: "h x = Some X0" "x \<noteq> c" "h y = Some Y0" "y \<noteq> c" using old x by blast
    show "blk_end X \<le> blk_ptr Y \<or> blk_end Y \<le> blk_ptr X"
      using old [OF x(1)] old [OF x(2)] x(3) o r(5) b chain_apart [OF inv o(1,3) x(3)] chain_apart [OF inv o(1) b]
        chain_apart [OF inv o(3) b] chain_apart [OF inv o(1) c o(2)] chain_apart [OF inv o(3) c o(4)]
        chain_size [OF inv o(1)] chain_size [OF inv o(3)]
      by (auto split: if_splits)
  qed
qed

lemma absorb_prev_inv:
  assumes inv: "chain_inv R h" and b: "h b = Some B" and c: "h c = Some C" and n: "blk_prev B = Some c"
  shows "chain_inv R (absorb_prev h b B c C)" (is "chain_inv R ?h")
proof -
  have C: "blk_next C = Some b" "blk_bin C = blk_bin B" "b \<noteq> c" "blk_ptr B = blk_end C"
    using chain_prev_ex [OF inv b n] c by auto
  obtain a m where r: "(a, m) \<in> R" "a \<le> blk_ptr C" "blk_end C < a + m" "blk_prev C = None \<longleftrightarrow> blk_ptr C = a"
    "blk_end B \<le> a + m" "blk_next B = None \<longleftrightarrow> blk_end B = a + m"
    using inv c b C(1) by (rule chain_same_region)
  note sz = chain_size [OF inv b] chain_size [OF inv c]
  let ?B = "B\<lparr>blk_ptr := blk_ptr C, blk_prev := blk_prev C, blk_size := blk_size B + blk_size C\<rparr>"
  have nb: "blk_prev C \<noteq> Some b"
  proof
    assume "blk_prev C = Some b"
    from chain_prev_ex [OF inv c this] b have "blk_ptr C = blk_end B" by auto
    with C sz show False by linarith
  qed
  have cases: "(x = b \<and> X = ?B) \<or> (x \<noteq> b \<and> x \<noteq> c \<and> blk_prev C = Some x \<and> (\<exists>D. h x = Some D \<and> X = D\<lparr>blk_next := Some b\<rparr>)) \<or>
      (x \<noteq> b \<and> x \<noteq> c \<and> blk_prev C \<noteq> Some x \<and> h x = Some X)" if "?h x = Some X" for x X
    using that by (auto simp: absorb_prev_def split: if_splits)
  have old: "\<exists>Y. h x = Some Y \<and> x \<noteq> c \<and> blk_ptr X = (if x = b then blk_ptr C else blk_ptr Y) \<and> blk_end X = blk_end Y"
    if "?h x = Some X" for x X
    using cases [OF that] b C by auto
  show ?thesis
  proof (rule chain_invI)
    show "regions_ok R" using inv by (rule chain_regions)
    fix x X assume x: "?h x = Some X"
    from cases [OF x] show "block_ok R ?h x X"
    proof (elim disjE conjE exE)
      assume x: "x = b" "X = ?B"
      show ?thesis unfolding x
      proof (rule block_okI [of _ a m])
        fix d assume "blk_next ?B = Some d"
        then have d: "blk_next B = Some d" by simp
        from chain_next_ex [OF inv b this] show "\<exists>D. ?h d = Some D \<and> blk_prev D = Some b \<and> blk_ptr D = blk_end ?B \<and> blk_bin D = blk_bin ?B"
          using nb c C by (auto simp: absorb_prev_def)
      next
        fix d assume "blk_prev ?B = Some d"
        then have d: "blk_prev C = Some d" by simp
        from chain_prev_ex [OF inv c this] show "\<exists>D. ?h d = Some D \<and> blk_next D = Some b"
          using d nb by (auto simp: absorb_prev_def)
      qed (use r sz C in auto)
    next
      fix D assume x: "x \<noteq> b" "x \<noteq> c" "blk_prev C = Some x" "h x = Some D" "X = D\<lparr>blk_next := Some b\<rparr>"
      obtain a' m' where r': "(a', m') \<in> R" "a' \<le> blk_ptr D" "blk_end D \<le> a' + m'"
        "blk_prev D = None \<longleftrightarrow> blk_ptr D = a'" "blk_next D = None \<longleftrightarrow> blk_end D = a' + m'"
        using inv x(4) by (rule chain_region)
      have D: "blk_next D = Some c" "blk_ptr C = blk_end D" "blk_bin D = blk_bin C"
        using chain_prev_ex [OF inv c x(3)] x(4) by auto
      show ?thesis unfolding x(5)
      proof (rule block_okI [of _ a' m'])
        fix d assume "blk_prev (D\<lparr>blk_next := Some b\<rparr>) = Some d"
        then have d: "blk_prev D = Some d" by simp
        from chain_prev_ex [OF inv x(4) this] show "\<exists>E. ?h d = Some E \<and> blk_next E = Some x"
          using x b c C by (auto simp: absorb_prev_def)
      qed (use r' x C D chain_size [OF inv x(4)] in \<open>auto simp: absorb_prev_def\<close>)
    next
      assume x: "x \<noteq> b" "x \<noteq> c" "blk_prev C \<noteq> Some x" "h x = Some X"
      obtain a' m' where r': "(a', m') \<in> R" "a' \<le> blk_ptr X" "blk_end X \<le> a' + m'"
        "blk_prev X = None \<longleftrightarrow> blk_ptr X = a'" "blk_next X = None \<longleftrightarrow> blk_end X = a' + m'"
        using inv x(4) by (rule chain_region)
      show ?thesis
      proof (rule block_okI [of _ a' m'])
        fix d assume "blk_next X = Some d"
        from chain_next_ex [OF inv x(4) this] show "\<exists>E. ?h d = Some E \<and> blk_prev E = Some x \<and> blk_ptr E = blk_end X \<and> blk_bin E = blk_bin X"
          using x b c C n by (auto simp: absorb_prev_def) 
      next
        fix d assume "blk_prev X = Some d"
        from chain_prev_ex [OF inv x(4) this] show "\<exists>E. ?h d = Some E \<and> blk_next E = Some x"
          using x b c C n chain_prev_ex [OF inv c] by (auto simp: absorb_prev_def)
      qed (use r' chain_size [OF inv x(4)] in auto)
    qed
  next
    fix x X y Y assume x: "?h x = Some X" "?h y = Some Y" "x \<noteq> y"
    obtain X0 Y0 where o: "h x = Some X0" "x \<noteq> c" "h y = Some Y0" "y \<noteq> c" using old x by blast
    show "blk_end X \<le> blk_ptr Y \<or> blk_end Y \<le> blk_ptr X"
      using old [OF x(1)] old [OF x(2)] x(3) o C b chain_apart [OF inv o(1,3) x(3)] chain_apart [OF inv o(1) b]
        chain_apart [OF inv o(3) b] chain_apart [OF inv o(1) c o(2)] chain_apart [OF inv o(3) c o(4)]
        chain_size [OF inv o(1)] chain_size [OF inv o(3)]
      by (auto split: if_splits)
  qed
qed

section \<open>Splitting a block\<close>

text \<open>The first \<open>s\<close> bytes of \<open>b\<close> become the new block \<open>c\<close>, put in front of \<open>b\<close>.\<close>

definition split_front :: "heap \<Rightarrow> nat \<Rightarrow> Block \<Rightarrow> nat \<Rightarrow> Block \<Rightarrow> heap" where
  "split_front h b B c N = (\<lambda>x.
     if x = c then Some (N\<lparr>blk_prev := blk_prev B, blk_next := Some b\<rparr>)
     else if x = b then Some (B\<lparr>blk_prev := Some c, blk_ptr := blk_ptr B + blk_size N, blk_size := blk_size B - blk_size N\<rparr>)
     else if blk_prev B = Some x then map_option (\<lambda>D. D\<lparr>blk_next := Some c\<rparr>) (h x)
     else h x)"

text \<open>The bytes of \<open>b\<close> after the first \<open>s\<close> become the new block \<open>c\<close>, put behind \<open>b\<close>.\<close>

definition split_back :: "heap \<Rightarrow> nat \<Rightarrow> Block \<Rightarrow> nat \<Rightarrow> Block \<Rightarrow> heap" where
  "split_back h b B c N = (\<lambda>x.
     if x = c then Some (N\<lparr>blk_next := blk_next B, blk_prev := Some b\<rparr>)
     else if x = b then Some (B\<lparr>blk_next := Some c, blk_size := blk_size B - blk_size N\<rparr>)
     else if blk_next B = Some x then map_option (\<lambda>D. D\<lparr>blk_prev := Some c\<rparr>) (h x)
     else h x)"

lemma split_front_inv:
  assumes inv: "chain_inv R h" and b: "h b = Some B" and c: "h c = None"
    and N: "0 < blk_size N" "blk_size N < blk_size B" "blk_ptr N = blk_ptr B" "blk_bin N = blk_bin B"
  shows "chain_inv R (split_front h b B c N)" (is "chain_inv R ?h")
proof -
  obtain a m where r: "(a, m) \<in> R" "a \<le> blk_ptr B" "blk_end B \<le> a + m"
    "blk_prev B = None \<longleftrightarrow> blk_ptr B = a" "blk_next B = None \<longleftrightarrow> blk_end B = a + m"
    using inv b by (rule chain_region)
  have bc: "b \<noteq> c" using b c by auto
  let ?N = "N\<lparr>blk_prev := blk_prev B, blk_next := Some b\<rparr>"
  let ?B = "B\<lparr>blk_prev := Some c, blk_ptr := blk_ptr B + blk_size N, blk_size := blk_size B - blk_size N\<rparr>"
  have cases: "(x = c \<and> X = ?N) \<or> (x = b \<and> X = ?B) \<or>
      (x \<noteq> b \<and> x \<noteq> c \<and> blk_prev B = Some x \<and> (\<exists>D. h x = Some D \<and> X = D\<lparr>blk_next := Some c\<rparr>)) \<or>
      (x \<noteq> b \<and> x \<noteq> c \<and> blk_prev B \<noteq> Some x \<and> h x = Some X)" if "?h x = Some X" for x X
    using that by (auto simp: split_front_def split: if_splits)
  show ?thesis
  proof (rule chain_invI)
    show "regions_ok R" using inv by (rule chain_regions)
    fix x X assume x: "?h x = Some X"
    from cases [OF x] show "block_ok R ?h x X"
    proof (elim disjE conjE exE)
      assume x: "x = c" "X = ?N"
      show ?thesis unfolding x
      proof (rule block_okI [of _ a m])
        fix d assume "blk_prev ?N = Some d"
        then have d: "blk_prev B = Some d" by simp
        from chain_prev_ex [OF inv b this] show "\<exists>D. ?h d = Some D \<and> blk_next D = Some c"
          using d c by (auto simp: split_front_def)
      qed (use r N bc in \<open>auto simp: split_front_def\<close>)
    next
      assume x: "x = b" "X = ?B"
      show ?thesis unfolding x
      proof (rule block_okI [of _ a m])
        fix d assume "blk_next ?B = Some d"
        then have d: "blk_next B = Some d" by simp
        have "blk_prev B \<noteq> Some d"
        proof
          assume "blk_prev B = Some d"
          from chain_prev_ex [OF inv b this] chain_next_ex [OF inv b d] chain_size [OF inv b] chain_size [OF inv, of d]
          show False by force
        qed
        with chain_next_ex [OF inv b d] show "\<exists>D. ?h d = Some D \<and> blk_prev D = Some b \<and> blk_ptr D = blk_end ?B \<and> blk_bin D = blk_bin ?B"
          using c by (auto simp: split_front_def)
      qed (use r N bc in \<open>auto simp: split_front_def\<close>)
    next
      fix D assume x: "x \<noteq> b" "x \<noteq> c" "blk_prev B = Some x" "h x = Some D" "X = D\<lparr>blk_next := Some c\<rparr>"
      obtain a' m' where r': "(a', m') \<in> R" "a' \<le> blk_ptr D" "blk_end D \<le> a' + m'"
        "blk_prev D = None \<longleftrightarrow> blk_ptr D = a'" "blk_next D = None \<longleftrightarrow> blk_end D = a' + m'"
        using inv x(4) by (rule chain_region)
      have D: "blk_next D = Some b" "blk_ptr B = blk_end D" "blk_bin D = blk_bin B"
        using chain_prev_ex [OF inv b x(3)] x(4) by auto
      show ?thesis unfolding x(5)
      proof (rule block_okI [of _ a' m'])
        fix d assume "blk_prev (D\<lparr>blk_next := Some c\<rparr>) = Some d"
        then have d: "blk_prev D = Some d" by simp
        from chain_prev_ex [OF inv x(4) this] show "\<exists>E. ?h d = Some E \<and> blk_next E = Some x"
          using x b c by (auto simp: split_front_def)
      qed (use r' x N D chain_size [OF inv x(4)] in \<open>auto simp: split_front_def\<close>)
    next
      assume x: "x \<noteq> b" "x \<noteq> c" "blk_prev B \<noteq> Some x" "h x = Some X"
      obtain a' m' where r': "(a', m') \<in> R" "a' \<le> blk_ptr X" "blk_end X \<le> a' + m'"
        "blk_prev X = None \<longleftrightarrow> blk_ptr X = a'" "blk_next X = None \<longleftrightarrow> blk_end X = a' + m'"
        using inv x(4) by (rule chain_region)
      show ?thesis
      proof (rule block_okI [of _ a' m'])
        fix d assume "blk_next X = Some d"
        from chain_next_ex [OF inv x(4) this] show "\<exists>E. ?h d = Some E \<and> blk_prev E = Some x \<and> blk_ptr E = blk_end X \<and> blk_bin E = blk_bin X"
          using x b c by (auto simp: split_front_def) 
      next
        fix d assume "blk_prev X = Some d"
        from chain_prev_ex [OF inv x(4) this] show "\<exists>E. ?h d = Some E \<and> blk_next E = Some x"
          using x b c chain_prev_ex [OF inv b] by (auto simp: split_front_def)
      qed (use r' chain_size [OF inv x(4)] in auto)
    qed
  next
    fix x X y Y assume x: "?h x = Some X" "?h y = Some Y" "x \<noteq> y"
    have old: "(\<exists>Z. h z = Some Z \<and> z \<noteq> b \<and> blk_ptr W = blk_ptr Z \<and> blk_end W = blk_end Z) \<or>
        (blk_ptr B \<le> blk_ptr W \<and> blk_end W \<le> blk_end B \<and> (z = c \<and> blk_end W = blk_ptr B + blk_size N \<or> z = b \<and> blk_ptr W = blk_ptr B + blk_size N))"
      if "?h z = Some W" for z W
      using cases [OF that] N by auto
    show "blk_end X \<le> blk_ptr Y \<or> blk_end Y \<le> blk_ptr X"
      using old [OF x(1)] old [OF x(2)] x(3)
      by (elim disjE exE conjE) (use chain_apart [OF inv] b in \<open>fastforce+\<close>)
  qed
qed

lemma split_back_inv:
  assumes inv: "chain_inv R h" and b: "h b = Some B" and c: "h c = None"
    and N: "0 < blk_size N" "blk_size N < blk_size B" "blk_ptr N = blk_end B - blk_size N" "blk_bin N = blk_bin B"
  shows "chain_inv R (split_back h b B c N)" (is "chain_inv R ?h")
proof -
  obtain a m where r: "(a, m) \<in> R" "a \<le> blk_ptr B" "blk_end B \<le> a + m"
    "blk_prev B = None \<longleftrightarrow> blk_ptr B = a" "blk_next B = None \<longleftrightarrow> blk_end B = a + m"
    using inv b by (rule chain_region)
  have bc: "b \<noteq> c" using b c by auto
  let ?N = "N\<lparr>blk_next := blk_next B, blk_prev := Some b\<rparr>"
  let ?B = "B\<lparr>blk_next := Some c, blk_size := blk_size B - blk_size N\<rparr>"
  have cases: "(x = c \<and> X = ?N) \<or> (x = b \<and> X = ?B) \<or>
      (x \<noteq> b \<and> x \<noteq> c \<and> blk_next B = Some x \<and> (\<exists>D. h x = Some D \<and> X = D\<lparr>blk_prev := Some c\<rparr>)) \<or>
      (x \<noteq> b \<and> x \<noteq> c \<and> blk_next B \<noteq> Some x \<and> h x = Some X)" if "?h x = Some X" for x X
    using that by (auto simp: split_back_def split: if_splits)
  show ?thesis
  proof (rule chain_invI)
    show "regions_ok R" using inv by (rule chain_regions)
    fix x X assume x: "?h x = Some X"
    from cases [OF x] show "block_ok R ?h x X"
    proof (elim disjE conjE exE)
      assume x: "x = c" "X = ?N"
      show ?thesis unfolding x
      proof (rule block_okI [of _ a m])
        fix d assume "blk_next ?N = Some d"
        then have d: "blk_next B = Some d" by simp
        from chain_next_ex [OF inv b this]
        show "\<exists>D. ?h d = Some D \<and> blk_prev D = Some c \<and> blk_ptr D = blk_end ?N \<and> blk_bin D = blk_bin ?N"
          using d c N by (auto simp: split_back_def)
      qed (use r N bc in \<open>auto simp: split_back_def\<close>)
    next
      assume x: "x = b" "X = ?B"
      show ?thesis unfolding x
      proof (rule block_okI [of _ a m])
        fix d assume "blk_prev ?B = Some d"
        then have d: "blk_prev B = Some d" by simp
        with chain_prev_ex [OF inv b d] show "\<exists>D. ?h d = Some D \<and> blk_next D = Some b"
          using c by (auto simp: split_back_def)
      qed (use r N bc in \<open>auto simp: split_back_def\<close>)
    next
      fix D assume x: "x \<noteq> b" "x \<noteq> c" "blk_next B = Some x" "h x = Some D" "X = D\<lparr>blk_prev := Some c\<rparr>"
      obtain a' m' where r': "(a', m') \<in> R" "a' \<le> blk_ptr D" "blk_end D \<le> a' + m'"
        "blk_prev D = None \<longleftrightarrow> blk_ptr D = a'" "blk_next D = None \<longleftrightarrow> blk_end D = a' + m'"
        using inv x(4) by (rule chain_region)
      have D: "blk_prev D = Some b" "blk_ptr D = blk_end B" "blk_bin D = blk_bin B"
        using chain_next_ex [OF inv b x(3)] x(4) by auto
      show ?thesis unfolding x(5)
      proof (rule block_okI [of _ a' m'])
        fix d assume "blk_next (D\<lparr>blk_prev := Some c\<rparr>) = Some d"
        then have d: "blk_next D = Some d" by simp
        from chain_next_ex [OF inv x(4) this] x(1) b c
        show "\<exists>E. ?h d = Some E \<and> blk_prev E = Some x \<and> blk_ptr E = blk_end (D\<lparr>blk_prev := Some c\<rparr>) \<and> blk_bin E = blk_bin (D\<lparr>blk_prev := Some c\<rparr>)"
          using x by (auto simp: split_back_def)
      qed (use r' x N D chain_size [OF inv x(4)] in \<open>auto simp: split_back_def\<close>)
    next
      assume x: "x \<noteq> b" "x \<noteq> c" "blk_next B \<noteq> Some x" "h x = Some X"
      obtain a' m' where r': "(a', m') \<in> R" "a' \<le> blk_ptr X" "blk_end X \<le> a' + m'"
        "blk_prev X = None \<longleftrightarrow> blk_ptr X = a'" "blk_next X = None \<longleftrightarrow> blk_end X = a' + m'"
        using inv x(4) by (rule chain_region)
      show ?thesis
      proof (rule block_okI [of _ a' m'])
        fix d assume "blk_next X = Some d"
        from chain_next_ex [OF inv x(4) this] show "\<exists>E. ?h d = Some E \<and> blk_prev E = Some x \<and> blk_ptr E = blk_end X \<and> blk_bin E = blk_bin X"
          using x b c chain_next_ex [OF inv b] by (auto simp: split_back_def) 
      next
        fix d assume "blk_prev X = Some d"
        from chain_prev_ex [OF inv x(4) this] show "\<exists>E. ?h d = Some E \<and> blk_next E = Some x"
          using x b c by (auto simp: split_back_def)
      qed (use r' chain_size [OF inv x(4)] in auto)
    qed
  next
    fix x X y Y assume x: "?h x = Some X" "?h y = Some Y" "x \<noteq> y"
    have old: "(\<exists>Z. h z = Some Z \<and> z \<noteq> b \<and> blk_ptr W = blk_ptr Z \<and> blk_end W = blk_end Z) \<or>
        (blk_ptr B \<le> blk_ptr W \<and> blk_end W \<le> blk_end B \<and> (z = b \<and> blk_end W = blk_ptr N \<or> z = c \<and> blk_ptr W = blk_ptr N))"
      if "?h z = Some W" for z W
      using cases [OF that] N by auto
    show "blk_end X \<le> blk_ptr Y \<or> blk_end Y \<le> blk_ptr X"
      using old [OF x(1)] old [OF x(2)] x(3)
      by (elim disjE exE conjE) (use chain_apart [OF inv] b in \<open>fastforce+\<close>)
  qed
qed

section \<open>Regions come and go\<close>

lemma regions_ok_insert:
  assumes "regions_ok R" "0 < a" "0 < n" "a + n \<le> 2 ^ 64" "\<And>b m. (b, m) \<in> R \<Longrightarrow> a + n \<le> b \<or> b + m \<le> a"
  shows "regions_ok (insert (a, n) R)"
  using assms unfolding regions_ok_def by auto

lemma block_ok_mono: "block_ok R h b B \<Longrightarrow> R \<subseteq> R' \<Longrightarrow> block_ok R' h b B"
  unfolding block_ok_def by (elim conjE exE, intro conjI exI) (assumption | erule subsetD)+

lemma chain_inv_mono: "chain_inv R h \<Longrightarrow> regions_ok R' \<Longrightarrow> R \<subseteq> R' \<Longrightarrow> chain_inv R' h"
  by (auto simp: chain_inv_def intro: block_ok_mono)

text \<open>A new region enters as one block.\<close>

lemma add_region_inv:
  assumes inv: "chain_inv R h" and b: "h b = None"
    and reg: "regions_ok (insert (blk_ptr B, blk_size B) R)" "(blk_ptr B, blk_size B) \<notin> R"
    and B: "blk_prev B = None" "blk_next B = None"
  shows "chain_inv (insert (blk_ptr B, blk_size B) R) (h(b \<mapsto> B))"
proof (rule chain_invI)
  let ?R = "insert (blk_ptr B, blk_size B) R"
  fix x X assume x: "(h(b \<mapsto> B)) x = Some X"
  show "block_ok ?R (h(b \<mapsto> B)) x X"
  proof (cases "x = b")
    case True
    then have "X = B" using x by simp
    with B reg(1) show ?thesis unfolding block_ok_def regions_ok_def by auto
  next
    case False
    then have hx: "h x = Some X" using x by simp
    have "block_ok ?R h x X" using chain_block [OF inv hx] by (rule block_ok_mono) auto
    moreover have "blk_next X \<noteq> Some b" "blk_prev X \<noteq> Some b"
      using chain_next_ex [OF inv hx] chain_prev_ex [OF inv hx] b by auto
    ultimately show ?thesis by (auto simp: block_ok_def)
  qed
next
  have apart: "blk_end B \<le> blk_ptr X \<or> blk_end X \<le> blk_ptr B" if hx: "h x = Some X" for x X
  proof -
    obtain a n where r: "(a, n) \<in> R" "a \<le> blk_ptr X" "blk_end X \<le> a + n" using inv hx by (rule chain_region)
    then have "(a, n) \<noteq> (blk_ptr B, blk_size B)" using reg(2) by auto
    then have "blk_end B \<le> a \<or> a + n \<le> blk_ptr B" using reg(1) r(1) unfolding regions_ok_def by blast
    with r show ?thesis by linarith
  qed
  fix x X y Y assume "(h(b \<mapsto> B)) x = Some X" "(h(b \<mapsto> B)) y = Some Y" "x \<noteq> y"
  then show "blk_end X \<le> blk_ptr Y \<or> blk_end Y \<le> blk_ptr X"
    using apart chain_apart [OF inv] by (auto split: if_splits)
qed (rule reg)

text \<open>A block without neighbours fills its region, so the region can be given back with it.\<close>

lemma whole_region: "chain_inv R h \<Longrightarrow> h b = Some B \<Longrightarrow> blk_prev B = None \<Longrightarrow> blk_next B = None \<Longrightarrow> (blk_ptr B, blk_size B) \<in> R"
  by (erule chain_region, assumption) auto

lemma drop_region_inv:
  assumes inv: "chain_inv R h" and b: "h b = Some B" and B: "blk_prev B = None" "blk_next B = None"
  shows "chain_inv (R - {(blk_ptr B, blk_size B)}) (h(b := None))"
proof (rule chain_invI)
  have w: "(blk_ptr B, blk_size B) \<in> R" using whole_region [OF inv b B] .
  show "regions_ok (R - {(blk_ptr B, blk_size B)})" using chain_regions [OF inv] by (auto simp: regions_ok_def)
  fix x X assume x: "(h(b := None)) x = Some X"
  then have hx: "h x = Some X" "x \<noteq> b" by (auto split: if_splits)
  obtain a n where r: "(a, n) \<in> R" "a \<le> blk_ptr X" "blk_end X \<le> a + n"
    "blk_prev X = None \<longleftrightarrow> blk_ptr X = a" "blk_next X = None \<longleftrightarrow> blk_end X = a + n"
    using inv hx(1) by (rule chain_region)
  have ne: "(a, n) \<noteq> (blk_ptr B, blk_size B)"
    using chain_apart [OF inv hx(1) b hx(2)] r chain_size [OF inv hx(1)] by auto
  show "block_ok (R - {(blk_ptr B, blk_size B)}) (h(b := None)) x X"
  proof (rule block_okI [of _ a n])
    fix d assume "blk_next X = Some d"
    from chain_next_ex [OF inv hx(1) this] b B
    show "\<exists>E. (h(b := None)) d = Some E \<and> blk_prev E = Some x \<and> blk_ptr E = blk_end X \<and> blk_bin E = blk_bin X" by auto
  next
    fix d assume "blk_prev X = Some d"
    from chain_prev_ex [OF inv hx(1) this] b B show "\<exists>E. (h(b := None)) d = Some E \<and> blk_next E = Some x" by auto
  qed (use r ne chain_size [OF inv hx(1)] in auto)
qed (use chain_apart [OF inv] in \<open>auto split: if_splits\<close>)

text \<open>Fields that the chain does not mention are free to change.\<close>

lemma set_allocated_inv:
  assumes inv: "chain_inv R h" and b: "h b = Some B"
  shows "chain_inv R (h(b \<mapsto> B\<lparr>blk_allocated := f\<rparr>))"
proof (rule chain_invI)
  fix x X assume x: "(h(b \<mapsto> B\<lparr>blk_allocated := f\<rparr>)) x = Some X"
  then obtain Y where y: "h x = Some Y" "blk_size X = blk_size Y" "blk_ptr X = blk_ptr Y" "blk_next X = blk_next Y"
    "blk_prev X = blk_prev Y" "blk_bin X = blk_bin Y" using b by (auto split: if_splits)
  show "block_ok R (h(b \<mapsto> B\<lparr>blk_allocated := f\<rparr>)) x X"
    using chain_block [OF inv y(1)] b unfolding block_ok_def y(2-6) by auto
next
  fix x X y Y assume "(h(b \<mapsto> B\<lparr>blk_allocated := f\<rparr>)) x = Some X" "(h(b \<mapsto> B\<lparr>blk_allocated := f\<rparr>)) y = Some Y" "x \<noteq> y"
  moreover from this b obtain X0 Y0 where "h x = Some X0" "blk_size X = blk_size X0" "blk_ptr X = blk_ptr X0"
    "h y = Some Y0" "blk_size Y = blk_size Y0" "blk_ptr Y = blk_ptr Y0" by (auto split: if_splits)
  ultimately show "blk_end X \<le> blk_ptr Y \<or> blk_end Y \<le> blk_ptr X"
    using chain_apart [OF inv, of x X0 y Y0] by simp
qed (rule chain_regions [OF inv])

section \<open>The pointer updates of the code\<close>

lemma merge_links_next:
  assumes inv: "chain_inv R h" and b: "h b = Some B" and c: "h c = Some C" and n: "blk_next B = Some c"
  shows "\<exists>h'. merge_links h b c = Inr h' \<and> h' c = h c \<and> h'(c := None) = absorb_next h b B c C"
proof -
  have C: "blk_prev C = Some b" "b \<noteq> c" "blk_ptr C = blk_end B" using chain_next_ex [OF inv b n] c by auto
  have p: "blk_prev B \<noteq> Some c"
    using chain_prev_ex [OF inv b] c C chain_size [OF inv b] chain_size [OF inv c] by force
  have "u64 (blk_size B + blk_size C) = blk_size B + blk_size C"
    using C chain_ptr [OF inv b] chain_ptr [OF inv c] chain_size [OF inv b] chain_size [OF inv c] by simp
  moreover have "\<exists>D. h d = Some D \<and> d \<noteq> b \<and> d \<noteq> c" if "blk_next C = Some d" for d
    using chain_next_ex [OF inv c that] b C chain_size [OF inv b] chain_size [OF inv c] by force
  ultimately show ?thesis
    using b c C p
    by (cases "blk_next C") (auto simp: merge_links_def Let_def absorb_next_def intro!: ext)
qed

lemma merge_links_prev:
  assumes inv: "chain_inv R h" and b: "h b = Some B" and c: "h c = Some C" and n: "blk_prev B = Some c"
  shows "\<exists>h'. merge_links h b c = Inr h' \<and> h' c = h c \<and> h'(c := None) = absorb_prev h b B c C"
proof -
  have C: "blk_next C = Some b" "b \<noteq> c" "blk_ptr B = blk_end C" using chain_prev_ex [OF inv b n] c by auto
  have "u64 (blk_size B + blk_size C) = blk_size B + blk_size C"
    using C chain_ptr [OF inv b] chain_ptr [OF inv c] chain_size [OF inv b] chain_size [OF inv c] by simp
  moreover have "\<exists>D. h d = Some D \<and> d \<noteq> b \<and> d \<noteq> c" if "blk_prev C = Some d" for d
    using chain_prev_ex [OF inv c that] b C chain_size [OF inv b] chain_size [OF inv c] by force
  ultimately show ?thesis
    using b c C n
    by (cases "blk_prev C") (auto simp: merge_links_def Let_def absorb_prev_def intro!: ext)
qed

end
