(* ===== verification/Block_Pool.thy ===== *)
theory Block_Pool
  imports Block_Chains "HOL-Library.AList"
begin

text \<open>
  A pool: a heap of blocks together with the bins that hold the free ones. The invariant \<open>pool_inv\<close> says that
  the free blocks are exactly the entries of the bins, each in the bin it belongs to, that free neighbours have been
  merged, and that every region is covered; the blocks in \<open>E\<close> are exempt while an operation works on them.
  The locale \<open>block_pool\<close> is the contract of \<open>CanMerge\<close> under which freeing a block keeps the invariant; both
  allocators meet it.
\<close>

section \<open>Invariant\<close>

definition core :: "Block \<Rightarrow> int \<times> int \<times> nat option \<times> bool" where
  "core B = (blk_size B, blk_ptr B, blk_bin B, blk_allocated B)"

definition bins_inv :: "(nat \<Rightarrow> nat option) \<Rightarrow> nat \<Rightarrow> nat set \<Rightarrow> heap \<Rightarrow> nat list option list \<Rightarrow> bool" where
  "bins_inv tag n E h bins \<longleftrightarrow> length bins = n \<and>
     (\<forall>i xs. i < n \<longrightarrow> bins ! i = Some xs \<longrightarrow> bin_sorted h xs \<and>
        (\<forall>b\<in>set xs. b \<notin> E \<and> (\<forall>B. h b = Some B \<longrightarrow> blk_bin B = tag i \<and> \<not> blk_allocated B))) \<and>
     (\<forall>b B. h b = Some B \<longrightarrow> (\<exists>i xs. i < n \<and> blk_bin B = tag i \<and> bins ! i = Some xs \<and>
        (\<not> blk_allocated B \<longrightarrow> b \<notin> E \<longrightarrow> b \<in> set xs)))"

definition coalesced :: "nat set \<Rightarrow> heap \<Rightarrow> bool" where
  "coalesced E h \<longleftrightarrow> (\<forall>b B c C. h b = Some B \<longrightarrow> blk_next B = Some c \<longrightarrow> h c = Some C \<longrightarrow> b \<notin> E \<longrightarrow> c \<notin> E \<longrightarrow>
     blk_allocated B \<or> blk_allocated C)"

definition covered :: "(int \<times> int) set \<Rightarrow> heap \<Rightarrow> bool" where
  "covered R h \<longleftrightarrow> (\<forall>a n. (a, n) \<in> R \<longrightarrow> (\<exists>b B. h b = Some B \<and> blk_ptr B = a))"

definition pool_inv ::
  "(nat \<Rightarrow> nat option) \<Rightarrow> nat \<Rightarrow> int \<Rightarrow> nat set \<Rightarrow> (int \<times> int) set \<Rightarrow> heap \<Rightarrow> nat list option list \<Rightarrow> bool" where
  "pool_inv tag n u E R h bins \<longleftrightarrow> chain_inv R h \<and> bins_inv tag n E h bins \<and> coalesced E h \<and> covered R h \<and>
     (\<forall>b B. h b = Some B \<longrightarrow> u dvd blk_size B)"

text \<open>The allocated blocks: identity, address and size.\<close>

definition allocs :: "heap \<Rightarrow> (nat \<times> int \<times> int) set" where
  "allocs h = {(b, blk_ptr B, blk_size B) | b B. h b = Some B \<and> blk_allocated B}"

lemma in_allocs: "(b, p, s) \<in> allocs h \<longleftrightarrow> (\<exists>B. h b = Some B \<and> blk_allocated B \<and> blk_ptr B = p \<and> blk_size B = s)"
  by (auto simp: allocs_def)

lemma allocs_upd:
  "allocs (h(b \<mapsto> B)) = {e \<in> allocs h. fst e \<noteq> b} \<union> (if blk_allocated B then {(b, blk_ptr B, blk_size B)} else {})"
  by (rule set_eqI) (auto simp: in_allocs split_paired_all)

lemma allocs_but: "h b = Some B \<Longrightarrow> {e \<in> allocs h. fst e \<noteq> b} = allocs h - {(b, blk_ptr B, blk_size B)}"
  by (rule set_eqI) (auto simp: in_allocs split_paired_all)

lemma core_sel:
  "core X = core Y \<longleftrightarrow> blk_size X = blk_size Y \<and> blk_ptr X = blk_ptr Y \<and> blk_bin X = blk_bin Y \<and> blk_allocated X = blk_allocated Y"
  by (simp add: core_def)

lemma core_Some:
  assumes "map_option core (h' x) = map_option core (h x)"
  shows "h x = Some X \<Longrightarrow> \<exists>Y. h' x = Some Y \<and> core Y = core X" "h' x = Some X \<Longrightarrow> \<exists>Y. h x = Some Y \<and> core Y = core X"
  using assms by (auto simp: map_option_eq_Some dest: sym)

lemma bins_invD:
  assumes "bins_inv tag n E h bins" "i < n" "bins ! i = Some xs"
  shows "bin_sorted h xs" "\<And>b. b \<in> set xs \<Longrightarrow> b \<notin> E" "\<And>b B. b \<in> set xs \<Longrightarrow> h b = Some B \<Longrightarrow> blk_bin B = tag i \<and> \<not> blk_allocated B"
  using assms unfolding bins_inv_def by blast+

lemma bins_invE:
  assumes "bins_inv tag n E h bins" "h b = Some B"
  obtains i xs where "i < n" "blk_bin B = tag i" "bins ! i = Some xs" "\<not> blk_allocated B \<longrightarrow> b \<notin> E \<longrightarrow> b \<in> set xs"
  using assms unfolding bins_inv_def by blast

text \<open>\<open>used h link\<close>: the neighbour \<open>link\<close>, if there is one, is allocated.\<close>

definition used :: "heap \<Rightarrow> nat option \<Rightarrow> bool" where
  "used h link \<longleftrightarrow> (\<forall>c. link = Some c \<longrightarrow> (\<exists>C. h c = Some C \<and> blk_allocated C))"

section \<open>The table of allocated blocks\<close>

text \<open>
  \<open>allocated_blocks_\<close>, from addresses to blocks, holds exactly the allocated blocks of the heap. \<open>table_size\<close> is what
  a client knows of it: the sizes of the addresses it has been given.
\<close>

lemma allocs_ptr_unique:
  assumes "chain_inv R h" "(b, p, s) \<in> allocs h" "(c, p, t) \<in> allocs h"
  shows "b = c \<and> s = t"
proof -
  obtain B C where B: "h b = Some B" "blk_ptr B = p" "blk_size B = s" and C: "h c = Some C" "blk_ptr C = p" "blk_size C = t"
    using assms(2,3) unfolding in_allocs by blast
  moreover have "b = c" using chain_ptr_inj [OF assms(1) B(1) C(1)] B C by simp
  ultimately show ?thesis by simp
qed

lemma allocs_disjoint:
  assumes "chain_inv R h" "(b, p, s) \<in> allocs h" "(c, q, t) \<in> allocs h" "p \<noteq> q"
  shows "p + s \<le> q \<or> q + t \<le> p"
proof -
  obtain B C where B: "h b = Some B" "blk_ptr B = p" "blk_size B = s" and C: "h c = Some C" "blk_ptr C = q" "blk_size C = t"
    using assms(2,3) unfolding in_allocs by blast
  moreover have "b \<noteq> c" using B C assms(4) by auto
  ultimately show ?thesis using chain_apart [OF assms(1) B(1) C(1)] by blast
qed

definition table_inv :: "(int \<times> nat) list \<Rightarrow> heap \<Rightarrow> bool" where
  "table_inv tbl h \<longleftrightarrow> distinct (map fst tbl) \<and> (\<forall>p b. map_of tbl p = Some b \<longleftrightarrow> (\<exists>s. (b, p, s) \<in> allocs h))"

lemma table_inv_delete:
  assumes "chain_inv R h" "table_inv tbl h" "(b, p, s) \<in> allocs h" "allocs h' = allocs h - {(b, p, s)}"
  shows "table_inv (AList.delete p tbl) h'"
proof -
  have "map_of (AList.delete p tbl) q = Some c \<longleftrightarrow> (\<exists>t. (c, q, t) \<in> allocs h - {(b, p, s)})" for q c
  proof (cases "q = p")
    case True
    have "(c, p, t) \<notin> allocs h - {(b, p, s)}" for t using allocs_ptr_unique [OF assms(1,3), of c t] by blast
    with True show ?thesis by (simp add: delete_conv')
  next
    case False
    then show ?thesis using assms(2) by (simp add: delete_conv' table_inv_def)
  qed
  then show ?thesis using assms(2,4) distinct_delete by (auto simp: table_inv_def)
qed

lemma table_inv_update:
  assumes "chain_inv R h'" "table_inv tbl h" "allocs h' = insert (b, p, s) (allocs h)"
  shows "table_inv (AList.update p b tbl) h'"
proof -
  have u: "c = b" if "(c, p, t) \<in> allocs h" for c t
    using allocs_ptr_unique [OF assms(1), of b p s c t] that assms(3) by auto
  have "map_of (AList.update p b tbl) q = Some c \<longleftrightarrow> (\<exists>t. (c, q, t) \<in> insert (b, p, s) (allocs h))" for q c
    by (cases "q = p") (use u assms(2) in \<open>simp_all add: update_conv' table_inv_def, blast\<close>)
  then show ?thesis using assms(2,3) distinct_update by (auto simp: table_inv_def)
qed

definition table_size :: "(int \<times> nat) list \<Rightarrow> heap \<Rightarrow> int \<Rightarrow> int option" where
  "table_size tbl h p = (case map_of tbl p of None \<Rightarrow> None | Some b \<Rightarrow> map_option blk_size (h b))"

lemma table_size_iff:
  assumes "table_inv tbl h"
  shows "table_size tbl h p = Some s \<longleftrightarrow> (\<exists>b. (b, p, s) \<in> allocs h)"
proof
  assume "table_size tbl h p = Some s"
  then obtain b B where "map_of tbl p = Some b" "h b = Some B" "blk_size B = s"
    by (auto simp: table_size_def split: option.splits)
  then show "\<exists>b. (b, p, s) \<in> allocs h" using assms by (fastforce simp: table_inv_def in_allocs)
next
  assume "\<exists>b. (b, p, s) \<in> allocs h"
  then obtain b where b: "(b, p, s) \<in> allocs h" ..
  then have "map_of tbl p = Some b" using assms by (auto simp: table_inv_def)
  with b show "table_size tbl h p = Some s" by (auto simp: table_size_def in_allocs)
qed

lemma option_eqI: "(\<And>s. x = Some s \<longleftrightarrow> y = Some s) \<Longrightarrow> x = y"
  by (cases x; cases y) auto

lemma table_size_same:
  assumes "table_inv tbl h" "table_inv tbl' h'" "allocs h' = allocs h"
  shows "table_size tbl' h' = table_size tbl h"
  by (intro ext option_eqI) (simp add: table_size_iff [OF assms(1)] table_size_iff [OF assms(2)] assms(3))

lemma table_size_insert:
  assumes "table_inv tbl h" "table_inv tbl' h'" "allocs h' = insert (b, p, s) (allocs h)"
  shows "table_size tbl' h' = (table_size tbl h)(p \<mapsto> s)"
proof (rule ext)
  fix q
  have "table_size tbl' h' p = Some s" using assms(3) by (auto simp: table_size_iff [OF assms(2)])
  moreover have "table_size tbl' h' q = table_size tbl h q" if "q \<noteq> p"
    using assms(3) that by (intro option_eqI) (auto simp: table_size_iff [OF assms(1)] table_size_iff [OF assms(2)])
  ultimately show "table_size tbl' h' q = ((table_size tbl h)(p \<mapsto> s)) q" by simp
qed

lemma table_size_delete:
  assumes "chain_inv R h" "table_inv tbl h" "table_inv tbl' h'" "(b, p, s) \<in> allocs h" "allocs h' = allocs h - {(b, p, s)}"
  shows "table_size tbl' h' = (table_size tbl h)(p := None)"
proof (rule ext)
  fix q
  have "table_size tbl' h' p \<noteq> Some t" for t
    using allocs_ptr_unique [OF assms(1,4), of _ t] assms(5) by (auto simp: table_size_iff [OF assms(3)])
  then have "table_size tbl' h' p = None" by blast
  moreover have "table_size tbl' h' q = table_size tbl h q" if "q \<noteq> p"
    using assms(5) that by (intro option_eqI) (auto simp: table_size_iff [OF assms(2)] table_size_iff [OF assms(3)])
  ultimately show "table_size tbl' h' q = ((table_size tbl h)(p := None)) q" by simp
qed

section \<open>The contract of CanMerge, and freeing a block\<close>

lemma bin_sorted_remove1: "bin_sorted h xs \<Longrightarrow> bin_sorted h (remove1 b xs)"
  by (induction xs) (auto simp: bin_sorted_Cons dest: set_remove1_subset [THEN subsetD])

locale block_pool =
  fixes tag :: "nat \<Rightarrow> nat option" and n :: nat and u :: int
    and can_merge :: "heap \<Rightarrow> nat option \<Rightarrow> bool res"
  assumes tag_inj: "i < n \<Longrightarrow> j < n \<Longrightarrow> tag i = tag j \<Longrightarrow> i = j"
    and can_merge_null: "can_merge h None = Inr False"
    and can_merge_block: "h b = Some B \<Longrightarrow> \<exists>c. can_merge h (Some b) = Inr c"
    and can_merge_split: "h b = Some B \<Longrightarrow> IsSplit B \<Longrightarrow> can_merge h (Some b) = Inr (\<not> blk_allocated B)"
begin

abbreviation pool where "pool \<equiv> pool_inv tag n u"

text \<open>The bins after the neighbour \<open>s\<close> of \<open>b\<close> has been absorbed and erased from its bin.\<close>

lemma bins_absorbed:
  assumes inv: "bins_inv tag n {b} h bins" and i: "i < n" "bins ! i = Some xs" and ys: "set ys = set xs - {s}" "bin_sorted h' ys"
    and h': "h' s = None" "h' b = Some B'" "blk_bin B' = tag i"
    and same: "\<And>x. x \<noteq> b \<Longrightarrow> x \<noteq> s \<Longrightarrow> map_option core (h' x) = map_option core (h x)"
    and sb: "\<And>j zs. j < n \<Longrightarrow> j \<noteq> i \<Longrightarrow> bins ! j = Some zs \<Longrightarrow> s \<notin> set zs"
  shows "bins_inv tag n {b} h' (bins[i := Some ys])"
proof -
  have fwd: "\<exists>Y. h' x = Some Y \<and> core Y = core X" if "x \<noteq> b" "x \<noteq> s" "h x = Some X" for x X
    by (rule core_Some(1) [where h' = h' and h = h, OF same [OF that(1,2)] that(3)])
  have bwd: "\<exists>Y. h x = Some Y \<and> core Y = core X" if "x \<noteq> b" "x \<noteq> s" "h' x = Some X" for x X
    by (rule core_Some(2) [where h' = h' and h = h, OF same [OF that(1,2)] that(3)])
  show ?thesis
    unfolding bins_inv_def
  proof (intro conjI allI impI)
  show len: "length (bins[i := Some ys]) = n" using inv by (simp add: bins_inv_def)
  have l: "length bins = n" using inv by (simp add: bins_inv_def)
  fix j zs assume j: "j < n" "bins[i := Some ys] ! j = Some zs"
  have old: "\<exists>us. bins ! j = Some us \<and> set zs \<subseteq> set us \<and> (j \<noteq> i \<longrightarrow> zs = us) \<and> s \<notin> set zs"
  proof (cases "j = i")
    case True
    then show ?thesis using j l i ys(1) by auto
  next
    case False
    then have "bins ! j = Some zs" using j by simp
    with sb [OF j(1) False this] show ?thesis by blast
  qed
  then obtain us where us: "bins ! j = Some us" "set zs \<subseteq> set us" "j \<noteq> i \<Longrightarrow> zs = us" "s \<notin> set zs" by blast
  note d = bins_invD [OF inv j(1) us(1)]
  have nb: "x \<noteq> b" "x \<noteq> s" if "x \<in> set zs" for x using that us d by auto
  show "bin_sorted h' zs"
  proof (cases "j = i")
    case True
    then show ?thesis using j l ys(2) by simp
  next
    case False
    have "bin_sorted h zs" using d(1) us(3) False by simp
    then show ?thesis
    proof (rule bin_sorted_cong)
      fix x X assume "x \<in> set zs" "h x = Some X"
      then show "\<exists>Y. h' x = Some Y \<and> block_key Y = block_key X"
        using fwd [of x X] nb [of x] by (auto simp: core_sel block_key_def)
    qed
  qed
  show "\<forall>x\<in>set zs. x \<notin> {b} \<and> (\<forall>B. h' x = Some B \<longrightarrow> blk_bin B = tag j \<and> \<not> blk_allocated B)"
  proof (intro ballI conjI allI impI)
    fix x B assume x: "x \<in> set zs" "h' x = Some B"
    obtain Y where "h x = Some Y" "core Y = core B" using bwd [OF nb [OF x(1)] x(2)] by blast
    moreover have "x \<in> set us" using x us by auto
    ultimately show "blk_bin B = tag j" "\<not> blk_allocated B" using d(3) [of x Y] by (auto simp: core_sel)
  qed (use nb in auto)
next
  have l: "length bins = n" using inv by (simp add: bins_inv_def)
  fix x X assume x: "h' x = Some X"
  show "\<exists>j zs. j < n \<and> blk_bin X = tag j \<and> bins[i := Some ys] ! j = Some zs \<and> (\<not> blk_allocated X \<longrightarrow> x \<notin> {b} \<longrightarrow> x \<in> set zs)"
  proof (cases "x = b")
    case True
    then show ?thesis using x h' i l by (intro exI [of _ i]) auto
  next
    case False
    moreover have "x \<noteq> s" using x h' by auto
    ultimately obtain Y where Y: "h x = Some Y" "core Y = core X" using bwd [OF _ _ x] by blast
    from inv Y(1) obtain j zs where j: "j < n" "blk_bin Y = tag j" "bins ! j = Some zs" "\<not> blk_allocated Y \<longrightarrow> x \<notin> {b} \<longrightarrow> x \<in> set zs"
      by (rule bins_invE)
    have "\<exists>us. bins[i := Some ys] ! j = Some us \<and> set zs - {s} \<subseteq> set us"
      using j(3) i l ys(1) by (cases "j = i") auto
    then obtain us where us: "bins[i := Some ys] ! j = Some us" "set zs - {s} \<subseteq> set us" by blast
    show ?thesis
      using us j Y(2) False \<open>x \<noteq> s\<close> by (intro exI [of _ j] exI [of _ us]) (auto simp: core_sel)
  qed
  qed
qed

lemma merge_absorb:
  assumes inv: "pool {b} R h bins" and b: "h b = Some B" "\<not> blk_allocated B" "IsSplit B"
    and i: "i < n" "blk_bin B = tag i" "bins ! i = Some xs"
    and s: "h s = Some S" "\<not> blk_allocated S" "IsSplit S" "s \<noteq> b" "blk_bin S = blk_bin B"
    and ml: "merge_links h b s = Inr h1" "h1 s = h s" "h1(s := None) = h2"
    and ch: "chain_inv R h2" "coalesced {b} h2" "covered R h2"
    and same: "\<And>x. x \<noteq> b \<Longrightarrow> x \<noteq> s \<Longrightarrow> map_option core (h2 x) = map_option core (h x)"
    and B': "h2 b = Some B'" "blk_bin B' = blk_bin B" "\<not> blk_allocated B'" "blk_size B' = blk_size B + blk_size S"
  shows "\<exists>ys. merge_blocks can_merge h xs b (Some s) = Inr (h2, ys) \<and> pool {b} R h2 (bins[i := Some ys]) \<and> allocs h2 = allocs h"
proof -
  have bi: "bins_inv tag n {b} h bins" and u: "\<And>x X. h x = Some X \<Longrightarrow> u dvd blk_size X"
    using inv by (auto simp: pool_inv_def)
  note d = bins_invD [OF bi i(1,3)]
  have in_xs: "s \<in> set xs"
  proof -
    obtain j zs where j: "j < n" "blk_bin S = tag j" "bins ! j = Some zs" "\<not> blk_allocated S \<longrightarrow> s \<notin> {b} \<longrightarrow> s \<in> set zs"
      using bi s(1) by (rule bins_invE)
    have "tag j = tag i" using j(2) i(2) s(5) by simp
    then have "j = i" by (rule tag_inj [OF j(1) i(1)])
    with j s i show ?thesis by simp
  qed
  have only: "s \<notin> set zs" if "j < n" "j \<noteq> i" "bins ! j = Some zs" for j zs
  proof
    assume "s \<in> set zs"
    then have "tag j = tag i" using bins_invD(3) [OF bi that(1,3) _ s(1)] i(2) s(5) by simp
    then show False using tag_inj [OF that(1) i(1)] that(2) by simp
  qed
  have bwd: "\<exists>Y. h x = Some Y \<and> core Y = core X" if "x \<noteq> b" "x \<noteq> s" "h2 x = Some X" for x X
    by (rule core_Some(2) [where h' = h2 and h = h, OF same [OF that(1,2)] that(3)])
  have fwd: "\<exists>Y. h2 x = Some Y \<and> core Y = core X" if "x \<noteq> b" "x \<noteq> s" "h x = Some X" for x X
    by (rule core_Some(1) [where h' = h2 and h = h, OF same [OF that(1,2)] that(3)])
  have key1: "\<exists>Y. h1 x = Some Y \<and> block_key Y = block_key X" if "x \<in> set xs" "h x = Some X" for x X
  proof (cases "x = s")
    case False
    have "h2 x = h1 x" using False ml(3) by auto
    then show ?thesis using fwd [of x X] d(2) [OF that(1)] that False by (auto simp: core_sel block_key_def)
  qed (use ml that in simp)
  have "bin_sorted h1 xs" using d(1) key1 by (rule bin_sorted_cong)
  then obtain ys where ys: "bin_erase h1 s xs = Inr ys" "set ys = set xs - {s}" "bin_sorted h1 ys"
    using in_xs by (rule bin_erase_ok)
  have "bin_sorted h2 ys" by (rule bin_sorted_cong [OF ys(3)]) (use ys(2) ml(3) in auto)
  moreover have "h2 s = None" using ml(3) by auto
  ultimately have "bins_inv tag n {b} h2 (bins[i := Some ys])"
    using B' i by (intro bins_absorbed [OF bi i(1,3) ys(2) _ _ _ _ same only]) auto
  moreover have "u dvd blk_size X" if hx: "h2 x = Some X" for x X
  proof (cases "x = b")
    case True
    then show ?thesis using hx B' u [OF b(1)] u [OF s(1)] by simp
  next
    case False
    moreover have "x \<noteq> s" using hx \<open>h2 s = None\<close> by auto
    ultimately obtain Y where "h x = Some Y" "core Y = core X" using bwd [OF _ _ hx] by blast
    then show ?thesis using u [of x Y] by (simp add: core_sel)
  qed
  ultimately have "pool {b} R h2 (bins[i := Some ys])" using ch by (auto simp: pool_inv_def)
  moreover have "allocs h2 = allocs h"
  proof (intro set_eqI)
    fix e :: "nat \<times> int \<times> int"
    obtain x p q where e: "e = (x, p, q)" by (cases e)
    consider "x = b" | "x = s" | "x \<noteq> b" "x \<noteq> s" by blast
    then show "e \<in> allocs h2 \<longleftrightarrow> e \<in> allocs h"
      by cases (use b s B' \<open>h2 s = None\<close> fwd [of x] bwd [of x] in \<open>auto simp: e in_allocs core_sel\<close>)
  qed
  moreover have "merge_blocks can_merge h xs b (Some s) = Inr (h2, ys)"
    using can_merge_split [of h b B] can_merge_split [of h s S] b s ml ys by (simp add: merge_blocks_def)
  ultimately show ?thesis by blast
qed

lemma absorb_core:
  assumes "x \<noteq> b" "x \<noteq> c"
  shows "map_option core (absorb_next h b B c C x) = map_option core (h x)"
    "map_option core (absorb_prev h b B c C x) = map_option core (h x)"
  using assms by (cases "h x"; simp add: absorb_next_def absorb_prev_def core_def)+

lemma used_allocs: "allocs h' = allocs h \<Longrightarrow> used h' link = used h link"
  unfolding used_def by (metis in_allocs)

lemma merge_none:
  assumes "h b = Some B"
  shows "merge_blocks can_merge h xs b None = Inr (h, xs)"
  using can_merge_block [of h b B] assms by (auto simp: merge_blocks_def can_merge_null)

lemma merge_used:
  assumes "h b = Some B" "h s = Some S" "IsSplit S" "blk_allocated S"
  shows "merge_blocks can_merge h xs b (Some s) = Inr (h, xs)"
  using can_merge_block [of h b B] can_merge_split [of h s S] assms by (auto simp: merge_blocks_def)

lemma merge_prev_ok:
  assumes inv: "pool {b} R h bins" and b: "h b = Some B" "\<not> blk_allocated B"
    and i: "i < n" "blk_bin B = tag i" "bins ! i = Some xs"
  obtains h' ys B' where "merge_blocks can_merge h xs b (blk_prev B) = Inr (h', ys)" "pool {b} R h' (bins[i := Some ys])"
    "allocs h' = allocs h" "h' b = Some B'" "\<not> blk_allocated B'" "blk_bin B' = tag i" "blk_next B' = blk_next B"
    "used h' (blk_prev B')" "dom h' \<subseteq> dom h"
proof (cases "used h (blk_prev B)")
  case True
  have "merge_blocks can_merge h xs b (blk_prev B) = Inr (h, xs)"
  proof (cases "blk_prev B")
    case (Some s)
    have ch: "chain_inv R h" using inv by (simp add: pool_inv_def)
    from True Some obtain S where S: "h s = Some S" "blk_allocated S" by (auto simp: used_def)
    moreover have "IsSplit S" using chain_prev_ex [OF ch b(1) Some] S by (auto simp: IsSplit_def)
    ultimately show ?thesis using merge_used [of h b B s S xs] b Some by simp
  qed (use b in \<open>simp add: merge_none\<close>)
  moreover have "bins[i := Some xs] = bins" using i(3) by (metis list_update_id)
  ultimately show thesis using that [of h xs B] inv b i True by simp
next
  case False
  have ch: "chain_inv R h" "coalesced {b} h" "covered R h" using inv by (auto simp: pool_inv_def)
  from False obtain s where p: "blk_prev B = Some s" by (auto simp: used_def)
  with chain_prev_ex [OF ch(1) b(1) p] obtain S where S: "h s = Some S" "blk_next S = Some b" "blk_ptr B = blk_end S"
    "blk_bin S = blk_bin B" "s \<noteq> b" by auto
  then have fs: "\<not> blk_allocated S" using False p by (auto simp: used_def)
  let ?B = "B\<lparr>blk_ptr := blk_ptr S, blk_prev := blk_prev S, blk_size := blk_size B + blk_size S\<rparr>"
  let ?h = "absorb_prev h b B s S"
  obtain h1 where h1: "merge_links h b s = Inr h1" "h1 s = h s" "h1(s := None) = ?h"
    using merge_links_prev [OF ch(1) b(1) S(1) p] by blast
  have hb: "?h b = Some ?B" using S by (simp add: absorb_prev_def)
  have sp: "IsSplit B" "IsSplit S" using p S by (auto simp: IsSplit_def)
  have co: "coalesced {b} ?h"
    unfolding coalesced_def
  proof (intro allI impI)
    fix x X c C assume x: "?h x = Some X" "blk_next X = Some c" "?h c = Some C" "x \<notin> {b}" "c \<notin> {b}"
    then have "x \<noteq> b" "c \<noteq> b" "x \<noteq> s" "c \<noteq> s" by (auto simp: absorb_prev_def)
    then obtain X0 C0 where o: "h x = Some X0" "core X0 = core X" "h c = Some C0" "core C0 = core C" "blk_next X0 = Some c"
      using x by (auto simp: absorb_prev_def core_def split: if_splits)
    then show "blk_allocated X \<or> blk_allocated C" using ch(2) x(4,5) by (fastforce simp: coalesced_def core_sel)
  qed
  have cov: "covered R ?h"
    unfolding covered_def
  proof (intro allI impI)
    fix a m assume "(a, m) \<in> R"
    then obtain x X where x: "h x = Some X" "blk_ptr X = a" using ch(3) by (auto simp: covered_def)
    consider "x = s" | "x = b" | "x \<noteq> s" "x \<noteq> b" by blast
    then show "\<exists>x X. ?h x = Some X \<and> blk_ptr X = a"
    proof cases
      case 1 then show ?thesis using hb x S by (intro exI [of _ b]) auto
    next
      case 2
      obtain a' m' where r: "(a', m') \<in> R" "a' \<le> blk_ptr S" "blk_end S < a' + m'"
        using ch(1) S(1) b(1) S(2) by (rule chain_same_region)
      then have "a = a'"
        using region_unique [OF chain_regions [OF ch(1)] \<open>(a, m) \<in> R\<close> r(1), of "blk_ptr B"] x b 2 S(3)
          regions_pos [OF chain_regions [OF ch(1)] \<open>(a, m) \<in> R\<close>] chain_size [OF ch(1) S(1)] by auto
      with r x b 2 S chain_size [OF ch(1) S(1)] show ?thesis by auto
    next
      case 3
      then show ?thesis using x by (intro exI [of _ x]) (auto simp: absorb_prev_def)
    qed
  qed
  have "\<exists>ys. merge_blocks can_merge h xs b (Some s) = Inr (?h, ys) \<and> pool {b} R ?h (bins[i := Some ys]) \<and> allocs ?h = allocs h"
    by (rule merge_absorb [OF inv b sp(1) i S(1) fs sp(2) S(5) S(4) h1 absorb_prev_inv [OF ch(1) b(1) S(1) p] co cov _ hb])
      (use b in \<open>auto simp: absorb_core\<close>)
  then obtain ys where ys: "merge_blocks can_merge h xs b (Some s) = Inr (?h, ys)" "pool {b} R ?h (bins[i := Some ys])" "allocs ?h = allocs h"
    by blast
  have "used h (blk_prev S)"
    unfolding used_def
  proof (intro allI impI)
    fix c assume c: "blk_prev S = Some c"
    from chain_prev_ex [OF ch(1) S(1) c] obtain C where C: "h c = Some C" "blk_next C = Some s" "blk_ptr S = blk_end C" by auto
    have "c \<noteq> b"
      using C S b chain_size [OF ch(1) S(1)] chain_size [OF ch(1) b(1)] by auto
    then show "\<exists>C. h c = Some C \<and> blk_allocated C" using ch(2) C S fs by (auto simp: coalesced_def)
  qed
  moreover have "dom ?h \<subseteq> dom h" by (auto simp: absorb_prev_def b(1) split: if_splits)
  ultimately show thesis
    using that [of ?h ys ?B] ys hb p b i used_allocs [OF ys(3)] by simp
qed

lemma merge_next_ok:
  assumes inv: "pool {b} R h bins" and b: "h b = Some B" "\<not> blk_allocated B" "used h (blk_prev B)"
    and i: "i < n" "blk_bin B = tag i" "bins ! i = Some xs"
  obtains h' ys B' where "merge_blocks can_merge h xs b (blk_next B) = Inr (h', ys)" "pool {b} R h' (bins[i := Some ys])"
    "allocs h' = allocs h" "h' b = Some B'" "\<not> blk_allocated B'" "blk_bin B' = tag i"
    "used h' (blk_prev B')" "used h' (blk_next B')" "dom h' \<subseteq> dom h"
proof (cases "used h (blk_next B)")
  case True
  have "merge_blocks can_merge h xs b (blk_next B) = Inr (h, xs)"
  proof (cases "blk_next B")
    case (Some s)
    have ch: "chain_inv R h" using inv by (simp add: pool_inv_def)
    from True Some obtain S where S: "h s = Some S" "blk_allocated S" by (auto simp: used_def)
    moreover have "IsSplit S" using chain_next_ex [OF ch b(1) Some] S by (auto simp: IsSplit_def)
    ultimately show ?thesis using merge_used [of h b B s S xs] b Some by simp
  qed (use b in \<open>simp add: merge_none\<close>)
  moreover have "bins[i := Some xs] = bins" using i(3) by (metis list_update_id)
  ultimately show thesis using that [of h xs B] inv b i True by simp
next
  case False
  have ch: "chain_inv R h" "coalesced {b} h" "covered R h" using inv by (auto simp: pool_inv_def)
  from False obtain s where p: "blk_next B = Some s" by (auto simp: used_def)
  with chain_next_ex [OF ch(1) b(1) p] obtain S where S: "h s = Some S" "blk_prev S = Some b" "blk_ptr S = blk_end B"
    "blk_bin S = blk_bin B" "s \<noteq> b" by auto
  then have fs: "\<not> blk_allocated S" using False p by (auto simp: used_def)
  let ?B = "B\<lparr>blk_next := blk_next S, blk_size := blk_size B + blk_size S\<rparr>"
  let ?h = "absorb_next h b B s S"
  obtain h1 where h1: "merge_links h b s = Inr h1" "h1 s = h s" "h1(s := None) = ?h"
    using merge_links_next [OF ch(1) b(1) S(1) p] by blast
  have hb: "?h b = Some ?B" using S by (simp add: absorb_next_def)
  have sp: "IsSplit B" "IsSplit S" using p S by (auto simp: IsSplit_def)
  have co: "coalesced {b} ?h"
    unfolding coalesced_def
  proof (intro allI impI)
    fix x X c C assume x: "?h x = Some X" "blk_next X = Some c" "?h c = Some C" "x \<notin> {b}" "c \<notin> {b}"
    then have "x \<noteq> b" "c \<noteq> b" "x \<noteq> s" "c \<noteq> s" by (auto simp: absorb_next_def)
    then obtain X0 C0 where o: "h x = Some X0" "core X0 = core X" "h c = Some C0" "core C0 = core C" "blk_next X0 = Some c"
      using x by (auto simp: absorb_next_def core_def split: if_splits)
    then show "blk_allocated X \<or> blk_allocated C" using ch(2) x(4,5) by (fastforce simp: coalesced_def core_sel)
  qed
  have cov: "covered R ?h"
    unfolding covered_def
  proof (intro allI impI)
    fix a m assume am: "(a, m) \<in> R"
    then obtain x X where x: "h x = Some X" "blk_ptr X = a" using ch(3) by (auto simp: covered_def)
    have "x \<noteq> s"
    proof
      assume "x = s"
      obtain a' m' where r: "(a', m') \<in> R" "a' \<le> blk_ptr B" "blk_end B < a' + m'"
        using ch(1) b(1) S(1) p by (rule chain_same_region)
      then have "a = a'"
        using region_unique [OF chain_regions [OF ch(1)] am r(1), of "blk_ptr S"] x S \<open>x = s\<close>
          regions_pos [OF chain_regions [OF ch(1)] am] chain_size [OF ch(1) b(1)] by auto
      with r x S \<open>x = s\<close> chain_size [OF ch(1) b(1)] show False by auto
    qed
    then show "\<exists>x X. ?h x = Some X \<and> blk_ptr X = a"
      using x b by (intro exI [of _ x]) (auto simp: absorb_next_def)
  qed
  have "\<exists>ys. merge_blocks can_merge h xs b (Some s) = Inr (?h, ys) \<and> pool {b} R ?h (bins[i := Some ys]) \<and> allocs ?h = allocs h"
    by (rule merge_absorb [OF inv b(1,2) sp(1) i S(1) fs sp(2) S(5) S(4) h1 absorb_next_inv [OF ch(1) b(1) S(1) p] co cov _ hb])
      (use b in \<open>auto simp: absorb_core\<close>)
  then obtain ys where ys: "merge_blocks can_merge h xs b (Some s) = Inr (?h, ys)" "pool {b} R ?h (bins[i := Some ys])" "allocs ?h = allocs h"
    by blast
  have "used h (blk_next S)"
    unfolding used_def
  proof (intro allI impI)
    fix c assume c: "blk_next S = Some c"
    from chain_next_ex [OF ch(1) S(1) c] obtain C where C: "h c = Some C" "blk_ptr C = blk_end S" by auto
    have "c \<noteq> b" using C S b chain_size [OF ch(1) S(1)] chain_size [OF ch(1) b(1)] by auto
    then show "\<exists>C. h c = Some C \<and> blk_allocated C" using ch(2) C S fs c by (auto simp: coalesced_def)
  qed
  moreover have "dom ?h \<subseteq> dom h" by (auto simp: absorb_next_def b(1) split: if_splits)
  ultimately show thesis
    using that [of ?h ys ?B] ys hb p b i used_allocs [OF ys(3)] by simp
qed

lemma poolD:
  assumes "pool E R h bins"
  shows "chain_inv R h" "bins_inv tag n E h bins" "coalesced E h" "covered R h" "\<And>b B. h b = Some B \<Longrightarrow> u dvd blk_size B"
  using assms by (auto simp: pool_inv_def)

text \<open>Clearing the flag of an allocated block exempts it; setting the flag ends the exemption.\<close>

lemma covered_upd: "covered R h \<Longrightarrow> h b = Some B \<Longrightarrow> blk_ptr B' = blk_ptr B \<Longrightarrow> covered R (h(b \<mapsto> B'))"
  unfolding covered_def by (metis fun_upd_apply option.inject)

lemma clear_flag:
  assumes inv: "pool {} R h bins" and b: "h b = Some B" "blk_allocated B"
  shows "pool {b} R (h(b \<mapsto> B\<lparr>blk_allocated := False\<rparr>)) bins"
proof -
  note p = poolD [OF inv]
  let ?h = "h(b \<mapsto> B\<lparr>blk_allocated := False\<rparr>)"
  have "bins_inv tag n {b} ?h bins"
    unfolding bins_inv_def
  proof (intro conjI allI impI)
    fix i xs assume i: "i < n" "bins ! i = Some xs"
    note d = bins_invD [OF p(2) i]
    have nb: "b \<notin> set xs" using d(3) b by auto
    show "bin_sorted ?h xs" by (rule bin_sorted_cong [OF d(1)]) (use nb in auto)
    show "\<forall>x\<in>set xs. x \<notin> {b} \<and> (\<forall>B. ?h x = Some B \<longrightarrow> blk_bin B = tag i \<and> \<not> blk_allocated B)"
      using d(3) nb by auto
  next
    fix x X assume x: "?h x = Some X"
    then obtain Y where Y: "h x = Some Y" "blk_bin Y = blk_bin X" "x \<noteq> b \<longrightarrow> Y = X" using b by (auto split: if_splits)
    obtain i xs where "i < n" "blk_bin Y = tag i" "bins ! i = Some xs" "\<not> blk_allocated Y \<longrightarrow> x \<notin> {} \<longrightarrow> x \<in> set xs"
      using p(2) Y(1) by (rule bins_invE)
    then show "\<exists>i xs. i < n \<and> blk_bin X = tag i \<and> bins ! i = Some xs \<and> (\<not> blk_allocated X \<longrightarrow> x \<notin> {b} \<longrightarrow> x \<in> set xs)"
      using Y by auto
  qed (use p(2) in \<open>simp add: bins_inv_def\<close>)
  moreover have "coalesced {b} ?h" using p(3) by (auto simp: coalesced_def)
  moreover have "covered R ?h" using p(4) b(1) by (rule covered_upd) simp
  ultimately show ?thesis
    using set_allocated_inv [OF p(1) b(1)] p(5) b by (auto simp: pool_inv_def)
qed

lemma set_flag:
  assumes inv: "pool {b} R h bins" and b: "h b = Some B"
  shows "pool {} R (h(b \<mapsto> B\<lparr>blk_allocated := True\<rparr>)) bins"
proof -
  note p = poolD [OF inv]
  let ?h = "h(b \<mapsto> B\<lparr>blk_allocated := True\<rparr>)"
  have "bins_inv tag n {} ?h bins"
    unfolding bins_inv_def
  proof (intro conjI allI impI)
    fix i xs assume i: "i < n" "bins ! i = Some xs"
    note d = bins_invD [OF p(2) i]
    have nb: "b \<notin> set xs" using d(2) by auto
    show "bin_sorted ?h xs" by (rule bin_sorted_cong [OF d(1)]) (use nb in auto)
    show "\<forall>x\<in>set xs. x \<notin> {} \<and> (\<forall>B. ?h x = Some B \<longrightarrow> blk_bin B = tag i \<and> \<not> blk_allocated B)"
      using d(3) nb by auto
  next
    fix x X assume x: "?h x = Some X"
    then obtain Y where Y: "h x = Some Y" "blk_bin Y = blk_bin X" "x \<noteq> b \<longrightarrow> Y = X" "x = b \<longrightarrow> blk_allocated X"
      using b by (auto split: if_splits)
    obtain i xs where "i < n" "blk_bin Y = tag i" "bins ! i = Some xs" "\<not> blk_allocated Y \<longrightarrow> x \<notin> {b} \<longrightarrow> x \<in> set xs"
      using p(2) Y(1) by (rule bins_invE)
    then show "\<exists>i xs. i < n \<and> blk_bin X = tag i \<and> bins ! i = Some xs \<and> (\<not> blk_allocated X \<longrightarrow> x \<notin> {} \<longrightarrow> x \<in> set xs)"
      using Y by auto
  qed (use p(2) in \<open>simp add: bins_inv_def\<close>)
  moreover have "coalesced {} ?h" using p(3) by (auto simp: coalesced_def)
  moreover have "covered R ?h" using p(4) b(1) by (rule covered_upd) simp
  ultimately show ?thesis
    using set_allocated_inv [OF p(1) b(1)] p(5) b by (auto simp: pool_inv_def)
qed

text \<open>Taking a free block out of its bin exempts it; its neighbours are allocated.\<close>

lemma take_block:
  assumes inv: "pool {} R h bins" and i: "i < n" "bins ! i = Some xs" and b: "b \<in> set xs"
  obtains B where "h b = Some B" "\<not> blk_allocated B" "blk_bin B = tag i" "used h (blk_prev B)" "used h (blk_next B)"
    "pool {b} R h (bins[i := Some (remove1 b xs)])"
proof -
  note p = poolD [OF inv] and d = bins_invD [OF poolD(2) [OF inv] i]
  obtain B where B: "h b = Some B" using d(1) b by (auto simp: bin_sorted_def)
  then have free: "\<not> blk_allocated B" "blk_bin B = tag i" using d(3) b by auto
  have "used h (blk_next B)" unfolding used_def
    using chain_next_ex [OF p(1) B] p(3) B free by (fastforce simp: coalesced_def)
  moreover have "used h (blk_prev B)" unfolding used_def
    using chain_prev_ex [OF p(1) B] p(3) B free by (fastforce simp: coalesced_def)
  moreover have dist: "distinct xs" using d(1) by (rule bin_sorted_distinct)
  have len: "length bins = n" using p(2) by (simp add: bins_inv_def)
  have "bins_inv tag n {b} h (bins[i := Some (remove1 b xs)])"
    unfolding bins_inv_def
  proof (intro conjI allI impI)
    fix j zs assume j: "j < n" "bins[i := Some (remove1 b xs)] ! j = Some zs"
    have "\<exists>us. bins ! j = Some us \<and> set zs = set us - {b} \<and> bin_sorted h zs"
    proof (cases "j = i")
      case True
      have "bin_sorted h (remove1 b xs)" using d(1) by (rule bin_sorted_remove1)
      with True j len i dist show ?thesis by auto
    next
      case False
      then have us: "bins ! j = Some zs" using j by simp
      have "b \<notin> set zs"
      proof
        assume "b \<in> set zs"
        then have "tag i = tag j" using bins_invD(3) [OF p(2) j(1) us _ B] free by simp
        then show False using tag_inj [OF i(1) j(1)] False by simp
      qed
      then show ?thesis using us bins_invD(1) [OF p(2) j(1) us] by auto
    qed
    then obtain us where us: "bins ! j = Some us" "set zs = set us - {b}" "bin_sorted h zs" by blast
    then show "bin_sorted h zs"
      "\<forall>x\<in>set zs. x \<notin> {b} \<and> (\<forall>B. h x = Some B \<longrightarrow> blk_bin B = tag j \<and> \<not> blk_allocated B)"
      using bins_invD(3) [OF p(2) j(1) us(1)] by auto
  next
    fix x X assume x: "h x = Some X"
    obtain j zs where j: "j < n" "blk_bin X = tag j" "bins ! j = Some zs" "\<not> blk_allocated X \<longrightarrow> x \<notin> {} \<longrightarrow> x \<in> set zs"
      using p(2) x by (rule bins_invE)
    have "\<exists>us. bins[i := Some (remove1 b xs)] ! j = Some us \<and> set zs - {b} \<subseteq> set us"
      using j(3) i len dist by (cases "j = i") auto
    with j show "\<exists>j zs. j < n \<and> blk_bin X = tag j \<and> bins[i := Some (remove1 b xs)] ! j = Some zs \<and>
        (\<not> blk_allocated X \<longrightarrow> x \<notin> {b} \<longrightarrow> x \<in> set zs)" by blast
  qed (use len in simp)
  moreover have "coalesced {b} h" using p(3) by (auto simp: coalesced_def)
  ultimately show thesis using that [OF B free] p by (auto simp: pool_inv_def)
qed

text \<open>A free block whose neighbours are allocated goes into its bin.\<close>

lemma put_block:
  assumes inv: "pool (insert b E) R h bins" and b: "h b = Some B" "\<not> blk_allocated B" "b \<notin> E"
      "\<And>c. blk_prev B = Some c \<Longrightarrow> c \<notin> E \<Longrightarrow> used h (blk_prev B)" "\<And>c. blk_next B = Some c \<Longrightarrow> c \<notin> E \<Longrightarrow> used h (blk_next B)"
    and i: "i < n" "blk_bin B = tag i" "bins ! i = Some xs"
  obtains ys where "bin_insert h b xs = Inr ys" "pool E R h (bins[i := Some ys])"
proof -
  note p = poolD [OF inv] and d = bins_invD [OF poolD(2) [OF inv] i(1,3)]
  have "block_key X \<noteq> block_key B" if "x \<in> set xs" "h x = Some X" for x X
    using chain_key_inj [OF p(1) that(2) b(1)] d(2) that by auto
  with d(1) b(1) obtain ys where ys: "bin_insert h b xs = Inr ys" "set ys = insert b (set xs)" "bin_sorted h ys"
    by (rule bin_insert_ok)
  have len: "length bins = n" using p(2) by (simp add: bins_inv_def)
  have "bins_inv tag n E h (bins[i := Some ys])"
    unfolding bins_inv_def
  proof (intro conjI allI impI)
    fix j zs assume j: "j < n" "bins[i := Some ys] ! j = Some zs"
    have "bin_sorted h zs \<and> (\<forall>x\<in>set zs. x \<notin> E \<and> (\<forall>X. h x = Some X \<longrightarrow> blk_bin X = tag j \<and> \<not> blk_allocated X))"
    proof (cases "j = i")
      case True
      then have "zs = ys" using j len by simp
      with ys d(2,3) b i True show ?thesis by auto
    next
      case False
      then have "bins ! j = Some zs" using j by simp
      then show ?thesis using bins_invD [OF p(2) j(1)] by blast
    qed
    then show "bin_sorted h zs" "\<forall>x\<in>set zs. x \<notin> E \<and> (\<forall>B. h x = Some B \<longrightarrow> blk_bin B = tag j \<and> \<not> blk_allocated B)" by auto
  next
    fix x X assume x: "h x = Some X"
    obtain j zs where j: "j < n" "blk_bin X = tag j" "bins ! j = Some zs" "\<not> blk_allocated X \<longrightarrow> x \<notin> insert b E \<longrightarrow> x \<in> set zs"
      using p(2) x by (rule bins_invE)
    show "\<exists>j zs. j < n \<and> blk_bin X = tag j \<and> bins[i := Some ys] ! j = Some zs \<and> (\<not> blk_allocated X \<longrightarrow> x \<notin> E \<longrightarrow> x \<in> set zs)"
    proof (cases "x = b")
      case True
      then show ?thesis using x b i len ys by (intro exI [of _ i]) auto
    next
      case False
      have "\<exists>us. bins[i := Some ys] ! j = Some us \<and> set zs \<subseteq> set us" using j(3) i len ys by (cases "j = i") auto
      with j False show ?thesis by blast
    qed
  qed (use len in simp)
  moreover have "coalesced E h"
    unfolding coalesced_def
  proof (intro allI impI)
    fix x X c C assume x: "h x = Some X" "blk_next X = Some c" "h c = Some C" "x \<notin> E" "c \<notin> E"
    consider "x = b" | "c = b" | "x \<noteq> b" "c \<noteq> b" by blast
    then show "blk_allocated X \<or> blk_allocated C"
    proof cases
      case 1 then show ?thesis using b(1) b(5) [of c] x by (auto simp: used_def)
    next
      case 2
      then have "blk_prev B = Some x" using chain_next_ex [OF p(1) x(1,2)] b by auto
      then show ?thesis using b(4) x by (auto simp: used_def)
    next
      case 3 then show ?thesis using p(3) x by (auto simp: coalesced_def)
    qed
  qed
  ultimately show thesis using that [OF ys(1)] p by (auto simp: pool_inv_def)
qed

text \<open>Freeing: clear the flag, merge with the predecessor, merge with the successor, put the result into the bin.\<close>

lemma free_ok:
  assumes inv: "pool {} R h bins" and b: "h b = Some B" "blk_allocated B"
    and i: "i < n" "blk_bin B = tag i" "bins ! i = Some xs"
  obtains h1 xs1 h2 xs2 ys where
    "merge_blocks can_merge (h(b \<mapsto> B\<lparr>blk_allocated := False\<rparr>)) xs b (blk_prev B) = Inr (h1, xs1)"
    "merge_blocks can_merge h1 xs1 b (blk_next B) = Inr (h2, xs2)" "bin_insert h2 b xs2 = Inr ys"
    "pool {} R h2 (bins[i := Some ys])" "allocs h2 = allocs h - {(b, blk_ptr B, blk_size B)}" "dom h2 \<subseteq> dom h"
proof -
  let ?B = "B\<lparr>blk_allocated := False\<rparr>"
  let ?h = "h(b \<mapsto> ?B)"
  have len: "length bins = n" using poolD(2) [OF inv] by (simp add: bins_inv_def)
  obtain h1 xs1 B1 where m1: "merge_blocks can_merge ?h xs b (blk_prev ?B) = Inr (h1, xs1)" "pool {b} R h1 (bins[i := Some xs1])"
    "allocs h1 = allocs ?h" "h1 b = Some B1" "\<not> blk_allocated B1" "blk_bin B1 = tag i" "blk_next B1 = blk_next ?B"
    "used h1 (blk_prev B1)" "dom h1 \<subseteq> dom ?h"
    by (rule merge_prev_ok [OF clear_flag [OF inv b], of ?B i xs]) (use i in auto)
  obtain h2 xs2 B2 where m2: "merge_blocks can_merge h1 xs1 b (blk_next B1) = Inr (h2, xs2)"
    "pool {b} R h2 (bins[i := Some xs1, i := Some xs2])" "allocs h2 = allocs h1" "h2 b = Some B2" "\<not> blk_allocated B2"
    "blk_bin B2 = tag i" "used h2 (blk_prev B2)" "used h2 (blk_next B2)" "dom h2 \<subseteq> dom h1"
    by (rule merge_next_ok [OF m1(2,4,5,8) i(1) m1(6), of xs1]) (use i len in auto)
  obtain ys where ys: "bin_insert h2 b xs2 = Inr ys" "pool {} R h2 (bins[i := Some xs1, i := Some xs2, i := Some ys])"
    by (rule put_block [OF m2(2,4,5) _ m2(7,8) i(1) m2(6), of xs2]) (use i len in auto)
  have "allocs ?h = allocs h - {(b, blk_ptr B, blk_size B)}" using b by (simp add: allocs_upd allocs_but)
  moreover have "dom h2 \<subseteq> dom h"
  proof -
    have "dom ?h = dom h" using b by auto
    with m1(9) m2(9) show ?thesis by blast
  qed
  ultimately show thesis using that m1 m2 ys by simp
qed

text \<open>Splitting a block leaves both parts exempt.\<close>

lemma bins_split:
  assumes bi: "bins_inv tag n E h bins" and b: "h b = Some B" and c: "h c = None"
    and h': "h' b = Some B'" "blk_bin B' = blk_bin B" "blk_allocated B' = blk_allocated B" "h' c = Some C'" "blk_bin C' = blk_bin B" "b \<in> E \<or> blk_allocated B"
    and same: "\<And>x. x \<noteq> b \<Longrightarrow> x \<noteq> c \<Longrightarrow> map_option core (h' x) = map_option core (h x)"
  shows "bins_inv tag n (insert c E) h' bins"
proof -
  have bwd: "\<exists>Y. h x = Some Y \<and> core Y = core X" if "x \<noteq> b" "x \<noteq> c" "h' x = Some X" for x X
    by (rule core_Some(2) [where h' = h' and h = h, OF same [OF that(1,2)] that(3)])
  have fwd: "\<exists>Y. h' x = Some Y \<and> core Y = core X" if "x \<noteq> b" "x \<noteq> c" "h x = Some X" for x X
    by (rule core_Some(1) [where h' = h' and h = h, OF same [OF that(1,2)] that(3)])
  show ?thesis
    unfolding bins_inv_def
  proof (intro conjI allI impI)
    fix i xs assume i: "i < n" "bins ! i = Some xs"
    note d = bins_invD [OF bi i]
    have nb: "x \<noteq> b" "x \<noteq> c" if "x \<in> set xs" for x
      using d(1) d(2) [OF that] d(3) [OF that] that b c h'(6) by (auto simp: bin_sorted_def)
    show "bin_sorted h' xs"
    proof (rule bin_sorted_cong [OF d(1)])
      fix x X assume "x \<in> set xs" "h x = Some X"
      then show "\<exists>Y. h' x = Some Y \<and> block_key Y = block_key X" using fwd [of x X] nb [of x] by (auto simp: core_sel block_key_def)
    qed
    show "\<forall>x\<in>set xs. x \<notin> insert c E \<and> (\<forall>B. h' x = Some B \<longrightarrow> blk_bin B = tag i \<and> \<not> blk_allocated B)"
    proof (intro ballI conjI allI impI)
      fix x X assume x: "x \<in> set xs" "h' x = Some X"
      obtain Y where "h x = Some Y" "core Y = core X" using bwd [OF nb [OF x(1)] x(2)] by blast
      then show "blk_bin X = tag i" "\<not> blk_allocated X" using d(3) [OF x(1)] by (auto simp: core_sel)
    qed (use nb d(2) in auto)
  next
    have ob: "\<exists>i xs. i < n \<and> blk_bin B = tag i \<and> bins ! i = Some xs" using bi b by (rule bins_invE) blast
    fix x X assume x: "h' x = Some X"
    consider "x = b" | "x = c" | "x \<noteq> b" "x \<noteq> c" by blast
    then show "\<exists>i xs. i < n \<and> blk_bin X = tag i \<and> bins ! i = Some xs \<and> (\<not> blk_allocated X \<longrightarrow> x \<notin> insert c E \<longrightarrow> x \<in> set xs)"
    proof cases
      case 3
      obtain Y where Y: "h x = Some Y" "core Y = core X" using bwd [OF 3 x] by blast
      obtain i xs where "i < n" "blk_bin Y = tag i" "bins ! i = Some xs" "\<not> blk_allocated Y \<longrightarrow> x \<notin> E \<longrightarrow> x \<in> set xs"
        using bi Y(1) by (rule bins_invE)
      then show ?thesis using Y by (intro exI [of _ i] exI [of _ xs]) (auto simp: core_sel)
    qed (use ob x h' b in auto)
  qed (use bi in \<open>simp add: bins_inv_def\<close>)
qed

lemma split_core:
  assumes "x \<noteq> b" "x \<noteq> c"
  shows "map_option core (split_front h b B c N x) = map_option core (h x)"
    "map_option core (split_back h b B c N x) = map_option core (h x)"
  using assms by (cases "h x"; simp add: split_front_def split_back_def core_def)+

lemma split_front_pool:
  assumes inv: "pool {b} R h bins" and b: "h b = Some B" "\<not> blk_allocated B" "used h (blk_next B)" and c: "h c = None"
    and N: "0 < blk_size N" "blk_size N < blk_size B" "u dvd blk_size N" "blk_ptr N = blk_ptr B" "blk_bin N = blk_bin B" "\<not> blk_allocated N"
    and i: "i < n" "blk_bin B = tag i" "bins ! i = Some xs"
  obtains ys where "bin_insert (split_front h b B c N) b xs = Inr ys" "pool {c} R (split_front h b B c N) (bins[i := Some ys])"
    "allocs (split_front h b B c N) = allocs h"
proof -
  let ?h = "split_front h b B c N"
  let ?B = "B\<lparr>blk_prev := Some c, blk_ptr := blk_ptr B + blk_size N, blk_size := blk_size B - blk_size N\<rparr>"
  let ?N = "N\<lparr>blk_prev := blk_prev B, blk_next := Some b\<rparr>"
  note p = poolD [OF inv]
  have bc: "b \<noteq> c" using b c by auto
  have hb: "?h b = Some ?B" "?h c = Some ?N" using bc by (simp_all add: split_front_def)
  have bwd: "\<exists>Y. h x = Some Y \<and> core Y = core X" if "x \<noteq> b" "x \<noteq> c" "?h x = Some X" for x X
    by (rule core_Some(2) [where h' = ?h and h = h, OF split_core(1) [OF that(1,2)] that(3)])
  have fwd: "\<exists>Y. ?h x = Some Y \<and> core Y = core X" if "x \<noteq> b" "x \<noteq> c" "h x = Some X" for x X
    by (rule core_Some(1) [where h' = ?h and h = h, OF split_core(1) [OF that(1,2)] that(3)])
  have "bins_inv tag n (insert c {b}) ?h bins"
    by (rule bins_split [OF p(2) b(1) c hb(1) _ _ hb(2)]) (use N split_core in auto)
  moreover have "coalesced (insert c {b}) ?h"
    unfolding coalesced_def
  proof (intro allI impI)
    fix x X d D assume x: "?h x = Some X" "blk_next X = Some d" "?h d = Some D" "x \<notin> insert c {b}" "d \<notin> insert c {b}"
    then obtain X0 D0 where o: "h x = Some X0" "core X0 = core X" "h d = Some D0" "core D0 = core D" "blk_next X0 = Some d"
      by (auto simp: split_front_def core_def split: if_splits)
    then show "blk_allocated X \<or> blk_allocated D" using p(3) x(4,5) by (fastforce simp: coalesced_def core_sel)
  qed
  moreover have "covered R ?h"
    unfolding covered_def
  proof (intro allI impI)
    fix a m assume "(a, m) \<in> R"
    then obtain x X where x: "h x = Some X" "blk_ptr X = a" using p(4) by (auto simp: covered_def)
    show "\<exists>x X. ?h x = Some X \<and> blk_ptr X = a"
    proof (cases "x = b")
      case True
      then show ?thesis using x b hb(2) N by (intro exI [of _ c]) auto
    next
      case False
      moreover have "x \<noteq> c" using x c by auto
      ultimately show ?thesis using fwd [of x X] x by (auto simp: core_sel)
    qed
  qed
  moreover have "u dvd blk_size X" if hx: "?h x = Some X" for x X
  proof -
    consider "x = b" | "x = c" | "x \<noteq> b" "x \<noteq> c" by blast
    then show ?thesis
    proof cases
      case 3
      obtain Y where "h x = Some Y" "core Y = core X" using bwd [OF 3 hx] by blast
      then show ?thesis using p(5) [of x Y] by (simp add: core_sel)
    qed (use hx hb N p(5) [OF b(1)] in auto)
  qed
  ultimately have pl: "pool (insert b {c}) R ?h bins"
    using split_front_inv [OF p(1) b(1) c N(1,2,4,5)] by (auto simp: pool_inv_def insert_commute)
  have al: "allocs ?h = allocs h"
  proof (rule set_eqI)
    fix e :: "nat \<times> int \<times> int"
    obtain x y z where e: "e = (x, y, z)" by (cases e)
    consider "x = b" | "x = c" | "x \<noteq> b" "x \<noteq> c" by blast
    then show "e \<in> allocs ?h \<longleftrightarrow> e \<in> allocs h"
      by cases (use b c hb N fwd [of x] bwd [of x] in \<open>auto simp: e in_allocs core_sel\<close>)
  qed
  obtain ys where "bin_insert ?h b xs = Inr ys" "pool {c} R ?h (bins[i := Some ys])"
    by (rule put_block [OF pl hb(1), of i xs]) (use b bc i used_allocs [OF al] in auto)
  with al that show thesis by blast
qed

lemma split_back_pool:
  assumes inv: "pool {} R h bins" and b: "h b = Some B" "blk_allocated B" "used h (blk_next B)" and c: "h c = None"
    and N: "0 < blk_size N" "blk_size N < blk_size B" "u dvd blk_size N" "blk_ptr N = blk_end B - blk_size N" "blk_bin N = blk_bin B" "\<not> blk_allocated N"
    and i: "i < n" "blk_bin B = tag i" "bins ! i = Some xs"
  obtains ys where "bin_insert (split_back h b B c N) c xs = Inr ys" "pool {} R (split_back h b B c N) (bins[i := Some ys])"
    "allocs (split_back h b B c N) = insert (b, blk_ptr B, blk_size B - blk_size N) (allocs h - {(b, blk_ptr B, blk_size B)})"
proof -
  let ?h = "split_back h b B c N"
  let ?B = "B\<lparr>blk_next := Some c, blk_size := blk_size B - blk_size N\<rparr>"
  let ?N = "N\<lparr>blk_next := blk_next B, blk_prev := Some b\<rparr>"
  note p = poolD [OF inv]
  have bc: "b \<noteq> c" using b c by auto
  have hb: "?h b = Some ?B" "?h c = Some ?N" using bc by (simp_all add: split_back_def)
  have bwd: "\<exists>Y. h x = Some Y \<and> core Y = core X" if "x \<noteq> b" "x \<noteq> c" "?h x = Some X" for x X
    by (rule core_Some(2) [where h' = ?h and h = h, OF split_core(2) [OF that(1,2)] that(3)])
  have fwd: "\<exists>Y. ?h x = Some Y \<and> core Y = core X" if "x \<noteq> b" "x \<noteq> c" "h x = Some X" for x X
    by (rule core_Some(1) [where h' = ?h and h = h, OF split_core(2) [OF that(1,2)] that(3)])
  have "bins_inv tag n (insert c {}) ?h bins"
    by (rule bins_split [OF p(2) b(1) c hb(1) _ _ hb(2)]) (use b N split_core in auto)
  moreover have "coalesced (insert c {}) ?h"
    unfolding coalesced_def
  proof (intro allI impI)
    fix x X d D assume x: "?h x = Some X" "blk_next X = Some d" "?h d = Some D" "x \<notin> insert c {}" "d \<notin> insert c {}"
    show "blk_allocated X \<or> blk_allocated D"
    proof (cases "x = b")
      case True then show ?thesis using x hb by auto
    next
      case False
      show ?thesis
      proof (cases "d = b")
        case True then show ?thesis using x hb b by auto
      next
        assume "d \<noteq> b"
        with False x obtain X0 D0 where o: "h x = Some X0" "core X0 = core X" "h d = Some D0" "core D0 = core D" "blk_next X0 = Some d"
          by (auto simp: split_back_def core_def split: if_splits)
        then show "blk_allocated X \<or> blk_allocated D" using p(3) by (fastforce simp: coalesced_def core_sel)
      qed
    qed
  qed
  moreover have "covered R ?h"
    unfolding covered_def
  proof (intro allI impI)
    fix a m assume "(a, m) \<in> R"
    then obtain x X where x: "h x = Some X" "blk_ptr X = a" using p(4) by (auto simp: covered_def)
    show "\<exists>x X. ?h x = Some X \<and> blk_ptr X = a"
    proof (cases "x = b")
      case True
      then show ?thesis using x b hb(1) by (intro exI [of _ b]) auto
    next
      case False
      moreover have "x \<noteq> c" using x c by auto
      ultimately show ?thesis using fwd [of x X] x by (auto simp: core_sel)
    qed
  qed
  moreover have "u dvd blk_size X" if hx: "?h x = Some X" for x X
  proof -
    consider "x = b" | "x = c" | "x \<noteq> b" "x \<noteq> c" by blast
    then show ?thesis
    proof cases
      case 3
      obtain Y where "h x = Some Y" "core Y = core X" using bwd [OF 3 hx] by blast
      then show ?thesis using p(5) [of x Y] by (simp add: core_sel)
    qed (use hx hb N p(5) [OF b(1)] in auto)
  qed
  ultimately have pl: "pool (insert c {}) R ?h bins"
    using split_back_inv [OF p(1) b(1) c N(1,2,4,5)] by (auto simp: pool_inv_def)
  have al: "allocs ?h = insert (b, blk_ptr B, blk_size B - blk_size N) (allocs h - {(b, blk_ptr B, blk_size B)})"
  proof (rule set_eqI)
    fix e :: "nat \<times> int \<times> int"
    obtain x y z where e: "e = (x, y, z)" by (cases e)
    consider "x = b" | "x = c" | "x \<noteq> b" "x \<noteq> c" by blast
    then show "e \<in> allocs ?h \<longleftrightarrow> e \<in> insert (b, blk_ptr B, blk_size B - blk_size N) (allocs h - {(b, blk_ptr B, blk_size B)})"
      by cases (use b c hb N bc fwd [of x] bwd [of x] in \<open>auto simp: e in_allocs core_sel\<close>)
  qed
  have un: "used ?h (blk_next B)"
    unfolding used_def
  proof (intro allI impI)
    fix d assume d: "blk_next B = Some d"
    then obtain D where D: "h d = Some D" "blk_allocated D" using b(3) by (auto simp: used_def)
    have "d \<noteq> b" "d \<noteq> c" using chain_next_ex [OF p(1) b(1) d] c by auto
    then show "\<exists>C. ?h d = Some C \<and> blk_allocated C" using fwd [OF _ _ D(1)] D(2) by (auto simp: core_sel)
  qed
  have up: "used ?h (Some b)" using hb b by (auto simp: used_def)
  obtain ys where "bin_insert ?h c xs = Inr ys" "pool {} R ?h (bins[i := Some ys])"
    by (rule put_block [OF pl hb(2), of i xs]) (use N i un up in auto)
  with al that show thesis by blast
qed

text \<open>A new region enters the pool as one free block; a block that fills its region can leave with it.\<close>

lemma add_region_pool:
  assumes inv: "pool {} R h bins" and c: "h c = None"
    and reg: "regions_ok (insert (blk_ptr B, blk_size B) R)" "(blk_ptr B, blk_size B) \<notin> R"
    and B: "blk_prev B = None" "blk_next B = None" "\<not> blk_allocated B" "u dvd blk_size B"
    and i: "i < n" "blk_bin B = tag i" "bins ! i = Some xs"
  obtains ys where "bin_insert (h(c \<mapsto> B)) c xs = Inr ys"
    "pool {} (insert (blk_ptr B, blk_size B) R) (h(c \<mapsto> B)) (bins[i := Some ys])" "allocs (h(c \<mapsto> B)) = allocs h"
proof -
  note p = poolD [OF inv]
  have bi: "bins_inv tag n {c} (h(c \<mapsto> B)) bins"
    unfolding bins_inv_def
  proof (intro conjI allI impI)
    fix j zs assume j: "j < n" "bins ! j = Some zs"
    note d = bins_invD [OF p(2) j]
    have nc: "c \<notin> set zs" using d(1) c by (auto simp: bin_sorted_def)
    show "bin_sorted (h(c \<mapsto> B)) zs" by (rule bin_sorted_cong [OF d(1)]) (use nc in auto)
    show "\<forall>b\<in>set zs. b \<notin> {c} \<and> (\<forall>Ba. (h(c \<mapsto> B)) b = Some Ba \<longrightarrow> blk_bin Ba = tag j \<and> \<not> blk_allocated Ba)"
      using d(3) nc by auto
  next
    fix x X assume x: "(h(c \<mapsto> B)) x = Some X"
    show "\<exists>i xs. i < n \<and> blk_bin X = tag i \<and> bins ! i = Some xs \<and> (\<not> blk_allocated X \<longrightarrow> x \<notin> {c} \<longrightarrow> x \<in> set xs)"
    proof (cases "x = c")
      case False
      then have "h x = Some X" using x by simp
      with p(2) obtain j zs where "j < n" "blk_bin X = tag j" "bins ! j = Some zs" "\<not> blk_allocated X \<longrightarrow> x \<notin> {} \<longrightarrow> x \<in> set zs"
        by (rule bins_invE)
      then show ?thesis by auto
    qed (use x i in auto)
  qed (use p(2) in \<open>simp add: bins_inv_def\<close>)
  have "coalesced {c} (h(c \<mapsto> B))" using p(3) by (auto simp: coalesced_def)
  moreover have "covered (insert (blk_ptr B, blk_size B) R) (h(c \<mapsto> B))"
    unfolding covered_def
  proof (intro allI impI)
    fix a m assume am: "(a, m) \<in> insert (blk_ptr B, blk_size B) R"
    show "\<exists>x X. (h(c \<mapsto> B)) x = Some X \<and> blk_ptr X = a"
    proof (cases "(a, m) \<in> R")
      case True
      then obtain x X where "h x = Some X" "blk_ptr X = a" using p(4) by (auto simp: covered_def)
      moreover have "x \<noteq> c" using calculation c by auto
      ultimately show ?thesis by (intro exI [of _ x]) auto
    qed (use am in \<open>auto intro!: exI [of _ c]\<close>)
  qed
  ultimately have pl: "pool {c} (insert (blk_ptr B, blk_size B) R) (h(c \<mapsto> B)) bins"
    using bi add_region_inv [OF p(1) c reg B(1,2)] p(5) B(4) by (auto simp: pool_inv_def)
  obtain ys where "bin_insert (h(c \<mapsto> B)) c xs = Inr ys"
    "pool {} (insert (blk_ptr B, blk_size B) R) (h(c \<mapsto> B)) (bins[i := Some ys])"
    by (rule put_block [OF pl, of B i xs]) (use B i in auto)
  moreover have "allocs (h(c \<mapsto> B)) = allocs h" using B(3) c by (auto simp: allocs_upd in_allocs split_paired_all)
  ultimately show thesis using that by blast
qed

lemma drop_region_pool:
  assumes inv: "pool {} R h bins" and i: "i < n" "bins ! i = Some xs" and b: "b \<in> set xs" "h b = Some B"
    and B: "blk_prev B = None" "blk_next B = None"
  shows "pool {} (R - {(blk_ptr B, blk_size B)}) (h(b := None)) (bins[i := Some (remove1 b xs)])" "allocs (h(b := None)) = allocs h"
proof -
  note p = poolD [OF inv]
  have free: "\<not> blk_allocated B" using bins_invD(3) [OF p(2) i b] by simp
  obtain tk: "pool {b} R h (bins[i := Some (remove1 b xs)])" using inv i b(1) by (rule take_block)
  note q = poolD [OF tk]
  have "bins_inv tag n {} (h(b := None)) (bins[i := Some (remove1 b xs)])"
    unfolding bins_inv_def
  proof (intro conjI allI impI)
    fix j zs assume j: "j < n" "bins[i := Some (remove1 b xs)] ! j = Some zs"
    note d = bins_invD [OF q(2) j]
    have nb: "b \<notin> set zs" using d(2) by auto
    show "bin_sorted (h(b := None)) zs" by (rule bin_sorted_cong [OF d(1)]) (use nb in auto)
    show "\<forall>x\<in>set zs. x \<notin> {} \<and> (\<forall>B. (h(b := None)) x = Some B \<longrightarrow> blk_bin B = tag j \<and> \<not> blk_allocated B)"
      using d(3) nb by auto
  next
    fix x X assume "(h(b := None)) x = Some X"
    then have x: "h x = Some X" "x \<noteq> b" by (auto split: if_splits)
    obtain j zs where "j < n" "blk_bin X = tag j" "bins[i := Some (remove1 b xs)] ! j = Some zs" "\<not> blk_allocated X \<longrightarrow> x \<notin> {b} \<longrightarrow> x \<in> set zs"
      using q(2) x(1) by (rule bins_invE)
    then show "\<exists>j zs. j < n \<and> blk_bin X = tag j \<and> bins[i := Some (remove1 b xs)] ! j = Some zs \<and> (\<not> blk_allocated X \<longrightarrow> x \<notin> {} \<longrightarrow> x \<in> set zs)"
      using x by auto
  qed (use q(2) in \<open>simp add: bins_inv_def\<close>)
  moreover have "coalesced {} (h(b := None))" using p(3) by (auto simp: coalesced_def)
  moreover have "covered (R - {(blk_ptr B, blk_size B)}) (h(b := None))"
    unfolding covered_def
  proof (intro allI impI)
    fix a m assume am: "(a, m) \<in> R - {(blk_ptr B, blk_size B)}"
    then obtain x X where x: "h x = Some X" "blk_ptr X = a" using p(4) by (auto simp: covered_def)
    have "x \<noteq> b"
    proof
      assume "x = b"
      then have "a = blk_ptr B" using x b by simp
      then have "m = blk_size B"
        using region_unique [OF chain_regions [OF p(1)] _ whole_region [OF p(1) b(2) B], of a m a] am
          regions_pos [OF chain_regions [OF p(1)], of a m] chain_size [OF p(1) b(2)] by auto
      with am \<open>a = blk_ptr B\<close> show False by simp
    qed
    then show "\<exists>x X. (h(b := None)) x = Some X \<and> blk_ptr X = a" using x by (intro exI [of _ x]) auto
  qed
  ultimately show "pool {} (R - {(blk_ptr B, blk_size B)}) (h(b := None)) (bins[i := Some (remove1 b xs)])"
    using drop_region_inv [OF p(1) b(2) B] p(5) by (auto simp: pool_inv_def)
  show "allocs (h(b := None)) = allocs h" using free b(2) by (auto simp: in_allocs split_paired_all split: if_splits)
qed

end

end
