(* ===== verification/Graph_Mem_Allocator.thy ===== *)
theory Graph_Mem_Allocator
  imports Block_Chains "HOL-Library.List_Lexorder" "HOL-Library.Char_ord"
begin

text \<open>
  The device memory allocator (\<open>graph_mem_allocator.cc\<close>). The device runtime is not part of the repository: what
  \<open>rtMalloc\<close> and \<open>rtFree\<close> answer is the record \<open>runtime\<close>, a parameter, and the memory they have handed out is the
  state \<open>Device\<close>. The hypothesis \<open>runtime_ok\<close> is what a memory allocator documents: a successful \<open>rtMalloc\<close> returns
  a range of addresses that overlaps no live one.
\<close>

section \<open>The runtime and the device\<close>

record runtime =
  rt_malloc :: "nat \<Rightarrow> (int \<times> int) list \<Rightarrow> int \<Rightarrow> int option"
  rt_free :: "nat \<Rightarrow> int \<Rightarrow> bool"
  rt_new :: "nat \<Rightarrow> bool"

record Device =
  dev_live :: "(int \<times> int) list"
  dev_tick :: nat

definition runtime_ok :: "runtime \<Rightarrow> bool" where
  "runtime_ok rt \<longleftrightarrow> (\<forall>t live n a. rt_malloc rt t live n = Some a \<longrightarrow> 0 < a \<and> a + n \<le> 2 ^ 64 \<and>
     (\<forall>(b, m) \<in> set live. a + n \<le> b \<or> b + m \<le> a))"

definition device_ok :: "Device \<Rightarrow> bool" where
  "device_ok dev \<longleftrightarrow> regions_ok (set (dev_live dev)) \<and> distinct (map fst (dev_live dev))"

section \<open>Plain allocation\<close>

definition MallocMemory :: "runtime \<Rightarrow> Device \<Rightarrow> int \<Rightarrow> int \<times> Device" where
  "MallocMemory rt dev memory_size =
     (case rt_malloc rt (dev_tick dev) (dev_live dev) memory_size of
        None \<Rightarrow> (0, dev\<lparr>dev_tick := dev_tick dev + 1\<rparr>)
      | Some addr \<Rightarrow> (addr, dev\<lparr>dev_live := (addr, memory_size) # dev_live dev, dev_tick := dev_tick dev + 1\<rparr>))"

text \<open>\<open>FAILED\<close> stands for the runtime's error code converted to a status.\<close>

definition FreeMemory :: "runtime \<Rightarrow> Device \<Rightarrow> int \<Rightarrow> Status \<times> Device" where
  "FreeMemory rt dev addr =
     (if rt_free rt (dev_tick dev) addr
      then (SUCCESS, dev\<lparr>dev_live := filter (\<lambda>r. fst r \<noteq> addr) (dev_live dev), dev_tick := dev_tick dev + 1\<rparr>)
      else (FAILED, dev\<lparr>dev_tick := dev_tick dev + 1\<rparr>))"

lemma MallocMemory_ok:
  assumes "runtime_ok rt" "device_ok dev" "0 < n" "MallocMemory rt dev n = (a, dev')"
  shows "device_ok dev'"
    "a = 0 \<and> dev_live dev' = dev_live dev \<or>
     0 < a \<and> dev_live dev' = (a, n) # dev_live dev \<and> (a, n) \<notin> set (dev_live dev)"
proof -
  have "device_ok dev' \<and> (a = 0 \<and> dev_live dev' = dev_live dev \<or>
     0 < a \<and> dev_live dev' = (a, n) # dev_live dev \<and> (a, n) \<notin> set (dev_live dev))"
  proof (cases "rt_malloc rt (dev_tick dev) (dev_live dev) n")
    case None
    then show ?thesis using assms by (auto simp: MallocMemory_def device_ok_def)
  next
    case (Some x)
    then have x: "x = a" "dev_live dev' = (a, n) # dev_live dev" using assms(4) by (auto simp: MallocMemory_def)
    have new: "0 < a" "a + n \<le> 2 ^ 64" "\<And>b m. (b, m) \<in> set (dev_live dev) \<Longrightarrow> a + n \<le> b \<or> b + m \<le> a"
      using assms(1) Some x(1) unfolding runtime_ok_def by blast+
    have "a \<noteq> b" if "(b, m) \<in> set (dev_live dev)" for b m
      using new(3) [OF that] assms(2,3) regions_pos [OF _ that] by (auto simp: device_ok_def)
    then have "a \<notin> fst ` set (dev_live dev)" by fastforce
    moreover have "regions_ok (set (dev_live dev'))"
      using regions_ok_insert [OF _ new(1) assms(3) new(2,3)] assms(2) by (simp add: device_ok_def x(2))
    ultimately show ?thesis using assms(2) new(1) x(2) by (force simp: device_ok_def)
  qed
  then show "device_ok dev'" "a = 0 \<and> dev_live dev' = dev_live dev \<or>
     0 < a \<and> dev_live dev' = (a, n) # dev_live dev \<and> (a, n) \<notin> set (dev_live dev)" by blast+
qed

lemma FreeMemory_ok:
  assumes "device_ok dev" "FreeMemory rt dev a = (st, dev')"
  shows "device_ok dev'" "st \<noteq> SUCCESS \<Longrightarrow> dev_live dev' = dev_live dev"
    "st = SUCCESS \<Longrightarrow> (a, n) \<in> set (dev_live dev) \<Longrightarrow> set (dev_live dev') = set (dev_live dev) - {(a, n)}"
    "set (dev_live dev') \<subseteq> set (dev_live dev)"
proof -
  have *: "r = (a, n)" if "(a, n) \<in> set (dev_live dev)" "r \<in> set (dev_live dev)" "fst r = a" for r
    using assms(1) that unfolding device_ok_def by (metis eq_key_imp_eq_value prod.collapse)
  have live: "dev_live dev' = (if st = SUCCESS then filter (\<lambda>r. fst r \<noteq> a) (dev_live dev) else dev_live dev)"
    using assms(2) by (auto simp: FreeMemory_def split: if_splits)
  show "st \<noteq> SUCCESS \<Longrightarrow> dev_live dev' = dev_live dev" "set (dev_live dev') \<subseteq> set (dev_live dev)"
    by (auto simp: live)
  then have "regions_ok (set (dev_live dev'))" using assms(1) unfolding device_ok_def regions_ok_def by blast
  moreover have "distinct (map fst (dev_live dev'))"
    using assms(1) by (simp add: live device_ok_def distinct_map_filter)
  ultimately show "device_ok dev'" by (simp add: device_ok_def)
  show "set (dev_live dev') = set (dev_live dev) - {(a, n)}" if m: "st = SUCCESS" "(a, n) \<in> set (dev_live dev)"
  proof -
    have "fst r \<noteq> a \<longleftrightarrow> r \<noteq> (a, n)" if "r \<in> set (dev_live dev)" for r using * [OF m(2) that] by auto
    then show ?thesis unfolding live m(1) by auto
  qed
qed

section \<open>Memory under a key, with a reference count\<close>

text \<open>
  The entries of \<open>memory_base_map_\<close>, a \<open>std::map\<close>, in the order of their keys. The reference count is an \<open>int32_t\<close>.
\<close>

definition i32 :: "int \<Rightarrow> int" where
  "i32 x = (x + 2 ^ 31) mod 2 ^ 32 - 2 ^ 31"

lemma i32_id: "- (2 ^ 31) \<le> x \<Longrightarrow> x < 2 ^ 31 \<Longrightarrow> i32 x = x"
  by (simp add: i32_def)

record MemoryInfo =
  memory_addr :: int
  memory_size :: int
  memory_used_num :: int

record MemoryAllocator =
  mem_malloced :: bool
  memory_base_map :: "(string \<times> MemoryInfo) list"

fun map_insert :: "string \<Rightarrow> 'v \<Rightarrow> (string \<times> 'v) list \<Rightarrow> (string \<times> 'v) list" where
  "map_insert k v [] = [(k, v)]"
| "map_insert k v ((k', v') # m) =
     (if k' < k then (k', v') # map_insert k v m else if k' = k then (k, v) # m else (k, v) # (k', v') # m)"

definition map_erase :: "string \<Rightarrow> (string \<times> 'v) list \<Rightarrow> (string \<times> 'v) list" where
  "map_erase k m = filter (\<lambda>e. fst e \<noteq> k) m"

definition MallocMemory_key ::
  "runtime \<Rightarrow> MemoryAllocator \<Rightarrow> Device \<Rightarrow> string \<Rightarrow> int \<Rightarrow> int \<times> MemoryAllocator \<times> Device" where
  "MallocMemory_key rt ma dev memory_key sz =
     (case map_of (memory_base_map ma) memory_key of
        Some info \<Rightarrow>
          (memory_addr info,
           ma\<lparr>memory_base_map := map_insert memory_key (info\<lparr>memory_used_num := i32 (memory_used_num info + 1)\<rparr>) (memory_base_map ma)\<rparr>,
           dev)
      | None \<Rightarrow>
          (let (addr, dev) = MallocMemory rt dev sz
           in if addr = 0 then (0, ma, dev)
              else (addr,
                ma\<lparr>memory_base_map := map_insert memory_key
                      \<lparr>memory_addr = addr, memory_size = sz, memory_used_num = 0 + 1\<rparr> (memory_base_map ma),
                   mem_malloced := True\<rparr>,
                dev)))"

definition FreeMemory_key ::
  "runtime \<Rightarrow> MemoryAllocator \<Rightarrow> Device \<Rightarrow> string \<Rightarrow> Status \<times> MemoryAllocator \<times> Device" where
  "FreeMemory_key rt ma dev memory_key =
     (case map_of (memory_base_map ma) memory_key of
        None \<Rightarrow> (INTERNAL_ERROR, ma, dev)
      | Some info \<Rightarrow>
          if memory_used_num info > 1 then
            (SUCCESS,
             ma\<lparr>memory_base_map := map_insert memory_key (info\<lparr>memory_used_num := i32 (memory_used_num info - 1)\<rparr>) (memory_base_map ma)\<rparr>,
             dev)
          else
            (let (st, dev) = FreeMemory rt dev (memory_addr info)
             in if st \<noteq> SUCCESS then (INTERNAL_ERROR, ma, dev)
                else (SUCCESS, ma\<lparr>memory_base_map := map_erase memory_key (memory_base_map ma)\<rparr>, dev)))"

definition GetMemoryAddr :: "MemoryAllocator \<Rightarrow> string \<Rightarrow> int" where
  "GetMemoryAddr ma memory_key =
     (case map_of (memory_base_map ma) memory_key of None \<Rightarrow> 0 | Some info \<Rightarrow> memory_addr info)"

definition FinalizeMemory :: "runtime \<Rightarrow> MemoryAllocator \<Rightarrow> Device \<Rightarrow> MemoryAllocator \<times> Device" where
  "FinalizeMemory rt ma dev =
     (ma\<lparr>memory_base_map := []\<rparr>,
      fold (\<lambda>e dev. snd (FreeMemory rt dev (memory_addr (snd e)))) (memory_base_map ma) dev)"

text \<open>\<open>Initialize\<close> frees what an earlier use left, with the same loop.\<close>

definition InitializeMemory :: "runtime \<Rightarrow> MemoryAllocator \<Rightarrow> Device \<Rightarrow> MemoryAllocator \<times> Device" where
  "InitializeMemory rt ma dev = FinalizeMemory rt ma dev"

section \<open>Invariant\<close>

text \<open>
  Keys are in order; the memory of every entry is live on the device and shared with no other entry; every entry is
  referenced.
\<close>

definition ma_inv :: "MemoryAllocator \<Rightarrow> Device \<Rightarrow> bool" where
  "ma_inv ma dev \<longleftrightarrow> device_ok dev \<and> sorted_wrt (<) (map fst (memory_base_map ma)) \<and>
     (\<forall>k info. map_of (memory_base_map ma) k = Some info \<longrightarrow>
        (memory_addr info, memory_size info) \<in> set (dev_live dev) \<and> 1 \<le> memory_used_num info \<and> memory_used_num info < 2 ^ 31 \<and>
        (\<forall>k' info'. map_of (memory_base_map ma) k' = Some info' \<longrightarrow> k \<noteq> k' \<longrightarrow> memory_addr info \<noteq> memory_addr info'))"

lemma map_insert_keys: "set (map fst (map_insert k v m)) = insert k (set (map fst m))"
  by (induction k v m rule: map_insert.induct) auto

lemma map_insert_sorted: "sorted_wrt (<) (map fst m) \<Longrightarrow> sorted_wrt (<) (map fst (map_insert k v m))"
proof (induction k v m rule: map_insert.induct)
  case (2 k v k' v' m)
  have "\<forall>x\<in>set (map fst (map_insert k v m)). k' < x" if "k' < k"
    unfolding map_insert_keys using 2 that by auto
  with 2 show ?case by auto
qed simp

lemma map_of_insert: "sorted_wrt (<) (map fst m) \<Longrightarrow> map_of (map_insert k v m) = (map_of m)(k \<mapsto> v)"
proof (induction k v m rule: map_insert.induct)
  case (2 k v k' v' m)
  then show ?case by (cases "k' < k"; cases "k' = k") (auto simp: fun_upd_twist)
qed simp

lemma map_of_erase: "map_of (map_erase k m) = (map_of m)(k := None)"
  by (induction m) (auto simp: map_erase_def fun_eq_iff)

lemma map_erase_sorted: "sorted_wrt (<) (map fst m) \<Longrightarrow> sorted_wrt (<) (map fst (map_erase k m))"
  by (induction m) (auto simp: map_erase_def)

lemma ma_inv_update:
  assumes "ma_inv ma dev" "map_of (memory_base_map ma) k = Some info"
    and "memory_addr info' = memory_addr info" "memory_size info' = memory_size info" "1 \<le> memory_used_num info'" "memory_used_num info' < 2 ^ 31"
  shows "ma_inv (ma\<lparr>memory_base_map := map_insert k info' (memory_base_map ma)\<rparr>) dev"
  using assms by (auto simp: ma_inv_def map_insert_sorted map_of_insert)

lemma MallocMemory_key_inv:
  assumes "runtime_ok rt" "ma_inv ma dev" "0 < n" "MallocMemory_key rt ma dev k n = (a, ma', dev')"
    and few: "\<And>info. map_of (memory_base_map ma) k = Some info \<Longrightarrow> memory_used_num info < 2 ^ 31 - 1"
  shows "ma_inv ma' dev'"
proof (cases "map_of (memory_base_map ma) k")
  case None
  obtain x dev1 where m: "MallocMemory rt dev n = (x, dev1)" by (cases "MallocMemory rt dev n")
  note ok = MallocMemory_ok [OF assms(1) _ assms(3) m]
  have dev: "device_ok dev" using assms(2) by (simp add: ma_inv_def)
  show ?thesis
  proof (cases "x = 0")
    case True
    then show ?thesis using assms None m ok [OF dev] by (auto simp: MallocMemory_key_def ma_inv_def)
  next
    case False
    then have live: "dev_live dev1 = (x, n) # dev_live dev" "(x, n) \<notin> set (dev_live dev)" using ok(2) [OF dev] by auto
    have "x \<noteq> y" if "(y, m) \<in> set (dev_live dev)" for y m
      using ok(1) [OF dev] live that by (auto simp: device_ok_def rev_image_eqI)
    then have fresh: "memory_addr info \<noteq> x" if "map_of (memory_base_map ma) j = Some info" for j info
      using assms(2) that by (auto simp: ma_inv_def)
    have "ma' = ma\<lparr>memory_base_map := map_insert k \<lparr>memory_addr = x, memory_size = n, memory_used_num = 1\<rparr> (memory_base_map ma),
        mem_malloced := True\<rparr>" "dev' = dev1"
      using assms(4) None m False by (auto simp: MallocMemory_key_def)
    then show ?thesis
      using assms(2) ok(1) [OF dev] live(1) fresh
      by (auto simp: ma_inv_def map_insert_sorted map_of_insert dest: sym)
  qed
next
  case (Some info)
  let ?info = "info\<lparr>memory_used_num := i32 (memory_used_num info + 1)\<rparr>"
  have "1 \<le> memory_used_num info" using assms(2) Some by (simp add: ma_inv_def)
  with few [OF Some] have "ma_inv (ma\<lparr>memory_base_map := map_insert k ?info (memory_base_map ma)\<rparr>) dev"
    by (intro ma_inv_update [OF assms(2) Some]) (simp_all add: i32_id)
  with assms(4) Some show ?thesis by (auto simp: MallocMemory_key_def)
qed

lemma FreeMemory_key_inv:
  assumes "ma_inv ma dev" "FreeMemory_key rt ma dev k = (st, ma', dev')"
  shows "ma_inv ma' dev'"
proof (cases "map_of (memory_base_map ma) k")
  case (Some info)
  obtain x dev1 where f: "FreeMemory rt dev (memory_addr info) = (x, dev1)" by (cases "FreeMemory rt dev (memory_addr info)")
  have dev: "device_ok dev" and live: "(memory_addr info, memory_size info) \<in> set (dev_live dev)" "1 \<le> memory_used_num info"
      "memory_used_num info < 2 ^ 31"
    using assms(1) Some by (auto simp: ma_inv_def)
  note ok = FreeMemory_ok [OF dev f]
  consider "memory_used_num info > 1" | "memory_used_num info \<le> 1" "x \<noteq> SUCCESS" | "memory_used_num info \<le> 1" "x = SUCCESS" by linarith
  then show ?thesis
  proof cases
    case 1
    let ?info = "info\<lparr>memory_used_num := i32 (memory_used_num info - 1)\<rparr>"
    have "ma_inv (ma\<lparr>memory_base_map := map_insert k ?info (memory_base_map ma)\<rparr>) dev"
      by (intro ma_inv_update [OF assms(1) Some]) (use 1 live(3) in \<open>simp_all add: i32_id\<close>)
    with 1 assms(2) Some show ?thesis by (auto simp: FreeMemory_key_def)
  next
    case 2
    then show ?thesis using assms Some f ok(1,2) by (auto simp: FreeMemory_key_def ma_inv_def)
  next
    case 3
    then have "set (dev_live dev1) = set (dev_live dev) - {(memory_addr info, memory_size info)}" using ok(3) live by simp
    moreover have "ma' = ma\<lparr>memory_base_map := map_erase k (memory_base_map ma)\<rparr>" "dev' = dev1"
      using assms(2) Some f 3 by (simp_all add: FreeMemory_key_def)
    ultimately show ?thesis
      using assms(1) Some ok(1) by (auto simp: ma_inv_def map_erase_sorted map_of_erase)
  qed
qed (use assms in \<open>auto simp: FreeMemory_key_def\<close>)


section \<open>Reference counting\<close>

text \<open>
  The states a sequence of calls can reach, with the number of references a client holds under each key: a
  \<open>MallocMemory\<close> that returns an address takes one, a \<open>FreeMemory\<close> that succeeds gives one back.
\<close>

inductive keyed_reach :: "runtime \<Rightarrow> MemoryAllocator \<Rightarrow> Device \<Rightarrow> (string \<Rightarrow> nat) \<Rightarrow> bool" for rt where
  start: "device_ok dev \<Longrightarrow> keyed_reach rt \<lparr>mem_malloced = False, memory_base_map = []\<rparr> dev (\<lambda>_. 0)"
| malloc: "keyed_reach rt ma dev c \<Longrightarrow> 0 < n \<Longrightarrow> c k < 2 ^ 31 - 1 \<Longrightarrow> MallocMemory_key rt ma dev k n = (a, ma', dev') \<Longrightarrow>
     keyed_reach rt ma' dev' (if a = 0 then c else c(k := c k + 1))"
| free: "keyed_reach rt ma dev c \<Longrightarrow> FreeMemory_key rt ma dev k = (ret, ma', dev') \<Longrightarrow>
     keyed_reach rt ma' dev' (if ret = SUCCESS then c(k := c k - 1) else c)"

definition counted :: "MemoryAllocator \<Rightarrow> (string \<Rightarrow> nat) \<Rightarrow> bool" where
  "counted ma c \<longleftrightarrow> (\<forall>k. case map_of (memory_base_map ma) k of None \<Rightarrow> c k = 0 | Some info \<Rightarrow> memory_used_num info = int (c k))"

lemma counted_update:
  assumes "counted ma c" "map_of (memory_base_map ma') = (map_of (memory_base_map ma))(k := v)"
    "case v of None \<Rightarrow> m = 0 | Some info \<Rightarrow> memory_used_num info = int m"
  shows "counted ma' (c(k := m))"
  unfolding counted_def
proof
  fix j show "case map_of (memory_base_map ma') j of None \<Rightarrow> (c(k := m)) j = 0 | Some info \<Rightarrow> memory_used_num info = int ((c(k := m)) j)"
  proof (cases "j = k")
    case True
    then show ?thesis using assms(2,3) by (cases v) simp_all
  next
    case False
    then show ?thesis
      using spec [OF assms(1) [unfolded counted_def], of j] assms(2) by (cases "map_of (memory_base_map ma) j") simp_all
  qed
qed

lemma countedD: "counted ma c \<Longrightarrow> map_of (memory_base_map ma) k = Some info \<Longrightarrow> memory_used_num info = int (c k)"
  "counted ma c \<Longrightarrow> map_of (memory_base_map ma) k = None \<Longrightarrow> c k = 0"
  by (auto simp: counted_def dest!: spec [of _ k])

lemma MallocMemory_key_counted:
  assumes rt: "runtime_ok rt" and inv: "ma_inv ma dev" and c: "counted ma c" and few: "c k < 2 ^ 31 - 1" and n: "0 < n"
    and m: "MallocMemory_key rt ma dev k n = (a, ma', dev')"
  shows "counted ma' (if a = 0 then c else c(k := c k + 1))"
proof (cases "map_of (memory_base_map ma) k")
  case None
  have srt: "sorted_wrt (<) (map fst (memory_base_map ma))" using inv by (simp add: ma_inv_def)
  show ?thesis
  proof (cases "a = 0")
    case True
    then show ?thesis using m None c by (auto simp: MallocMemory_key_def split: prod.splits if_splits)
  next
    case False
    have ma': "memory_base_map ma' = map_insert k \<lparr>memory_addr = a, memory_size = n, memory_used_num = 0 + 1\<rparr> (memory_base_map ma)"
      using m None False by (auto simp: MallocMemory_key_def split: prod.splits if_splits)
    have "counted ma' (c(k := c k + 1))"
      by (rule counted_update [OF c]) (unfold ma', rule map_of_insert [OF srt], use countedD(2) [OF c None] in simp)
    with False show ?thesis by simp
  qed
next
  case (Some info)
  let ?info = "info\<lparr>memory_used_num := i32 (memory_used_num info + 1)\<rparr>"
  have srt: "sorted_wrt (<) (map fst (memory_base_map ma))" using inv by (simp add: ma_inv_def)
  have u: "memory_used_num info = int (c k)" using countedD(1) [OF c Some] .
  have ma': "memory_base_map ma' = map_insert k ?info (memory_base_map ma)" "a = memory_addr info"
    using m Some by (auto simp: MallocMemory_key_def)
  have "a \<noteq> 0" using inv Some ma'(2) regions_pos by (fastforce simp: ma_inv_def device_ok_def)
  moreover have "i32 (int (c k) + 1) = int (c k + 1)" using few by (subst i32_id) auto
  then have "counted ma' (c(k := c k + 1))"
    by (intro counted_update [OF c, where v = "Some ?info"]) (simp_all only: ma' map_of_insert [OF srt] u option.case, simp)
  ultimately show ?thesis by simp
qed

lemma FreeMemory_key_counted:
  assumes inv: "ma_inv ma dev" and c: "counted ma c" and f: "FreeMemory_key rt ma dev k = (ret, ma', dev')"
  shows "counted ma' (if ret = SUCCESS then c(k := c k - 1) else c)"
proof (cases "map_of (memory_base_map ma) k")
  case None
  then show ?thesis using f c by (auto simp: FreeMemory_key_def)
next
  case (Some info)
  have srt: "sorted_wrt (<) (map fst (memory_base_map ma))" using inv by (simp add: ma_inv_def)
  have u: "memory_used_num info = int (c k)" using countedD(1) [OF c Some] .
  have "1 \<le> memory_used_num info" "memory_used_num info < 2 ^ 31" using inv Some by (auto simp: ma_inv_def)
  then have b: "1 \<le> c k" "int (c k) < 2 ^ 31" using u by simp_all
  let ?info = "info\<lparr>memory_used_num := i32 (memory_used_num info - 1)\<rparr>"
  have i: "i32 (int (c k) - 1) = int (c k - 1)" using b by (subst i32_id) auto
  have "map_of (memory_base_map ma') = (map_of (memory_base_map ma))(k := (if 1 < memory_used_num info then Some ?info else None))"
    if "ret = SUCCESS"
    using f Some that by (auto simp: FreeMemory_key_def map_of_insert [OF srt] map_of_erase split: prod.splits if_splits)
  then have "counted ma' (c(k := c k - 1))" if "ret = SUCCESS"
    using that by (intro counted_update [OF c]) (use u i b in auto)
  moreover have "ma' = ma" if "ret \<noteq> SUCCESS"
    using f Some that by (auto simp: FreeMemory_key_def split: prod.splits if_splits)
  ultimately show ?thesis using c by simp
qed

lemma keyed_reach_inv:
  assumes "runtime_ok rt" "keyed_reach rt ma dev c"
  shows "ma_inv ma dev \<and> counted ma c"
  using assms(2)
proof (induction rule: keyed_reach.induct)
  case (start dev)
  then show ?case by (simp add: ma_inv_def counted_def)
next
  case (malloc ma dev c n k a ma' dev')
  have "memory_used_num info < 2 ^ 31 - 1" if "map_of (memory_base_map ma) k = Some info" for info
    using malloc.IH malloc.hyps(3) that by (auto simp: counted_def dest!: spec [of _ k])
  then have "ma_inv ma' dev'" using malloc.IH malloc.hyps assms(1) MallocMemory_key_inv by blast
  with malloc show ?case using MallocMemory_key_counted assms(1) by blast
next
  case (free ma dev c k ret ma' dev')
  then show ?case using FreeMemory_key_inv FreeMemory_key_counted by blast
qed

text \<open>A concrete run: two references to one key.\<close>

definition key_rt :: runtime where
  "key_rt = \<lparr>rt_malloc = (\<lambda>t live n. if live = [] \<and> n \<le> 2 ^ 40 then Some 512 else None),
     rt_free = (\<lambda>t a. True), rt_new = (\<lambda>t. True)\<rparr>"

definition key_one :: "MemoryAllocator \<times> Device" where
  "key_one = snd (MallocMemory_key key_rt \<lparr>mem_malloced = False, memory_base_map = []\<rparr> \<lparr>dev_live = [], dev_tick = 0\<rparr> ''w'' 64)"

definition key_two :: "MemoryAllocator \<times> Device" where
  "key_two = snd (MallocMemory_key key_rt (fst key_one) (snd key_one) ''w'' 64)"

lemma key_rt_ok: "runtime_ok key_rt"
  by (auto simp: runtime_ok_def key_rt_def split: if_splits)

lemma key_two_reach: "keyed_reach key_rt (fst key_two) (snd key_two) ((\<lambda>_. 0)(''w'' := 2))"
proof -
  have 0: "keyed_reach key_rt \<lparr>mem_malloced = False, memory_base_map = []\<rparr> \<lparr>dev_live = [], dev_tick = 0\<rparr> (\<lambda>_. 0)"
    by (rule keyed_reach.start) (simp add: device_ok_def regions_ok_def)
  have 1: "MallocMemory_key key_rt \<lparr>mem_malloced = False, memory_base_map = []\<rparr> \<lparr>dev_live = [], dev_tick = 0\<rparr> ''w'' 64 = (512, fst key_one, snd key_one)"
    by code_simp
  have 2: "MallocMemory_key key_rt (fst key_one) (snd key_one) ''w'' 64 = (512, fst key_two, snd key_two)" by code_simp
  have 3: "keyed_reach key_rt (fst key_one) (snd key_one) ((\<lambda>_. 0)(''w'' := 1))"
    using keyed_reach.malloc [OF 0 _ _ 1] by simp
  have "keyed_reach key_rt (fst key_two) (snd key_two) (((\<lambda>_. 0)(''w'' := 1))(''w'' := 1 + 1))"
    using keyed_reach.malloc [OF 3 _ _ 2] by simp
  then show ?thesis by (simp add: numeral_2_eq_2)
qed

text \<open>
  C16: Memory held under a key is reference counted: after any sequence of keyed mallocs of positive sizes and keyed frees the
  allocator has an entry for a key exactly when references to it are outstanding, the entry counts them, its memory is live on the
  device, and no other key shares the address.
\<close>

theorem keyed_memory_counted:
  assumes "runtime_ok rt" "keyed_reach rt ma dev c"
  shows "(case map_of (memory_base_map ma) k of None \<Rightarrow> c k = 0
    | Some info \<Rightarrow> 0 < c k \<and> memory_used_num info = int (c k) \<and> (memory_addr info, memory_size info) \<in> set (dev_live dev) \<and>
        (\<forall>k' info'. map_of (memory_base_map ma) k' = Some info' \<longrightarrow> k \<noteq> k' \<longrightarrow> memory_addr info \<noteq> memory_addr info'))"
proof -
  have i: "ma_inv ma dev" "counted ma c" using keyed_reach_inv [OF assms] by simp_all
  show ?thesis
  proof (cases "map_of (memory_base_map ma) k")
    case None
    then show ?thesis using i(2) by (auto simp: counted_def dest!: spec [of _ k])
  next
    case (Some info)
    moreover have "memory_used_num info = int (c k)" using countedD(1) [OF i(2) Some] .
    moreover have "1 \<le> memory_used_num info" using i(1) Some by (simp add: ma_inv_def)
    ultimately show ?thesis using i(1) by (simp add: ma_inv_def)
  qed
qed

theorem keyed_memory_counted_witness:
  "case map_of (memory_base_map (fst key_two)) ''w'' of None \<Rightarrow> False
    | Some info \<Rightarrow> memory_used_num info = 2 \<and> (memory_addr info, memory_size info) \<in> set (dev_live (snd key_two))"
  using keyed_memory_counted [OF key_rt_ok key_two_reach, of "''w''"] by (auto split: option.splits)

end
