(* ===== verification/Caching_Allocator.thy ===== *)
theory Caching_Allocator
  imports Block_Pool Graph_Mem_Allocator
begin

text \<open>
  The caching allocator of device memory (\<open>graph_caching_allocator.cc\<close>): device memory is requested in the sizes
  of eight bins, blocks are handed out by best fit, split when much larger than the request, and merged with their
  neighbours when they come back. Locks are left out: the operations run one after the other.
\<close>

section \<open>Sizes\<close>

definition kRoundBlockSize :: int where "kRoundBlockSize = 512"
definition kKByteSize :: int where "kKByteSize = 1024"
definition kMByteSize :: int where "kMByteSize = 1048576"
definition kGByteSize :: int where "kGByteSize = 1073741824"
definition kNumBins :: nat where "kNumBins = 8"

definition bin_ranges :: "int list" where
  "bin_ranges = [kRoundBlockSize * kKByteSize, 8 * kMByteSize, 32 * kMByteSize, 128 * kMByteSize,
     kGByteSize, 4 * kGByteSize, 16 * kGByteSize, 26 * kGByteSize]"

fun GetBinIndex_loop :: "int \<Rightarrow> int list \<Rightarrow> nat \<Rightarrow> nat" where
  "GetBinIndex_loop sz [] index = index"
| "GetBinIndex_loop sz (r # rs) index = (if sz \<le> r then index else GetBinIndex_loop sz rs (index + 1))"

definition GetBinIndex :: "int \<Rightarrow> nat" where
  "GetBinIndex sz = (let index = GetBinIndex_loop sz bin_ranges 0
     in if index > kNumBins - 1 then kNumBins - 1 else index)"

definition GetAllocationSize :: "int \<Rightarrow> int" where
  "GetAllocationSize sz = bin_ranges ! GetBinIndex sz"

definition GetBlockSize :: "int \<Rightarrow> int" where
  "GetBlockSize sz =
     (if sz = 0 then kRoundBlockSize
      else u64 (kRoundBlockSize * (u64 (sz + kRoundBlockSize - 1) div kRoundBlockSize)))"

text \<open>The comparison with \<open>block->size * 0.75\<close>, scaled by 4; a product with a power of two is exact.\<close>

definition ShouldSplit :: "Block \<Rightarrow> int \<Rightarrow> bool" where
  "ShouldSplit block sz \<longleftrightarrow> 4 * to_double sz \<le> to_double (3 * to_double (blk_size block))"

definition CanMerge :: "heap \<Rightarrow> nat option \<Rightarrow> bool res" where
  "CanMerge h block =
     (case block of None \<Rightarrow> Inr False | Some b \<Rightarrow> deref h b (\<lambda>B. Inr (\<not> (blk_allocated B \<or> \<not> IsSplit B))))"

section \<open>State\<close>

text \<open>
  \<open>ca_new\<close> numbers the objects created so far, so that \<open>new\<close> returns an unused identity; a bin is \<open>None\<close> before
  \<open>Initialize\<close> and after \<open>Finalize\<close>. \<open>allocated_blocks_\<close> is an association list.
\<close>

record CachingAllocator =
  ca_heap :: heap
  ca_new :: nat
  ca_bins :: "nat list option list"
  ca_allocated :: "(int \<times> nat) list"
  ca_memory_allocator :: bool
  ca_dev :: Device

definition new_CachingAllocator :: "Device \<Rightarrow> CachingAllocator" where
  "new_CachingAllocator dev = \<lparr>ca_heap = Map.empty, ca_new = 0, ca_bins = replicate kNumBins None,
     ca_allocated = [], ca_memory_allocator = False, ca_dev = dev\<rparr>"

definition create_block :: "runtime \<Rightarrow> Block \<Rightarrow> CachingAllocator \<Rightarrow> nat option \<times> CachingAllocator" where
  "create_block rt B st =
     (if rt_new rt (ca_new st)
      then (Some (ca_new st), st\<lparr>ca_heap := (ca_heap st)(ca_new st \<mapsto> B), ca_new := ca_new st + 1\<rparr>)
      else (None, st\<lparr>ca_new := ca_new st + 1\<rparr>))"

definition GetBlockBin :: "CachingAllocator \<Rightarrow> int \<Rightarrow> nat list option" where
  "GetBlockBin st sz = ca_bins st ! GetBinIndex sz"

section \<open>Freeing\<close>

definition MergeBlocks :: "CachingAllocator \<Rightarrow> nat \<Rightarrow> nat option \<Rightarrow> nat \<Rightarrow> CachingAllocator res" where
  "MergeBlocks st dst src bin =
     (case ca_bins st ! bin of
        None \<Rightarrow> Inl Fault
      | Some xs \<Rightarrow> and_then (merge_blocks CanMerge (ca_heap st) xs dst src)
          (\<lambda>(h, xs). Inr (st\<lparr>ca_heap := h, ca_bins := (ca_bins st)[bin := Some xs]\<rparr>)))"

definition FreeBlock :: "CachingAllocator \<Rightarrow> nat \<Rightarrow> CachingAllocator res" where
  "FreeBlock st block =
     deref (ca_heap st) block (\<lambda>B.
       if \<not> blk_allocated B then Inr st
       else
         let st = st\<lparr>ca_heap := (ca_heap st)(block \<mapsto> B\<lparr>blk_allocated := False\<rparr>)\<rparr>
         in case blk_bin B of
              None \<Rightarrow> Inl Fault
            | Some bin \<Rightarrow>
                and_then (MergeBlocks st block (blk_prev B) bin) (\<lambda>st.
                and_then (MergeBlocks st block (blk_next B) bin) (\<lambda>st.
                (case ca_bins st ! bin of
                   None \<Rightarrow> Inl Fault
                 | Some xs \<Rightarrow> and_then (bin_insert (ca_heap st) block xs) (\<lambda>xs.
                     Inr (st\<lparr>ca_bins := (ca_bins st)[bin := Some xs]\<rparr>))))))"

definition CachingFree :: "CachingAllocator \<Rightarrow> int \<Rightarrow> (Status \<times> CachingAllocator) res" where
  "CachingFree st ptr =
     (if ptr = 0 then Inr (PARAM_INVALID, st)
      else case map_of (ca_allocated st) ptr of
             None \<Rightarrow> Inr (PARAM_INVALID, st)
           | Some block \<Rightarrow>
               let st = st\<lparr>ca_allocated := AList.delete ptr (ca_allocated st)\<rparr>
               in and_then (FreeBlock st block) (\<lambda>st. Inr (SUCCESS, st)))"

text \<open>The blocks of one bin that fill their region go back to the device if \<open>rtFree\<close> accepts them;
  \<open>ma\<close> says that \<open>memory_allocator_\<close> is not null.\<close>

fun free_cached_bin :: "runtime \<Rightarrow> bool \<Rightarrow> nat list \<Rightarrow> heap \<Rightarrow> Device \<Rightarrow> (nat list \<times> heap \<times> Device) res" where
  "free_cached_bin rt ma [] h dev = Inr ([], h, dev)"
| "free_cached_bin rt ma (b # bs) h dev =
     deref h b (\<lambda>B.
       if blk_ptr B \<noteq> 0 \<and> blk_prev B = None \<and> blk_next B = None then
         if \<not> ma then Inl Fault
         else let (ret, dev) = FreeMemory rt dev (blk_ptr B)
         in if ret = SUCCESS then free_cached_bin rt ma bs (h(b := None)) dev
            else and_then (free_cached_bin rt ma bs h dev) (\<lambda>(xs, r). Inr (b # xs, r))
       else and_then (free_cached_bin rt ma bs h dev) (\<lambda>(xs, r). Inr (b # xs, r)))"

fun free_cached_bins :: "runtime \<Rightarrow> bool \<Rightarrow> nat list option list \<Rightarrow> heap \<Rightarrow> Device \<Rightarrow>
   (nat list option list \<times> heap \<times> Device) res" where
  "free_cached_bins rt ma [] h dev = Inr ([], h, dev)"
| "free_cached_bins rt ma (None # bins) h dev =
     and_then (free_cached_bins rt ma bins h dev) (\<lambda>(bins, r). Inr (None # bins, r))"
| "free_cached_bins rt ma (Some xs # bins) h dev =
     and_then (free_cached_bin rt ma xs h dev) (\<lambda>(xs, h, dev).
     and_then (free_cached_bins rt ma bins h dev) (\<lambda>(bins, r). Inr (Some xs # bins, r)))"

definition FreeCachedBlocks :: "runtime \<Rightarrow> CachingAllocator \<Rightarrow> CachingAllocator res" where
  "FreeCachedBlocks rt st =
     and_then (free_cached_bins rt (ca_memory_allocator st) (ca_bins st) (ca_heap st) (ca_dev st)) (\<lambda>(bins, h, dev).
       Inr (st\<lparr>ca_bins := bins, ca_heap := h, ca_dev := dev\<rparr>))"

fun free_all :: "(int \<times> nat) list \<Rightarrow> CachingAllocator \<Rightarrow> CachingAllocator res" where
  "free_all [] st = Inr st"
| "free_all ((p, b) # xs) st = and_then (FreeBlock st b) (free_all xs)"

definition FreeBlocks :: "runtime \<Rightarrow> CachingAllocator \<Rightarrow> CachingAllocator res" where
  "FreeBlocks rt st =
     and_then (free_all (ca_allocated st) st) (\<lambda>st. FreeCachedBlocks rt (st\<lparr>ca_allocated := []\<rparr>))"

definition FreeBlockBins :: "CachingAllocator \<Rightarrow> CachingAllocator" where
  "FreeBlockBins st = st\<lparr>ca_bins := map (\<lambda>_. None) (ca_bins st)\<rparr>"

section \<open>Allocation\<close>

definition SplitBlock :: "runtime \<Rightarrow> CachingAllocator \<Rightarrow> nat \<Rightarrow> int \<Rightarrow> nat \<Rightarrow> int \<Rightarrow> (nat \<times> CachingAllocator) res" where
  "SplitBlock rt st block sz bin device_id =
     deref (ca_heap st) block (\<lambda>B.
       case create_block rt (new_Block device_id sz (Some bin) (blk_ptr B)) st of
         (None, st) \<Rightarrow> Inr (block, st)
       | (Some nb, st) \<Rightarrow>
           let h = ca_heap st in
           and_then (write_block h nb (\<lambda>N. N\<lparr>blk_prev := blk_prev B\<rparr>)) (\<lambda>h.
           and_then (case blk_prev B of None \<Rightarrow> Inr h | Some p \<Rightarrow> write_block h p (\<lambda>P. P\<lparr>blk_next := Some nb\<rparr>)) (\<lambda>h.
           and_then (write_block h nb (\<lambda>N. N\<lparr>blk_next := Some block\<rparr>)) (\<lambda>h.
           and_then (write_block h block (\<lambda>B. B\<lparr>blk_prev := Some nb, blk_ptr := u64 (blk_ptr B + sz), blk_size := u64 (blk_size B - sz)\<rparr>)) (\<lambda>h.
           (case ca_bins st ! bin of
              None \<Rightarrow> Inl Fault
            | Some xs \<Rightarrow> and_then (bin_insert h block xs) (\<lambda>xs.
                Inr (nb, st\<lparr>ca_heap := h, ca_bins := (ca_bins st)[bin := Some xs]\<rparr>))))))))"

definition FindFreeBlock :: "runtime \<Rightarrow> CachingAllocator \<Rightarrow> int \<Rightarrow> int \<Rightarrow> int \<Rightarrow> (nat option \<times> CachingAllocator) res" where
  "FindFreeBlock rt st sz org_ptr device_id =
     (let key = new_Block device_id sz None (if org_ptr = 0 then 0 else u64 (org_ptr - 1))
      in case GetBlockBin st sz of
           None \<Rightarrow> Inr (None, st)
         | Some bin \<Rightarrow>
             and_then (bin_lower_bound (ca_heap st) key bin) (\<lambda>it.
             case it of
               None \<Rightarrow> Inr (None, st)
             | Some block \<Rightarrow>
                 let st = st\<lparr>ca_bins := (ca_bins st)[GetBinIndex sz := Some (remove1 block bin)]\<rparr>
                 in deref (ca_heap st) block (\<lambda>B.
                    and_then (if ShouldSplit B sz then SplitBlock rt st block sz (GetBinIndex sz) device_id else Inr (block, st)) (\<lambda>(block, st).
                    deref (ca_heap st) block (\<lambda>B.
                      if blk_ptr B \<noteq> 0
                      then Inr (Some block, st\<lparr>ca_heap := (ca_heap st)(block \<mapsto> B\<lparr>blk_allocated := True\<rparr>),
                                              ca_allocated := AList.update (blk_ptr B) block (ca_allocated st)\<rparr>)
                      else Inr (Some block, st))))))"

definition AddToBlockBin :: "runtime \<Rightarrow> CachingAllocator \<Rightarrow> int \<Rightarrow> int \<Rightarrow> int \<Rightarrow> (Status \<times> CachingAllocator) res" where
  "AddToBlockBin rt st ptr sz device_id =
     (case GetBlockBin st sz of
        None \<Rightarrow> Inr (FAILED, st)
      | Some bin \<Rightarrow>
          (case create_block rt (new_Block device_id sz (Some (GetBinIndex sz)) 0) st of
             (None, st) \<Rightarrow> Inr (FAILED, st)
           | (Some block, st) \<Rightarrow>
               and_then (write_block (ca_heap st) block (\<lambda>B. B\<lparr>blk_ptr := ptr, blk_size := sz\<rparr>)) (\<lambda>h.
               and_then (bin_insert h block bin) (\<lambda>bin.
                 Inr (SUCCESS, st\<lparr>ca_heap := h, ca_bins := (ca_bins st)[GetBinIndex sz := Some bin]\<rparr>)))))"

definition CachingMallocMemory :: "runtime \<Rightarrow> CachingAllocator \<Rightarrow> int \<Rightarrow> (int \<times> CachingAllocator) res" where
  "CachingMallocMemory rt st sz =
     (if \<not> ca_memory_allocator st then Inl Fault
      else let (addr, dev) = MallocMemory rt (ca_dev st) sz in Inr (addr, st\<lparr>ca_dev := dev\<rparr>))"

definition TryExtendCache :: "runtime \<Rightarrow> CachingAllocator \<Rightarrow> int \<Rightarrow> int \<Rightarrow> (Status \<times> CachingAllocator) res" where
  "TryExtendCache rt st sz device_id =
     (let memory_size = GetAllocationSize sz
      in and_then (CachingMallocMemory rt st memory_size) (\<lambda>(addr, st).
         and_then
           (if addr = 0 then and_then (FreeCachedBlocks rt st) (\<lambda>st. CachingMallocMemory rt st memory_size)
            else Inr (addr, st)) (\<lambda>(addr, st).
         if addr = 0 then Inr (FAILED, st)
         else and_then (AddToBlockBin rt st addr memory_size device_id) (\<lambda>(ret, st).
              if ret \<noteq> SUCCESS then Inr (FAILED, st\<lparr>ca_dev := snd (FreeMemory rt (ca_dev st) addr)\<rparr>)
              else Inr (SUCCESS, st)))))"

definition CachingMalloc :: "runtime \<Rightarrow> CachingAllocator \<Rightarrow> int \<Rightarrow> int \<Rightarrow> int \<Rightarrow> (int \<times> CachingAllocator) res" where
  "CachingMalloc rt st sz org_ptr device_id =
     (let sz = GetBlockSize sz
      in and_then (FindFreeBlock rt st sz org_ptr device_id) (\<lambda>(block, st).
         case block of
           Some b \<Rightarrow> deref (ca_heap st) b (\<lambda>B. Inr (blk_ptr B, st))
         | None \<Rightarrow>
             and_then (TryExtendCache rt st sz device_id) (\<lambda>(ret, st).
             if ret = SUCCESS then
               and_then (FindFreeBlock rt st sz org_ptr device_id) (\<lambda>(block, st).
               case block of
                 Some b \<Rightarrow> deref (ca_heap st) b (\<lambda>B. Inr (blk_ptr B, st))
               | None \<Rightarrow> Inr (0, st))
             else Inr (0, st))))"

section \<open>Initialisation\<close>

fun make_bins :: "runtime \<Rightarrow> nat list option list \<Rightarrow> nat \<Rightarrow> nat list option list \<times> nat \<times> bool" where
  "make_bins rt [] t = ([], t, True)"
| "make_bins rt (Some xs # bins) t = (let (bs, t, ok) = make_bins rt bins t in (Some xs # bs, t, ok))"
| "make_bins rt (None # bins) t =
     (if rt_new rt t then let (bs, t, ok) = make_bins rt bins (t + 1) in (Some [] # bs, t, ok)
      else (None # bins, t + 1, False))"

text \<open>\<open>MemManager::Instance\<close> falls back to a default allocator, so the pointer it returns is never null.\<close>

definition CachingInitialize :: "runtime \<Rightarrow> CachingAllocator \<Rightarrow> (Status \<times> CachingAllocator) res" where
  "CachingInitialize rt st =
     and_then (FreeBlocks rt st) (\<lambda>st.
       let (bins, t, ok) = make_bins rt (ca_bins st) (ca_new st);
           st = st\<lparr>ca_bins := bins, ca_new := t\<rparr>
       in if \<not> ok then Inr (ACL_ERROR_GE_MEMORY_ALLOCATION, st)
          else Inr (SUCCESS, st\<lparr>ca_memory_allocator := True\<rparr>))"

definition CachingFinalize :: "runtime \<Rightarrow> CachingAllocator \<Rightarrow> CachingAllocator res" where
  "CachingFinalize rt st = and_then (FreeBlocks rt st) (\<lambda>st. Inr (FreeBlockBins st))"


section \<open>Bin and block sizes\<close>

lemmas size_defs = kRoundBlockSize_def kKByteSize_def kMByteSize_def kGByteSize_def kNumBins_def

lemma GetBinIndex_eq:
  "GetBinIndex sz = (if sz \<le> 524288 then 0 else if sz \<le> 8388608 then 1 else if sz \<le> 33554432 then 2
     else if sz \<le> 134217728 then 3 else if sz \<le> 1073741824 then 4 else if sz \<le> 4294967296 then 5
     else if sz \<le> 17179869184 then 6 else 7)"
  by (simp add: GetBinIndex_def bin_ranges_def size_defs)

lemma GetBinIndex_less: "GetBinIndex sz < 8"
  by (simp add: GetBinIndex_eq)

lemma GetAllocationSize_eq:
  "GetAllocationSize sz = (if sz \<le> 524288 then 524288 else if sz \<le> 8388608 then 8388608 else if sz \<le> 33554432 then 33554432
     else if sz \<le> 134217728 then 134217728 else if sz \<le> 1073741824 then 1073741824 else if sz \<le> 4294967296 then 4294967296
     else if sz \<le> 17179869184 then 17179869184 else 27917287424)"
  by (simp add: GetAllocationSize_def GetBinIndex_eq bin_ranges_def size_defs)

lemma GetBinIndex_alloc: "GetBinIndex (GetAllocationSize sz) = GetBinIndex sz"
  by (simp add: GetAllocationSize_eq GetBinIndex_eq)

lemma GetAllocationSize_bounds: "0 < GetAllocationSize sz" "GetAllocationSize sz \<le> 27917287424" "512 dvd GetAllocationSize sz"
  by (auto simp: GetAllocationSize_eq)

lemma GetAllocationSize_ge: "sz \<le> 27917287424 \<Longrightarrow> sz \<le> GetAllocationSize sz"
  by (simp add: GetAllocationSize_eq)

lemma GetBlockSize_ok:
  assumes "0 \<le> sz" "sz + 511 < 2 ^ 64"
  shows "512 dvd GetBlockSize sz" "0 < GetBlockSize sz" "sz \<le> GetBlockSize sz" "GetBlockSize sz < sz + 512 \<or> sz = 0"
proof -
  have "GetBlockSize sz = (if sz = 0 then 512 else 512 * ((sz + 511) div 512))"
    using assms by (simp add: GetBlockSize_def size_defs u64_def add.commute)
  then show "512 dvd GetBlockSize sz" "0 < GetBlockSize sz" "sz \<le> GetBlockSize sz" "GetBlockSize sz < sz + 512 \<or> sz = 0"
    using assms by (auto; linarith)+
qed

lemma ShouldSplit_exact:
  assumes "0 \<le> sz" "sz \<le> blk_size B" "blk_size B \<le> 27917287424"
  shows "ShouldSplit B sz \<longleftrightarrow> 4 * sz \<le> 3 * blk_size B"
  using assms by (simp add: ShouldSplit_def to_double_def)

interpretation cp: block_pool Some 8 512 CanMerge
  by unfold_locales (auto simp: CanMerge_def)

section \<open>Invariant\<close>

text \<open>
  The blocks form a pool over regions of live device memory, none larger than the largest bin; identities are
  fresh; without a memory allocator there are no blocks. \<open>alloc_inv\<close>: the table \<open>allocated_blocks_\<close> holds exactly
  the allocated blocks.
\<close>

definition cache_inv :: "(int \<times> int) set \<Rightarrow> CachingAllocator \<Rightarrow> bool" where
  "cache_inv R st \<longleftrightarrow> pool_inv Some 8 512 {} R (ca_heap st) (ca_bins st) \<and> device_ok (ca_dev st) \<and>
     R \<subseteq> set (dev_live (ca_dev st)) \<and> (\<forall>a n. (a, n) \<in> R \<longrightarrow> n \<le> 27917287424) \<and>
     (\<forall>b. ca_new st \<le> b \<longrightarrow> ca_heap st b = None) \<and> (\<not> ca_memory_allocator st \<longrightarrow> ca_heap st = Map.empty)"

definition alloc_inv :: "CachingAllocator \<Rightarrow> bool" where
  "alloc_inv st \<longleftrightarrow> table_inv (ca_allocated st) (ca_heap st)"

definition caching_inv :: "(int \<times> int) set \<Rightarrow> CachingAllocator \<Rightarrow> bool" where
  "caching_inv R st \<longleftrightarrow> cache_inv R st \<and> alloc_inv st"

definition bins_made :: "CachingAllocator \<Rightarrow> bool" where
  "bins_made st \<longleftrightarrow> length (ca_bins st) = 8 \<and> None \<notin> set (ca_bins st)"

definition caching_ready :: "CachingAllocator \<Rightarrow> bool" where
  "caching_ready st \<longleftrightarrow> bins_made st \<and> ca_memory_allocator st"

lemma cache_invD:
  assumes "cache_inv R st"
  shows "pool_inv Some 8 512 {} R (ca_heap st) (ca_bins st)" "chain_inv R (ca_heap st)" "length (ca_bins st) = 8"
    "device_ok (ca_dev st)" "R \<subseteq> set (dev_live (ca_dev st))" "\<And>a n. (a, n) \<in> R \<Longrightarrow> n \<le> 27917287424"
    "\<And>b. ca_new st \<le> b \<Longrightarrow> ca_heap st b = None" "\<not> ca_memory_allocator st \<Longrightarrow> ca_heap st = Map.empty"
  using assms by (auto simp: cache_inv_def pool_inv_def bins_inv_def)

lemma bins_made_update: "bins_made st \<Longrightarrow> bins_made (st\<lparr>ca_bins := (ca_bins st)[i := Some xs]\<rparr>)"
  by (auto simp: bins_made_def dest: set_update_subset_insert [THEN subsetD])

lemma block_small:
  assumes "cache_inv R st" "ca_heap st b = Some B"
  shows "0 < blk_size B" "blk_size B \<le> 27917287424" "0 < blk_ptr B" "blk_end B \<le> 2 ^ 64"
proof -
  note ch = cache_invD(2) [OF assms(1)]
  show "0 < blk_size B" using chain_size [OF ch assms(2)] .
  obtain a n where "(a, n) \<in> R" "a \<le> blk_ptr B" "blk_end B \<le> a + n" using ch assms(2) by (rule chain_region)
  with cache_invD(6) [OF assms(1)] show "blk_size B \<le> 27917287424" by fastforce
  show "0 < blk_ptr B" "blk_end B \<le> 2 ^ 64" using chain_ptr [OF ch assms(2)] by auto
qed

section \<open>Freeing keeps the invariant\<close>

lemma FreeBlock_ok:
  assumes inv: "cache_inv R st" and b: "ca_heap st b = Some B" "blk_allocated B"
  obtains st' where "FreeBlock st b = Inr st'" "cache_inv R st'"
    "allocs (ca_heap st') = allocs (ca_heap st) - {(b, blk_ptr B, blk_size B)}"
    "ca_allocated st' = ca_allocated st" "ca_dev st' = ca_dev st" "ca_memory_allocator st' = ca_memory_allocator st"
    "bins_made st \<longrightarrow> bins_made st'"
proof -
  note p = cache_invD(1) [OF inv]
  obtain i xs where i: "i < 8" "blk_bin B = Some i" "ca_bins st ! i = Some xs"
    using bins_invE [OF cp.poolD(2) [OF p] b(1)] by metis
  obtain h1 xs1 h2 xs2 ys where m:
    "merge_blocks CanMerge ((ca_heap st)(b \<mapsto> B\<lparr>blk_allocated := False\<rparr>)) xs b (blk_prev B) = Inr (h1, xs1)"
    "merge_blocks CanMerge h1 xs1 b (blk_next B) = Inr (h2, xs2)" "bin_insert h2 b xs2 = Inr ys"
    "pool_inv Some 8 512 {} R h2 ((ca_bins st)[i := Some ys])"
    "allocs h2 = allocs (ca_heap st) - {(b, blk_ptr B, blk_size B)}" "dom h2 \<subseteq> dom (ca_heap st)"
    using cp.free_ok [OF p b i] by metis
  let ?st = "st\<lparr>ca_heap := h2, ca_bins := (ca_bins st)[i := Some ys]\<rparr>"
  have len: "i < length (ca_bins st)" using i cache_invD(3) [OF inv] by simp
  have "FreeBlock st b = Inr ?st"
    using b i m len by (simp add: FreeBlock_def MergeBlocks_def Let_def)
  moreover have "cache_inv R ?st"
    using inv m(4,6) b(1) unfolding cache_inv_def by (auto simp: dom_def)
  moreover have "bins_made st \<longrightarrow> bins_made ?st" using bins_made_update [of st i ys] by (simp add: bins_made_def)
  ultimately show thesis using m(5) by (intro that [of ?st]) simp_all
qed


lemma CachingFree_ok:
  assumes inv: "caching_inv R st" and b: "map_of (ca_allocated st) p = Some b"
  obtains st' s where "CachingFree st p = Inr (SUCCESS, st')" "caching_inv R st'" "(b, p, s) \<in> allocs (ca_heap st)"
    "allocs (ca_heap st') = allocs (ca_heap st) - {(b, p, s)}" "ca_dev st' = ca_dev st" "caching_ready st \<longrightarrow> caching_ready st'"
proof -
  have c: "cache_inv R st" and a: "alloc_inv st" using inv by (auto simp: caching_inv_def)
  obtain B where B: "ca_heap st b = Some B" "blk_allocated B" "blk_ptr B = p" using a b by (auto simp: alloc_inv_def table_inv_def in_allocs)
  let ?st = "st\<lparr>ca_allocated := AList.delete p (ca_allocated st)\<rparr>"
  have c': "cache_inv R ?st" using c by (simp add: cache_inv_def)
  obtain st' where st': "FreeBlock ?st b = Inr st'" "cache_inv R st'" "allocs (ca_heap st') = allocs (ca_heap st) - {(b, p, blk_size B)}"
    "ca_allocated st' = AList.delete p (ca_allocated st)" "ca_dev st' = ca_dev st" "ca_memory_allocator st' = ca_memory_allocator st"
    "bins_made st \<longrightarrow> bins_made st'"
    using FreeBlock_ok [OF c', of b B] B by (auto simp: bins_made_def)
  have in_al: "(b, p, blk_size B) \<in> allocs (ca_heap st)" using B by (auto simp: in_allocs)
  have "p \<noteq> 0" using block_small(3) [OF c B(1)] B(3) by simp
  then have "CachingFree st p = Inr (SUCCESS, st')" using b st'(1) by (simp add: CachingFree_def Let_def)
  moreover have "caching_inv R st'"
    using st'(2,4) table_inv_delete [OF cache_invD(2) [OF c] _ in_al st'(3)] a by (simp add: caching_inv_def alloc_inv_def)
  ultimately show thesis using that in_al st' by (auto simp: caching_ready_def)
qed

section \<open>Returning cached memory to the device\<close>

definition region_inv :: "(int \<times> int) set \<Rightarrow> heap \<Rightarrow> nat list option list \<Rightarrow> Device \<Rightarrow> bool" where
  "region_inv R h bins dev \<longleftrightarrow> pool_inv Some 8 512 {} R h bins \<and> device_ok dev \<and> R \<subseteq> set (dev_live dev)"

text \<open>What a pass over bins may change: regions go back to the device, nothing allocated is touched.\<close>

definition released ::
  "(int \<times> int) set \<Rightarrow> heap \<Rightarrow> Device \<Rightarrow> (int \<times> int) set \<Rightarrow> heap \<Rightarrow> Device \<Rightarrow> bool" where
  "released R h dev R' h' dev' \<longleftrightarrow> R' \<subseteq> R \<and> set (dev_live dev') = set (dev_live dev) - (R - R') \<and>
     allocs h' = allocs h \<and> h' \<subseteq>\<^sub>m h"

lemma released_refl: "set (dev_live dev') = set (dev_live dev) \<Longrightarrow> released R h dev R h dev'"
  by (simp add: released_def)

lemma released_trans: "released R h dev R1 h1 dev1 \<Longrightarrow> released R1 h1 dev1 R2 h2 dev2 \<Longrightarrow> released R h dev R2 h2 dev2"
  unfolding released_def by (auto intro: map_le_trans)

lemma release_block:
  assumes inv: "region_inv R h bins dev" and i: "i < 8" "bins ! i = Some xs" and b: "b \<in> set xs" "h b = Some B"
    and B: "blk_prev B = None" "blk_next B = None" and f: "FreeMemory rt dev (blk_ptr B) = (SUCCESS, dev')"
  obtains R' where "region_inv R' (h(b := None)) (bins[i := Some (remove1 b xs)]) dev'" "released R h dev R' (h(b := None)) dev'"
proof -
  let ?r = "(blk_ptr B, blk_size B)"
  have p: "pool_inv Some 8 512 {} R h bins" and dev: "device_ok dev" "R \<subseteq> set (dev_live dev)"
    using inv by (auto simp: region_inv_def)
  have r: "?r \<in> R" using whole_region [OF cp.poolD(1) [OF p] b(2) B] .
  have live: "set (dev_live dev') = set (dev_live dev) - {?r}" using FreeMemory_ok(3) [OF dev(1) f] r dev(2) by auto
  note d = cp.drop_region_pool [OF p i b B]
  have "region_inv (R - {?r}) (h(b := None)) (bins[i := Some (remove1 b xs)]) dev'"
    using d(1) FreeMemory_ok(1) [OF dev(1) f] live dev(2) by (auto simp: region_inv_def)
  moreover have "released R h dev (R - {?r}) (h(b := None)) dev'"
    using live d(2) r by (auto simp: released_def map_le_def)
  ultimately show thesis by (rule that)
qed

lemma free_cached_bin_ok:
  assumes "region_inv R h (bins[i := Some (ks @ bs)]) dev" "i < 8" "length bins = 8" "ma \<or> h = Map.empty"
  shows "\<exists>ys R' h' dev'. free_cached_bin rt ma bs h dev = Inr (ys, h', dev') \<and>
     region_inv R' h' (bins[i := Some (ks @ ys)]) dev' \<and> released R h dev R' h' dev' \<and>
     ((\<forall>t a. rt_free rt t a) \<longrightarrow> (\<forall>b\<in>set ys. \<forall>B. h b = Some B \<longrightarrow> IsSplit B))"
  using assms
proof (induction bs arbitrary: ks R h dev)
  case Nil
  then show ?case by (auto intro!: released_refl)
next
  case (Cons b bs)
  let ?bins = "bins[i := Some (ks @ b # bs)]"
  have p: "pool_inv Some 8 512 {} R h ?bins" using Cons.prems(1) by (simp add: region_inv_def)
  have bin: "?bins ! i = Some (ks @ b # bs)" using Cons.prems by simp
  have srt: "bin_sorted h (ks @ b # bs)" using bins_invD(1) [OF cp.poolD(2) [OF p] Cons.prems(2) bin] .
  then obtain B where B: "h b = Some B" by (auto simp: bin_sorted_def)
  have ma: "ma" using Cons.prems(4) B by auto
  have rem: "remove1 b (ks @ b # bs) = ks @ bs" using bin_sorted_distinct [OF srt] by (simp add: remove1_append)
  have ptr: "blk_ptr B \<noteq> 0" using chain_ptr(1) [OF cp.poolD(1) [OF p] B] by simp
  obtain ret dev1 where f: "FreeMemory rt dev (blk_ptr B) = (ret, dev1)" by (cases "FreeMemory rt dev (blk_ptr B)")
  have keep: ?case if pre: "region_inv R h ?bins d" "set (dev_live d) = set (dev_live dev)"
      and eq: "free_cached_bin rt ma (b # bs) h dev = and_then (free_cached_bin rt ma bs h d) (\<lambda>(xs, r). Inr (b # xs, r))"
      and sp: "(\<forall>t a. rt_free rt t a) \<longrightarrow> IsSplit B" for d
  proof -
    have pre': "region_inv R h (bins[i := Some ((ks @ [b]) @ bs)]) d" using pre(1) by simp
    obtain ys R' h' dev' where ys: "free_cached_bin rt ma bs h d = Inr (ys, h', dev')"
      "region_inv R' h' (bins[i := Some ((ks @ [b]) @ ys)]) dev'" "released R h d R' h' dev'"
      "(\<forall>t a. rt_free rt t a) \<longrightarrow> (\<forall>b\<in>set ys. \<forall>B. h b = Some B \<longrightarrow> IsSplit B)"
      using Cons.IH [OF pre' Cons.prems(2,3)] ma by blast
    then show ?thesis using eq sp B pre(2) by (intro exI [of _ "b # ys"] exI [of _ R'] exI [of _ h'] exI [of _ dev'])
      (auto simp: released_def)
  qed
  show ?case
  proof (cases "blk_prev B = None \<and> blk_next B = None")
    case False
    then show ?thesis using Cons.prems(1) B by (intro keep [of dev]) (auto simp: IsSplit_def)
  next
    case whole: True
    show ?thesis
    proof (cases "ret = SUCCESS")
      case False
      have dev: "device_ok dev" using Cons.prems(1) by (simp add: region_inv_def)
      have "region_inv R h ?bins dev1" using Cons.prems(1) FreeMemory_ok(1,2) [OF dev f] False by (simp add: region_inv_def)
      moreover have "\<not> (\<forall>t a. rt_free rt t a)" using f False by (auto simp: FreeMemory_def split: if_splits)
      ultimately show ?thesis
        using FreeMemory_ok(2) [OF dev f] False B whole f ma ptr by (intro keep [of dev1]) auto
    next
      case True
      obtain R1 where R1: "region_inv R1 (h(b := None)) (bins[i := Some (ks @ bs)]) dev1" "released R h dev R1 (h(b := None)) dev1"
        using release_block [OF Cons.prems(1,2) bin _ B] whole f True rem by auto
      obtain ys R' h' dev' where ys: "free_cached_bin rt ma bs (h(b := None)) dev1 = Inr (ys, h', dev')"
        "region_inv R' h' (bins[i := Some (ks @ ys)]) dev'" "released R1 (h(b := None)) dev1 R' h' dev'"
        "(\<forall>t a. rt_free rt t a) \<longrightarrow> (\<forall>x\<in>set ys. \<forall>X. (h(b := None)) x = Some X \<longrightarrow> IsSplit X)"
        using Cons.IH [OF R1(1) Cons.prems(2,3)] ma by blast
      have "b \<notin> set ys"
      proof
        assume "b \<in> set ys"
        moreover have "pool_inv Some 8 512 {} R' h' (bins[i := Some (ks @ ys)])" using ys(2) by (simp add: region_inv_def)
        then have "bin_sorted h' (ks @ ys)"
          by (rule bins_invD(1) [OF cp.poolD(2) Cons.prems(2)]) (use Cons.prems(2,3) in simp)
        ultimately have "h' b \<noteq> None" by (auto simp: bin_sorted_def)
        with ys(3) show False by (auto simp: released_def map_le_def dom_def)
      qed
      then have "(\<forall>t a. rt_free rt t a) \<longrightarrow> (\<forall>x\<in>set ys. \<forall>X. h x = Some X \<longrightarrow> IsSplit X)" using ys(4) by (metis fun_upd_other)
      moreover have "free_cached_bin rt ma (b # bs) h dev = Inr (ys, h', dev')" using B whole True f ma ptr ys(1) by simp
      ultimately show ?thesis using ys(2) released_trans [OF R1(2) ys(3)] by blast
    qed
  qed
qed

end
