(* ===== verification/Caching_Correct.thy ===== *)
theory Caching_Correct
  imports Caching_Allocator
begin

text \<open>
  The operations of the caching allocator keep its invariant, and what they return: releasing the cache, extending
  it, and searching a block.
\<close>

section \<open>Releasing the cache\<close>

lemma map_le_emptyD: "h \<subseteq>\<^sub>m Map.empty \<Longrightarrow> h = Map.empty"
  by (metis map_le_antisym map_le_empty)

lemma free_cached_bins_ok:
  assumes "region_inv R h (pre @ bins) dev" "length (pre @ bins) = 8" "ma \<or> h = Map.empty"
  shows "\<exists>ys R' h' dev'. free_cached_bins rt ma bins h dev = Inr (ys, h', dev') \<and> map ((=) None) ys = map ((=) None) bins \<and>
     region_inv R' h' (pre @ ys) dev' \<and> released R h dev R' h' dev' \<and>
     ((\<forall>t a. rt_free rt t a) \<longrightarrow> (\<forall>xs b B. Some xs \<in> set ys \<longrightarrow> b \<in> set xs \<longrightarrow> h b = Some B \<longrightarrow> IsSplit B))"
  using assms
proof (induction bins arbitrary: pre R h dev)
  case Nil
  then show ?case by (auto intro!: released_refl)
next
  case (Cons bin bins)
  show ?case
  proof (cases bin)
    case None
    have "region_inv R h ((pre @ [None]) @ bins) dev" "length ((pre @ [None]) @ bins) = 8" using Cons.prems None by simp_all
    from Cons.IH [OF this Cons.prems(3)] obtain ys R' h' dev' where "free_cached_bins rt ma bins h dev = Inr (ys, h', dev')"
      "map ((=) None) ys = map ((=) None) bins" "region_inv R' h' ((pre @ [None]) @ ys) dev'" "released R h dev R' h' dev'"
      "(\<forall>t a. rt_free rt t a) \<longrightarrow> (\<forall>xs b B. Some xs \<in> set ys \<longrightarrow> b \<in> set xs \<longrightarrow> h b = Some B \<longrightarrow> IsSplit B)" by blast
    then show ?thesis using None by (intro exI [of _ "None # ys"] exI [of _ R'] exI [of _ h'] exI [of _ dev']) simp
  next
    case (Some xs)
    let ?i = "length pre" and ?bins = "pre @ Some xs # bins"
    have upd: "?bins[?i := Some zs] = pre @ Some zs # bins" for zs by simp
    have "region_inv R h (?bins[?i := Some ([] @ xs)]) dev" "?i < 8" "length ?bins = 8" using Cons.prems Some by simp_all
    from free_cached_bin_ok [OF this Cons.prems(3), of rt] obtain ys R1 h1 dev1
      where y: "free_cached_bin rt ma xs h dev = Inr (ys, h1, dev1)" "region_inv R1 h1 (pre @ Some ys # bins) dev1"
        "released R h dev R1 h1 dev1" "(\<forall>t a. rt_free rt t a) \<longrightarrow> (\<forall>b\<in>set ys. \<forall>B. h b = Some B \<longrightarrow> IsSplit B)"
      unfolding upd append_Nil by blast
    have "region_inv R1 h1 ((pre @ [Some ys]) @ bins) dev1" "length ((pre @ [Some ys]) @ bins) = 8" "ma \<or> h1 = Map.empty"
      using y(2,3) Cons.prems by (auto simp: released_def dest: map_le_emptyD)
    from Cons.IH [OF this] obtain zs R' h' dev' where z: "free_cached_bins rt ma bins h1 dev1 = Inr (zs, h', dev')"
      "map ((=) None) zs = map ((=) None) bins" "region_inv R' h' ((pre @ [Some ys]) @ zs) dev'" "released R1 h1 dev1 R' h' dev'"
      "(\<forall>t a. rt_free rt t a) \<longrightarrow> (\<forall>xs b B. Some xs \<in> set zs \<longrightarrow> b \<in> set xs \<longrightarrow> h1 b = Some B \<longrightarrow> IsSplit B)" by blast
    have split: "IsSplit B" if t: "\<forall>t a. rt_free rt t a" "Some us \<in> set (Some ys # zs)" "b \<in> set us" "h b = Some B" for us b B
    proof (cases "us = ys")
      case True
      then show ?thesis using y(4) t by blast
    next
      case False
      then have us: "Some us \<in> set zs" using t by simp
      obtain j where j: "j < length zs" "zs ! j = Some us" using us by (auto simp: in_set_conv_nth)
      have p: "pool_inv Some 8 512 {} R' h' ((pre @ [Some ys]) @ zs)" using z(3) by (simp add: region_inv_def)
      have l: "length pre + 1 + j < 8" using j z(2) Cons.prems(2) by (auto dest: map_eq_imp_length_eq)
      have "bin_sorted h' us"
        using j by (intro bins_invD(1) [OF cp.poolD(2) [OF p] l]) (simp add: nth_append)
      then obtain B' where "h' b = Some B'" using t(3) by (cases "h' b") (auto simp: bin_sorted_def)
      then have h1: "h1 b = Some B'" using z(4) by (auto simp: released_def map_le_def dom_def)
      then have "B' = B" using y(3) t(4) by (auto simp: released_def map_le_def dom_def)
      then show ?thesis using z(5) t(1,3) us h1 by blast
    qed
    show ?thesis
      using Some y z split released_trans [OF y(3) z(4)]
      by (intro exI [of _ "Some ys # zs"] exI [of _ R'] exI [of _ h'] exI [of _ dev'] conjI impI allI) simp_all
  qed
qed

text \<open>What releasing the cache changes of the allocator.\<close>

lemma FreeCachedBlocks_ok:
  assumes inv: "cache_inv R st"
  obtains st' R' where "FreeCachedBlocks rt st = Inr st'" "cache_inv R' st'" "R' \<subseteq> R"
    "set (dev_live (ca_dev st')) = set (dev_live (ca_dev st)) - (R - R')"
    "allocs (ca_heap st') = allocs (ca_heap st)" "ca_allocated st' = ca_allocated st"
    "ca_memory_allocator st' = ca_memory_allocator st" "bins_made st' = bins_made st" "ca_new st' = ca_new st"
    "map ((=) None) (ca_bins st') = map ((=) None) (ca_bins st)"
    "(\<forall>t a. rt_free rt t a) \<longrightarrow> (\<forall>b B. ca_heap st' b = Some B \<longrightarrow> \<not> blk_allocated B \<longrightarrow> IsSplit B)"
proof -
  note I = cache_invD [OF inv]
  have "region_inv R (ca_heap st) ([] @ ca_bins st) (ca_dev st)" "length ([] @ ca_bins st) = 8"
    "ca_memory_allocator st \<or> ca_heap st = Map.empty"
    using I(1,3,4,5,8) by (auto simp: region_inv_def)
  from free_cached_bins_ok [OF this, of rt] obtain bins R' h' dev'
    where r: "free_cached_bins rt (ca_memory_allocator st) (ca_bins st) (ca_heap st) (ca_dev st) = Inr (bins, h', dev')"
      "map ((=) None) bins = map ((=) None) (ca_bins st)" "region_inv R' h' bins dev'" "released R (ca_heap st) (ca_dev st) R' h' dev'"
      "(\<forall>t a. rt_free rt t a) \<longrightarrow> (\<forall>xs b B. Some xs \<in> set bins \<longrightarrow> b \<in> set xs \<longrightarrow> ca_heap st b = Some B \<longrightarrow> IsSplit B)"
    unfolding append_Nil by blast
  let ?st = "st\<lparr>ca_bins := bins, ca_heap := h', ca_dev := dev'\<rparr>"
  have le: "h' \<subseteq>\<^sub>m ca_heap st" using r(4) by (simp add: released_def)
  have none: "h' b = None" if "ca_heap st b = None" for b
    using le that by (cases "h' b") (auto simp: map_le_def dom_def)
  have "R' \<subseteq> R" using r(4) by (simp add: released_def)
  then have inv': "cache_inv R' ?st"
    using r(3) I(6,7,8) none by (auto simp: cache_inv_def region_inv_def)
  have "length bins = length (ca_bins st)" using r(2) by (rule map_eq_imp_length_eq)
  moreover have "None \<in> set bins \<longleftrightarrow> None \<in> set (ca_bins st)"
    using arg_cong [OF r(2), of set] by (auto simp: image_iff)
  ultimately have made: "bins_made ?st = bins_made st" by (simp add: bins_made_def)
  have "IsSplit B" if fr: "\<forall>t a. rt_free rt t a" "h' b = Some B" "\<not> blk_allocated B" for b B
  proof -
    have p: "pool_inv Some 8 512 {} R' h' bins" using r(3) by (simp add: region_inv_def)
    obtain i xs where "i < 8" "bins ! i = Some xs" "b \<in> set xs"
      using bins_invE [OF cp.poolD(2) [OF p] fr(2)] fr(3) by (metis empty_iff)
    moreover have "i < length bins" using \<open>i < 8\<close> p by (simp add: pool_inv_def bins_inv_def)
    ultimately have "Some xs \<in> set bins" using nth_mem by metis
    moreover have "ca_heap st b = Some B" using le fr(2) by (auto simp: map_le_def dom_def)
    ultimately show ?thesis using r(5) fr(1) \<open>b \<in> set xs\<close> by blast
  qed
  then show thesis
    using r(1,4) inv' made r(2) by (intro that [of ?st R']) (auto simp: FreeCachedBlocks_def released_def)
qed


text \<open>Freeing the entries of the table one after the other.\<close>

lemma free_all_ok:
  assumes "cache_inv R st" "distinct (map fst xs)" "\<And>p b. (p, b) \<in> set xs \<Longrightarrow> \<exists>s. (b, p, s) \<in> allocs (ca_heap st)"
  obtains st' where "free_all xs st = Inr st'" "cache_inv R st'" "ca_dev st' = ca_dev st"
    "ca_memory_allocator st' = ca_memory_allocator st" "bins_made st \<longrightarrow> bins_made st'"
    "allocs (ca_heap st') = {(b, p, s). (b, p, s) \<in> allocs (ca_heap st) \<and> p \<notin> fst ` set xs}"
proof -
  have "\<exists>st'. free_all xs st = Inr st' \<and> cache_inv R st' \<and> ca_dev st' = ca_dev st \<and>
    ca_memory_allocator st' = ca_memory_allocator st \<and> (bins_made st \<longrightarrow> bins_made st') \<and>
    allocs (ca_heap st') = {(b, p, s). (b, p, s) \<in> allocs (ca_heap st) \<and> p \<notin> fst ` set xs}"
    using assms
  proof (induction xs arbitrary: st)
    case (Cons x xs)
    obtain p b where x: "x = (p, b)" by (cases x)
    note inv = Cons.prems(1)
    obtain B where B: "ca_heap st b = Some B" "blk_allocated B" "blk_ptr B = p"
      using Cons.prems(3) [of p b] x by (auto simp: in_allocs)
    obtain st1 where st1: "FreeBlock st b = Inr st1" "cache_inv R st1"
      "allocs (ca_heap st1) = allocs (ca_heap st) - {(b, blk_ptr B, blk_size B)}"
      "ca_dev st1 = ca_dev st" "ca_memory_allocator st1 = ca_memory_allocator st" "bins_made st \<longrightarrow> bins_made st1"
      using inv B(1,2) by (rule FreeBlock_ok)
    have al: "(b, p, blk_size B) \<in> allocs (ca_heap st)" using B by (auto simp: in_allocs)
    have "\<exists>s. (c, q, s) \<in> allocs (ca_heap st1)" if "(q, c) \<in> set xs" for q c
    proof -
      have "q \<noteq> p" using that Cons.prems(2) x by (auto simp: rev_image_eqI)
      then show ?thesis using Cons.prems(3) [of q c] that st1(3) B(3) by auto
    qed
    with Cons.IH [OF st1(2)] Cons.prems(2) obtain st2 where st2: "free_all xs st1 = Inr st2" "cache_inv R st2" "ca_dev st2 = ca_dev st1"
      "ca_memory_allocator st2 = ca_memory_allocator st1" "bins_made st1 \<longrightarrow> bins_made st2"
      "allocs (ca_heap st2) = {(b, p, s). (b, p, s) \<in> allocs (ca_heap st1) \<and> p \<notin> fst ` set xs}" by auto
    have "(c, q, s) \<noteq> (b, blk_ptr B, blk_size B) \<longleftrightarrow> q \<noteq> p" if "(c, q, s) \<in> allocs (ca_heap st)" for c q s
      using allocs_ptr_unique [OF cache_invD(2) [OF inv] al, of c s] that B(3) by auto
    then have "allocs (ca_heap st2) = {(b, p, s). (b, p, s) \<in> allocs (ca_heap st) \<and> p \<notin> fst ` set (x # xs)}"
      unfolding st2(6) st1(3) x by auto
    with st1 st2 x show ?case by simp
  qed auto
  with that show thesis by blast
qed

text \<open>Free neighbours have been merged: with nothing allocated, every block is a region of its own.\<close>

lemma all_free_whole:
  assumes inv: "cache_inv R st" and none: "allocs (ca_heap st) = {}" and B: "ca_heap st b = Some B"
  shows "blk_prev B = None \<and> blk_next B = None \<and> \<not> blk_allocated B"
proof -
  note ch = cache_invD(2) [OF inv]
  have free: "\<not> blk_allocated C" if "ca_heap st c = Some C" for c C
    using none that by (auto simp: allocs_def)
  have lone: "blk_next C = None" if C: "ca_heap st c = Some C" for c C
  proof (rule ccontr)
    assume "blk_next C \<noteq> None"
    then obtain d where n: "blk_next C = Some d" by blast
    obtain D where "ca_heap st d = Some D" using chain_next_ex [OF ch C n] by blast
    with cp.poolD(3) [OF cache_invD(1) [OF inv]] C n free show False unfolding coalesced_def by blast
  qed
  have "blk_prev B = None"
  proof (rule ccontr)
    assume "blk_prev B \<noteq> None"
    then obtain d where "blk_prev B = Some d" by blast
    then show False using chain_prev_ex [OF ch B] lone by fastforce
  qed
  with lone [OF B] free [OF B] show ?thesis by simp
qed

lemma FreeBlocks_ok:
  assumes inv: "caching_inv R st"
  obtains st' R' where "FreeBlocks rt st = Inr st'" "caching_inv R' st'" "R' \<subseteq> R"
    "set (dev_live (ca_dev st')) = set (dev_live (ca_dev st)) - (R - R')" "allocs (ca_heap st') = {}" "ca_allocated st' = []"
    "ca_memory_allocator st' = ca_memory_allocator st" "bins_made st \<longrightarrow> bins_made st'"
    "(\<forall>t a. rt_free rt t a) \<longrightarrow> ca_heap st' = Map.empty \<and> R' = {}"
proof -
  have c: "cache_inv R st" and a: "alloc_inv st" using inv by (auto simp: caching_inv_def)
  have d: "distinct (map fst (ca_allocated st))" using a by (simp add: alloc_inv_def table_inv_def)
  have ex: "\<exists>s. (b, p, s) \<in> allocs (ca_heap st)" if "(p, b) \<in> set (ca_allocated st)" for p b
    using a that d by (auto simp: alloc_inv_def table_inv_def)
  obtain st1 where st1: "free_all (ca_allocated st) st = Inr st1" "cache_inv R st1" "ca_dev st1 = ca_dev st"
    "ca_memory_allocator st1 = ca_memory_allocator st" "bins_made st \<longrightarrow> bins_made st1"
    "allocs (ca_heap st1) = {(b, p, s). (b, p, s) \<in> allocs (ca_heap st) \<and> p \<notin> fst ` set (ca_allocated st)}"
    using free_all_ok [OF c d ex] by blast
  have "p \<in> fst ` set (ca_allocated st)" if "(b, p, s) \<in> allocs (ca_heap st)" for b p s
  proof -
    have "map_of (ca_allocated st) p = Some b" using a that by (auto simp: alloc_inv_def table_inv_def)
    then show ?thesis by (auto dest!: map_of_SomeD intro: rev_image_eqI)
  qed
  then have al: "allocs (ca_heap st1) = {}" unfolding st1(6) by auto
  let ?st = "st1\<lparr>ca_allocated := []\<rparr>"
  have c1: "cache_inv R ?st" using st1(2) by (simp add: cache_inv_def)
  obtain st' R' where st': "FreeCachedBlocks rt ?st = Inr st'" "cache_inv R' st'" "R' \<subseteq> R"
    "set (dev_live (ca_dev st')) = set (dev_live (ca_dev ?st)) - (R - R')" "allocs (ca_heap st') = allocs (ca_heap ?st)"
    "ca_allocated st' = ca_allocated ?st" "ca_memory_allocator st' = ca_memory_allocator ?st" "bins_made st' = bins_made ?st"
    "(\<forall>t a. rt_free rt t a) \<longrightarrow> (\<forall>b B. ca_heap st' b = Some B \<longrightarrow> \<not> blk_allocated B \<longrightarrow> IsSplit B)"
    using c1 by (rule FreeCachedBlocks_ok)
  have "ca_heap st' = Map.empty \<and> R' = {}" if fr: "\<forall>t a. rt_free rt t a"
  proof -
    note p = cache_invD(1) [OF st'(2)]
    have "ca_heap st' b = None" for b
      using st'(9) fr all_free_whole [OF st'(2), of b] st'(5) al by (cases "ca_heap st' b") (fastforce simp: IsSplit_def)+
    then have "ca_heap st' = Map.empty" by blast
    moreover have "R' = {}" using cp.poolD(4) [OF p] \<open>ca_heap st' = Map.empty\<close> by (auto simp: covered_def)
    ultimately show ?thesis ..
  qed
  moreover have "caching_inv R' st'" using st'(2,5,6) al by (simp add: caching_inv_def alloc_inv_def table_inv_def)
  moreover have "FreeBlocks rt st = Inr st'" using st1(1) st'(1) by (simp add: FreeBlocks_def)
  ultimately show thesis
    using st' st1 al by (intro that [of st' R']) (auto simp: bins_made_def)
qed


section \<open>Handing out a block\<close>

definition env_inv :: "(int \<times> int) set \<Rightarrow> CachingAllocator \<Rightarrow> bool" where
  "env_inv R st \<longleftrightarrow> device_ok (ca_dev st) \<and> R \<subseteq> set (dev_live (ca_dev st)) \<and> (\<forall>a n. (a, n) \<in> R \<longrightarrow> n \<le> 27917287424) \<and>
     (\<forall>b. ca_new st \<le> b \<longrightarrow> ca_heap st b = None) \<and> (\<not> ca_memory_allocator st \<longrightarrow> ca_heap st = Map.empty)"

lemma cache_inv_env: "cache_inv R st \<longleftrightarrow> pool_inv Some 8 512 {} R (ca_heap st) (ca_bins st) \<and> env_inv R st"
  by (simp add: cache_inv_def env_inv_def)

text \<open>The block is marked and entered into the table.\<close>

definition hand_out :: "nat \<Rightarrow> Block \<Rightarrow> CachingAllocator \<Rightarrow> CachingAllocator" where
  "hand_out b B st = st\<lparr>ca_heap := (ca_heap st)(b \<mapsto> B\<lparr>blk_allocated := True\<rparr>),
     ca_allocated := AList.update (blk_ptr B) b (ca_allocated st)\<rparr>"

lemma hand_out_ok:
  assumes p: "pool_inv Some 8 512 {b} R (ca_heap st1) (ca_bins st1)" and B: "ca_heap st1 b = Some B" "\<not> blk_allocated B"
    and env: "env_inv R st1" and a: "alloc_inv st" "allocs (ca_heap st1) = allocs (ca_heap st)" "ca_allocated st1 = ca_allocated st"
  shows "caching_inv R (hand_out b B st1)"
    "allocs (ca_heap (hand_out b B st1)) = insert (b, blk_ptr B, blk_size B) (allocs (ca_heap st))"
    "map_of (ca_allocated st) (blk_ptr B) = None"
proof -
  let ?st = "hand_out b B st1"
  have "b < ca_new st1" using env B by (auto simp: env_inv_def not_le [symmetric])
  then have c: "cache_inv R ?st"
    using cp.set_flag [OF p B(1)] env B(1) by (auto simp: cache_inv_def env_inv_def hand_out_def)
  have nb: "(b, q, t) \<notin> allocs (ca_heap st)" for q t
    using a(2) B by (metis in_allocs option.inject)
  show al: "allocs (ca_heap ?st) = insert (b, blk_ptr B, blk_size B) (allocs (ca_heap st))"
    using nb by (auto simp: hand_out_def allocs_upd a(2) split_paired_all)
  have "alloc_inv ?st"
    using table_inv_update [OF cache_invD(2) [OF c] a(1) [unfolded alloc_inv_def] al] by (simp add: alloc_inv_def hand_out_def a(3))
  with c show "caching_inv R ?st" by (simp add: caching_inv_def)
  show "map_of (ca_allocated st) (blk_ptr B) = None"
  proof (rule ccontr)
    assume "map_of (ca_allocated st) (blk_ptr B) \<noteq> None"
    then obtain c t where ct: "(c, blk_ptr B, t) \<in> allocs (ca_heap st)" using a(1) by (auto simp: alloc_inv_def table_inv_def)
    then have "b = c" using allocs_ptr_unique [OF cache_invD(2) [OF c], of b "blk_ptr B" "blk_size B" c t] al by auto
    with ct nb show False by blast
  qed
qed

lemma SplitBlock_fail:
  assumes "ca_heap st b = Some B" "\<not> rt_new rt (ca_new st)"
  shows "SplitBlock rt st b sz bin device_id = Inr (b, st\<lparr>ca_new := ca_new st + 1\<rparr>)"
  using assms by (simp add: SplitBlock_def create_block_def)

lemma SplitBlock_ok:
  assumes p: "pool_inv Some 8 512 {b} R (ca_heap st) (ca_bins st)" and env: "env_inv R st"
    and B: "ca_heap st b = Some B" "\<not> blk_allocated B" "used (ca_heap st) (blk_next B)" "blk_bin B = Some i"
    and sz: "0 < sz" "sz < blk_size B" "512 dvd sz" and i: "i < 8" "ca_bins st ! i = Some xs" and new: "rt_new rt (ca_new st)"
  obtains st' where "SplitBlock rt st b sz i device_id = Inr (ca_new st, st')" "env_inv R st'"
    "pool_inv Some 8 512 {ca_new st} R (ca_heap st') (ca_bins st')" "allocs (ca_heap st') = allocs (ca_heap st)"
    "ca_heap st' (ca_new st) = Some ((new_Block device_id sz (Some i) (blk_ptr B))\<lparr>blk_prev := blk_prev B, blk_next := Some b\<rparr>)"
    "ca_allocated st' = ca_allocated st" "ca_dev st' = ca_dev st" "ca_memory_allocator st' = ca_memory_allocator st"
    "bins_made st \<longrightarrow> bins_made st'"
proof -
  let ?c = "ca_new st" and ?N = "new_Block device_id sz (Some i) (blk_ptr B)" and ?h = "ca_heap st"
  have c: "?h ?c = None" using env by (simp add: env_inv_def)
  then have bc: "b \<noteq> ?c" using B(1) by auto
  have ch: "chain_inv R ?h" using p by (simp add: pool_inv_def)
  have N: "0 < blk_size ?N" "blk_size ?N < blk_size B" "512 dvd blk_size ?N" "blk_ptr ?N = blk_ptr B" "blk_bin ?N = blk_bin B"
    "\<not> blk_allocated ?N" using sz B(4) by (simp_all add: new_Block_def)
  obtain ys where ys: "bin_insert (split_front ?h b B ?c ?N) b xs = Inr ys"
    "pool_inv Some 8 512 {?c} R (split_front ?h b B ?c ?N) ((ca_bins st)[i := Some ys])"
    "allocs (split_front ?h b B ?c ?N) = allocs ?h"
    using cp.split_front_pool [OF p B(1-3) c N i(1) B(4) i(2)] by blast
  let ?h' = "split_front ?h b B ?c ?N"
  let ?st = "st\<lparr>ca_heap := ?h', ca_new := ca_new st + 1, ca_bins := (ca_bins st)[i := Some ys]\<rparr>"
  have size: "u64 (blk_ptr B + sz) = blk_ptr B + sz" "u64 (blk_size B - sz) = blk_size B - sz"
    using chain_ptr [OF ch B(1)] sz by (simp_all add: u64_def)
  have "SplitBlock rt st b sz i device_id = Inr (?c, ?st)"
  proof (cases "blk_prev B")
    case None
    have "?h(?c \<mapsto> ?N\<lparr>blk_prev := None, blk_next := Some b\<rparr>, b \<mapsto> B\<lparr>blk_prev := Some ?c, blk_ptr := blk_ptr B + sz, blk_size := blk_size B - sz\<rparr>)
        = ?h'"
      using None bc by (intro ext) (auto simp: split_front_def new_Block_def)
    with None bc B new i ys size show ?thesis
      by (simp add: SplitBlock_def create_block_def Let_def new_Block_def)
  next
    case (Some q)
    obtain Q where Q: "?h q = Some Q" "b \<noteq> q" using chain_prev_ex [OF ch B(1) Some] by blast
    have qc: "q \<noteq> ?c" using Q c by auto
    have "?h(?c \<mapsto> ?N\<lparr>blk_prev := Some q\<rparr>, q \<mapsto> Q\<lparr>blk_next := Some ?c\<rparr>, ?c \<mapsto> ?N\<lparr>blk_prev := Some q, blk_next := Some b\<rparr>,
        b \<mapsto> B\<lparr>blk_prev := Some ?c, blk_ptr := blk_ptr B + sz, blk_size := blk_size B - sz\<rparr>) = ?h'"
      using Some bc Q qc by (intro ext) (auto simp: split_front_def new_Block_def)
    with Some bc B new i ys size Q qc show ?thesis
      by (simp add: SplitBlock_def create_block_def Let_def new_Block_def)
  qed
  moreover have "ca_memory_allocator st" using env B(1) by (auto simp: env_inv_def)
  moreover have "b < ca_new st" using env B(1) by (auto simp: env_inv_def not_le [symmetric])
  ultimately have "env_inv R ?st" "SplitBlock rt st b sz i device_id = Inr (?c, ?st)"
    using env by (auto simp: env_inv_def split_front_def)
  moreover have "bins_made st \<longrightarrow> bins_made ?st" using bins_made_update [of st i ys] by (simp add: bins_made_def)
  ultimately show thesis
    using ys by (intro that [of ?st]) (simp_all add: split_front_def)
qed


text \<open>The hint: the address the search starts from among the blocks of the requested size.\<close>

definition hint :: "int \<Rightarrow> int" where
  "hint org_ptr = (if org_ptr = 0 then 0 else u64 (org_ptr - 1))"

lemma FindFreeBlock_ok:
  assumes inv: "caching_inv R st" and sz: "0 < sz" "512 dvd sz"
  obtains (none) "FindFreeBlock rt st sz org_ptr device_id = Inr (None, st)"
      "\<And>xs b B. GetBlockBin st sz = Some xs \<Longrightarrow> b \<in> set xs \<Longrightarrow> ca_heap st b = Some B \<Longrightarrow> block_key B < (sz, hint org_ptr)"
    | (found) b B st' where "FindFreeBlock rt st sz org_ptr device_id = Inr (Some b, st')" "caching_inv R st'"
      "ca_heap st' b = Some B" "blk_allocated B" "sz \<le> blk_size B" "rt_new rt (ca_new st) \<longrightarrow> 3 * blk_size B < 4 * sz"
      "allocs (ca_heap st') = insert (b, blk_ptr B, blk_size B) (allocs (ca_heap st))"
      "map_of (ca_allocated st) (blk_ptr B) = None" "ca_dev st' = ca_dev st" "caching_ready st \<longrightarrow> caching_ready st'"
      "ca_allocated st' = AList.update (blk_ptr B) b (ca_allocated st)"
proof -
  let ?i = "GetBinIndex sz" and ?key = "new_Block device_id sz None (hint org_ptr)"
  have c: "cache_inv R st" and a: "alloc_inv st" using inv by (auto simp: caching_inv_def)
  note p = cache_invD(1) [OF c]
  have key: "block_key ?key = (sz, hint org_ptr)" by (simp add: block_key_def new_Block_def)
  show thesis
  proof (cases "ca_bins st ! ?i")
    case None
    then show thesis by (intro none) (simp_all add: FindFreeBlock_def GetBlockBin_def)
  next
    case (Some xs)
    note ff = FindFreeBlock_def GetBlockBin_def hint_def [symmetric]
    have srt: "bin_sorted (ca_heap st) xs" using bins_invD(1) [OF cp.poolD(2) [OF p] GetBinIndex_less Some] .
    from bin_lower_bound_ok [OF srt, of ?key] show thesis
    proof (elim disjE conjE exE)
      assume "bin_lower_bound (ca_heap st) ?key xs = Inr None"
        and low: "\<forall>x\<in>set xs. \<forall>X. ca_heap st x = Some X \<longrightarrow> block_key X < block_key ?key"
      then have "FindFreeBlock rt st sz org_ptr device_id = Inr (None, st)" using Some by (simp add: ff)
      then show thesis by (rule none) (use Some low key in \<open>auto simp: GetBlockBin_def\<close>)
    next
      fix b X assume lb: "bin_lower_bound (ca_heap st) ?key xs = Inr (Some b)" and bx: "b \<in> set xs"
        and X: "ca_heap st b = Some X" and ge: "block_key ?key \<le> block_key X"
      let ?st = "st\<lparr>ca_bins := (ca_bins st)[?i := Some (remove1 b xs)]\<rparr>"
      obtain B where B: "ca_heap st b = Some B" "\<not> blk_allocated B" "blk_bin B = Some ?i" "used (ca_heap st) (blk_next B)"
        and pb: "pool_inv Some 8 512 {b} R (ca_heap ?st) (ca_bins ?st)"
        using cp.take_block [OF p GetBinIndex_less Some bx] by auto
      have size: "sz \<le> blk_size B" using ge B(1) X by (auto simp: key block_key_def new_Block_def)
      note small = block_small [OF c B(1)]
      have split: "ShouldSplit B sz \<longleftrightarrow> 4 * sz \<le> 3 * blk_size B" using sz size small by (intro ShouldSplit_exact) auto
      have env: "env_inv R ?st" using c by (simp add: cache_inv_env env_inv_def)
      have made: "bins_made st \<longrightarrow> bins_made ?st" using bins_made_update by blast
      have len: "?i < length (ca_bins st)" using GetBinIndex_less cache_invD(3) [OF c] by simp
      have find: "FindFreeBlock rt st sz org_ptr device_id =
          and_then (if ShouldSplit B sz then SplitBlock rt ?st b sz ?i device_id else Inr (b, ?st)) (\<lambda>(block, st).
            deref (ca_heap st) block (\<lambda>B. if blk_ptr B \<noteq> 0 then Inr (Some block, hand_out block B st) else Inr (Some block, st)))"
        unfolding hand_out_def using Some lb B(1) by (simp add: ff Let_def)
      have out: thesis
        if st1: "(if ShouldSplit B sz then SplitBlock rt ?st b sz ?i device_id else Inr (b, ?st)) = Inr (d, st1)"
          and p1: "pool_inv Some 8 512 {d} R (ca_heap st1) (ca_bins st1)" and D: "ca_heap st1 d = Some D" "\<not> blk_allocated D"
          and e1: "env_inv R st1" "allocs (ca_heap st1) = allocs (ca_heap st)" "ca_allocated st1 = ca_allocated st"
            "ca_dev st1 = ca_dev st" "caching_ready st \<longrightarrow> caching_ready st1"
          and s1: "sz \<le> blk_size D" "rt_new rt (ca_new st) \<longrightarrow> 3 * blk_size D < 4 * sz" for d D st1
      proof -
        note h = hand_out_ok [OF p1 D e1(1) a e1(2,3)]
        have "chain_inv R (ca_heap st1)" using p1 by (simp add: pool_inv_def)
        from chain_ptr(1) [OF this D(1)] have "blk_ptr D \<noteq> 0" by simp
        then have "FindFreeBlock rt st sz org_ptr device_id = Inr (Some d, hand_out d D st1)"
          unfolding find st1 using D by simp
        then show thesis
          by (rule found [where B = "D\<lparr>blk_allocated := True\<rparr>", OF _ h(1)])
            (use h s1 e1 in \<open>simp_all add: hand_out_def caching_ready_def bins_made_def\<close>)
      qed
      show thesis
      proof (cases "ShouldSplit B sz")
        case False
        then show thesis
          using pb B env size split made by (intro out [of b ?st B]) (simp_all add: caching_ready_def)
      next
        case sp: True
        show thesis
        proof (cases "rt_new rt (ca_new st)")
          case False
          then show thesis
            using pb B env size sp made SplitBlock_fail [of ?st b B rt sz ?i device_id]
            by (intro out [of b "?st\<lparr>ca_new := ca_new st + 1\<rparr>" B]) (simp_all add: caching_ready_def bins_made_def env_inv_def)
        next
          case True
          have lt: "sz < blk_size B" using sp split sz by simp
          have B': "ca_heap ?st b = Some B" "used (ca_heap ?st) (blk_next B)" and n': "rt_new rt (ca_new ?st)" using B True by simp_all
          have bin: "ca_bins ?st ! ?i = Some (remove1 b xs)" using len by simp
          obtain st1 where st1: "SplitBlock rt ?st b sz ?i device_id = Inr (ca_new ?st, st1)" "env_inv R st1"
            "pool_inv Some 8 512 {ca_new ?st} R (ca_heap st1) (ca_bins st1)" "allocs (ca_heap st1) = allocs (ca_heap ?st)"
            "ca_heap st1 (ca_new ?st) = Some ((new_Block device_id sz (Some ?i) (blk_ptr B))\<lparr>blk_prev := blk_prev B, blk_next := Some b\<rparr>)"
            "ca_allocated st1 = ca_allocated ?st" "ca_dev st1 = ca_dev ?st" "ca_memory_allocator st1 = ca_memory_allocator ?st"
            "bins_made ?st \<longrightarrow> bins_made st1"
            by (rule SplitBlock_ok [OF pb env B'(1) B(2) B'(2) B(3) sz(1) lt sz(2) GetBinIndex_less bin n'])
          show thesis
            using sp sz st1 made by (intro out [OF _ st1(3,5)]) (simp_all add: caching_ready_def new_Block_def)
        qed
      qed
    qed
  qed
qed


section \<open>Extending the cache\<close>

text \<open>The allocator after device memory has been obtained for it.\<close>

lemma AddToBlockBin_ok:
  assumes inv: "caching_inv R st" and ready: "bins_made st" "ca_memory_allocator st"
    and r: "(a, n) \<in> set (dev_live (ca_dev st))" "(a, n) \<notin> R" "512 dvd n" "n \<le> 27917287424"
  obtains (failed) "AddToBlockBin rt st a n device_id = Inr (FAILED, st\<lparr>ca_new := ca_new st + 1\<rparr>)" "\<not> rt_new rt (ca_new st)"
    | (added) st' b B where "AddToBlockBin rt st a n device_id = Inr (SUCCESS, st')" "caching_inv (insert (a, n) R) st'"
      "allocs (ca_heap st') = allocs (ca_heap st)" "ca_allocated st' = ca_allocated st" "ca_dev st' = ca_dev st" "caching_ready st'"
      "ca_heap st' b = Some B" "blk_size B = n" "blk_ptr B = a" "\<not> blk_allocated B" "blk_bin B = Some (GetBinIndex n)"
proof -
  have c: "cache_inv R st" and al: "alloc_inv st" using inv by (auto simp: caching_inv_def)
  note I = cache_invD [OF c]
  have len: "GetBinIndex n < length (ca_bins st)" using GetBinIndex_less I(3) by simp
  obtain xs where xs: "ca_bins st ! GetBinIndex n = Some xs"
    using ready(1) nth_mem [OF len] by (cases "ca_bins st ! GetBinIndex n") (auto simp: bins_made_def)
  let ?b = "ca_new st" and ?B = "new_Block device_id n (Some (GetBinIndex n)) a"
  show thesis
  proof (cases "rt_new rt (ca_new st)")
    case False
    then show thesis using xs by (intro failed) (simp_all add: AddToBlockBin_def GetBlockBin_def create_block_def)
  next
    case True
    have h: "ca_heap st ?b = None" using I(7) by simp
    have "regions_ok (set (dev_live (ca_dev st)))" using I(4) by (simp add: device_ok_def)
    then have reg: "regions_ok (insert (a, n) R)" using I(5) r(1) unfolding regions_ok_def by blast
    have B: "blk_prev ?B = None" "blk_next ?B = None" "\<not> blk_allocated ?B" "512 dvd blk_size ?B" "blk_bin ?B = Some (GetBinIndex n)"
      "blk_ptr ?B = a" "blk_size ?B = n" using r by (simp_all add: new_Block_def)
    obtain ys where ys: "bin_insert ((ca_heap st)(?b \<mapsto> ?B)) ?b xs = Inr ys"
      "pool_inv Some 8 512 {} (insert (a, n) R) ((ca_heap st)(?b \<mapsto> ?B)) ((ca_bins st)[GetBinIndex n := Some ys])"
      "allocs ((ca_heap st)(?b \<mapsto> ?B)) = allocs (ca_heap st)"
      using cp.add_region_pool [OF I(1) h, of ?B "GetBinIndex n" xs] reg r B GetBinIndex_less xs by metis
    let ?st = "st\<lparr>ca_heap := (ca_heap st)(?b \<mapsto> ?B), ca_new := ca_new st + 1, ca_bins := (ca_bins st)[GetBinIndex n := Some ys]\<rparr>"
    have "AddToBlockBin rt st a n device_id = Inr (SUCCESS, ?st)"
      using xs True ys(1) by (simp add: AddToBlockBin_def GetBlockBin_def create_block_def new_Block_def)
    moreover have "caching_inv (insert (a, n) R) ?st"
      using ys(2,3) I r ready al by (auto simp: caching_inv_def cache_inv_def alloc_inv_def table_inv_def)
    moreover have "caching_ready ?st" using ready bins_made_update [of st "GetBinIndex n" ys] by (simp add: caching_ready_def bins_made_def)
    ultimately show thesis using ys(3) B by (intro added [of ?st ?b ?B]) simp_all
  qed
qed

lemma CachingMallocMemory_ok:
  assumes rt: "runtime_ok rt" and inv: "caching_inv R st" and ready: "caching_ready st" and n: "0 < n"
  obtains (failed) st' where "CachingMallocMemory rt st n = Inr (0, st')" "caching_inv R st'" "st' = st\<lparr>ca_dev := ca_dev st'\<rparr>"
      "rt_malloc rt (dev_tick (ca_dev st)) (dev_live (ca_dev st)) n = None"
    | (got) a st' where "CachingMallocMemory rt st n = Inr (a, st')" "caching_inv R st'" "st' = st\<lparr>ca_dev := ca_dev st'\<rparr>" "a \<noteq> 0"
      "(a, n) \<in> set (dev_live (ca_dev st'))" "(a, n) \<notin> set (dev_live (ca_dev st))" "set (dev_live (ca_dev st)) \<subseteq> set (dev_live (ca_dev st'))"
proof -
  have c: "cache_inv R st" using inv by (simp add: caching_inv_def)
  obtain a dev' where m: "MallocMemory rt (ca_dev st) n = (a, dev')" by (cases "MallocMemory rt (ca_dev st) n")
  note ok = MallocMemory_ok [OF rt cache_invD(4) [OF c] n m]
  let ?st = "st\<lparr>ca_dev := dev'\<rparr>"
  have call: "CachingMallocMemory rt st n = Inr (a, ?st)" using ready m by (simp add: CachingMallocMemory_def caching_ready_def)
  have "caching_inv R ?st" using inv ok cache_invD(5) [OF c] by (auto simp: caching_inv_def cache_inv_def alloc_inv_def table_inv_def)
  moreover have "a = 0 \<Longrightarrow> rt_malloc rt (dev_tick (ca_dev st)) (dev_live (ca_dev st)) n = None"
    using m rt by (force simp: MallocMemory_def runtime_ok_def split: option.splits)
  ultimately show thesis
    using call ok(2) by (cases "a = 0") (rule failed [of ?st], simp_all, rule got [of a ?st], auto)
qed


lemma FreeMemory_env:
  assumes inv: "caching_inv R st" and r: "(a, n) \<in> set (dev_live (ca_dev st))" "(a, n) \<notin> R"
  shows "caching_inv R (st\<lparr>ca_dev := snd (FreeMemory rt (ca_dev st) a)\<rparr>)"
proof -
  have c: "cache_inv R st" using inv by (simp add: caching_inv_def)
  obtain ret dev where f: "FreeMemory rt (ca_dev st) a = (ret, dev)" by (cases "FreeMemory rt (ca_dev st) a")
  note ok = FreeMemory_ok [OF cache_invD(4) [OF c] f]
  have "R \<subseteq> set (dev_live dev)" using ok(2,3) r cache_invD(5) [OF c] by (cases "ret = SUCCESS") auto
  with ok(1) inv f show ?thesis by (simp add: caching_inv_def cache_inv_def alloc_inv_def table_inv_def)
qed

text \<open>The end of \<open>TryExtendCache\<close>, once memory has been obtained.\<close>

definition add_region :: "runtime \<Rightarrow> int \<Rightarrow> int \<Rightarrow> int \<Rightarrow> CachingAllocator \<Rightarrow> (Status \<times> CachingAllocator) res" where
  "add_region rt addr n device_id st =
     and_then (AddToBlockBin rt st addr n device_id) (\<lambda>(ret, st).
       if ret \<noteq> SUCCESS then Inr (FAILED, st\<lparr>ca_dev := snd (FreeMemory rt (ca_dev st) addr)\<rparr>)
       else Inr (SUCCESS, st))"

definition extended :: "int \<Rightarrow> CachingAllocator \<Rightarrow> bool" where
  "extended sz st \<longleftrightarrow> (\<exists>b B. ca_heap st b = Some B \<and> blk_size B = GetAllocationSize sz \<and> \<not> blk_allocated B \<and> 0 < blk_ptr B \<and>
     blk_bin B = Some (GetBinIndex sz))"

lemma add_region_ok:
  assumes inv: "caching_inv R st" and ready: "caching_ready st"
    and r: "(a, GetAllocationSize sz) \<in> set (dev_live (ca_dev st))" "(a, GetAllocationSize sz) \<notin> R"
  shows "\<exists>ret st' R'. add_region rt a (GetAllocationSize sz) device_id st = Inr (ret, st') \<and> caching_inv R' st' \<and> caching_ready st' \<and>
     allocs (ca_heap st') = allocs (ca_heap st) \<and> ca_allocated st' = ca_allocated st \<and>
     (ret = SUCCESS \<and> extended sz st' \<or> ret = FAILED \<and> \<not> rt_new rt (ca_new st))"
proof -
  let ?n = "GetAllocationSize sz"
  have made: "bins_made st" "ca_memory_allocator st" using ready by (auto simp: caching_ready_def)
  from inv made r GetAllocationSize_bounds(3,2) show ?thesis
  proof (cases rule: AddToBlockBin_ok [where rt = rt and device_id = device_id])
    case failed
    let ?st = "st\<lparr>ca_new := ca_new st + 1\<rparr>"
    have "caching_inv R ?st" using inv by (simp add: caching_inv_def cache_inv_def alloc_inv_def table_inv_def)
    from FreeMemory_env [OF this, of a ?n rt] r
    have "caching_inv R (?st\<lparr>ca_dev := snd (FreeMemory rt (ca_dev st) a)\<rparr>)" by simp
    with failed made show ?thesis by (auto simp: add_region_def caching_ready_def bins_made_def)
  next
    case (added st' b B)
    have "0 < a" using cache_invD(4) inv r(1) regions_pos by (fastforce simp: caching_inv_def device_ok_def)
    with added have "extended sz st'" by (auto simp: extended_def GetBinIndex_alloc)
    with added show ?thesis by (auto simp: add_region_def)
  qed
qed

lemma TryExtendCache_ok:
  assumes rt: "runtime_ok rt" and inv: "caching_inv R st" and ready: "caching_ready st"
  obtains ret st' R' where "TryExtendCache rt st sz device_id = Inr (ret, st')" "caching_inv R' st'" "caching_ready st'"
    "allocs (ca_heap st') = allocs (ca_heap st)" "ca_allocated st' = ca_allocated st"
    "ret = SUCCESS \<and> extended sz st' \<or> ret = FAILED \<and>
       (rt_malloc rt (dev_tick (ca_dev st)) (dev_live (ca_dev st)) (GetAllocationSize sz) = None \<or> \<not> rt_new rt (ca_new st))"
proof -
  let ?n = "GetAllocationSize sz"
  have ext: "TryExtendCache rt st sz device_id =
     and_then (CachingMallocMemory rt st ?n) (\<lambda>(addr, st).
       and_then (if addr = 0 then and_then (FreeCachedBlocks rt st) (\<lambda>st. CachingMallocMemory rt st ?n) else Inr (addr, st)) (\<lambda>(addr, st).
         if addr = 0 then Inr (FAILED, st) else add_region rt addr ?n device_id st))"
    unfolding TryExtendCache_def Let_def add_region_def by simp
  have live: "R1 \<subseteq> set (dev_live (ca_dev st1))" if "caching_inv R1 st1" for R1 st1
    using that cache_invD(5) by (auto simp: caching_inv_def)
  from rt inv ready GetAllocationSize_bounds(1) show thesis
  proof (cases rule: CachingMallocMemory_ok [where n = ?n])
    case (got a st1)
    have "ca_bins st1 = ca_bins st" "ca_memory_allocator st1 = ca_memory_allocator st" by (subst got(3); simp)+
    then have "caching_ready st1" using ready by (simp add: caching_ready_def bins_made_def)
    moreover have "(a, ?n) \<notin> R" using live [OF inv] got(6) by blast
    ultimately obtain ret st' R' where "add_region rt a ?n device_id st1 = Inr (ret, st')" "caching_inv R' st'" "caching_ready st'"
      "allocs (ca_heap st') = allocs (ca_heap st1)" "ca_allocated st' = ca_allocated st1"
      "ret = SUCCESS \<and> extended sz st' \<or> ret = FAILED \<and> \<not> rt_new rt (ca_new st1)"
      using add_region_ok [OF got(2) _ got(5)] by blast
    moreover have "ca_heap st1 = ca_heap st" "ca_allocated st1 = ca_allocated st" "ca_new st1 = ca_new st" by (subst got(3); simp)+
    ultimately show thesis using got(1,4) by (intro that [of ret st' R']) (auto simp: ext)
  next
    case (failed st1)
    have eq1: "ca_heap st1 = ca_heap st" "ca_allocated st1 = ca_allocated st" "ca_new st1 = ca_new st" "ca_bins st1 = ca_bins st"
      "ca_memory_allocator st1 = ca_memory_allocator st" by (subst failed(3); simp)+
    have c1: "cache_inv R st1" and al1: "alloc_inv st1" using failed(2) by (auto simp: caching_inv_def)
    obtain st2 R2 where st2: "FreeCachedBlocks rt st1 = Inr st2" "cache_inv R2 st2" "allocs (ca_heap st2) = allocs (ca_heap st1)"
      "ca_allocated st2 = ca_allocated st1" "ca_memory_allocator st2 = ca_memory_allocator st1" "bins_made st2 = bins_made st1"
      using c1 by (rule FreeCachedBlocks_ok)
    have inv2: "caching_inv R2 st2" and ready2: "caching_ready st2"
      using st2 al1 ready eq1 by (simp_all add: caching_inv_def alloc_inv_def table_inv_def caching_ready_def bins_made_def)
    from rt inv2 ready2 GetAllocationSize_bounds(1) show thesis
    proof (cases rule: CachingMallocMemory_ok [where n = ?n])
      case f2: (failed st3)
      have eq3: "ca_heap st3 = ca_heap st2" "ca_allocated st3 = ca_allocated st2" "ca_bins st3 = ca_bins st2"
        "ca_memory_allocator st3 = ca_memory_allocator st2" by (subst f2(3); simp)+
      have "TryExtendCache rt st sz device_id = Inr (FAILED, st3)" using failed(1) st2(1) f2(1) by (simp add: ext)
      then show thesis
        using f2(2) ready2 eq1 eq3 st2 failed(4) by (intro that [of FAILED st3 R2]) (simp_all add: caching_ready_def bins_made_def)
    next
      case (got a st3)
      have eq3: "ca_heap st3 = ca_heap st2" "ca_allocated st3 = ca_allocated st2" "ca_bins st3 = ca_bins st2"
        "ca_memory_allocator st3 = ca_memory_allocator st2" by (subst got(3); simp)+
      have "caching_ready st3" using ready2 eq3 by (simp add: caching_ready_def bins_made_def)
      moreover have "(a, ?n) \<notin> R2" using live [OF inv2] got(6) by blast
      ultimately obtain ret st' R' where "add_region rt a ?n device_id st3 = Inr (ret, st')" "caching_inv R' st'" "caching_ready st'"
        "allocs (ca_heap st') = allocs (ca_heap st3)" "ca_allocated st' = ca_allocated st3"
        "ret = SUCCESS \<and> extended sz st' \<or> ret = FAILED \<and> \<not> rt_new rt (ca_new st3)"
        using add_region_ok [OF got(2) _ got(5)] by blast
      then show thesis
        using failed(1,4) st2 got(1,4) eq1 eq3 by (intro that [of ret st' R']) (auto simp: ext)
    qed
  qed
qed


section \<open>Malloc\<close>

lemma FindFreeBlock_extended:
  assumes inv: "caching_inv R st" and ext: "extended sz st" and sz: "0 < sz" "512 dvd sz" "sz \<le> 27917287424"
    and room: "org_ptr = 0 \<or> sz < GetAllocationSize sz"
  shows "FindFreeBlock rt st sz org_ptr device_id \<noteq> Inr (None, st')"
proof
  assume none': "FindFreeBlock rt st sz org_ptr device_id = Inr (None, st')"
  obtain b B where B: "ca_heap st b = Some B" "blk_size B = GetAllocationSize sz" "\<not> blk_allocated B" "0 < blk_ptr B"
    "blk_bin B = Some (GetBinIndex sz)" using ext by (auto simp: extended_def)
  have c: "cache_inv R st" using inv by (simp add: caching_inv_def)
  obtain i xs where "i < 8" "blk_bin B = Some i" "ca_bins st ! i = Some xs" "b \<in> set xs"
    using bins_invE [OF cp.poolD(2) [OF cache_invD(1) [OF c]] B(1)] B(3) by (metis empty_iff)
  with B(5) have xs: "GetBlockBin st sz = Some xs" "b \<in> set xs" by (simp_all add: GetBlockBin_def)
  from inv sz(1,2) show False
  proof (cases rule: FindFreeBlock_ok [where rt = rt and org_ptr = org_ptr and device_id = device_id])
    case none
    from none(2) [OF xs B(1)] have "(GetAllocationSize sz, blk_ptr B) < (sz, hint org_ptr)" using B by (simp add: block_key_def)
    then show False using room GetAllocationSize_ge [OF sz(3)] B(4) by (auto simp: hint_def)
  qed (use none' in simp)
qed

text \<open>
  The outcomes of \<open>Malloc\<close>: a new entry of at least the requested size, or null with the allocations unchanged,
  which happens only when the runtime fails, the request exceeds the largest bin, or a hint is given for a request
  that is exactly a bin size.
\<close>

lemma CachingMalloc_ok:
  assumes rt: "runtime_ok rt" and inv: "caching_inv R st" and ready: "caching_ready st" and sz: "0 \<le> sz" "sz + 511 < 2 ^ 64"
  obtains (failed) st' R' where "CachingMalloc rt st sz org_ptr device_id = Inr (0, st')" "caching_inv R' st'" "caching_ready st'"
      "allocs (ca_heap st') = allocs (ca_heap st)" "ca_allocated st' = ca_allocated st"
      "rt_malloc rt (dev_tick (ca_dev st)) (dev_live (ca_dev st)) (GetAllocationSize (GetBlockSize sz)) = None \<or>
       \<not> rt_new rt (ca_new st) \<or> 27917287424 < GetBlockSize sz \<or> org_ptr \<noteq> 0 \<and> GetBlockSize sz = GetAllocationSize (GetBlockSize sz)"
    | (found) p st' R' b s where "CachingMalloc rt st sz org_ptr device_id = Inr (p, st')" "caching_inv R' st'" "caching_ready st'"
      "p \<noteq> 0" "allocs (ca_heap st') = insert (b, p, s) (allocs (ca_heap st))" "map_of (ca_allocated st) p = None"
      "GetBlockSize sz \<le> s" "(\<forall>t. rt_new rt t) \<longrightarrow> 3 * s < 4 * GetBlockSize sz"
      "ca_allocated st' = AList.update p b (ca_allocated st)"
proof -
  let ?n = "GetBlockSize sz"
  note n = GetBlockSize_ok [OF sz]
  have ptr: "blk_ptr B \<noteq> 0" if "caching_inv R st" "ca_heap st b = Some B" for R st b B
    using block_small(3) that by (fastforce simp: caching_inv_def)
  from inv n(2,1) show thesis
  proof (cases rule: FindFreeBlock_ok [where rt = rt and org_ptr = org_ptr and device_id = device_id])
    case (found b B st')
    then show thesis
      using ptr [OF found(2,3)] ready by (intro that(2) [of "blk_ptr B" st' R b "blk_size B"]) (simp_all add: CachingMalloc_def Let_def)
  next
    case none
    obtain ret st1 R1 where e: "TryExtendCache rt st ?n device_id = Inr (ret, st1)" "caching_inv R1 st1" "caching_ready st1"
      "allocs (ca_heap st1) = allocs (ca_heap st)" "ca_allocated st1 = ca_allocated st"
      "ret = SUCCESS \<and> extended ?n st1 \<or> ret = FAILED \<and>
         (rt_malloc rt (dev_tick (ca_dev st)) (dev_live (ca_dev st)) (GetAllocationSize ?n) = None \<or> \<not> rt_new rt (ca_new st))"
      using rt inv ready by (rule TryExtendCache_ok)
    show thesis
    proof (cases "ret = SUCCESS")
      case False
      then show thesis
        using e none by (intro that(1) [of st1 R1]) (auto simp: CachingMalloc_def Let_def)
    next
      case True
      from e(2) n(2,1) show thesis
      proof (cases rule: FindFreeBlock_ok [where rt = rt and org_ptr = org_ptr and device_id = device_id])
        case (found b B st')
        then show thesis
          using ptr [OF found(2,3)] e none True
          by (intro that(2) [of "blk_ptr B" st' R1 b "blk_size B"]) (simp_all add: CachingMalloc_def Let_def)
      next
        case n2: none
        have "27917287424 < ?n \<or> org_ptr \<noteq> 0 \<and> \<not> ?n < GetAllocationSize ?n"
          using FindFreeBlock_extended [OF e(2) _ n(2,1), of org_ptr rt device_id st1] n2(1) e(6) True by fastforce
        then have "27917287424 < ?n \<or> org_ptr \<noteq> 0 \<and> ?n = GetAllocationSize ?n"
          using GetAllocationSize_ge [of ?n] by linarith
        then show thesis
          using e none n2(1) True by (intro that(1) [of st1 R1]) (auto simp: CachingMalloc_def Let_def)
      qed
    qed
  qed
qed

section \<open>Initialize and Finalize\<close>

lemma make_bins_ok:
  assumes "make_bins rt bins t = (bins', t', ok)"
  shows "length bins' = length bins" "t \<le> t'" "ok \<Longrightarrow> None \<notin> set bins'"
    "\<And>i. i < length bins \<Longrightarrow> bins' ! i = bins ! i \<or> bins ! i = None \<and> bins' ! i = Some []"
proof -
  have "length bins' = length bins \<and> t \<le> t' \<and> (ok \<longrightarrow> None \<notin> set bins') \<and>
     (\<forall>i<length bins. bins' ! i = bins ! i \<or> bins ! i = None \<and> bins' ! i = Some [])"
    using assms
    by (induction rt bins t arbitrary: bins' t' ok rule: make_bins.induct)
      (fastforce simp: nth_Cons less_Suc_eq_0_disj Let_def split: prod.splits if_splits nat.splits)+
  then show "length bins' = length bins" "t \<le> t'" "ok \<Longrightarrow> None \<notin> set bins'"
    "\<And>i. i < length bins \<Longrightarrow> bins' ! i = bins ! i \<or> bins ! i = None \<and> bins' ! i = Some []" by auto
qed

lemma new_bins_inv:
  assumes "bins_inv tag n E h bins" "length bins' = length bins"
    "\<And>i. i < length bins \<Longrightarrow> bins' ! i = bins ! i \<or> bins ! i = None \<and> bins' ! i = Some []"
  shows "bins_inv tag n E h bins'"
  unfolding bins_inv_def
proof (intro conjI allI impI)
  have len: "length bins = n" using assms(1) by (simp add: bins_inv_def)
  then show "length bins' = n" using assms(2) by simp
  { fix i xs assume i: "i < n" "bins' ! i = Some xs"
    then consider "bins ! i = Some xs" | "xs = []" using assms(3) [of i] len by auto
    then show "bin_sorted h xs" "\<forall>b\<in>set xs. b \<notin> E \<and> (\<forall>B. h b = Some B \<longrightarrow> blk_bin B = tag i \<and> \<not> blk_allocated B)"
      using assms(1) i(1) by (cases; auto simp: bins_inv_def)+ }
  fix b B assume "h b = Some B"
  then obtain i xs where "i < n" "blk_bin B = tag i" "bins ! i = Some xs" "\<not> blk_allocated B \<longrightarrow> b \<notin> E \<longrightarrow> b \<in> set xs"
    using bins_invE [OF assms(1)] by metis
  then show "\<exists>i xs. i < n \<and> blk_bin B = tag i \<and> bins' ! i = Some xs \<and> (\<not> blk_allocated B \<longrightarrow> b \<notin> E \<longrightarrow> b \<in> set xs)"
    using assms(3) [of i] len by auto
qed

lemma CachingInitialize_ok:
  assumes inv: "caching_inv R st"
  obtains ret st' R' where "CachingInitialize rt st = Inr (ret, st')" "caching_inv R' st'" "ca_allocated st' = []"
    "ret = SUCCESS \<longrightarrow> caching_ready st'"
proof -
  obtain st1 R1 where st1: "FreeBlocks rt st = Inr st1" "caching_inv R1 st1" "ca_allocated st1 = []"
    using inv by (rule FreeBlocks_ok) blast
  obtain bins t ok where mk: "make_bins rt (ca_bins st1) (ca_new st1) = (bins, t, ok)" by (metis prod_cases3)
  note b = make_bins_ok [OF mk]
  let ?st = "st1\<lparr>ca_bins := bins, ca_new := t\<rparr>"
  have c: "cache_inv R1 st1" using st1(2) by (simp add: caching_inv_def)
  note I = cache_invD [OF c]
  have p: "pool_inv Some 8 512 {} R1 (ca_heap st1) bins"
    using I(1) new_bins_inv [OF _ b(1,4)] by (simp add: pool_inv_def)
  have inv': "caching_inv R1 (st1\<lparr>ca_bins := bins, ca_new := t, ca_memory_allocator := m\<rparr>)" if "m = ca_memory_allocator st1 \<or> m" for m
    using st1(2) p b(2) I that by (auto simp: caching_inv_def cache_inv_def alloc_inv_def table_inv_def)
  show thesis
  proof (cases ok)
    case True
    let ?st' = "st1\<lparr>ca_bins := bins, ca_new := t, ca_memory_allocator := True\<rparr>"
    have "caching_ready ?st'" using b(1,3) True I(3) by (simp add: caching_ready_def bins_made_def)
    then show thesis using inv' [of True] True st1 mk by (intro that [of SUCCESS ?st' R1]) (simp_all add: CachingInitialize_def)
  next
    case False
    have "?st = st1\<lparr>ca_bins := bins, ca_new := t, ca_memory_allocator := ca_memory_allocator st1\<rparr>" by simp
    then have "caching_inv R1 ?st" using inv' [of "ca_memory_allocator st1"] by metis
    then show thesis
      using False st1 mk by (intro that [of ACL_ERROR_GE_MEMORY_ALLOCATION ?st R1]) (simp_all add: CachingInitialize_def)
  qed
qed


section \<open>Reachable allocators\<close>

text \<open>
  The states a client can bring the allocator into: it is constructed, initialised any number of times, and asked for
  memory, once initialised, and to take memory back, in any order.
\<close>

inductive caching_reach :: "runtime \<Rightarrow> CachingAllocator \<Rightarrow> bool" for rt where
  construct: "device_ok dev \<Longrightarrow> caching_reach rt (new_CachingAllocator dev)"
| initialize: "caching_reach rt st \<Longrightarrow> CachingInitialize rt st = Inr (ret, st') \<Longrightarrow> caching_reach rt st'"
| malloc: "caching_reach rt st \<Longrightarrow> caching_ready st \<Longrightarrow> 0 \<le> sz \<Longrightarrow> sz + 511 < 2 ^ 64 \<Longrightarrow>
     CachingMalloc rt st sz org_ptr device_id = Inr (p, st') \<Longrightarrow> caching_reach rt st'"
| free: "caching_reach rt st \<Longrightarrow> CachingFree st p = Inr (ret, st') \<Longrightarrow> caching_reach rt st'"

lemma new_CachingAllocator_inv:
  assumes "device_ok dev"
  shows "caching_inv {} (new_CachingAllocator dev)"
proof -
  have "regions_ok {}" by (simp add: regions_ok_def)
  then have "pool_inv Some 8 512 {} {} Map.empty (replicate 8 None)"
    by (simp add: pool_inv_def chain_inv_empty bins_inv_def coalesced_def covered_def)
  with assms show ?thesis
    by (simp add: caching_inv_def cache_inv_def alloc_inv_def table_inv_def allocs_def new_CachingAllocator_def kNumBins_def)
qed

lemma caching_reach_inv:
  assumes "runtime_ok rt" "caching_reach rt st"
  shows "\<exists>R. caching_inv R st"
  using assms(2)
proof (induction rule: caching_reach.induct)
  case (construct dev)
  then show ?case using new_CachingAllocator_inv by blast
next
  case (initialize st ret st')
  then obtain R where inv: "caching_inv R st" by blast
  obtain ret' st1 R1 where "CachingInitialize rt st = Inr (ret', st1)" "caching_inv R1 st1" using inv by (rule CachingInitialize_ok)
  with initialize.hyps show ?case by auto
next
  case (malloc st sz org_ptr device_id p st')
  then obtain R where "caching_inv R st" by blast
  from assms(1) this malloc.hyps(2-4) show ?case
    by (cases rule: CachingMalloc_ok [where org_ptr = org_ptr and device_id = device_id]) (use malloc.hyps(5) in auto)
next
  case (free st p ret st')
  then obtain R where inv: "caching_inv R st" by blast
  show ?case
  proof (cases "map_of (ca_allocated st) p")
    case None
    then show ?thesis using free.hyps(2) inv by (auto simp: CachingFree_def split: if_splits)
  next
    case (Some b)
    obtain st1 where "CachingFree st p = Inr (SUCCESS, st1)" "caching_inv R st1" using inv Some by (rule CachingFree_ok)
    with free.hyps(2) show ?thesis by auto
  qed
qed

text \<open>What the allocator promises: a partial function from the addresses it has handed out to their sizes.\<close>

definition allocated_size :: "CachingAllocator \<Rightarrow> int \<Rightarrow> int option" where
  "allocated_size st = table_size (ca_allocated st) (ca_heap st)"

lemma allocated_size_iff:
  "caching_inv R st \<Longrightarrow> allocated_size st p = Some s \<longleftrightarrow> (\<exists>b. (b, p, s) \<in> allocs (ca_heap st))"
  by (simp add: allocated_size_def table_size_iff caching_inv_def alloc_inv_def)

lemma allocated_size_None: "map_of (ca_allocated st) p = None \<Longrightarrow> allocated_size st p = None"
  by (simp add: allocated_size_def table_size_def)

lemma caching_tables:
  assumes "caching_inv R st"
  shows "table_inv (ca_allocated st) (ca_heap st)" "chain_inv R (ca_heap st)"
  using assms cache_invD(2) by (auto simp: caching_inv_def alloc_inv_def)

lemma allocated_size_eqI:
  "caching_inv R st \<Longrightarrow> caching_inv R' st' \<Longrightarrow> allocs (ca_heap st') = allocs (ca_heap st) \<Longrightarrow> allocated_size st' = allocated_size st"
  unfolding allocated_size_def by (intro table_size_same caching_tables)

lemma allocated_size_insert:
  "caching_inv R st \<Longrightarrow> caching_inv R' st' \<Longrightarrow> allocs (ca_heap st') = insert (b, p, s) (allocs (ca_heap st)) \<Longrightarrow>
   allocated_size st' = (allocated_size st)(p \<mapsto> s)"
  unfolding allocated_size_def by (intro table_size_insert caching_tables)

lemma allocated_size_delete:
  "caching_inv R st \<Longrightarrow> caching_inv R' st' \<Longrightarrow> (b, p, s) \<in> allocs (ca_heap st) \<Longrightarrow>
   allocs (ca_heap st') = allocs (ca_heap st) - {(b, p, s)} \<Longrightarrow> allocated_size st' = (allocated_size st)(p := None)"
  unfolding allocated_size_def by (rule table_size_delete [OF caching_tables(2,1) caching_tables(1)])

end
