(* ===== verification/Allocator_Contract.thy ===== *)
theory Allocator_Contract
  imports GE_Prelude "HOL-Library.Multiset"
begin

text \<open>
  What a client of a memory allocator relies on, as a locale: the allocator is seen through a partial function from
  the addresses it has handed out to their sizes. Both device allocators of the repository meet the contract. The
  client's lemma: a batch of requests never fails otherwise than by null addresses, the addresses it yields are
  distinct and new, and freeing them in any order restores the allocations.
\<close>

fun malloc_all :: "('s \<Rightarrow> int \<Rightarrow> (int \<times> 's) res) \<Rightarrow> int list \<Rightarrow> 's \<Rightarrow> (int list \<times> 's) res" where
  "malloc_all malloc [] s = Inr ([], s)"
| "malloc_all malloc (n # ns) s =
     and_then (malloc s n) (\<lambda>(p, s). and_then (malloc_all malloc ns s) (\<lambda>(ps, s). Inr (p # ps, s)))"

fun free_list :: "('s \<Rightarrow> int \<Rightarrow> (Status \<times> 's) res) \<Rightarrow> int list \<Rightarrow> 's \<Rightarrow> 's res" where
  "free_list free [] s = Inr s"
| "free_list free (p # ps) s =
     and_then (free s p) (\<lambda>(ret, s). if ret \<noteq> SUCCESS then Inl (Ret ret) else free_list free ps s)"

locale allocator =
  fixes ok :: "'s \<Rightarrow> bool" and sizes :: "'s \<Rightarrow> int \<Rightarrow> int option" and valid :: "int \<Rightarrow> bool"
    and malloc :: "'s \<Rightarrow> int \<Rightarrow> (int \<times> 's) res" and free :: "'s \<Rightarrow> int \<Rightarrow> (Status \<times> 's) res"
  assumes malloc_law: "ok s \<Longrightarrow> valid n \<Longrightarrow> \<exists>p s'. malloc s n = Inr (p, s') \<and> ok s' \<and>
      (if p = 0 then sizes s' = sizes s else sizes s p = None \<and> (\<exists>m. n \<le> m \<and> sizes s' = (sizes s)(p \<mapsto> m)))"
    and free_law: "ok s \<Longrightarrow> sizes s p \<noteq> None \<Longrightarrow> \<exists>s'. free s p = Inr (SUCCESS, s') \<and> ok s' \<and> sizes s' = (sizes s)(p := None)"
begin

lemma malloc_all_ok:
  assumes "ok s" "\<forall>n\<in>set ns. valid n"
  shows "\<exists>ps s'. malloc_all malloc ns s = Inr (ps, s') \<and> ok s' \<and> distinct (filter (\<lambda>p. p \<noteq> 0) ps) \<and>
     (\<forall>p. p \<noteq> 0 \<and> p \<in> set ps \<longrightarrow> sizes s p = None \<and> sizes s' p \<noteq> None) \<and>
     (\<forall>p. p = 0 \<or> p \<notin> set ps \<longrightarrow> sizes s' p = sizes s p)"
  using assms
proof (induction ns arbitrary: s)
  case (Cons n ns)
  then obtain p s1 where m: "malloc s n = Inr (p, s1)" "ok s1"
    "if p = 0 then sizes s1 = sizes s else sizes s p = None \<and> (\<exists>m. n \<le> m \<and> sizes s1 = (sizes s)(p \<mapsto> m))"
    using malloc_law [of s n] by auto
  from Cons.IH [OF m(2)] Cons.prems(2) obtain ps s' where r: "malloc_all malloc ns s1 = Inr (ps, s')" "ok s'"
    "distinct (filter (\<lambda>p. p \<noteq> 0) ps)" "\<forall>p. p \<noteq> 0 \<and> p \<in> set ps \<longrightarrow> sizes s1 p = None \<and> sizes s' p \<noteq> None"
    "\<forall>p. p = 0 \<or> p \<notin> set ps \<longrightarrow> sizes s' p = sizes s1 p" by auto
  show ?case
  proof (cases "p = 0")
    case True
    then show ?thesis using m r by (intro exI [of _ "p # ps"] exI [of _ s']) auto
  next
    case False
    then obtain k where k: "sizes s p = None" "sizes s1 = (sizes s)(p \<mapsto> k)" using m(3) by auto
    then have "p \<notin> set ps" using r(4) False by auto
    with False k m(1) r show ?thesis by (intro exI [of _ "p # ps"] exI [of _ s']) (auto split: if_splits)
  qed
qed simp

lemma free_list_ok:
  assumes "ok s" "distinct ps" "\<forall>p\<in>set ps. sizes s p \<noteq> None"
  shows "\<exists>s'. free_list free ps s = Inr s' \<and> ok s' \<and> sizes s' = (\<lambda>p. if p \<in> set ps then None else sizes s p)"
  using assms
proof (induction ps arbitrary: s)
  case (Cons p ps)
  obtain s1 where f: "free s p = Inr (SUCCESS, s1)" "ok s1" "sizes s1 = (sizes s)(p := None)"
    using free_law [of s p] Cons.prems by auto
  from Cons.IH [OF f(2)] Cons.prems f(3) obtain s' where
    "free_list free ps s1 = Inr s'" "ok s'" "sizes s' = (\<lambda>q. if q \<in> set ps then None else sizes s1 q)" by fastforce
  with f show ?case by (auto simp: fun_eq_iff)
qed simp

lemma malloc_free_all:
  assumes "ok s" "\<forall>n\<in>set ns. valid n"
  shows "\<exists>ps s1. malloc_all malloc ns s = Inr (ps, s1) \<and>
    (\<forall>qs. mset qs = mset (filter (\<lambda>p. p \<noteq> 0) ps) \<longrightarrow> (\<exists>s2. free_list free qs s1 = Inr s2 \<and> sizes s2 = sizes s))"
proof -
  from malloc_all_ok [OF assms] obtain ps s1 where r: "malloc_all malloc ns s = Inr (ps, s1)" "ok s1"
    "distinct (filter (\<lambda>p. p \<noteq> 0) ps)" "\<forall>p. p \<noteq> 0 \<and> p \<in> set ps \<longrightarrow> sizes s p = None \<and> sizes s1 p \<noteq> None"
    "\<forall>p. p = 0 \<or> p \<notin> set ps \<longrightarrow> sizes s1 p = sizes s p" by blast
  have "\<exists>s2. free_list free qs s1 = Inr s2 \<and> sizes s2 = sizes s" if qs: "mset qs = mset (filter (\<lambda>p. p \<noteq> 0) ps)" for qs
  proof -
    have d: "distinct qs" "set qs = {p \<in> set ps. p \<noteq> 0}"
      using qs r(3) by (metis distinct_count_atmost_1 set_mset_mset, metis set_filter set_mset_mset)
    then obtain s2 where s2: "free_list free qs s1 = Inr s2" "sizes s2 = (\<lambda>p. if p \<in> set qs then None else sizes s1 p)"
      using free_list_ok [OF r(2) d(1)] r(4) by auto
    have "sizes s2 p = sizes s p" for p using r(4,5) d(2) by (cases "p \<in> set qs") (auto simp: s2(2))
    with s2(1) show ?thesis by blast
  qed
  with r(1) show ?thesis by blast
qed

end

end
