(* ===== verification/Caching_Spec.thy ===== *)
theory Caching_Spec
  imports Caching_Correct Allocator_Contract
begin

text \<open>
  The properties of the caching allocator, for every state its clients can reach, and a concrete run they are
  applied to.
\<close>

section \<open>A concrete run\<close>

definition demo_rt :: runtime where
  "demo_rt = \<lparr>rt_malloc = (\<lambda>t live n. if live = [] \<and> n \<le> 2 ^ 40 then Some 4096 else None),
     rt_free = (\<lambda>t a. True), rt_new = (\<lambda>t. True)\<rparr>"

definition demo_init :: CachingAllocator where
  "demo_init = snd (projr (CachingInitialize demo_rt (new_CachingAllocator \<lparr>dev_live = [], dev_tick = 0\<rparr>)))"

definition demo_one :: CachingAllocator where
  "demo_one = snd (projr (CachingMalloc demo_rt demo_init 1000 0 0))"

definition demo_two :: CachingAllocator where
  "demo_two = snd (projr (CachingMalloc demo_rt demo_one 1 0 0))"

lemma demo_rt_ok: "runtime_ok demo_rt"
  by (auto simp: runtime_ok_def demo_rt_def split: if_splits)

lemma reach_initialize:
  "caching_reach rt st \<Longrightarrow> \<not> isl (CachingInitialize rt st) \<Longrightarrow> caching_reach rt (snd (projr (CachingInitialize rt st)))"
  by (cases "CachingInitialize rt st") (auto intro: caching_reach.initialize)

lemma reach_malloc:
  "caching_reach rt st \<Longrightarrow> caching_ready st \<Longrightarrow> 0 \<le> sz \<Longrightarrow> sz + 511 < 2 ^ 64 \<Longrightarrow> \<not> isl (CachingMalloc rt st sz p d) \<Longrightarrow>
   caching_reach rt (snd (projr (CachingMalloc rt st sz p d)))"
  by (cases "CachingMalloc rt st sz p d") (auto intro: caching_reach.malloc)

lemma demo_init_reach: "caching_reach demo_rt demo_init" "caching_ready demo_init"
proof -
  have "caching_reach demo_rt (new_CachingAllocator \<lparr>dev_live = [], dev_tick = 0\<rparr>)"
    by (rule caching_reach.construct) (simp add: device_ok_def regions_ok_def)
  then show "caching_reach demo_rt demo_init" unfolding demo_init_def
    by (rule reach_initialize) code_simp
  show "caching_ready demo_init" by code_simp
qed

lemma demo_one_reach: "caching_reach demo_rt demo_one" "caching_ready demo_one"
proof -
  show "caching_reach demo_rt demo_one" unfolding demo_one_def
    by (rule reach_malloc [OF demo_init_reach]) (simp, simp, code_simp)
  show "caching_ready demo_one" by code_simp
qed

lemma demo_two_reach: "caching_reach demo_rt demo_two" "caching_ready demo_two"
proof -
  show "caching_reach demo_rt demo_two" unfolding demo_two_def
    by (rule reach_malloc [OF demo_one_reach]) (simp, simp, code_simp)
  show "caching_ready demo_two" by code_simp
qed

lemma demo_two_sizes: "allocated_size demo_two 4096 = Some 1024" "allocated_size demo_two 5120 = Some 512"
  by code_simp+

section \<open>The contract\<close>

lemma caching_malloc_contract:
  assumes "runtime_ok rt" "caching_reach rt st" "caching_ready st" "0 \<le> sz" "sz + 511 < 2 ^ 64"
  shows "\<exists>p st'. CachingMalloc rt st sz org_ptr device_id = Inr (p, st') \<and> caching_ready st' \<and>
    (if p = 0 then allocated_size st' = allocated_size st
     else allocated_size st p = None \<and> (\<exists>n. sz \<le> n \<and> 512 dvd n \<and> allocated_size st' = (allocated_size st)(p \<mapsto> n)))"
proof -
  obtain R where inv: "caching_inv R st" using caching_reach_inv [OF assms(1,2)] ..
  from assms(1) inv assms(3-5) show ?thesis
  proof (cases rule: CachingMalloc_ok [where org_ptr = org_ptr and device_id = device_id])
    case (failed st' R')
    then show ?thesis using allocated_size_eqI [OF inv failed(2,4)] by auto
  next
    case (found p st' R' b s)
    have "\<exists>B. ca_heap st' b = Some B \<and> blk_size B = s" using found(5) by (metis in_allocs insertI1)
    moreover have "cache_inv R' st'" using found(2) by (simp add: caching_inv_def)
    ultimately have "512 dvd s" using cp.poolD(5) [OF cache_invD(1)] by metis
    moreover have "sz \<le> s" using GetBlockSize_ok(3) [OF assms(4,5)] found(7) by simp
    ultimately show ?thesis
      using found allocated_size_insert [OF inv found(2,5)] allocated_size_None [OF found(6)] by auto
  qed
qed

lemma caching_free_contract:
  assumes "runtime_ok rt" "caching_reach rt st"
  shows "if allocated_size st p = None then CachingFree st p = Inr (PARAM_INVALID, st)
    else \<exists>st'. CachingFree st p = Inr (SUCCESS, st') \<and> allocated_size st' = (allocated_size st)(p := None) \<and>
      ca_dev st' = ca_dev st \<and> (caching_ready st \<longrightarrow> caching_ready st')"
proof -
  obtain R where inv: "caching_inv R st" using caching_reach_inv [OF assms] ..
  show ?thesis
  proof (cases "map_of (ca_allocated st) p")
    case None
    then show ?thesis by (simp add: CachingFree_def allocated_size_def table_size_def)
  next
    case (Some b)
    obtain st' s where f: "CachingFree st p = Inr (SUCCESS, st')" "caching_inv R st'" "(b, p, s) \<in> allocs (ca_heap st)"
      "allocs (ca_heap st') = allocs (ca_heap st) - {(b, p, s)}" "ca_dev st' = ca_dev st" "caching_ready st \<longrightarrow> caching_ready st'"
      using inv Some by (rule CachingFree_ok)
    have "allocated_size st p = Some s" using f(3) by (auto simp: allocated_size_iff [OF inv])
    with f allocated_size_delete [OF inv f(2-4)] show ?thesis by simp
  qed
qed

lemma caching_malloc_law:
  assumes "runtime_ok rt \<and> caching_reach rt st \<and> caching_ready st" "0 \<le> n \<and> n + 511 < 2 ^ 64"
  shows "\<exists>p st'. CachingMalloc rt st n 0 device_id = Inr (p, st') \<and> (runtime_ok rt \<and> caching_reach rt st' \<and> caching_ready st') \<and>
    (if p = 0 then allocated_size st' = allocated_size st
     else allocated_size st p = None \<and> (\<exists>m. n \<le> m \<and> allocated_size st' = (allocated_size st)(p \<mapsto> m)))"
proof -
  from caching_malloc_contract [of rt st n 0 device_id] assms obtain p st'
    where m: "CachingMalloc rt st n 0 device_id = Inr (p, st')" "caching_ready st'"
      "if p = 0 then allocated_size st' = allocated_size st
       else allocated_size st p = None \<and> (\<exists>m. n \<le> m \<and> 512 dvd m \<and> allocated_size st' = (allocated_size st)(p \<mapsto> m))" by blast
  moreover have "caching_reach rt st'" using caching_reach.malloc m(1) assms by blast
  ultimately show ?thesis using assms by (auto split: if_splits)
qed

lemma caching_free_law:
  assumes "runtime_ok rt \<and> caching_reach rt st \<and> caching_ready st" "allocated_size st p \<noteq> None"
  shows "\<exists>st'. CachingFree st p = Inr (SUCCESS, st') \<and> (runtime_ok rt \<and> caching_reach rt st' \<and> caching_ready st') \<and>
    allocated_size st' = (allocated_size st)(p := None)"
  using caching_free_contract [of rt st p] assms by (auto intro: caching_reach.free)

interpretation ca: allocator "\<lambda>st. runtime_ok rt \<and> caching_reach rt st \<and> caching_ready st" allocated_size
    "\<lambda>n. 0 \<le> n \<and> n + 511 < 2 ^ 64" "\<lambda>st n. CachingMalloc rt st n 0 device_id" CachingFree for rt device_id
  by unfold_locales (fact caching_malloc_law, fact caching_free_law)

section \<open>Properties\<close>

text \<open>
  C2: In every state a client can bring the caching allocator into by Initialize, Malloc and Free, in any order and with
  sizes whose rounding to 512 does not wrap, two allocations never overlap, and each of them lies inside one range of
  memory that the device has handed out and not taken back.
\<close>

theorem caching_no_overlap:
  assumes "runtime_ok rt" "caching_reach rt st" "allocated_size st p = Some m" "allocated_size st q = Some n" "p \<noteq> q"
  shows "(p + m \<le> q \<or> q + n \<le> p) \<and> (\<exists>a k. (a, k) \<in> set (dev_live (ca_dev st)) \<and> a \<le> p \<and> p + m \<le> a + k)"
proof -
  obtain R where inv: "caching_inv R st" using caching_reach_inv [OF assms(1,2)] ..
  then have c: "cache_inv R st" by (simp add: caching_inv_def)
  obtain b d where al: "(b, p, m) \<in> allocs (ca_heap st)" "(d, q, n) \<in> allocs (ca_heap st)"
    using assms(3,4) by (auto simp: allocated_size_iff [OF inv])
  then have "p + m \<le> q \<or> q + n \<le> p" by (rule allocs_disjoint [OF cache_invD(2) [OF c] _ _ assms(5)])
  moreover obtain B where B: "ca_heap st b = Some B" "blk_ptr B = p" "blk_size B = m" using al(1) by (auto simp: in_allocs)
  obtain a k where "(a, k) \<in> R" "a \<le> p" "p + m \<le> a + k" using chain_region [OF cache_invD(2) [OF c] B(1)] B by metis
  ultimately show ?thesis using cache_invD(5) [OF c] by blast
qed

theorem caching_no_overlap_witness: "(4096 :: int) + 1024 \<le> 5120 \<and> (\<exists>a k. (a, k) \<in> set (dev_live (ca_dev demo_two)) \<and> a \<le> 4096 \<and> 4096 + 1024 \<le> a + k)"
  using caching_no_overlap [OF demo_rt_ok demo_two_reach(1) demo_two_sizes] by simp

text \<open>
  C3: Malloc of an initialised allocator, for a size whose rounding to 512 does not wrap, never dereferences a dangling or
  null block. Seen as a partial function from
  addresses to sizes, it either returns null and leaves the allocations as they were, or returns an address that was
  not allocated and adds it with a size that is a multiple of 512 and no smaller than the request; the allocator stays
  initialised.
\<close>

theorem caching_malloc_refines:
  assumes "runtime_ok rt" "caching_reach rt st" "caching_ready st" "0 \<le> sz" "sz + 511 < 2 ^ 64"
  shows "\<exists>p st'. CachingMalloc rt st sz org_ptr device_id = Inr (p, st') \<and> caching_ready st' \<and>
    (if p = 0 then allocated_size st' = allocated_size st
     else allocated_size st p = None \<and> (\<exists>n. sz \<le> n \<and> 512 dvd n \<and> allocated_size st' = (allocated_size st)(p \<mapsto> n)))"
  using assms by (rule caching_malloc_contract)

theorem caching_malloc_refines_witness:
  "\<exists>p st'. CachingMalloc demo_rt demo_one 1 0 0 = Inr (p, st') \<and> caching_ready st' \<and>
    (if p = 0 then allocated_size st' = allocated_size demo_one
     else allocated_size demo_one p = None \<and> (\<exists>n. 1 \<le> n \<and> 512 dvd n \<and> allocated_size st' = (allocated_size demo_one)(p \<mapsto> n)))"
  by (rule caching_malloc_refines [OF demo_rt_ok demo_one_reach]) simp_all

text \<open>
  C4: Free of an allocated address succeeds, removes exactly that allocation and touches no device memory; Free of
  any other address, null included, returns PARAM_INVALID and changes nothing.
\<close>

theorem caching_free_refines:
  assumes "runtime_ok rt" "caching_reach rt st"
  shows "if allocated_size st p = None then CachingFree st p = Inr (PARAM_INVALID, st)
    else \<exists>st'. CachingFree st p = Inr (SUCCESS, st') \<and> allocated_size st' = (allocated_size st)(p := None) \<and>
      ca_dev st' = ca_dev st \<and> (caching_ready st \<longrightarrow> caching_ready st')"
  using assms by (rule caching_free_contract)

theorem caching_free_refines_witness:
  "\<exists>st'. CachingFree demo_two 4096 = Inr (SUCCESS, st') \<and> allocated_size st' = (allocated_size demo_two)(4096 := None) \<and>
     ca_dev st' = ca_dev demo_two"
  using caching_free_refines [OF demo_rt_ok demo_two_reach(1), of 4096] demo_two_sizes(1) by auto

text \<open>
  C24: A request of at most 26 GB without an address hint is answered: if the device grants the bin-sized region and
  the Block objects can be created, Malloc of an initialised allocator returns an address.
\<close>

theorem caching_malloc_succeeds:
  assumes "runtime_ok rt" "caching_reach rt st" "caching_ready st" "0 \<le> sz" "sz \<le> 26 * kGByteSize" "rt_new rt (ca_new st)"
    "rt_malloc rt (dev_tick (ca_dev st)) (dev_live (ca_dev st)) (GetAllocationSize (GetBlockSize sz)) \<noteq> None"
  shows "\<exists>p st'. CachingMalloc rt st sz 0 device_id = Inr (p, st') \<and> p \<noteq> 0"
proof -
  obtain R where inv: "caching_inv R st" using caching_reach_inv [OF assms(1,2)] ..
  have sz: "sz + 511 < 2 ^ 64" using assms(5) by (simp add: kGByteSize_def)
  have small: "GetBlockSize sz \<le> 27917287424"
  proof -
    obtain k where "GetBlockSize sz = 512 * k" using GetBlockSize_ok(1) [OF assms(4) sz] ..
    then show ?thesis using GetBlockSize_ok(4) [OF assms(4) sz] assms(5) by (auto simp: kGByteSize_def GetBlockSize_def size_defs)
  qed
  from assms(1) inv assms(3,4) sz show ?thesis
    by (cases rule: CachingMalloc_ok [where org_ptr = 0 and device_id = device_id]) (use small assms(6,7) in auto)
qed

theorem caching_malloc_succeeds_witness: "\<exists>p st'. CachingMalloc demo_rt demo_init 1000 0 0 = Inr (p, st') \<and> p \<noteq> 0"
proof (rule caching_malloc_succeeds [OF demo_rt_ok demo_init_reach])
  show "rt_new demo_rt (ca_new demo_init)" by code_simp
  show "rt_malloc demo_rt (dev_tick (ca_dev demo_init)) (dev_live (ca_dev demo_init)) (GetAllocationSize (GetBlockSize 1000)) \<noteq> None"
    by code_simp
qed (simp_all add: kGByteSize_def)

text \<open>
  C25: The memory an allocation occupies beyond the rounded request is less than a third of it, as long as Block
  objects can be created: Malloc splits any block that would waste more.
\<close>

theorem caching_malloc_waste:
  assumes "runtime_ok rt" "caching_reach rt st" "caching_ready st" "0 \<le> sz" "sz + 511 < 2 ^ 64" "\<And>t. rt_new rt t"
    "CachingMalloc rt st sz org_ptr device_id = Inr (p, st')" "p \<noteq> 0"
  shows "\<exists>n. allocated_size st' p = Some n \<and> GetBlockSize sz \<le> n \<and> 3 * n < 4 * GetBlockSize sz"
proof -
  obtain R where inv: "caching_inv R st" using caching_reach_inv [OF assms(1,2)] ..
  from assms(1) inv assms(3-5) show ?thesis
  proof (cases rule: CachingMalloc_ok [where org_ptr = org_ptr and device_id = device_id])
    case (found p' st1 R' b s)
    then show ?thesis
      using assms(6,7) allocated_size_insert [OF inv found(2,5)] by (intro exI [of _ s]) auto
  qed (use assms(7,8) in auto)
qed

theorem caching_malloc_waste_witness:
  "\<exists>n. allocated_size demo_two 5120 = Some n \<and> GetBlockSize 1 \<le> n \<and> 3 * n < 4 * GetBlockSize 1"
proof (rule caching_malloc_waste [OF demo_rt_ok demo_one_reach])
  have "\<not> isl (CachingMalloc demo_rt demo_one 1 0 0)" "fst (projr (CachingMalloc demo_rt demo_one 1 0 0)) = 5120" by code_simp+
  then show "CachingMalloc demo_rt demo_one 1 0 0 = Inr (5120, demo_two)"
    by (cases "CachingMalloc demo_rt demo_one 1 0 0") (auto simp: demo_two_def)
qed (simp_all add: demo_rt_def)

text \<open>
  C26: A request above 26 GB and of at most \<open>2 ^ 64 - 512\<close> bytes, whose rounding to 512 does not wrap, is never satisfied:
  Malloc returns null and leaves the allocations as they were, whatever the device would grant.
\<close>

theorem caching_malloc_too_large:
  assumes "runtime_ok rt" "caching_reach rt st" "caching_ready st" "26 * kGByteSize < sz" "sz + 511 < 2 ^ 64"
  shows "\<exists>st'. CachingMalloc rt st sz org_ptr device_id = Inr (0, st') \<and> allocated_size st' = allocated_size st"
proof -
  obtain R where inv: "caching_inv R st" using caching_reach_inv [OF assms(1,2)] ..
  have sz: "0 \<le> sz" using assms(4) by (simp add: kGByteSize_def)
  from assms(1) inv assms(3) sz assms(5) show ?thesis
  proof (cases rule: CachingMalloc_ok [where org_ptr = org_ptr and device_id = device_id])
    case (failed st' R')
    then show ?thesis using allocated_size_eqI [OF inv failed(2,4)] by auto
  next
    case (found p st' R' b s)
    have c: "cache_inv R' st'" using found(2) by (simp add: caching_inv_def)
    obtain B where "ca_heap st' b = Some B" "blk_size B = s" using found(5) by (metis in_allocs insertI1)
    then have "s \<le> 27917287424" using block_small(2) [OF c] by blast
    moreover have "27917287424 < GetBlockSize sz" using GetBlockSize_ok(3) [OF sz assms(5)] assms(4) by (simp add: kGByteSize_def)
    ultimately show ?thesis using found(7) by simp
  qed
qed

theorem caching_malloc_too_large_witness:
  "\<exists>st'. CachingMalloc demo_rt demo_two (30 * kGByteSize) 0 0 = Inr (0, st') \<and> allocated_size st' = allocated_size demo_two"
  by (rule caching_malloc_too_large [OF demo_rt_ok demo_two_reach]) (simp_all add: kGByteSize_def)


text \<open>
  C15: When the last allocation has been freed, the cache is not fragmented: every block is a whole region of device
  memory again, without neighbours.
\<close>

theorem caching_all_free_whole:
  assumes "runtime_ok rt" "caching_reach rt st" "ca_allocated st = []" "ca_heap st b = Some B"
  shows "\<not> IsSplit B \<and> \<not> blk_allocated B \<and> (blk_ptr B, blk_size B) \<in> set (dev_live (ca_dev st))"
proof -
  obtain R where inv: "caching_inv R st" using caching_reach_inv [OF assms(1,2)] ..
  then have c: "cache_inv R st" and "alloc_inv st" by (simp_all add: caching_inv_def)
  then have "allocs (ca_heap st) = {}" using assms(3) by (auto simp: alloc_inv_def table_inv_def)
  then have w: "blk_prev B = None \<and> blk_next B = None \<and> \<not> blk_allocated B" using all_free_whole [OF c] assms(4) by blast
  with whole_region [OF cache_invD(2) [OF c] assms(4)] cache_invD(5) [OF c] show ?thesis by (auto simp: IsSplit_def)
qed

definition demo_freed :: CachingAllocator where
  "demo_freed = snd (projr (CachingFree demo_one 4096))"

lemma demo_freed_reach: "caching_reach demo_rt demo_freed"
proof -
  have "\<not> isl (CachingFree demo_one 4096)" by code_simp
  then have "CachingFree demo_one 4096 = Inr (fst (projr (CachingFree demo_one 4096)), demo_freed)"
    by (cases "CachingFree demo_one 4096") (auto simp: demo_freed_def)
  then show ?thesis by (rule caching_reach.free [OF demo_one_reach(1)])
qed

theorem caching_all_free_whole_witness:
  "\<exists>B. ca_heap demo_freed 9 = Some B \<and> \<not> IsSplit B \<and> \<not> blk_allocated B \<and> (blk_ptr B, blk_size B) \<in> set (dev_live (ca_dev demo_freed))"
proof -
  have "ca_heap demo_freed 9 \<noteq> None" "ca_allocated demo_freed = []" by code_simp+
  then show ?thesis using caching_all_free_whole [OF demo_rt_ok demo_freed_reach, of 9] by auto
qed

text \<open>
  When the device takes memory back, Finalize frees every region of the cache and every Block object, allocated
  or not: no block is left, the table is empty, every bin is gone, and no live device memory overlaps what had been
  allocated.
\<close>

theorem caching_finalize_releases:
  assumes "runtime_ok rt" "caching_reach rt st" "\<And>t a. rt_free rt t a"
  shows "\<exists>st'. CachingFinalize rt st = Inr st' \<and> ca_heap st' = Map.empty \<and> ca_allocated st' = [] \<and>
    ca_bins st' = replicate kNumBins None \<and> set (dev_live (ca_dev st')) \<subseteq> set (dev_live (ca_dev st)) \<and>
    (\<forall>p n a k. allocated_size st p = Some n \<longrightarrow> (a, k) \<in> set (dev_live (ca_dev st')) \<longrightarrow> p + n \<le> a \<or> a + k \<le> p)"
proof -
  obtain R where inv: "caching_inv R st" using caching_reach_inv [OF assms(1,2)] ..
  then have c: "cache_inv R st" by (simp add: caching_inv_def)
  obtain st1 R1 where st1: "FreeBlocks rt st = Inr st1" "caching_inv R1 st1" "ca_allocated st1 = []"
    "set (dev_live (ca_dev st1)) = set (dev_live (ca_dev st)) - (R - R1)" "ca_heap st1 = Map.empty" "R1 = {}"
    using inv by (rule FreeBlocks_ok [where rt = rt]) (use assms(3) in blast)
  have "length (ca_bins st1) = 8" using st1(2) cache_invD(3) by (auto simp: caching_inv_def)
  then have bins: "ca_bins (FreeBlockBins st1) = replicate kNumBins None"
    by (simp add: FreeBlockBins_def kNumBins_def map_replicate_const)
  have apart: "p + n \<le> a \<or> a + k \<le> p" if pn: "allocated_size st p = Some n" and ak: "(a, k) \<in> set (dev_live (ca_dev st1))" for p n a k
  proof -
    obtain b B where B: "ca_heap st b = Some B" "blk_ptr B = p" "blk_size B = n"
      using pn by (auto simp: allocated_size_iff [OF inv] in_allocs)
    obtain x m where x: "(x, m) \<in> R" "x \<le> p" "p + n \<le> x + m" using chain_region [OF cache_invD(2) [OF c] B(1)] B by metis
    have live: "(a, k) \<in> set (dev_live (ca_dev st))" "(a, k) \<noteq> (x, m)" "(x, m) \<in> set (dev_live (ca_dev st))"
      using ak st1(4,6) x(1) cache_invD(5) [OF c] by auto
    have "regions_ok (set (dev_live (ca_dev st)))" using cache_invD(4) [OF c] by (simp add: device_ok_def)
    then have "a + k \<le> x \<or> x + m \<le> a" using live unfolding regions_ok_def by blast
    with x show ?thesis by linarith
  qed
  show ?thesis
    using st1 bins apart by (intro exI [of _ "FreeBlockBins st1"]) (auto simp: CachingFinalize_def FreeBlockBins_def)
qed

theorem caching_finalize_releases_witness:
  "\<exists>st'. CachingFinalize demo_rt demo_two = Inr st' \<and> ca_heap st' = Map.empty \<and> ca_allocated st' = [] \<and>
    ca_bins st' = replicate kNumBins None \<and> set (dev_live (ca_dev st')) \<subseteq> set (dev_live (ca_dev demo_two)) \<and>
    (\<forall>p n a k. allocated_size demo_two p = Some n \<longrightarrow> (a, k) \<in> set (dev_live (ca_dev st')) \<longrightarrow> p + n \<le> a \<or> a + k \<le> p)"
  by (rule caching_finalize_releases [OF demo_rt_ok demo_two_reach(1)]) (simp add: demo_rt_def)

text \<open>
  A client that makes any batch of requests and then frees what it was given, in any order, leaves the allocator
  with exactly the allocations it had before; no call on the way fails otherwise than by a null address.
\<close>

theorem caching_batch_roundtrip:
  assumes "runtime_ok rt" "caching_reach rt st" "caching_ready st" "\<forall>n\<in>set ns. 0 \<le> n \<and> n + 511 < 2 ^ 64"
  shows "\<exists>ps st1. malloc_all (\<lambda>st n. CachingMalloc rt st n 0 device_id) ns st = Inr (ps, st1) \<and>
    (\<forall>qs. mset qs = mset (filter (\<lambda>p. p \<noteq> 0) ps) \<longrightarrow>
      (\<exists>st2. free_list CachingFree qs st1 = Inr st2 \<and> allocated_size st2 = allocated_size st))"
  using ca.malloc_free_all [of rt st ns device_id] assms by blast

theorem caching_batch_roundtrip_witness:
  "\<exists>ps st1. malloc_all (\<lambda>st n. CachingMalloc demo_rt st n 0 0) [10, 600000, 2000] demo_two = Inr (ps, st1) \<and>
    (\<forall>qs. mset qs = mset (filter (\<lambda>p. p \<noteq> 0) ps) \<longrightarrow>
      (\<exists>st2. free_list CachingFree qs st1 = Inr st2 \<and> allocated_size st2 = allocated_size demo_two))"
  by (rule caching_batch_roundtrip [OF demo_rt_ok demo_two_reach]) simp

section \<open>Divergences\<close>

text \<open>
  An address hint can make \<open>Malloc\<close> fail although the region it has just obtained would do: for a request of
  exactly a bin size the search starts at the hint, and the new region lies below it.
\<close>

lemma caching_hint_fails:
  "fst (projr (CachingMalloc demo_rt demo_init 524288 0 0)) = 4096 \<and> fst (projr (CachingMalloc demo_rt demo_init 524288 8192 0)) = 0"
  by code_simp

text \<open>
  Rounding wraps for the 511 sizes at the top of the range: the block size is 0, and \<open>Malloc\<close> returns an address with
  an allocation of no bytes.
\<close>

lemma GetBlockSize_wraps: "GetBlockSize (2 ^ 64 - 1) = 0"
  by code_simp

lemma caching_malloc_wraps:
  "fst (projr (CachingMalloc demo_rt demo_one (2 ^ 64 - 1) 0 0)) = 5120"
  "allocated_size (snd (projr (CachingMalloc demo_rt demo_one (2 ^ 64 - 1) 0 0))) 5120 = Some 0"
  by code_simp+

end
