(* ===== verification/Rdma_Pool.thy ===== *)
theory Rdma_Pool
  imports Block_Pool Graph_Mem_Allocator
begin

text \<open>
  The pool of RDMA memory (\<open>rdma_pool_allocator.cc\<close>): one region of device memory, obtained by \<open>InitMemory\<close>, from
  which blocks are handed out by best fit and split, and in which freed neighbours are merged. The blocks have no bin
  of their own; the allocator has a single one. \<open>rtSetDevice\<close> is the argument \<open>set_device\<close> of \<open>InitMemory\<close>;
  \<open>rtDeviceReset\<close>, whose result is only logged, is left out, and locks are.
\<close>

section \<open>Operations\<close>

record RdmaPoolAllocator =
  rp_heap :: heap
  rp_new :: nat
  rp_bin :: "nat list"
  rp_allocated :: "(int \<times> nat) list"
  rp_base_addr :: int
  rp_mem_size :: int
  rp_memory_allocator :: bool
  rp_dev :: Device

definition kAlignedSize :: int where "kAlignedSize = 512"

definition GetAlignedBlockSize :: "int \<Rightarrow> int" where
  "GetAlignedBlockSize sz =
     (if sz = 0 then kAlignedSize else u64 (kAlignedSize * (u64 (sz + kAlignedSize - 1) div kAlignedSize)))"

text \<open>The threshold 0.5, scaled by 2.\<close>

definition RdmaShouldSplit :: "Block \<Rightarrow> int \<Rightarrow> bool" where
  "RdmaShouldSplit block sz \<longleftrightarrow> 2 * to_double sz \<le> to_double (blk_size block)"

definition RdmaCanMerge :: "heap \<Rightarrow> nat option \<Rightarrow> bool res" where
  "RdmaCanMerge h block =
     (case block of None \<Rightarrow> Inr False | Some b \<Rightarrow> deref h b (\<lambda>B. Inr (\<not> blk_allocated B)))"

definition new_RdmaPoolAllocator :: "Device \<Rightarrow> RdmaPoolAllocator" where
  "new_RdmaPoolAllocator dev = \<lparr>rp_heap = Map.empty, rp_new = 0, rp_bin = [], rp_allocated = [], rp_base_addr = 0,
     rp_mem_size = 0, rp_memory_allocator = False, rp_dev = dev\<rparr>"

text \<open>\<open>MemManager::Instance\<close> never returns null: it falls back to a default allocator.\<close>

definition RdmaInitialize :: "RdmaPoolAllocator \<Rightarrow> Status \<times> RdmaPoolAllocator" where
  "RdmaInitialize st = (SUCCESS, st\<lparr>rp_memory_allocator := True\<rparr>)"

fun delete_blocks :: "nat list \<Rightarrow> heap \<Rightarrow> heap res" where
  "delete_blocks [] h = Inr h"
| "delete_blocks (b # bs) h = deref h b (\<lambda>_. delete_blocks bs (h(b := None)))"

definition RdmaFinalize :: "runtime \<Rightarrow> RdmaPoolAllocator \<Rightarrow> RdmaPoolAllocator res" where
  "RdmaFinalize rt st =
     and_then (delete_blocks (map snd (rp_allocated st)) (rp_heap st)) (\<lambda>h.
     and_then (delete_blocks (rp_bin st) h) (\<lambda>h.
       let st = st\<lparr>rp_heap := h, rp_allocated := [], rp_bin := []\<rparr>
       in if rp_base_addr st = 0 then Inr st
          else if \<not> rp_memory_allocator st then Inl Fault
          else Inr (st\<lparr>rp_dev := snd (FreeMemory rt (rp_dev st) (rp_base_addr st)), rp_base_addr := 0\<rparr>)))"

definition InitMemory ::
  "runtime \<Rightarrow> bool \<Rightarrow> RdmaPoolAllocator \<Rightarrow> int \<Rightarrow> int \<Rightarrow> (Status \<times> RdmaPoolAllocator) res" where
  "InitMemory rt set_device st mem_size device_id =
     (if rp_base_addr st \<noteq> 0 then Inr (GE_MULTI_INIT, st)
      else if \<not> set_device then Inr (FAILED, st)
      else if \<not> rp_memory_allocator st then Inl Fault
      else
        let (addr, dev) = MallocMemory rt (rp_dev st) mem_size;
            st = st\<lparr>rp_base_addr := addr, rp_dev := dev\<rparr>
        in if addr = 0 then Inr (GE_GRAPH_MALLOC_FAILED, st)
           else
             let st = st\<lparr>rp_mem_size := mem_size\<rparr>; base_block = rp_new st
             in if \<not> rt_new rt base_block then Inr (GE_GRAPH_MALLOC_FAILED, st\<lparr>rp_new := base_block + 1\<rparr>)
                else
                  let h = (rp_heap st)(base_block \<mapsto> new_Block device_id mem_size None addr)
                  in and_then (bin_insert h base_block (rp_bin st)) (\<lambda>bin.
                       Inr (SUCCESS, st\<lparr>rp_heap := h, rp_new := base_block + 1, rp_bin := bin\<rparr>)))"

text \<open>\<open>unordered_map::emplace\<close> keeps an existing entry.\<close>

definition emplace :: "int \<Rightarrow> nat \<Rightarrow> (int \<times> nat) list \<Rightarrow> (int \<times> nat) list" where
  "emplace p b tbl = (case map_of tbl p of None \<Rightarrow> AList.update p b tbl | Some _ \<Rightarrow> tbl)"

definition rdma_split :: "runtime \<Rightarrow> RdmaPoolAllocator \<Rightarrow> nat \<Rightarrow> int \<Rightarrow> int \<Rightarrow> RdmaPoolAllocator res" where
  "rdma_split rt st block aligned_size device_id =
     deref (rp_heap st) block (\<lambda>B.
       if \<not> RdmaShouldSplit B aligned_size then Inr st
       else if \<not> rt_new rt (rp_new st) then Inr (st\<lparr>rp_new := rp_new st + 1\<rparr>)
       else
         let new_block = rp_new st;
             h = (rp_heap st)(new_block \<mapsto> new_Block device_id (u64 (blk_size B - aligned_size)) None (u64 (blk_ptr B + aligned_size)))
         in and_then (write_block h new_block (\<lambda>N. N\<lparr>blk_next := blk_next B\<rparr>)) (\<lambda>h.
            and_then (case blk_next B of None \<Rightarrow> Inr h | Some n \<Rightarrow> write_block h n (\<lambda>X. X\<lparr>blk_prev := Some new_block\<rparr>)) (\<lambda>h.
            and_then (write_block h new_block (\<lambda>N. N\<lparr>blk_prev := Some block\<rparr>)) (\<lambda>h.
            and_then (write_block h block (\<lambda>B. B\<lparr>blk_next := Some new_block, blk_size := aligned_size\<rparr>)) (\<lambda>h.
            and_then (bin_insert h new_block (rp_bin st)) (\<lambda>bin.
              Inr (st\<lparr>rp_heap := h, rp_new := rp_new st + 1, rp_bin := bin\<rparr>)))))))"

definition RdmaMalloc :: "runtime \<Rightarrow> RdmaPoolAllocator \<Rightarrow> int \<Rightarrow> int \<Rightarrow> (int \<times> RdmaPoolAllocator) res" where
  "RdmaMalloc rt st sz device_id =
     (let aligned_size = GetAlignedBlockSize sz; key = new_Block device_id aligned_size None 0
      in and_then (bin_lower_bound (rp_heap st) key (rp_bin st)) (\<lambda>it.
         case it of
           None \<Rightarrow> Inr (0, st)
         | Some block \<Rightarrow> deref (rp_heap st) block (\<lambda>B.
             let st = st\<lparr>rp_bin := remove1 block (rp_bin st), rp_heap := (rp_heap st)(block \<mapsto> B\<lparr>blk_allocated := True\<rparr>)\<rparr>
             in if blk_ptr B = 0 then Inr (0, st)
                else and_then (rdma_split rt (st\<lparr>rp_allocated := emplace (blk_ptr B) block (rp_allocated st)\<rparr>) block aligned_size device_id)
                       (\<lambda>st. Inr (blk_ptr B, st)))))"

definition RdmaMergeBlocks :: "RdmaPoolAllocator \<Rightarrow> nat \<Rightarrow> nat option \<Rightarrow> RdmaPoolAllocator res" where
  "RdmaMergeBlocks st dst src =
     and_then (merge_blocks RdmaCanMerge (rp_heap st) (rp_bin st) dst src) (\<lambda>(h, bin).
       Inr (st\<lparr>rp_heap := h, rp_bin := bin\<rparr>))"

definition RdmaFree :: "RdmaPoolAllocator \<Rightarrow> int \<Rightarrow> (Status \<times> RdmaPoolAllocator) res" where
  "RdmaFree st addr =
     (if addr = 0 then Inr (GE_GRAPH_FREE_FAILED, st)
      else case map_of (rp_allocated st) addr of
             None \<Rightarrow> Inr (PARAM_INVALID, st)
           | Some block \<Rightarrow> deref (rp_heap st) block (\<lambda>B.
               let st = st\<lparr>rp_heap := (rp_heap st)(block \<mapsto> B\<lparr>blk_allocated := False\<rparr>),
                          rp_allocated := AList.delete addr (rp_allocated st)\<rparr>
               in and_then (RdmaMergeBlocks st block (blk_prev B)) (\<lambda>st.
                  and_then (RdmaMergeBlocks st block (blk_next B)) (\<lambda>st.
                  and_then (bin_insert (rp_heap st) block (rp_bin st)) (\<lambda>bin.
                    Inr (SUCCESS, st\<lparr>rp_bin := bin\<rparr>))))))"

definition GetBaseAddr :: "RdmaPoolAllocator \<Rightarrow> (int \<times> int) res" where
  "GetBaseAddr st = (if rp_base_addr st = 0 then Inl (Ret INTERNAL_ERROR) else Inr (rp_base_addr st, rp_mem_size st))"

interpretation rp: block_pool "\<lambda>_. None" 1 1 RdmaCanMerge
  by unfold_locales (auto simp: RdmaCanMerge_def)

section \<open>Invariant\<close>

text \<open>
  The blocks tile the region obtained by \<open>InitMemory\<close>, or there are none; the region is live; the table holds
  the allocated blocks. A region below $2^{53}$ bytes keeps the comparison of \<open>ShouldSplit\<close> exact.
\<close>

definition rdma_inv :: "(int \<times> int) set \<Rightarrow> RdmaPoolAllocator \<Rightarrow> bool" where
  "rdma_inv R st \<longleftrightarrow> pool_inv (\<lambda>_. None) 1 1 {} R (rp_heap st) [Some (rp_bin st)] \<and> table_inv (rp_allocated st) (rp_heap st) \<and>
     device_ok (rp_dev st) \<and> R \<subseteq> set (dev_live (rp_dev st)) \<and> R \<subseteq> {(rp_base_addr st, rp_mem_size st)} \<and>
     (R \<noteq> {} \<longrightarrow> rp_mem_size st < 2 ^ 53) \<and> (rp_base_addr st \<noteq> 0 \<longrightarrow> rp_memory_allocator st) \<and>
     (\<forall>b. rp_new st \<le> b \<longrightarrow> rp_heap st b = None)"

lemma rdma_invD:
  assumes "rdma_inv R st"
  shows "pool_inv (\<lambda>_. None) 1 1 {} R (rp_heap st) [Some (rp_bin st)]" "chain_inv R (rp_heap st)"
    "table_inv (rp_allocated st) (rp_heap st)" "device_ok (rp_dev st)" "R \<subseteq> set (dev_live (rp_dev st))"
    "R \<subseteq> {(rp_base_addr st, rp_mem_size st)}" "R \<noteq> {} \<Longrightarrow> rp_mem_size st < 2 ^ 53"
    "rp_base_addr st \<noteq> 0 \<Longrightarrow> rp_memory_allocator st" "\<And>b. rp_new st \<le> b \<Longrightarrow> rp_heap st b = None"
    "bin_sorted (rp_heap st) (rp_bin st)"
  using assms by (auto simp: rdma_inv_def pool_inv_def bins_inv_def)

lemma rdma_bin_none: "rdma_inv R st \<Longrightarrow> rp_heap st b = Some B \<Longrightarrow> blk_bin B = None"
  using bins_invE [OF rp.poolD(2) [OF rdma_invD(1)], of R st b B] by metis

lemma rdma_block_bounds:
  assumes inv: "rdma_inv R st" and B: "rp_heap st b = Some B"
  shows "rp_base_addr st \<le> blk_ptr B" "blk_end B \<le> rp_base_addr st + rp_mem_size st" "0 < blk_size B" "blk_size B < 2 ^ 53"
    "0 < blk_ptr B" "blk_end B \<le> 2 ^ 64"
proof -
  obtain a n where r: "(a, n) \<in> R" "a \<le> blk_ptr B" "blk_end B \<le> a + n" using rdma_invD(2) [OF inv] B by (rule chain_region)
  then have an: "a = rp_base_addr st" "n = rp_mem_size st" "n < 2 ^ 53" using rdma_invD(6,7) [OF inv] by auto
  with r show "rp_base_addr st \<le> blk_ptr B" "blk_end B \<le> rp_base_addr st + rp_mem_size st" by simp_all
  show "0 < blk_size B" using chain_size [OF rdma_invD(2) [OF inv] B] .
  show "blk_size B < 2 ^ 53" using r an by linarith
  show "0 < blk_ptr B" "blk_end B \<le> 2 ^ 64" using chain_ptr [OF rdma_invD(2) [OF inv] B] by auto
qed

lemma GetAlignedBlockSize_ok:
  assumes "0 \<le> sz" "sz + 511 < 2 ^ 64"
  shows "512 dvd GetAlignedBlockSize sz" "0 < GetAlignedBlockSize sz" "sz \<le> GetAlignedBlockSize sz"
proof -
  have "GetAlignedBlockSize sz = (if sz = 0 then 512 else 512 * ((sz + 511) div 512))"
    using assms by (simp add: GetAlignedBlockSize_def kAlignedSize_def u64_def add.commute)
  then show "512 dvd GetAlignedBlockSize sz" "0 < GetAlignedBlockSize sz" "sz \<le> GetAlignedBlockSize sz"
    using assms by (auto; linarith)+
qed


section \<open>The operations keep the invariant\<close>

lemma rdma_inv_empty:
  assumes "device_ok (rp_dev st)" "rp_heap st = Map.empty" "rp_bin st = []" "rp_allocated st = []"
    "rp_base_addr st \<noteq> 0 \<longrightarrow> rp_memory_allocator st"
  shows "rdma_inv {} st"
proof -
  have "regions_ok {}" by (simp add: regions_ok_def)
  then show ?thesis using assms
    by (simp add: rdma_inv_def pool_inv_def chain_inv_empty bins_inv_def coalesced_def covered_def table_inv_def allocs_def)
qed

text \<open>Without a base address there is no block.\<close>

lemma rdma_no_base:
  assumes inv: "rdma_inv R st" and "rp_base_addr st = 0"
  shows "R = {}" "rp_heap st = Map.empty" "rp_bin st = []" "rp_allocated st = []"
proof -
  show R: "R = {}" using rdma_invD(6) [OF inv] assms(2) regions_pos [OF chain_regions [OF rdma_invD(2) [OF inv]]] by fastforce
  show h: "rp_heap st = Map.empty"
  proof (rule ext, rule ccontr)
    fix b assume "rp_heap st b \<noteq> None"
    then obtain B where "rp_heap st b = Some B" by blast
    then show False using R by (auto elim: chain_region [OF rdma_invD(2) [OF inv]])
  qed
  show "rp_bin st = []" using rdma_invD(10) [OF inv] h by (cases "rp_bin st") (auto simp: bin_sorted_def)
  show "rp_allocated st = []" using rdma_invD(3) [OF inv] h by (cases "rp_allocated st") (auto simp: table_inv_def allocs_def split: if_splits)
qed

lemma InitMemory_ok:
  assumes rt: "runtime_ok rt" and inv: "rdma_inv R st" and init: "rp_memory_allocator st" and n: "0 < mem_size" "mem_size < 2 ^ 53"
  obtains ret st' R' where "InitMemory rt set_device st mem_size device_id = Inr (ret, st')" "rdma_inv R' st'" "rp_memory_allocator st'"
    "rp_allocated st' = rp_allocated st"
    "ret = SUCCESS \<longrightarrow> rp_mem_size st' = mem_size \<and> (\<exists>b B. rp_heap st' b = Some B \<and> blk_size B = mem_size \<and> \<not> blk_allocated B)"
proof (cases "rp_base_addr st \<noteq> 0 \<or> \<not> set_device")
  case True
  then show thesis
    using inv init by (intro that [of "if rp_base_addr st \<noteq> 0 then GE_MULTI_INIT else FAILED" st R]) (auto simp: InitMemory_def)
next
  case False
  then have base: "rp_base_addr st = 0" and sd: "set_device" by simp_all
  note e = rdma_no_base [OF inv base]
  obtain addr dev where m: "MallocMemory rt (rp_dev st) mem_size = (addr, dev)" by (cases "MallocMemory rt (rp_dev st) mem_size")
  note ok = MallocMemory_ok [OF rt rdma_invD(4) [OF inv] n(1) m]
  show thesis
  proof (cases "addr = 0")
    case True
    let ?st = "st\<lparr>rp_base_addr := 0, rp_dev := dev\<rparr>"
    have "rdma_inv {} ?st" using ok(1) e init by (intro rdma_inv_empty) simp_all
    then show thesis using True base sd init m by (intro that [of GE_GRAPH_MALLOC_FAILED ?st "{}"]) (simp_all add: InitMemory_def)
  next
    case a: False
    then have live: "0 < addr" "dev_live dev = (addr, mem_size) # dev_live (rp_dev st)" using ok(2) by auto
    let ?st = "st\<lparr>rp_base_addr := addr, rp_dev := dev, rp_mem_size := mem_size, rp_new := rp_new st + 1\<rparr>"
    show thesis
    proof (cases "rt_new rt (rp_new st)")
      case False
      have "rdma_inv {} ?st" using ok(1) e init by (intro rdma_inv_empty) simp_all
      then show thesis
        using False a base sd init m by (intro that [of GE_GRAPH_MALLOC_FAILED ?st "{}"]) (simp_all add: InitMemory_def)
    next
      case True
      let ?b = "rp_new st" and ?B = "new_Block device_id mem_size None addr"
      have B: "blk_prev ?B = None" "blk_next ?B = None" "\<not> blk_allocated ?B" "1 dvd blk_size ?B" "blk_bin ?B = None"
        "blk_ptr ?B = addr" "blk_size ?B = mem_size" by (simp_all add: new_Block_def)
      have p: "pool_inv (\<lambda>_. None) 1 1 {} {} Map.empty [Some []]" using rdma_invD(1) [OF inv] e by simp
      have prem: "(Map.empty :: heap) ?b = None" "(blk_ptr ?B, blk_size ?B) \<notin> {}" "(0 :: nat) < 1" "[Some []] ! 0 = Some []" by simp_all
      have reg: "regions_ok (insert (blk_ptr ?B, blk_size ?B) {})" unfolding B using ok(1) live(2) by (auto simp: device_ok_def regions_ok_def)
      obtain ys where ys: "bin_insert (Map.empty(?b \<mapsto> ?B)) ?b [] = Inr ys"
        "pool_inv (\<lambda>_. None) 1 1 {} (insert (blk_ptr ?B, blk_size ?B) {}) (Map.empty(?b \<mapsto> ?B)) ([Some []][0 := Some ys])"
        "allocs (Map.empty(?b \<mapsto> ?B)) = allocs Map.empty"
        by (rule rp.add_region_pool [OF p prem(1) reg prem(2) B(1-4) prem(3) B(5) prem(4)])
      let ?st' = "?st\<lparr>rp_heap := (rp_heap st)(?b \<mapsto> ?B), rp_bin := ys\<rparr>"
      have "rdma_inv {(addr, mem_size)} ?st'"
        using ys ok(1) live e init n B(6,7) by (auto simp: rdma_inv_def table_inv_def allocs_def)
      moreover have "InitMemory rt set_device st mem_size device_id = Inr (SUCCESS, ?st')"
        using True a base sd init m ys(1) e by (simp add: InitMemory_def Let_def)
      ultimately show thesis using init B by (intro that [of SUCCESS ?st']) auto
    qed
  qed
qed

lemma RdmaFree_ok:
  assumes inv: "rdma_inv R st" and b: "map_of (rp_allocated st) p = Some b"
  obtains st' s where "RdmaFree st p = Inr (SUCCESS, st')" "rdma_inv R st'" "(b, p, s) \<in> allocs (rp_heap st)"
    "allocs (rp_heap st') = allocs (rp_heap st) - {(b, p, s)}" "rp_dev st' = rp_dev st"
proof -
  note I = rdma_invD [OF inv]
  obtain B where B: "rp_heap st b = Some B" "blk_allocated B" "blk_ptr B = p" using I(3) b by (auto simp: table_inv_def in_allocs)
  have bin: "(0 :: nat) < 1" "blk_bin B = None" "[Some (rp_bin st)] ! 0 = Some (rp_bin st)"
    using rdma_bin_none [OF inv B(1)] by simp_all
  obtain h1 xs1 h2 xs2 ys where m:
    "merge_blocks RdmaCanMerge ((rp_heap st)(b \<mapsto> B\<lparr>blk_allocated := False\<rparr>)) (rp_bin st) b (blk_prev B) = Inr (h1, xs1)"
    "merge_blocks RdmaCanMerge h1 xs1 b (blk_next B) = Inr (h2, xs2)" "bin_insert h2 b xs2 = Inr ys"
    "pool_inv (\<lambda>_. None) 1 1 {} R h2 ([Some (rp_bin st)][0 := Some ys])"
    "allocs h2 = allocs (rp_heap st) - {(b, blk_ptr B, blk_size B)}" "dom h2 \<subseteq> dom (rp_heap st)"
    using rp.free_ok [OF I(1) B(1,2) bin] by blast
  let ?st = "st\<lparr>rp_heap := h2, rp_allocated := AList.delete p (rp_allocated st), rp_bin := ys\<rparr>"
  have al: "(b, p, blk_size B) \<in> allocs (rp_heap st)" using B by (auto simp: in_allocs)
  have "p \<noteq> 0" using rdma_block_bounds(5) [OF inv B(1)] B(3) by simp
  then have "RdmaFree st p = Inr (SUCCESS, ?st)" using b B m by (simp add: RdmaFree_def RdmaMergeBlocks_def Let_def)
  moreover have "table_inv (AList.delete p (rp_allocated st)) h2"
    by (rule table_inv_delete [OF I(2,3) al]) (use m(5) B(3) in simp)
  then have "rdma_inv R ?st"
    using inv m(4,6) by (auto simp: rdma_inv_def dom_def)
  ultimately show thesis using m(5) al B(3) by (intro that [of ?st "blk_size B"]) simp_all
qed


lemma rdma_split_ok:
  assumes inv: "rdma_inv R st" and B: "rp_heap st b = Some B" "blk_allocated B" "used (rp_heap st) (blk_next B)"
    and al: "0 < al" "al \<le> blk_size B"
  obtains st' n where "rdma_split rt st b al device_id = Inr st'" "rdma_inv R st'" "al \<le> n" "rp_allocated st' = rp_allocated st"
    "rp_dev st' = rp_dev st" "allocs (rp_heap st') = insert (b, blk_ptr B, n) (allocs (rp_heap st) - {(b, blk_ptr B, blk_size B)})"
    "rt_new rt (rp_new st) \<longrightarrow> n < 2 * al" "rp_base_addr st' = rp_base_addr st" "rp_memory_allocator st' = rp_memory_allocator st"
proof -
  note I = rdma_invD [OF inv]
  note bd = rdma_block_bounds [OF inv B(1)]
  have sp: "RdmaShouldSplit B al \<longleftrightarrow> 2 * al \<le> blk_size B"
    using al bd(4) by (simp add: RdmaShouldSplit_def to_double_def)
  have same: "allocs (rp_heap st) = insert (b, blk_ptr B, blk_size B) (allocs (rp_heap st) - {(b, blk_ptr B, blk_size B)})"
    using B by (auto simp: in_allocs)
  show thesis
  proof (cases "2 * al \<le> blk_size B \<and> rt_new rt (rp_new st)")
    case False
    then obtain st' where "rdma_split rt st b al device_id = Inr st'" "st' = st \<or> st' = st\<lparr>rp_new := rp_new st + 1\<rparr>"
      "rt_new rt (rp_new st) \<longrightarrow> blk_size B < 2 * al"
      using B(1) sp by (cases "2 * al \<le> blk_size B") (auto simp: rdma_split_def)
    moreover from this have "rdma_inv R st'" and h: "rp_heap st' = rp_heap st" using inv by (auto simp: rdma_inv_def)
    moreover have "allocs (rp_heap st') = insert (b, blk_ptr B, blk_size B) (allocs (rp_heap st) - {(b, blk_ptr B, blk_size B)})"
      unfolding h by (rule same)
    ultimately show thesis using al by (intro that [of st' "blk_size B"]) auto
  next
    case True
    let ?c = "rp_new st" and ?N = "new_Block device_id (blk_size B - al) None (blk_ptr B + al)" and ?h = "rp_heap st"
    have c: "?h ?c = None" using I(9) by simp
    then have bc: "b \<noteq> ?c" using B(1) by auto
    have bin: "(0 :: nat) < 1" "blk_bin B = None" "[Some (rp_bin st)] ! 0 = Some (rp_bin st)"
      using rdma_bin_none [OF inv B(1)] by simp_all
    have N: "0 < blk_size ?N" "blk_size ?N < blk_size B" "1 dvd blk_size ?N" "blk_ptr ?N = blk_end B - blk_size ?N" "blk_bin ?N = blk_bin B"
      "\<not> blk_allocated ?N" using True al bin(2) by (simp_all add: new_Block_def)
    let ?h' = "split_back ?h b B ?c ?N"
    obtain ys where ys: "bin_insert ?h' ?c (rp_bin st) = Inr ys" "pool_inv (\<lambda>_. None) 1 1 {} R ?h' ([Some (rp_bin st)][0 := Some ys])"
      "allocs ?h' = insert (b, blk_ptr B, blk_size B - blk_size ?N) (allocs ?h - {(b, blk_ptr B, blk_size B)})"
      using rp.split_back_pool [OF I(1) B c N bin] by blast
    let ?st = "st\<lparr>rp_heap := ?h', rp_new := rp_new st + 1, rp_bin := ys\<rparr>"
    have size: "u64 (blk_ptr B + al) = blk_ptr B + al" "u64 (blk_size B - al) = blk_size B - al" "blk_size B - blk_size ?N = al"
      using bd al True by (simp_all add: u64_def new_Block_def)
    have "rdma_split rt st b al device_id = Inr ?st"
    proof (cases "blk_next B")
      case None
      have "?h(?c \<mapsto> ?N\<lparr>blk_next := None, blk_prev := Some b\<rparr>, b \<mapsto> B\<lparr>blk_next := Some ?c, blk_size := al\<rparr>) = ?h'"
        using None bc size(3) by (intro ext) (auto simp: split_back_def new_Block_def)
      with None bc B True ys size sp show ?thesis by (simp add: rdma_split_def Let_def new_Block_def)
    next
      case (Some q)
      obtain Q where Q: "?h q = Some Q" "b \<noteq> q" using chain_next_ex [OF I(2) B(1) Some] by blast
      have qc: "q \<noteq> ?c" using Q c by auto
      have "?h(?c \<mapsto> ?N\<lparr>blk_next := Some q\<rparr>, q \<mapsto> Q\<lparr>blk_prev := Some ?c\<rparr>, ?c \<mapsto> ?N\<lparr>blk_next := Some q, blk_prev := Some b\<rparr>,
          b \<mapsto> B\<lparr>blk_next := Some ?c, blk_size := al\<rparr>) = ?h'"
        using Some bc Q qc size(3) by (intro ext) (auto simp: split_back_def new_Block_def)
      with Some bc B True ys size sp Q qc show ?thesis by (simp add: rdma_split_def Let_def new_Block_def)
    qed
    moreover have "table_inv (rp_allocated st) ?h'"
      unfolding table_inv_def ys(3) using I(3) B(1,2) by (auto simp: table_inv_def in_allocs)
    moreover have "b < rp_new st" using I(9) B(1) by (auto simp: not_le [symmetric])
    ultimately have "rdma_inv R ?st" "rdma_split rt st b al device_id = Inr ?st"
      using inv ys(2) by (auto simp: rdma_inv_def split_back_def)
    then show thesis using ys(3) size(3) True al by (intro that [of ?st al]) simp_all
  qed
qed

lemma RdmaMalloc_ok:
  assumes inv: "rdma_inv R st" and sz: "0 \<le> sz" "sz + 511 < 2 ^ 64"
  obtains (failed) "RdmaMalloc rt st sz device_id = Inr (0, st)"
      "\<And>b B. rp_heap st b = Some B \<Longrightarrow> \<not> blk_allocated B \<Longrightarrow> blk_size B < GetAlignedBlockSize sz"
    | (found) p st' b n where "RdmaMalloc rt st sz device_id = Inr (p, st')" "rdma_inv R st'" "p \<noteq> 0"
      "allocs (rp_heap st') = insert (b, p, n) (allocs (rp_heap st))" "map_of (rp_allocated st) p = None" "GetAlignedBlockSize sz \<le> n"
      "rt_new rt (rp_new st) \<longrightarrow> n < 2 * GetAlignedBlockSize sz" "rp_memory_allocator st' = rp_memory_allocator st"
proof -
  let ?al = "GetAlignedBlockSize sz" and ?key = "new_Block device_id (GetAlignedBlockSize sz) None 0"
  note I = rdma_invD [OF inv]
  note n = GetAlignedBlockSize_ok [OF sz]
  have bin: "(0 :: nat) < 1" "[Some (rp_bin st)] ! 0 = Some (rp_bin st)" by simp_all
  have key: "block_key ?key = (?al, 0)" by (simp add: block_key_def new_Block_def)
  from bin_lower_bound_ok [OF I(10), of ?key] show thesis
  proof (elim disjE conjE exE)
    assume lb: "bin_lower_bound (rp_heap st) ?key (rp_bin st) = Inr None"
      and low: "\<forall>x\<in>set (rp_bin st). \<forall>X. rp_heap st x = Some X \<longrightarrow> block_key X < block_key ?key"
    have "blk_size B < ?al" if B: "rp_heap st b = Some B" "\<not> blk_allocated B" for b B
    proof -
      obtain i xs where "i < 1" "[Some (rp_bin st)] ! i = Some xs" "b \<in> set xs"
        using bins_invE [OF rp.poolD(2) [OF I(1)] B(1)] B(2) by (metis empty_iff)
      then have "block_key B < block_key ?key" using low B(1) by simp
      then show ?thesis using rdma_block_bounds(5) [OF inv B(1)] unfolding key by (auto simp: block_key_def)
    qed
    then show thesis using lb by (intro failed) (simp_all add: RdmaMalloc_def Let_def)
  next
    fix b X assume lb: "bin_lower_bound (rp_heap st) ?key (rp_bin st) = Inr (Some b)" and bx: "b \<in> set (rp_bin st)"
      and X: "rp_heap st b = Some X" and ge: "block_key ?key \<le> block_key X"
    obtain B where B: "rp_heap st b = Some B" "\<not> blk_allocated B" "used (rp_heap st) (blk_next B)"
      and p: "pool_inv (\<lambda>_. None) 1 1 {b} R (rp_heap st) ([Some (rp_bin st)][0 := Some (remove1 b (rp_bin st))])"
      using rp.take_block [OF I(1) bin bx] by blast
    have size: "?al \<le> blk_size B" using ge B(1) X by (auto simp: block_key_def new_Block_def)
    let ?h = "(rp_heap st)(b \<mapsto> B\<lparr>blk_allocated := True\<rparr>)"
    let ?st = "st\<lparr>rp_bin := remove1 b (rp_bin st), rp_heap := ?h, rp_allocated := AList.update (blk_ptr B) b (rp_allocated st)\<rparr>"
    have nb: "(b, q, t) \<notin> allocs (rp_heap st)" for q t using B by (auto simp: in_allocs)
    have al: "allocs ?h = insert (b, blk_ptr B, blk_size B) (allocs (rp_heap st))"
      using nb by (auto simp: allocs_upd split_paired_all)
    have p': "pool_inv (\<lambda>_. None) 1 1 {} R ?h [Some (remove1 b (rp_bin st))]" using rp.set_flag [OF p B(1)] by simp
    then have ch: "chain_inv R ?h" by (simp add: pool_inv_def)
    have fresh: "map_of (rp_allocated st) (blk_ptr B) = None"
    proof (rule ccontr)
      assume "map_of (rp_allocated st) (blk_ptr B) \<noteq> None"
      then obtain c t where ct: "(c, blk_ptr B, t) \<in> allocs (rp_heap st)" using I(3) by (auto simp: table_inv_def)
      then have "b = c" using allocs_ptr_unique [OF ch, of b "blk_ptr B" "blk_size B" c t] al by auto
      with ct nb show False by blast
    qed
    have "b < rp_new st" using I(9) B(1) by (auto simp: not_le [symmetric])
    then have inv': "rdma_inv R ?st"
      using inv p' table_inv_update [OF ch I(3) al] by (auto simp: rdma_inv_def)
    have B': "rp_heap ?st b = Some (B\<lparr>blk_allocated := True\<rparr>)" "blk_allocated (B\<lparr>blk_allocated := True\<rparr>)"
      "used (rp_heap ?st) (blk_next (B\<lparr>blk_allocated := True\<rparr>))" "?al \<le> blk_size (B\<lparr>blk_allocated := True\<rparr>)"
      using B(3) size by (auto simp: used_def)
    let ?B = "B\<lparr>blk_allocated := True\<rparr>"
    obtain st' m where st'': "rdma_split rt ?st b ?al device_id = Inr st'" "rdma_inv R st'" "?al \<le> m"
      "allocs (rp_heap st') = insert (b, blk_ptr ?B, m) (allocs (rp_heap ?st) - {(b, blk_ptr ?B, blk_size ?B)})"
      "rt_new rt (rp_new ?st) \<longrightarrow> m < 2 * ?al" "rp_memory_allocator st' = rp_memory_allocator ?st"
      by (rule rdma_split_ok [OF inv' B'(1-3) n(2) B'(4), of rt device_id])
    note st' = st'' [simplified]
    have ptr: "blk_ptr B \<noteq> 0" using rdma_block_bounds(5) [OF inv B(1)] by simp
    have "RdmaMalloc rt st sz device_id = Inr (blk_ptr B, st')"
      using lb B(1) ptr fresh st'(1) by (simp add: RdmaMalloc_def Let_def emplace_def)
    moreover have "allocs (rp_heap st') = insert (b, blk_ptr B, m) (allocs (rp_heap st))"
      unfolding st'(4) al using nb by auto
    ultimately show thesis using st' ptr fresh by (intro found [of "blk_ptr B" st' b m]) simp_all
  qed
qed

end
