(* ===== verification/Rdma_Spec.thy ===== *)
theory Rdma_Spec
  imports Rdma_Pool Allocator_Contract
begin

text \<open>The states of the RDMA pool a client can reach, and the properties of the pool in them.\<close>

section \<open>Finalize\<close>

lemma delete_blocks_ok:
  "distinct bs \<Longrightarrow> (\<And>b. b \<in> set bs \<Longrightarrow> h b \<noteq> None) \<Longrightarrow> delete_blocks bs h = Inr (h |` (- set bs))"
proof (induction bs arbitrary: h)
  case (Cons b bs)
  obtain B where B: "h b = Some B" using Cons.prems(2) [of b] by auto
  have "delete_blocks bs (h(b := None)) = Inr ((h(b := None)) |` (- set bs))"
    using Cons.prems by (intro Cons.IH) auto
  moreover have "(h(b := None)) |` (- set bs) = h |` (- set (b # bs))" by (auto simp: restrict_map_def fun_eq_iff)
  ultimately show ?case using B by simp
qed (simp add: restrict_map_def)

lemma RdmaFinalize_ok:
  assumes inv: "rdma_inv R st"
  obtains st' where "RdmaFinalize rt st = Inr st'" "rdma_inv {} st'" "rp_heap st' = Map.empty" "rp_allocated st' = []" "rp_bin st' = []"
    "rp_base_addr st' = 0" "rp_memory_allocator st' = rp_memory_allocator st" "set (dev_live (rp_dev st')) \<subseteq> set (dev_live (rp_dev st))"
    "(\<forall>t a. rt_free rt t a) \<longrightarrow> set (dev_live (rp_dev st')) \<subseteq> set (dev_live (rp_dev st)) - R"
proof -
  note I = rdma_invD [OF inv]
  let ?bs = "map snd (rp_allocated st)" and ?h = "rp_heap st"
  have tbl: "\<exists>B. ?h b = Some B \<and> blk_allocated B \<and> blk_ptr B = p" if "(p, b) \<in> set (rp_allocated st)" for p b
    using I(3) that by (auto simp: table_inv_def in_allocs dest!: map_of_is_SomeI)
  have "distinct (rp_allocated st)" using I(3) by (simp add: table_inv_def distinct_map)
  moreover have "inj_on snd (set (rp_allocated st))"
  proof (rule inj_onI)
    fix x y assume x: "x \<in> set (rp_allocated st)" and y: "y \<in> set (rp_allocated st)" and e: "snd x = snd y"
    have "\<exists>B. ?h (snd x) = Some B \<and> blk_allocated B \<and> blk_ptr B = fst x" "\<exists>B. ?h (snd y) = Some B \<and> blk_allocated B \<and> blk_ptr B = fst y"
      by (rule tbl, simp add: x y)+
    with e show "x = y" by (auto intro: prod_eqI)
  qed
  ultimately have "distinct ?bs" by (simp add: distinct_map)
  moreover have "?h b \<noteq> None" if "b \<in> set ?bs" for b using that tbl by fastforce
  ultimately have d1: "delete_blocks ?bs ?h = Inr (?h |` (- set ?bs))" by (rule delete_blocks_ok)
  have free: "\<exists>B. ?h b = Some B \<and> \<not> blk_allocated B" if bm: "b \<in> set (rp_bin st)" for b
  proof -
    obtain B where "?h b = Some B" using I(10) bm by (cases "?h b") (auto simp: bin_sorted_def)
    moreover from this have "\<not> blk_allocated B" using bins_invD(3) [OF rp.poolD(2) [OF I(1)], of 0] bm by auto
    ultimately show ?thesis by blast
  qed
  have "b \<notin> set ?bs" if "b \<in> set (rp_bin st)" for b using free [OF that] tbl by fastforce
  then have d2: "delete_blocks (rp_bin st) (?h |` (- set ?bs)) = Inr (?h |` (- set ?bs) |` (- set (rp_bin st)))"
    using free bin_sorted_distinct [OF I(10)] by (intro delete_blocks_ok) (auto dest!: free)
  have none: "(?h |` (- set ?bs) |` (- set (rp_bin st))) b = None" for b
  proof (cases "?h b")
    case (Some B)
    have "b \<in> set ?bs" if "blk_allocated B"
    proof -
      have "map_of (rp_allocated st) (blk_ptr B) = Some b" using I(3) Some that by (auto simp: table_inv_def in_allocs)
      then show ?thesis by (force dest: map_of_SomeD)
    qed
    moreover have "b \<in> set (rp_bin st)" if "\<not> blk_allocated B"
      using bins_invE [OF rp.poolD(2) [OF I(1)] Some] that by fastforce
    ultimately show ?thesis by (auto simp: restrict_map_def)
  qed (simp add: restrict_map_def)
  then have emp: "?h |` (- set ?bs) |` (- set (rp_bin st)) = Map.empty" by blast
  let ?st = "st\<lparr>rp_heap := Map.empty, rp_allocated := [], rp_bin := []\<rparr>"
  show thesis
  proof (cases "rp_base_addr st = 0")
    case True
    then have "RdmaFinalize rt st = Inr ?st" using d1 d2 emp by (simp add: RdmaFinalize_def)
    moreover have "rdma_inv {} ?st" using I(4) True by (intro rdma_inv_empty) simp_all
    ultimately show thesis using True rdma_no_base(1) [OF inv True] by (intro that [of ?st]) simp_all
  next
    case False
    obtain ret dev where f: "FreeMemory rt (rp_dev st) (rp_base_addr st) = (ret, dev)" by (cases "FreeMemory rt (rp_dev st) (rp_base_addr st)")
    note ok = FreeMemory_ok [OF I(4) f]
    let ?st' = "?st\<lparr>rp_dev := dev, rp_base_addr := 0\<rparr>"
    have "RdmaFinalize rt st = Inr ?st'" using d1 d2 emp False I(8) f by (simp add: RdmaFinalize_def)
    moreover have "rdma_inv {} ?st'" using ok(1) by (intro rdma_inv_empty) simp_all
    moreover have "set (dev_live dev) \<subseteq> set (dev_live (rp_dev st)) - R" if "\<forall>t a. rt_free rt t a"
    proof -
      have "ret = SUCCESS" using f that by (auto simp: FreeMemory_def)
      then show ?thesis using f I(6) by (auto simp: FreeMemory_def split: if_splits)
    qed
    ultimately show thesis using ok(4) by (intro that [of ?st']) simp_all
  qed
qed

section \<open>Reachable pools\<close>

inductive rdma_reach :: "runtime \<Rightarrow> RdmaPoolAllocator \<Rightarrow> bool" for rt where
  construct: "device_ok dev \<Longrightarrow> rdma_reach rt (new_RdmaPoolAllocator dev)"
| initialize: "rdma_reach rt st \<Longrightarrow> rdma_reach rt (snd (RdmaInitialize st))"
| init_memory: "rdma_reach rt st \<Longrightarrow> rp_memory_allocator st \<Longrightarrow> 0 < mem_size \<Longrightarrow> mem_size < 2 ^ 53 \<Longrightarrow>
     InitMemory rt set_device st mem_size device_id = Inr (ret, st') \<Longrightarrow> rdma_reach rt st'"
| malloc: "rdma_reach rt st \<Longrightarrow> 0 \<le> sz \<Longrightarrow> sz + 511 < 2 ^ 64 \<Longrightarrow> RdmaMalloc rt st sz device_id = Inr (p, st') \<Longrightarrow> rdma_reach rt st'"
| free: "rdma_reach rt st \<Longrightarrow> RdmaFree st p = Inr (ret, st') \<Longrightarrow> rdma_reach rt st'"
| finalize: "rdma_reach rt st \<Longrightarrow> RdmaFinalize rt st = Inr st' \<Longrightarrow> rdma_reach rt st'"

lemma rdma_reach_inv:
  assumes rt: "runtime_ok rt" and "rdma_reach rt st"
  shows "\<exists>R. rdma_inv R st"
  using assms(2)
proof (induction rule: rdma_reach.induct)
  case (construct dev)
  then show ?case using rdma_inv_empty [of "new_RdmaPoolAllocator dev"] by (auto simp: new_RdmaPoolAllocator_def)
next
  case (initialize st)
  then show ?case by (auto simp: rdma_inv_def RdmaInitialize_def)
next
  case (init_memory st mem_size set_device device_id ret st')
  then obtain R where inv: "rdma_inv R st" by blast
  obtain ret' st1 R1 where "InitMemory rt set_device st mem_size device_id = Inr (ret', st1)" "rdma_inv R1 st1"
    using rt inv init_memory.hyps(2-4) by (rule InitMemory_ok)
  with init_memory.hyps(5) show ?case by auto
next
  case (malloc st sz device_id p st')
  then obtain R where "rdma_inv R st" by blast
  from this malloc.hyps(2,3) show ?case
    by (cases rule: RdmaMalloc_ok [where rt = rt and device_id = device_id]) (use malloc.hyps(4) \<open>rdma_inv R st\<close> in auto)
next
  case (free st p ret st')
  then obtain R where inv: "rdma_inv R st" by blast
  show ?case
  proof (cases "map_of (rp_allocated st) p")
    case None
    then show ?thesis using free.hyps(2) inv by (auto simp: RdmaFree_def split: if_splits)
  next
    case (Some b)
    obtain st1 where "RdmaFree st p = Inr (SUCCESS, st1)" "rdma_inv R st1" using inv Some by (rule RdmaFree_ok)
    with free.hyps(2) show ?thesis by auto
  qed
next
  case (finalize st st')
  then obtain R where "rdma_inv R st" by blast
  then obtain st1 where "RdmaFinalize rt st = Inr st1" "rdma_inv {} st1" by (rule RdmaFinalize_ok)
  with finalize.hyps(2) show ?case by auto
qed

definition rdma_size :: "RdmaPoolAllocator \<Rightarrow> int \<Rightarrow> int option" where
  "rdma_size st = table_size (rp_allocated st) (rp_heap st)"

lemma rdma_size_iff: "rdma_inv R st \<Longrightarrow> rdma_size st p = Some s \<longleftrightarrow> (\<exists>b. (b, p, s) \<in> allocs (rp_heap st))"
  by (simp add: rdma_size_def table_size_iff rdma_invD(3))

lemma rdma_malloc_law:
  assumes "runtime_ok rt \<and> rdma_reach rt st" "0 \<le> n \<and> n + 511 < 2 ^ 64"
  shows "\<exists>p st'. RdmaMalloc rt st n device_id = Inr (p, st') \<and> (runtime_ok rt \<and> rdma_reach rt st') \<and>
    (if p = 0 then rdma_size st' = rdma_size st
     else rdma_size st p = None \<and> (\<exists>m. n \<le> m \<and> rdma_size st' = (rdma_size st)(p \<mapsto> m)))"
proof -
  obtain R where inv: "rdma_inv R st" using rdma_reach_inv assms(1) by blast
  have reach: "rdma_reach rt st'" if "RdmaMalloc rt st n device_id = Inr (p, st')" for p st'
    using rdma_reach.malloc that assms by blast
  have n: "0 \<le> n" "n + 511 < 2 ^ 64" using assms(2) by simp_all
  from inv n show ?thesis
  proof (cases rule: RdmaMalloc_ok [where rt = rt and device_id = device_id])
    case failed
    then show ?thesis using assms(1) by auto
  next
    case (found p st' b m)
    have "rdma_size st' = (rdma_size st)(p \<mapsto> m)"
      unfolding rdma_size_def using rdma_invD(3) [OF inv] rdma_invD(3) [OF found(2)] found(4) by (rule table_size_insert)
    moreover have "rdma_size st p = None" using found(5) by (simp add: rdma_size_def table_size_def)
    moreover have "n \<le> m" using GetAlignedBlockSize_ok(3) [OF n] found(6) by simp
    ultimately show ?thesis using found(1,3) reach [OF found(1)] assms(1) by auto
  qed
qed

lemma rdma_free_law:
  assumes "runtime_ok rt \<and> rdma_reach rt st" "rdma_size st p \<noteq> None"
  shows "\<exists>st'. RdmaFree st p = Inr (SUCCESS, st') \<and> (runtime_ok rt \<and> rdma_reach rt st') \<and> rdma_size st' = (rdma_size st)(p := None)"
proof -
  obtain R where inv: "rdma_inv R st" using rdma_reach_inv assms(1) by blast
  obtain b where b: "map_of (rp_allocated st) p = Some b" using assms(2) by (auto simp: rdma_size_def table_size_def split: option.splits)
  obtain st' s where f: "RdmaFree st p = Inr (SUCCESS, st')" "rdma_inv R st'" "(b, p, s) \<in> allocs (rp_heap st)"
    "allocs (rp_heap st') = allocs (rp_heap st) - {(b, p, s)}" "rp_dev st' = rp_dev st" using inv b by (rule RdmaFree_ok)
  have "rdma_size st' = (rdma_size st)(p := None)"
    unfolding rdma_size_def using rdma_invD(2,3) [OF inv] rdma_invD(3) [OF f(2)] f(3,4) by (rule table_size_delete)
  then show ?thesis using f(1) assms(1) rdma_reach.free by blast
qed

interpretation ra: allocator "\<lambda>st. runtime_ok rt \<and> rdma_reach rt st" rdma_size
    "\<lambda>n. 0 \<le> n \<and> n + 511 < 2 ^ 64" "\<lambda>st n. RdmaMalloc rt st n device_id" RdmaFree for rt device_id
  by unfold_locales (fact rdma_malloc_law, fact rdma_free_law)

section \<open>A concrete run\<close>

definition pool_rt :: runtime where
  "pool_rt = \<lparr>rt_malloc = (\<lambda>t live n. if live = [] \<and> n \<le> 2 ^ 40 then Some 8192 else None),
     rt_free = (\<lambda>t a. True), rt_new = (\<lambda>t. True)\<rparr>"

definition pool_new :: RdmaPoolAllocator where
  "pool_new = snd (RdmaInitialize (new_RdmaPoolAllocator \<lparr>dev_live = [], dev_tick = 0\<rparr>))"

definition pool_init :: RdmaPoolAllocator where
  "pool_init = snd (projr (InitMemory pool_rt True pool_new 100000 0))"

definition pool_one :: RdmaPoolAllocator where
  "pool_one = snd (projr (RdmaMalloc pool_rt pool_init 700 0))"

definition pool_two :: RdmaPoolAllocator where
  "pool_two = snd (projr (RdmaMalloc pool_rt pool_one 100 0))"

lemma pool_rt_ok: "runtime_ok pool_rt"
  by (auto simp: runtime_ok_def pool_rt_def split: if_splits)

lemma rdma_step:
  "rdma_reach rt st \<Longrightarrow> rp_memory_allocator st \<Longrightarrow> 0 < n \<Longrightarrow> n < 2 ^ 53 \<Longrightarrow> \<not> isl (InitMemory rt s st n d) \<Longrightarrow>
     rdma_reach rt (snd (projr (InitMemory rt s st n d)))"
  "rdma_reach rt st \<Longrightarrow> 0 \<le> n \<Longrightarrow> n + 511 < 2 ^ 64 \<Longrightarrow> \<not> isl (RdmaMalloc rt st n d) \<Longrightarrow>
     rdma_reach rt (snd (projr (RdmaMalloc rt st n d)))"
  by (cases "InitMemory rt s st n d"; force intro: rdma_reach.init_memory)
    (cases "RdmaMalloc rt st n d"; force intro: rdma_reach.malloc)

lemma pool_reach: "rdma_reach pool_rt pool_new" "rdma_reach pool_rt pool_init" "rdma_reach pool_rt pool_one" "rdma_reach pool_rt pool_two"
proof -
  have "rdma_reach pool_rt (new_RdmaPoolAllocator \<lparr>dev_live = [], dev_tick = 0\<rparr>)"
    by (rule rdma_reach.construct) (simp add: device_ok_def regions_ok_def)
  then show 0: "rdma_reach pool_rt pool_new" unfolding pool_new_def by (rule rdma_reach.initialize)
  show 1: "rdma_reach pool_rt pool_init" unfolding pool_init_def
    by (rule rdma_step(1) [OF 0]) (code_simp, simp, simp, code_simp)
  show 2: "rdma_reach pool_rt pool_one" unfolding pool_one_def
    by (rule rdma_step(2) [OF 1]) (simp, simp, code_simp)
  show 3: "rdma_reach pool_rt pool_two" unfolding pool_two_def
    by (rule rdma_step(2) [OF 2]) (simp, simp, code_simp)
qed

lemma pool_two_sizes: "rdma_size pool_two 8192 = Some 1024" "rdma_size pool_two 9216 = Some 512"
  by code_simp+

section \<open>Properties\<close>

text \<open>
  C12: In every state of the RDMA pool that its operations reach, InitMemory with sizes below \<open>2 ^ 53\<close>, two allocations never overlap, and each lies inside the region that
  InitMemory obtained, which is still live on the device.
\<close>

theorem rdma_no_overlap:
  assumes "runtime_ok rt" "rdma_reach rt st" "rdma_size st p = Some m" "rdma_size st q = Some n" "p \<noteq> q"
  shows "(p + m \<le> q \<or> q + n \<le> p) \<and> rp_base_addr st \<le> p \<and> p + m \<le> rp_base_addr st + rp_mem_size st \<and>
    (rp_base_addr st, rp_mem_size st) \<in> set (dev_live (rp_dev st))"
proof -
  obtain R where inv: "rdma_inv R st" using rdma_reach_inv [OF assms(1,2)] ..
  obtain b d where al: "(b, p, m) \<in> allocs (rp_heap st)" "(d, q, n) \<in> allocs (rp_heap st)"
    using assms(3,4) by (auto simp: rdma_size_iff [OF inv])
  obtain B where B: "rp_heap st b = Some B" "blk_ptr B = p" "blk_size B = m" using al(1) by (auto simp: in_allocs)
  have "R \<noteq> {}" using chain_region [OF rdma_invD(2) [OF inv] B(1)] by blast
  then have "(rp_base_addr st, rp_mem_size st) \<in> set (dev_live (rp_dev st))" using rdma_invD(5,6) [OF inv] by auto
  with allocs_disjoint [OF rdma_invD(2) [OF inv] al assms(5)] rdma_block_bounds(1,2) [OF inv B(1)] B show ?thesis by auto
qed

theorem rdma_no_overlap_witness:
  "rp_base_addr pool_two \<le> 8192 \<and> 8192 + 1024 \<le> rp_base_addr pool_two + rp_mem_size pool_two \<and>
   (rp_base_addr pool_two, rp_mem_size pool_two) \<in> set (dev_live (rp_dev pool_two))"
  using rdma_no_overlap [OF pool_rt_ok pool_reach(4) pool_two_sizes] by simp

text \<open>
  C27: Malloc of the RDMA pool fails only when no free block is large enough for the request rounded up to 512 bytes;
  otherwise it returns a fresh address with at least the rounded size, and less than twice of it when Block objects
  can be created.
\<close>

theorem rdma_malloc_best_fit:
  assumes "runtime_ok rt" "rdma_reach rt st" "0 \<le> sz" "sz + 511 < 2 ^ 64"
  shows "\<exists>p st'. RdmaMalloc rt st sz device_id = Inr (p, st') \<and>
    (if p = 0 then st' = st \<and> (\<forall>b B. rp_heap st b = Some B \<longrightarrow> \<not> blk_allocated B \<longrightarrow> blk_size B < GetAlignedBlockSize sz)
     else rdma_size st p = None \<and> (\<exists>n. rdma_size st' = (rdma_size st)(p \<mapsto> n) \<and> GetAlignedBlockSize sz \<le> n \<and>
       (rt_new rt (rp_new st) \<longrightarrow> n < 2 * GetAlignedBlockSize sz)))"
proof -
  obtain R where inv: "rdma_inv R st" using rdma_reach_inv [OF assms(1,2)] ..
  from inv assms(3,4) show ?thesis
  proof (cases rule: RdmaMalloc_ok [where rt = rt and device_id = device_id])
    case failed
    then show ?thesis by auto
  next
    case (found p st' b m)
    have "rdma_size st' = (rdma_size st)(p \<mapsto> m)"
      unfolding rdma_size_def using rdma_invD(3) [OF inv] rdma_invD(3) [OF found(2)] found(4) by (rule table_size_insert)
    moreover have "rdma_size st p = None" using found(5) by (simp add: rdma_size_def table_size_def)
    ultimately show ?thesis using found by auto
  qed
qed

theorem rdma_malloc_best_fit_witness:
  "\<exists>p st'. RdmaMalloc pool_rt pool_one 100 0 = Inr (p, st') \<and>
    (if p = 0 then st' = pool_one \<and> (\<forall>b B. rp_heap pool_one b = Some B \<longrightarrow> \<not> blk_allocated B \<longrightarrow> blk_size B < GetAlignedBlockSize 100)
     else rdma_size pool_one p = None \<and> (\<exists>n. rdma_size st' = (rdma_size pool_one)(p \<mapsto> n) \<and> GetAlignedBlockSize 100 \<le> n \<and>
       (rt_new pool_rt (rp_new pool_one) \<longrightarrow> n < 2 * GetAlignedBlockSize 100)))"
  by (rule rdma_malloc_best_fit [OF pool_rt_ok pool_reach(3)]) simp_all

text \<open>
  A client of the RDMA pool that makes any batch of requests and frees what it was given, in any order, leaves the
  pool with exactly the allocations it had before.
\<close>

theorem rdma_batch_roundtrip:
  assumes "runtime_ok rt" "rdma_reach rt st" "\<forall>n\<in>set ns. 0 \<le> n \<and> n + 511 < 2 ^ 64"
  shows "\<exists>ps st1. malloc_all (\<lambda>st n. RdmaMalloc rt st n device_id) ns st = Inr (ps, st1) \<and>
    (\<forall>qs. mset qs = mset (filter (\<lambda>p. p \<noteq> 0) ps) \<longrightarrow> (\<exists>st2. free_list RdmaFree qs st1 = Inr st2 \<and> rdma_size st2 = rdma_size st))"
  using ra.malloc_free_all [of rt st ns device_id] assms by blast

theorem rdma_batch_roundtrip_witness:
  "\<exists>ps st1. malloc_all (\<lambda>st n. RdmaMalloc pool_rt st n 0) [10, 600000, 2000] pool_two = Inr (ps, st1) \<and>
    (\<forall>qs. mset qs = mset (filter (\<lambda>p. p \<noteq> 0) ps) \<longrightarrow> (\<exists>st2. free_list RdmaFree qs st1 = Inr st2 \<and> rdma_size st2 = rdma_size pool_two))"
  by (rule rdma_batch_roundtrip [OF pool_rt_ok pool_reach(4)]) simp

text \<open>
  Finalize of the RDMA pool deletes every block exactly once, whether allocated or free, forgets the region, and
  returns it to the device when the device takes it back.
\<close>

theorem rdma_finalize_releases:
  assumes "runtime_ok rt" "rdma_reach rt st"
  shows "\<exists>st'. RdmaFinalize rt st = Inr st' \<and> rp_heap st' = Map.empty \<and> rp_allocated st' = [] \<and> rp_bin st' = [] \<and> rp_base_addr st' = 0 \<and>
    ((\<forall>t a. rt_free rt t a) \<longrightarrow> rp_heap st \<noteq> Map.empty \<longrightarrow> (rp_base_addr st, rp_mem_size st) \<notin> set (dev_live (rp_dev st')))"
proof -
  obtain R where inv: "rdma_inv R st" using rdma_reach_inv [OF assms] ..
  then obtain st' where f: "RdmaFinalize rt st = Inr st'" "rp_heap st' = Map.empty" "rp_allocated st' = []" "rp_bin st' = []"
    "rp_base_addr st' = 0" "(\<forall>t a. rt_free rt t a) \<longrightarrow> set (dev_live (rp_dev st')) \<subseteq> set (dev_live (rp_dev st)) - R"
    by (rule RdmaFinalize_ok)
  have "(rp_base_addr st, rp_mem_size st) \<in> R" if ne: "rp_heap st \<noteq> Map.empty"
  proof -
    from ne obtain b B where "rp_heap st b = Some B" by (metis option.exhaust)
    then have "R \<noteq> {}" using chain_region [OF rdma_invD(2) [OF inv]] by blast
    then show ?thesis using rdma_invD(6) [OF inv] by auto
  qed
  with f show ?thesis by auto
qed

theorem rdma_finalize_releases_witness:
  "\<exists>st'. RdmaFinalize pool_rt pool_two = Inr st' \<and> rp_heap st' = Map.empty \<and> (8192, 100000) \<notin> set (dev_live (rp_dev st'))"
proof -
  have "rp_base_addr pool_two = 8192" "rp_mem_size pool_two = 100000" "rp_heap pool_two 0 \<noteq> None" by code_simp+
  then show ?thesis using rdma_finalize_releases [OF pool_rt_ok pool_reach(4)] by (force simp: pool_rt_def)
qed

end
