(* ===== verification/BCast.thy ===== *)
theory BCast
  imports GE_Memory
begin

text \<open>
  Broadcasting of two tensor shapes (\<open>graph/common/bcast.h\<close>, \<open>bcast.cc\<close>): the class \<open>BCast\<close> with its eight
  dimension vectors, the generation of the broadcast information, the index vectors, and the two element-wise
  drivers the constant-folding kernels call. The reference is \<open>broadcast_pairs\<close>: the operands of every output
  element, found through its multi-index in row-major order. The element data of a tensor is the list of its
  values (the source reads the bytes through a pointer to the element type); a read past the list is a \<open>Fault\<close>,
  and so are the exceptions of \<open>at\<close>, which no caller catches.
\<close>

section \<open>Tensors\<close>

record 'a tensor =
  t_dtype :: DataType
  t_shape :: "int list"
  t_data :: "'a list"

section \<open>The class \<open>BCast\<close>\<close>

record BCast =
  x_reshape :: "int list"
  x_bcast :: "int list"
  y_reshape :: "int list"
  y_bcast :: "int list"
  result_shape :: "int list"
  output_shape :: "int list"
  grad_x_reduce_idx :: "int list"
  grad_y_reduce_idx :: "int list"

definition new_BCast :: BCast where
  "new_BCast = \<lparr> x_reshape = [], x_bcast = [], y_reshape = [], y_bcast = [], result_shape = [],
     output_shape = [], grad_x_reduce_idx = [], grad_y_reduce_idx = [] \<rparr>"

definition push_dims :: "int \<Rightarrow> int \<Rightarrow> int \<Rightarrow> int \<Rightarrow> int \<Rightarrow> BCast \<Rightarrow> BCast" where
  "push_dims output_i x_i x_bcast_i y_i y_bcast_i bc = bc \<lparr>
     output_shape := output_shape bc @ [output_i], result_shape := result_shape bc @ [output_i],
     x_reshape := x_reshape bc @ [x_i], x_bcast := x_bcast bc @ [x_bcast_i],
     y_reshape := y_reshape bc @ [y_i], y_bcast := y_bcast bc @ [y_bcast_i] \<rparr>"

definition push_grad_x :: "int \<Rightarrow> BCast \<Rightarrow> BCast" where
  "push_grad_x k bc = bc \<lparr> grad_x_reduce_idx := grad_x_reduce_idx bc @ [k] \<rparr>"

definition push_grad_y :: "int \<Rightarrow> BCast \<Rightarrow> BCast" where
  "push_grad_y k bc = bc \<lparr> grad_y_reduce_idx := grad_y_reduce_idx bc @ [k] \<rparr>"

text \<open>The body of the loop of \<open>SetShapeDifferentInfo\<close>, after the two sign checks.\<close>

definition SetDimInfo :: "int \<Rightarrow> int \<Rightarrow> int \<Rightarrow> BCast \<Rightarrow> Status \<times> BCast" where
  "SetDimInfo k x_i y_i bc =
     (if x_i = y_i then
        (SUCCESS, push_dims x_i x_i 1 y_i 1
           (if x_i = 1 then push_grad_y k (push_grad_x k bc) else bc))
      else if x_i = 1 then (SUCCESS, push_dims y_i x_i y_i y_i 1 (push_grad_x k bc))
      else if y_i = 1 then (SUCCESS, push_dims x_i x_i 1 y_i x_i (push_grad_y k bc))
      else (PARAM_INVALID, bc))"

text \<open>The loop at index \<open>i\<close>, with the dimensions from \<open>i\<close> on; \<open>n\<close> is the number of dimensions of \<open>x\<close>.\<close>

fun SetShapeDifferentInfo_from ::
  "int \<Rightarrow> int \<Rightarrow> int list \<Rightarrow> int list \<Rightarrow> BCast \<Rightarrow> (Status \<times> BCast) res"
where
  "SetShapeDifferentInfo_from n i [] y bc = Inr (SUCCESS, bc)"
| "SetShapeDifferentInfo_from n i (x_i # x) y bc =
     (if x_i < 0 then Inr (PARAM_INVALID, bc)
      else case y of
        [] \<Rightarrow> Inl Fault
      | y_i # y' \<Rightarrow>
          if y_i < 0 then Inr (PARAM_INVALID, bc)
          else let (ret, bc') = SetDimInfo (n - 1 - i) x_i y_i bc in
            if ret \<noteq> SUCCESS then Inr (ret, bc') else SetShapeDifferentInfo_from n (i + 1) x y' bc')"

definition SetShapeDifferentInfo :: "BCast \<Rightarrow> int list \<Rightarrow> int list \<Rightarrow> (Status \<times> BCast) res" where
  "SetShapeDifferentInfo bc x y = SetShapeDifferentInfo_from (int (length x)) 0 x y bc"

definition vector_resize :: "nat \<Rightarrow> 'a \<Rightarrow> 'a list \<Rightarrow> 'a list" where
  "vector_resize n v xs = take n xs @ replicate (n - length xs) v"

definition ExtendTensorDim :: "int list \<Rightarrow> int list \<Rightarrow> int list \<times> int list" where
  "ExtendTensorDim v_x v_y =
     (if length v_x > length v_y then (v_x, vector_resize (length v_x) 1 v_y)
      else (vector_resize (length v_y) 1 v_x, v_y))"

definition TransShapeToDimVec :: "'a tensor \<Rightarrow> int list" where
  "TransShapeToDimVec t = map (\<lambda>i. t_shape t ! i) [0..<length (t_shape t)]"

definition ReverseAllIntermediateShapes :: "BCast \<Rightarrow> BCast" where
  "ReverseAllIntermediateShapes bc = bc \<lparr>
     x_reshape := rev (x_reshape bc), x_bcast := rev (x_bcast bc),
     y_reshape := rev (y_reshape bc), y_bcast := rev (y_bcast bc),
     result_shape := rev (result_shape bc), output_shape := rev (output_shape bc),
     grad_x_reduce_idx := rev (grad_x_reduce_idx bc), grad_y_reduce_idx := rev (grad_y_reduce_idx bc) \<rparr>"

definition GenerateBcastInfo :: "BCast \<Rightarrow> int list \<Rightarrow> int list \<Rightarrow> (Status \<times> BCast) res" where
  "GenerateBcastInfo bc sx sy =
     (if length sx = 0 \<and> length sy = 0 then
        Inr (SUCCESS, ReverseAllIntermediateShapes (bc \<lparr>
          result_shape := result_shape bc @ [1], x_reshape := x_reshape bc @ [1],
          x_bcast := x_bcast bc @ [1], y_reshape := y_reshape bc @ [1], y_bcast := y_bcast bc @ [1] \<rparr>))
      else
        let (x, y) = ExtendTensorDim (rev sx) (rev sy) in
        and_then (SetShapeDifferentInfo bc x y) (\<lambda>(ret, bc').
        if ret \<noteq> SUCCESS then Inr (ret, bc') else Inr (SUCCESS, ReverseAllIntermediateShapes bc')))"

section \<open>The index vectors\<close>

text \<open>Both vectors grow together; the pair \<open>(x_indexes, y_indexes)\<close> is the state of the loops.\<close>

definition push_indexes :: "int \<Rightarrow> int \<Rightarrow> int list \<times> int list \<Rightarrow> int list \<times> int list" where
  "push_indexes v w s = (fst s @ [v], snd s @ [w])"

definition BCastIndexes_first :: "int \<Rightarrow> int \<Rightarrow> int \<Rightarrow> int list \<times> int list \<Rightarrow> (int list \<times> int list) res" where
  "BCastIndexes_first x_dim y_dim out_dim =
     for_lt out_dim (\<lambda>i s. Inr (push_indexes (if x_dim = 1 then 0 else i) (if y_dim = 1 then 0 else i) s))"

definition BCastIndexes_dim ::
  "int \<Rightarrow> int \<Rightarrow> int \<Rightarrow> int \<Rightarrow> int \<Rightarrow> int list \<times> int list \<Rightarrow> (int list \<times> int list) res"
where
  "BCastIndexes_dim x_dim y_dim out_dim x_bias y_bias s0 =
     (let stride = int (length (fst s0)) in
      for_upt (nat (out_dim - 1)) 1 (\<lambda>j.
        for_lt stride (\<lambda>k s.
          and_then (at_index (fst s) k) (\<lambda>x_k.
          and_then (at_index (snd s) k) (\<lambda>y_k.
          Inr (push_indexes (i64 (x_k + (if x_dim = 1 then 0 else i64 (j * x_bias))))
                 (i64 (y_k + (if y_dim = 1 then 0 else i64 (j * y_bias)))) s))))) s0)"

fun BCastIndexes_rest ::
  "int list \<Rightarrow> int list \<Rightarrow> int list \<Rightarrow> int \<Rightarrow> int \<Rightarrow> int list \<times> int list \<Rightarrow> (int list \<times> int list) res"
where
  "BCastIndexes_rest xs ys [] x_bias y_bias s = Inr s"
| "BCastIndexes_rest (x_dim # xs) (y_dim # ys) (out_dim # outs) x_bias y_bias s =
     and_then (BCastIndexes_dim x_dim y_dim out_dim x_bias y_bias s)
       (BCastIndexes_rest xs ys outs (i64 (x_bias * x_dim)) (i64 (y_bias * y_dim)))"
| "BCastIndexes_rest _ _ _ _ _ _ = Inl Fault"

text \<open>
  \<open>BCastIndexes\<close> reverses three of the vectors and reverses them back at the end: the object is unchanged. The
  index vectors are those of the caller.
\<close>

definition BCastIndexes :: "BCast \<Rightarrow> int list \<Rightarrow> int list \<Rightarrow> (int list \<times> int list) res" where
  "BCastIndexes bc x_indexes y_indexes =
     (let xs = rev (x_reshape bc); ys = rev (y_reshape bc); outs = rev (output_shape bc) in
      case outs of
        [] \<Rightarrow> BCastIndexes_first 1 1 1 (x_indexes, y_indexes)
      | out_dim # outs' \<Rightarrow>
          (case (xs, ys) of
             (x_dim # xs', y_dim # ys') \<Rightarrow>
               and_then (BCastIndexes_first x_dim y_dim out_dim (x_indexes, y_indexes))
                 (BCastIndexes_rest xs' ys' outs' x_dim y_dim)
           | _ \<Rightarrow> Inl Fault))"

section \<open>Element-wise computation\<close>

fun BCastCompute_from ::
  "('a \<Rightarrow> 'a \<Rightarrow> 'b res) \<Rightarrow> 'a list \<Rightarrow> 'a list \<Rightarrow> int list \<Rightarrow> int list \<Rightarrow> 'b list \<Rightarrow> 'b list res"
where
  "BCastCompute_from func x1 x2 [] ys v_output = Inr v_output"
| "BCastCompute_from func x1 x2 (x_index # xs) [] v_output = Inl Fault"
| "BCastCompute_from func x1 x2 (x_index # xs) (y_index # ys) v_output =
     and_then (at_index x1 x_index) (\<lambda>a.
     and_then (at_index x2 y_index) (\<lambda>b.
     and_then (func a b) (\<lambda>value.
     BCastCompute_from func x1 x2 xs ys (v_output @ [value]))))"

definition BCastCompute ::
  "BCast \<Rightarrow> 'a tensor option list \<Rightarrow> 'b list \<Rightarrow> ('a \<Rightarrow> 'a \<Rightarrow> 'b res) option \<Rightarrow> (Status \<times> BCast \<times> 'b list) res"
where
  "BCastCompute bc input v_output func =
     (case func of
        None \<Rightarrow> Inr (PARAM_INVALID, bc, v_output)
      | Some f \<Rightarrow>
          if length input < 2 then Inr (PARAM_INVALID, bc, v_output)
          else
            and_then (deref (input ! 0)) (\<lambda>x.
            and_then (deref (input ! 1)) (\<lambda>y.
            and_then (GenerateBcastInfo bc (TransShapeToDimVec x) (TransShapeToDimVec y)) (\<lambda>(ret, bc').
            if ret \<noteq> SUCCESS then Inr (ret, bc', v_output)
            else
              and_then (BCastIndexes bc' [] []) (\<lambda>(x_indexes, y_indexes).
              and_then (BCastCompute_from f (t_data x) (t_data y) x_indexes y_indexes v_output) (\<lambda>v_output'.
              Inr (SUCCESS, bc', v_output')))))))"

text \<open>The function of \<open>BCastComputeCheck\<close> returns a value and sets the status.\<close>

fun BCastComputeCheck_from ::
  "('a \<Rightarrow> 'a \<Rightarrow> DataType \<Rightarrow> ('b \<times> Status) res) \<Rightarrow> DataType \<Rightarrow> 'a list \<Rightarrow> 'a list \<Rightarrow> int list \<Rightarrow> int list
     \<Rightarrow> 'b list \<Rightarrow> (Status \<times> 'b list) res"
where
  "BCastComputeCheck_from func data_type x1 x2 [] ys v_output = Inr (SUCCESS, v_output)"
| "BCastComputeCheck_from func data_type x1 x2 (x_index # xs) [] v_output = Inl Fault"
| "BCastComputeCheck_from func data_type x1 x2 (x_index # xs) (y_index # ys) v_output =
     and_then (at_index x1 x_index) (\<lambda>a.
     and_then (at_index x2 y_index) (\<lambda>b.
     and_then (func a b data_type) (\<lambda>(value, ret).
     if ret \<noteq> SUCCESS then Inr (ret, v_output)
     else BCastComputeCheck_from func data_type x1 x2 xs ys (v_output @ [value]))))"

definition BCastComputeCheck ::
  "BCast \<Rightarrow> 'a tensor option list \<Rightarrow> 'b list \<Rightarrow> ('a \<Rightarrow> 'a \<Rightarrow> DataType \<Rightarrow> ('b \<times> Status) res) option
     \<Rightarrow> (Status \<times> BCast \<times> 'b list) res"
where
  "BCastComputeCheck bc input v_output func =
     (case func of
        None \<Rightarrow> Inr (PARAM_INVALID, bc, v_output)
      | Some f \<Rightarrow>
          if length input < 2 then Inr (PARAM_INVALID, bc, v_output)
          else
            and_then (deref (input ! 0)) (\<lambda>x.
            and_then (deref (input ! 1)) (\<lambda>y.
            and_then (GenerateBcastInfo bc (TransShapeToDimVec x) (TransShapeToDimVec y)) (\<lambda>(ret, bc').
            if ret \<noteq> SUCCESS then Inr (ret, bc', v_output)
            else
              and_then (BCastIndexes bc' [] []) (\<lambda>(x_indexes, y_indexes).
              and_then (BCastComputeCheck_from f (t_dtype x) (t_data x) (t_data y) x_indexes y_indexes v_output)
                (\<lambda>(ret', v_output').
              Inr (ret', bc', v_output')))))))"

end
