(* ===== verification/BCast_Correct.thy ===== *)
theory BCast_Correct
  imports BCast
begin

text \<open>
  Correctness of broadcasting against the usual rule: shapes are aligned at their last dimension and padded with
  ones, two dimensions agree or one of them is 1, and an output element reads each operand at its own multi-index,
  with 0 in the dimensions the operand is broadcast along.
\<close>

section \<open>The broadcasting rule\<close>

definition pad_shape :: "nat \<Rightarrow> int list \<Rightarrow> int list" where
  "pad_shape n s = replicate (n - length s) 1 @ s"

definition compatible_dim :: "int \<Rightarrow> int \<Rightarrow> bool" where
  "compatible_dim a b \<longleftrightarrow> 0 \<le> a \<and> 0 \<le> b \<and> (a = b \<or> a = 1 \<or> b = 1)"

definition broadcast_dim :: "int \<Rightarrow> int \<Rightarrow> int" where
  "broadcast_dim a b = (if a = 1 then b else a)"

abbreviation padded_x :: "int list \<Rightarrow> int list \<Rightarrow> int list" where
  "padded_x sx sy \<equiv> pad_shape (max (length sx) (length sy)) sx"

abbreviation padded_y :: "int list \<Rightarrow> int list \<Rightarrow> int list" where
  "padded_y sx sy \<equiv> pad_shape (max (length sx) (length sy)) sy"

definition compatible :: "int list \<Rightarrow> int list \<Rightarrow> bool" where
  "compatible sx sy \<longleftrightarrow> list_all2 compatible_dim (padded_x sx sy) (padded_y sx sy)"

definition broadcast_shape :: "int list \<Rightarrow> int list \<Rightarrow> int list" where
  "broadcast_shape sx sy = map2 broadcast_dim (padded_x sx sy) (padded_y sx sy)"

fun row_index :: "int list \<Rightarrow> int list \<Rightarrow> int" where
  "row_index (d # ds) (i # is) = i * prod_list ds + row_index ds is"
| "row_index _ _ = 0"

definition multi_indexes :: "int list \<Rightarrow> int list list" where
  "multi_indexes ds = product_lists (map (\<lambda>d. [0..d - 1]) ds)"

definition clip :: "int list \<Rightarrow> int list \<Rightarrow> int list" where
  "clip ds is = map2 (\<lambda>d i. if d = 1 then 0 else i) ds is"

definition element_at :: "int list \<Rightarrow> 'a list \<Rightarrow> int list \<Rightarrow> 'a" where
  "element_at ds xs is = xs ! nat (row_index ds (clip ds is))"

definition broadcast_pairs :: "'a tensor \<Rightarrow> 'a tensor \<Rightarrow> ('a \<times> 'a) list" where
  "broadcast_pairs x y =
     map (\<lambda>is. (element_at (padded_x (t_shape x) (t_shape y)) (t_data x) is,
                 element_at (padded_y (t_shape x) (t_shape y)) (t_data y) is))
       (multi_indexes (broadcast_shape (t_shape x) (t_shape y)))"

section \<open>Generation of the broadcast information\<close>

fun unit_dims :: "int \<Rightarrow> int list \<Rightarrow> int list" where
  "unit_dims k [] = []"
| "unit_dims k (d # ds) = (if d = 1 then [k] else []) @ unit_dims (k - 1) ds"

definition tile_dim :: "int \<Rightarrow> int \<Rightarrow> int" where
  "tile_dim a b = (if a = 1 then b else 1)"

definition add_info :: "int \<Rightarrow> int list \<Rightarrow> int list \<Rightarrow> BCast \<Rightarrow> BCast" where
  "add_info k x y bc = bc \<lparr>
     x_reshape := x_reshape bc @ x, x_bcast := x_bcast bc @ map2 tile_dim x y,
     y_reshape := y_reshape bc @ y, y_bcast := y_bcast bc @ map2 (\<lambda>a b. tile_dim b a) x y,
     result_shape := result_shape bc @ map2 broadcast_dim x y,
     output_shape := output_shape bc @ map2 broadcast_dim x y,
     grad_x_reduce_idx := grad_x_reduce_idx bc @ unit_dims k x,
     grad_y_reduce_idx := grad_y_reduce_idx bc @ unit_dims k y \<rparr>"

lemma SetDimInfo_compatible:
  assumes "compatible_dim a b"
  shows "SetDimInfo k a b bc = (SUCCESS, add_info k [a] [b] bc)"
  using assms
  by (auto simp: SetDimInfo_def compatible_dim_def add_info_def push_dims_def push_grad_x_def push_grad_y_def
      broadcast_dim_def tile_dim_def)

lemma SetDimInfo_incompatible:
  assumes "\<not> compatible_dim a b" and "0 \<le> a" and "0 \<le> b"
  shows "SetDimInfo k a b bc = (PARAM_INVALID, bc)"
  using assms by (auto simp: SetDimInfo_def compatible_dim_def)

lemma add_info_Cons:
  "add_info (k - 1) x y (add_info k [a] [b] bc) = add_info k (a # x) (b # y) bc"
  by (simp add: add_info_def)

lemma SetShapeDifferentInfo_from_compatible:
  assumes "list_all2 compatible_dim x y"
  shows "SetShapeDifferentInfo_from n i x y bc = Inr (SUCCESS, add_info (n - 1 - i) x y bc)"
  using assms
proof (induction x y arbitrary: i bc rule: list_all2_induct)
  case Nil
  then show ?case by (simp add: add_info_def)
next
  case (Cons a x b y)
  have step: "n - 1 - (i + 1) = n - 1 - i - 1"
    by simp
  have "0 \<le> a" "0 \<le> b"
    using Cons.hyps by (simp_all add: compatible_dim_def)
  then show ?case
    using Cons.IH [of "i + 1" "add_info (n - 1 - i) [a] [b] bc"] unfolding step add_info_Cons
    by (simp add: SetDimInfo_compatible [OF Cons.hyps(1)])
qed

lemma SetShapeDifferentInfo_from_incompatible:
  assumes "\<not> list_all2 compatible_dim x y" and "length x = length y"
  shows "\<exists>bc'. SetShapeDifferentInfo_from n i x y bc = Inr (PARAM_INVALID, bc')"
  using assms(2,1)
proof (induction x y arbitrary: i bc rule: list_induct2)
  case Nil
  then show ?case by simp
next
  case (Cons a x b y)
  then show ?case
    by (cases "compatible_dim a b") (auto simp: SetDimInfo_compatible SetDimInfo_incompatible)
qed

lemma rev_unit_dims:
  "rev (unit_dims (int (length s) - 1) (rev s)) = map int (filter (\<lambda>k. s ! k = 1) [0..<length s])"
proof (induction s rule: rev_induct)
  case Nil
  then show ?case by simp
next
  case (snoc d s)
  have "filter (\<lambda>k. (s @ [d]) ! k = 1) [0..<length s] = filter (\<lambda>k. s ! k = 1) [0..<length s]"
    by (rule filter_cong) (simp_all add: nth_append)
  with snoc show ?case by simp
qed

lemma length_pad_shape [simp]: "length s \<le> n \<Longrightarrow> length (pad_shape n s) = n"
  by (simp add: pad_shape_def)

lemma rev_vector_resize: "length s \<le> n \<Longrightarrow> vector_resize n 1 (rev s) = rev (pad_shape n s)"
  by (simp add: vector_resize_def pad_shape_def)

lemma pad_shape_same [simp]: "pad_shape (length s) s = s"
  by (simp add: pad_shape_def)

lemma ExtendTensorDim_rev:
  "ExtendTensorDim (rev sx) (rev sy) = (rev (padded_x sx sy), rev (padded_y sx sy))"
  by (cases "length sx > length sy") (simp_all add: ExtendTensorDim_def rev_vector_resize max_def)

text \<open>What \<open>GenerateBcastInfo\<close> leaves in a fresh object.\<close>

definition unit_positions :: "int list \<Rightarrow> int list" where
  "unit_positions s = map int (filter (\<lambda>k. s ! k = 1) [0..<length s])"

definition bcast_info :: "int list \<Rightarrow> int list \<Rightarrow> BCast" where
  "bcast_info sx sy =
     (let px = padded_x sx sy; py = padded_y sx sy; out = broadcast_shape sx sy in
      if sx = [] \<and> sy = []
      then new_BCast \<lparr> x_reshape := [1], x_bcast := [1], y_reshape := [1], y_bcast := [1], result_shape := [1] \<rparr>
      else \<lparr> x_reshape = px, x_bcast = map2 tile_dim px py, y_reshape = py, y_bcast = map2 tile_dim py px,
             result_shape = out, output_shape = out,
             grad_x_reduce_idx = unit_positions px, grad_y_reduce_idx = unit_positions py \<rparr>)"

lemma rev_map2: "length xs = length ys \<Longrightarrow> map2 f (rev xs) (rev ys) = rev (map2 f xs ys)"
  by (simp add: zip_rev rev_map)

lemma map2_swap: "map2 (\<lambda>a b. f b a) xs ys = map2 f ys xs"
  by (induction xs ys rule: list_induct2') simp_all

lemma GenerateBcastInfo_compatible:
  assumes "compatible sx sy"
  shows "GenerateBcastInfo new_BCast sx sy = Inr (SUCCESS, bcast_info sx sy)"
proof (cases "sx = [] \<and> sy = []")
  case True
  then show ?thesis
    by (simp add: GenerateBcastInfo_def bcast_info_def ReverseAllIntermediateShapes_def new_BCast_def)
next
  case False
  let ?px = "padded_x sx sy" and ?py = "padded_y sx sy"
  have len: "length ?px = length ?py"
    by simp
  have not_scalars: "\<not> (length sx = 0 \<and> length sy = 0)"
    using False by simp
  have unit: "rev (unit_dims (int (max (length sx) (length sy)) - 1) (rev ?px)) = unit_positions ?px"
    "rev (unit_dims (int (max (length sx) (length sy)) - 1) (rev ?py)) = unit_positions ?py"
    using rev_unit_dims [of ?px] rev_unit_dims [of ?py] by (simp_all add: unit_positions_def)
  have "list_all2 compatible_dim (rev ?px) (rev ?py)"
    using assms by (simp add: compatible_def)
  from SetShapeDifferentInfo_from_compatible [OF this, of "int (length (rev ?px))" 0 new_BCast]
  have "SetShapeDifferentInfo new_BCast (rev ?px) (rev ?py)
      = Inr (SUCCESS, add_info (int (max (length sx) (length sy)) - 1) (rev ?px) (rev ?py) new_BCast)"
    by (simp add: SetShapeDifferentInfo_def)
  then have "GenerateBcastInfo new_BCast sx sy = Inr (SUCCESS, ReverseAllIntermediateShapes
      (add_info (int (max (length sx) (length sy)) - 1) (rev ?px) (rev ?py) new_BCast))"
    unfolding GenerateBcastInfo_def if_not_P [OF not_scalars] ExtendTensorDim_rev by simp
  also have "ReverseAllIntermediateShapes
      (add_info (int (max (length sx) (length sy)) - 1) (rev ?px) (rev ?py) new_BCast) = bcast_info sx sy"
    unfolding bcast_info_def Let_def if_not_P [OF False]
    by (simp add: ReverseAllIntermediateShapes_def add_info_def new_BCast_def broadcast_shape_def
        rev_map2 [OF len] rev_map2 [OF len [symmetric]] unit map2_swap [of tile_dim])
  finally show ?thesis .
qed

lemma GenerateBcastInfo_incompatible:
  assumes "\<not> compatible sx sy"
  shows "\<exists>bc'. GenerateBcastInfo bc sx sy = Inr (PARAM_INVALID, bc')"
proof -
  have not_scalars: "\<not> (length sx = 0 \<and> length sy = 0)"
    using assms by (auto simp: compatible_def pad_shape_def)
  have "\<not> list_all2 compatible_dim (rev (padded_x sx sy)) (rev (padded_y sx sy))"
    and "length (rev (padded_x sx sy)) = length (rev (padded_y sx sy))"
    using assms by (simp_all add: compatible_def)
  from SetShapeDifferentInfo_from_incompatible [OF this] obtain bc'
    where "SetShapeDifferentInfo bc (rev (padded_x sx sy)) (rev (padded_y sx sy)) = Inr (PARAM_INVALID, bc')"
    unfolding SetShapeDifferentInfo_def by metis
  then show ?thesis
    unfolding GenerateBcastInfo_def if_not_P [OF not_scalars] ExtendTensorDim_rev by simp
qed

section \<open>The index vectors\<close>

lemma at_index_append [simp]: "k < length xs \<Longrightarrow> at_index (xs @ ys) (int k) = Inr (xs ! k)"
  by (simp add: at_index_def nth_append)

lemma BCastIndexes_first_eq:
  "BCastIndexes_first x_dim y_dim out_dim ([], []) =
     Inr (map (\<lambda>i. if x_dim = 1 then 0 else i) [0..out_dim - 1], map (\<lambda>i. if y_dim = 1 then 0 else i) [0..out_dim - 1])"
proof -
  have upto: "[i..i + int (Suc m) - 1] = i # [i + 1..(i + 1) + int m - 1]" for i m
    by (subst upto_rec1) simp_all
  have "for_upt m i (\<lambda>i s. Inr (push_indexes (f i) (g i) s)) (p, q)
      = Inr (p @ map f [i..i + int m - 1], q @ map g [i..i + int m - 1])" for f g i m p q
    by (induction m arbitrary: i p q) (simp_all add: push_indexes_def upto del: of_nat_Suc)
  then show ?thesis
    by (cases "0 \<le> out_dim") (simp_all add: BCastIndexes_first_def for_lt_def)
qed

lemma index_loop:
  fixes f g :: "int \<Rightarrow> int"
  assumes "length xs = length ys" and "k + m = length xs"
  shows "for_upt m (int k) (\<lambda>k s.
      and_then (at_index (fst s) k) (\<lambda>x_k. and_then (at_index (snd s) k) (\<lambda>y_k.
      Inr (push_indexes (f x_k) (g y_k) s)))) (xs @ p, ys @ q)
    = Inr (xs @ p @ map f (drop k xs), ys @ q @ map g (drop k ys))"
  using assms(2)
proof (induction m arbitrary: k p q)
  case 0
  with assms(1) show ?case by simp
next
  case (Suc m)
  have k: "k < length xs" "k < length ys" "int k + 1 = int (Suc k)" "Suc k + m = length xs"
    using Suc.prems assms(1) by simp_all
  show ?case
    using k(1,2) Suc.IH [OF k(4), of "p @ [f (xs ! k)]" "q @ [g (ys ! k)]"]
    by (simp add: push_indexes_def k(3) Cons_nth_drop_Suc [symmetric] del: of_nat_Suc)
qed

lemma BCastIndexes_dim_eq:
  assumes "length xs = length ys"
  shows "BCastIndexes_dim x_dim y_dim out_dim x_bias y_bias (xs, ys) = Inr
    (xs @ concat (map (\<lambda>j. map (\<lambda>v. i64 (v + (if x_dim = 1 then 0 else i64 (j * x_bias)))) xs) [1..out_dim - 1]),
     ys @ concat (map (\<lambda>j. map (\<lambda>v. i64 (v + (if y_dim = 1 then 0 else i64 (j * y_bias)))) ys) [1..out_dim - 1]))"
proof -
  let ?f = "\<lambda>j v. i64 (v + (if x_dim = 1 then 0 else i64 (j * x_bias)))"
  let ?g = "\<lambda>j v. i64 (v + (if y_dim = 1 then 0 else i64 (j * y_bias)))"
  let ?inner = "\<lambda>j. for_lt (int (length xs)) (\<lambda>k s.
      and_then (at_index (fst s) k) (\<lambda>x_k. and_then (at_index (snd s) k) (\<lambda>y_k.
      Inr (push_indexes (?f j x_k) (?g j y_k) s))))"
  have inner: "?inner j (xs @ p, ys @ q) = Inr (xs @ p @ map (?f j) xs, ys @ q @ map (?g j) ys)" for j p q
    using index_loop [OF assms, of 0 "length xs" "?f j" "?g j" p q] by (simp add: for_lt_def)
  have upto: "[i..i + int (Suc m) - 1] = i # [i + 1..(i + 1) + int m - 1]" for i m
    by (subst upto_rec1) simp_all
  have outer: "for_upt m j ?inner (xs @ p, ys @ q)
      = Inr (xs @ p @ concat (map (\<lambda>j. map (?f j) xs) [j..j + int m - 1]),
             ys @ q @ concat (map (\<lambda>j. map (?g j) ys) [j..j + int m - 1]))" for m j p q
  proof (induction m arbitrary: j p q)
    case 0
    then show ?case by simp
  next
    case (Suc m)
    show ?case
      using Suc.IH [of "j + 1" "p @ map (?f j) xs" "q @ map (?g j) ys"]
      unfolding upto for_upt.simps inner by simp
  qed
  have "[1..1 + int (nat (out_dim - 1)) - 1] = [1..out_dim - 1]"
    by (cases "1 \<le> out_dim") simp_all
  with outer [of "nat (out_dim - 1)" 1 "[]" "[]"] show ?thesis
    by (simp add: BCastIndexes_dim_def)
qed

text \<open>The positions an operand of shape \<open>ds\<close> is read at, for the output shape \<open>os\<close>.\<close>

definition operand_indexes :: "int list \<Rightarrow> int list \<Rightarrow> int list" where
  "operand_indexes ds os = map (\<lambda>is. row_index ds (clip ds is)) (multi_indexes os)"

definition broadcasts_to :: "int list \<Rightarrow> int list \<Rightarrow> bool" where
  "broadcasts_to ds os \<longleftrightarrow> list_all2 (\<lambda>d n. 0 < n \<and> (d = n \<or> d = 1)) ds os"

lemma broadcasts_to_Cons [simp]:
  "broadcasts_to (d # ds) (n # os) \<longleftrightarrow> 0 < n \<and> (d = n \<or> d = 1) \<and> broadcasts_to ds os"
  by (auto simp: broadcasts_to_def)

lemma multi_indexes_Cons: "multi_indexes (n # os) = concat (map (\<lambda>j. map (Cons j) (multi_indexes os)) [0..n - 1])"
  by (simp add: multi_indexes_def)

lemma broadcasts_to_prod:
  assumes "broadcasts_to ds os"
  shows "0 < prod_list ds" and "prod_list ds \<le> prod_list os"
proof -
  have "0 < prod_list ds \<and> prod_list ds \<le> prod_list os"
    using assms unfolding broadcasts_to_def
  proof (induction ds os rule: list_all2_induct)
    case Nil
    then show ?case by simp
  next
    case (Cons d ds n os)
    then have "prod_list os \<le> n * prod_list os"
      using mult_right_mono [of 1 n "prod_list os"] by auto
    with Cons have "prod_list ds \<le> n * prod_list os"
      by linarith
    with Cons show ?case
      by (auto simp: mult_left_mono)
  qed
  then show "0 < prod_list ds" and "prod_list ds \<le> prod_list os"
    by simp_all
qed

lemma row_index_bounds:
  assumes "broadcasts_to ds os" and "is \<in> set (multi_indexes os)"
  shows "0 \<le> row_index ds (clip ds is)" and "row_index ds (clip ds is) < prod_list ds"
proof -
  have "0 \<le> row_index ds (clip ds is) \<and> row_index ds (clip ds is) < prod_list ds"
    using assms unfolding broadcasts_to_def
  proof (induction ds os arbitrary: "is" rule: list_all2_induct)
    case Nil
    then show ?case by (simp add: multi_indexes_def)
  next
    case (Cons d ds n os)
    from Cons.prems obtain j js where is_eq: "is = j # js" and j: "0 \<le> j" "j < n" and js: "js \<in> set (multi_indexes os)"
      by (auto simp: multi_indexes_Cons)
    let ?i = "if d = 1 then 0 else j" and ?r = "row_index ds (clip ds js)"
    have r: "0 \<le> ?r" "?r < prod_list ds"
      using Cons.IH [OF js] by simp_all
    have i: "0 \<le> ?i" "?i + 1 \<le> d"
      using j Cons.hyps(1) by auto
    have "(?i + 1) * prod_list ds \<le> d * prod_list ds"
      using i r by (intro mult_right_mono) auto
    moreover have "0 \<le> ?i * prod_list ds"
      using i(1) r by (intro mult_nonneg_nonneg) auto
    ultimately show ?case
      using r by (simp add: is_eq clip_def algebra_simps split: if_splits)
  qed
  then show "0 \<le> row_index ds (clip ds is)" and "row_index ds (clip ds is) < prod_list ds"
    by simp_all
qed

lemma operand_indexes_single:
  "operand_indexes [d] [n] = map (\<lambda>i. if d = 1 then 0 else i) [0..n - 1]"
  by (simp add: operand_indexes_def multi_indexes_def clip_def map_concat comp_def concat_map_singleton)

lemma operand_indexes_Cons:
  assumes "broadcasts_to (d # ds) (n # os)" and "prod_list (n # os) < 2 ^ 63"
  shows "operand_indexes (d # ds) (n # os) = operand_indexes ds os @
    concat (map (\<lambda>j. map (\<lambda>v. i64 (v + (if d = 1 then 0 else i64 (j * prod_list ds)))) (operand_indexes ds os))
      [1..n - 1])"
proof -
  let ?shift = "\<lambda>j. if d = 1 then 0 else j * prod_list ds"
  have pos: "0 < prod_list ds" and small: "prod_list (d # ds) < 2 ^ 63"
    using broadcasts_to_prod [of "d # ds" "n # os"] broadcasts_to_prod [of ds os] assms by auto
  have wrap: "i64 (row_index ds (clip ds is) + (if d = 1 then 0 else i64 (j * prod_list ds)))
      = ?shift j + row_index ds (clip ds is)"
    if "is \<in> set (multi_indexes os)" and j: "1 \<le> j" "j \<le> n - 1" for j "is"
  proof -
    have r: "0 \<le> row_index ds (clip ds is)" "row_index ds (clip ds is) < prod_list ds"
      using row_index_bounds [OF _ that(1), of ds] assms(1) by auto
    show ?thesis
    proof (cases "d = 1")
      case True
      with r small show ?thesis by simp
    next
      case False
      then have "(j + 1) * prod_list ds \<le> d * prod_list ds"
        using assms(1) j pos by (intro mult_right_mono) auto
      moreover have "0 \<le> j * prod_list ds"
        using j pos by simp
      ultimately show ?thesis
        using False small r by (simp add: algebra_simps)
    qed
  qed
  have "operand_indexes (d # ds) (n # os)
      = concat (map (\<lambda>j. map (\<lambda>is. ?shift j + row_index ds (clip ds is)) (multi_indexes os)) [0..n - 1])"
    by (cases "d = 1") (simp_all add: operand_indexes_def multi_indexes_Cons map_concat comp_def clip_def)
  also have "[0..n - 1] = 0 # [1..n - 1]"
    using assms(1) by (subst upto_rec1) auto
  also have "concat (map (\<lambda>j. map (\<lambda>is. ?shift j + row_index ds (clip ds is)) (multi_indexes os)) (0 # [1..n - 1]))
      = operand_indexes ds os
        @ concat (map (\<lambda>j. map (\<lambda>is. ?shift j + row_index ds (clip ds is)) (multi_indexes os)) [1..n - 1])"
    by (simp add: operand_indexes_def)
  also have "map (\<lambda>j. map (\<lambda>is. ?shift j + row_index ds (clip ds is)) (multi_indexes os)) [1..n - 1]
      = map (\<lambda>j. map (\<lambda>v. i64 (v + (if d = 1 then 0 else i64 (j * prod_list ds)))) (operand_indexes ds os)) [1..n - 1]"
    by (rule map_cong) (simp_all add: operand_indexes_def wrap)
  finally show ?thesis .
qed

lemma BCastIndexes_rest_eq:
  assumes "broadcasts_to (rev xs @ dx) (rev outs @ os)" and "broadcasts_to (rev ys @ dy) (rev outs @ os)"
    and "length xs = length outs" and "length ys = length outs" and "prod_list (rev outs @ os) < 2 ^ 63"
  shows "BCastIndexes_rest xs ys outs (prod_list dx) (prod_list dy) (operand_indexes dx os, operand_indexes dy os)
    = Inr (operand_indexes (rev xs @ dx) (rev outs @ os), operand_indexes (rev ys @ dy) (rev outs @ os))"
  using assms
proof (induction outs arbitrary: xs ys dx dy os)
  case Nil
  then show ?case by simp
next
  case (Cons n outs)
  then obtain x xs' y ys' where split: "xs = x # xs'" "ys = y # ys'"
    by (metis length_Suc_conv)
  have whole: "broadcasts_to (rev xs' @ x # dx) (rev outs @ n # os)" "broadcasts_to (rev ys' @ y # dy) (rev outs @ n # os)"
    "prod_list (rev outs @ n # os) < 2 ^ 63" "length xs' = length outs" "length ys' = length outs"
    using Cons.prems split by simp_all
  then have suffix: "broadcasts_to (x # dx) (n # os)" "broadcasts_to (y # dy) (n # os)"
      "broadcasts_to (rev xs') (rev outs)"
    by (simp_all add: broadcasts_to_def list_all2_append)
  have "1 * prod_list (n # os) \<le> prod_list (rev outs) * prod_list (n # os)"
    using broadcasts_to_prod [OF suffix(1)] broadcasts_to_prod [OF suffix(3)] by (intro mult_right_mono) auto
  with whole(3) have bound: "prod_list (n # os) < 2 ^ 63"
    by simp
  have bias: "i64 (prod_list dx * x) = prod_list (x # dx)" "i64 (prod_list dy * y) = prod_list (y # dy)"
    using bound broadcasts_to_prod [OF suffix(1)] broadcasts_to_prod [OF suffix(2)] by (simp_all add: mult.commute)
  have len: "length (operand_indexes dx os) = length (operand_indexes dy os)"
    by (simp add: operand_indexes_def)
  show ?case
    using Cons.IH [OF whole(1,2,4,5,3)]
    unfolding split BCastIndexes_rest.simps BCastIndexes_dim_eq [OF len] operand_indexes_Cons [OF suffix(1) bound, symmetric]
      operand_indexes_Cons [OF suffix(2) bound, symmetric] bias by simp
qed

lemma compatible_broadcasts_to:
  assumes "compatible sx sy" and "\<forall>d \<in> set (sx @ sy). 0 < d"
  shows "broadcasts_to (padded_x sx sy) (broadcast_shape sx sy)" and "broadcasts_to (padded_y sx sy) (broadcast_shape sx sy)"
proof -
  have "list_all2 compatible_dim px py \<Longrightarrow> \<forall>d \<in> set (px @ py). 0 < d \<Longrightarrow>
      broadcasts_to px (map2 broadcast_dim px py) \<and> broadcasts_to py (map2 broadcast_dim px py)" for px py
    by (induction px py rule: list_all2_induct)
      (auto simp: compatible_dim_def broadcast_dim_def broadcasts_to_def)
  moreover have "\<forall>d \<in> set (padded_x sx sy @ padded_y sx sy). 0 < d"
    using assms(2) by (auto simp: pad_shape_def)
  ultimately show "broadcasts_to (padded_x sx sy) (broadcast_shape sx sy)"
      and "broadcasts_to (padded_y sx sy) (broadcast_shape sx sy)"
    using assms(1) unfolding compatible_def broadcast_shape_def by blast+
qed

lemma BCastIndexes_eq:
  assumes "compatible sx sy" and "\<forall>d \<in> set (sx @ sy). 0 < d" and "prod_list (broadcast_shape sx sy) < 2 ^ 63"
  shows "BCastIndexes (bcast_info sx sy) [] [] =
    Inr (operand_indexes (padded_x sx sy) (broadcast_shape sx sy), operand_indexes (padded_y sx sy) (broadcast_shape sx sy))"
proof (cases "sx = [] \<and> sy = []")
  case True
  then show ?thesis
    by (simp add: bcast_info_def new_BCast_def BCastIndexes_def BCastIndexes_first_eq broadcast_shape_def
        operand_indexes_def multi_indexes_def pad_shape_def)
next
  case False
  let ?px = "padded_x sx sy" and ?py = "padded_y sx sy" and ?out = "broadcast_shape sx sy"
  have to: "broadcasts_to ?px ?out" "broadcasts_to ?py ?out"
    using compatible_broadcasts_to [OF assms(1,2)] by simp_all
  have len: "length ?px = length ?out" "length ?py = length ?out"
    by (simp_all add: broadcast_shape_def)
  have "?out \<noteq> []"
    using False by (auto simp: broadcast_shape_def pad_shape_def)
  then obtain n outs where out: "rev ?out = n # outs"
    by (cases "rev ?out") auto
  moreover from this obtain x xs y ys where xy: "rev ?px = x # xs" "rev ?py = y # ys"
    using len by (metis length_rev length_Suc_conv list.size(4))
  ultimately have shapes: "?px = rev xs @ [x]" "?py = rev ys @ [y]" "?out = rev outs @ [n]"
    by (metis rev.simps(2) rev_rev_ident)+
  then have "BCastIndexes_rest xs ys outs (prod_list [x]) (prod_list [y]) (operand_indexes [x] [n], operand_indexes [y] [n])
      = Inr (operand_indexes ?px ?out, operand_indexes ?py ?out)"
    using BCastIndexes_rest_eq [of xs "[x]" outs "[n]" ys "[y]"] to len assms(3) by simp
  moreover have "x_reshape (bcast_info sx sy) = ?px" "y_reshape (bcast_info sx sy) = ?py"
    "output_shape (bcast_info sx sy) = ?out"
    using False by (auto simp: bcast_info_def Let_def)
  ultimately show ?thesis
    using out xy by (simp add: BCastIndexes_def BCastIndexes_first_eq operand_indexes_single)
qed

section \<open>The element-wise drivers\<close>

definition tensor_ok :: "'a tensor \<Rightarrow> bool" where
  "tensor_ok t \<longleftrightarrow> (\<forall>d \<in> set (t_shape t). 0 < d) \<and> int (length (t_data t)) = prod_list (t_shape t)"

definition broadcastable :: "'a tensor \<Rightarrow> 'a tensor \<Rightarrow> bool" where
  "broadcastable x y \<longleftrightarrow> tensor_ok x \<and> tensor_ok y \<and> compatible (t_shape x) (t_shape y)
     \<and> prod_list (broadcast_shape (t_shape x) (t_shape y)) < 2 ^ 63"

lemma TransShapeToDimVec_eq [simp]: "TransShapeToDimVec t = t_shape t"
  by (simp add: TransShapeToDimVec_def map_nth)

lemma prod_list_pad_shape [simp]: "prod_list (pad_shape n s) = prod_list s"
  by (simp add: pad_shape_def)

text \<open>The drivers run the function on the operand pairs, in order, and every read is inside its tensor.\<close>

fun run_pairs :: "('a \<Rightarrow> 'a \<Rightarrow> 'b res) \<Rightarrow> ('a \<times> 'a) list \<Rightarrow> 'b list res" where
  "run_pairs f [] = Inr []"
| "run_pairs f ((a, b) # ps) = and_then (f a b) (\<lambda>v. and_then (run_pairs f ps) (\<lambda>vs. Inr (v # vs)))"

fun run_checked :: "('a \<Rightarrow> 'a \<Rightarrow> ('b \<times> Status) res) \<Rightarrow> ('a \<times> 'a) list \<Rightarrow> 'b list \<Rightarrow> (Status \<times> 'b list) res" where
  "run_checked f [] vs = Inr (SUCCESS, vs)"
| "run_checked f ((a, b) # ps) vs =
     and_then (f a b) (\<lambda>(v, ret). if ret \<noteq> SUCCESS then Inr (ret, vs) else run_checked f ps (vs @ [v]))"

definition read_pairs :: "'a list \<Rightarrow> 'a list \<Rightarrow> int list \<Rightarrow> int list \<Rightarrow> ('a \<times> 'a) list" where
  "read_pairs x1 x2 xs ys = map2 (\<lambda>i j. (x1 ! nat i, x2 ! nat j)) xs ys"

lemma BCastCompute_from_pairs:
  assumes "length xs = length ys" "\<forall>i \<in> set xs. 0 \<le> i \<and> i < int (length x1)" "\<forall>j \<in> set ys. 0 \<le> j \<and> j < int (length x2)"
  shows "BCastCompute_from f x1 x2 xs ys out = and_then (run_pairs f (read_pairs x1 x2 xs ys)) (\<lambda>vs. Inr (out @ vs))"
  using assms
  by (induction xs ys arbitrary: out rule: list_induct2)
    (auto simp: read_pairs_def at_index_def and_then_def split: sum.splits)

lemma BCastComputeCheck_from_pairs:
  assumes "length xs = length ys" "\<forall>i \<in> set xs. 0 \<le> i \<and> i < int (length x1)" "\<forall>j \<in> set ys. 0 \<le> j \<and> j < int (length x2)"
  shows "BCastComputeCheck_from f ty x1 x2 xs ys out = run_checked (\<lambda>a b. f a b ty) (read_pairs x1 x2 xs ys) out"
  using assms
  by (induction xs ys arbitrary: out rule: list_induct2)
    (auto simp: read_pairs_def at_index_def and_then_def split: sum.splits)

lemma operand_indexes_in_range:
  assumes "broadcasts_to (pad_shape n (t_shape t)) os" and "tensor_ok t"
  shows "\<forall>i \<in> set (operand_indexes (pad_shape n (t_shape t)) os). 0 \<le> i \<and> i < int (length (t_data t))"
  using row_index_bounds [OF assms(1)] assms(2) by (auto simp: operand_indexes_def tensor_ok_def)

lemma read_pairs_broadcast:
  "read_pairs (t_data x) (t_data y)
     (operand_indexes (padded_x (t_shape x) (t_shape y)) (broadcast_shape (t_shape x) (t_shape y)))
     (operand_indexes (padded_y (t_shape x) (t_shape y)) (broadcast_shape (t_shape x) (t_shape y)))
   = broadcast_pairs x y"
  by (simp add: read_pairs_def operand_indexes_def broadcast_pairs_def element_at_def zip_map_map zip_same_conv_map)

lemma broadcastable_indexes:
  assumes "broadcastable x y"
  obtains xs ys where "GenerateBcastInfo new_BCast (t_shape x) (t_shape y) = Inr (SUCCESS, bcast_info (t_shape x) (t_shape y))"
    and "BCastIndexes (bcast_info (t_shape x) (t_shape y)) [] [] = Inr (xs, ys)"
    and "length xs = length ys" and "\<forall>i \<in> set xs. 0 \<le> i \<and> i < int (length (t_data x))"
    and "\<forall>j \<in> set ys. 0 \<le> j \<and> j < int (length (t_data y))"
    and "read_pairs (t_data x) (t_data y) xs ys = broadcast_pairs x y"
proof -
  let ?xs = "operand_indexes (padded_x (t_shape x) (t_shape y)) (broadcast_shape (t_shape x) (t_shape y))"
  let ?ys = "operand_indexes (padded_y (t_shape x) (t_shape y)) (broadcast_shape (t_shape x) (t_shape y))"
  have c: "compatible (t_shape x) (t_shape y)" and pos: "\<forall>d \<in> set (t_shape x @ t_shape y). 0 < d"
    and ok: "tensor_ok x" "tensor_ok y" and small: "prod_list (broadcast_shape (t_shape x) (t_shape y)) < 2 ^ 63"
    using assms by (auto simp: broadcastable_def tensor_ok_def)
  note to = compatible_broadcasts_to [OF c pos]
  show ?thesis
  proof (rule that)
    show "GenerateBcastInfo new_BCast (t_shape x) (t_shape y) = Inr (SUCCESS, bcast_info (t_shape x) (t_shape y))"
      by (rule GenerateBcastInfo_compatible [OF c])
    show "BCastIndexes (bcast_info (t_shape x) (t_shape y)) [] [] = Inr (?xs, ?ys)"
      by (rule BCastIndexes_eq [OF c pos small])
    show "length ?xs = length ?ys"
      by (simp add: operand_indexes_def)
    show "\<forall>i \<in> set ?xs. 0 \<le> i \<and> i < int (length (t_data x))"
      by (rule operand_indexes_in_range [OF to(1) ok(1)])
    show "\<forall>j \<in> set ?ys. 0 \<le> j \<and> j < int (length (t_data y))"
      by (rule operand_indexes_in_range [OF to(2) ok(2)])
    show "read_pairs (t_data x) (t_data y) ?xs ?ys = broadcast_pairs x y"
      by (rule read_pairs_broadcast)
  qed
qed

lemma BCastCompute_broadcastable:
  assumes "broadcastable x y"
  shows "BCastCompute new_BCast (Some x # Some y # rest) out (Some f) =
    and_then (run_pairs f (broadcast_pairs x y)) (\<lambda>vs. Inr (SUCCESS, bcast_info (t_shape x) (t_shape y), out @ vs))"
proof -
  obtain xs ys where facts: "GenerateBcastInfo new_BCast (t_shape x) (t_shape y) = Inr (SUCCESS, bcast_info (t_shape x) (t_shape y))"
    "BCastIndexes (bcast_info (t_shape x) (t_shape y)) [] [] = Inr (xs, ys)"
    "length xs = length ys" "\<forall>i \<in> set xs. 0 \<le> i \<and> i < int (length (t_data x))"
    "\<forall>j \<in> set ys. 0 \<le> j \<and> j < int (length (t_data y))"
    "read_pairs (t_data x) (t_data y) xs ys = broadcast_pairs x y"
    by (rule broadcastable_indexes [OF assms])
  show ?thesis
    by (cases "run_pairs f (broadcast_pairs x y)")
      (simp_all add: BCastCompute_def deref_def facts(1,2) BCastCompute_from_pairs [OF facts(3-5)] facts(6))
qed

lemma BCastComputeCheck_broadcastable:
  assumes "broadcastable x y"
  shows "BCastComputeCheck new_BCast (Some x # Some y # rest) out (Some f) =
    and_then (run_checked (\<lambda>a b. f a b (t_dtype x)) (broadcast_pairs x y) out)
      (\<lambda>(ret, vs). Inr (ret, bcast_info (t_shape x) (t_shape y), vs))"
proof -
  obtain xs ys where facts: "GenerateBcastInfo new_BCast (t_shape x) (t_shape y) = Inr (SUCCESS, bcast_info (t_shape x) (t_shape y))"
    "BCastIndexes (bcast_info (t_shape x) (t_shape y)) [] [] = Inr (xs, ys)"
    "length xs = length ys" "\<forall>i \<in> set xs. 0 \<le> i \<and> i < int (length (t_data x))"
    "\<forall>j \<in> set ys. 0 \<le> j \<and> j < int (length (t_data y))"
    "read_pairs (t_data x) (t_data y) xs ys = broadcast_pairs x y"
    by (rule broadcastable_indexes [OF assms])
  show ?thesis
    by (simp add: BCastComputeCheck_def deref_def facts(1,2) BCastComputeCheck_from_pairs [OF facts(3-5)] facts(6))
qed

lemma run_pairs_total: "\<forall>(a, b) \<in> set ps. f a b = Inr (g a b) \<Longrightarrow> run_pairs f ps = Inr (map (case_prod g) ps)"
  by (induction ps) auto

lemma run_checked_success:
  "\<forall>(a, b) \<in> set ps. f a b = Inr (g a b, SUCCESS) \<Longrightarrow> run_checked f ps vs = Inr (SUCCESS, vs @ map (case_prod g) ps)"
  by (induction ps arbitrary: vs) auto

lemma run_checked_verdict:
  assumes "\<forall>(a, b) \<in> set ps. f a b = Inr (if ok a b then (g a b, SUCCESS) else (0, e))" and "e \<noteq> SUCCESS"
    and "\<not> (\<forall>(a, b) \<in> set ps. ok a b)"
  shows "\<exists>vs'. run_checked f ps vs = Inr (e, vs')"
  using assms(1,3)
proof (induction ps arbitrary: vs)
  case Nil
  then show ?case by simp
next
  case (Cons p ps)
  obtain a b where p: "p = (a, b)" by (cases p)
  show ?case
  proof (cases "ok a b")
    case True
    then have "\<exists>vs'. run_checked f ps (vs @ [g a b]) = Inr (e, vs')"
      using Cons.prems by (intro Cons.IH) (simp_all add: p)
    with True Cons.prems(1) show ?thesis
      by (simp add: p)
  next
    case False
    with Cons.prems(1) assms(2) show ?thesis
      by (simp add: p)
  qed
qed

section \<open>Operands of equal shape and scalars\<close>

lemma upto_blocks:
  assumes "0 < P"
  shows "concat (map (\<lambda>j. map ((+) (j * P)) [0..P - 1]) [0..int n - 1]) = [0..int n * P - 1]"
proof (induction n)
  case 0
  then show ?case by simp
next
  case (Suc n)
  have "map ((+) c) [0..P - 1] = [c..c + P - 1]" for c
    by (rule nth_equalityI) simp_all
  moreover have "[0..int (Suc n) - 1] = [0..int n - 1] @ [int n]"
    by (simp add: upto_rec2)
  moreover have "[0..int (Suc n) * P - 1] = [0..int n * P - 1] @ [int n * P..int n * P + P - 1]"
    using assms upto_split1 [of 0 "int n * P" "int n * P + P - 1"] by (simp add: algebra_simps)
  ultimately show ?case
    using Suc by simp
qed

lemma operand_indexes_self:
  assumes "\<forall>d \<in> set ds. 0 < d"
  shows "operand_indexes ds ds = [0..prod_list ds - 1]"
  using assms
proof (induction ds)
  case Nil
  then show ?case by (simp add: operand_indexes_def multi_indexes_def)
next
  case (Cons d ds)
  let ?P = "prod_list ds"
  have pos: "0 < ?P"
    using broadcasts_to_prod(1) [of ds ds] Cons.prems by (simp add: broadcasts_to_def list_all2_same)
  have IH: "map (\<lambda>is. row_index ds (clip ds is)) (multi_indexes ds) = [0..?P - 1]"
    using Cons by (simp add: operand_indexes_def)
  have "operand_indexes (d # ds) (d # ds) =
      concat (map (\<lambda>j. map (\<lambda>is. (if d = 1 then 0 else j) * ?P + row_index ds (clip ds is)) (multi_indexes ds)) [0..d - 1])"
    by (simp add: operand_indexes_def multi_indexes_Cons map_concat comp_def clip_def)
  also have "\<dots> = concat (map (\<lambda>j. map ((+) (j * ?P)) (map (\<lambda>is. row_index ds (clip ds is)) (multi_indexes ds))) [0..d - 1])"
    by (intro arg_cong [where f = concat] map_cong) auto
  also have "\<dots> = [0..prod_list (d # ds) - 1]"
    unfolding IH using upto_blocks [of ?P "nat d"] pos Cons.prems by simp
  finally show ?case .
qed

lemma elements_self:
  assumes "\<forall>d \<in> set ds. 0 < d" and "int (length xs) = prod_list ds"
  shows "map (element_at ds xs) (multi_indexes ds) = xs"
proof -
  have "map (element_at ds xs) (multi_indexes ds) = map (\<lambda>i. xs ! nat i) (operand_indexes ds ds)"
    by (simp add: operand_indexes_def element_at_def comp_def)
  also have "\<dots> = xs"
    unfolding operand_indexes_self [OF assms(1)] assms(2) [symmetric] by (rule nth_equalityI) simp_all
  finally show ?thesis .
qed

lemma tensor_elements:
  "tensor_ok t \<Longrightarrow> map (element_at (t_shape t) (t_data t)) (multi_indexes (t_shape t)) = t_data t"
  by (rule elements_self) (simp_all add: tensor_ok_def)

lemma element_at_scalar: "element_at (replicate n 1) xs is = xs ! 0"
proof -
  have "row_index (replicate n 1) (clip (replicate n 1) is) = 0" for n and "is" :: "int list"
    by (induction n arbitrary: "is") (auto simp: clip_def zip_Cons1 split: list.splits)
  then show ?thesis by (simp add: element_at_def)
qed

lemma broadcast_pairs_same:
  assumes "t_shape x = t_shape y" and "tensor_ok x" and "tensor_ok y"
  shows "broadcast_shape (t_shape x) (t_shape y) = t_shape x" and "broadcast_pairs x y = zip (t_data x) (t_data y)"
proof -
  have "map2 broadcast_dim s s = s" for s
    by (induction s) (simp_all add: broadcast_dim_def)
  then show shape: "broadcast_shape (t_shape x) (t_shape y) = t_shape x"
    using assms(1) by (simp add: broadcast_shape_def)
  have "zip (t_data x) (t_data y) = zip (map (element_at (t_shape x) (t_data x)) (multi_indexes (t_shape x)))
      (map (element_at (t_shape x) (t_data y)) (multi_indexes (t_shape x)))"
    using tensor_elements [OF assms(2)] tensor_elements [OF assms(3)] assms(1) by simp
  then show "broadcast_pairs x y = zip (t_data x) (t_data y)"
    unfolding broadcast_pairs_def shape using assms(1) by (simp add: zip_map_map zip_same_conv_map)
qed

lemma broadcast_pairs_scalar_y:
  assumes "t_shape y = []" and "tensor_ok x"
  shows "broadcast_shape (t_shape x) (t_shape y) = t_shape x"
    and "broadcast_pairs x y = map (\<lambda>a. (a, t_data y ! 0)) (t_data x)"
proof -
  have "map2 broadcast_dim s (replicate (length s) 1) = s" for s
    by (induction s) (simp_all add: broadcast_dim_def)
  then show shape: "broadcast_shape (t_shape x) (t_shape y) = t_shape x"
    using assms(1) by (simp add: broadcast_shape_def pad_shape_def)
  have "map (\<lambda>a. (a, t_data y ! 0)) (t_data x)
      = map (\<lambda>a. (a, t_data y ! 0)) (map (element_at (t_shape x) (t_data x)) (multi_indexes (t_shape x)))"
    using tensor_elements [OF assms(2)] by simp
  then show "broadcast_pairs x y = map (\<lambda>a. (a, t_data y ! 0)) (t_data x)"
    unfolding broadcast_pairs_def shape using assms(1)
    by (simp add: pad_shape_def element_at_scalar comp_def)
qed

lemma broadcast_pairs_scalar_x:
  assumes "t_shape x = []" and "tensor_ok y"
  shows "broadcast_shape (t_shape x) (t_shape y) = t_shape y"
    and "broadcast_pairs x y = map (Pair (t_data x ! 0)) (t_data y)"
proof -
  have "map2 broadcast_dim (replicate (length s) 1) s = s" for s
    by (induction s) (simp_all add: broadcast_dim_def)
  then show shape: "broadcast_shape (t_shape x) (t_shape y) = t_shape y"
    using assms(1) by (simp add: broadcast_shape_def pad_shape_def)
  have "map (Pair (t_data x ! 0)) (t_data y)
      = map (Pair (t_data x ! 0)) (map (element_at (t_shape y) (t_data y)) (multi_indexes (t_shape y)))"
    using tensor_elements [OF assms(2)] by simp
  then show "broadcast_pairs x y = map (Pair (t_data x ! 0)) (t_data y)"
    unfolding broadcast_pairs_def shape using assms(1)
    by (simp add: pad_shape_def element_at_scalar comp_def)
qed

section \<open>Properties\<close>

text \<open>
  C30: Generating the broadcast information succeeds exactly when the two shapes are compatible, and then records
  the padded operand shapes, the broadcast shape, the tiling factors and the positions of the unit dimensions to
  reduce over; for incompatible or negative dimensions it returns PARAM_INVALID.
\<close>

theorem generate_bcast_info_correct:
  "if compatible sx sy then GenerateBcastInfo new_BCast sx sy = Inr (SUCCESS, bcast_info sx sy)
   else \<exists>bc'. GenerateBcastInfo new_BCast sx sy = Inr (PARAM_INVALID, bc')"
  using GenerateBcastInfo_compatible GenerateBcastInfo_incompatible by simp

text \<open>
  C13: The index vectors and the two element-wise drivers implement broadcasting: for tensors with positive
  dimensions, complete data and compatible shapes they apply the function to the operands of every output element
  in row-major order, append the results, and read no element outside a tensor; the checked driver stops at the
  first element whose function reports a failure.
\<close>

theorem bcast_compute_equivalent:
  assumes "broadcastable x y"
  shows "BCastCompute new_BCast [Some x, Some y] out (Some (\<lambda>a b. Inr (f a b))) =
      Inr (SUCCESS, bcast_info (t_shape x) (t_shape y), out @ map (\<lambda>(a, b). f a b) (broadcast_pairs x y))
    \<and> BCastComputeCheck new_BCast [Some x, Some y] out (Some g) =
      and_then (run_checked (\<lambda>a b. g a b (t_dtype x)) (broadcast_pairs x y) out)
        (\<lambda>(ret, vs). Inr (ret, bcast_info (t_shape x) (t_shape y), vs))"
proof
  have "run_pairs (\<lambda>a b. Inr (f a b)) (broadcast_pairs x y) = Inr (map (\<lambda>(a, b). f a b) (broadcast_pairs x y))"
    by (rule run_pairs_total) auto
  then show "BCastCompute new_BCast [Some x, Some y] out (Some (\<lambda>a b. Inr (f a b))) =
      Inr (SUCCESS, bcast_info (t_shape x) (t_shape y), out @ map (\<lambda>(a, b). f a b) (broadcast_pairs x y))"
    by (simp add: BCastCompute_broadcastable [OF assms])
qed (rule BCastComputeCheck_broadcastable [OF assms])

theorem bcast_compute_equivalent_witness:
  "BCastCompute new_BCast [Some \<lparr> t_dtype = DT_INT32, t_shape = [2, 1], t_data = [10, 20 :: int] \<rparr>,
      Some \<lparr> t_dtype = DT_INT32, t_shape = [1, 3], t_data = [1, 2, 3] \<rparr>] [] (Some (\<lambda>a b. Inr (a + b)))
   = Inr (SUCCESS, bcast_info [2, 1] [1, 3], [11, 12, 13, 21, 22, 23])"
proof -
  let ?x = "\<lparr> t_dtype = DT_INT32, t_shape = [2, 1], t_data = [10, 20] \<rparr> :: int tensor"
  let ?y = "\<lparr> t_dtype = DT_INT32, t_shape = [1, 3], t_data = [1, 2, 3] \<rparr> :: int tensor"
  have "broadcastable ?x ?y"
    by code_simp
  moreover have "map (\<lambda>(a, b). a + b) (broadcast_pairs ?x ?y) = [11, 12, 13, 21, 22, 23]"
    by code_simp
  ultimately show ?thesis
    using bcast_compute_equivalent [of ?x ?y "[]" "(+)"] by simp
qed

end
