(* ===== verification/Arith_Kernels.thy ===== *)
theory Arith_Kernels
  imports BCast_Correct Math_Util
begin

text \<open>
  The constant-folding kernels of \<open>host_kernels/\<close> that combine two tensors element by element: \<open>AddKernel\<close>,
  \<open>SubKernel\<close>, \<open>MulKernel\<close>, \<open>MaximumKernel\<close>, \<open>GreaterKernel\<close>, \<open>FloorModKernel\<close> and \<open>FloorDivKernel\<close>.

  The elements of an integer type are \<open>int\<close>s in the range of the type; they are what the kernel reads through its
  element pointer. Operands are promoted as in C++: a signed result outside the promoted type is undefined, a
  \<open>Fault\<close>; storing into a narrower type wraps. Elements of a floating-point type are bit patterns, and the
  arithmetic on them, the success of allocations and the type table of the graph library are the record
  \<open>kernel_env\<close>.
\<close>

section \<open>Element types\<close>

definition swrap :: "nat \<Rightarrow> int \<Rightarrow> int" where
  "swrap w x = (x + 2 ^ (w - 1)) mod 2 ^ w - 2 ^ (w - 1)"

definition int_width :: "DataType \<Rightarrow> nat" where
  "int_width dt = (case dt of
     DT_INT8 \<Rightarrow> 8 | DT_UINT8 \<Rightarrow> 8 | DT_INT16 \<Rightarrow> 16 | DT_UINT16 \<Rightarrow> 16 | DT_INT32 \<Rightarrow> 32 | DT_UINT32 \<Rightarrow> 32
   | DT_INT64 \<Rightarrow> 64 | DT_UINT64 \<Rightarrow> 64 | _ \<Rightarrow> 0)"

definition signed_type :: "DataType \<Rightarrow> bool" where
  "signed_type dt \<longleftrightarrow> dt \<in> {DT_INT8, DT_INT16, DT_INT32, DT_INT64}"

definition int_type :: "DataType \<Rightarrow> bool" where
  "int_type dt \<longleftrightarrow> 0 < int_width dt"

definition float_type :: "DataType \<Rightarrow> bool" where
  "float_type dt \<longleftrightarrow> dt \<in> {DT_FLOAT16, DT_FLOAT, DT_DOUBLE}"

definition in_type :: "DataType \<Rightarrow> int \<Rightarrow> bool" where
  "in_type dt x = (if signed_type dt then fits_signed (int_width dt) x else fits_unsigned (int_width dt) x)"

text \<open>Conversion of an integer to the element type.\<close>

definition narrow :: "DataType \<Rightarrow> int \<Rightarrow> int" where
  "narrow dt x = (if signed_type dt then swrap (int_width dt) x else x mod 2 ^ int_width dt)"

text \<open>The value of an operation on promoted operands: types narrower than \<open>int\<close> are promoted to \<open>int\<close>.\<close>

definition promoted :: "DataType \<Rightarrow> int \<Rightarrow> int res" where
  "promoted dt x =
     (if dt = DT_UINT32 \<or> dt = DT_UINT64 then Inr (x mod 2 ^ int_width dt)
      else signed_value (if dt = DT_INT64 then 64 else 32) x)"

definition arith :: "DataType \<Rightarrow> int \<Rightarrow> int res" where
  "arith dt x = and_then (promoted dt x) (\<lambda>v. Inr (narrow dt v))"

section \<open>The environment of a kernel\<close>

record kernel_env =
  fp_add_check :: "DataType \<Rightarrow> int \<Rightarrow> int \<Rightarrow> Status"
  fp_sub_check :: "DataType \<Rightarrow> int \<Rightarrow> int \<Rightarrow> Status"
  fp_mul_check :: "DataType \<Rightarrow> int \<Rightarrow> int \<Rightarrow> Status"
  fp_add :: "DataType \<Rightarrow> int \<Rightarrow> int \<Rightarrow> int"
  fp_sub :: "DataType \<Rightarrow> int \<Rightarrow> int \<Rightarrow> int"
  fp_mul :: "DataType \<Rightarrow> int \<Rightarrow> int \<Rightarrow> int"
  fp_greater :: "DataType \<Rightarrow> int \<Rightarrow> int \<Rightarrow> bool"
  fp_near_zero :: "DataType \<Rightarrow> int \<Rightarrow> bool"
  fp_floor_div :: "DataType \<Rightarrow> int \<Rightarrow> int \<Rightarrow> int"
  new_array :: "DataType \<Rightarrow> nat \<Rightarrow> bool"
  make_shared :: bool
  data_type_length_known :: "DataType \<Rightarrow> bool"

record op_desc =
  outputs_size :: nat

section \<open>\<open>AddKernel\<close>\<close>

text \<open>The macros \<open>FMK_..CHECK\<close> turn a failed check into \<open>INTERNAL_ERROR\<close>.\<close>

definition fmk_check :: "Status res \<Rightarrow> Status res" where
  "fmk_check r = and_then r (\<lambda>s. Inr (if s \<noteq> SUCCESS then INTERNAL_ERROR else SUCCESS))"

definition OverflowCheck_Add :: "kernel_env \<Rightarrow> int \<Rightarrow> int \<Rightarrow> DataType \<Rightarrow> Status res" where
  "OverflowCheck_Add env x y data_type = (case data_type of
     DT_INT8 \<Rightarrow> fmk_check (CheckInt8AddOverflow x y)
   | DT_INT16 \<Rightarrow> fmk_check (CheckInt16AddOverflow x y)
   | DT_INT32 \<Rightarrow> fmk_check (CheckInt32AddOverflow x y)
   | DT_INT64 \<Rightarrow> fmk_check (CheckInt64AddOverflow x y)
   | DT_UINT8 \<Rightarrow> fmk_check (CheckUint8AddOverflow x y)
   | DT_UINT16 \<Rightarrow> fmk_check (CheckUint16AddOverflow x y)
   | DT_UINT32 \<Rightarrow> fmk_check (CheckUint32AddOverflow x y)
   | DT_UINT64 \<Rightarrow> fmk_check (CheckUint64AddOverflow x y)
   | DT_FLOAT16 \<Rightarrow> fmk_check (Inr (fp_add_check env DT_FLOAT16 x y))
   | DT_FLOAT \<Rightarrow> fmk_check (Inr (fp_add_check env DT_FLOAT x y))
   | DT_DOUBLE \<Rightarrow> fmk_check (Inr (fp_add_check env DT_DOUBLE x y))
   | _ \<Rightarrow> Inr SUCCESS)"

definition add_elements :: "kernel_env \<Rightarrow> DataType \<Rightarrow> int \<Rightarrow> int \<Rightarrow> int res" where
  "add_elements env dt x y = (if float_type dt then Inr (fp_add env dt x y) else arith dt (x + y))"

text \<open>The loop of \<open>BCastAdd\<close>; \<open>buf\<close> holds the elements computed so far.\<close>

fun BCastAdd_from ::
  "kernel_env \<Rightarrow> DataType \<Rightarrow> int list \<Rightarrow> int list \<Rightarrow> int list \<Rightarrow> int list \<Rightarrow> int list \<Rightarrow> (Status \<times> int list) res"
where
  "BCastAdd_from env dt x1 x2 [] ys buf = Inr (SUCCESS, buf)"
| "BCastAdd_from env dt x1 x2 (i # xs) [] buf = Inl Fault"
| "BCastAdd_from env dt x1 x2 (i # xs) (j # ys) buf =
     and_then (at_index x1 i) (\<lambda>x_index.
     and_then (at_index x2 j) (\<lambda>y_index.
     and_then (OverflowCheck_Add env x_index y_index dt) (\<lambda>ret.
     if ret \<noteq> SUCCESS then Inr (PARAM_INVALID, buf)
     else and_then (add_elements env dt x_index y_index) (\<lambda>v. BCastAdd_from env dt x1 x2 xs ys (buf @ [v])))))"

definition BCastAdd ::
  "kernel_env \<Rightarrow> int tensor option list \<Rightarrow> int tensor list \<Rightarrow> (Status \<times> int tensor list) res"
where
  "BCastAdd env input v_output =
     and_then (deref (input ! 0)) (\<lambda>x.
     and_then (deref (input ! 1)) (\<lambda>y.
     and_then (GenerateBcastInfo new_BCast (TransShapeToDimVec x) (TransShapeToDimVec y)) (\<lambda>(ret, bcast).
     if ret \<noteq> SUCCESS then Inr (ret, v_output)
     else
       and_then (BCastIndexes bcast [] []) (\<lambda>(x_indexes, y_indexes).
       if \<not> new_array env (t_dtype x) (length x_indexes) then Inr (MEMALLOC_FAILED, v_output)
       else
         and_then (BCastAdd_from env (t_dtype x) (t_data x) (t_data y) x_indexes y_indexes []) (\<lambda>(ret, buf).
         if ret \<noteq> SUCCESS then Inr (ret, v_output)
         else if \<not> make_shared env then Inr (MEMALLOC_FAILED, v_output)
         else Inr (SUCCESS, v_output @ [\<lparr> t_dtype = t_dtype x, t_shape = output_shape bcast, t_data = buf \<rparr>]))))))"

definition AddCheck :: "op_desc option \<Rightarrow> 'a tensor option list \<Rightarrow> Status" where
  "AddCheck op input = (case op of
     None \<Rightarrow> PARAM_INVALID
   | Some od \<Rightarrow>
       if length input \<noteq> 2 \<or> outputs_size od \<noteq> 1 then PARAM_INVALID
       else case (input ! 0, input ! 1) of
         (Some x, Some y) \<Rightarrow>
           if t_dtype x \<noteq> t_dtype y then PARAM_INVALID
           else if length (t_data x) = 0 \<or> length (t_data y) = 0 then PARAM_INVALID
           else SUCCESS
       | _ \<Rightarrow> PARAM_INVALID)"

definition AddKernel_Compute ::
  "kernel_env \<Rightarrow> op_desc option \<Rightarrow> int tensor option list \<Rightarrow> int tensor list \<Rightarrow> (Status \<times> int tensor list) res"
where
  "AddKernel_Compute env op input v_output =
     (if AddCheck op input \<noteq> SUCCESS then Inr (NOT_CHANGED, v_output)
      else
        and_then (deref (input ! 0)) (\<lambda>x.
        if t_dtype x \<in> {DT_INT8, DT_INT16, DT_INT32, DT_INT64, DT_UINT8, DT_UINT16, DT_UINT32, DT_UINT64,
             DT_FLOAT16, DT_FLOAT, DT_DOUBLE}
        then and_then (BCastAdd env input v_output) (\<lambda>(ret, v_output').
             if ret \<noteq> SUCCESS then Inr (NOT_CHANGED, v_output') else Inr (SUCCESS, v_output'))
        else Inr (NOT_CHANGED, v_output)))"

section \<open>\<open>SubKernel\<close> and \<open>MulKernel\<close>\<close>

text \<open>
  Both kernels collect the result in a member vector per element type, \<open>y_data\<close>, which \<open>Compute\<close> neither clears
  before nor after; the model passes it in and out. The functions given to \<open>BCastComputeCheck\<close> return 0 and the
  failed status on overflow.
\<close>

definition OverflowCheck_Sub :: "kernel_env \<Rightarrow> int \<Rightarrow> int \<Rightarrow> DataType \<Rightarrow> Status res" where
  "OverflowCheck_Sub env x y data_type = (case data_type of
     DT_INT8 \<Rightarrow> fmk_check (CheckInt8SubOverflow x y)
   | DT_INT16 \<Rightarrow> fmk_check (CheckInt16SubOverflow x y)
   | DT_INT32 \<Rightarrow> fmk_check (CheckInt32SubOverflow x y)
   | DT_INT64 \<Rightarrow> fmk_check (CheckInt64SubOverflow x y)
   | DT_UINT8 \<Rightarrow> fmk_check (CheckUint8SubOverflow x y)
   | DT_UINT16 \<Rightarrow> fmk_check (CheckUint16SubOverflow x y)
   | DT_UINT32 \<Rightarrow> fmk_check (CheckUint32SubOverflow x y)
   | DT_UINT64 \<Rightarrow> fmk_check (CheckUint64SubOverflow x y)
   | DT_FLOAT16 \<Rightarrow> fmk_check (Inr (fp_sub_check env DT_FLOAT16 x y))
   | DT_FLOAT \<Rightarrow> fmk_check (Inr (fp_sub_check env DT_FLOAT x y))
   | DT_DOUBLE \<Rightarrow> fmk_check (Inr (fp_sub_check env DT_DOUBLE x y))
   | _ \<Rightarrow> Inr SUCCESS)"

definition sub_elements :: "kernel_env \<Rightarrow> DataType \<Rightarrow> int \<Rightarrow> int \<Rightarrow> int res" where
  "sub_elements env dt x y = (if float_type dt then Inr (fp_sub env dt x y) else arith dt (x - y))"

definition OverflowCheck_Mul :: "kernel_env \<Rightarrow> int \<Rightarrow> int \<Rightarrow> DataType \<Rightarrow> Status res" where
  "OverflowCheck_Mul env x y data_type = (case data_type of
     DT_INT8 \<Rightarrow> fmk_check (CheckInt8MulOverflow x y)
   | DT_INT16 \<Rightarrow> fmk_check (CheckInt16MulOverflow x y)
   | DT_INT32 \<Rightarrow> fmk_check (CheckInt32MulOverflow x y)
   | DT_INT64 \<Rightarrow> fmk_check (Int64MulCheckOverflow x y)
   | DT_UINT8 \<Rightarrow> fmk_check (CheckUint8MulOverflow x y)
   | DT_UINT16 \<Rightarrow> fmk_check (CheckUint16MulOverflow x y)
   | DT_UINT32 \<Rightarrow> fmk_check (CheckUint32MulOverflow x y)
   | DT_UINT64 \<Rightarrow> fmk_check (CheckUint64MulOverflow x y)
   | DT_FLOAT16 \<Rightarrow> fmk_check (Inr (fp_mul_check env DT_FLOAT16 x y))
   | DT_FLOAT \<Rightarrow> fmk_check (Inr (fp_mul_check env DT_FLOAT x y))
   | DT_DOUBLE \<Rightarrow> fmk_check (Inr (fp_mul_check env DT_DOUBLE x y))
   | _ \<Rightarrow> Inr SUCCESS)"

definition mul_elements :: "kernel_env \<Rightarrow> DataType \<Rightarrow> int \<Rightarrow> int \<Rightarrow> int res" where
  "mul_elements env dt x y = (if float_type dt then Inr (fp_mul env dt x y) else arith dt (x * y))"

definition func_Sub :: "kernel_env \<Rightarrow> int \<Rightarrow> int \<Rightarrow> DataType \<Rightarrow> (int \<times> Status) res" where
  "func_Sub env x y dt =
     and_then (OverflowCheck_Sub env x y dt) (\<lambda>ret.
     if ret \<noteq> SUCCESS then Inr (0, ret) else and_then (sub_elements env dt x y) (\<lambda>v. Inr (v, ret)))"

definition func_Mul :: "kernel_env \<Rightarrow> int \<Rightarrow> int \<Rightarrow> DataType \<Rightarrow> (int \<times> Status) res" where
  "func_Mul env a b dt =
     and_then (OverflowCheck_Mul env a b dt) (\<lambda>ret.
     if ret \<noteq> SUCCESS then Inr (0, ret) else and_then (mul_elements env dt a b) (\<lambda>v. Inr (v, ret)))"

type_synonym kernel_members = "DataType \<Rightarrow> int list"

definition SubKernel_Compute ::
  "kernel_env \<Rightarrow> op_desc option \<Rightarrow> int tensor option list \<Rightarrow> kernel_members \<Rightarrow> int tensor list
     \<Rightarrow> (Status \<times> kernel_members \<times> int tensor list) res"
where
  "SubKernel_Compute env op input y_data v_output = (case op of
     None \<Rightarrow> Inr (PARAM_INVALID, y_data, v_output)
   | Some od \<Rightarrow>
       if length input \<noteq> 2 \<or> outputs_size od \<noteq> 1 then Inr (NOT_CHANGED, y_data, v_output)
       else case (input ! 0, input ! 1) of
         (Some x, Some y) \<Rightarrow>
           let dt = t_dtype x in
           and_then
             (if dt \<in> {DT_INT8, DT_INT16, DT_INT32, DT_INT64, DT_UINT8, DT_UINT16, DT_UINT32, DT_UINT64,
                DT_FLOAT16, DT_FLOAT, DT_DOUBLE}
              then BCastComputeCheck new_BCast input (y_data dt) (Some (func_Sub env))
              else Inr (NOT_CHANGED, new_BCast, y_data dt)) (\<lambda>(ret, bcast, y).
           let y_data' = y_data(dt := y) in
           if ret \<noteq> SUCCESS then Inr (NOT_CHANGED, y_data', v_output)
           else if \<not> data_type_length_known env dt then Inr (NOT_CHANGED, y_data', v_output)
           else if \<not> make_shared env then Inr (NOT_CHANGED, y_data', v_output)
           else Inr (SUCCESS, y_data',
                  v_output @ [\<lparr> t_dtype = dt, t_shape = output_shape bcast, t_data = y_data' dt \<rparr>]))
       | _ \<Rightarrow> Inr (PARAM_INVALID, y_data, v_output))"

definition kMulSupportedType :: "DataType set" where
  "kMulSupportedType = {DT_INT8, DT_INT16, DT_INT32, DT_INT64, DT_UINT8, DT_UINT16, DT_UINT32, DT_UINT64,
     DT_FLOAT16, DT_FLOAT, DT_DOUBLE}"

definition MulCheck :: "'a tensor option list \<Rightarrow> Status" where
  "MulCheck input =
     (if length input \<noteq> 2 then NOT_CHANGED
      else case (input ! 0, input ! 1) of
        (Some x1, Some x2) \<Rightarrow>
          if length (t_data x1) = 0 \<or> length (t_data x2) = 0 then NOT_CHANGED
          else if t_dtype x1 \<noteq> t_dtype x2 then NOT_CHANGED
          else if t_dtype x1 \<notin> kMulSupportedType then NOT_CHANGED
          else SUCCESS
      | _ \<Rightarrow> PARAM_INVALID)"

definition MulKernel_Compute ::
  "kernel_env \<Rightarrow> op_desc option \<Rightarrow> int tensor option list \<Rightarrow> kernel_members \<Rightarrow> int tensor list
     \<Rightarrow> (Status \<times> kernel_members \<times> int tensor list) res"
where
  "MulKernel_Compute env op input y_data v_output =
     (if op = None then Inr (PARAM_INVALID, y_data, v_output)
      else if MulCheck input \<noteq> SUCCESS then Inr (MulCheck input, y_data, v_output)
      else
        and_then (deref (input ! 0)) (\<lambda>x.
        let dt = t_dtype x in
        and_then
          (if dt \<in> {DT_INT8, DT_INT16, DT_INT32, DT_INT64, DT_UINT8, DT_UINT16, DT_UINT32, DT_UINT64,
             DT_FLOAT16, DT_FLOAT, DT_DOUBLE}
           then BCastComputeCheck new_BCast input (y_data dt) (Some (func_Mul env))
           else Inr (NOT_CHANGED, new_BCast, y_data dt)) (\<lambda>(ret, bcast, y).
        let y_data' = y_data(dt := y) in
        if ret \<noteq> SUCCESS then Inr (NOT_CHANGED, y_data', v_output)
        else if \<not> data_type_length_known env dt then Inr (NOT_CHANGED, y_data', v_output)
        else if \<not> make_shared env then Inr (MEMALLOC_FAILED, y_data', v_output)
        else Inr (SUCCESS, y_data',
               v_output @ [\<lparr> t_dtype = dt, t_shape = output_shape bcast, t_data = y_data' dt \<rparr>]))))"

section \<open>\<open>MaximumKernel\<close> and \<open>GreaterKernel\<close>\<close>

definition element_greater :: "kernel_env \<Rightarrow> DataType \<Rightarrow> int \<Rightarrow> int \<Rightarrow> bool" where
  "element_greater env dt a b = (if float_type dt then fp_greater env dt a b else a > b)"

definition func_Maximum :: "kernel_env \<Rightarrow> DataType \<Rightarrow> int \<Rightarrow> int \<Rightarrow> int res" where
  "func_Maximum env dt a b = Inr (if element_greater env dt a b then a else b)"

definition kMaximumSupportedType :: "DataType set" where
  "kMaximumSupportedType = {DT_FLOAT, DT_FLOAT16, DT_INT8, DT_INT16, DT_UINT16, DT_UINT8, DT_INT32, DT_INT64,
     DT_UINT32, DT_UINT64, DT_DOUBLE}"

definition MaximumCheck :: "'a tensor option list \<Rightarrow> Status" where
  "MaximumCheck input =
     (if length input \<noteq> 2 then NOT_CHANGED
      else case (input ! 0, input ! 1) of
        (Some x1, Some x2) \<Rightarrow>
          if length (t_data x1) = 0 \<or> length (t_data x2) = 0 then NOT_CHANGED
          else if t_dtype x1 \<noteq> t_dtype x2 then NOT_CHANGED
          else if t_dtype x1 \<notin> kMaximumSupportedType then NOT_CHANGED
          else SUCCESS
      | _ \<Rightarrow> PARAM_INVALID)"

definition MaximumKernel_Compute ::
  "kernel_env \<Rightarrow> op_desc option \<Rightarrow> int tensor option list \<Rightarrow> int tensor list \<Rightarrow> (Status \<times> int tensor list) res"
where
  "MaximumKernel_Compute env op input v_output =
     (if op = None then Inr (PARAM_INVALID, v_output)
      else if MaximumCheck input \<noteq> SUCCESS then Inr (MaximumCheck input, v_output)
      else if input = [] then Inr (FAILED, v_output)
      else
        and_then (deref (input ! 0)) (\<lambda>x.
        let dt = t_dtype x in
        and_then
          (if dt \<in> {DT_INT8, DT_INT16, DT_INT32, DT_INT64, DT_UINT8, DT_UINT16, DT_UINT32, DT_UINT64,
             DT_FLOAT16, DT_FLOAT, DT_DOUBLE}
           then BCastCompute new_BCast input [] (Some (func_Maximum env dt))
           else Inr (NOT_CHANGED, new_BCast, [])) (\<lambda>(ret, bcast, y).
        if ret \<noteq> SUCCESS then Inr (NOT_CHANGED, v_output)
        else if \<not> data_type_length_known env dt then Inr (NOT_CHANGED, v_output)
        else if \<not> make_shared env then Inr (MEMALLOC_FAILED, v_output)
        else Inr (SUCCESS, v_output @ [\<lparr> t_dtype = dt, t_shape = output_shape bcast, t_data = y \<rparr>]))))"

definition func_Greater :: "kernel_env \<Rightarrow> DataType \<Rightarrow> int \<Rightarrow> int \<Rightarrow> int res" where
  "func_Greater env dt a b = Inr (if element_greater env dt a b then 1 else 0)"

definition greater_supported_type :: "DataType set" where
  "greater_supported_type = {DT_FLOAT, DT_FLOAT16, DT_INT8, DT_INT16, DT_UINT16, DT_UINT8, DT_INT32, DT_INT64,
     DT_UINT32, DT_UINT64, DT_BOOL, DT_DOUBLE}"

definition GreaterCheck :: "'a tensor option list \<Rightarrow> Status" where
  "GreaterCheck input =
     (if length input \<noteq> 2 then NOT_CHANGED
      else case (input ! 0, input ! 1) of
        (Some x1, Some x2) \<Rightarrow>
          if length (t_data x1) = 0 \<or> length (t_data x2) = 0 then NOT_CHANGED
          else if t_dtype x1 \<noteq> t_dtype x2 then NOT_CHANGED
          else if t_dtype x1 \<notin> greater_supported_type then NOT_CHANGED
          else SUCCESS
      | _ \<Rightarrow> PARAM_INVALID)"

definition GreaterKernel_Compute ::
  "kernel_env \<Rightarrow> op_desc option \<Rightarrow> int tensor option list \<Rightarrow> int tensor list \<Rightarrow> (Status \<times> int tensor list) res"
where
  "GreaterKernel_Compute env op input v_output =
     (if op = None then Inr (PARAM_INVALID, v_output)
      else if GreaterCheck input \<noteq> SUCCESS then Inr (GreaterCheck input, v_output)
      else if input ! 0 = None then Inr (PARAM_INVALID, v_output)
      else
        and_then (deref (input ! 0)) (\<lambda>x.
        let dt = t_dtype x in
        and_then
          (if dt \<in> {DT_INT8, DT_INT16, DT_INT32, DT_INT64, DT_UINT8, DT_UINT16, DT_UINT32, DT_UINT64,
             DT_FLOAT16, DT_FLOAT, DT_DOUBLE, DT_BOOL}
           then BCastCompute new_BCast input [] (Some (func_Greater env dt))
           else Inr (NOT_CHANGED, new_BCast, [])) (\<lambda>(ret, bcast, y).
        if ret \<noteq> SUCCESS then Inr (NOT_CHANGED, v_output)
        else if \<not> make_shared env then Inr (MEMALLOC_FAILED, v_output)
        else Inr (SUCCESS, v_output @ [\<lparr> t_dtype = DT_BOOL, t_shape = output_shape bcast, t_data = y \<rparr>]))))"

end
