(* ===== verification/Arith_Correct.thy ===== *)
theory Arith_Correct
  imports Arith_Kernels
begin

text \<open>
  Correctness of the addition, subtraction, multiplication, maximum and comparison kernels. The locale
  \<open>int_operation\<close> is the contract between an overflow check and the operation it guards; it is interpreted for the
  three arithmetic kernels, and the run of a checked operation over the operand pairs is analysed once in it.
\<close>

section \<open>Checked operations\<close>

lemma swrap_id: "1 \<le> w \<Longrightarrow> fits_signed w x \<Longrightarrow> swrap w x = x"
proof -
  assume w: "1 \<le> w" and x: "fits_signed w x"
  have "(2 :: int) ^ w = 2 * 2 ^ (w - 1)"
    using w by (cases w) simp_all
  with x have "0 \<le> x + 2 ^ (w - 1)" "x + 2 ^ (w - 1) < 2 ^ w"
    unfolding smin_def smax_def by linarith+
  then show ?thesis
    by (simp add: swrap_def)
qed

lemma int_type_cases:
  assumes "int_type dt"
  shows "dt \<in> {DT_INT8, DT_INT16, DT_INT32, DT_INT64, DT_UINT8, DT_UINT16, DT_UINT32, DT_UINT64}"
  using assms by (cases dt) (simp_all add: int_type_def int_width_def)

lemma int_type_not_float: "int_type dt \<Longrightarrow> \<not> float_type dt"
  using int_type_cases [of dt] by (auto simp: float_type_def)

lemma arith_exact:
  assumes "int_type dt" and "in_type dt x"
  shows "arith dt x = Inr x"
  using int_type_cases [OF assms(1)] assms(2)
  by (elim insertE)
    (simp_all add: arith_def promoted_def narrow_def in_type_def signed_type_def int_width_def signed_value_def
      swrap_def smin_def smax_def umax_def)

definition checked :: "('e \<Rightarrow> int \<Rightarrow> int \<Rightarrow> DataType \<Rightarrow> Status res) \<Rightarrow> ('e \<Rightarrow> DataType \<Rightarrow> int \<Rightarrow> int \<Rightarrow> int res)
    \<Rightarrow> 'e \<Rightarrow> int \<Rightarrow> int \<Rightarrow> DataType \<Rightarrow> (int \<times> Status) res" where
  "checked chk val env x y dt =
     and_then (chk env x y dt) (\<lambda>ret.
     if ret \<noteq> SUCCESS then Inr (0, ret) else and_then (val env dt x y) (\<lambda>v. Inr (v, ret)))"

definition pairs_in_type :: "DataType \<Rightarrow> (int \<times> int) list \<Rightarrow> bool" where
  "pairs_in_type dt ps \<longleftrightarrow> (\<forall>(a, b) \<in> set ps. in_type dt a \<and> in_type dt b)"

definition results_in_type :: "DataType \<Rightarrow> (int \<Rightarrow> int \<Rightarrow> int) \<Rightarrow> (int \<times> int) list \<Rightarrow> bool" where
  "results_in_type dt oper ps \<longleftrightarrow> (\<forall>(a, b) \<in> set ps. in_type dt (oper a b))"

locale int_operation =
  fixes chk :: "'e \<Rightarrow> int \<Rightarrow> int \<Rightarrow> DataType \<Rightarrow> Status res"
    and val :: "'e \<Rightarrow> DataType \<Rightarrow> int \<Rightarrow> int \<Rightarrow> int res"
    and oper :: "int \<Rightarrow> int \<Rightarrow> int"
  assumes check_exact: "int_type dt \<Longrightarrow> in_type dt x \<Longrightarrow> in_type dt y \<Longrightarrow>
      chk env x y dt = Inr (if in_type dt (oper x y) then SUCCESS else INTERNAL_ERROR)"
    and value_exact: "int_type dt \<Longrightarrow> in_type dt (oper x y) \<Longrightarrow> val env dt x y = Inr (oper x y)"
begin

lemma checked_eq:
  assumes "int_type dt" and "in_type dt x" and "in_type dt y"
  shows "checked chk val env x y dt =
    Inr (if in_type dt (oper x y) then (oper x y, SUCCESS) else (0, INTERNAL_ERROR))"
  using check_exact [OF assms] value_exact [OF assms(1)] by (simp add: checked_def)

lemma run_checked_overflow:
  assumes "int_type dt" and "pairs_in_type dt ps" and "\<not> results_in_type dt oper ps"
  shows "\<exists>vs'. run_checked (\<lambda>a b. checked chk val env a b dt) ps vs = Inr (INTERNAL_ERROR, vs')"
proof (rule run_checked_verdict)
  show "\<forall>(a, b) \<in> set ps. checked chk val env a b dt =
      Inr (if in_type dt (oper a b) then (oper a b, SUCCESS) else (0, INTERNAL_ERROR))"
    using assms(2) checked_eq [OF assms(1)] by (fastforce simp: pairs_in_type_def)
  show "\<not> (\<forall>(a, b) \<in> set ps. in_type dt (oper a b))"
    using assms(3) by (simp add: results_in_type_def)
qed simp

lemma run_checked_exact:
  assumes "int_type dt" and "pairs_in_type dt ps" and "results_in_type dt oper ps"
  shows "run_checked (\<lambda>a b. checked chk val env a b dt) ps vs = Inr (SUCCESS, vs @ map (\<lambda>(a, b). oper a b) ps)"
proof (rule run_checked_success)
  show "\<forall>(a, b) \<in> set ps. checked chk val env a b dt = Inr (oper a b, SUCCESS)"
  proof clarify
    fix a b assume "(a, b) \<in> set ps"
    with assms(2,3) have "in_type dt a" "in_type dt b" "in_type dt (oper a b)"
      by (auto simp: pairs_in_type_def results_in_type_def)
    then show "checked chk val env a b dt = Inr (oper a b, SUCCESS)"
      by (simp add: checked_eq [OF assms(1)])
  qed
qed

end

lemmas fmk_exact = fmk_check_def check_defs verdict_def signed_add_check_exact signed_sub_check_exact
  signed_mul_check_exact unsigned_mul_check_exact unsigned_add_check_def unsigned_sub_check_def
  in_type_def signed_type_def int_width_def

interpretation add_op: int_operation OverflowCheck_Add add_elements "(+)"
proof
  fix dt x y and env :: kernel_env
  assume dt: "int_type dt" and x: "in_type dt x" and y: "in_type dt y"
  show "OverflowCheck_Add env x y dt = Inr (if in_type dt (x + y) then SUCCESS else INTERNAL_ERROR)"
    using int_type_cases [OF dt] x y
    by (elim insertE) (simp_all add: OverflowCheck_Add_def fmk_exact)
qed (simp add: add_elements_def int_type_not_float arith_exact)

interpretation sub_op: int_operation OverflowCheck_Sub sub_elements "(-)"
proof
  fix dt x y and env :: kernel_env
  assume dt: "int_type dt" and x: "in_type dt x" and y: "in_type dt y"
  show "OverflowCheck_Sub env x y dt = Inr (if in_type dt (x - y) then SUCCESS else INTERNAL_ERROR)"
    using int_type_cases [OF dt] x y
    by (elim insertE) (simp_all add: OverflowCheck_Sub_def fmk_exact)
qed (simp add: sub_elements_def int_type_not_float arith_exact)

interpretation mul_op: int_operation OverflowCheck_Mul mul_elements "(*)"
proof
  fix dt x y and env :: kernel_env
  assume dt: "int_type dt" and x: "in_type dt x" and y: "in_type dt y"
  show "OverflowCheck_Mul env x y dt = Inr (if in_type dt (x * y) then SUCCESS else INTERNAL_ERROR)"
    using int_type_cases [OF dt] x y
    by (elim insertE) (simp_all add: OverflowCheck_Mul_def fmk_exact)
qed (simp add: mul_elements_def int_type_not_float arith_exact)

lemma func_Sub_checked: "func_Sub env = checked OverflowCheck_Sub sub_elements env"
  by (intro ext) (simp add: func_Sub_def checked_def)

lemma func_Mul_checked: "func_Mul env = checked OverflowCheck_Mul mul_elements env"
  by (intro ext) (simp add: func_Mul_def checked_def)

section \<open>Foldable operands\<close>

definition well_typed :: "int tensor \<Rightarrow> bool" where
  "well_typed t \<longleftrightarrow> tensor_ok t \<and> (\<forall>v \<in> set (t_data t). in_type (t_dtype t) v)"

definition foldable :: "DataType \<Rightarrow> int tensor \<Rightarrow> int tensor \<Rightarrow> bool" where
  "foldable dt x y \<longleftrightarrow> int_type dt \<and> t_dtype x = dt \<and> t_dtype y = dt \<and> well_typed x \<and> well_typed y
     \<and> prod_list (broadcast_shape (t_shape x) (t_shape y)) < 2 ^ 63"

definition elementwise :: "DataType \<Rightarrow> (int \<Rightarrow> int \<Rightarrow> int) \<Rightarrow> int tensor \<Rightarrow> int tensor \<Rightarrow> int tensor" where
  "elementwise dt f x y = \<lparr> t_dtype = dt, t_shape = broadcast_shape (t_shape x) (t_shape y),
     t_data = map (\<lambda>(a, b). f a b) (broadcast_pairs x y) \<rparr>"

lemma elementwise_update: "elementwise dt f x y \<lparr> t_data := t_data (elementwise dt f x y) \<rparr> = elementwise dt f x y"
  by (simp add: elementwise_def)

lemma output_shape_bcast_info: "output_shape (bcast_info sx sy) = broadcast_shape sx sy"
  by (simp add: bcast_info_def new_BCast_def broadcast_shape_def pad_shape_def Let_def)

lemma foldable_broadcastable:
  "foldable dt x y \<Longrightarrow> compatible (t_shape x) (t_shape y) \<Longrightarrow> broadcastable x y"
  by (simp add: foldable_def broadcastable_def well_typed_def)

lemma tensor_ok_nonempty: "tensor_ok t \<Longrightarrow> t_data t \<noteq> []"
proof -
  assume ok: "tensor_ok t"
  have "\<forall>d \<in> set s. 0 < d \<Longrightarrow> 0 < prod_list s" for s :: "int list"
    by (induction s) simp_all
  with ok show ?thesis
    by (force simp: tensor_ok_def)
qed

lemma broadcast_pairs_elements:
  assumes "broadcastable x y" and "(a, b) \<in> set (broadcast_pairs x y)"
  shows "a \<in> set (t_data x)" and "b \<in> set (t_data y)"
proof -
  have c: "compatible (t_shape x) (t_shape y)" and pos: "\<forall>d \<in> set (t_shape x @ t_shape y). 0 < d"
    and ok: "tensor_ok x" "tensor_ok y"
    using assms(1) by (auto simp: broadcastable_def tensor_ok_def)
  note to = compatible_broadcasts_to [OF c pos]
  obtain js where js: "js \<in> set (multi_indexes (broadcast_shape (t_shape x) (t_shape y)))"
    and ab: "a = element_at (padded_x (t_shape x) (t_shape y)) (t_data x) js"
      "b = element_at (padded_y (t_shape x) (t_shape y)) (t_data y) js"
    using assms(2) by (auto simp: broadcast_pairs_def)
  show "a \<in> set (t_data x)"
    unfolding ab(1) element_at_def
    using row_index_bounds [OF to(1) js] ok(1) by (intro nth_mem) (simp add: tensor_ok_def nat_less_iff)
  show "b \<in> set (t_data y)"
    unfolding ab(2) element_at_def
    using row_index_bounds [OF to(2) js] ok(2) by (intro nth_mem) (simp add: tensor_ok_def nat_less_iff)
qed

lemma foldable_pairs_in_type:
  assumes "foldable dt x y" and "compatible (t_shape x) (t_shape y)"
  shows "pairs_in_type dt (broadcast_pairs x y)"
  using assms broadcast_pairs_elements [OF foldable_broadcastable [OF assms]]
  by (auto simp: pairs_in_type_def foldable_def well_typed_def)

lemma length_multi_indexes:
  assumes "\<forall>d \<in> set ds. 0 < d"
  shows "int (length (multi_indexes ds)) = prod_list ds"
  using assms
proof (induction ds)
  case Nil
  then show ?case by (simp add: multi_indexes_def)
next
  case (Cons d ds)
  then show ?case
    by (simp add: multi_indexes_Cons length_concat comp_def sum_list_triv)
qed

lemma broadcast_shape_pos:
  assumes "compatible sx sy" and "\<forall>d \<in> set (sx @ sy). 0 < d"
  shows "\<forall>d \<in> set (broadcast_shape sx sy). 0 < d"
  using compatible_broadcasts_to(1) [OF assms]
  by (auto simp: broadcasts_to_def list_all2_conv_all_nth in_set_conv_nth)

lemma elementwise_well_typed:
  assumes "foldable dt x y" and "compatible (t_shape x) (t_shape y)"
    and "\<forall>(a, b) \<in> set (broadcast_pairs x y). in_type ty (f a b)"
  shows "well_typed (elementwise ty f x y)"
proof -
  have "\<forall>d \<in> set (broadcast_shape (t_shape x) (t_shape y)). 0 < d"
    using assms(1,2) by (intro broadcast_shape_pos) (auto simp: foldable_def well_typed_def tensor_ok_def)
  then show ?thesis
    using assms(3) length_multi_indexes
    by (auto simp: well_typed_def tensor_ok_def elementwise_def broadcast_pairs_def)
qed

section \<open>The kernels\<close>

lemma BCastAdd_from_pairs:
  assumes "length xs = length ys" "\<forall>i \<in> set xs. 0 \<le> i \<and> i < int (length x1)" "\<forall>j \<in> set ys. 0 \<le> j \<and> j < int (length x2)"
  shows "BCastAdd_from env dt x1 x2 xs ys buf =
    and_then (run_checked (\<lambda>a b. checked OverflowCheck_Add add_elements env a b dt) (read_pairs x1 x2 xs ys) buf)
      (\<lambda>(ret, vs). Inr (if ret = SUCCESS then SUCCESS else PARAM_INVALID, vs))"
  using assms
  by (induction xs ys arbitrary: buf rule: list_induct2)
    (auto simp: read_pairs_def at_index_def checked_def and_then_def split: sum.splits)

lemma BCastAdd_broadcastable:
  assumes "broadcastable x y"
  shows "BCastAdd env [Some x, Some y] out =
    (if \<not> new_array env (t_dtype x) (length (broadcast_pairs x y)) then Inr (MEMALLOC_FAILED, out)
     else and_then (run_checked (\<lambda>a b. checked OverflowCheck_Add add_elements env a b (t_dtype x)) (broadcast_pairs x y) [])
       (\<lambda>(ret, vs). if ret \<noteq> SUCCESS then Inr (PARAM_INVALID, out)
         else if \<not> make_shared env then Inr (MEMALLOC_FAILED, out)
         else Inr (SUCCESS, out @ [\<lparr> t_dtype = t_dtype x, t_shape = broadcast_shape (t_shape x) (t_shape y), t_data = vs \<rparr>])))"
proof -
  obtain xs ys where facts: "GenerateBcastInfo new_BCast (t_shape x) (t_shape y) = Inr (SUCCESS, bcast_info (t_shape x) (t_shape y))"
    "BCastIndexes (bcast_info (t_shape x) (t_shape y)) [] [] = Inr (xs, ys)"
    "length xs = length ys" "\<forall>i \<in> set xs. 0 \<le> i \<and> i < int (length (t_data x))"
    "\<forall>j \<in> set ys. 0 \<le> j \<and> j < int (length (t_data y))"
    "read_pairs (t_data x) (t_data y) xs ys = broadcast_pairs x y"
    by (rule broadcastable_indexes [OF assms])
  have len: "length xs = length (broadcast_pairs x y)"
    using facts(3) unfolding facts(6) [symmetric] by (simp add: read_pairs_def)
  show ?thesis
    by (simp add: BCastAdd_def deref_def facts(1,2) BCastAdd_from_pairs [OF facts(3-5)] facts(6) len
        output_shape_bcast_info and_then_def split: sum.splits)
qed

lemma foldable_checks:
  assumes "foldable dt x y"
  shows "outputs_size od = 1 \<Longrightarrow> AddCheck (Some od) [Some x, Some y] = SUCCESS"
    and "MulCheck [Some x, Some y] = SUCCESS" and "MaximumCheck [Some x, Some y] = SUCCESS"
    and "GreaterCheck [Some x, Some y] = SUCCESS"
proof -
  have "t_data x \<noteq> []" "t_data y \<noteq> []" "t_dtype x = dt" "t_dtype y = dt"
    and "dt \<in> {DT_INT8, DT_INT16, DT_INT32, DT_INT64, DT_UINT8, DT_UINT16, DT_UINT32, DT_UINT64}"
    using assms int_type_cases [of dt] tensor_ok_nonempty by (auto simp: foldable_def well_typed_def)
  then show "outputs_size od = 1 \<Longrightarrow> AddCheck (Some od) [Some x, Some y] = SUCCESS"
    and "MulCheck [Some x, Some y] = SUCCESS" and "MaximumCheck [Some x, Some y] = SUCCESS"
    and "GreaterCheck [Some x, Some y] = SUCCESS"
    by (auto simp: AddCheck_def MulCheck_def MaximumCheck_def GreaterCheck_def kMulSupportedType_def
        kMaximumSupportedType_def greater_supported_type_def)
qed

lemma foldable_supported:
  assumes "foldable dt x y"
  shows "t_dtype x = dt" "t_dtype y = dt" "int_type dt"
    "dt \<in> {DT_INT8, DT_INT16, DT_INT32, DT_INT64, DT_UINT8, DT_UINT16, DT_UINT32, DT_UINT64, DT_FLOAT16, DT_FLOAT, DT_DOUBLE}"
    "dt \<in> {DT_INT8, DT_INT16, DT_INT32, DT_INT64, DT_UINT8, DT_UINT16, DT_UINT32, DT_UINT64, DT_FLOAT16, DT_FLOAT, DT_DOUBLE, DT_BOOL}"
  using assms int_type_cases [of dt] by (auto simp: foldable_def)

lemma AddKernel_Compute_eq:
  assumes "foldable dt x y" and "outputs_size od = 1"
  shows "AddKernel_Compute env (Some od) [Some x, Some y] out =
    (if compatible (t_shape x) (t_shape y) \<and> results_in_type dt (+) (broadcast_pairs x y)
        \<and> new_array env dt (length (broadcast_pairs x y)) \<and> make_shared env
     then Inr (SUCCESS, out @ [elementwise dt (+) x y]) else Inr (NOT_CHANGED, out))"
proof -
  note supp = foldable_supported [OF assms(1)]
  have start: "AddKernel_Compute env (Some od) [Some x, Some y] out =
      and_then (BCastAdd env [Some x, Some y] out) (\<lambda>(ret, out').
        if ret \<noteq> SUCCESS then Inr (NOT_CHANGED, out') else Inr (SUCCESS, out'))"
    unfolding AddKernel_Compute_def foldable_checks(1) [OF assms]
    using supp by (simp add: deref_def)
  show ?thesis
  proof (cases "compatible (t_shape x) (t_shape y)")
    case True
    note b = foldable_broadcastable [OF assms(1) True] and t = foldable_pairs_in_type [OF assms(1) True]
    show ?thesis
    proof (cases "results_in_type dt (+) (broadcast_pairs x y)")
      case results: True
      show ?thesis
        using True results unfolding start BCastAdd_broadcastable [OF b] supp(1)
        by (simp add: add_op.run_checked_exact [OF supp(3) t results] elementwise_def)
    next
      case False
      from add_op.run_checked_overflow [OF supp(3) t False, of env "[]"] obtain vs where
        "run_checked (\<lambda>a b. checked OverflowCheck_Add add_elements env a b dt) (broadcast_pairs x y) [] = Inr (INTERNAL_ERROR, vs)"
        by blast
      with False show ?thesis
        unfolding start BCastAdd_broadcastable [OF b] supp(1) by simp
    qed
  next
    case False
    with GenerateBcastInfo_incompatible [OF False, of new_BCast] show ?thesis
      unfolding start by (auto simp: BCastAdd_def deref_def)
  qed
qed

text \<open>The two kernels with member vectors: what is in the vector before comes before the result.\<close>

lemma SubKernel_Compute_eq:
  assumes "foldable dt x y" and "outputs_size od = 1"
  shows "\<exists>m. SubKernel_Compute env (Some od) [Some x, Some y] y_data out =
    (if compatible (t_shape x) (t_shape y) \<and> results_in_type dt (-) (broadcast_pairs x y)
        \<and> data_type_length_known env dt \<and> make_shared env
     then Inr (SUCCESS, m, out @ [elementwise dt (-) x y \<lparr> t_data := y_data dt @ t_data (elementwise dt (-) x y) \<rparr>])
     else Inr (NOT_CHANGED, m, out))"
proof -
  note supp = foldable_supported [OF assms(1)]
  note start = SubKernel_Compute_def [of env "Some od" "[Some x, Some y]"]
  show ?thesis
  proof (cases "compatible (t_shape x) (t_shape y)")
    case True
    note b = foldable_broadcastable [OF assms(1) True] and t = foldable_pairs_in_type [OF assms(1) True]
    show ?thesis
    proof (cases "results_in_type dt (-) (broadcast_pairs x y)")
      case results: True
      show ?thesis
        using True results supp(4) assms(2) unfolding start
        by (simp add: supp(1) BCastComputeCheck_broadcastable [OF b] func_Sub_checked
            sub_op.run_checked_exact [OF supp(3) t results] elementwise_def output_shape_bcast_info Let_def)
    next
      case False
      from sub_op.run_checked_overflow [OF supp(3) t False, of env "y_data dt"] obtain vs where
        "run_checked (\<lambda>a b. checked OverflowCheck_Sub sub_elements env a b dt) (broadcast_pairs x y) (y_data dt)
           = Inr (INTERNAL_ERROR, vs)"
        by blast
      with False supp(4) assms(2) show ?thesis
        unfolding start by (simp add: supp(1) BCastComputeCheck_broadcastable [OF b] func_Sub_checked Let_def)
    qed
  next
    case False
    with GenerateBcastInfo_incompatible [OF False, of new_BCast] supp assms(2) show ?thesis
      unfolding start by (auto simp: BCastComputeCheck_def deref_def Let_def)
  qed
qed

lemma MulKernel_Compute_eq:
  assumes "foldable dt x y"
  shows "\<exists>m. MulKernel_Compute env (Some od) [Some x, Some y] y_data out =
    (if compatible (t_shape x) (t_shape y) \<and> results_in_type dt (*) (broadcast_pairs x y) \<and> data_type_length_known env dt
     then if make_shared env
       then Inr (SUCCESS, m, out @ [elementwise dt (*) x y \<lparr> t_data := y_data dt @ t_data (elementwise dt (*) x y) \<rparr>])
       else Inr (MEMALLOC_FAILED, m, out)
     else Inr (NOT_CHANGED, m, out))"
proof -
  note supp = foldable_supported [OF assms(1)]
  note start = MulKernel_Compute_def [of env "Some od" "[Some x, Some y]"] foldable_checks(2) [OF assms]
  show ?thesis
  proof (cases "compatible (t_shape x) (t_shape y)")
    case True
    note b = foldable_broadcastable [OF assms(1) True] and t = foldable_pairs_in_type [OF assms(1) True]
    show ?thesis
    proof (cases "results_in_type dt (*) (broadcast_pairs x y)")
      case results: True
      show ?thesis
        using True results supp(4) unfolding start
        by (simp add: deref_def supp(1) BCastComputeCheck_broadcastable [OF b] func_Mul_checked
            mul_op.run_checked_exact [OF supp(3) t results] elementwise_def output_shape_bcast_info Let_def)
    next
      case False
      from mul_op.run_checked_overflow [OF supp(3) t False, of env "y_data dt"] obtain vs where
        "run_checked (\<lambda>a b. checked OverflowCheck_Mul mul_elements env a b dt) (broadcast_pairs x y) (y_data dt)
           = Inr (INTERNAL_ERROR, vs)"
        by blast
      with False supp(4) show ?thesis
        unfolding start
        by (simp add: deref_def supp(1) BCastComputeCheck_broadcastable [OF b] func_Mul_checked Let_def)
    qed
  next
    case False
    with GenerateBcastInfo_incompatible [OF False, of new_BCast] supp show ?thesis
      unfolding start by (auto simp: BCastComputeCheck_def deref_def Let_def)
  qed
qed

lemma MaximumKernel_Compute_eq:
  assumes "foldable dt x y"
  shows "MaximumKernel_Compute env (Some od) [Some x, Some y] out =
    (if compatible (t_shape x) (t_shape y) \<and> data_type_length_known env dt
     then if make_shared env then Inr (SUCCESS, out @ [elementwise dt max x y]) else Inr (MEMALLOC_FAILED, out)
     else Inr (NOT_CHANGED, out))"
proof -
  note supp = foldable_supported [OF assms(1)]
  note start = MaximumKernel_Compute_def [of env "Some od" "[Some x, Some y]"] foldable_checks(3) [OF assms]
  have run: "run_pairs (func_Maximum env dt) ps = Inr (map (\<lambda>(a, b). max a b) ps)" for ps
    by (rule run_pairs_total) (auto simp: func_Maximum_def element_greater_def int_type_not_float [OF supp(3)])
  show ?thesis
  proof (cases "compatible (t_shape x) (t_shape y)")
    case True
    show ?thesis
      using True supp(4) unfolding start
      by (simp add: deref_def supp(1) BCastCompute_broadcastable [OF foldable_broadcastable [OF assms True]] run
          elementwise_def output_shape_bcast_info Let_def)
  next
    case False
    with GenerateBcastInfo_incompatible [OF False, of new_BCast] supp show ?thesis
      unfolding start by (auto simp: BCastCompute_def deref_def Let_def)
  qed
qed

lemma GreaterKernel_Compute_eq:
  assumes "foldable dt x y"
  shows "GreaterKernel_Compute env (Some od) [Some x, Some y] out =
    (if compatible (t_shape x) (t_shape y)
     then if make_shared env
       then Inr (SUCCESS, out @ [elementwise DT_BOOL (\<lambda>a b. if a > b then 1 else 0) x y])
       else Inr (MEMALLOC_FAILED, out)
     else Inr (NOT_CHANGED, out))"
proof -
  note supp = foldable_supported [OF assms(1)]
  note start = GreaterKernel_Compute_def [of env "Some od" "[Some x, Some y]"] foldable_checks(4) [OF assms]
  have run: "run_pairs (func_Greater env dt) ps = Inr (map (\<lambda>(a, b). if a > b then 1 else 0) ps)" for ps
    by (rule run_pairs_total) (auto simp: func_Greater_def element_greater_def int_type_not_float [OF supp(3)])
  show ?thesis
  proof (cases "compatible (t_shape x) (t_shape y)")
    case True
    show ?thesis
      using True supp(5) unfolding start
      by (simp add: deref_def supp(1) BCastCompute_broadcastable [OF foldable_broadcastable [OF assms True]] run
          elementwise_def output_shape_bcast_info Let_def)
  next
    case False
    with GenerateBcastInfo_incompatible [OF False, of new_BCast] supp show ?thesis
      unfolding start by (auto simp: BCastCompute_def deref_def Let_def)
  qed
qed

section \<open>Behaviour outside the hypotheses\<close>

text \<open>An environment in which every allocation succeeds; the integer kernels do not use the other fields.\<close>

definition demo_env :: kernel_env where
  "demo_env = \<lparr> fp_add_check = (\<lambda>_ _ _. SUCCESS), fp_sub_check = (\<lambda>_ _ _. SUCCESS), fp_mul_check = (\<lambda>_ _ _. SUCCESS),
     fp_add = (\<lambda>_ a _. a), fp_sub = (\<lambda>_ a _. a), fp_mul = (\<lambda>_ a _. a), fp_greater = (\<lambda>_ _ _. False),
     fp_near_zero = (\<lambda>_ _. False), fp_floor_div = (\<lambda>_ a _. a), new_array = (\<lambda>_ _. True), make_shared = True,
     data_type_length_known = (\<lambda>_. True) \<rparr>"

text \<open>
  A dimension 0 before the last one does not empty the index vectors, and \<open>SubKernel\<close>, unlike the other kernels,
  does not check that its inputs have data: it reads past an empty tensor.
\<close>

lemma sub_kernel_empty_tensor:
  "SubKernel_Compute demo_env (Some \<lparr> outputs_size = 1 \<rparr>)
     [Some \<lparr> t_dtype = DT_INT32, t_shape = [0, 2], t_data = [] \<rparr>,
      Some \<lparr> t_dtype = DT_INT32, t_shape = [1, 2], t_data = [1, 2] \<rparr>] (\<lambda>_. []) [] = Inl Fault"
proof -
  have "BCastComputeCheck new_BCast [Some \<lparr> t_dtype = DT_INT32, t_shape = [0, 2], t_data = [] \<rparr>,
      Some \<lparr> t_dtype = DT_INT32, t_shape = [1, 2], t_data = [1, 2] \<rparr>] [] (Some (func_Sub demo_env)) = Inl Fault"
    by code_simp
  then show ?thesis
    by (simp add: SubKernel_Compute_def)
qed

text \<open>A second \<open>Compute\<close> on the same \<open>SubKernel\<close> object emits the elements of both calls.\<close>

lemma sub_kernel_reuse:
  "\<exists>m m'. SubKernel_Compute demo_env (Some \<lparr> outputs_size = 1 \<rparr>)
      [Some \<lparr> t_dtype = DT_INT32, t_shape = [], t_data = [5] \<rparr>, Some \<lparr> t_dtype = DT_INT32, t_shape = [], t_data = [3] \<rparr>]
      (\<lambda>_. []) [] = Inr (SUCCESS, m, [\<lparr> t_dtype = DT_INT32, t_shape = [], t_data = [2] \<rparr>])
    \<and> SubKernel_Compute demo_env (Some \<lparr> outputs_size = 1 \<rparr>)
      [Some \<lparr> t_dtype = DT_INT32, t_shape = [], t_data = [9] \<rparr>, Some \<lparr> t_dtype = DT_INT32, t_shape = [], t_data = [1] \<rparr>]
      m [] = Inr (SUCCESS, m', [\<lparr> t_dtype = DT_INT32, t_shape = [], t_data = [2, 8] \<rparr>])"
proof (intro exI conjI)
  let ?t = "\<lambda>v. Some \<lparr> t_dtype = DT_INT32, t_shape = [], t_data = [v] \<rparr> :: int tensor option"
  have "BCastComputeCheck new_BCast [?t 5, ?t 3] [] (Some (func_Sub demo_env)) = Inr (SUCCESS, bcast_info [] [], [2])"
    "BCastComputeCheck new_BCast [?t 9, ?t 1] [2] (Some (func_Sub demo_env)) = Inr (SUCCESS, bcast_info [] [], [2, 8])"
    "output_shape (bcast_info [] []) = []" "data_type_length_known demo_env DT_INT32" "make_shared demo_env"
    by code_simp+
  note demo = this
  show "SubKernel_Compute demo_env (Some \<lparr> outputs_size = 1 \<rparr>) [?t 5, ?t 3] (\<lambda>_. []) []
      = Inr (SUCCESS, (\<lambda>_. [])(DT_INT32 := [2]), [\<lparr> t_dtype = DT_INT32, t_shape = [], t_data = [2] \<rparr>])"
    and "SubKernel_Compute demo_env (Some \<lparr> outputs_size = 1 \<rparr>) [?t 9, ?t 1] ((\<lambda>_. [])(DT_INT32 := [2])) []
      = Inr (SUCCESS, (\<lambda>_. [])(DT_INT32 := [2, 8]), [\<lparr> t_dtype = DT_INT32, t_shape = [], t_data = [2, 8] \<rparr>])"
    by (simp_all add: SubKernel_Compute_def demo)
qed

section \<open>Properties\<close>

text \<open>
  C14: On two tensors of the same integer type the addition kernel appends exactly the tensor of the broadcast sums
  when the shapes are compatible, every sum fits the type and the allocations succeed; otherwise it reports
  NOT_CHANGED and leaves the outputs alone. It never reads outside a tensor and never overflows.
\<close>

theorem add_kernel_correct:
  assumes "foldable dt x y" and "outputs_size od = 1"
  shows "AddKernel_Compute env (Some od) [Some x, Some y] out =
    (if compatible (t_shape x) (t_shape y) \<and> results_in_type dt (+) (broadcast_pairs x y)
        \<and> new_array env dt (length (broadcast_pairs x y)) \<and> make_shared env
     then Inr (SUCCESS, out @ [elementwise dt (+) x y]) else Inr (NOT_CHANGED, out))"
  using assms by (rule AddKernel_Compute_eq)

theorem add_kernel_correct_witness:
  "AddKernel_Compute demo_env (Some \<lparr> outputs_size = 1 \<rparr>)
     [Some \<lparr> t_dtype = DT_INT8, t_shape = [2, 1], t_data = [100, 20] \<rparr>,
      Some \<lparr> t_dtype = DT_INT8, t_shape = [2], t_data = [1, 27] \<rparr>] []
   = Inr (SUCCESS, [\<lparr> t_dtype = DT_INT8, t_shape = [2, 2], t_data = [101, 127, 21, 47] \<rparr>])"
proof -
  let ?x = "\<lparr> t_dtype = DT_INT8, t_shape = [2, 1], t_data = [100, 20] \<rparr> :: int tensor"
  let ?y = "\<lparr> t_dtype = DT_INT8, t_shape = [2], t_data = [1, 27] \<rparr> :: int tensor"
  have "foldable DT_INT8 ?x ?y" and "outputs_size \<lparr> outputs_size = 1 \<rparr> = 1"
    by code_simp+
  note kernel = add_kernel_correct [OF this, of demo_env "[]"]
  have "compatible (t_shape ?x) (t_shape ?y) \<and> results_in_type DT_INT8 (+) (broadcast_pairs ?x ?y)
      \<and> new_array demo_env DT_INT8 (length (broadcast_pairs ?x ?y)) \<and> make_shared demo_env"
    and "elementwise DT_INT8 (+) ?x ?y = \<lparr> t_dtype = DT_INT8, t_shape = [2, 2], t_data = [101, 127, 21, 47] \<rparr>"
    by code_simp+
  with kernel show ?thesis by simp
qed

text \<open>
  C31: A fresh subtraction or multiplication kernel appends the tensor of the broadcast differences or products when
  the shapes are compatible and every result fits the type; on overflow or incompatible shapes it reports
  NOT_CHANGED. No element is read outside its tensor.
\<close>

theorem sub_mul_kernels_correct:
  assumes "foldable dt x y" and "outputs_size od = 1" and "data_type_length_known env dt" and "make_shared env"
  shows "(\<exists>m. SubKernel_Compute env (Some od) [Some x, Some y] (\<lambda>_. []) out =
      (if compatible (t_shape x) (t_shape y) \<and> results_in_type dt (-) (broadcast_pairs x y)
       then Inr (SUCCESS, m, out @ [elementwise dt (-) x y]) else Inr (NOT_CHANGED, m, out)))
    \<and> (\<exists>m. MulKernel_Compute env (Some od) [Some x, Some y] (\<lambda>_. []) out =
      (if compatible (t_shape x) (t_shape y) \<and> results_in_type dt (*) (broadcast_pairs x y)
       then Inr (SUCCESS, m, out @ [elementwise dt (*) x y]) else Inr (NOT_CHANGED, m, out)))"
  using SubKernel_Compute_eq [OF assms(1,2), of env "\<lambda>_. []" out] MulKernel_Compute_eq [OF assms(1), of env od "\<lambda>_. []" out]
    assms(3,4) unfolding append_Nil elementwise_update if_P [OF assms(4)] by simp

theorem sub_mul_kernels_correct_witness:
  "(\<exists>m. SubKernel_Compute demo_env (Some \<lparr> outputs_size = 1 \<rparr>)
     [Some \<lparr> t_dtype = DT_UINT8, t_shape = [2], t_data = [200, 9] \<rparr>, Some \<lparr> t_dtype = DT_UINT8, t_shape = [], t_data = [10] \<rparr>]
     (\<lambda>_. []) [] = Inr (NOT_CHANGED, m, []))
   \<and> (\<exists>m. MulKernel_Compute demo_env (Some \<lparr> outputs_size = 1 \<rparr>)
     [Some \<lparr> t_dtype = DT_UINT8, t_shape = [2], t_data = [20, 9] \<rparr>, Some \<lparr> t_dtype = DT_UINT8, t_shape = [], t_data = [10] \<rparr>]
     (\<lambda>_. []) [] = Inr (SUCCESS, m, [\<lparr> t_dtype = DT_UINT8, t_shape = [2], t_data = [200, 90] \<rparr>]))"
proof -
  let ?x = "\<lparr> t_dtype = DT_UINT8, t_shape = [2], t_data = [200, 9] \<rparr> :: int tensor"
  let ?x' = "\<lparr> t_dtype = DT_UINT8, t_shape = [2], t_data = [20, 9] \<rparr> :: int tensor"
  let ?y = "\<lparr> t_dtype = DT_UINT8, t_shape = [], t_data = [10] \<rparr> :: int tensor"
  have f: "foldable DT_UINT8 ?x ?y" "foldable DT_UINT8 ?x' ?y" and e: "outputs_size \<lparr> outputs_size = 1 \<rparr> = 1"
    "data_type_length_known demo_env DT_UINT8" "make_shared demo_env"
    by code_simp+
  have "\<not> results_in_type DT_UINT8 (-) (broadcast_pairs ?x ?y)"
    and "compatible (t_shape ?x') (t_shape ?y)" and "results_in_type DT_UINT8 (*) (broadcast_pairs ?x' ?y)"
    and "elementwise DT_UINT8 (*) ?x' ?y = \<lparr> t_dtype = DT_UINT8, t_shape = [2], t_data = [200, 90] \<rparr>"
    by code_simp+
  then show ?thesis
    using sub_mul_kernels_correct [OF f(1) e, of "[]"] sub_mul_kernels_correct [OF f(2) e, of "[]"] by simp
qed

text \<open>
  The maximum kernel appends the tensor of the element-wise maxima, the comparison kernel the boolean tensor
  that holds 1 exactly where the first operand is greater; incompatible shapes give NOT_CHANGED.
\<close>

theorem maximum_greater_kernels_correct:
  assumes "foldable dt x y" and "data_type_length_known env dt" and "make_shared env"
  shows "MaximumKernel_Compute env (Some od) [Some x, Some y] out =
      (if compatible (t_shape x) (t_shape y) then Inr (SUCCESS, out @ [elementwise dt max x y]) else Inr (NOT_CHANGED, out))
    \<and> GreaterKernel_Compute env (Some od) [Some x, Some y] out =
      (if compatible (t_shape x) (t_shape y)
       then Inr (SUCCESS, out @ [elementwise DT_BOOL (\<lambda>a b. if a > b then 1 else 0) x y]) else Inr (NOT_CHANGED, out))"
  using MaximumKernel_Compute_eq [OF assms(1)] GreaterKernel_Compute_eq [OF assms(1)] assms(2,3) by simp

theorem maximum_greater_kernels_correct_witness:
  "MaximumKernel_Compute demo_env (Some \<lparr> outputs_size = 1 \<rparr>)
     [Some \<lparr> t_dtype = DT_INT16, t_shape = [2], t_data = [4, - 9] \<rparr>, Some \<lparr> t_dtype = DT_INT16, t_shape = [], t_data = [3] \<rparr>] []
     = Inr (SUCCESS, [\<lparr> t_dtype = DT_INT16, t_shape = [2], t_data = [4, 3] \<rparr>])
   \<and> GreaterKernel_Compute demo_env (Some \<lparr> outputs_size = 1 \<rparr>)
     [Some \<lparr> t_dtype = DT_INT16, t_shape = [2], t_data = [4, - 9] \<rparr>, Some \<lparr> t_dtype = DT_INT16, t_shape = [], t_data = [3] \<rparr>] []
     = Inr (SUCCESS, [\<lparr> t_dtype = DT_BOOL, t_shape = [2], t_data = [1, 0] \<rparr>])"
proof -
  let ?x = "\<lparr> t_dtype = DT_INT16, t_shape = [2], t_data = [4, - 9] \<rparr> :: int tensor"
  let ?y = "\<lparr> t_dtype = DT_INT16, t_shape = [], t_data = [3] \<rparr> :: int tensor"
  have "foldable DT_INT16 ?x ?y" and "data_type_length_known demo_env DT_INT16" and "make_shared demo_env"
    by code_simp+
  note kernel = maximum_greater_kernels_correct [OF this, of "\<lparr> outputs_size = 1 \<rparr>" "[]"]
  have "compatible (t_shape ?x) (t_shape ?y)"
    and "elementwise DT_INT16 max ?x ?y = \<lparr> t_dtype = DT_INT16, t_shape = [2], t_data = [4, 3] \<rparr>"
    and "elementwise DT_BOOL (\<lambda>a b. if a > b then 1 else 0) ?x ?y = \<lparr> t_dtype = DT_BOOL, t_shape = [2], t_data = [1, 0] \<rparr>"
    by code_simp+
  with kernel show ?thesis by simp
qed

text \<open>
  C32: Whatever an addition or maximum kernel, or a subtraction or multiplication kernel that has not computed before,
  produces from two well-typed tensors of an integer type is well typed: its dimensions are positive, it has as many
  elements as its shape says, and every element lies in the range of its data type.
\<close>

theorem kernel_outputs_well_typed:
  assumes "foldable dt x y" and "outputs_size od = 1"
    and "AddKernel_Compute env (Some od) [Some x, Some y] [] = Inr (SUCCESS, ts)
      \<or> (\<exists>m. SubKernel_Compute env (Some od) [Some x, Some y] (\<lambda>_. []) [] = Inr (SUCCESS, m, ts))
      \<or> (\<exists>m. MulKernel_Compute env (Some od) [Some x, Some y] (\<lambda>_. []) [] = Inr (SUCCESS, m, ts))
      \<or> MaximumKernel_Compute env (Some od) [Some x, Some y] [] = Inr (SUCCESS, ts)"
  shows "\<exists>t. ts = [t] \<and> t_dtype t = dt \<and> well_typed t"
proof -
  have "\<exists>f. ts = [elementwise dt f x y] \<and> compatible (t_shape x) (t_shape y)
      \<and> (results_in_type dt f (broadcast_pairs x y) \<or> f = max)"
    using assms(3) AddKernel_Compute_eq [OF assms(1,2), of env "[]"]
      SubKernel_Compute_eq [OF assms(1,2), of env "\<lambda>_. []" "[]"] MulKernel_Compute_eq [OF assms(1), of env od "\<lambda>_. []" "[]"]
      MaximumKernel_Compute_eq [OF assms(1), of env od "[]"]
    by (auto split: if_splits)
  then obtain f where f: "ts = [elementwise dt f x y]" "compatible (t_shape x) (t_shape y)"
      "results_in_type dt f (broadcast_pairs x y) \<or> f = max"
    by blast
  then have "\<forall>(a, b) \<in> set (broadcast_pairs x y). in_type dt (f a b)"
    using foldable_pairs_in_type [OF assms(1) f(2)] by (auto simp: results_in_type_def pairs_in_type_def max_def)
  then show ?thesis
    using elementwise_well_typed [OF assms(1) f(2), of dt f] f(1) by (simp add: elementwise_def)
qed

theorem kernel_outputs_well_typed_witness:
  "\<exists>t. [\<lparr> t_dtype = DT_INT8, t_shape = [2], t_data = [101, 127] \<rparr>] = [t] \<and> t_dtype t = DT_INT8 \<and> well_typed t"
proof (rule kernel_outputs_well_typed)
  let ?x = "\<lparr> t_dtype = DT_INT8, t_shape = [], t_data = [100] \<rparr> :: int tensor"
  let ?y = "\<lparr> t_dtype = DT_INT8, t_shape = [2], t_data = [1, 27] \<rparr> :: int tensor"
  show "foldable DT_INT8 ?x ?y" and "outputs_size \<lparr> outputs_size = 1 \<rparr> = 1"
    by code_simp+
  have "AddKernel_Compute demo_env (Some \<lparr> outputs_size = 1 \<rparr>) [Some ?x, Some ?y] []
      = Inr (SUCCESS, [\<lparr> t_dtype = DT_INT8, t_shape = [2], t_data = [101, 127] \<rparr>])"
    by code_simp
  then show "AddKernel_Compute demo_env (Some \<lparr> outputs_size = 1 \<rparr>) [Some ?x, Some ?y] []
        = Inr (SUCCESS, [\<lparr> t_dtype = DT_INT8, t_shape = [2], t_data = [101, 127] \<rparr>])
      \<or> (\<exists>m. SubKernel_Compute demo_env (Some \<lparr> outputs_size = 1 \<rparr>) [Some ?x, Some ?y] (\<lambda>_. []) []
        = Inr (SUCCESS, m, [\<lparr> t_dtype = DT_INT8, t_shape = [2], t_data = [101, 127] \<rparr>]))
      \<or> (\<exists>m. MulKernel_Compute demo_env (Some \<lparr> outputs_size = 1 \<rparr>) [Some ?x, Some ?y] (\<lambda>_. []) []
        = Inr (SUCCESS, m, [\<lparr> t_dtype = DT_INT8, t_shape = [2], t_data = [101, 127] \<rparr>]))
      \<or> MaximumKernel_Compute demo_env (Some \<lparr> outputs_size = 1 \<rparr>) [Some ?x, Some ?y] []
        = Inr (SUCCESS, [\<lparr> t_dtype = DT_INT8, t_shape = [2], t_data = [101, 127] \<rparr>])"
    by simp
qed

end
