(* ===== verification/Floor_Kernels.thy ===== *)
theory Floor_Kernels
  imports Arith_Correct
begin

text \<open>
  The floor-modulus and floor-division kernels (\<open>floormod_kernel.cc\<close>, \<open>floordiv_kernel.cc\<close>), with the C++
  arithmetic of their scalar functions written out: promotions, truncating division, conversions, and a \<open>Fault\<close>
  for signed overflow and for division by zero. The references are \<open>div\<close> and \<open>mod\<close> on the integers, which round
  towards minus infinity.
\<close>

section \<open>\<open>FloorModKernel\<close>\<close>

definition FloorDiv :: "int \<Rightarrow> int \<Rightarrow> int res" where
  "FloorDiv x y =
     (if (x < 0) \<noteq> (y < 0) then
        and_then (signed_value 32 \<bar>x\<bar>) (\<lambda>abs_x.
        and_then (signed_value 32 \<bar>y\<bar>) (\<lambda>abs_y.
        and_then (signed_value 32 (1 - abs_x)) (\<lambda>n.
        and_then (signed_div 32 n abs_y) (\<lambda>q.
        signed_value 32 (q - 1)))))
      else signed_div 32 x y)"

definition CheckYIsZero :: "int \<Rightarrow> DataType \<Rightarrow> Status" where
  "CheckYIsZero y type = (case type of
     DT_INT32 \<Rightarrow> if y = 0 then INTERNAL_ERROR else SUCCESS
   | _ \<Rightarrow> INTERNAL_ERROR)"

definition func_FloorMod :: "int \<Rightarrow> int \<Rightarrow> DataType \<Rightarrow> (int \<times> Status) res" where
  "func_FloorMod a b type =
     (let ret = CheckYIsZero b type in
      if ret \<noteq> SUCCESS then Inr (0, ret)
      else
        and_then (FloorDiv a b) (\<lambda>q.
        and_then (signed_value 32 (b * q)) (\<lambda>p.
        and_then (signed_value 32 (a - p)) (\<lambda>v. Inr (v, ret)))))"




section \<open>\<open>FloorDivKernel\<close>\<close>

definition kFloorDivSupportedType :: "DataType set" where
  "kFloorDivSupportedType = {DT_FLOAT, DT_DOUBLE, DT_UINT8, DT_INT8, DT_UINT16, DT_INT16, DT_INT32, DT_INT64}"

definition FloorDivCheck :: "op_desc option \<Rightarrow> 'a tensor option list \<Rightarrow> Status" where
  "FloorDivCheck op input =
     (if op = None then PARAM_INVALID
      else if length input \<noteq> 2 then PARAM_INVALID
      else case (input ! 0, input ! 1) of
        (Some x, Some y) \<Rightarrow>
          if length (t_shape x) \<noteq> 0 \<and> length (t_shape y) \<noteq> 0 \<and> t_shape x \<noteq> t_shape y then PARAM_INVALID
          else if t_dtype x \<noteq> t_dtype y then PARAM_INVALID
          else if t_dtype x \<notin> kFloorDivSupportedType then PARAM_INVALID
          else if length (t_data x) = 0 \<or> length (t_data y) = 0 then PARAM_INVALID
          else SUCCESS
      | _ \<Rightarrow> PARAM_INVALID)"

definition ShapeCal :: "'a tensor \<Rightarrow> 'a tensor \<Rightarrow> int list" where
  "ShapeCal x y = (if length (t_shape x) \<ge> length (t_shape y) then t_shape x else t_shape y)"

definition abs_element :: "DataType \<Rightarrow> int \<Rightarrow> int res" where
  "abs_element dt x = (if x < 0 then arith dt (- x) else Inr x)"

definition promoted_width :: "DataType \<Rightarrow> nat" where
  "promoted_width dt = (if dt = DT_INT64 then 64 else 32)"

definition DivCal :: "kernel_env \<Rightarrow> DataType \<Rightarrow> int \<Rightarrow> int \<Rightarrow> int res" where
  "DivCal env dt x_i y_i =
     (let p = promoted_width dt in
      if float_type dt then Inr (fp_floor_div env dt x_i y_i)
      else if (x_i < 0) \<noteq> (y_i < 0) then
        and_then (abs_element dt x_i) (\<lambda>abs_x_i.
        and_then (abs_element dt y_i) (\<lambda>abs_y_i.
        and_then (signed_value p (abs_x_i + abs_y_i)) (\<lambda>s.
        and_then (signed_value p (s - 1)) (\<lambda>t.
        and_then (signed_value p (- t)) (\<lambda>n.
        and_then (signed_div p n abs_y_i) (\<lambda>q.
        Inr (narrow dt (swrap 32 q))))))))
      else and_then (signed_div p x_i y_i) (\<lambda>q. Inr (narrow dt (swrap 32 q))))"

definition ZeroCheck :: "kernel_env \<Rightarrow> int \<Rightarrow> DataType \<Rightarrow> bool" where
  "ZeroCheck env element dt =
     (if dt \<in> {DT_UINT8, DT_INT8, DT_UINT16, DT_INT16, DT_INT32, DT_INT64} then element = 0
      else if dt = DT_FLOAT \<or> dt = DT_DOUBLE then fp_near_zero env dt element
      else False)"

text \<open>The three loops: a vector by a scalar, a scalar by a vector, and element by element.\<close>

fun DivByScalar_from :: "kernel_env \<Rightarrow> DataType \<Rightarrow> int list \<Rightarrow> int \<Rightarrow> int list \<Rightarrow> int list res" where
  "DivByScalar_from env dt [] y buf = Inr buf"
| "DivByScalar_from env dt (x # xs) y buf =
     and_then (DivCal env dt x y) (\<lambda>v. DivByScalar_from env dt xs y (buf @ [v]))"

fun DivScalarBy_from :: "kernel_env \<Rightarrow> DataType \<Rightarrow> int \<Rightarrow> int list \<Rightarrow> int list \<Rightarrow> (Status \<times> int list) res" where
  "DivScalarBy_from env dt x [] buf = Inr (SUCCESS, buf)"
| "DivScalarBy_from env dt x (y # ys) buf =
     (if ZeroCheck env y dt then Inr (PARAM_INVALID, buf)
      else and_then (DivCal env dt x y) (\<lambda>v. DivScalarBy_from env dt x ys (buf @ [v])))"

fun DivElements_from :: "kernel_env \<Rightarrow> DataType \<Rightarrow> int list \<Rightarrow> int list \<Rightarrow> int list \<Rightarrow> (Status \<times> int list) res" where
  "DivElements_from env dt [] ys buf = Inr (SUCCESS, buf)"
| "DivElements_from env dt (x # xs) [] buf = Inl Fault"
| "DivElements_from env dt (x # xs) (y # ys) buf =
     (if ZeroCheck env y dt then Inr (PARAM_INVALID, buf)
      else and_then (DivCal env dt x y) (\<lambda>v. DivElements_from env dt xs ys (buf @ [v])))"

definition DataCalBroadcast :: "kernel_env \<Rightarrow> DataType \<Rightarrow> int list \<Rightarrow> int list \<Rightarrow> (Status \<times> int list) res" where
  "DataCalBroadcast env dt x y =
     (let data_num = (if length x > length y then length x else length y) in
      if \<not> new_array env dt data_num then Inr (INTERNAL_ERROR, [])
      else if length x > length y then
        and_then (at_index y 0) (\<lambda>y0.
        if ZeroCheck env y0 dt then Inr (PARAM_INVALID, [])
        else and_then (DivByScalar_from env dt x y0 []) (\<lambda>buf. Inr (SUCCESS, buf)))
      else and_then (at_index x 0) (\<lambda>x0. DivScalarBy_from env dt x0 y []))"

definition DataCal :: "kernel_env \<Rightarrow> DataType \<Rightarrow> int tensor \<Rightarrow> int tensor \<Rightarrow> (Status \<times> int list) res" where
  "DataCal env dt x y =
     (if length (t_shape x) = length (t_shape y) then
        if \<not> new_array env dt (length (t_data x)) then Inr (INTERNAL_ERROR, [])
        else DivElements_from env dt (t_data x) (t_data y) []
      else
        and_then (DataCalBroadcast env dt (t_data x) (t_data y)) (\<lambda>(ret, buf).
        if ret \<noteq> SUCCESS then Inr (PARAM_INVALID, buf) else Inr (SUCCESS, buf)))"

definition ComputeByDataType :: "kernel_env \<Rightarrow> DataType \<Rightarrow> int tensor \<Rightarrow> int tensor \<Rightarrow> (Status \<times> int list) res" where
  "ComputeByDataType env dt x y =
     (if dt \<in> {DT_FLOAT, DT_DOUBLE, DT_UINT8, DT_INT8, DT_UINT16, DT_INT16, DT_INT32, DT_INT64}
      then DataCal env dt x y else Inr (NOT_CHANGED, []))"

definition FloorDivKernel_Compute ::
  "kernel_env \<Rightarrow> op_desc option \<Rightarrow> int tensor option list \<Rightarrow> int tensor list \<Rightarrow> (Status \<times> int tensor list) res"
where
  "FloorDivKernel_Compute env op input v_output =
     (if FloorDivCheck op input \<noteq> SUCCESS then Inr (NOT_CHANGED, v_output)
      else if \<not> make_shared env then Inr (NOT_CHANGED, v_output)
      else
        and_then (deref (input ! 0)) (\<lambda>x.
        and_then (deref (input ! 1)) (\<lambda>y.
        and_then (ComputeByDataType env (t_dtype x) x y) (\<lambda>(ret, buf).
        if ret \<noteq> SUCCESS then Inr (NOT_CHANGED, v_output)
        else Inr (SUCCESS, v_output @ [\<lparr> t_dtype = t_dtype x, t_shape = ShapeCal x y, t_data = buf \<rparr>])))))"

section \<open>The scalar functions\<close>

text \<open>Truncating division of the negated numerator, shifted by the divisor, is division rounded downwards.\<close>

lemma div_neg_pos:
  fixes a b :: int
  assumes "0 < a" and "0 < b"
  shows "(- a) div b = - ((a - 1) div b) - 1"
proof -
  have "- a = b * (- ((a - 1) div b) - 1) + (b - 1 - (a - 1) mod b)"
    using div_mult_mod_eq [of "a - 1" b] by (simp add: algebra_simps)
  moreover have "0 \<le> b - 1 - (a - 1) mod b" "b - 1 - (a - 1) mod b < b"
    using assms(2) pos_mod_bound [of b "a - 1"] pos_mod_sign [of b "a - 1"] by linarith+
  ultimately show ?thesis
    by (rule int_div_pos_eq)
qed

lemma opposite_signs_div:
  fixes x y :: int
  assumes "(x < 0) \<noteq> (y < 0)" and "x \<noteq> 0" and "y \<noteq> 0"
  shows "x div y = - ((\<bar>x\<bar> - 1) div \<bar>y\<bar>) - 1"
proof (cases "x < 0")
  case True
  then show ?thesis
    using assms div_neg_pos [of "- x" y] by simp
next
  case False
  then show ?thesis
    using assms div_neg_pos [of x "- y"] by simp
qed

lemma sdiv_minus_left: "0 \<le> n \<Longrightarrow> 0 < d \<Longrightarrow> (- n) sdiv d = - (n div (d :: int))"
  by (cases "n = 0") (simp_all add: signed_divide_int_def)

lemma same_signs_sdiv:
  fixes x y :: int
  assumes "(x < 0) = (y < 0)" and "y \<noteq> 0"
  shows "x sdiv y = x div y"
  using assms by (cases "x = 0"; cases "x < 0") (auto simp: signed_divide_int_def)

lemma abs_div_le:
  fixes x y :: int
  assumes "y \<noteq> 0"
  shows "\<bar>x div y\<bar> \<le> \<bar>x\<bar>"
proof (cases "x = 0")
  case False
  show ?thesis
  proof (cases "(x < 0) = (y < 0)")
    case True
    have "x div y = \<bar>x\<bar> div \<bar>y\<bar>"
      using True assms by (cases "x < 0") simp_all
    moreover have "\<bar>x\<bar> div \<bar>y\<bar> \<le> \<bar>x\<bar> div 1"
      using assms by (intro zdiv_mono2) auto
    moreover have "0 \<le> \<bar>x\<bar> div \<bar>y\<bar>"
      using assms by (simp add: pos_imp_zdiv_nonneg_iff)
    ultimately show ?thesis by simp
  next
    case opp: False
    have "(\<bar>x\<bar> - 1) div \<bar>y\<bar> \<le> (\<bar>x\<bar> - 1) div 1"
      using assms False by (intro zdiv_mono2) auto
    moreover have "0 \<le> (\<bar>x\<bar> - 1) div \<bar>y\<bar>"
      using assms False by (simp add: pos_imp_zdiv_nonneg_iff)
    ultimately show ?thesis
      using opposite_signs_div [OF _ False assms] opp by simp
  qed
qed simp

lemma signed_value_fits: "fits_signed p x \<Longrightarrow> signed_value p x = Inr x"
  by (simp add: signed_value_def)

lemma signed_div_floor:
  assumes "0 \<le> n" and "n \<le> smax p" and "0 < d" and "1 \<le> p"
  shows "signed_div p (- n) d = Inr (- (n div d))"
proof -
  have "0 \<le> n div d" "n div d \<le> n"
    using assms abs_div_le [of d n] by (simp_all add: pos_imp_zdiv_nonneg_iff)
  moreover have "smin p = - smax p - 1"
    using assms(4) width_facts [of p p] by simp
  ultimately have "fits_signed p (- (n div d))"
    using assms(2) by linarith
  then show ?thesis
    using assms by (simp add: signed_div_def sdiv_minus_left signed_value_fits)
qed

lemma signed_div_same_signs:
  assumes "fits_signed p x" and "(x < 0) = (y < 0)" and "y \<noteq> 0" and "1 \<le> p"
  shows "signed_div p x y = (if x = smin p \<and> y = - 1 then Inl Fault else Inr (x div y))"
proof -
  have p: "smin p = - smax p - 1" "0 \<le> smax p"
    using assms(4) width_facts [of p p] by simp_all
  have "fits_signed p (x div y)" if "\<not> (x = smin p \<and> y = - 1)"
  proof (cases "x = smin p")
    case True
    then have y: "y < - 1" "x < 0" using that assms(2,3) p by auto
    then have "x div y = (- x) div (- y)" by simp
    also have "\<dots> \<le> (- x) div 2" using y by (intro zdiv_mono2) auto
    finally have "x div y < - x" using y by linarith
    moreover have "0 \<le> x div y" using y by (simp add: neg_imp_zdiv_nonneg_iff)
    ultimately show ?thesis using True p by simp
  next
    case False
    then show ?thesis using abs_div_le [OF assms(3), of x] assms(1) p by linarith
  qed
  moreover have "\<not> fits_signed p (- smin p)" using p by simp
  ultimately show ?thesis
    using assms by (auto simp: signed_div_def same_signs_sdiv signed_value_def)
qed






definition divcal_safe :: "DataType \<Rightarrow> int \<Rightarrow> int \<Rightarrow> bool" where
  "divcal_safe dt x y \<longleftrightarrow> x \<noteq> smin (int_width dt) \<and> y \<noteq> smin (int_width dt)
     \<and> \<bar>x\<bar> + \<bar>y\<bar> \<le> smax (promoted_width dt) \<and> fits_signed 32 (x div y)"

lemma abs_element_exact:
  assumes "int_type dt" and "in_type dt x" and "x \<noteq> smin (int_width dt)"
  shows "abs_element dt x = Inr \<bar>x\<bar>" and "in_type dt \<bar>x\<bar>"
proof -
  have "1 \<le> int_width dt"
    using assms(1) by (simp add: int_type_def)
  then have "smin (int_width dt) = - smax (int_width dt) - 1"
    using width_facts [of "int_width dt" "int_width dt"] by simp
  then show "in_type dt \<bar>x\<bar>"
    using assms(2,3) by (auto simp: in_type_def split: if_splits)
  then show "abs_element dt x = Inr \<bar>x\<bar>"
    using arith_exact [OF assms(1), of "- x"] by (cases "x < 0") (simp_all add: abs_element_def)
qed

lemma narrow_exact: "int_type dt \<Longrightarrow> in_type dt x \<Longrightarrow> narrow dt x = x"
  using swrap_id [of "int_width dt" x] by (auto simp: narrow_def in_type_def int_type_def umax_def)

definition floordiv_undefined :: "DataType \<Rightarrow> int \<Rightarrow> int \<Rightarrow> bool" where
  "floordiv_undefined dt x y \<longleftrightarrow>
     (if (x < 0) = (y < 0) then x = smin (promoted_width dt) \<and> y = - 1 else smax (promoted_width dt) < \<bar>x\<bar> + \<bar>y\<bar>)"

definition floordiv_value :: "DataType \<Rightarrow> int \<Rightarrow> int \<Rightarrow> int" where
  "floordiv_value dt x y = narrow dt (swrap 32
     (if (x < 0) = (y < 0) then x div y
      else if x = smin (int_width dt) then (\<bar>x\<bar> + 1) div y - 1
      else if y = smin (int_width dt) then (if x \<le> 1 then - 1 else 0)
      else x div y))"

lemma floordiv_safe:
  assumes dt: "int_type dt" and x: "in_type dt x" and y: "in_type dt y" and nz: "y \<noteq> 0" and safe: "divcal_safe dt x y"
  shows "\<not> floordiv_undefined dt x y" and "floordiv_value dt x y = x div y"
proof -
  let ?p = "promoted_width dt"
  have p: "1 \<le> ?p" "smin ?p = - smax ?p - 1"
    using width_facts [of ?p ?p] by (simp_all add: promoted_width_def)
  have safes: "x \<noteq> smin (int_width dt)" "y \<noteq> smin (int_width dt)" "\<bar>x\<bar> + \<bar>y\<bar> \<le> smax ?p" "fits_signed 32 (x div y)"
    using safe by (simp_all add: divcal_safe_def)
  show "\<not> floordiv_undefined dt x y"
    using safes(3) p by (auto simp: floordiv_undefined_def)
  have "in_type dt (x div y)"
  proof (cases "signed_type dt")
    case True
    then show ?thesis
      using x abs_element_exact(2) [OF dt x safes(1)] abs_div_le [OF nz, of x] width_facts [of "int_width dt" "int_width dt"] dt
      by (auto simp: in_type_def int_type_def)
  next
    case False
    then show ?thesis
      using x y nz abs_div_le [OF nz, of x] by (auto simp: in_type_def pos_imp_zdiv_nonneg_iff)
  qed
  then show "floordiv_value dt x y = x div y"
    using swrap_id [of 32 "x div y"] safes narrow_exact [OF dt] by (simp add: floordiv_value_def)
qed

text \<open>The quotient of the absolute values, when both are representable.\<close>

lemma opposite_signs_quotient:
  fixes x y :: int
  assumes "(x < 0) \<noteq> (y < 0)" and "y \<noteq> 0"
  shows "- ((\<bar>x\<bar> + \<bar>y\<bar> - 1) div \<bar>y\<bar>) = x div y"
proof (cases "x = 0")
  case True
  then show ?thesis using assms by (simp add: div_pos_pos_trivial)
next
  case False
  have "\<bar>x\<bar> + \<bar>y\<bar> - 1 = (\<bar>x\<bar> - 1) + \<bar>y\<bar>" by simp
  then have "(\<bar>x\<bar> + \<bar>y\<bar> - 1) div \<bar>y\<bar> = (\<bar>x\<bar> - 1) div \<bar>y\<bar> + 1"
    using assms(2) div_add_self2 [of "\<bar>y\<bar>" "\<bar>x\<bar> - 1"] by (simp only: abs_eq_0 not_False_eq_True)
  then show ?thesis
    using opposite_signs_div [OF assms(1) False assms(2)] by simp
qed

text \<open>The part of \<open>DivCal\<close> for operands of opposite signs, after the absolute values.\<close>

definition div_opposite :: "nat \<Rightarrow> int \<Rightarrow> int \<Rightarrow> int res" where
  "div_opposite p a b = and_then (signed_value p (a + b)) (\<lambda>s. and_then (signed_value p (s - 1)) (\<lambda>t.
     and_then (signed_value p (- t)) (\<lambda>n. signed_div p n b)))"

lemma DivCal_opposite:
  assumes "int_type dt" and "(x < 0) \<noteq> (y < 0)"
  shows "DivCal env dt x y = and_then (abs_element dt x) (\<lambda>a. and_then (abs_element dt y) (\<lambda>b.
    and_then (div_opposite (promoted_width dt) a b) (\<lambda>q. Inr (narrow dt (swrap 32 q)))))"
  using assms by (simp add: DivCal_def Let_def int_type_not_float div_opposite_def and_then_def split: sum.split)

lemma div_opposite_abs:
  assumes "(x < 0) \<noteq> (y < 0)" and "y \<noteq> 0" and "1 \<le> p"
  shows "div_opposite p \<bar>x\<bar> \<bar>y\<bar> = (if smax p < \<bar>x\<bar> + \<bar>y\<bar> then Inl Fault else Inr (x div y))"
proof -
  have p: "smin p = - smax p - 1" "0 \<le> smax p"
    using assms(3) width_facts [of p p] by simp_all
  show ?thesis
  proof (cases "smax p < \<bar>x\<bar> + \<bar>y\<bar>")
    case True
    then show ?thesis by (simp add: div_opposite_def signed_value_def)
  next
    case False
    then have "fits_signed p (\<bar>x\<bar> + \<bar>y\<bar>)" "fits_signed p (\<bar>x\<bar> + \<bar>y\<bar> - 1)" "fits_signed p (- (\<bar>x\<bar> + \<bar>y\<bar> - 1))"
      using p assms(2) by linarith+
    moreover have "signed_div p (- (\<bar>x\<bar> + \<bar>y\<bar> - 1)) \<bar>y\<bar> = Inr (- ((\<bar>x\<bar> + \<bar>y\<bar> - 1) div \<bar>y\<bar>))"
      using False assms(2,3) by (intro signed_div_floor) linarith+
    ultimately show ?thesis
      using False opposite_signs_quotient [OF assms(1,2)] by (simp add: div_opposite_def signed_value_fits)
  qed
qed

lemma abs_element_min:
  shows "dt \<in> {DT_INT32, DT_INT64} \<Longrightarrow> abs_element dt (smin (int_width dt)) = Inl Fault"
    and "dt \<in> {DT_INT8, DT_INT16} \<Longrightarrow> abs_element dt (smin (int_width dt)) = Inr (smin (int_width dt))"
  by (auto simp: abs_element_def arith_def promoted_def narrow_def signed_type_def int_width_def signed_value_def swrap_def
      smin_def smax_def)

lemma div_opposite_min:
  assumes "w = 8 \<or> w = 16" and "fits_signed w x"
  shows "0 < x \<Longrightarrow> div_opposite 32 (smin w) x = Inr ((\<bar>smin w\<bar> + 1) div x - 1)"
    and "0 \<le> x \<Longrightarrow> div_opposite 32 x (smin w) = Inr (if x \<le> 1 then - 1 else 0)"
proof -
  define m where "m = - smin w"
  have m: "m = 128 \<or> m = 32768" "smin w = - m" "smax w = m - 1" and p: "smin 32 = - 2147483648" "smax 32 = 2147483647"
    using assms(1) by (auto simp: m_def smin_def smax_def)
  {
    assume x: "0 < x"
    have "signed_div 32 (m + 1 - x) x = Inr ((m + 1 - x) div x)"
      using x m assms(2) p signed_div_same_signs [of 32 "m + 1 - x" x] by auto
    moreover have "(m + 1) div x = (m + 1 - x) div x + 1"
      using x div_add_self2 [of x "m + 1 - x"] by simp
    ultimately show "div_opposite 32 (smin w) x = Inr ((\<bar>smin w\<bar> + 1) div x - 1)"
      using x m p assms(2) by (auto simp: div_opposite_def signed_value_def)
  next
    assume x: "0 \<le> x"
    consider "x = 0" | "x = 1" | "1 < x" using x by linarith
    then have "(m + 1 - x) div m = (if x \<le> 1 then 1 else 0)"
      using m(1,3) assms(2) by cases auto
    then have "(m + 1 - x) sdiv (- m) = (if x \<le> 1 then - 1 else 0)"
      using m assms(2) by (auto simp: signed_divide_int_def)
    then have "signed_div 32 (m + 1 - x) (- m) = Inr (if x \<le> 1 then - 1 else 0)"
      using m p by (auto simp: signed_div_def signed_value_def)
    then show "div_opposite 32 x (smin w) = Inr (if x \<le> 1 then - 1 else 0)"
      using x m p assms(2) by (auto simp: div_opposite_def signed_value_def)
  }
qed

lemma DivCal_total:
  assumes dt: "int_type dt" "dt \<in> kFloorDivSupportedType" and x: "in_type dt x" and y: "in_type dt y" and nz: "y \<noteq> 0"
  shows "DivCal env dt x y = (if floordiv_undefined dt x y then Inl Fault else Inr (floordiv_value dt x y))"
proof -
  let ?p = "promoted_width dt" and ?min = "smin (int_width dt)"
  have p: "1 \<le> ?p" by (simp add: promoted_width_def)
  show ?thesis
  proof (cases "(x < 0) = (y < 0)")
    case True
    have "fits_signed ?p x"
      using x dt by (auto simp: in_type_def kFloorDivSupportedType_def int_type_def signed_type_def int_width_def
          promoted_width_def smin_def smax_def umax_def)
    then show ?thesis
      using True signed_div_same_signs [OF _ True nz p]
      by (simp add: DivCal_def Let_def int_type_not_float [OF dt(1)] floordiv_undefined_def floordiv_value_def)
  next
    case False
    note opp = DivCal_opposite [OF dt(1) False, of env]
    have sgn: "dt \<in> {DT_INT8, DT_INT16, DT_INT32, DT_INT64}"
      using x y False by (auto simp: in_type_def signed_type_def split: if_splits)
    consider "x \<noteq> ?min \<and> y \<noteq> ?min" | "x = ?min \<or> y = ?min" "dt \<in> {DT_INT32, DT_INT64}"
      | "x = ?min \<or> y = ?min" "dt \<in> {DT_INT8, DT_INT16}" using sgn by auto
    then show ?thesis
    proof cases
      case 1
      then show ?thesis
        using False abs_element_exact(1) [OF dt(1) x] abs_element_exact(1) [OF dt(1) y]
        unfolding opp by (simp add: div_opposite_abs [OF False nz p] floordiv_undefined_def floordiv_value_def)
    next
      case 2
      have "abs_element dt x = Inl Fault \<or> (\<exists>a. abs_element dt x = Inr a) \<and> abs_element dt y = Inl Fault"
        using 2 abs_element_min(1) [OF 2(2)] abs_element_exact(1) [OF dt(1) x] by (cases "x = ?min") auto
      then have "DivCal env dt x y = Inl Fault" unfolding opp by auto
      moreover have "smax ?p < \<bar>x\<bar> + \<bar>y\<bar>"
        using 2 nz by (auto simp: int_width_def promoted_width_def smin_def smax_def)
      ultimately show ?thesis using False by (simp add: floordiv_undefined_def)
    next
      case 3
      then have w: "int_width dt = 8 \<or> int_width dt = 16" "?p = 32" by (auto simp: int_width_def promoted_width_def)
      have fits: "fits_signed (int_width dt) x" "fits_signed (int_width dt) y"
        using x y 3(2) by (auto simp: in_type_def signed_type_def)
      have small: "\<not> smax ?p < \<bar>x\<bar> + \<bar>y\<bar>" "?min < 0"
        using w fits by (auto simp: smin_def smax_def)
      note facts = abs_element_min(2) [OF 3(2)] div_opposite_min [OF w(1)] False small w(2)
      show ?thesis
      proof (cases "x = ?min")
        case True
        then have "0 < y" using False small(2) nz by simp
        then show ?thesis
          using True facts fits(2) unfolding opp
          by (simp add: abs_element_def floordiv_undefined_def floordiv_value_def)
      next
        case x0: False
        then have "y = ?min" "0 \<le> x" using 3(1) False small(2) by auto
        then show ?thesis
          using x0 facts fits(1) unfolding opp
          by (simp add: abs_element_def [of dt x] floordiv_undefined_def floordiv_value_def)
      qed
    qed
  qed
qed

section \<open>The kernels\<close>

definition nonzero_divisors :: "(int \<times> int) list \<Rightarrow> bool" where
  "nonzero_divisors ps \<longleftrightarrow> (\<forall>(a, b) \<in> set ps. b \<noteq> 0)"

text \<open>The kernels stop at the first zero divisor; an undefined operation before it is reached.\<close>

definition reaches_undefined :: "(int \<Rightarrow> int \<Rightarrow> bool) \<Rightarrow> (int \<times> int) list \<Rightarrow> bool" where
  "reaches_undefined undef ps \<longleftrightarrow> (\<exists>(a, b) \<in> set (takeWhile (\<lambda>(a, b). b \<noteq> 0) ps). undef a b)"

lemma division_simps:
  "\<not> reaches_undefined undef []" "reaches_undefined undef ((a, b) # ps) \<longleftrightarrow> b \<noteq> 0 \<and> (undef a b \<or> reaches_undefined undef ps)"
  "nonzero_divisors []" "nonzero_divisors ((a, b) # ps) \<longleftrightarrow> b \<noteq> 0 \<and> nonzero_divisors ps"
  by (auto simp: reaches_undefined_def nonzero_divisors_def)

lemma run_checked_total:
  assumes "\<forall>(a, b) \<in> set ps. f a b =
      (if b = 0 then Inr (0, e) else if undef a b then Inl Fault else Inr (g a b, SUCCESS))" and "e \<noteq> SUCCESS"
  shows "reaches_undefined undef ps \<Longrightarrow> run_checked f ps vs = Inl Fault"
    and "\<not> reaches_undefined undef ps \<Longrightarrow> nonzero_divisors ps
      \<Longrightarrow> run_checked f ps vs = Inr (SUCCESS, vs @ map (\<lambda>(a, b). g a b) ps)"
    and "\<not> reaches_undefined undef ps \<Longrightarrow> \<not> nonzero_divisors ps \<Longrightarrow> \<exists>vs'. run_checked f ps vs = Inr (e, vs')"
  using assms by (induction ps arbitrary: vs) (auto simp: division_simps split: if_splits)


definition div_pair :: "kernel_env \<Rightarrow> DataType \<Rightarrow> int \<Rightarrow> int \<Rightarrow> (int \<times> Status) res" where
  "div_pair env dt a b =
     (if ZeroCheck env b dt then Inr (0, PARAM_INVALID) else and_then (DivCal env dt a b) (\<lambda>v. Inr (v, SUCCESS)))"

lemma DivElements_from_pairs:
  "length xs = length ys \<Longrightarrow> DivElements_from env dt xs ys buf = run_checked (div_pair env dt) (zip xs ys) buf"
  by (induction xs ys arbitrary: buf rule: list_induct2) (auto simp: div_pair_def and_then_def split: sum.splits)

lemma DivScalarBy_from_pairs: "DivScalarBy_from env dt x ys buf = run_checked (div_pair env dt) (map (Pair x) ys) buf"
  by (induction ys arbitrary: buf) (auto simp: div_pair_def and_then_def split: sum.splits)

lemma DivByScalar_from_pairs:
  "\<not> ZeroCheck env y dt \<Longrightarrow> and_then (DivByScalar_from env dt xs y buf) (\<lambda>buf. Inr (SUCCESS, buf))
     = run_checked (div_pair env dt) (map (\<lambda>a. (a, y)) xs) buf"
proof (induction xs arbitrary: buf)
  case (Cons a xs)
  then show ?case
    by (cases "DivCal env dt a y") (simp_all add: div_pair_def)
qed simp

definition div_shapes :: "int list \<Rightarrow> int list \<Rightarrow> bool" where
  "div_shapes sx sy \<longleftrightarrow> sx = sy \<or> sx = [] \<or> sy = []"

lemma div_shapes_compatible:
  assumes "div_shapes (t_shape x) (t_shape y)" and "tensor_ok x" and "tensor_ok y"
  shows "compatible (t_shape x) (t_shape y)"
proof -
  have "list_all2 compatible_dim s s" "list_all2 compatible_dim (replicate (length s) 1) s"
    "list_all2 compatible_dim s (replicate (length s) 1)" if "\<forall>d \<in> set s. 0 < d" for s
    using that by (induction s) (auto simp: compatible_dim_def)
  with assms show ?thesis
    by (auto simp: div_shapes_def compatible_def tensor_ok_def pad_shape_def)
qed

lemma run_div_pair_status:
  "run_checked (div_pair env dt) ps buf = Inr (ret, vs) \<Longrightarrow> ret = SUCCESS \<or> ret = PARAM_INVALID"
  by (induction ps arbitrary: buf) (auto simp: div_pair_def and_then_def split: sum.splits if_splits prod.splits)

lemma DataCal_pairs:
  assumes "div_shapes (t_shape x) (t_shape y)" and "tensor_ok x" and "tensor_ok y"
    and "new_array env dt (length (broadcast_pairs x y))"
  shows "DataCal env dt x y = run_checked (div_pair env dt) (broadcast_pairs x y) []"
proof (cases "t_shape x = t_shape y")
  case True
  have "length (t_data x) = length (t_data y)"
    using assms(2,3) True by (simp add: tensor_ok_def)
  with assms(4) True show ?thesis
    by (simp add: DataCal_def broadcast_pairs_same(2) [OF True assms(2,3)] DivElements_from_pairs)
next
  case False
  let ?run = "run_checked (div_pair env dt) (broadcast_pairs x y) []"
  obtain a xs b ys where data: "t_data x = a # xs" "t_data y = b # ys"
    using tensor_ok_nonempty [OF assms(2)] tensor_ok_nonempty [OF assms(3)] by (meson list.exhaust)
  have "DataCalBroadcast env dt (t_data x) (t_data y) = ?run"
  proof (cases "t_shape x = []")
    case True
    then have "xs = []"
      using assms(2) data by (simp add: tensor_ok_def)
    with assms(4) show ?thesis
      by (simp add: DataCalBroadcast_def broadcast_pairs_scalar_x(2) [OF True assms(3)] data at_index_def
          DivScalarBy_from_pairs Let_def)
  next
    case x: False
    then have y: "t_shape y = []"
      using False assms(1) by (simp add: div_shapes_def)
    then have "ys = []"
      using assms(3) data by (simp add: tensor_ok_def)
    with assms(4) show ?thesis
      using DivByScalar_from_pairs [of env b dt "a # xs" "[]"]
      by (cases "xs = []"; cases "ZeroCheck env b dt")
        (simp_all add: DataCalBroadcast_def broadcast_pairs_scalar_y(2) [OF y assms(2)] data at_index_def
          DivScalarBy_from_pairs Let_def div_pair_def)
  qed
  moreover have "length (t_shape x) \<noteq> length (t_shape y)"
    using False assms(1) by (auto simp: div_shapes_def)
  moreover have "and_then ?run (\<lambda>(ret, buf). if ret \<noteq> SUCCESS then Inr (PARAM_INVALID, buf) else Inr (SUCCESS, buf)) = ?run"
    using run_div_pair_status [of env dt "broadcast_pairs x y" "[]"] by (cases ?run) auto
  ultimately show ?thesis
    by (simp add: DataCal_def)
qed

lemma DataCal_no_memory:
  assumes "div_shapes (t_shape x) (t_shape y)" and "tensor_ok x" and "tensor_ok y"
    and "\<not> new_array env dt (length (broadcast_pairs x y))"
  shows "\<exists>ret. ret \<noteq> SUCCESS \<and> DataCal env dt x y = Inr (ret, [])"
proof (cases "t_shape x = t_shape y")
  case True
  have "length (t_data x) = length (t_data y)"
    using assms(2,3) True by (simp add: tensor_ok_def)
  with assms(4) True show ?thesis
    by (simp add: DataCal_def broadcast_pairs_same(2) [OF True assms(2,3)])
next
  case False
  have nonempty: "1 \<le> length (t_data x)" "1 \<le> length (t_data y)"
    "t_data x \<noteq> []" "t_data y \<noteq> []"
    using tensor_ok_nonempty [OF assms(2)] tensor_ok_nonempty [OF assms(3)] by (simp_all add: Suc_le_eq)
  have "length (broadcast_pairs x y) = (if length (t_data x) > length (t_data y) then length (t_data x) else length (t_data y))"
  proof (cases "t_shape x = []")
    case True
    with assms(2) nonempty show ?thesis
      by (simp add: broadcast_pairs_scalar_x(2) [OF True assms(3)] tensor_ok_def)
  next
    case x: False
    then have y: "t_shape y = []"
      using False assms(1) by (simp add: div_shapes_def)
    with assms(3) nonempty show ?thesis
      by (simp add: broadcast_pairs_scalar_y(2) [OF y assms(2)] tensor_ok_def)
  qed
  moreover have "length (t_shape x) \<noteq> length (t_shape y)"
    using False assms(1) by (auto simp: div_shapes_def)
  ultimately show ?thesis
    using assms(4) by (simp add: DataCal_def DataCalBroadcast_def Let_def)
qed

lemma FloorDivKernel_Compute_eq:
  assumes "foldable dt x y" and "dt \<in> kFloorDivSupportedType"
  shows "FloorDivKernel_Compute env (Some od) [Some x, Some y] out =
    (if \<not> (div_shapes (t_shape x) (t_shape y) \<and> make_shared env \<and> new_array env dt (length (broadcast_pairs x y)))
     then Inr (NOT_CHANGED, out)
     else if reaches_undefined (floordiv_undefined dt) (broadcast_pairs x y) then Inl Fault
     else if nonzero_divisors (broadcast_pairs x y)
     then Inr (SUCCESS, out @ [elementwise dt (floordiv_value dt) x y]) else Inr (NOT_CHANGED, out))"
proof -
  note supp = foldable_supported [OF assms(1)]
  have ok: "tensor_ok x" "tensor_ok y" and data: "t_data x \<noteq> []" "t_data y \<noteq> []"
    using assms(1) tensor_ok_nonempty by (auto simp: foldable_def well_typed_def)
  have check: "FloorDivCheck (Some od) [Some x, Some y] = (if div_shapes (t_shape x) (t_shape y) then SUCCESS else PARAM_INVALID)"
    using data supp(1,2) assms(2) by (auto simp: FloorDivCheck_def div_shapes_def)
  show ?thesis
  proof (cases "div_shapes (t_shape x) (t_shape y) \<and> make_shared env")
    case True
    then have shapes: "div_shapes (t_shape x) (t_shape y)" and shared: "make_shared env"
      by simp_all
    note t = foldable_pairs_in_type [OF assms(1) div_shapes_compatible [OF shapes ok]]
    have start: "FloorDivKernel_Compute env (Some od) [Some x, Some y] out =
        and_then (DataCal env dt x y) (\<lambda>(ret, buf). if ret \<noteq> SUCCESS then Inr (NOT_CHANGED, out)
          else Inr (SUCCESS, out @ [\<lparr> t_dtype = dt, t_shape = ShapeCal x y, t_data = buf \<rparr>]))"
      using shapes shared assms(2)
      by (simp add: FloorDivKernel_Compute_def check deref_def supp(1) ComputeByDataType_def kFloorDivSupportedType_def
          cong: if_cong)
    have shape: "ShapeCal x y = broadcast_shape (t_shape x) (t_shape y)"
      using shapes broadcast_pairs_same(1) [OF _ ok] broadcast_pairs_scalar_y(1) [OF _ ok(1)]
        broadcast_pairs_scalar_x(1) [OF _ ok(2)] by (auto simp: div_shapes_def ShapeCal_def)
    have zero: "ZeroCheck env b dt = (b = 0)" for b
      using assms(2) int_type_cases [OF supp(3)] by (auto simp: ZeroCheck_def kFloorDivSupportedType_def)
    have "\<forall>(a, b) \<in> set (broadcast_pairs x y). div_pair env dt a b =
        (if b = 0 then Inr (0, PARAM_INVALID) else if floordiv_undefined dt a b then Inl Fault
         else Inr (floordiv_value dt a b, SUCCESS))"
      using t DivCal_total [OF supp(3) assms(2), of _ _ env] by (auto simp: pairs_in_type_def div_pair_def zero)
    note run = run_checked_total [OF this, of "[]"]
    show ?thesis
    proof (cases "new_array env dt (length (broadcast_pairs x y))")
      case mem: True
      show ?thesis
        using True mem run shape unfolding start DataCal_pairs [OF shapes ok mem]
        by (cases "reaches_undefined (floordiv_undefined dt) (broadcast_pairs x y)";
            cases "nonzero_divisors (broadcast_pairs x y)") (auto simp: elementwise_def)
    next
      case False
      with DataCal_no_memory [OF shapes ok False] show ?thesis
        unfolding start by auto
    qed
  next
    case False
    then show ?thesis
      by (auto simp: FloorDivKernel_Compute_def check)
  qed
qed

lemma elementwise_floordiv:
  assumes "foldable dt x y"
    and "div_shapes (t_shape x) (t_shape y) \<and> (\<forall>(a, b) \<in> set (broadcast_pairs x y). b \<noteq> 0 \<and> divcal_safe dt a b)"
  shows "\<not> reaches_undefined (floordiv_undefined dt) (broadcast_pairs x y)
    \<and> elementwise dt (floordiv_value dt) x y = elementwise dt (div) x y"
proof -
  have "compatible (t_shape x) (t_shape y)"
    using assms by (intro div_shapes_compatible) (auto simp: foldable_def well_typed_def)
  then have "\<forall>(a, b) \<in> set (broadcast_pairs x y). \<not> floordiv_undefined dt a b \<and> floordiv_value dt a b = a div b"
    using assms(2) foldable_pairs_in_type [OF assms(1)] floordiv_safe [OF foldable_supported(3) [OF assms(1)]]
    unfolding pairs_in_type_def by fast
  then show ?thesis
    by (auto simp: reaches_undefined_def elementwise_def dest: set_takeWhileD)
qed

section \<open>Where the kernels leave the mathematical functions\<close>

text \<open>
  The comment before \<open>FloorDiv\<close> says it computes floor(x/y). For a zero dividend and a negative divisor below -1
  it returns -1, and the modulus is the divisor instead of 0.
\<close>

lemma floormod_zero_dividend:
  "FloorDiv 0 (- 3) = Inr (- 1)" and "func_FloorMod 0 (- 3) DT_INT32 = Inr (- 3, SUCCESS)"
  by code_simp+

lemma floormod_overflows:
  "func_FloorMod (- (2 ^ 31)) 3 DT_INT32 = Inl Fault" and "func_FloorMod (2 ^ 31 - 1) (- (2 ^ 30)) DT_INT32 = Inl Fault"
  by code_simp+

text \<open>
  \<open>DivCal\<close> converts every quotient to \<open>int32_t\<close>, also for \<open>int64_t\<close> elements, and stores the absolute value of
  the smallest \<open>int8_t\<close> in an \<open>int8_t\<close>.
\<close>

lemma floordiv_truncates_int64: "DivCal env DT_INT64 (2 ^ 32) 1 = Inr 0"
  by (simp add: DivCal_def promoted_width_def float_type_def signed_div_def signed_value_def smin_def smax_def
      narrow_def signed_type_def int_width_def swrap_def)

lemma floordiv_int8_min: "DivCal env DT_INT8 (- 128) 3 = Inr 42"
  by (simp add: DivCal_def promoted_width_def float_type_def abs_element_def arith_def promoted_def signed_div_def
      signed_value_def smin_def smax_def narrow_def signed_type_def int_width_def swrap_def signed_divide_int_def)

section \<open>Properties\<close>



text \<open>
  C34: What the floor-division kernel does on any two tensors of a supported integer type. Shapes that differ without
  one being a scalar, a zero divisor or a failed allocation leave the outputs alone with NOT_CHANGED. An element pair
  before the first zero divisor on which the C++ expression overflows is undefined behaviour; these are the pairs of
  \<open>floordiv_undefined\<close>. Otherwise the kernel appends the tensor of \<open>floordiv_value\<close>: the quotient rounded towards minus
  infinity, converted to int32 and to the element type, where for operands of opposite signs one of which is the
  smallest int8 or int16 the result is that of the wrapped absolute value. On operands whose magnitudes and
  quotient stay in range these are the quotients rounded towards minus infinity and nothing is undefined.
\<close>

theorem floordiv_kernel_correct:
  assumes "foldable dt x y" and "dt \<in> kFloorDivSupportedType"
  shows "FloorDivKernel_Compute env (Some od) [Some x, Some y] out =
    (if \<not> (div_shapes (t_shape x) (t_shape y) \<and> make_shared env \<and> new_array env dt (length (broadcast_pairs x y)))
     then Inr (NOT_CHANGED, out)
     else if reaches_undefined (floordiv_undefined dt) (broadcast_pairs x y) then Inl Fault
     else if nonzero_divisors (broadcast_pairs x y)
     then Inr (SUCCESS, out @ [elementwise dt (floordiv_value dt) x y]) else Inr (NOT_CHANGED, out))
   \<and> (div_shapes (t_shape x) (t_shape y) \<and> (\<forall>(a, b) \<in> set (broadcast_pairs x y). b \<noteq> 0 \<and> divcal_safe dt a b) \<longrightarrow>
      \<not> reaches_undefined (floordiv_undefined dt) (broadcast_pairs x y)
      \<and> elementwise dt (floordiv_value dt) x y = elementwise dt (div) x y)"
  using FloorDivKernel_Compute_eq [OF assms, of env od out] elementwise_floordiv [OF assms(1)] by blast

theorem floordiv_kernel_correct_witness:
  "FloorDivKernel_Compute demo_env (Some \<lparr> outputs_size = 1 \<rparr>)
     [Some \<lparr> t_dtype = DT_INT8, t_shape = [], t_data = [- 7] \<rparr>,
      Some \<lparr> t_dtype = DT_INT8, t_shape = [3], t_data = [2, - 2, 7] \<rparr>] []
   = Inr (SUCCESS, [\<lparr> t_dtype = DT_INT8, t_shape = [3], t_data = [- 4, 3, - 1] \<rparr>])"
proof -
  let ?x = "\<lparr> t_dtype = DT_INT8, t_shape = [], t_data = [- 7] \<rparr> :: int tensor"
  let ?y = "\<lparr> t_dtype = DT_INT8, t_shape = [3], t_data = [2, - 2, 7] \<rparr> :: int tensor"
  have "foldable DT_INT8 ?x ?y" and "DT_INT8 \<in> kFloorDivSupportedType"
    by code_simp+
  note kernel = floordiv_kernel_correct [OF this, of demo_env "\<lparr> outputs_size = 1 \<rparr>" "[]"]
  have "div_shapes (t_shape ?x) (t_shape ?y)" and "nonzero_divisors (broadcast_pairs ?x ?y)"
    and "\<forall>(a, b) \<in> set (broadcast_pairs ?x ?y). b \<noteq> 0 \<and> divcal_safe DT_INT8 a b"
    and "make_shared demo_env \<and> new_array demo_env DT_INT8 (length (broadcast_pairs ?x ?y))"
    and "elementwise DT_INT8 (div) ?x ?y = \<lparr> t_dtype = DT_INT8, t_shape = [3], t_data = [- 4, 3, - 1] \<rparr>"
    by code_simp+
  with kernel show ?thesis by simp
qed

end
