(* ===== verification/Spec2Isabelle.thy ===== *)
theory Spec2Isabelle
  imports Formats Caching_Spec Rdma_Spec Floor_Kernels
begin

text \<open>
  GraphEngine prepares computation graphs for Ascend devices and runs them. This development covers its computational
  core: the format library that changes the memory layout and the element type of tensors, the half-precision type,
  the overflow checks, the broadcasting and the arithmetic constant-folding kernels, and the allocators of device
  memory. All paths below are relative to \<open>src/\<close>.

  \<^bold>\<open>How the parts work together.\<close> Clients call the entry points of \<open>ge/common/formats/formats.cc\<close>. A registry maps a pair
  of formats to a transfer (\<open>ge/common/formats/format_transfers/\<close>), which checks its arguments with the helpers of
  \<open>ge/common/formats/utils/\<close>, allocates the destination and copies element by element or block by block with the
  bounded copies of the C library. The transfer of element types converts through \<open>fp16_t\<close>
  (\<open>ge/common/fp16_t.cc\<close>). The constant-folding kernels (\<open>ge/host_kernels/\<close>) combine two tensors through \<open>BCast\<close>
  (\<open>ge/graph/common/bcast.cc\<close>) and guard every element operation with a check of \<open>ge/common/math/math_util.h\<close>. The
  caching allocator and the RDMA pool (\<open>ge/graph/manager/\<close>) obtain device memory from \<open>MemoryAllocator\<close> and cut it into
  the blocks of \<open>block_memory.h\<close>.

  \<^bold>\<open>Conventions.\<close> Fallible code returns \<open>'a res\<close>: \<open>Inl (Ret status)\<close> is an error status the source returns, \<open>Inl Fault\<close> is
  undefined behaviour or an uncaught exception (a read outside a buffer or of a byte never written, a dangling
  pointer, a signed overflow, a division by zero, an out-of-range \<open>at\<close>). So a theorem that gives the value of a call
  also says that the call has no such behaviour. \<open>int64_t\<close> expressions go through \<open>i64\<close>, \<open>size_t\<close> ones through
  \<open>u64\<close>; in \<open>Math_Util\<close> and the kernels a signed result that leaves its promoted type is a \<open>Fault\<close>. Loops are
  structural recursion over their counters (\<open>for_lt\<close>, \<open>for_upt\<close>), or recursion with a termination proof; the loops of
  \<open>fp16_t\<close> that wait for a bit to appear are \<open>partial_function (option)\<close>, and their termination is a theorem. There is no
  fuel anywhere. Log messages are left out.

  \<^bold>\<open>Foundations.\<close>
  \<^item> \<open>GE_Prelude\<close>: status codes, results, loops, 64-bit wrap-around and its simplification rules.
  \<^item> \<open>GE_Memory\<close>: buffers with uninitialised bytes, \<open>memcpy_s\<close> and \<open>memset_s\<close> with their length limit, row-major indexes,
    and \<open>fills\<close>, the rules by which nested copy loops are proved to write each element exactly as intended.
  \<^item> \<open>Formats_Utils\<close> (\<open>formats_trans_utils.cc\<close>, \<open>formats_definitions.h\<close>): shape checks, element counts, \<open>Ceil\<close>.
  \<^item> \<open>Transfer_Spec\<close>: the contract of a transfer. \<open>gathers\<close> states that a buffer is the image of another under a map of
    indexes, padding being zero; \<open>transfer_spec\<close> adds the empty tensor and the failed allocation. The locale \<open>transfer\<close>
    is the interface of one transfer, \<open>transfer_pair\<close> that of two inverse ones with the round trip proved in it once.

  \<^bold>\<open>Format library.\<close> Each theory has the argument checks, the shape inference, the copy loops and the two virtual
  functions of its files, and interprets \<open>transfer\<close> or \<open>transfer_pair\<close> on them.
  \<^item> \<open>Trans_Nc1hwc0\<close>: NCHW and NHWC to NC1HWC0 and back (\<open>format_transfer_{nchw_nc1hwc0, nhwc_nc1hwc0, nc1hwc0_nchw,
    nc1hwc0_nhwc}.cc\<close>).
  \<^item> \<open>Trans_Fracz\<close>: NCHW, HWCN and NHWC to FRACTAL\_Z and back (\<open>format_transfer_fractal_z.cc\<close>,
    \<open>format_transfer_fracz_{nchw, hwcn, nhwc}.cc\<close>).
  \<^item> \<open>Trans_C1hwncoc0\<close>: HWCN and C1HWNCoC0 (\<open>format_transfer_{hwcn_c1hwncoc0, c1hwncoc0_hwcn}.cc\<close>).
  \<^item> \<open>Trans_Fracz3D\<close>: DHWCN and DHWNC to the three-dimensional fractal formats
    (\<open>format_transfer_{dhwcn_fracz3D, dhwnc_fracz3D_transpose}.cc\<close>).
  \<^item> \<open>Nd_Blocks\<close>, \<open>Trans_FracNz\<close>, \<open>Trans_FracZz\<close>: ND, NCHW and NHWC to FRACTAL\_NZ and FRACTAL\_ZZ and back
    (\<open>format_transfer_fractal_{nz, zz}.cc\<close>).
  \<^item> \<open>Trans_Transpose\<close>: \<open>Transpose\<close> for any rank and the transfers among NCHW, NHWC, HWCN and CHWN
    (\<open>format_transfer_transpose.cc\<close>). The running index of the loop is shown to enumerate the destination.
  \<^item> \<open>Trans_FzC04\<close>: NCHW to FRACTAL\_Z\_C04 (\<open>format_transfer_nchw_fz_c04.cc\<close>), two paddings and two transpositions
    composed into one change of layout.
  \<^item> \<open>Datatype_Transfer\<close>: the sixteen conversions of element types (\<open>datatype_transfer.cc\<close>); the locale
    \<open>lossless_cast\<close> is interpreted for the five conversions that lose nothing.
  \<^item> \<open>Formats\<close>: the registrations and the entry points (\<open>formats.cc\<close>). The theorem below states for the whole library
    that every pair of formats supported in both directions goes there and back.

  \<^bold>\<open>Half precision.\<close> \<open>Fp16\<close> translates \<open>fp16_t.cc\<close> on bit patterns. \<open>Fp16_Correct\<close> and \<open>Fp16_Round\<close> give the patterns their
  values and define correct rounding; \<open>Fp16_Arith\<close> and \<open>Fp16_Add\<close> prove multiplication, addition and subtraction
  correctly rounded, \<open>Fp16_Ints\<close>, \<open>Fp16_Convert\<close> and \<open>Fp16_FromInt\<close> the conversions; \<open>Fp16_Spec\<close> states the results. A
  magnitude that rounds to \<open>2 ^ 16\<close> or more does not become infinity as in IEEE 754: \<open>rounded_or_invalid\<close> gives the pattern
  of all ones for it, and the theorems on conversions name the pattern of every other such input, so that they cover all
  integers and all \<open>float\<close> and \<open>double\<close> patterns. The loops that wait for a bit are shown to end.

  \<^bold>\<open>Kernels.\<close> \<open>Math_Util\<close> shows that each overflow check evaluates nothing that overflows and decides exactly whether
  its operation would. \<open>BCast\<close> and \<open>BCast_Correct\<close> show that the dimension and index vectors and both element-wise drivers
  compute broadcasting as defined on multi-indexes. \<open>Arith_Kernels\<close>, \<open>Arith_Correct\<close> and \<open>Floor_Kernels\<close> are the seven
  kernels (addition, subtraction, multiplication, maximum, comparison, floor modulus, floor division) with their
  results on every branch for tensors of integers; the locale \<open>int_operation\<close> is the contract between a check and the
  operation it guards. The floor kernels have no such checks: \<open>floormod_undefined\<close> and \<open>floordiv_undefined\<close> are the element pairs
  on which they overflow, \<open>floormod_value\<close> and \<open>floordiv_value\<close> what they compute on the others, which differs from the
  mathematical function on the pairs these definitions single out.

  \<^bold>\<open>Allocators.\<close> \<open>Block_Memory\<close> is the heap of \<open>Block\<close> objects with their \<open>prev\<close> and \<open>next\<close> pointers; \<open>Block_Chains\<close> its
  invariant, that the blocks tile the regions obtained from the device, kept by merging and splitting; \<open>Block_Pool\<close>
  adds the bins of free blocks, with the locale \<open>block_pool\<close> for what freeing a block needs of \<open>CanMerge\<close>.
  \<open>Graph_Mem_Allocator\<close> is \<open>MemoryAllocator\<close> on top of the device runtime. \<open>Caching_Allocator\<close>, \<open>Caching_Correct\<close> and
  \<open>Caching_Spec\<close> are the caching allocator, \<open>Rdma_Pool\<close> and \<open>Rdma_Spec\<close> the RDMA pool: in every state their clients can
  reach (an inductive predicate over the operations, in any order) allocations are disjoint and inside live device
  memory, \<open>Malloc\<close> and \<open>Free\<close> implement insertion into and deletion from a map of addresses to sizes, and \<open>Finalize\<close>
  returns every region to the device. \<open>Allocator_Contract\<close> is the interface both give their clients.

  \<^bold>\<open>Hypotheses and bounds.\<close> \<open>platform_ok\<close>: the size of an element is positive and below \<open>2 ^ 12\<close>, and the limit of the
  bounded copies lies between \<open>2 ^ 17\<close> and \<open>2 ^ 63\<close> (it is \<open>2 ^ 31 - 1\<close> in the secure C library; the copies of the blocked
  transfers are at most one block or one row). A valid shape has at most \<open>2 ^ 40\<close> elements (\<open>kShapeItemNumMAX\<close>), so byte
  counts stay below \<open>2 ^ 63\<close>. \<open>runtime_ok\<close>: a successful \<open>rtMalloc\<close> returns a range that overlaps no live one.
  \<open>registry_ok\<close>: the registry returns what was registered. The FRACTAL\_Z\_C04 transfer copies with \<open>int\<close> counters and
  whole buffers, so its theorem asks for fewer than \<open>2 ^ 31\<close> padded batch elements and buffers within the copy limit.

  \<^bold>\<open>Not modelled.\<close>
  \<^item> Everything on graphs, operators and attributes (\<open>ge/graph/{build, optimize, partition, passes, preprocess}\<close>,
    \<open>ge/ir_build\<close>, \<open>ge/generator\<close>, the kernels on shapes and slices in \<open>ge/host_kernels\<close>): the graph library is the
    submodule \<open>metadef\<close>, which is empty here, and almost every line calls it.
  \<^item> Model loading and execution (\<open>ge/executor\<close>, \<open>ge/ge_runtime\<close>, \<open>ge/graph/load\<close>, \<open>ge/hybrid\<close>, \<open>ge/single_op\<close>) and the sessions
    and engine managers above them: they drive the device runtime and shared objects through interfaces whose behaviour
    is not in the repository.
  \<^item> Files, dumps, profiling and options (\<open>ge/common/{auth, debug, dump, profiling, helper, model_parser}\<close>,
    \<open>ge/offline\<close>): input and output.
  \<^item> \<open>Fp16Div\<close> and \<open>fp16_math.cc\<close>, the floating-point checks of \<open>math_util.h\<close>, and the arithmetic of \<open>float\<close> and \<open>double\<close>
    elements in the kernels, which is a parameter: they compute with the \<open>float\<close> and \<open>double\<close> arithmetic of the platform or the C math library.
  \<^item> Locks and threads: the operations of an allocator hold its lock and are modelled one after the other;
    \<open>thread_pool.cc\<close> and the other users of threads are left out.
\<close>

text \<open>
  C1: The format library goes there and back. For every pair of formats supported in both directions, when \<open>TransShape\<close>
  returns the destination shape of a non-empty tensor and the two allocations succeed, \<open>TransFormat\<close> returns a result of that
  shape, and \<open>TransFormat\<close> of this result back to the source format returns the original bytes.
\<close>

theorem formats_roundtrip:
  assumes reg: "registry_ok reg" and sup: "IsTransFormatSupport reg args" "IsTransFormatSupport reg (args_back args no_result)"
    and shp: "formats_TransShape reg pf (src_format args) (src_shape args) (src_data_type args) (dst_format args) = Inr (dst_shape args)"
    and shape: "good_shape (src_shape args)" "prod_list (src_shape args) \<noteq> 0"
    and sz: "sz = GetSizeByDataType pf (src_data_type args)" "platform_ok pf sz" "holds_tensor sz (src_shape args) (data args) s"
    and new: "new_succeeds pf (prod_list (dst_shape args) * sz)" "new_succeeds pf (prod_list (src_shape args) * sz)"
  shows "\<exists>r. formats_TransFormat reg pf args result = Inr r \<and> res_length r = prod_list (dst_shape args) * sz \<and>
    formats_TransFormat reg pf (args_back args r) result' = Inr (result'\<lparr>res_data := Some s, res_length := int (length s)\<rparr>)"
proof -
  note rest = sz shape(2) new
  have "(src_format args, dst_format args) \<in> fst ` set registered" "(dst_format args, src_format args) \<in> fst ` set registered"
    using sup reg by (simp_all add: IsTransFormatSupport_def registry_ok_def)
  then show ?thesis
  proof (cases rule: registered_both)
    case nchw_5hd
    with shp nchw_5hd_advertised [of args pf] show ?thesis
      by (intro nchw_5hd.dispatch_back [OF reg nchw_5hd(3) _ nchw_5hd(4) _ _ rest]) (simp_all add: vtables formats_TransShape_eq [OF reg])
  next
    case nhwc_5hd
    with shp nhwc_5hd_advertised [of args pf] show ?thesis
      by (intro nhwc_5hd.dispatch_back [OF reg nhwc_5hd(3) _ nhwc_5hd(4) _ _ rest]) (simp_all add: vtables formats_TransShape_eq [OF reg])
  next
    case c1hwncoc0
    with shp c1hwncoc0_advertised [of args pf] show ?thesis
      by (intro c1hwncoc0.dispatch_back [OF reg c1hwncoc0(3) _ c1hwncoc0(4) _ _ rest]) (simp_all add: vtables formats_TransShape_eq [OF reg])
  next
    case nchw_fz
    with shp show ?thesis
      by (intro nchw_fz.dispatch_back [OF reg nchw_fz(3) _ nchw_fz(4) _ _ rest]) (simp_all add: vtables formats_TransShape_eq [OF reg] fz_accepted_def)
  next
    case hwcn_fz
    with shp show ?thesis
      by (intro hwcn_fz.dispatch_back [OF reg hwcn_fz(3) _ hwcn_fz(4) _ _ rest]) (simp_all add: vtables formats_TransShape_eq [OF reg] fz_accepted_def)
  next
    case nhwc_fz
    with shp show ?thesis
      by (intro nhwc_fz.dispatch_back [OF reg nhwc_fz(3) _ nhwc_fz(4) _ _ rest]) (simp_all add: vtables formats_TransShape_eq [OF reg] fz_accepted_def)
  next
    case transpose
    with shp shape(1) show ?thesis
      by (intro transpose.dispatch_back [OF reg transpose(1) _ transpose(2) _ _ rest])
        (simp_all add: vtables formats_TransShape_eq [OF reg] transpose_accepted_def)
  next
    case nz
    with shp nz_advertised [of pf args] show ?thesis
      by (intro nz.dispatch_back [OF reg nz(1) _ nz(2) _ _ rest]) (simp_all add: vtables formats_TransShape_eq [OF reg])
  next
    case zz
    with shp zz_advertised [of pf args] show ?thesis
      by (intro zz.dispatch_back [OF reg zz(1) _ zz(2) _ _ rest]) (simp_all add: vtables formats_TransShape_eq [OF reg])
  next
    case (backward t)
    with shp backward_shape_unsupported show ?thesis by (simp add: formats_TransShape_eq [OF reg])
  qed
qed

theorem formats_roundtrip_witness:
  "\<exists>r. formats_TransFormat sample_registry sample_platform transpose_sample no_result = Inr r \<and> res_length r = 6 \<and>
    formats_TransFormat sample_registry sample_platform (args_back transpose_sample r) no_result =
      Inr (no_result\<lparr>res_data := Some [Some 1, Some 2, Some 3, Some 4, Some 5, Some 6], res_length := 6\<rparr>)"
proof -
  have fmts: "src_format transpose_sample = FORMAT_NCHW" "dst_format transpose_sample = FORMAT_NHWC"
    by (simp_all add: transpose_sample_def sample_args_def)
  have "formats_TransShape sample_registry sample_platform (src_format transpose_sample) (src_shape transpose_sample)
      (src_data_type transpose_sample) (dst_format transpose_sample) = Inr (dst_shape transpose_sample)"
    by code_simp
  moreover have "IsTransFormatSupport sample_registry transpose_sample"
    "IsTransFormatSupport sample_registry (args_back transpose_sample no_result)"
    by (simp_all add: IsTransFormatSupport_def sample_registry_def registered_defs fmts)
  ultimately show ?thesis
    using formats_roundtrip [OF sample_registry_ok, of transpose_sample sample_platform 1
      "[Some 1, Some 2, Some 3, Some 4, Some 5, Some 6]" no_result no_result]
    by (simp add: transpose_sample_def sample_defs platform_ok_def holds_tensor_def good_shape_def kShapeItemNumMAX_def)
qed

end
